(* ===== verification/Go_Base.thy ===== *)
theory Go_Base
  imports Main "HOL-Library.Word" "HOL-Library.Multiset"
begin

text \<open>
  The parts of Go that every component of the model shares: results with errors and panics,
  byte slices with little-endian reads and writes (the standard library's
  \<^verbatim>\<open>binary.LittleEndian\<close>), and the saturating counters of
  \<^verbatim>\<open>internal/core/disk_tree.go\<close>.  A \<^verbatim>\<open>[]byte\<close> is a list of 8-bit words, a
  \<^verbatim>\<open>uint64\<close> is a 64-bit word, and a Go \<^verbatim>\<open>int\<close> that holds a length or an
  index is a natural number.
\<close>

unbundle bit_operations_syntax

named_theorems go_simps "facts that compute with Go results"
named_theorems no_panic_intros "how a computation is shown free of run-time panics"

section \<open>Results: values, errors, panics\<close>

type_synonym byte = "8 word"
type_synonym u16 = "16 word"
type_synonym u32 = "32 word"
type_synonym u64 = "64 word"

datatype ('e, 'a) go = Ret 'a | Err 'e | Panic

fun go_bind :: "('e, 'a) go \<Rightarrow> ('a \<Rightarrow> ('e, 'b) go) \<Rightarrow> ('e, 'b) go" where
  "go_bind (Ret a) f = f a"
| "go_bind (Err e) f = Err e"
| "go_bind Panic f = Panic"

lemma go_bind_cong [fundef_cong]:
  "m = m' \<Longrightarrow> (\<And>a. m' = Ret a \<Longrightarrow> f a = g a) \<Longrightarrow> go_bind m f = go_bind m' g"
  by (cases m') auto

definition go_check :: "bool \<Rightarrow> 'e \<Rightarrow> ('e, unit) go" where
  "go_check ok e = (if ok then Ret () else Err e)"

fun go_fold :: "('a \<Rightarrow> 's \<Rightarrow> ('e, 's) go) \<Rightarrow> 'a list \<Rightarrow> 's \<Rightarrow> ('e, 's) go" where
  "go_fold f [] s = Ret s"
| "go_fold f (x # xs) s = go_bind (f x s) (go_fold f xs)"

lemma go_fold_cong [fundef_cong]:
  "xs = ys \<Longrightarrow> s = t \<Longrightarrow> (\<And>x u. x \<in> set ys \<Longrightarrow> f x u = g x u) \<Longrightarrow> go_fold f xs s = go_fold g ys t"
proof (induction xs arbitrary: ys s t)
  case (Cons x xs)
  then show ?case by (cases "g x t") auto
qed simp

lemma go_bind_Ret2 [simp]: "go_bind m Ret = m"
  by (cases m) simp_all

lemma go_fold_append: "go_fold f (xs @ ys) s = go_bind (go_fold f xs s) (go_fold f ys)"
proof (induction xs arbitrary: s)
  case (Cons x xs)
  then show ?case by (cases "f x s") simp_all
qed simp

definition no_panic :: "('e, 'a) go \<Rightarrow> bool" where
  "no_panic m \<longleftrightarrow> m \<noteq> Panic"

lemma no_panic_simps [simp]: "no_panic (Ret a)" "no_panic (Err e)" "\<not> no_panic Panic"
  by (simp_all add: no_panic_def)

lemma no_panic_bind [no_panic_intros]:
  "no_panic m \<Longrightarrow> (\<And>a. m = Ret a \<Longrightarrow> no_panic (f a)) \<Longrightarrow> no_panic (go_bind m f)"
  by (cases m) auto

lemma no_panic_if:
  "(c \<Longrightarrow> no_panic m) \<Longrightarrow> (\<not> c \<Longrightarrow> no_panic m') \<Longrightarrow> no_panic (if c then m else m')"
  by simp

lemma no_panic_check [no_panic_intros, simp]: "no_panic (go_check ok e)"
  by (simp add: go_check_def)

lemma go_check_Ret [simp]: "go_check ok e = Ret u \<longleftrightarrow> ok"
  by (simp add: go_check_def)

lemma go_bind_Ret_iff: "go_bind m f = Ret b \<longleftrightarrow> (\<exists>a. m = Ret a \<and> f a = Ret b)"
  by (cases m) auto

lemma go_bind_RetE:
  assumes "go_bind m f = Ret b"
  obtains a where "m = Ret a" "f a = Ret b"
  using assms by (auto simp: go_bind_Ret_iff)

lemma no_panic_fold:
  assumes "P s" and "\<And>x s. x \<in> set xs \<Longrightarrow> P s \<Longrightarrow> no_panic (f x s)"
    and "\<And>x s s'. x \<in> set xs \<Longrightarrow> P s \<Longrightarrow> f x s = Ret s' \<Longrightarrow> P s'"
  shows "no_panic (go_fold f xs s)"
  using assms
proof (induction xs arbitrary: s)
  case Nil
  then show ?case by simp
next
  case (Cons x xs)
  have "no_panic (f x s)"
    using Cons.prems by simp
  moreover have "no_panic (go_fold f xs s')" if "f x s = Ret s'" for s'
    using that Cons.prems(1,2) Cons.prems(3) [of x s s']
    by (intro Cons.IH) (auto intro: Cons.prems(3))
  ultimately show ?case by (cases "f x s") auto
qed

section \<open>Little-endian integers\<close>

fun le_word :: "byte list \<Rightarrow> 'a::len word" where
  "le_word [] = 0"
| "le_word (b # bs) = ucast b OR push_bit 8 (le_word bs)"

fun put_le :: "nat \<Rightarrow> 'a::len word \<Rightarrow> byte list" where
  "put_le 0 w = []"
| "put_le (Suc n) w = ucast w # put_le n (drop_bit 8 w)"

lemma length_put_le [simp]: "length (put_le n w) = n"
  by (induction n arbitrary: w) auto

lemma bit_le_word:
  "bit (le_word bs :: 'a::len word) i \<longleftrightarrow>
     i < LENGTH('a) \<and> i div 8 < length bs \<and> bit (bs ! (i div 8)) (i mod 8)"
proof (induction bs arbitrary: i)
  case Nil
  then show ?case by simp
next
  case (Cons b bs)
  show ?case
  proof (cases "i < 8")
    case True
    then show ?thesis by (auto simp: bit_simps)
  next
    case False
    then have "i div 8 = Suc ((i - 8) div 8)" "i mod 8 = (i - 8) mod 8"
      by (simp_all add: le_div_geq le_mod_geq)
    with False show ?thesis
      by (auto simp: bit_simps Cons.IH dest: bit_imp_le_length)
  qed
qed

lemma nth_put_le: "k < n \<Longrightarrow> put_le n w ! k = ucast (drop_bit (8 * k) w)"
proof (induction n arbitrary: w k)
  case 0
  then show ?case by simp
next
  case (Suc n)
  then show ?case
    by (cases k) (simp_all add: drop_bit_drop_bit add.commute)
qed

lemma le_word_put_le:
  assumes "LENGTH('a) \<le> 8 * n"
  shows "le_word (put_le n w) = (w :: 'a::len word)"
proof (rule bit_word_eqI)
  fix i assume "i < LENGTH('a)"
  with assms have "i div 8 < n" by auto
  with \<open>i < LENGTH('a)\<close> show "bit (le_word (put_le n w) :: 'a word) i = bit w i"
    by (simp add: bit_le_word nth_put_le bit_simps)
qed

lemma put_le_le_word:
  assumes "8 * length bs \<le> LENGTH('a)"
  shows "put_le (length bs) (le_word bs :: 'a::len word) = bs"
proof (rule nth_equalityI)
  fix k assume k: "k < length (put_le (length bs) (le_word bs :: 'a word))"
  show "put_le (length bs) (le_word bs :: 'a word) ! k = bs ! k"
  proof (rule bit_word_eqI)
    fix i assume "i < LENGTH(8)"
    then have "i < 8" by simp
    then have "(8 * k + i) div 8 = k" "(8 * k + i) mod 8 = i" by auto
    moreover have "8 * k + i < LENGTH('a)" using assms k \<open>i < 8\<close> by auto
    ultimately show "bit (put_le (length bs) (le_word bs :: 'a word) ! k) i = bit (bs ! k) i"
      using k \<open>i < 8\<close> by (simp add: nth_put_le bit_le_word bit_simps)
  qed
qed simp

section \<open>Byte slices\<close>

text \<open>
  \<open>go_slice b lo hi\<close> is \<^verbatim>\<open>b[lo:hi]\<close>: it panics out of range.  \<open>get16\<close>, \<open>get32\<close> and
  \<open>get64\<close> are \<^verbatim>\<open>binary.LittleEndian.UintN(b[off:])\<close>; \<open>byte_at b i\<close> is \<^verbatim>\<open>b[i]\<close>.
\<close>

definition go_slice :: "'b list \<Rightarrow> nat \<Rightarrow> nat \<Rightarrow> ('e, 'b list) go" where
  "go_slice b lo hi = (if lo \<le> hi \<and> hi \<le> length b then Ret (take (hi - lo) (drop lo b)) else Panic)"

definition byte_at :: "'b list \<Rightarrow> nat \<Rightarrow> ('e, 'b) go" where
  "byte_at b i = (if i < length b then Ret (b ! i) else Panic)"

definition le_at :: "nat \<Rightarrow> byte list \<Rightarrow> nat \<Rightarrow> ('e, 'a::len word) go" where
  "le_at n b off = (if off + n \<le> length b then Ret (le_word (take n (drop off b))) else Panic)"

definition get16 :: "byte list \<Rightarrow> nat \<Rightarrow> ('e, u16) go" where
  "get16 = le_at 2"

definition get32 :: "byte list \<Rightarrow> nat \<Rightarrow> ('e, u32) go" where
  "get32 = le_at 4"

definition get64 :: "byte list \<Rightarrow> nat \<Rightarrow> ('e, u64) go" where
  "get64 = le_at 8"

lemma no_panic_slice [no_panic_intros]: "lo \<le> hi \<Longrightarrow> hi \<le> length b \<Longrightarrow> no_panic (go_slice b lo hi)"
  by (simp add: go_slice_def)

lemma no_panic_at [no_panic_intros]: "i < length b \<Longrightarrow> no_panic (byte_at b i)"
  by (simp add: byte_at_def)

lemma no_panic_get [no_panic_intros]:
  "off + 2 \<le> length b \<Longrightarrow> no_panic (get16 b off)"
  "off + 4 \<le> length b \<Longrightarrow> no_panic (get32 b off)"
  "off + 8 \<le> length b \<Longrightarrow> no_panic (get64 b off)"
  by (simp_all add: get16_def get32_def get64_def le_at_def)

lemma go_slice_Ret_iff: "go_slice b lo hi = Ret s \<longleftrightarrow> lo \<le> hi \<and> hi \<le> length b \<and> s = take (hi - lo) (drop lo b)"
  by (auto simp: go_slice_def)

lemma length_slice: "go_slice b lo hi = Ret s \<Longrightarrow> length s = hi - lo"
  by (auto simp: go_slice_Ret_iff)

lemma byte_at_Ret_iff: "byte_at b i = Ret x \<longleftrightarrow> i < length b \<and> x = b ! i"
  by (auto simp: byte_at_def)

definition put_at :: "'b list \<Rightarrow> nat \<Rightarrow> 'b list \<Rightarrow> 'b list" where
  \<comment> \<open>\<^verbatim>\<open>copy(b[off:], v)\<close> where the whole of \<open>v\<close> fits\<close>
  "put_at b off v = take off b @ take (length b - off) v @ drop (off + length v) b"

lemma length_put_at [simp]: "length (put_at b off v) = length b"
  by (auto simp: put_at_def)

lemma nth_put_at:
  "off + length v \<le> length b \<Longrightarrow> i < length b \<Longrightarrow>
   put_at b off v ! i = (if off \<le> i \<and> i < off + length v then v ! (i - off) else b ! i)"
  by (auto simp: put_at_def nth_append min_def)

lemma put_at_same:
  "off + length v \<le> length b \<Longrightarrow> take (length v) (drop off (put_at b off v)) = v"
  by (simp add: put_at_def)

lemma put_at_other:
  assumes "off + length v \<le> length b" "off' + n \<le> off \<or> off + length v \<le> off'" "off' + n \<le> length b"
  shows "take n (drop off' (put_at b off v)) = take n (drop off' b)"
  using assms by (intro nth_equalityI) (auto simp: nth_put_at)

section \<open>Fixed-width fields of a buffer\<close>

text \<open>
  The interface of \<^verbatim>\<open>cachePutN\<close> and \<^verbatim>\<open>cacheUN\<close>: a field of \<open>width\<close> bytes is written
  by an encoder and read back by a decoder.  The client's laws are those of a memory: a
  field reads back what was last written to it, and disjoint fields do not disturb each
  other.
\<close>

locale field_codec =
  fixes width :: nat and enc :: "'v \<Rightarrow> byte list" and dec :: "byte list \<Rightarrow> 'v"
  assumes length_enc: "length (enc v) = width"
    and dec_enc: "dec (enc v) = v"
begin

lemma read_same:
  "off + width \<le> length b \<Longrightarrow> dec (take width (drop off (put_at b off (enc v)))) = v"
  using put_at_same [of off "enc v" b] by (simp add: length_enc dec_enc)

lemma read_other:
  "off + width \<le> length b \<Longrightarrow> off' + n \<le> off \<or> off + width \<le> off' \<Longrightarrow> off' + n \<le> length b \<Longrightarrow>
   take n (drop off' (put_at b off (enc v))) = take n (drop off' b)"
  using put_at_other [of off "enc v" b off' n] by (simp add: length_enc)

end

interpretation le32: field_codec 4 "put_le 4 :: u32 \<Rightarrow> byte list" le_word
  by unfold_locales (simp_all add: le_word_put_le)

interpretation le64: field_codec 8 "put_le 8 :: u64 \<Rightarrow> byte list" le_word
  by unfold_locales (simp_all add: le_word_put_le)

section \<open>Saturating counters\<close>

text \<open>\<^verbatim>\<open>saturatingAdd\<close> and \<^verbatim>\<open>saturatingSub\<close> of \<^verbatim>\<open>internal/core/disk_tree.go\<close>.\<close>

definition saturating_add :: "u64 \<Rightarrow> u64 \<Rightarrow> u64" where
  "saturating_add a b = (if (- 1) - a < b then (- 1) else a + b)"

definition saturating_sub :: "u64 \<Rightarrow> u64 \<Rightarrow> u64" where
  "saturating_sub a b = (if a < b then 0 else a - b)"

lemma unat_lt64: "unat (x :: u64) < 2 ^ 64"
  using unsigned_less [of x] by simp

lemma unat_max64: "unat ((- 1) :: u64) = 2 ^ 64 - 1"
  by (simp add: unsigned_minus_1_eq_mask mask_eq_exp_minus_1)

lemma unat_saturating_add: "unat (saturating_add a b) = min (2 ^ 64 - 1) (unat a + unat b)"
proof -
  have m: "unat ((- 1) - a) = 2 ^ 64 - 1 - unat a"
    by (subst unat_sub) (simp_all add: unat_max64 [simplified])
  have la: "unat a < 2 ^ 64" and lb: "unat b < 2 ^ 64"
    using unsigned_less [of a] unsigned_less [of b] by simp_all
  show ?thesis
  proof (cases "(- 1) - a < b")
    case True
    then have "2 ^ 64 - 1 - unat a < unat b" by (simp add: word_less_nat_alt m)
    then show ?thesis using True unat_max64 by (simp add: saturating_add_def)
  next
    case False
    then have "unat b \<le> 2 ^ 64 - 1 - unat a" by (simp add: word_less_nat_alt m not_less)
    with la have "unat a + unat b < 2 ^ 64" by simp
    then show ?thesis using False by (simp add: saturating_add_def unat_word_ariths)
  qed
qed

lemma unat_saturating_sub: "unat (saturating_sub a b) = unat a - unat b"
  by (auto simp: saturating_sub_def word_less_nat_alt unat_sub word_le_nat_alt)

lemma saturating_add_assoc: "saturating_add (saturating_add a b) c = saturating_add a (saturating_add b c)"
  by (rule word_unat_eq_iff [THEN iffD2]) (simp add: unat_saturating_add)

lemma saturating_add_commute: "saturating_add a b = saturating_add b a"
  by (rule word_unat_eq_iff [THEN iffD2]) (simp add: unat_saturating_add add.commute)

lemma saturating_add_0 [simp]: "saturating_add 0 b = b" "saturating_add a 0 = a"
  by (simp_all add: saturating_add_def)

interpretation sat: comm_monoid saturating_add 0
  by unfold_locales (rule saturating_add_assoc saturating_add_commute saturating_add_0)+

definition sat_sum :: "u64 list \<Rightarrow> u64" where
  "sat_sum xs = foldr saturating_add xs 0"

lemma sat_sum_simps [simp]:
  "sat_sum [] = 0" "sat_sum (x # xs) = saturating_add x (sat_sum xs)"
  by (simp_all add: sat_sum_def)

lemma unat_sat_sum: "unat (sat_sum xs) = min (2 ^ 64 - 1) (sum_list (map unat xs))"
  by (induction xs) (auto simp: unat_saturating_add)

lemma sat_sum_append [simp]: "sat_sum (xs @ ys) = saturating_add (sat_sum xs) (sat_sum ys)"
  by (induction xs) (simp_all add: saturating_add_assoc)

lemma sat_sum_perm: "mset xs = mset ys \<Longrightarrow> sat_sum xs = sat_sum ys"
  by (rule word_unat_eq_iff [THEN iffD2])
    (metis mset_map sum_mset_sum_list unat_sat_sum)

lemma sat_sum_zero: "(\<And>x. x \<in> set xs \<Longrightarrow> x = 0) \<Longrightarrow> sat_sum xs = 0"
  by (induction xs) auto

end
