(* ===== verification/Go_Utf8.thy ===== *)
theory Go_Utf8
  imports Go_Base
begin

text \<open>
  Go strings and the \<^verbatim>\<open>unicode/utf8\<close> functions the program relies on.  A Go string is a
  sequence of bytes, here a HOL \<open>string\<close>; a rune is a natural number.  \<open>utf8_encode\<close> is
  \<^verbatim>\<open>utf8.AppendRune\<close>, \<open>utf8_decode\<close> is \<^verbatim>\<open>utf8.DecodeRune\<close> with its width, \<open>runes\<close>
  is what \<^verbatim>\<open>for _, r := range s\<close> visits and \<open>utf8_valid\<close> is \<^verbatim>\<open>utf8.ValidString\<close>.
\<close>

section \<open>Strings and byte slices\<close>

definition string_of_bytes :: "byte list \<Rightarrow> string" where
  "string_of_bytes bs = map (\<lambda>b. char_of (unat b)) bs"

definition bytes_of_string :: "string \<Rightarrow> byte list" where
  "bytes_of_string s = map (\<lambda>c. word_of_nat (of_char c)) s"

lemma char_of_unat_of_char [simp]: "char_of (unat (word_of_nat (of_char c) :: byte)) = c"
  by (simp add: unat_of_nat)

lemma string_of_bytes_of_string [simp]: "string_of_bytes (bytes_of_string s) = s"
  by (simp add: string_of_bytes_def bytes_of_string_def comp_def)

lemma bytes_of_string_of_bytes [simp]: "bytes_of_string (string_of_bytes bs) = bs"
proof -
  have "word_of_nat (of_char (char_of (unat b) :: char)) = b" for b :: byte
  proof -
    have "unat b < 256" using unsigned_less [of b] by simp
    then show ?thesis by (simp add: of_char_of)
  qed
  then show ?thesis by (simp add: string_of_bytes_def bytes_of_string_def comp_def map_idI)
qed

lemma length_string_of_bytes [simp]: "length (string_of_bytes bs) = length bs"
  by (simp add: string_of_bytes_def)

lemma length_bytes_of_string [simp]: "length (bytes_of_string s) = length s"
  by (simp add: bytes_of_string_def)

section \<open>UTF-8\<close>

definition rune_error :: nat where
  "rune_error = 0xFFFD"

definition scalar_value :: "nat \<Rightarrow> bool" where
  "scalar_value r \<longleftrightarrow> r < 0xD800 \<or> 0xE000 \<le> r \<and> r < 0x110000"

definition utf8_nats :: "nat \<Rightarrow> nat list" where
  "utf8_nats r0 = (let r = (if scalar_value r0 then r0 else rune_error) in
     if r < 0x80 then [r]
     else if r < 0x800 then [0xC0 + r div 64, 0x80 + r mod 64]
     else if r < 0x10000 then [0xE0 + r div 4096, 0x80 + r div 64 mod 64, 0x80 + r mod 64]
     else [0xF0 + r div 262144, 0x80 + r div 4096 mod 64, 0x80 + r div 64 mod 64, 0x80 + r mod 64])"

definition utf8_encode :: "nat \<Rightarrow> string" where
  "utf8_encode r = map char_of (utf8_nats r)"

fun utf8_decode :: "nat list \<Rightarrow> nat \<times> nat" where
  "utf8_decode [] = (rune_error, 0)"
| "utf8_decode (b0 # bs) =
    (if b0 < 0x80 then (b0, 1)
     else if 0xC2 \<le> b0 \<and> b0 < 0xE0 then
       (case bs of
          b1 # _ \<Rightarrow> if 0x80 \<le> b1 \<and> b1 < 0xC0 then ((b0 - 0xC0) * 64 + (b1 - 0x80), 2) else (rune_error, 1)
        | _ \<Rightarrow> (rune_error, 1))
     else if 0xE0 \<le> b0 \<and> b0 < 0xF0 then
       (case bs of
          b1 # b2 # _ \<Rightarrow>
            if (if b0 = 0xE0 then 0xA0 else 0x80) \<le> b1 \<and> b1 < (if b0 = 0xED then 0xA0 else 0xC0)
               \<and> 0x80 \<le> b2 \<and> b2 < 0xC0
            then ((b0 - 0xE0) * 4096 + (b1 - 0x80) * 64 + (b2 - 0x80), 3) else (rune_error, 1)
        | _ \<Rightarrow> (rune_error, 1))
     else if 0xF0 \<le> b0 \<and> b0 < 0xF5 then
       (case bs of
          b1 # b2 # b3 # _ \<Rightarrow>
            if (if b0 = 0xF0 then 0x90 else 0x80) \<le> b1 \<and> b1 < (if b0 = 0xF4 then 0x90 else 0xC0)
               \<and> 0x80 \<le> b2 \<and> b2 < 0xC0 \<and> 0x80 \<le> b3 \<and> b3 < 0xC0
            then ((b0 - 0xF0) * 262144 + (b1 - 0x80) * 4096 + (b2 - 0x80) * 64 + (b3 - 0x80), 4)
            else (rune_error, 1)
        | _ \<Rightarrow> (rune_error, 1))
     else (rune_error, 1))"

lemma utf8_decode_width: "bs \<noteq> [] \<Longrightarrow> 1 \<le> snd (utf8_decode bs) \<and> snd (utf8_decode bs) \<le> length bs"
  by (cases bs) (auto split: list.splits)

function rune_list :: "nat list \<Rightarrow> (nat \<times> nat) list" where
  "rune_list bs =
     (if bs = [] then []
      else utf8_decode bs # rune_list (drop (snd (utf8_decode bs)) bs))"
  by pat_completeness auto
termination
proof (relation "measure length", goal_cases)
  case 1
  show ?case by simp
next
  case (2 bs)
  then show ?case using utf8_decode_width [of bs] by (cases bs) auto
qed

declare rune_list.simps [simp del]

definition nats_of :: "string \<Rightarrow> nat list" where
  "nats_of s = map of_char s"

definition runes :: "string \<Rightarrow> nat list" where
  "runes s = map fst (rune_list (nats_of s))"

definition utf8_valid :: "string \<Rightarrow> bool" where
  "utf8_valid s \<longleftrightarrow> (rune_error, 1) \<notin> set (rune_list (nats_of s))"

subsection \<open>Decoding what was encoded\<close>

lemma rune_list_Nil [simp]: "rune_list [] = []"
  by (subst rune_list.simps) simp

lemma utf8_nats_small: "n \<in> set (utf8_nats r) \<Longrightarrow> n < 256"
  by (auto simp: utf8_nats_def Let_def rune_error_def scalar_value_def split: if_splits)

lemma utf8_nats_nonempty [simp]: "utf8_nats r \<noteq> []"
  by (simp add: utf8_nats_def Let_def)

lemma base64_digits: "r = r div 4096 * 4096 + r div 64 mod 64 * 64 + r mod (64 :: nat)"
proof -
  have "r div 64 div 64 = r div 4096" by (simp add: div_mult2_eq [symmetric])
  then show ?thesis
    using div_mult_mod_eq [of r 64] div_mult_mod_eq [of "r div 64" 64] by linarith
qed

lemma utf8_decode_encode:
  assumes "scalar_value r"
  shows "utf8_decode (utf8_nats r @ bs) = (r, length (utf8_nats r))"
proof -
  consider (one) "r < 0x80" | (two) "0x80 \<le> r" "r < 0x800" | (three) "0x800 \<le> r" "r < 0x10000"
    | (four) "0x10000 \<le> r" "r < 0x110000"
    using assms by (force simp: scalar_value_def)
  then show ?thesis
  proof cases
    case one
    with assms show ?thesis by (simp add: utf8_nats_def)
  next
    case two
    then have "2 \<le> r div 64" "r div 64 < 32" by auto
    with two assms show ?thesis by (simp add: utf8_nats_def)
  next
    case three
    then have q: "r div 4096 < 16" "r div 4096 = 0 \<Longrightarrow> 32 \<le> r div 64 mod 64"
      by auto
    have q': "r div 64 mod 64 < 32" if "r div 4096 = 13"
    proof -
      have "r < 0xE000" using that by auto
      then have "r div 64 < 864" using assms by (auto simp: scalar_value_def)
      moreover have "r div 64 div 64 = 13" using that by (simp add: div_mult2_eq [symmetric])
      ultimately show ?thesis using div_mult_mod_eq [of "r div 64" 64] by linarith
    qed
    have "r = r div 4096 * 4096 + r div 64 mod 64 * 64 + r mod 64" by (rule base64_digits)
    moreover have "r div 4096 = 13 \<longrightarrow> r div 64 mod 64 < 32" "r div 4096 = 0 \<longrightarrow> 32 \<le> r div 64 mod 64"
      using q' q by blast+
    ultimately show ?thesis using q(1) three assms by (simp add: utf8_nats_def)
  next
    case four
    then have q: "r div 262144 < 5" "r div 262144 = 0 \<Longrightarrow> 16 \<le> r div 4096 mod 64" by auto
    have q': "r div 4096 mod 64 < 16" if "r div 262144 = 4"
    proof -
      have "r div 4096 < 272" using four by auto
      moreover have "r div 4096 div 64 = 4" using that by (simp add: div_mult2_eq [symmetric])
      ultimately show ?thesis using div_mult_mod_eq [of "r div 4096" 64] by linarith
    qed
    have "r = r div 262144 * 262144 + r div 4096 mod 64 * 4096 + r div 64 mod 64 * 64 + r mod 64"
    proof -
      have "r div 64 div 4096 = r div 262144" "r div 64 div 64 = r div 4096"
        by (simp_all add: div_mult2_eq [symmetric])
      then have "r div 64 = r div 262144 * 4096 + r div 4096 mod 64 * 64 + r div 64 mod 64"
        using base64_digits [of "r div 64"] by simp
      then show ?thesis using div_mult_mod_eq [of r 64] by linarith
    qed
    moreover have "r div 262144 = 4 \<longrightarrow> r div 4096 mod 64 < 16"
      "r div 262144 = 0 \<longrightarrow> 16 \<le> r div 4096 mod 64"
      using q' q by blast+
    ultimately show ?thesis using q(1) four assms by (simp add: utf8_nats_def)
  qed
qed

lemma rune_list_encode:
  assumes "scalar_value r"
  shows "rune_list (utf8_nats r @ bs) = (r, length (utf8_nats r)) # rune_list bs"
  by (subst rune_list.simps) (simp add: utf8_decode_encode [OF assms])

lemma nats_of_utf8_encode [simp]: "nats_of (utf8_encode r) = utf8_nats r"
proof -
  have "of_char (char_of n :: char) = n" if "n \<in> set (utf8_nats r)" for n
    using utf8_nats_small [OF that] by (simp add: of_char_of)
  then show ?thesis by (simp add: nats_of_def utf8_encode_def comp_def map_idI)
qed

lemma nats_of_append [simp]: "nats_of (s @ t) = nats_of s @ nats_of t"
  by (simp add: nats_of_def)

lemma nats_of_simps [simp]: "nats_of [] = []" "nats_of (c # s) = of_char c # nats_of s"
  by (simp_all add: nats_of_def)

lemma runes_Nil [simp]: "runes [] = []"
  by (simp add: runes_def)

lemma runes_encode_append: "scalar_value r \<Longrightarrow> runes (utf8_encode r @ s) = r # runes s"
  by (simp add: runes_def rune_list_encode)

lemma runes_concat_encode:
  "list_all scalar_value rs \<Longrightarrow> runes (concat (map utf8_encode rs)) = rs"
  by (induction rs) (simp_all add: runes_encode_append)

lemma utf8_valid_concat_encode:
  "list_all scalar_value rs \<Longrightarrow> utf8_valid (concat (map utf8_encode rs))"
proof (induction rs)
  case Nil
  then show ?case by (simp add: utf8_valid_def)
next
  case (Cons r rs)
  then have "(r, length (utf8_nats r)) \<noteq> (rune_error, 1)"
    by (auto simp: utf8_nats_def rune_error_def scalar_value_def)
  with Cons show ?case by (auto simp: utf8_valid_def rune_list_encode)
qed

lemma rune_list_ascii: "n < 128 \<Longrightarrow> rune_list (n # bs) = (n, 1) # rune_list bs"
  by (subst rune_list.simps) simp

lemma runes_ascii_Cons: "of_char c < (128 :: nat) \<Longrightarrow> runes (c # s) = of_char c # runes s"
  by (simp add: runes_def rune_list_ascii)


subsection \<open>Decoded runes are scalar values\<close>

lemma rune_error_scalar [simp]: "scalar_value rune_error"
  by (simp add: scalar_value_def rune_error_def)

lemma utf8_decode_scalar: "scalar_value (fst (utf8_decode bs))"
proof (cases bs)
  case Nil
  then show ?thesis by simp
next
  case (Cons b0 cs)
  consider (one) "b0 < 0x80" | (two) "0xC2 \<le> b0" "b0 < 0xE0" | (three) "0xE0 \<le> b0" "b0 < 0xF0"
    | (four) "0xF0 \<le> b0" "b0 < 0xF5" | (bad) "0x80 \<le> b0 \<and> b0 < 0xC2 \<or> 0xF5 \<le> b0" by linarith
  then show ?thesis
  proof cases
    case one
    with Cons show ?thesis by (simp add: scalar_value_def)
  next
    case two
    have "scalar_value ((b0 - 0xC0) * 64 + (b1 - 0x80))" if "0x80 \<le> b1" "b1 < 0xC0" for b1
      unfolding scalar_value_def using two that by linarith
    with Cons two show ?thesis by (simp split: list.splits)
  next
    case three
    have "scalar_value ((b0 - 0xE0) * 4096 + (b1 - 0x80) * 64 + (b2 - 0x80))"
      if "0x80 \<le> b1" "b1 < (if b0 = 0xED then 0xA0 else 0xC0)" "0x80 \<le> b2" "b2 < 0xC0" for b1 b2
    proof -
      note p = that
      obtain x y z where "b0 = 0xE0 + x" "b1 = 0x80 + y" "b2 = 0x80 + z"
        using three(1) p(1,3) by (metis le_Suc_ex)
      with that three show ?thesis by (auto simp: scalar_value_def split: if_splits)
    qed
    with Cons three show ?thesis by (auto split: list.splits)
  next
    case four
    have "scalar_value ((b0 - 0xF0) * 262144 + (b1 - 0x80) * 4096 + (b2 - 0x80) * 64 + (b3 - 0x80))"
      if "(if b0 = 0xF0 then 0x90 else 0x80) \<le> b1" "b1 < (if b0 = 0xF4 then 0x90 else 0xC0)"
        "0x80 \<le> b2" "b2 < 0xC0" "0x80 \<le> b3" "b3 < 0xC0" for b1 b2 b3
    proof -
      note p = that
      have "0x80 \<le> b1" using p(1) by (simp split: if_splits)
      then obtain x y z v where "b0 = 0xF0 + x" "b1 = 0x80 + y" "b2 = 0x80 + z" "b3 = 0x80 + v"
        using four(1) p(3,5) by (metis le_Suc_ex)
      with that four show ?thesis by (auto simp: scalar_value_def split: if_splits)
    qed
    with Cons four show ?thesis by (auto split: list.splits)
  next
    case bad
    with Cons show ?thesis by auto
  qed
qed

lemma runes_scalar: "r \<in> set (runes s) \<Longrightarrow> scalar_value r"
proof -
  have "\<forall>x \<in> set (rune_list bs). scalar_value (fst x)" for bs
  proof (induction bs rule: rune_list.induct)
    case (1 bs)
    then show ?case
      using utf8_decode_scalar [of bs] by (subst rune_list.simps) (auto simp: Let_def split: prod.splits)
  qed
  then show "r \<in> set (runes s) \<Longrightarrow> scalar_value r" by (auto simp: runes_def)
qed

lemma utf8_encode_ascii: "r < 128 \<Longrightarrow> utf8_encode r = [char_of r]"
  by (simp add: utf8_encode_def utf8_nats_def scalar_value_def)

lemma runes_ascii: "\<forall>ch \<in> set s. of_char ch < (128 :: nat) \<Longrightarrow> runes s = map of_char s"
  by (induction s) (simp_all add: runes_ascii_Cons)

lemma runes_list_scalar: "list_all scalar_value (runes s)"
  by (simp add: list_all_iff runes_scalar)

end
