(* ===== verification/Mft_Parser.thy ===== *)
theory Mft_Parser
  imports Go_Utf8
begin

text \<open>
  The NTFS record parser of \<^verbatim>\<open>internal/platform/mft_parser.go\<close>: data runs, the update
  sequence fix-up, the attribute walk, attribute lists, and the decoding of one file record.
  The input is whatever bytes the raw volume holds, so every slice expression and indexed read
  of the source is a read that can panic, and the absence of panics is a theorem.
\<close>

section \<open>Data runs\<close>

datatype mft_error = ErrMFTUnsupported | ErrMFTCorrupt | ErrUnexpectedEOF | ErrReader | ErrCanceled

record mft_run =
  VCN :: u64
  LCN :: u64
  Clusters :: u64
  Sparse :: bool

definition max_int64 :: u64 where
  "max_int64 = 0x7FFFFFFFFFFFFFFF"

definition min_int64 :: u64 where
  "min_int64 = 0x8000000000000000"

text \<open>
  \<^verbatim>\<open>int64(raw<<shift) >> shift\<close>: the low \<open>8 * o\<close> bits as a two's complement number.  An
  \<^verbatim>\<open>int64\<close> is a 64-bit word read with \<open>sint\<close>; \<open><s\<close> is the signed comparison.
\<close>

definition run_delta :: "byte list \<Rightarrow> u64" where
  "run_delta bs = (let raw = le_word bs; shift = 64 - length bs * 8
     in signed_drop_bit shift (push_bit shift raw))"

function mft_runs_loop :: "byte list \<Rightarrow> u64 \<Rightarrow> u64 \<Rightarrow> mft_run list \<Rightarrow> (mft_error, mft_run list) go" where
  "mft_runs_loop [] vcn lcn out = Err ErrMFTCorrupt"
| "mft_runs_loop (h # b) vcn lcn out =
    (if h = 0 then Ret out
     else let n = unat (h AND 15); w = unat (drop_bit 4 h) in
       if n = 0 \<or> n > 8 \<or> w > 8 \<or> n + w > length b then Err ErrMFTCorrupt
       else let count = le_word (take n b); b1 = drop n b in
         if count = 0 \<or> - 1 - vcn < count then Err ErrMFTCorrupt
         else if w = 0 then
           mft_runs_loop b1 (vcn + count) lcn
             (out @ [\<lparr>VCN = vcn, LCN = 0, Clusters = count, Sparse = True\<rparr>])
         else let delta = run_delta (take w b1) in
           if 0 <s delta \<and> max_int64 - delta <s lcn \<or> delta <s 0 \<and> lcn <s min_int64 - delta
           then Err ErrMFTCorrupt
           else let lcn' = lcn + delta in
             if lcn' <s 0 then Err ErrMFTCorrupt
             else mft_runs_loop (drop w b1) (vcn + count) lcn'
                    (out @ [\<lparr>VCN = vcn, LCN = lcn', Clusters = count, Sparse = False\<rparr>]))"
  by pat_completeness auto
termination
  by (relation "measure (\<lambda>(b, _). length b)") auto

declare mft_runs_loop.simps(2) [simp del]

definition mft_parse_runs :: "byte list \<Rightarrow> u64 \<Rightarrow> (mft_error, mft_run list) go" where
  "mft_parse_runs b vcn = mft_runs_loop b vcn 0 []"

definition order_step :: "mft_run \<Rightarrow> u64 \<Rightarrow> (mft_error, u64) go" where
  "order_step r e =
    (if VCN r < e \<or> - 1 - VCN r < Clusters r then Err ErrMFTCorrupt else Ret (VCN r + Clusters r))"

definition mft_order_runs :: "mft_run list \<Rightarrow> (mft_error, mft_run list) go" where
  "mft_order_runs runs =
    (let sorted_runs = sort_key VCN runs in
     go_bind (go_fold order_step sorted_runs 0) (\<lambda>_. Ret sorted_runs))"

section \<open>The update sequence fix-up\<close>

definition fixup_check :: "byte list \<Rightarrow> nat \<Rightarrow> nat \<Rightarrow> nat \<Rightarrow> (mft_error, unit) go" where
  "fixup_check b s ofs i =
    go_bind (get16 b (i * s - 2)) (\<lambda>tail. go_bind (get16 b ofs) (\<lambda>usn.
      go_check (tail = usn) ErrMFTCorrupt))"

definition fixup_restore :: "nat \<Rightarrow> nat \<Rightarrow> nat \<Rightarrow> byte list \<Rightarrow> (mft_error, byte list) go" where
  "fixup_restore s ofs i b =
    go_bind (go_slice b (ofs + i * 2) (ofs + i * 2 + 2)) (\<lambda>v. Ret (put_at b (i * s - 2) v))"

definition mft_fixup :: "byte list \<Rightarrow> u64 \<Rightarrow> (mft_error, byte list) go" where
  "mft_fixup b sector =
    (if length b < 0x30 \<or> sector < 2 \<or> of_nat (length b) mod sector \<noteq> 0 then Err ErrMFTCorrupt
     else go_bind (get16 b 4) (\<lambda>ow. go_bind (get16 b 6) (\<lambda>nw.
       let ofs = unat ow; n = unat nw; s = unat sector in
       if n \<noteq> length b div s + 1 \<or> ofs < 8 \<or> int (length b) - int n * 2 < int ofs
       then Err ErrMFTCorrupt
       else go_bind (go_fold (\<lambda>i _. fixup_check b s ofs i) [1..<n] ())
         (\<lambda>_. go_fold (fixup_restore s ofs) [1..<n] b))))"

section \<open>Attributes\<close>

record mft_attribute =
  attr_typ :: u32
  nonresident :: bool
  named :: bool
  attr_b :: "byte list"

text \<open>
  The body of the loop of \<^verbatim>\<open>mftEachAttr\<close> for the attribute that starts the slice
  \<open>a = rec[pos:]\<close>: its size and the attribute.
\<close>

definition mft_attr_at :: "u32 \<Rightarrow> byte list \<Rightarrow> (mft_error, nat \<times> mft_attribute) go" where
  "mft_attr_at typ a =
    go_bind (get32 a 4) (\<lambda>sz. go_bind (byte_at a 8) (\<lambda>form.
      if form > 1 then Err ErrMFTCorrupt
      else let size = unat sz; minimum = (if form = 1 then 64 else 24) in
        if size < minimum \<or> size > length a then Err ErrMFTCorrupt
        else go_bind (go_slice a 0 size) (\<lambda>a.
          go_bind (byte_at a 9) (\<lambda>name_len.
          go_bind (if name_len > 0 then go_bind (get16 a 10) (\<lambda>o1.
                      go_check (\<not> (unat o1 < minimum \<or> unat o1 + unat name_len * 2 > size)) ErrMFTCorrupt)
                   else Ret ()) (\<lambda>_.
          go_bind (if form = 0 then go_bind (get16 a 20) (\<lambda>o2. go_bind (get32 a 16) (\<lambda>l.
                      go_check (\<not> (unat o2 < minimum \<or> unat o2 + unat l > size)) ErrMFTCorrupt))
                   else Ret ()) (\<lambda>_.
          Ret (size, \<lparr>attr_typ = typ, nonresident = (form = 1), named = (name_len \<noteq> 0), attr_b = a\<rparr>)))))))"

lemma mft_attr_at_size:
  assumes "mft_attr_at typ a = Ret (sz, attr)"
  shows "24 \<le> sz \<and> sz \<le> length a"
  using assms by (auto simp: mft_attr_at_def go_bind_Ret_iff Let_def split: if_splits)

function mft_attr_loop ::
  "byte list \<Rightarrow> (mft_attribute \<Rightarrow> 's \<Rightarrow> (mft_error, 's) go) \<Rightarrow> nat \<Rightarrow> 's \<Rightarrow> (mft_error, 's) go" where
  "mft_attr_loop rec fn pos s =
    (if length rec < pos + 4 then Err ErrMFTCorrupt
     else go_bind (get32 rec pos) (\<lambda>typ.
       if typ = 0xFFFFFFFF then Ret s
       else if length rec < pos + 16 then Err ErrMFTCorrupt
       else go_bind (mft_attr_at typ (drop pos rec)) (\<lambda>(size, a).
         go_bind (fn a s) (\<lambda>s'. mft_attr_loop rec fn (pos + size) s'))))"
  by pat_completeness auto
termination
  by (relation "measure (\<lambda>(rec, _, pos, _). length rec - pos)")
    (auto dest!: mft_attr_at_size)

declare mft_attr_loop.simps [simp del]

definition mft_each_attr ::
  "byte list \<Rightarrow> (mft_attribute \<Rightarrow> 's \<Rightarrow> (mft_error, 's) go) \<Rightarrow> 's \<Rightarrow> (mft_error, 's) go" where
  "mft_each_attr rec fn s =
    (if length rec < 0x30 \<or> take 4 rec \<noteq> bytes_of_string ''FILE'' then Err ErrMFTCorrupt
     else go_bind (get16 rec 0x14) (\<lambda>p. let pos = unat p in
       if pos < 0x30 \<or> length rec < pos + 4 then Err ErrMFTCorrupt
       else mft_attr_loop rec fn pos s))"

definition mft_attributes :: "byte list \<Rightarrow> (mft_error, mft_attribute list) go" where
  "mft_attributes rec = mft_each_attr rec (\<lambda>a out. Ret (out @ [a])) []"

definition attr_value :: "mft_attribute \<Rightarrow> (mft_error, byte list) go" where
  "attr_value a =
    go_bind (get16 (attr_b a) 20) (\<lambda>o2. go_bind (get32 (attr_b a) 16) (\<lambda>l.
      go_slice (attr_b a) (unat o2) (unat o2 + unat l)))"

definition attr_runs :: "mft_attribute \<Rightarrow> (mft_error, mft_run list) go" where
  "attr_runs a =
    (if \<not> nonresident a then Err ErrMFTCorrupt
     else go_bind (get16 (attr_b a) 32) (\<lambda>ow. let ofs = unat ow in
       if ofs < 64 \<or> length (attr_b a) \<le> ofs then Err ErrMFTCorrupt
       else go_bind (get64 (attr_b a) 16) (\<lambda>vcn. mft_parse_runs (drop ofs (attr_b a)) vcn)))"

definition mft_data_runs :: "byte list \<Rightarrow> (mft_error, mft_run list) go" where
  "mft_data_runs rec =
    go_bind (mft_attributes rec) (\<lambda>attrs.
      go_fold (\<lambda>a out.
        if attr_typ a = 0x80 \<and> \<not> named a \<and> nonresident a
        then go_bind (attr_runs a) (\<lambda>runs. Ret (out @ runs))
        else Ret out) attrs [])"

section \<open>Attribute lists\<close>

definition mft_ref_mask :: u64 where
  "mft_ref_mask = 0x0000FFFFFFFFFFFF"

function mft_list_loop :: "byte list \<Rightarrow> u64 list \<Rightarrow> (mft_error, u64 list) go" where
  "mft_list_loop b out =
    (if b = [] then Ret out
     else if length b < 24 then Err ErrMFTCorrupt
     else go_bind (get16 b 4) (\<lambda>nw. let n = unat nw in
       if n < 24 \<or> n > length b then Err ErrMFTCorrupt
       else go_bind (get32 b 0) (\<lambda>typ. go_bind (byte_at b 6) (\<lambda>name_len.
         go_bind (if typ = 0x80 \<and> name_len = 0
                  then go_bind (get64 b 16) (\<lambda>ref.
                    let r = ref AND mft_ref_mask in
                    Ret (if r \<noteq> 0 \<and> r \<notin> set out then out @ [r] else out))
                  else Ret out)
           (mft_list_loop (drop n b))))))"
  by pat_completeness auto
termination
  by (relation "measure (\<lambda>(b, _). length b)") auto

declare mft_list_loop.simps [simp del]

definition mft_list_records :: "byte list \<Rightarrow> (mft_error, u64 list) go" where
  "mft_list_records b = mft_list_loop b []"

section \<open>One file record\<close>

text \<open>UTF-16LE to a Go string, unpaired surrogates becoming U+FFFD.\<close>

function mft_append_utf16 :: "string \<Rightarrow> byte list \<Rightarrow> string" where
  "mft_append_utf16 dst [] = dst"
| "mft_append_utf16 dst [b] = dst"
| "mft_append_utf16 dst (b0 # b1 # raw) =
    (let u = unat b0 + unat b1 * 256 in
     if 0xD800 \<le> u \<and> u \<le> 0xDBFF \<and> 2 \<le> length raw
     then let u2 = unat (raw ! 0) + unat (raw ! 1) * 256 in
       if 0xDC00 \<le> u2 \<and> u2 \<le> 0xDFFF
       then mft_append_utf16 (dst @ utf8_encode (0x10000 + (u - 0xD800) * 1024 + (u2 - 0xDC00))) (drop 2 raw)
       else mft_append_utf16 (dst @ utf8_encode u) raw
     else mft_append_utf16 (dst @ utf8_encode u) raw)"
  by pat_completeness auto
termination
  by (relation "measure (\<lambda>(_, raw). length raw)") auto

record mft_entry =
  mftParent :: u64
  mftName :: string
  mftIsDir :: bool
  mftSize :: u64
  mftUsed :: bool
  mftMtime :: u64
  mftBaseRecord :: u64
  mftLinkParents :: "u64 list"

definition empty_mft_entry :: mft_entry where
  "empty_mft_entry = \<lparr>mftParent = 0, mftName = [], mftIsDir = False, mftSize = 0, mftUsed = False,
     mftMtime = 0, mftBaseRecord = 0, mftLinkParents = []\<rparr>"

text \<open>The variables the callback of \<^verbatim>\<open>mftDecodeRecordScratch\<close> closes over.\<close>

record mft_decode =
  d_entry :: mft_entry
  d_best :: nat
  d_got :: bool
  d_batch :: "u64 list"

definition filename_rank :: "byte \<Rightarrow> nat" where
  "filename_rank namespace =
    (if namespace = 1 then 0 else if namespace = 3 then 1 else if namespace = 0 then 2 else 3)"

definition mft_add_link :: "u64 \<Rightarrow> mft_decode \<Rightarrow> mft_decode" where
  "mft_add_link parent d =
    (if parent \<in> set (d_batch d) then d else d\<lparr>d_batch := d_batch d @ [parent]\<rparr>)"

definition mft_decode_name :: "byte list \<Rightarrow> mft_decode \<Rightarrow> (mft_error, mft_decode) go" where
  "mft_decode_name v d =
    (if length v < 66 then Err ErrMFTCorrupt
     else go_bind (byte_at v 64) (\<lambda>units.
       if length v - 66 < unat units * 2 then Err ErrMFTCorrupt
       else go_bind (get64 v 0) (\<lambda>ref. let parent = ref AND mft_ref_mask in
         go_bind (byte_at v 65) (\<lambda>namespace.
           let d1 = mft_add_link parent d; rank = filename_rank namespace in
           if rank < d_best d1
           then go_bind (go_slice v 66 (66 + unat units * 2)) (\<lambda>raw.
             Ret (d1\<lparr>d_best := rank, d_got := True,
                     d_entry := (d_entry d1)\<lparr>mftParent := parent, mftName := mft_append_utf16 [] raw\<rparr>\<rparr>))
           else Ret d1))))"

definition mft_decode_attr :: "mft_attribute \<Rightarrow> mft_decode \<Rightarrow> (mft_error, mft_decode) go" where
  "mft_decode_attr a d =
    (if attr_typ a = 0x10 \<and> \<not> nonresident a then
       go_bind (attr_value a) (\<lambda>v.
         if 16 \<le> length v then go_bind (get64 v 8) (\<lambda>ft.
           Ret (if 116444736000000000 < ft
                then d\<lparr>d_entry := (d_entry d)\<lparr>mftMtime := (ft - 116444736000000000) div 10000000\<rparr>\<rparr>
                else d))
         else Ret d)
     else if attr_typ a = 0x30 \<and> \<not> nonresident a then
       go_bind (attr_value a) (\<lambda>v. mft_decode_name v d)
     else if attr_typ a = 0x80 \<and> \<not> named a then
       (if nonresident a
        then go_bind (get64 (attr_b a) 16) (\<lambda>vcn.
          if vcn = 0 then go_bind (get64 (attr_b a) 48) (\<lambda>size.
            Ret (d\<lparr>d_entry := (d_entry d)\<lparr>mftSize := size\<rparr>\<rparr>))
          else Ret d)
        else go_bind (attr_value a) (\<lambda>v.
          Ret (d\<lparr>d_entry := (d_entry d)\<lparr>mftSize := of_nat (length v)\<rparr>\<rparr>)))
     else Ret d)"

definition mft_decode_record :: "byte list \<Rightarrow> (mft_error, mft_entry) go" where
  "mft_decode_record rec =
    go_bind (mft_each_attr rec (\<lambda>_ _. Ret ()) ()) (\<lambda>_.
    go_bind (get16 rec 22) (\<lambda>flags.
      if flags AND 1 = 0 then Ret empty_mft_entry
      else go_bind (get64 rec 32) (\<lambda>base_ref.
        let e0 = empty_mft_entry\<lparr>mftIsDir := (flags AND 2 \<noteq> 0), mftBaseRecord := base_ref AND mft_ref_mask\<rparr> in
        go_bind (mft_each_attr rec mft_decode_attr \<lparr>d_entry = e0, d_best = 4, d_got = False, d_batch = []\<rparr>) (\<lambda>d.
          let e = (d_entry d)\<lparr>mftLinkParents := d_batch d\<rparr> in
          if mftBaseRecord e \<noteq> 0 then Ret e
          else if \<not> d_got d then Err ErrMFTCorrupt
          else Ret (e\<lparr>mftUsed := True, mftSize := (if mftIsDir e then 0 else mftSize e)\<rparr>)))))"


section \<open>No input makes the parser panic\<close>

definition attr_wf :: "mft_attribute \<Rightarrow> bool" where
  "attr_wf a \<longleftrightarrow> (if nonresident a then 64 \<le> length (attr_b a) else no_panic (attr_value a))"

lemma no_panic_attr_at: "16 \<le> length a \<Longrightarrow> no_panic (mft_attr_at typ a)"
  unfolding mft_attr_at_def Let_def
  by (auto intro!: no_panic_intros simp: go_slice_Ret_iff)

lemma byte_le_one: "(x :: byte) \<le> 1 \<Longrightarrow> x = 0 \<or> x = 1"
  by (simp add: word_le_nat_alt word_unat_eq_iff le_Suc_eq)

lemma mft_attr_at_wf: "mft_attr_at typ a = Ret (sz, attr) \<Longrightarrow> attr_wf attr"
  unfolding mft_attr_at_def Let_def attr_wf_def attr_value_def
  by (auto simp: go_bind_Ret_iff go_slice_Ret_iff not_less split: if_splits
      dest: byte_le_one intro!: no_panic_intros)

lemma no_panic_runs_loop [no_panic_intros]: "no_panic (mft_runs_loop b vcn lcn out)"
  by (induction b vcn lcn out rule: mft_runs_loop.induct)
    (simp_all add: mft_runs_loop.simps(2) Let_def)

lemma no_panic_attr_loop:
  assumes "\<And>a s. attr_wf a \<Longrightarrow> no_panic (fn a s)"
  shows "no_panic (mft_attr_loop rec fn pos s)"
  using assms
proof (induction rec fn pos s rule: mft_attr_loop.induct)
  case (1 rec fn pos s)
  show ?case
    by (subst mft_attr_loop.simps)
      (auto intro!: no_panic_intros no_panic_attr_at "1.prems" "1.IH" split: prod.splits dest: mft_attr_at_wf)
qed

lemma no_panic_each_attr:
  assumes "\<And>a s. attr_wf a \<Longrightarrow> no_panic (fn a s)"
  shows "no_panic (mft_each_attr rec fn s)"
  unfolding mft_each_attr_def Let_def
  by (auto intro!: no_panic_intros no_panic_attr_loop assms)

lemma no_panic_decode_name [no_panic_intros]: "no_panic (mft_decode_name v d)"
  unfolding mft_decode_name_def Let_def by (auto intro!: no_panic_intros) linarith

lemma no_panic_decode_attr: "attr_wf a \<Longrightarrow> no_panic (mft_decode_attr a d)"
  unfolding mft_decode_attr_def Let_def attr_wf_def
  by (auto intro!: no_panic_intros split: if_splits)

lemma mft_each_attr_length: "mft_each_attr rec fn s = Ret s' \<Longrightarrow> 0x30 \<le> length rec"
  by (auto simp: mft_each_attr_def split: if_splits)

text \<open>
  C34: decoding a file record never panics, whatever bytes the volume
  holds: every slice and every indexed read of the attribute walk is inside the record.
\<close>

theorem mft_decode_record_no_panic: "mft_decode_record rec \<noteq> Panic"
proof -
  have "no_panic (mft_decode_record rec)"
    unfolding mft_decode_record_def Let_def
    by (auto intro!: no_panic_intros no_panic_each_attr no_panic_decode_attr dest!: mft_each_attr_length)
  then show ?thesis by (simp add: no_panic_def)
qed


lemma no_panic_attributes [no_panic_intros]: "no_panic (mft_attributes rec)"
  unfolding mft_attributes_def by (rule no_panic_each_attr) simp

lemma no_panic_attr_runs: "attr_wf a \<Longrightarrow> no_panic (attr_runs a)"
  unfolding attr_runs_def attr_wf_def Let_def mft_parse_runs_def
  by (auto intro!: no_panic_intros)

lemma attr_loop_invariant:
  assumes "mft_attr_loop rec fn pos s = Ret s'" "P s"
    and "\<And>a s s'. attr_wf a \<Longrightarrow> P s \<Longrightarrow> fn a s = Ret s' \<Longrightarrow> P s'"
  shows "P s'"
  using assms(1,2)
proof (induction "length rec - pos" arbitrary: pos s rule: less_induct)
  case less
  from less.prems(1) consider (stop) "s' = s" | (step) ty sz a s1 where
    "pos + 16 \<le> length rec" "mft_attr_at ty (drop pos rec) = Ret (sz, a)"
    "fn a s = Ret s1" "mft_attr_loop rec fn (pos + sz) s1 = Ret s'"
    by (subst (asm) mft_attr_loop.simps) (auto simp: go_bind_Ret_iff split: if_splits)
  then show ?case
  proof cases
    case stop
    with less.prems(2) show ?thesis by simp
  next
    case step
    from step(2) have "24 \<le> sz" "attr_wf a"
      by (auto dest: mft_attr_at_size mft_attr_at_wf)
    with step less.prems(2) show ?thesis
      by (intro less.hyps [of "pos + sz" s1]) (auto intro: assms(3))
  qed
qed

lemma each_attr_invariant:
  assumes "mft_each_attr rec fn s = Ret s'" "P s"
    and "\<And>a s s'. attr_wf a \<Longrightarrow> P s \<Longrightarrow> fn a s = Ret s' \<Longrightarrow> P s'"
  shows "P s'"
  using assms(1) unfolding mft_each_attr_def Let_def
  by (auto simp: go_bind_Ret_iff split: if_splits intro: attr_loop_invariant [where P = P] assms(2,3))

lemma no_panic_data_runs: "no_panic (mft_data_runs rec)"
proof -
  have "\<forall>a \<in> set attrs. attr_wf a" if "mft_attributes rec = Ret attrs" for attrs
    using that unfolding mft_attributes_def
    by (rule each_attr_invariant [where P = "\<lambda>out. \<forall>a \<in> set out. attr_wf a"]) auto
  then show ?thesis
    unfolding mft_data_runs_def
    by (intro no_panic_intros no_panic_fold [where P = "\<lambda>_. True"])
      (auto intro!: no_panic_intros no_panic_attr_runs)
qed

lemma no_panic_list_loop [no_panic_intros]: "no_panic (mft_list_loop b out)"
proof (induction "length b" arbitrary: b out rule: less_induct)
  case less
  then show ?case
    by (subst mft_list_loop.simps) (auto intro!: no_panic_intros less simp: Let_def)
qed

lemma fixup_restore_length:
  "fixup_restore s ofs i b = Ret b' \<Longrightarrow> i * s \<le> length b \<Longrightarrow> length b' = length b"
  by (auto simp: fixup_restore_def go_bind_Ret_iff)

text \<open>The geometry that the guard of \<^verbatim>\<open>mftFixup\<close> establishes.\<close>

definition fixup_geometry :: "nat \<Rightarrow> nat \<Rightarrow> nat \<Rightarrow> nat \<Rightarrow> bool" where
  "fixup_geometry len s ofs n \<longleftrightarrow> 2 \<le> s \<and> n = len div s + 1 \<and> 8 \<le> ofs \<and> ofs + n * 2 \<le> len"

lemma fixup_geometry_bounds:
  assumes "fixup_geometry len s ofs n" "i \<in> set [1..<n]"
  shows "2 \<le> i * s" "i * s \<le> len" "ofs + i * 2 + 2 \<le> len"
proof -
  from assms have i: "1 \<le> i" "i \<le> len div s" "2 \<le> s" "i * 2 + 2 \<le> n * 2"
    by (auto simp: fixup_geometry_def)
  show "2 \<le> i * s" using mult_le_mono [OF i(1,3)] by simp
  have "i * s \<le> len div s * s" using i(2) by simp
  then show "i * s \<le> len" by (meson div_times_less_eq_dividend le_trans)
  show "ofs + i * 2 + 2 \<le> len" using assms(1) i(4) unfolding fixup_geometry_def by linarith
qed

lemma no_panic_fixup_folds:
  assumes "fixup_geometry (length b) s ofs n"
  shows "no_panic (go_fold (\<lambda>i _. fixup_check b s ofs i) [1..<n] ())"
    and "no_panic (go_fold (fixup_restore s ofs) [1..<n] b)"
proof -
  note bounds = fixup_geometry_bounds [OF assms]
  have ofs: "ofs + 2 \<le> length b" using assms by (simp add: fixup_geometry_def)
  show "no_panic (go_fold (\<lambda>i _. fixup_check b s ofs i) [1..<n] ())"
    by (rule no_panic_fold [where P = "\<lambda>_. True"])
      (use bounds ofs in \<open>auto simp: fixup_check_def le_add_diff_inverse2 numeral_2_eq_2 [symmetric]
        simp del: add_2_eq_Suc' intro!: no_panic_intros\<close>)
  show "no_panic (go_fold (fixup_restore s ofs) [1..<n] b)"
    by (rule no_panic_fold [where P = "\<lambda>c. length c = length b"])
      (use bounds in \<open>auto simp: fixup_restore_def go_bind_Ret_iff intro!: no_panic_intros\<close>)
qed

lemma fixup_guard:
  assumes "\<not> (length b < 0x30 \<or> (sector :: u64) < 2 \<or> of_nat (length b) mod sector \<noteq> 0)"
    and "\<not> (n \<noteq> length b div unat sector + 1 \<or> ofs < 8 \<or> int (length b) - int n * 2 < int ofs)"
  shows "fixup_geometry (length b) (unat sector) ofs n"
proof -
  have "2 \<le> unat sector" using assms(1) by (simp add: word_less_nat_alt)
  with assms(2) show ?thesis by (auto simp: fixup_geometry_def)
qed

theorem no_panic_fixup: "no_panic (mft_fixup b sector)"
  unfolding mft_fixup_def Let_def
  by (intro no_panic_if no_panic_bind no_panic_get no_panic_fixup_folds fixup_guard) (assumption | fastforce)+

end
