(* ===== verification/Mft_Runs.thy ===== *)
theory Mft_Runs
  imports Mft_Parser
begin

text \<open>
  Data runs: every parsed list is a chain of runs that tile the stream from its first cluster on,
  and parsing inverts the on-disk encoding.
\<close>

section \<open>Data runs: what a parsed run list satisfies\<close>

fun runs_chain :: "u64 \<Rightarrow> mft_run list \<Rightarrow> bool" where
  "runs_chain vcn [] \<longleftrightarrow> True"
| "runs_chain vcn (r # rs) \<longleftrightarrow>
     VCN r = vcn \<and> Clusters r \<noteq> 0 \<and> unat vcn + unat (Clusters r) < 2 ^ 64 \<and>
     0 \<le> sint (LCN r) \<and> (Sparse r \<longrightarrow> LCN r = 0) \<and> runs_chain (vcn + Clusters r) rs"

lemma no_vcn_wrap: "\<not> - 1 - vcn < (cnt :: u64) \<longleftrightarrow> unat vcn + unat cnt < 2 ^ 64"
proof -
  have "unat (- 1 - vcn) = 2 ^ 64 - 1 - unat vcn"
    using unat_max64 by (subst unat_sub) simp_all
  moreover have "unat vcn < 2 ^ 64" using unsigned_less [of vcn] by simp
  ultimately show ?thesis by (auto simp: word_less_nat_alt)
qed

lemma mft_runs_loop_chain:
  assumes "mft_runs_loop b vcn lcn out = Ret res" "0 \<le> sint lcn"
  shows "\<exists>rs. res = out @ rs \<and> runs_chain vcn rs"
  using assms
proof (induction "length b" arbitrary: b vcn lcn out rule: less_induct)
  case less
  from less.prems(1) obtain h b1 where b: "b = h # b1" by (cases b) auto
  define n where "n = unat (h AND 15)"
  define w where "w = unat (drop_bit 4 h)"
  define cnt where "cnt = (le_word (take n b1) :: u64)"
  define delta where "delta = run_delta (take w (drop n b1))"
  note defs = n_def [symmetric] w_def [symmetric] cnt_def [symmetric] delta_def [symmetric]
  from less.prems(1) consider (stop) "res = out"
    | (sparse) "cnt \<noteq> 0" "\<not> - 1 - vcn < cnt" "w = 0"
        "mft_runs_loop (drop n b1) (vcn + cnt) lcn
           (out @ [\<lparr>VCN = vcn, LCN = 0, Clusters = cnt, Sparse = True\<rparr>]) = Ret res"
    | (data) "cnt \<noteq> 0" "\<not> - 1 - vcn < cnt" "w \<noteq> 0" "0 \<le> sint (lcn + delta)"
        "mft_runs_loop (drop w (drop n b1)) (vcn + cnt) (lcn + delta)
           (out @ [\<lparr>VCN = vcn, LCN = lcn + delta, Clusters = cnt, Sparse = False\<rparr>]) = Ret res"
    unfolding b by (subst (asm) mft_runs_loop.simps(2))
      (auto simp: Let_def defs word_sless_alt split: if_splits)
  then show ?case
  proof cases
    case stop
    then show ?thesis by simp
  next
    case sparse
    have "length (drop n b1) < length b" by (simp add: b)
    from less.hyps [OF this sparse(4) less.prems(2)] obtain rs where "runs_chain (vcn + cnt) rs"
      "res = (out @ [\<lparr>VCN = vcn, LCN = 0, Clusters = cnt, Sparse = True\<rparr>]) @ rs"
      by (auto simp: b)
    with sparse(1,2) show ?thesis by (auto simp: no_vcn_wrap)
  next
    case data
    have "length (drop w (drop n b1)) < length b" by (simp add: b)
    from less.hyps [OF this data(5,4)] obtain rs where "runs_chain (vcn + cnt) rs"
      "res = (out @ [\<lparr>VCN = vcn, LCN = lcn + delta, Clusters = cnt, Sparse = False\<rparr>]) @ rs"
      by (auto simp: b)
    with data show ?thesis by (auto simp: no_vcn_wrap)
  qed
qed

lemma mft_parse_runs_tile:
  assumes "mft_parse_runs b vcn = Ret runs"
  shows "runs_chain vcn runs"
  using mft_runs_loop_chain [of b vcn 0 "[]" runs] assms by (simp add: mft_parse_runs_def)


section \<open>Data runs: decoding an encoded run list\<close>

text \<open>
  The on-disk form of a run list, as NTFS writes it: for each run a header byte with the two
  field widths, the cluster count and the signed distance to the previous run's LCN, and a zero
  byte at the end.  The widths are the writer's choice, so they are an argument here.
\<close>

fun encode_run :: "u64 \<Rightarrow> mft_run \<Rightarrow> nat \<times> nat \<Rightarrow> byte list" where
  "encode_run prev r (n, w) =
     word_of_nat (w * 16 + n) # put_le n (Clusters r) @ (if Sparse r then [] else put_le w (LCN r - prev))"

fun encode_runs :: "u64 \<Rightarrow> (mft_run \<times> nat \<times> nat) list \<Rightarrow> byte list" where
  "encode_runs prev [] = [0]"
| "encode_runs prev ((r, nw) # rs) =
     encode_run prev r nw @ encode_runs (if Sparse r then prev else LCN r) rs"

fun run_widths_ok :: "u64 \<Rightarrow> (mft_run \<times> nat \<times> nat) list \<Rightarrow> bool" where
  "run_widths_ok prev [] \<longleftrightarrow> True"
| "run_widths_ok prev ((r, n, w) # rs) \<longleftrightarrow>
     1 \<le> n \<and> n \<le> 8 \<and> take_bit (8 * n) (Clusters r) = Clusters r \<and>
     (if Sparse r then w = 0
      else 1 \<le> w \<and> w \<le> 8 \<and> signed_take_bit (8 * w - 1) (LCN r - prev) = LCN r - prev) \<and>
     run_widths_ok (if Sparse r then prev else LCN r) rs"

lemma le_word_put_le_take: "le_word (put_le n (v :: u64)) = (take_bit (8 * n) v :: u64)"
  by (rule bit_word_eqI) (auto simp: bit_le_word nth_put_le bit_simps)

lemma bit_signed_take_bit_eq:
  assumes "signed_take_bit n v = (v :: u64)" "n < m" "m < 64"
  shows "bit v m \<longleftrightarrow> bit v n"
proof -
  have "bit v m \<longleftrightarrow> bit (signed_take_bit n v) m" by (simp add: assms(1))
  also have "\<dots> \<longleftrightarrow> bit v n" using assms(2,3) by (simp add: bit_signed_take_bit_iff min_def)
  finally show ?thesis .
qed

lemma run_delta_put_le:
  assumes "1 \<le> w" "w \<le> 8" "signed_take_bit (8 * w - 1) v = v"
  shows "run_delta (put_le w v) = v"
proof (rule bit_word_eqI)
  fix m assume m: "m < LENGTH(64)"
  have high: "bit v m \<longleftrightarrow> bit v (8 * w - 1)" if "8 * w \<le> m"
    using assms that m by (intro bit_signed_take_bit_eq) auto
  have "bit (run_delta (put_le w v)) m \<longleftrightarrow> bit v (min m (8 * w - 1))"
    using assms m by (auto simp: run_delta_def Let_def le_word_put_le_take bit_signed_drop_bit_iff
      bit_simps min_def mult.commute)
  with high show "bit (run_delta (put_le w v)) m = bit v m" using assms(1)
    by (cases "8 * w \<le> m") (auto simp: min_def)
qed

lemma sint_add_in_range:
  "- (2 ^ 63) \<le> sint a + sint b \<Longrightarrow> sint a + sint b < 2 ^ 63 \<Longrightarrow> sint (a + b :: u64) = sint a + sint b"
  by (simp add: sint_word_ariths signed_take_bit_int_eq_self)

lemma sint_diff_in_range:
  "- (2 ^ 63) \<le> sint a - sint b \<Longrightarrow> sint a - sint b < 2 ^ 63 \<Longrightarrow> sint (a - b :: u64) = sint a - sint b"
  by (simp add: sint_word_ariths signed_take_bit_int_eq_self)

lemma delta_in_range:
  assumes "0 \<le> sint lcn" "0 \<le> sint (lcn' :: u64)"
  shows "\<not> (0 <s lcn' - lcn \<and> max_int64 - (lcn' - lcn) <s lcn)"
    and "\<not> (lcn' - lcn <s 0 \<and> lcn <s min_int64 - (lcn' - lcn))"
proof -
  have r: "sint lcn < 2 ^ 63" "sint lcn' < 2 ^ 63"
    using sint_lt [of lcn] sint_lt [of lcn'] by simp_all
  with assms have d: "sint (lcn' - lcn) = sint lcn' - sint lcn"
    by (intro sint_diff_in_range) auto
  have mx: "sint max_int64 = 2 ^ 63 - 1" and mn: "sint min_int64 = - (2 ^ 63)"
    by (simp_all add: max_int64_def min_int64_def)
  show "\<not> (0 <s lcn' - lcn \<and> max_int64 - (lcn' - lcn) <s lcn)"
  proof
    assume *: "0 <s lcn' - lcn \<and> max_int64 - (lcn' - lcn) <s lcn"
    then have "sint (max_int64 - (lcn' - lcn)) = 2 ^ 63 - 1 - (sint lcn' - sint lcn)"
      using assms r by (subst sint_diff_in_range) (auto simp: d mx word_sless_alt)
    with * r show False by (simp add: word_sless_alt)
  qed
  show "\<not> (lcn' - lcn <s 0 \<and> lcn <s min_int64 - (lcn' - lcn))"
  proof
    assume *: "lcn' - lcn <s 0 \<and> lcn <s min_int64 - (lcn' - lcn)"
    then have "sint (min_int64 - (lcn' - lcn)) = - (2 ^ 63) - (sint lcn' - sint lcn)"
      using assms r by (subst sint_diff_in_range) (auto simp: d mn word_sless_alt)
    with * assms show False by (simp add: word_sless_alt)
  qed
qed

lemma unat_run_header:
  assumes "n \<le> 8" "w \<le> 8"
  shows "unat (word_of_nat (w * 16 + n) :: byte) = w * 16 + n"
  using assms by (subst unat_of_nat) simp

lemma run_header_nonzero:
  assumes "1 \<le> n" "n \<le> 8" "w \<le> 8"
  shows "(word_of_nat (w * 16 + n) :: byte) \<noteq> 0"
  using unat_run_header [OF assms(2,3)] assms(1) by (metis add_is_0 not_one_le_zero unsigned_0)

lemma run_header:
  assumes "n \<le> 8" "w \<le> 8"
  shows "unat ((word_of_nat (w * 16 + n) :: byte) AND 15) = n"
    and "unat (drop_bit 4 (word_of_nat (w * 16 + n) :: byte)) = w"
proof -
  note u = unat_run_header [OF assms]
  have "(15 :: byte) = mask 4" by (simp add: mask_eq_exp_minus_1)
  then show "unat ((word_of_nat (w * 16 + n) :: byte) AND 15) = n"
    using assms by (simp only: u unsigned_take_bit_eq flip: take_bit_eq_mask) (simp add: take_bit_eq_mod)
  show "unat (drop_bit 4 (word_of_nat (w * 16 + n) :: byte)) = w"
    using assms by (simp only: unat_drop_bit_eq u) (simp add: drop_bit_eq_div)
qed

lemma mft_runs_loop_encode:
  assumes "runs_chain vcn (map fst rs)" "run_widths_ok lcn rs" "0 \<le> sint lcn"
  shows "mft_runs_loop (encode_runs lcn rs @ tail) vcn lcn out = Ret (out @ map fst rs)"
  using assms
proof (induction rs arbitrary: vcn lcn out)
  case Nil
  then show ?case by (simp add: mft_runs_loop.simps(2))
next
  case (Cons x rs)
  obtain r n w where x: "x = (r, n, w)" by (cases x)
  from Cons.prems have c: "VCN r = vcn" "Clusters r \<noteq> 0" "\<not> - 1 - vcn < Clusters r" "0 \<le> sint (LCN r)"
    "runs_chain (vcn + Clusters r) (map fst rs)" and n: "1 \<le> n" "n \<le> 8" "le_word (put_le n (Clusters r)) = Clusters r"
    by (auto simp: x no_vcn_wrap le_word_put_le_take)
  show ?case
  proof (cases "Sparse r")
    case True
    with Cons.prems have s: "w = 0" "LCN r = 0" "run_widths_ok lcn rs" by (auto simp: x)
    have r: "\<lparr>VCN = vcn, LCN = 0, Clusters = Clusters r, Sparse = True\<rparr> = r"
      using True s c(1) by simp
    have "(word_of_nat n :: byte) \<noteq> 0" using run_header_nonzero [of n 0] n by simp
    with True s n c run_header [of n 0] Cons.IH [OF c(5) s(3) Cons.prems(3)] show ?thesis
      by (simp add: x mft_runs_loop.simps(2) Let_def r)
  next
    case False
    with Cons.prems have d: "1 \<le> w" "w \<le> 8" "signed_take_bit (8 * w - 1) (LCN r - lcn) = LCN r - lcn"
      "run_widths_ok (LCN r) rs" by (auto simp: x)
    have r: "\<lparr>VCN = vcn, LCN = LCN r, Clusters = Clusters r, Sparse = False\<rparr> = r"
      using False c(1) by simp
    have "(word_of_nat (w * 16 + n) :: byte) \<noteq> 0"
      using n d by (intro run_header_nonzero)
    moreover have "run_delta (put_le w (LCN r - lcn)) = LCN r - lcn"
      using d(1-3) by (rule run_delta_put_le)
    moreover have "\<not> LCN r <s 0" using c(4) by (simp add: word_sless_alt)
    ultimately show ?thesis
      using False d n c run_header [of n w] Cons.IH [OF c(5) d(4) c(4)]
        delta_in_range [OF Cons.prems(3) c(4)]
      by (simp add: x mft_runs_loop.simps(2) Let_def r del: of_nat_add of_nat_mult)
  qed
qed

text \<open>
  C36: parsing the on-disk encoding of a run list gives the list back, for
  any widths of the count and distance fields that hold their values, and whatever follows it.
\<close>

theorem mft_parse_runs_encode:
  assumes "runs_chain vcn (map fst rs)" "run_widths_ok 0 rs"
  shows "mft_parse_runs (encode_runs 0 rs @ tail) vcn = Ret (map fst rs)"
  using mft_runs_loop_encode [OF assms] by (simp add: mft_parse_runs_def)

theorem mft_parse_runs_encode_witness:
  "mft_parse_runs (encode_runs 0
      [(\<lparr>VCN = 3, LCN = 5, Clusters = 2, Sparse = False\<rparr>, 1, 1),
       (\<lparr>VCN = 5, LCN = 0, Clusters = 4, Sparse = True\<rparr>, 2, 0),
       (\<lparr>VCN = 9, LCN = 1, Clusters = 300, Sparse = False\<rparr>, 2, 1)] @ [7]) 3 =
    Ret [\<lparr>VCN = 3, LCN = 5, Clusters = 2, Sparse = False\<rparr>,
         \<lparr>VCN = 5, LCN = 0, Clusters = 4, Sparse = True\<rparr>,
         \<lparr>VCN = 9, LCN = 1, Clusters = 300, Sparse = False\<rparr>]"
  using mft_parse_runs_encode [of 3
      "[(\<lparr>VCN = 3, LCN = 5, Clusters = 2, Sparse = False\<rparr>, 1, 1),
        (\<lparr>VCN = 5, LCN = 0, Clusters = 4, Sparse = True\<rparr>, 2, 0),
        (\<lparr>VCN = 9, LCN = 1, Clusters = 300, Sparse = False\<rparr>, 2, 1)]" "[7]"]
  by (simp del: encode_runs.simps)

end
