(* ===== verification/Mft_Record.thy ===== *)
theory Mft_Record
  imports Mft_Parser
begin

text \<open>
  What the record parser computes: the fix-up against its byte-wise specification, the order of a
  run list, the links of a decoded record, and the conversion of its name from UTF-16.
\<close>

section \<open>The fix-up against its specification\<close>

definition restored_byte :: "byte list \<Rightarrow> nat \<Rightarrow> nat \<Rightarrow> nat \<Rightarrow> byte" where
  "restored_byte b s ofs k =
    (if s - 2 \<le> k mod s then b ! (ofs + 2 * (k div s + 1) + (k mod s - (s - 2))) else b ! k)"

definition restored_record :: "byte list \<Rightarrow> nat \<Rightarrow> nat \<Rightarrow> byte list" where
  "restored_record b s ofs = map (restored_byte b s ofs) [0..<length b]"

definition sector_tails_ok :: "byte list \<Rightarrow> nat \<Rightarrow> nat \<Rightarrow> bool" where
  "sector_tails_ok b s ofs \<longleftrightarrow>
     (\<forall>i \<in> set [1..<length b div s + 1]. take 2 (drop (i * s - 2) b) = take 2 (drop ofs b))"

lemma go_fold_unit_checks:
  assumes "\<And>x. x \<in> set xs \<Longrightarrow> f x () = (if P x then Ret () else Err e)"
  shows "go_fold f xs () = (if \<forall>x \<in> set xs. P x then Ret () else Err e)"
  using assms by (induction xs) auto

lemma le_word2_inj:
  assumes "length xs = 2" "length ys = 2"
  shows "(le_word xs :: u16) = le_word ys \<longleftrightarrow> xs = ys"
proof -
  have "put_le 2 (le_word zs :: u16) = zs" if "length zs = 2" for zs
    using put_le_le_word [of zs, where 'a = 16] that by simp
  with assms show ?thesis by metis
qed

lemma fixup_check_eq:
  assumes "2 \<le> i * s" "i * s \<le> length b" "ofs + 2 \<le> length b"
  shows "fixup_check b s ofs i =
    (if take 2 (drop (i * s - 2) b) = take 2 (drop ofs b) then Ret () else Err ErrMFTCorrupt)"
proof -
  have "i * s - 2 + 2 \<le> length b" using assms by simp
  then have g: "get16 b (i * s - 2) = Ret (le_word (take 2 (drop (i * s - 2) b)))"
    "get16 b ofs = Ret (le_word (take 2 (drop ofs b)))"
    using assms(3) by (simp_all only: get16_def le_at_def if_True)
  have "length (take 2 (drop (i * s - 2) b)) = 2" "length (take 2 (drop ofs b)) = 2"
    using assms by (simp_all only: length_take length_drop)
  then show ?thesis
    by (simp only: fixup_check_def g go_bind.simps go_check_def le_word2_inj)
qed

lemma fixup_restore_eq:
  assumes "ofs + i * 2 + 2 \<le> length b"
  shows "fixup_restore s ofs i b = Ret (put_at b (i * s - 2) (take 2 (drop (ofs + i * 2) b)))"
  using assms by (simp add: fixup_restore_def go_slice_def)

lemma sector_index:
  assumes "(2::nat) \<le> s" "1 \<le> i"
  shows "i * s - 2 \<le> k \<and> k < i * s \<longleftrightarrow> s - 2 \<le> k mod s \<and> k div s + 1 = i"
proof -
  have k: "k = k div s * s + k mod s" by simp
  have m: "k mod s < s" using assms(1) by simp
  show ?thesis
  proof
    assume *: "i * s - 2 \<le> k \<and> k < i * s"
    obtain j where j: "i = Suc j" using assms(2) by (cases i) auto
    have "k div s = j"
      using * assms(1) j by (intro div_nat_eqI) (auto simp: mult.commute)
    have "j * s + s - 2 \<le> k" using * j by (simp add: add.commute)
    with \<open>k div s = j\<close> k m show "s - 2 \<le> k mod s \<and> k div s + 1 = i" using j by auto
  next
    assume *: "s - 2 \<le> k mod s \<and> k div s + 1 = i"
    then have "i * s = k div s * s + s" by (metis add.commute add_mult_distrib mult_1)
    with * k m show "i * s - 2 \<le> k \<and> k < i * s" by linarith
  qed
qed

lemma restore_fold:
  assumes "2 \<le> s" "m \<le> length b div s + 1" "ofs + 2 * (length b div s + 1) \<le> s - 2" "1 \<le> m"
  shows "go_fold (fixup_restore s ofs) [1..<m] b =
    Ret (map (\<lambda>k. if k div s + 1 < m then restored_byte b s ofs k else b ! k) [0..<length b])"
  using assms(2,4)
proof (induction m)
  case 0
  then show ?case by simp
next
  case (Suc m)
  show ?case
  proof (cases "m = 0")
    case True
    then show ?thesis by (simp add: map_nth)
  next
    case False
    define c where "c = map (\<lambda>k. if k div s + 1 < m then restored_byte b s ofs k else b ! k) [0..<length b]"
    have IH: "go_fold (fixup_restore s ofs) [1..<m] b = Ret c"
      using Suc.IH Suc.prems False by (simp add: c_def)
    have len: "length c = length b" by (simp add: c_def)
    have mb: "m \<le> length b div s" using Suc.prems by simp
    have ms: "m * s \<le> length b" using mb by (meson div_times_less_eq_dividend le_trans mult_le_mono1)
    have sm: "s \<le> m * s" using False by simp
    note le = ms le_trans [OF sm ms]
    have arr: "ofs + m * 2 + 2 \<le> s - 2"
      by (rule le_trans [OF _ assms(3)]) (use mb in simp)
    have low: "c ! k = b ! k" if "k < s - 2" for k
      using that assms(1) le by (simp add: c_def restored_byte_def)
    have val: "take 2 (drop (ofs + m * 2) c) = take 2 (drop (ofs + m * 2) b)"
      using arr le len by (intro nth_equalityI) (auto simp: low)
    have "fixup_restore s ofs m c = Ret (put_at c (m * s - 2) (take 2 (drop (ofs + m * 2) b)))"
      using arr le len by (subst fixup_restore_eq) (simp_all add: val)
    moreover have "put_at c (m * s - 2) (take 2 (drop (ofs + m * 2) b)) =
        map (\<lambda>k. if k div s + 1 < Suc m then restored_byte b s ofs k else b ! k) [0..<length b]"
      (is "?l = ?r")
    proof (rule nth_equalityI)
      fix k assume "k < length ?l"
      then have k: "k < length b" by (simp add: len)
      have "2 \<le> m * s" using sm assms(1) by linarith
      then have put: "?l ! k = (if m * s - 2 \<le> k \<and> k < m * s
          then b ! (ofs + m * 2 + (k - (m * s - 2))) else c ! k)"
        using k le arr len by (subst nth_put_at) (auto simp: nth_take)
      show "?l ! k = ?r ! k"
      proof (cases "k div s + 1 = m")
        case True
        then have ms: "m * s = k div s * s + s" by (metis add.commute add_mult_distrib mult_1)
        have kk: "k = k div s * s + k mod s" by simp
        show ?thesis
        proof (cases "s - 2 \<le> k mod s")
          case tail: True
          have off: "k - (m * s - 2) = k mod s - (s - 2)"
            using kk ms tail assms(1) by linarith
          have "?l ! k = b ! (ofs + m * 2 + (k - (m * s - 2)))"
            using sector_index [OF assms(1), of m k] tail True put \<open>m \<noteq> 0\<close> by simp
          also have "\<dots> = restored_byte b s ofs k"
            unfolding off restored_byte_def using tail True by (simp add: mult.commute)
          finally show ?thesis using k True by simp
        next
          case tail: False
          then have "\<not> (m * s - 2 \<le> k \<and> k < m * s)"
            using sector_index [OF assms(1), of m k] \<open>m \<noteq> 0\<close> by simp
          then have "?l ! k = c ! k" by (simp only: put if_False)
          then show ?thesis using k True tail by (simp add: c_def restored_byte_def)
        qed
      next
        case False
        with sector_index [OF assms(1), of m k] \<open>m \<noteq> 0\<close> put k show ?thesis
          by (auto simp: c_def)
      qed
    qed (simp add: len)
    moreover have "[1..<Suc m] = [1..<m] @ [m]" using False by simp
    ultimately show ?thesis using IH by (simp add: go_fold_append del: upt_Suc)
  qed
qed

text \<open>
  For a record of whole sectors whose update sequence array lies before the
  first sector's tail, the fix-up succeeds exactly when every sector ends with the update sequence
  number, and then replaces exactly the two last bytes of each sector by their array entries.
\<close>

theorem mft_fixup_spec:
  assumes "get16 b 4 = (Ret ofs :: (mft_error, u16) go)" "get16 b 6 = (Ret n :: (mft_error, u16) go)"
    and "0x30 \<le> length b" "length b < 2 ^ 64" "2 \<le> unat sector" "length b mod unat sector = 0"
    and "unat n = length b div unat sector + 1" "8 \<le> unat ofs" "unat ofs + 2 * unat n \<le> unat sector - 2"
  shows "mft_fixup b sector =
    (if sector_tails_ok b (unat sector) (unat ofs)
     then Ret (restored_record b (unat sector) (unat ofs)) else Err ErrMFTCorrupt)"
proof -
  define s o' where "s = unat sector" and "o' = unat ofs"
  have s: "2 \<le> s" "s \<le> length b" "length b mod s = 0"
    using assms(3,5,6) by (simp_all add: s_def) (metis assms(3) mod_less not_le not_numeral_le_zero)
  have n: "unat n = length b div s + 1" "o' + 2 * (length b div s + 1) \<le> s - 2"
    using assms(7,9) by (simp_all add: s_def o'_def)
  then have geo: "fixup_geometry (length b) s o' (unat n)"
    using assms(8) s by (auto simp: fixup_geometry_def o'_def)
  have "of_nat (length b) mod sector = 0"
    using assms(4,6) by (simp add: word_unat_eq_iff unat_mod_distrib unat_of_nat)
  moreover have "\<not> sector < 2" using assms(5) by (simp add: word_less_nat_alt)
  moreover have "\<not> int (length b) - int (unat n) * 2 < int o'"
    using geo by (auto simp: fixup_geometry_def)
  moreover have "go_fold (\<lambda>i _. fixup_check b s o' i) [1..<unat n] () =
    (if sector_tails_ok b s o' then Ret () else Err ErrMFTCorrupt)"
    unfolding sector_tails_ok_def n(1) [symmetric]
  proof (rule go_fold_unit_checks, rule fixup_check_eq)
    have "o' + 2 \<le> s - 2" by (rule le_trans [OF _ n(2)]) simp
    then show "o' + 2 \<le> length b" using s(2) by simp
  qed (use fixup_geometry_bounds [OF geo] in simp_all)
  moreover have "go_fold (fixup_restore s o') [1..<unat n] b = Ret (restored_record b s o')"
  proof -
    have "k div s + 1 < unat n" if "k < length b" for k
      using that s n(1) less_mult_imp_div_less [of k "length b div s" s]
      by (simp add: mult.commute mod_0_imp_dvd)
    then show ?thesis
      using s n by (subst restore_fold) (auto simp: restored_record_def)
  qed
  moreover have "uint ofs = int o'" by (simp add: o'_def)
  ultimately show ?thesis
    using assms(1-3,8) n(1)
    by (simp add: mft_fixup_def s_def [symmetric] o'_def [symmetric] del: upt_Suc)
qed

definition sample_fixup :: "byte list" where
  "sample_fixup = [70, 73, 76, 69, 8, 0, 3, 0, 9, 9, 1, 2, 3, 4, 0, 0, 0, 0, 0, 0, 0, 0, 9, 9,
     5, 0, 0, 0, 0, 0, 0, 0, 0, 0, 0, 0, 0, 0, 0, 0, 0, 0, 0, 0, 0, 0, 9, 9]"

theorem mft_fixup_spec_witness:
  "mft_fixup sample_fixup 24 = Ret (restored_record sample_fixup 24 8) \<and>
   restored_record sample_fixup 24 8 ! 23 = 2"
proof
  have "{Suc 0..<3} = {1, 2}" by auto
  then have "sector_tails_ok sample_fixup 24 8"
    by (simp add: sector_tails_ok_def sample_fixup_def)
  then show "mft_fixup sample_fixup 24 = Ret (restored_record sample_fixup 24 8)"
    using mft_fixup_spec [of sample_fixup 8 3 24]
    by (simp add: sample_fixup_def get16_def le_at_def)
  show "restored_record sample_fixup 24 8 ! 23 = 2"
    by (simp add: restored_record_def restored_byte_def sample_fixup_def)
qed

section \<open>Ordered run lists\<close>

fun runs_ordered :: "nat \<Rightarrow> mft_run list \<Rightarrow> bool" where
  "runs_ordered e [] \<longleftrightarrow> True"
| "runs_ordered e (r # rs) \<longleftrightarrow>
     e \<le> unat (VCN r) \<and> unat (VCN r) + unat (Clusters r) < 2 ^ 64 \<and>
     runs_ordered (unat (VCN r) + unat (Clusters r)) rs"

lemma vcn_wrap_iff: "- 1 - vcn < (cnt :: u64) \<longleftrightarrow> \<not> unat vcn + unat cnt < 2 ^ 64"
proof -
  have "unat (- 1 - vcn) = 2 ^ 64 - 1 - unat vcn"
    using unat_max64 by (subst unat_sub) simp_all
  moreover have "unat vcn < 2 ^ 64" using unsigned_less [of vcn] by simp
  ultimately show ?thesis by (auto simp: word_less_nat_alt)
qed

lemma order_step_Ret:
  assumes "order_step r e = Ret e'"
  shows "unat e \<le> unat (VCN r) \<and> unat (VCN r) + unat (Clusters r) < 2 ^ 64 \<and>
    unat e' = unat (VCN r) + unat (Clusters r)"
proof -
  from assms have ok: "e \<le> VCN r" "unat (VCN r) + unat (Clusters r) < 2 ^ 64" "e' = VCN r + Clusters r"
    by (auto simp: order_step_def vcn_wrap_iff not_less split: if_splits)
  then show ?thesis by (simp add: word_le_nat_alt unat_word_ariths)
qed

lemma order_fold_Ret: "go_fold order_step rs e = Ret e' \<Longrightarrow> runs_ordered (unat e) rs"
proof (induction rs arbitrary: e)
  case (Cons r rs)
  then obtain e1 where "order_step r e = Ret e1" "go_fold order_step rs e1 = Ret e'"
    by (auto simp: go_bind_Ret_iff)
  have "runs_ordered (unat e1) rs" using Cons.IH \<open>go_fold order_step rs e1 = Ret e'\<close> .
  with order_step_Ret [OF \<open>order_step r e = Ret e1\<close>] show ?case by simp
qed simp

lemma mft_order_runs_runs:
  assumes "mft_order_runs runs = Ret out"
  shows "mset out = mset runs \<and> runs_ordered 0 out"
proof -
  from assms obtain e where out: "out = sort_key VCN runs" and "go_fold order_step out 0 = Ret e"
    by (auto simp: mft_order_runs_def Let_def go_bind_Ret_iff)
  from order_fold_Ret [OF this(2)] out show ?thesis by simp
qed

text \<open>Ordering the run list returns the same runs, sorted and without overlap.\<close>

theorem mft_order_runs_ordered:
  assumes "mft_order_runs runs = Ret out"
  shows "mset out = mset runs \<and> runs_ordered 0 out"
  using assms by (rule mft_order_runs_runs)

theorem mft_order_runs_ordered_witness:
  "runs_ordered 0 [\<lparr>VCN = 0, LCN = 9, Clusters = 2, Sparse = False\<rparr>, \<lparr>VCN = 2, LCN = 5, Clusters = 4, Sparse = False\<rparr>]"
  using mft_order_runs_ordered [of "[\<lparr>VCN = 2, LCN = 5, Clusters = 4, Sparse = False\<rparr>, \<lparr>VCN = 0, LCN = 9, Clusters = 2, Sparse = False\<rparr>]"
    "[\<lparr>VCN = 0, LCN = 9, Clusters = 2, Sparse = False\<rparr>, \<lparr>VCN = 2, LCN = 5, Clusters = 4, Sparse = False\<rparr>]"]
  by (simp add: mft_order_runs_def order_step_def)

section \<open>What a decoded record guarantees\<close>

lemma mft_list_loop_distinct:
  assumes "mft_list_loop b out = Ret rs" "distinct out" "0 \<notin> set out"
  shows "distinct rs \<and> 0 \<notin> set rs"
  using assms
proof (induction "length b" arbitrary: b out rule: less_induct)
  case less
  from less.prems(1) consider (stop) "rs = out" | (step) n out' where
    "b \<noteq> []" "24 \<le> n" "out' = out \<or> (\<exists>r. r \<noteq> 0 \<and> r \<notin> set out \<and> out' = out @ [r])"
    "mft_list_loop (drop n b) out' = Ret rs"
    unfolding mft_list_loop.simps [of b out]
    by (auto simp: go_bind_Ret_iff Let_def not_less split: if_splits)
  then show ?case
  proof cases
    case step
    have "length (drop n b) < length b" using step(1,2) by (cases b) auto
    moreover have "distinct out'" "0 \<notin> set out'" using step(3) less.prems(2,3) by auto
    ultimately show ?thesis using less.hyps step(4) by blast
  qed (use less.prems in simp)
qed

definition decode_ok :: "mft_decode \<Rightarrow> bool" where
  "decode_ok d \<longleftrightarrow> distinct (d_batch d) \<and> (d_got d \<longrightarrow> mftParent (d_entry d) \<in> set (d_batch d)) \<and>
     \<not> mftUsed (d_entry d)"

lemma mft_add_link_simps [simp]:
  "set (d_batch (mft_add_link p d)) = insert p (set (d_batch d))"
  "distinct (d_batch (mft_add_link p d)) \<longleftrightarrow> distinct (d_batch d)"
  "d_got (mft_add_link p d) = d_got d" "d_entry (mft_add_link p d) = d_entry d"
  by (auto simp: mft_add_link_def)

lemma mft_decode_name_ok:
  assumes "decode_ok d" "mft_decode_name v d = Ret d'"
  shows "decode_ok d'"
  using assms by (auto simp: mft_decode_name_def decode_ok_def Let_def go_bind_Ret_iff split: if_splits)

lemma mft_decode_other_ok:
  assumes "mft_decode_attr a d = Ret d'" "\<not> (attr_typ a = 0x30 \<and> \<not> nonresident a)"
  shows "d_batch d' = d_batch d \<and> d_got d' = d_got d \<and> mftParent (d_entry d') = mftParent (d_entry d) \<and>
    mftUsed (d_entry d') = mftUsed (d_entry d)"
proof (cases "attr_typ a = 0x10 \<and> \<not> nonresident a")
  case True
  with assms(1) show ?thesis
    by (auto simp: mft_decode_attr_def go_bind_Ret_iff split: if_splits)
next
  case False
  with assms show ?thesis
    unfolding mft_decode_attr_def by (simp only: if_False) (auto simp: go_bind_Ret_iff split: if_splits)
qed

lemma mft_decode_attr_ok:
  assumes "decode_ok d" "mft_decode_attr a d = Ret d'"
  shows "decode_ok d'"
proof (cases "attr_typ a = 0x30 \<and> \<not> nonresident a")
  case True
  with assms(2) obtain v where "mft_decode_name v d = Ret d'"
    by (auto simp: mft_decode_attr_def go_bind_Ret_iff)
  with assms(1) show ?thesis by (rule mft_decode_name_ok)
next
  case False
  from mft_decode_other_ok [OF assms(2) False] assms(1) show ?thesis by (simp add: decode_ok_def)
qed

text \<open>
  A record decoded as in use is a base record, lists each parent
  directory that links to it once, and the parent it is shown under is one of them.
\<close>

theorem mft_decode_record_links:
  assumes "mft_decode_record rec = Ret e" "mftUsed e"
  shows "distinct (mftLinkParents e) \<and> mftParent e \<in> set (mftLinkParents e) \<and> mftBaseRecord e = 0"
proof -
  from assms obtain d e0 where d: "mft_each_attr rec mft_decode_attr
      \<lparr>d_entry = e0, d_best = 4, d_got = False, d_batch = []\<rparr> = Ret d" "\<not> mftUsed e0"
    and e: "if mftBaseRecord (d_entry d) \<noteq> 0 then e = (d_entry d)\<lparr>mftLinkParents := d_batch d\<rparr>
      else d_got d \<and> mftParent e = mftParent (d_entry d) \<and> mftLinkParents e = d_batch d
        \<and> mftBaseRecord e = 0"
    by (auto simp: mft_decode_record_def go_bind_Ret_iff Let_def empty_mft_entry_def split: if_splits)
  have "decode_ok d"
    by (rule each_attr_invariant [where P = decode_ok, OF d(1)])
      (use d(2) in \<open>simp add: decode_ok_def\<close>, rule mft_decode_attr_ok)
  with e assms(2) show ?thesis by (auto simp: decode_ok_def split: if_splits)
qed

definition sample_record :: "byte list" where
  "sample_record =
    [70, 73, 76, 69, 0, 0, 0, 0, 0, 0, 0, 0, 0, 0, 0, 0, 0, 0, 0, 0, 48, 0, 1, 0, 0, 0, 0, 0, 0, 0,
     0, 0, 0, 0, 0, 0, 0, 0, 0, 0, 0, 0, 0, 0, 0, 0, 0, 0, 48, 0, 0, 0, 94, 0, 0, 0, 0, 0, 0, 0, 0,
     0, 0, 0, 68, 0, 0, 0, 24, 0, 0, 0, 5, 0, 0, 0, 0, 0, 0, 0, 0, 0, 0, 0, 0, 0, 0, 0, 0, 0, 0, 0,
     0, 0, 0, 0, 0, 0, 0, 0, 0, 0, 0, 0, 0, 0, 0, 0, 0, 0, 0, 0, 0, 0, 0, 0, 0, 0, 0, 0, 0, 0, 0, 0,
     0, 0, 0, 0, 0, 0, 0, 0, 0, 0, 0, 0, 1, 1, 65, 0, 0, 0, 255, 255, 255, 255]"

lemma sample_record_decodes:
  "mft_decode_record sample_record = Ret \<lparr>mftParent = 5, mftName = ''A'', mftIsDir = False, mftSize = 0,
     mftUsed = True, mftMtime = 0, mftBaseRecord = 0, mftLinkParents = [5]\<rparr>"
  by (simp add: sample_record_def bytes_of_string_def mft_decode_record_def mft_each_attr_def
    mft_attr_loop.simps mft_attr_at_def get16_def get32_def get64_def le_at_def byte_at_def go_slice_def
    go_check_def mft_decode_attr_def mft_decode_name_def attr_value_def mft_add_link_def
    filename_rank_def mft_ref_mask_def empty_mft_entry_def utf8_encode_def utf8_nats_def
    scalar_value_def Let_def char_of_def bit_0)

theorem mft_decode_record_links_witness:
  "(5 :: u64) \<in> set (mftLinkParents \<lparr>mftParent = 5, mftName = ''A'', mftIsDir = False, mftSize = 0,
     mftUsed = True, mftMtime = 0, mftBaseRecord = 0, mftLinkParents = [5]\<rparr>)"
  using mft_decode_record_links [OF sample_record_decodes] by simp

section \<open>File names: UTF-16 to UTF-8\<close>

definition utf16_unit :: "nat \<Rightarrow> byte list" where
  "utf16_unit u = [word_of_nat (u mod 256), word_of_nat (u div 256)]"

definition utf16_encode :: "nat \<Rightarrow> byte list" where
  "utf16_encode r = (if r < 0x10000 then utf16_unit r
     else utf16_unit (0xD800 + (r - 0x10000) div 1024) @ utf16_unit (0xDC00 + (r - 0x10000) mod 1024))"

lemma utf16_unit_read:
  assumes "u < 65536"
  shows "unat (word_of_nat (u mod 256) :: byte) + unat (word_of_nat (u div 256) :: byte) * 256 = u"
proof -
  have "unat (word_of_nat (u mod 256) :: byte) = u mod 256" by (simp add: unat_of_nat)
  moreover have "u div 256 < 256" using assms by (simp add: less_mult_imp_div_less)
  then have "unat (word_of_nat (u div 256) :: byte) = u div 256" by (simp add: unat_of_nat)
  ultimately show ?thesis using mod_div_mult_eq [of u 256] by simp
qed

lemma mft_append_utf16_encode1:
  assumes "scalar_value r"
  shows "mft_append_utf16 dst (utf16_encode r @ raw) = mft_append_utf16 (dst @ utf8_encode r) raw"
proof (cases "r < 0x10000")
  case True
  with assms show ?thesis
    by (auto simp: utf16_encode_def utf16_unit_def Let_def utf16_unit_read scalar_value_def)
next
  case False
  define q m where "q = (r - 0x10000) div 1024" and "m = (r - 0x10000) mod 1024"
  have r: "r = 0x10000 + q * 1024 + m" using False by (simp add: q_def m_def)
  have "r - 0x10000 < 1024 * 1024" using assms False by (auto simp: scalar_value_def)
  then have b: "q < 1024" "m < 1024" by (simp_all add: q_def m_def less_mult_imp_div_less)
  have "utf16_encode r = utf16_unit (0xD800 + q) @ utf16_unit (0xDC00 + m)"
    using False by (simp add: utf16_encode_def q_def m_def)
  with b show ?thesis
    by (simp add: utf16_unit_def Let_def utf16_unit_read) (simp add: r)
qed

text \<open>
  Converting the UTF-16 form of any sequence of Unicode scalar values
  gives the UTF-8 form of the same sequence.
\<close>

theorem mft_append_utf16_encode:
  assumes "\<forall>r \<in> set rs. scalar_value r"
  shows "mft_append_utf16 [] (concat (map utf16_encode rs)) = concat (map utf8_encode rs)"
proof -
  have "mft_append_utf16 dst (concat (map utf16_encode rs)) = dst @ concat (map utf8_encode rs)" for dst
    using assms by (induction rs arbitrary: dst) (simp_all add: mft_append_utf16_encode1)
  then show ?thesis by simp
qed

theorem mft_append_utf16_encode_witness:
  "mft_append_utf16 [] (concat (map utf16_encode [0x41, 0xE9, 0x1F600])) =
   concat (map utf8_encode [0x41, 0xE9, 0x1F600])"
  using mft_append_utf16_encode [of "[0x41, 0xE9, 0x1F600]"] by (simp add: scalar_value_def del: concat.simps)

end
