(* ===== verification/Mft_Scan.thy ===== *)
theory Mft_Scan
  imports Mft_Runs Mft_Record
begin

text \<open>
  \<^verbatim>\<open>internal/platform/mft_scan.go\<close>: the geometry and boot-sector checks, the reading of a
  logical stream through its data runs, and the scan of a whole master file table.  The volume
  (an \<^verbatim>\<open>io.ReaderAt\<close>) and the \<^verbatim>\<open>context.Context\<close> are outside the program: they are the
  two operations of \<open>mft_io\<close>, over a state \<open>'w\<close> of their own.
\<close>

section \<open>Geometry\<close>

record mft_geometry =
  Sector :: u64
  Cluster :: u64
  Record_size :: u64
  Start :: u64
  Valid :: u64

definition mft_root_record :: u64 where
  "mft_root_record = 5"

definition mft_max_attr_list :: u64 where
  "mft_max_attr_list = 16 * 1024 * 1024"

definition geometry_validate :: "mft_geometry \<Rightarrow> (mft_error, unit) go" where
  "geometry_validate g =
    (if Sector g < 512 \<or> Sector g > 4096 \<or> Sector g AND (Sector g - 1) \<noteq> 0 \<or>
        Cluster g < Sector g \<or> Cluster g > 2 * 1024 * 1024 \<or> Cluster g AND (Cluster g - 1) \<noteq> 0 \<or>
        Record_size g < Sector g \<or> Record_size g > 64 * 1024 \<or> Record_size g AND (Record_size g - 1) \<noteq> 0 \<or>
        Valid g div Record_size g \<le> mft_root_record \<or> Valid g > max_int64 \<or>
        Start g > max_int64 div Cluster g
     then Err ErrMFTCorrupt else Ret ())"

definition mft_validate_boot :: "byte list \<Rightarrow> mft_geometry \<Rightarrow> (mft_error, unit) go" where
  "mft_validate_boot boot g =
    (if length boot < 512 \<or> take 8 (drop 3 boot) \<noteq> bytes_of_string ''NTFS    '' then Err ErrMFTUnsupported
     else go_bind (byte_at boot 64) (\<lambda>encoded.
       go_bind (if encoded <s 0
                then if encoded <s (- 16) then Err ErrMFTCorrupt
                     else Ret (push_bit (unat (- encoded)) 1)
                else Ret (ucast encoded * Cluster g)) (\<lambda>record.
       go_bind (get16 boot 11) (\<lambda>s. go_bind (byte_at boot 13) (\<lambda>c. go_bind (get64 boot 48) (\<lambda>start.
         go_check (\<not> (ucast s \<noteq> Sector g \<or> ucast c * Sector g \<noteq> Cluster g \<or> record \<noteq> Record_size g \<or>
           start \<noteq> Start g)) ErrMFTCorrupt))))))"

section \<open>Effects\<close>

record 'w mft_io =
  ctx_err :: "'w \<Rightarrow> bool \<times> 'w"
  read_at :: "nat \<Rightarrow> nat \<Rightarrow> 'w \<Rightarrow> (mft_error, byte list) go \<times> 'w"

type_synonym ('w, 'a) mio = "'w \<Rightarrow> (mft_error, 'a) go \<times> 'w"

definition mio_lift :: "(mft_error, 'a) go \<Rightarrow> ('w, 'a) mio" where
  "mio_lift m w = (m, w)"

definition mio_bind :: "('w, 'a) mio \<Rightarrow> ('a \<Rightarrow> ('w, 'b) mio) \<Rightarrow> ('w, 'b) mio" where
  "mio_bind m f w = (case m w of (Ret a, w') \<Rightarrow> f a w' | (Err e, w') \<Rightarrow> (Err e, w') | (Panic, w') \<Rightarrow> (Panic, w'))"

definition mio_ctx :: "'w mft_io \<Rightarrow> ('w, unit) mio" where
  "mio_ctx io w = (case ctx_err io w of (canceled, w') \<Rightarrow> (if canceled then Err ErrCanceled else Ret (), w'))"

lemma mio_bind_cong [fundef_cong]:
  "w = w' \<Longrightarrow> m w' = m' w' \<Longrightarrow> (\<And>a v. m' w' = (Ret a, v) \<Longrightarrow> f a v = g a v) \<Longrightarrow> mio_bind m f w = mio_bind m' g w'"
  by (auto simp: mio_bind_def split: prod.splits go.splits)

lemma mio_lift_simps [simp]: "mio_bind (mio_lift (Ret a)) f = f a" "mio_lift (Err e) w = (Err e, w)"
    "mio_lift (Ret a) w = (Ret a, w)" "mio_lift m w = (m, w)"
  by (simp_all add: fun_eq_iff mio_bind_def mio_lift_def)

lemma mio_bind_Ret_iff:
  "mio_bind m f w = (Ret b, w'') \<longleftrightarrow> (\<exists>a w'. m w = (Ret a, w') \<and> f a w' = (Ret b, w''))"
  by (auto simp: mio_bind_def split: prod.splits go.splits)

definition mft_read_at :: "'w mft_io \<Rightarrow> nat \<Rightarrow> u64 \<Rightarrow> ('w, byte list) mio" where
  "mft_read_at io len offset =
    mio_bind (mio_ctx io) (\<lambda>_.
      if offset > max_int64 \<or> of_nat len > max_int64 - offset then mio_lift (Err ErrMFTCorrupt)
      else mio_bind (read_at io (unat offset) len) (\<lambda>b.
        if length b \<noteq> len then mio_lift (Err ErrUnexpectedEOF)
        else mio_bind (mio_ctx io) (\<lambda>_. mio_lift (Ret b))))"

section \<open>Streams\<close>

definition run_covers :: "u64 \<Rightarrow> mft_run \<Rightarrow> bool" where
  "run_covers vcn run \<longleftrightarrow> \<not> (vcn < VCN run \<or> vcn - VCN run \<ge> Clusters run)"

text \<open>
  \<^verbatim>\<open>mftReadStream\<close> fills \<^verbatim>\<open>b\<close>; here it returns the bytes it would hold.  \<open>len\<close> is
  \<^verbatim>\<open>len(b)\<close>, the part still to fill, and the inner loop is \<open>find\<close>: the first covering run.
\<close>

definition mft_read_part :: "'w mft_io \<Rightarrow> mft_run list \<Rightarrow> u64 \<Rightarrow> u64 \<Rightarrow> u64 \<Rightarrow> ('w, byte list) mio" where
  "mft_read_part io runs cluster offset len =
    (let vcn = offset div cluster in
     case find (run_covers vcn) runs of
       None \<Rightarrow> mio_lift (Err ErrMFTCorrupt)
     | Some run \<Rightarrow>
         let left = Clusters run - (vcn - VCN run) in
         if left > (- 1) div cluster then mio_lift (Err ErrMFTCorrupt)
         else let n = min len (left * cluster - offset mod cluster) in
           if Sparse run then mio_lift (Ret (replicate (unat n) 0))
           else if LCN run > (- 1) - (vcn - VCN run) then mio_lift (Err ErrMFTCorrupt)
           else let lcn = LCN run + vcn - VCN run in
             if lcn > max_int64 div cluster then mio_lift (Err ErrMFTCorrupt)
             else mft_read_at io (unat n) (lcn * cluster + offset mod cluster))"

lemma min_u64: "unat (min a b :: u64) = min (unat a) (unat b)"
  by (simp add: min_def word_le_nat_alt)

text \<open>The part of the source's arithmetic that decides how far one step reaches.\<close>

lemma stream_step_bounds:
  assumes "run_covers (offset div cluster) run" "cluster \<noteq> 0"
    and "\<not> Clusters run - (offset div cluster - VCN run) > (- 1) div cluster"
  defines "left \<equiv> Clusters run - (offset div cluster - VCN run)"
  shows "unat left = unat (VCN run) + unat (Clusters run) - unat offset div unat cluster"
    and "unat (VCN run) \<le> unat offset div unat cluster"
    and "unat offset div unat cluster < unat (VCN run) + unat (Clusters run)"
    and "unat (left * cluster - offset mod cluster) = unat left * unat cluster - unat offset mod unat cluster"
    and "0 < unat (left * cluster - offset mod cluster)"
proof -
  define v where "v = offset div cluster"
  have v: "unat v = unat offset div unat cluster" by (simp add: v_def unat_div_distrib)
  have c: "VCN run \<le> v" "v - VCN run < Clusters run"
    using assms(1) by (auto simp: run_covers_def v_def)
  have d: "unat (v - VCN run) = unat v - unat (VCN run)" using c(1) by (simp add: unat_sub)
  show vle: "unat (VCN run) \<le> unat offset div unat cluster" using c(1) v by (simp add: word_le_nat_alt)
  show "unat offset div unat cluster < unat (VCN run) + unat (Clusters run)"
    using c(2) d v vle by (simp add: word_less_nat_alt)
  have l: "unat left = unat (Clusters run) - (unat v - unat (VCN run))"
    using c(2) d by (simp add: left_def v_def [symmetric] unat_sub)
  then show "unat left = unat (VCN run) + unat (Clusters run) - unat offset div unat cluster"
    using vle v by simp
  have lpos: "0 < unat left" using l c(2) d by (simp add: word_less_nat_alt)
  have cpos: "0 < unat cluster" using assms(2) by (simp add: unat_gt_0)
  have "unat left \<le> (2 ^ 64 - 1) div unat cluster"
    using assms(3) by (simp add: left_def not_less word_le_nat_alt unat_div_distrib unat_max64)
  then have "unat left * unat cluster \<le> (2 ^ 64 - 1) div unat cluster * unat cluster"
    by (rule mult_le_mono1)
  also have "\<dots> \<le> 2 ^ 64 - 1" by simp
  finally have lc: "unat left * unat cluster \<le> 2 ^ 64 - 1" .
  then have mult: "unat (left * cluster) = unat left * unat cluster"
    by (intro unat_mult_lem [THEN iffD1]) simp
  have m: "unat offset mod unat cluster < unat cluster" using cpos by simp
  have cl: "unat cluster \<le> unat left * unat cluster" using lpos by simp
  have "offset mod cluster \<le> left * cluster"
    unfolding word_le_nat_alt mult unat_mod_distrib using less_imp_le [OF m] cl by (rule le_trans)
  then show e: "unat (left * cluster - offset mod cluster) = unat left * unat cluster - unat offset mod unat cluster"
    by (simp add: unat_sub mult unat_mod_distrib)
  show "0 < unat (left * cluster - offset mod cluster)"
    unfolding e using less_le_trans [OF m cl] by simp
qed

lemma mft_read_at_Ret:
  "mft_read_at io n off w = (Ret b, w') \<Longrightarrow> length b = n"
  by (auto simp: mft_read_at_def mio_bind_Ret_iff split: if_splits)

lemma mft_read_part_length:
  assumes "mft_read_part io runs cluster offset len w = (Ret b, w')" "cluster \<noteq> 0" "len \<noteq> 0"
  shows "0 < length b \<and> length b \<le> unat len"
proof -
  from assms(1) obtain run where r: "find (run_covers (offset div cluster)) runs = Some run"
    and l: "\<not> Clusters run - (offset div cluster - VCN run) > (- 1) div cluster"
    and b: "length b = unat (min len ((Clusters run - (offset div cluster - VCN run)) * cluster - offset mod cluster))"
    by (auto simp: mft_read_part_def Let_def split: option.splits if_splits dest: mft_read_at_Ret)
  from r have "run_covers (offset div cluster) run" by (auto simp: find_Some_iff)
  from stream_step_bounds(5) [OF this assms(2) l] assms(3) b show ?thesis
    by (simp add: min_u64 unat_gt_0)
qed

lemma unat_len_minus:
  assumes "k \<le> unat (len :: u64)"
  shows "unat (len - of_nat k) = unat len - k"
proof -
  have "unat len < 2 ^ 64" using unsigned_less [of len] by simp
  with assms have "unat (of_nat k :: u64) = k" by (simp add: unat_of_nat)
  with assms show ?thesis by (simp add: unat_sub word_le_nat_alt)
qed

function mft_read_stream ::
  "'w mft_io \<Rightarrow> mft_run list \<Rightarrow> u64 \<Rightarrow> u64 \<Rightarrow> u64 \<Rightarrow> ('w, byte list) mio" where
  "mft_read_stream io runs cluster offset len w =
    (if cluster = 0 then (Err ErrMFTCorrupt, w)
     else if len = 0 then (Ret [], w)
     else mio_bind (mio_bind (mio_ctx io) (\<lambda>_. mft_read_part io runs cluster offset len)) (\<lambda>part w1.
       mio_bind (\<lambda>w2. mft_read_stream io runs cluster (offset + of_nat (length part)) (len - of_nat (length part)) w2)
         (\<lambda>rest. mio_lift (Ret (part @ rest))) w1) w)"
  by pat_completeness auto
termination
proof (relation "measure (\<lambda>(_, _, _, _, len, _). unat len)")
  fix io :: "'w mft_io" and runs cluster offset len w part w1 w2
  assume "cluster \<noteq> 0" "len \<noteq> 0"
    "mio_bind (mio_ctx io) (\<lambda>_. mft_read_part io runs cluster offset len) w = (Ret part, w1)"
  then obtain w' where "mft_read_part io runs cluster offset len w' = (Ret part, w1)"
    by (auto simp: mio_bind_Ret_iff)
  note part = mft_read_part_length [OF this \<open>cluster \<noteq> 0\<close> \<open>len \<noteq> 0\<close>]
  then have "unat (len - of_nat (length part)) < unat len"
    unfolding unat_len_minus [OF conjunct2 [OF part]] by linarith
  then show "((io, runs, cluster, offset + of_nat (length part), len - of_nat (length part), w2),
      io, runs, cluster, offset, len, w) \<in> measure (\<lambda>(_, _, _, _, len, _). unat len)" by simp
qed simp

declare mft_read_stream.simps [simp del]

section \<open>A stream holds the logical bytes of its runs\<close>

text \<open>
  The reference: byte \<open>o\<close> of a stream lies in the run that covers its cluster; a sparse run
  reads as zeros, any other at the run's place on the disk.
\<close>

definition logical_byte :: "(nat \<Rightarrow> byte) \<Rightarrow> mft_run list \<Rightarrow> nat \<Rightarrow> nat \<Rightarrow> byte option" where
  "logical_byte disk runs cluster off =
    (case find (\<lambda>r. unat (VCN r) \<le> off div cluster \<and> off div cluster < unat (VCN r) + unat (Clusters r)) runs of
       None \<Rightarrow> None
     | Some r \<Rightarrow> Some (if Sparse r then 0
         else disk ((unat (LCN r) + (off div cluster - unat (VCN r))) * cluster + off mod cluster)))"

definition honest_reader :: "'w mft_io \<Rightarrow> (nat \<Rightarrow> byte) \<Rightarrow> bool" where
  "honest_reader io disk \<longleftrightarrow>
     (\<forall>off n w bs w'. read_at io off n w = (Ret bs, w') \<longrightarrow> (\<forall>k < length bs. bs ! k = disk (off + k)))"

lemma run_covers_unat:
  "run_covers vcn r \<longleftrightarrow> unat (VCN r) \<le> unat vcn \<and> unat vcn < unat (VCN r) + unat (Clusters r)"
  by (auto simp: run_covers_def word_less_nat_alt not_less word_le_nat_alt unat_sub)

abbreviation covers_nat :: "nat \<Rightarrow> mft_run \<Rightarrow> bool" where
  "covers_nat v r \<equiv> unat (VCN r) \<le> v \<and> v < unat (VCN r) + unat (Clusters r)"

lemma runs_ordered_from: "runs_ordered e rs \<Longrightarrow> r \<in> set rs \<Longrightarrow> e \<le> unat (VCN r)"
proof (induction rs arbitrary: e)
  case (Cons a rs)
  then show ?case by (auto dest!: Cons.IH)
qed simp

lemma runs_ordered_find:
  "runs_ordered e rs \<Longrightarrow> r \<in> set rs \<Longrightarrow> covers_nat v r \<Longrightarrow> find (covers_nat v) rs = Some r"
proof (induction rs arbitrary: e)
  case (Cons a rs)
  show ?case
  proof (cases "covers_nat v a")
    case True
    with Cons.prems show ?thesis by (auto dest: runs_ordered_from)
  next
    case False
    with Cons.prems show ?thesis by (auto intro: Cons.IH)
  qed
qed simp

lemma logical_byte_run:
  assumes "runs_ordered 0 runs" "r \<in> set runs" "covers_nat (o' div cluster) r"
  shows "logical_byte disk runs cluster o' = Some (if Sparse r then 0
    else disk ((unat (LCN r) + (o' div cluster - unat (VCN r))) * cluster + o' mod cluster))"
  using runs_ordered_find [OF assms] by (simp add: logical_byte_def)

lemma div_add_within:
  assumes "(0::nat) < c" "k < (e - off div c) * c - off mod c"
  shows "(off + k) div c < e" "off div c \<le> (off + k) div c"
proof -
  have "off = off div c * c + off mod c" by simp
  then have "off + k < off div c * c + (e - off div c) * c" using assms(2) by linarith
  also have "\<dots> = max (off div c) e * c" by (simp add: add_mult_distrib [symmetric] max_def)
  finally have "(off + k) div c < max (off div c) e" by (rule less_mult_imp_div_less)
  moreover show le: "off div c \<le> (off + k) div c" by (simp add: div_le_mono)
  ultimately show "(off + k) div c < e" by (auto simp: max_def split: if_splits)
qed

lemma physical_offset:
  fixes lcn cluster offset :: u64
  assumes "lcn \<le> max_int64 div cluster" "cluster \<noteq> 0"
  shows "unat (lcn * cluster + offset mod cluster) = unat lcn * unat cluster + unat offset mod unat cluster"
proof -
  have c: "0 < unat cluster" using assms(2) by (simp add: unat_gt_0)
  have "unat lcn \<le> (2 ^ 63 - 1) div unat cluster"
    using assms(1) by (simp add: word_le_nat_alt unat_div_distrib max_int64_def)
  then have "unat lcn * unat cluster \<le> (2 ^ 63 - 1) div unat cluster * unat cluster"
    by (rule mult_le_mono1)
  also have "\<dots> \<le> 2 ^ 63 - 1" by simp
  finally have lc: "unat lcn * unat cluster \<le> 2 ^ 63 - 1" .
  then have m: "unat (lcn * cluster) = unat lcn * unat cluster"
    by (intro unat_mult_lem [THEN iffD1]) simp
  have o: "unat offset mod unat cluster < unat cluster" using c by simp
  have "unat lcn * unat cluster + unat offset mod unat cluster < 2 ^ 64"
  proof (cases "unat lcn = 0")
    case True
    have "unat offset mod unat cluster < 2 ^ 64"
      using o unat_lt64 [of cluster] by simp
    with True show ?thesis by simp
  next
    case False
    then have cl: "unat cluster \<le> unat lcn * unat cluster" by simp
    have ar: "a + m < 2 ^ 64" if "a \<le> 2 ^ 63 - 1" "m < n" "n \<le> a" for a m n :: nat
      using that by simp
    show ?thesis by (rule ar [OF lc o cl])
  qed
  then show ?thesis
    using unat_add_lem [of "lcn * cluster" "offset mod cluster"] by (simp add: m unat_mod_distrib)
qed

lemma mft_read_at_honest:
  assumes "mft_read_at io n off w = (Ret b, w')" "honest_reader io disk" "k < length b"
  shows "b ! k = disk (unat off + k)"
proof -
  from assms(1) obtain w1 w2 where "read_at io (unat off) n w1 = (Ret b, w2)"
    unfolding mft_read_at_def by (auto simp: mio_bind_Ret_iff split: if_splits)
  with assms(2,3) show ?thesis unfolding honest_reader_def by blast
qed

lemma mft_read_part_bytes:
  assumes "mft_read_part io runs cluster offset len w = (Ret b, w')" "cluster \<noteq> 0"
    and "honest_reader io disk" "runs_ordered 0 runs" "k < length b"
  shows "logical_byte disk runs (unat cluster) (unat offset + k) = Some (b ! k)"
proof -
  define c v where "c = unat cluster" and "v = unat offset div unat cluster"
  define vcn where "vcn = offset div cluster"
  have uv: "unat vcn = v" by (simp add: vcn_def v_def unat_div_distrib)
  have c0: "0 < c" using assms(2) by (simp add: c_def unat_gt_0)
  obtain run where r: "find (run_covers vcn) runs = Some run"
    using assms(1) by (auto simp: mft_read_part_def Let_def vcn_def split: option.splits)
  define n where "n = min len ((Clusters run - (vcn - VCN run)) * cluster - offset mod cluster)"
  have l: "\<not> Clusters run - (vcn - VCN run) > (- 1) div cluster" and
    b: "length b = unat n" "Sparse run \<longrightarrow> b = replicate (unat n) 0" and
    phys: "\<not> Sparse run \<longrightarrow> \<not> LCN run > (- 1) - (vcn - VCN run) \<and>
      \<not> LCN run + vcn - VCN run > max_int64 div cluster \<and>
      mft_read_at io (unat n) ((LCN run + vcn - VCN run) * cluster + offset mod cluster) w = (Ret b, w')"
    using assms(1) r by (auto simp: mft_read_part_def Let_def vcn_def [symmetric] n_def [symmetric]
        split: if_splits dest: mft_read_at_Ret)
  from r have mem: "run \<in> set runs" and cov: "run_covers vcn run" by (auto simp: find_Some_iff)
  note step = stream_step_bounds [OF cov [unfolded vcn_def] assms(2) l [unfolded vcn_def], folded vcn_def c_def v_def]
  have "k < (unat (VCN run) + unat (Clusters run) - v) * c - unat offset mod c"
    using assms(5) step(1,4) by (simp add: b n_def min_u64 c_def)
  note w = div_add_within [OF c0 this [unfolded v_def c_def [symmetric]], folded v_def]
  have cover: "covers_nat ((unat offset + k) div c) run"
    using w step(2) by (auto simp: v_def c_def)
  show ?thesis
  proof (cases "Sparse run")
    case True
    with b assms(5) logical_byte_run [OF assms(4) mem cover] show ?thesis by (simp add: c_def)
  next
    case False
    have sub: "unat (vcn - VCN run) = v - unat (VCN run)"
      using step(2) uv by (simp add: unat_sub word_le_nat_alt v_def c_def)
    have "unat (LCN run) + (v - unat (VCN run)) < 2 ^ 64"
      using phys False vcn_wrap_iff [of "vcn - VCN run" "LCN run"] by (simp add: sub add.commute)
    moreover have "LCN run + vcn - VCN run = LCN run + (vcn - VCN run)" by simp
    ultimately have lcn: "unat (LCN run + vcn - VCN run) = unat (LCN run) + (v - unat (VCN run))"
      by (simp only: unat_word_ariths sub) simp
    have "b ! k = disk (unat ((LCN run + vcn - VCN run) * cluster + offset mod cluster) + k)"
      using mft_read_at_honest [OF _ assms(3,5)] phys False by blast
    also have "unat ((LCN run + vcn - VCN run) * cluster + offset mod cluster) + k =
        (unat (LCN run) + (v - unat (VCN run))) * c + unat offset mod c + k"
      using phys False by (subst physical_offset) (auto simp: lcn not_less c_def assms(2))
    also have "\<dots> = (unat (LCN run) + ((unat offset + k) div c - unat (VCN run))) * c + (unat offset + k) mod c"
    proof -
      have 1: "v * c + unat offset mod c = unat offset" by (simp add: v_def c_def)
      have 2: "(unat offset + k) div c * c + (unat offset + k) mod c = unat offset + k" by simp
      have "unat (VCN run) \<le> v" "unat (VCN run) \<le> (unat offset + k) div c"
        using cover step(2) by (auto simp: v_def c_def)
      then have 3: "(unat (LCN run) + (v - unat (VCN run))) * c + unat (VCN run) * c = unat (LCN run) * c + v * c"
        "(unat (LCN run) + ((unat offset + k) div c - unat (VCN run))) * c + unat (VCN run) * c =
          unat (LCN run) * c + (unat offset + k) div c * c"
        by (simp_all flip: add_mult_distrib)
      show ?thesis using 1 2 3 by linarith
    qed
    finally show ?thesis
      using logical_byte_run [OF assms(4) mem cover] False by (simp add: c_def)
  qed
qed

lemma mft_read_stream_bytes:
  assumes "mft_read_stream io runs cluster offset len w = (Ret b, w')"
    and "honest_reader io disk" "runs_ordered 0 runs" "unat offset + unat len < 2 ^ 64"
  shows "length b = unat len \<and>
    (\<forall>k < unat len. logical_byte disk runs (unat cluster) (unat offset + k) = Some (b ! k))"
  using assms(1,4)
proof (induction "unat len" arbitrary: offset len w b w' rule: less_induct)
  case less
  show ?case
  proof (cases "len = 0")
    case True
    with less.prems show ?thesis by (auto simp: mft_read_stream.simps [of _ _ _ _ 0] split: if_splits)
  next
    case False
    from less.prems(1) False obtain w1 part rest w2 where c: "cluster \<noteq> 0" and
      part: "mft_read_part io runs cluster offset len w1 = (Ret part, w2)" and
      rest: "mft_read_stream io runs cluster (offset + of_nat (length part)) (len - of_nat (length part)) w2 = (Ret rest, w')"
      and b: "b = part @ rest"
      unfolding mft_read_stream.simps [of io runs cluster offset len w]
      by (auto simp: mio_bind_Ret_iff split: if_splits)
    have l: "0 < length part" "length part \<le> unat len"
      using mft_read_part_length [OF part c False] by simp_all
    have len: "unat (len - of_nat (length part)) = unat len - length part"
      using l by (simp add: unat_len_minus)
    have off: "unat (offset + of_nat (length part)) = unat offset + length part"
      using l less.prems(2) by (simp add: unat_word_ariths unat_of_nat)
    have "length rest = unat len - length part \<and> (\<forall>k < unat len - length part.
        logical_byte disk runs (unat cluster) (unat offset + length part + k) = Some (rest ! k))"
    proof -
      have "unat (len - of_nat (length part)) < unat len" unfolding len using l by linarith
      moreover have "unat (offset + of_nat (length part)) + unat (len - of_nat (length part)) < 2 ^ 64"
        using l less.prems(2) unfolding len off by simp
      ultimately show ?thesis using less.hyps [OF _ rest] unfolding len off by blast
    qed
    moreover have "logical_byte disk runs (unat cluster) (unat offset + k) = Some (part ! k)"
      if "k < length part" for k
      using mft_read_part_bytes [OF part c assms(2,3) that] .
    moreover have "length part + (unat len - length part) = unat len" using l(2) by simp
    ultimately have lens: "length b = unat len" and low: "\<And>k. k < length part \<Longrightarrow>
        logical_byte disk runs (unat cluster) (unat offset + k) = Some (b ! k)"
      and high: "\<And>k. k < unat len - length part \<Longrightarrow>
        logical_byte disk runs (unat cluster) (unat offset + (length part + k)) = Some (b ! (length part + k))"
      by (simp_all add: b nth_append add.assoc)
    show ?thesis
    proof (intro conjI allI impI lens)
      fix k assume "k < unat len"
      then show "logical_byte disk runs (unat cluster) (unat offset + k) = Some (b ! k)"
        using low [of k] high [of "k - length part"] by (cases "k < length part") simp_all
    qed
  qed
qed

text \<open>
  When the volume is read truthfully, a stream that is read without an
  error holds, byte for byte, what its data runs say: zeros in sparse runs, and elsewhere the bytes
  at the physical place of the run, across run boundaries.
\<close>

theorem mft_read_stream_correct:
  assumes "fst (mft_read_stream io runs cluster offset len w) = Ret b"
    and "honest_reader io disk" "runs_ordered 0 runs" "unat offset + unat len < 2 ^ 64"
  shows "map Some b = map (logical_byte disk runs (unat cluster)) [unat offset..<unat offset + unat len]"
proof -
  obtain w' where "mft_read_stream io runs cluster offset len w = (Ret b, w')"
    using assms(1) by (cases "mft_read_stream io runs cluster offset len w") auto
  from mft_read_stream_bytes [OF this assms(2-4)] show ?thesis
    by (intro nth_equalityI) auto
qed

definition list_io :: "byte list \<Rightarrow> unit mft_io" where
  "list_io disk = \<lparr>ctx_err = (\<lambda>w. (False, w)),
     read_at = (\<lambda>off n w. (Ret (take n (drop off disk)), w))\<rparr>"

lemma list_io_honest: "honest_reader (list_io disk) (\<lambda>o'. disk ! o')"
  by (auto simp: honest_reader_def list_io_def)

lemma replicate_two: "replicate 2 x = [x, x]"
  by (simp add: numeral_2_eq_2)

theorem mft_read_stream_correct_witness:
  "map Some [0, 0, 14, 15, 12 :: byte] = map (logical_byte (\<lambda>o'. [10, 11, 12, 13, 14, 15 :: byte] ! o')
     [\<lparr>VCN = 0, LCN = 0, Clusters = 1, Sparse = True\<rparr>, \<lparr>VCN = 1, LCN = 2, Clusters = 1, Sparse = False\<rparr>,
      \<lparr>VCN = 2, LCN = 1, Clusters = 1, Sparse = False\<rparr>] 2) [0..<5]"
  using mft_read_stream_correct [of "list_io [10, 11, 12, 13, 14, 15]"
     "[\<lparr>VCN = 0, LCN = 0, Clusters = 1, Sparse = True\<rparr>, \<lparr>VCN = 1, LCN = 2, Clusters = 1, Sparse = False\<rparr>,
       \<lparr>VCN = 2, LCN = 1, Clusters = 1, Sparse = False\<rparr>]" 2 0 5 "()" "[0, 0, 14, 15, 12]", OF _ list_io_honest]
  by (simp add: mft_read_stream.simps mft_read_part_def mft_read_at_def mio_bind_def mio_ctx_def list_io_def
    run_covers_def max_int64_def Let_def replicate_two del: upt_Suc)

section \<open>The scan\<close>

definition mft_read_list :: "'w mft_io \<Rightarrow> byte list \<Rightarrow> mft_geometry \<Rightarrow> ('w, u64 list) mio" where
  "mft_read_list io rec g =
    mio_bind (mio_lift (mft_attributes rec)) (\<lambda>attrs.
      case find (\<lambda>a. attr_typ a = 0x20) attrs of
        None \<Rightarrow> mio_lift (Ret [])
      | Some a \<Rightarrow>
          if \<not> nonresident a then mio_lift (go_bind (attr_value a) mft_list_records)
          else mio_bind (mio_lift (get64 (attr_b a) 48)) (\<lambda>n.
            if n > mft_max_attr_list then mio_lift (Err ErrMFTCorrupt)
            else mio_bind (mio_lift (attr_runs a)) (\<lambda>runs.
              if Cluster g = 0 \<or> Cluster g > 2 * 1024 * 1024 then mio_lift (Err ErrMFTCorrupt)
              else let padded = (n + Cluster g - 1) div Cluster g * Cluster g in
                mio_bind (mft_read_stream io runs (Cluster g) 0 padded) (\<lambda>b.
                  mio_lift (go_bind (go_slice b 0 (unat n)) mft_list_records)))))"

record mft_scan_state =
  scan_runs :: "mft_run list"
  scan_ext :: u64
  scan_next :: "u64 list"
  scan_progress :: bool

text \<open>One extension record of \<^verbatim>\<open>for _, no := range pending\<close>.\<close>

definition mft_scan_ext :: "'w mft_io \<Rightarrow> mft_geometry \<Rightarrow> u64 \<Rightarrow> mft_scan_state \<Rightarrow> ('w, mft_scan_state) mio" where
  "mft_scan_ext io g no st w =
    (if no \<ge> Valid g div Record_size g then (Err ErrMFTCorrupt, w)
     else case mft_read_stream io (scan_runs st) (Cluster g) (no * Record_size g) (Record_size g) w of
       (Panic, w') \<Rightarrow> (Panic, w')
     | (Err e, w') \<Rightarrow>
         mio_bind (mio_ctx io) (\<lambda>_. mio_lift (Ret (st\<lparr>scan_next := scan_next st @ [no]\<rparr>))) w'
     | (Ret ext, w') \<Rightarrow>
         (go_bind (mft_fixup ext (Sector g)) (\<lambda>ext.
          go_bind (get64 ext 32) (\<lambda>base. go_bind (get16 ext 22) (\<lambda>flags.
            if base AND mft_ref_mask \<noteq> 0 \<or> flags AND 1 = 0 then Err ErrMFTCorrupt
            else go_bind (mft_data_runs ext) (\<lambda>more.
              go_bind (mft_order_runs (scan_runs st @ more)) (\<lambda>runs.
                Ret (st\<lparr>scan_runs := runs, scan_progress := True,
                        scan_ext := (if more \<noteq> [] then scan_ext st + 1 else scan_ext st)\<rparr>)))))), w'))"

fun mio_fold :: "('a \<Rightarrow> 's \<Rightarrow> ('w, 's) mio) \<Rightarrow> 'a list \<Rightarrow> 's \<Rightarrow> ('w, 's) mio" where
  "mio_fold f [] s = mio_lift (Ret s)"
| "mio_fold f (x # xs) s = mio_bind (f x s) (mio_fold f xs)"

lemma mio_fold_induct:
  assumes "mio_fold f xs s w = (Ret s', w')" "P [] s"
    and "\<And>x s w s' w' seen. x \<in> set xs \<Longrightarrow> P seen s \<Longrightarrow> f x s w = (Ret s', w') \<Longrightarrow> P (seen @ [x]) s'"
  shows "P xs s'"
proof -
  have "P (seen @ xs) s'" if "mio_fold f xs s w = (Ret s', w')" "P seen s"
    "\<And>x s w s' w' seen. x \<in> set xs \<Longrightarrow> P seen s \<Longrightarrow> f x s w = (Ret s', w') \<Longrightarrow> P (seen @ [x]) s'"
    for seen s w
    using that
  proof (induction xs arbitrary: seen s w)
    case (Cons x xs)
    then obtain s1 w1 where f: "f x s w = (Ret s1, w1)" "mio_fold f xs s1 w1 = (Ret s', w')"
      by (auto simp: mio_bind_Ret_iff)
    have "P (seen @ [x]) s1" using Cons.prems(2,3) f(1) by auto
    from Cons.IH [OF f(2) this] Cons.prems(3) show ?case by simp
  qed simp
  from this [OF assms(1), of "[]"] assms(2,3) show ?thesis by simp
qed

lemma mft_scan_ext_next:
  assumes "mft_scan_ext io g no st w = (Ret st', w')"
  shows "scan_progress st \<longrightarrow> scan_progress st'"
    and "scan_progress st' \<and> \<not> scan_progress st \<longrightarrow> scan_next st' = scan_next st"
    and "scan_next st' = scan_next st \<and> scan_progress st' \<or> scan_next st' = scan_next st @ [no] \<and> scan_progress st' = scan_progress st"
  using assms
  by (auto simp: mft_scan_ext_def mio_bind_Ret_iff go_bind_Ret_iff split: if_splits prod.splits go.splits)

lemma mft_scan_round_shorter:
  assumes "mio_fold (mft_scan_ext io g) pending st w = (Ret st', w')"
    and "scan_next st = []" "\<not> scan_progress st" "scan_progress st'"
  shows "length (scan_next st') < length pending"
proof -
  have "length (scan_next st') \<le> length pending \<and>
      (scan_progress st' \<longrightarrow> length (scan_next st') < length pending)"
  proof (rule mio_fold_induct [where P = "\<lambda>seen st. length (scan_next st) \<le> length seen \<and>
      (scan_progress st \<longrightarrow> length (scan_next st) < length seen)", OF assms(1)])
    fix x :: u64 and s w s' w' and xs :: "u64 list"
    assume "length (scan_next s) \<le> length xs \<and> (scan_progress s \<longrightarrow> length (scan_next s) < length xs)"
      "mft_scan_ext io g x s w = (Ret s', w')"
    then show "length (scan_next s') \<le> length (xs @ [x]) \<and>
        (scan_progress s' \<longrightarrow> length (scan_next s') < length (xs @ [x]))"
      using mft_scan_ext_next(3) [of io g x s w s' w'] by auto
  qed (use assms(2,3) in simp)
  with assms(4) show ?thesis by simp
qed

text \<open>
  The loop \<^verbatim>\<open>for len(pending) > 0\<close>: a round that places no extension is an error, so every
  round but the last leaves fewer extensions pending, and the loop ends.
\<close>

function mft_scan_pending ::
  "'w mft_io \<Rightarrow> mft_geometry \<Rightarrow> u64 list \<Rightarrow> mft_run list \<Rightarrow> u64 \<Rightarrow> ('w, mft_run list \<times> u64) mio" where
  "mft_scan_pending io g pending runs ext w =
    (if pending = [] then (Ret (runs, ext), w)
     else mio_bind (mio_fold (mft_scan_ext io g) pending
         \<lparr>scan_runs = runs, scan_ext = ext, scan_next = [], scan_progress = False\<rparr>) (\<lambda>st w1.
       if \<not> scan_progress st then (Err ErrMFTCorrupt, w1)
       else mft_scan_pending io g (scan_next st) (scan_runs st) (scan_ext st) w1) w)"
  by pat_completeness auto
termination
  by (relation "measure (\<lambda>(_, _, pending, _). length pending)") (auto dest: mft_scan_round_shorter)

declare mft_scan_pending.simps [simp del]

definition mft_run_bytes :: "u64 \<Rightarrow> mft_run list \<Rightarrow> (mft_error, u64) go" where
  "mft_run_bytes cluster runs =
    go_fold (\<lambda>run bytes.
      if Clusters run > ((- 1) - bytes) div cluster then Err ErrMFTCorrupt
      else Ret (bytes + Clusters run * cluster)) runs 0"

text \<open>\<^verbatim>\<open>decodeMFTRecords\<close>: a record that does not decode leaves its zero entry.\<close>

definition mft_decode_slot :: "u64 \<Rightarrow> byte list \<Rightarrow> (mft_error, mft_entry) go" where
  "mft_decode_slot sector rec =
    (case go_bind (mft_fixup rec sector) mft_decode_record of
       Ret e \<Rightarrow> Ret e | Err _ \<Rightarrow> Ret empty_mft_entry | Panic \<Rightarrow> Panic)"

definition decode_mft_records ::
  "byte list \<Rightarrow> nat \<Rightarrow> u64 \<Rightarrow> nat \<Rightarrow> nat \<Rightarrow> mft_entry list \<Rightarrow> (mft_error, mft_entry list) go" where
  "decode_mft_records chunk rec_size sector start end_pos out =
    go_fold (\<lambda>i out.
      go_bind (go_slice chunk (i * rec_size) ((i + 1) * rec_size)) (\<lambda>rec.
      go_bind (mft_decode_slot sector rec) (\<lambda>e. Ret (out[i := e])))) [start..<end_pos] out"

text \<open>
  \<^verbatim>\<open>decodeMFTChunk\<close> with \<open>procs\<close> for \<^verbatim>\<open>runtime.GOMAXPROCS(0)\<close>.  The goroutines write
  disjoint ranges of \<^verbatim>\<open>out\<close>; they are run one after the other here.
\<close>

definition decode_mft_chunk ::
  "nat \<Rightarrow> byte list \<Rightarrow> nat \<Rightarrow> u64 \<Rightarrow> mft_entry list \<Rightarrow> (mft_error, mft_entry list) go" where
  "decode_mft_chunk procs chunk rec_size sector out =
    (let n = length out; workers = min procs n in
     if workers < 2 \<or> n < 128 then decode_mft_records chunk rec_size sector 0 n out
     else let span = (n + workers - 1) div workers in
       go_fold (\<lambda>w. decode_mft_records chunk rec_size sector (w * span) (min (w * span + span) n))
         (filter (\<lambda>w. w * span < n) [0..<workers]) out)"

record mft_scan_result =
  Entries :: "mft_entry list"
  RecordsExpected :: u64
  MFTRunBytes :: u64
  ExtRecords :: u64
  BytesRead :: u64

definition mft_buf_len :: u64 where
  "mft_buf_len = 8 * 1024 * 1024"

text \<open>The chunk loop, \<open>no\<close> records done of \<open>cnt\<close>; \<open>todo\<close> bounds the records still to read.\<close>

fun mft_scan_chunks ::
  "nat \<Rightarrow> nat \<Rightarrow> 'w mft_io \<Rightarrow> mft_geometry \<Rightarrow> mft_run list \<Rightarrow> u64 \<Rightarrow> u64 \<Rightarrow> mft_entry list \<Rightarrow>
     ('w, mft_entry list) mio" where
  "mft_scan_chunks 0 procs io g runs cnt no entries = mio_lift (Ret entries)"
| "mft_scan_chunks (Suc todo) procs io g runs cnt no entries =
    (if no \<ge> cnt then mio_lift (Ret entries)
     else mio_bind (mio_ctx io) (\<lambda>_.
       let n = min (mft_buf_len div Record_size g) (cnt - no) in
       mio_bind (mft_read_stream io runs (Cluster g) (no * Record_size g) (n * Record_size g)) (\<lambda>chunk.
       mio_bind (mio_lift (decode_mft_chunk procs chunk (unat (Record_size g)) (Sector g)
           (replicate (unat n) empty_mft_entry))) (\<lambda>es.
         mft_scan_chunks todo procs io g runs cnt (no + n) (entries @ es)))))"

definition mft_scan_reader :: "nat \<Rightarrow> 'w mft_io \<Rightarrow> mft_geometry \<Rightarrow> ('w, mft_scan_result) mio" where
  "mft_scan_reader procs io g =
    mio_bind (mio_lift (geometry_validate g)) (\<lambda>_.
    mio_bind (mft_read_at io (unat (Record_size g)) (Start g * Cluster g)) (\<lambda>raw.
    mio_bind (mio_lift (mft_fixup raw (Sector g))) (\<lambda>first.
    mio_bind (mio_lift (go_bind (mft_data_runs first) mft_order_runs)) (\<lambda>runs0.
    mio_bind (mft_read_list io first g) (\<lambda>pending.
    mio_bind (mft_scan_pending io g pending runs0 0) (\<lambda>(runs, ext).
    mio_bind (mio_lift (mft_run_bytes (Cluster g) runs)) (\<lambda>run_bytes.
      let cnt = min (Valid g) run_bytes div Record_size g in
      if cnt > 0xFFFFFFFF then mio_lift (Err ErrMFTCorrupt)
      else mio_bind (mft_scan_chunks (unat cnt) procs io g runs cnt 0 []) (\<lambda>entries.
        mio_lift (Ret \<lparr>Entries = entries, RecordsExpected = cnt, MFTRunBytes = run_bytes,
          ExtRecords = ext, BytesRead = cnt * Record_size g\<rparr>)))))))))"


section \<open>The parallel decoding is the sequential one\<close>

lemma go_fold_concat: "go_fold (\<lambda>w. go_fold f (h w)) ws s = go_fold f (concat (map h ws)) s"
  by (induction ws arbitrary: s) (simp_all add: go_fold_append cong: go_bind_cong)

lemma concat_spans:
  assumes "0 < span"
  shows "concat (map (\<lambda>w. [w * span..<min (w * span + span) n]) (filter (\<lambda>w. w * span < n) [0..<k])) =
    [0..<min (k * span) n]"
proof (induction k)
  case (Suc k)
  show ?case
  proof (cases "k * span < n")
    case True
    then have "[0..<min (Suc k * span) n] = [0..<k * span] @ [k * span..<min (k * span + span) n]"
      using upt_add_eq_append [of 0 "k * span" "min span (n - k * span)"]
      by (simp add: min_def add.commute split: if_splits)
    with True Suc show ?thesis by simp
  qed (use Suc in \<open>simp add: min_def\<close>)
qed simp

text \<open>
  Splitting a chunk between any number of workers decodes it as
  one worker does, record by record.
\<close>

theorem decode_mft_chunk_sequential:
  "decode_mft_chunk procs chunk rec_size sector out =
   decode_mft_records chunk rec_size sector 0 (length out) out"
proof -
  define n workers where "n = length out" and "workers = min procs n"
  define span where "span = (n + workers - 1) div workers"
  have "decode_mft_chunk procs chunk rec_size sector out = decode_mft_records chunk rec_size sector 0 n out"
    if "\<not> (workers < 2 \<or> n < 128)"
  proof -
    have w: "2 \<le> workers" "workers \<le> n" using that by (auto simp: workers_def)
    then have "1 * workers \<le> n + workers - 1" by simp
    then have s: "0 < span" using w by (simp add: span_def div_greater_zero_iff)
    have "n + workers - 1 = span * workers + (n + workers - 1) mod workers"
      unfolding span_def by simp
    moreover have "(n + workers - 1) mod workers < workers" using w by simp
    ultimately have "n + workers - 1 < workers * span + workers" by (simp add: mult.commute)
    then have "n \<le> workers * span" using w(1) by linarith
    then have "min (workers * span) n = n" by simp
    then have spans: "concat (map (\<lambda>w. [w * span..<min (w * span + span) n])
        (filter (\<lambda>w. w * span < n) [0..<workers])) = [0..<n]"
      using concat_spans [OF s, of n workers] by simp
    have "decode_mft_chunk procs chunk rec_size sector out =
      go_fold (\<lambda>w. decode_mft_records chunk rec_size sector (w * span) (min (w * span + span) n))
         (filter (\<lambda>w. w * span < n) [0..<workers]) out"
      using that by (simp only: decode_mft_chunk_def Let_def n_def [symmetric] workers_def [symmetric]
        span_def [symmetric] if_False)
    then show ?thesis unfolding decode_mft_records_def go_fold_concat spans .
  qed
  then show ?thesis
    by (auto simp: decode_mft_chunk_def Let_def n_def workers_def)
qed

section \<open>What a completed scan returns\<close>

lemma decode_mft_records_prefix:
  assumes "go_fold (\<lambda>i out.
      go_bind (go_slice chunk (i * rs) ((i + 1) * rs)) (\<lambda>rec.
      go_bind (mft_decode_slot sector rec) (\<lambda>e. Ret (out[i := e])))) [0..<m] out = Ret out'" "m \<le> length out"
  shows "length out' = length out \<and>
    (\<forall>i < m. mft_decode_slot sector (take rs (drop (i * rs) chunk)) = Ret (out' ! i))"
  using assms
proof (induction m arbitrary: out')
  case (Suc m)
  then obtain out1 rec e where 1: "go_fold (\<lambda>i out.
      go_bind (go_slice chunk (i * rs) ((i + 1) * rs)) (\<lambda>rec.
      go_bind (mft_decode_slot sector rec) (\<lambda>e. Ret (out[i := e])))) [0..<m] out = Ret out1"
    "go_slice chunk (m * rs) ((m + 1) * rs) = (Ret rec :: (mft_error, byte list) go)"
    "mft_decode_slot sector rec = Ret e" "out' = out1[m := e]"
    by (auto simp: go_fold_append go_bind_Ret_iff)
  have "rec = take rs (drop (m * rs) chunk)" using 1(2) by (simp add: go_slice_Ret_iff)
  with Suc.IH [OF 1(1)] Suc.prems(2) 1(3,4) show ?case
    by (auto simp: less_Suc_eq)
qed simp

definition logical_record :: "(nat \<Rightarrow> byte) \<Rightarrow> mft_run list \<Rightarrow> nat \<Rightarrow> nat \<Rightarrow> nat \<Rightarrow> byte list" where
  "logical_record disk runs cluster rs i =
    map (\<lambda>k. the (logical_byte disk runs cluster k)) [i * rs..<i * rs + rs]"

definition scanned :: "(nat \<Rightarrow> byte) \<Rightarrow> mft_geometry \<Rightarrow> mft_run list \<Rightarrow> mft_entry list \<Rightarrow> bool" where
  "scanned disk g runs es \<longleftrightarrow> (\<forall>i < length es. mft_decode_slot (Sector g)
     (logical_record disk runs (unat (Cluster g)) (unat (Record_size g)) i) = Ret (es ! i))"


lemma scanned_snoc:
  assumes "scanned disk g runs es" and
    "\<And>i. i < length es' \<Longrightarrow> mft_decode_slot (Sector g)
       (logical_record disk runs (unat (Cluster g)) (unat (Record_size g)) (length es + i)) = Ret (es' ! i)"
  shows "scanned disk g runs (es @ es')"
  unfolding scanned_def
proof (intro allI impI)
  fix i assume "i < length (es @ es')"
  then show "mft_decode_slot (Sector g)
     (logical_record disk runs (unat (Cluster g)) (unat (Record_size g)) i) = Ret ((es @ es') ! i)"
    using assms(1) assms(2) [of "i - length es"]
    by (cases "i < length es") (auto simp: scanned_def nth_append)
qed

text \<open>One chunk: the \<open>n\<close> records from record \<open>no\<close> on, read and decoded.\<close>

lemma decode_chunk_scanned:
  assumes "decode_mft_chunk procs chunk rs sector (replicate n empty_mft_entry) = Ret es"
    and "map Some chunk = map (logical_byte disk runs c) [no * rs..<no * rs + n * rs]"
  shows "length es = n" and "i < n \<Longrightarrow> mft_decode_slot sector (logical_record disk runs c rs (no + i)) = Ret (es ! i)"
proof -
  have "go_fold (\<lambda>i out.
      go_bind (go_slice chunk (i * rs) ((i + 1) * rs)) (\<lambda>rec.
      go_bind (mft_decode_slot sector rec) (\<lambda>e. Ret (out[i := e])))) [0..<n] (replicate n empty_mft_entry) = Ret es"
    using assms(1) by (simp add: decode_mft_chunk_sequential decode_mft_records_def)
  note d = decode_mft_records_prefix [OF this, simplified]
  then show "length es = n" by simp
  assume i: "i < n"
  have len: "length chunk = n * rs" using arg_cong [OF assms(2), of length] by simp
  have nth: "Some (chunk ! k) = logical_byte disk runs c (no * rs + k)" if "k < n * rs" for k
    using arg_cong [OF assms(2), of "\<lambda>xs. xs ! k"] that len by simp
  have ir: "i * rs + rs \<le> n * rs" using mult_le_mono1 [of "Suc i" n rs] i by (simp add: add.commute)
  have "take rs (drop (i * rs) chunk) = logical_record disk runs c rs (no + i)"
  proof (rule nth_equalityI)
    show l: "length (take rs (drop (i * rs) chunk)) = length (logical_record disk runs c rs (no + i))"
      using ir len by (simp add: logical_record_def)
    fix k assume "k < length (take rs (drop (i * rs) chunk))"
    then have k: "k < rs" by simp
    with ir have "i * rs + k < n * rs" by simp
    from nth [OF this] have "the (logical_byte disk runs c (no * rs + (i * rs + k))) = chunk ! (i * rs + k)"
      by (metis option.sel)
    moreover have "i * rs \<le> length chunk" unfolding len using ir by linarith
    ultimately show "take rs (drop (i * rs) chunk) ! k = logical_record disk runs c rs (no + i) ! k"
      using k by (simp add: logical_record_def add_mult_distrib add.assoc)
  qed
  with d i show "mft_decode_slot sector (logical_record disk runs c rs (no + i)) = Ret (es ! i)" by metis
qed

lemma unat_mult_small:
  assumes "unat (a :: u64) * unat b < 2 ^ 64"
  shows "unat (a * b) = unat a * unat b"
  using assms by (intro unat_mult_lem [THEN iffD1]) simp

lemma scan_step_size:
  assumes "0 < unat rs" "unat rs \<le> 64 * 1024"
  shows "0 < unat (mft_buf_len div rs)"
proof -
  have "unat rs \<le> 8 * 1024 * 1024" using assms(2) by simp
  with assms(1) show ?thesis
    by (simp add: mft_buf_len_def unat_div_distrib div_greater_zero_iff)
qed

lemma mft_scan_chunks_scanned:
  assumes "mft_scan_chunks todo procs io g runs cnt no es w = (Ret es', w')"
    and "scanned disk g runs es" "length es = unat no" "no \<le> cnt" "unat cnt \<le> unat no + todo"
    and "honest_reader io disk" "runs_ordered 0 runs"
    and "0 < unat (Record_size g)" "unat (Record_size g) \<le> 64 * 1024" "unat cnt * unat (Record_size g) < 2 ^ 64"
  shows "scanned disk g runs es' \<and> length es' = unat cnt"
  using assms(1-5)
proof (induction todo arbitrary: no es w)
  case 0
  then have "no = cnt" by (simp add: word_unat_eq_iff word_le_nat_alt)
  with 0 show ?case by simp
next
  case (Suc todo)
  show ?case
  proof (cases "no \<ge> cnt")
    case True
    with Suc.prems have "no = cnt" by simp
    with Suc.prems show ?thesis by simp
  next
    case False
    define n where "n = min (mft_buf_len div Record_size g) (cnt - no)"
    from Suc.prems(1) False obtain w1 w2 chunk es1 where
      rd: "mft_read_stream io runs (Cluster g) (no * Record_size g) (n * Record_size g) w1 = (Ret chunk, w2)" and
      dec: "decode_mft_chunk procs chunk (unat (Record_size g)) (Sector g) (replicate (unat n) empty_mft_entry) = Ret es1" and
      rest: "mft_scan_chunks todo procs io g runs cnt (no + n) (es @ es1) w2 = (Ret es', w')"
      by (auto simp: mio_bind_Ret_iff Let_def n_def mio_lift_def)
    define R where "R = unat (Record_size g)"
    have "0 < unat n" "unat n \<le> unat cnt - unat no"
      using scan_step_size [OF assms(8,9)] False unat_sub [of no cnt]
      by (simp_all add: n_def min_u64 word_less_nat_alt word_le_nat_alt)
    note nb = this
    have non: "unat no + unat n \<le> unat cnt" using nb(2) False by (simp add: word_le_nat_alt)
    then have "(unat no + unat n) * R \<le> unat cnt * R" by (rule mult_le_mono1)
    then have fit: "unat no * R + unat n * R < 2 ^ 64" using assms(10) by (simp add: R_def add_mult_distrib)
    have m: "unat (no * Record_size g) = unat no * R" "unat (n * Record_size g) = unat n * R"
      using fit by (simp_all add: R_def unat_mult_small)
    have "map Some chunk = map (logical_byte disk runs (unat (Cluster g))) [unat no * R..<unat no * R + unat n * R]"
      using mft_read_stream_correct [of io runs "Cluster g" "no * Record_size g" "n * Record_size g" w1 chunk disk]
        assms(6,7) fit by (simp add: rd m)
    note chunk = decode_chunk_scanned [OF dec [folded R_def] this]
    have nn: "unat (no + n) = unat no + unat n"
      using non unat_lt64 [of cnt] by (intro unat_add_lem [THEN iffD1]) simp
    have "scanned disk g runs (es @ es1)"
      using Suc.prems(3) chunk by (intro scanned_snoc [OF Suc.prems(2)]) (simp add: R_def)
    then show ?thesis
      using non nb(1) Suc.prems(3,5) chunk(1)
      by (intro Suc.IH [OF rest]) (simp_all add: nn word_le_nat_alt)
  qed
qed

lemma geometry_validate_Ret:
  assumes "geometry_validate g = Ret u"
  shows "512 \<le> unat (Record_size g) \<and> unat (Record_size g) \<le> 64 * 1024 \<and> unat (Valid g) < 2 ^ 63"
  using assms by (auto simp: geometry_validate_def word_le_nat_alt word_less_nat_alt max_int64_def split: if_splits)

end
