(* ===== verification/Mft_Table.thy ===== *)
theory Mft_Table
  imports Mft_Scan
begin

text \<open>
  The master file table as the volume holds it, and the theorem that a successful scan returns exactly
  its records: the run list of the first record, completed by the runs of every extension record
  that its attribute list names, and the number of records these runs and the valid length allow.
\<close>

section \<open>The table on the disk\<close>

text \<open>The bytes of a stream, when its runs cover them all.\<close>

definition stream_bytes :: "(nat \<Rightarrow> byte) \<Rightarrow> mft_run list \<Rightarrow> nat \<Rightarrow> nat \<Rightarrow> nat \<Rightarrow> byte list option" where
  "stream_bytes disk runs cluster off len = those (map (logical_byte disk runs cluster) [off..<off + len])"

text \<open>The extension records that the first record's attribute list names for the unnamed data stream.\<close>

definition listed_records :: "(nat \<Rightarrow> byte) \<Rightarrow> mft_geometry \<Rightarrow> byte list \<Rightarrow> u64 list \<Rightarrow> bool" where
  "listed_records disk g first nos \<longleftrightarrow>
    (\<exists>attrs. mft_attributes first = Ret attrs \<and>
      (case find (\<lambda>a. attr_typ a = 0x20) attrs of
         None \<Rightarrow> nos = []
       | Some a \<Rightarrow> \<exists>v. mft_list_records v = Ret nos \<and>
           (if \<not> nonresident a then attr_value a = Ret v
            else \<exists>n runs. get64 (attr_b a) 48 = (Ret n :: (mft_error, u64) go) \<and> attr_runs a = Ret runs \<and>
              stream_bytes disk runs (unat (Cluster g)) 0 (unat n) = Some v)))"

text \<open>
  The runs that an extension record adds: it is read through the runs of the whole table, is in use and
  no base record itself names another one.
\<close>

definition extension_runs :: "(nat \<Rightarrow> byte) \<Rightarrow> mft_geometry \<Rightarrow> mft_run list \<Rightarrow> u64 \<Rightarrow> mft_run list \<Rightarrow> bool" where
  "extension_runs disk g runs no added \<longleftrightarrow>
    unat no < unat (Valid g) div unat (Record_size g) \<and>
    (\<exists>raw ext base flags.
      stream_bytes disk runs (unat (Cluster g)) (unat no * unat (Record_size g)) (unat (Record_size g)) = Some raw \<and>
      mft_fixup raw (Sector g) = Ret ext \<and>
      get64 ext 32 = (Ret base :: (mft_error, u64) go) \<and> base AND mft_ref_mask = 0 \<and>
      get16 ext 22 = (Ret flags :: (mft_error, u16) go) \<and> flags AND 1 \<noteq> 0 \<and>
      mft_data_runs ext = Ret added)"

definition mft_table :: "(nat \<Rightarrow> byte) \<Rightarrow> mft_geometry \<Rightarrow> mft_run list \<Rightarrow> bool" where
  "mft_table disk g runs \<longleftrightarrow>
    (\<exists>first base nos added.
      mft_fixup (map disk [unat (Start g) * unat (Cluster g)..<unat (Start g) * unat (Cluster g) + unat (Record_size g)]) (Sector g)
        = Ret first \<and>
      mft_data_runs first = Ret base \<and>
      listed_records disk g first nos \<and> distinct nos \<and>
      (\<forall>no\<in>set nos. extension_runs disk g runs no (added no)) \<and>
      runs_ordered 0 runs \<and> mset runs = mset (base @ concat (map added nos)))"

section \<open>Streams\<close>

lemma runs_chain_ordered: "runs_chain vcn rs \<Longrightarrow> e \<le> unat vcn \<Longrightarrow> runs_ordered e rs"
proof (induction rs arbitrary: vcn e)
  case (Cons r rs)
  then have "unat (vcn + Clusters r) = unat vcn + unat (Clusters r)" by (simp add: unat_word_ariths)
  with Cons show ?case by auto
qed simp

lemma attr_runs_ordered: "attr_runs a = Ret runs \<Longrightarrow> runs_ordered 0 runs"
  by (auto simp: attr_runs_def Let_def go_bind_Ret_iff split: if_splits
    intro: runs_chain_ordered [OF mft_parse_runs_tile])

lemma those_Some: "those os = Some ys \<longleftrightarrow> os = map Some ys"
proof (induction os arbitrary: ys)
  case (Cons x os)
  show ?case
  proof (cases x)
    case (Some a)
    then show ?thesis using Cons.IH [of "tl ys"] by (cases ys) auto
  qed auto
qed auto

lemma stream_bytes_Some:
  "stream_bytes disk runs cluster off len = Some b \<longleftrightarrow> map (logical_byte disk runs cluster) [off..<off + len] = map Some b"
  by (simp add: stream_bytes_def those_Some)

lemma read_stream_bytes:
  assumes "mft_read_stream io runs cluster offset len w = (Ret b, w')"
    and "honest_reader io disk" "runs_ordered 0 runs" "unat offset + unat len < 2 ^ 64"
  shows "stream_bytes disk runs (unat cluster) (unat offset) (unat len) = Some b"
  using mft_read_stream_correct [of io runs cluster offset len w b disk] assms by (simp add: stream_bytes_Some)

lemma stream_bytes_take:
  assumes "stream_bytes disk runs cluster off m = Some b" "n \<le> m"
  shows "stream_bytes disk runs cluster off n = Some (take n b)"
proof -
  have "take n (map (logical_byte disk runs cluster) [off..<off + m]) = take n (map Some b)"
    using assms(1) by (simp add: stream_bytes_Some)
  with assms(2) show ?thesis by (simp add: stream_bytes_Some take_map)
qed

text \<open>More runs, in order and without overlap, do not change what a stream already held.\<close>

lemma logical_byte_mono:
  assumes "logical_byte disk runs cluster k = Some v" "runs_ordered 0 runs'" "set runs \<subseteq> set runs'"
  shows "logical_byte disk runs' cluster k = Some v"
proof -
  obtain r where r: "find (covers_nat (k div cluster)) runs = Some r"
    using assms(1) by (auto simp: logical_byte_def split: option.splits)
  then have "r \<in> set runs'" "covers_nat (k div cluster) r" using assms(3) by (auto simp: find_Some_iff)
  with runs_ordered_find [OF assms(2)] r assms(1) show ?thesis by (simp add: logical_byte_def)
qed

lemma stream_bytes_mono:
  assumes "stream_bytes disk runs cluster off len = Some b" "runs_ordered 0 runs'" "set runs \<subseteq> set runs'"
  shows "stream_bytes disk runs' cluster off len = Some b"
proof -
  have m: "map (logical_byte disk runs cluster) [off..<off + len] = map Some b" using assms(1) by (simp add: stream_bytes_Some)
  have "map (logical_byte disk runs' cluster) [off..<off + len] = map (logical_byte disk runs cluster) [off..<off + len]"
  proof (rule map_cong [OF refl])
    fix k assume "k \<in> set [off..<off + len]"
    then have "logical_byte disk runs cluster k \<in> set (map Some b)" unfolding m [symmetric] by simp
    then obtain v where "logical_byte disk runs cluster k = Some v" by auto
    with logical_byte_mono [OF this assms(2,3)] show "logical_byte disk runs' cluster k = logical_byte disk runs cluster k" by simp
  qed
  with m show ?thesis by (simp add: stream_bytes_Some)
qed

lemma extension_runs_mono:
  "extension_runs disk g runs no added \<Longrightarrow> runs_ordered 0 runs' \<Longrightarrow> set runs \<subseteq> set runs' \<Longrightarrow> extension_runs disk g runs' no added"
  unfolding extension_runs_def by (metis stream_bytes_mono)

section \<open>The attribute list\<close>

lemma mft_list_records_distinct: "mft_list_records v = Ret nos \<Longrightarrow> distinct nos"
  using mft_list_loop_distinct [of v "[]" nos] by (simp add: mft_list_records_def)

lemma padded_size:
  assumes "\<not> mft_max_attr_list < n" "c \<noteq> 0" "\<not> 2 * 1024 * 1024 < (c :: u64)"
  shows "unat n \<le> unat ((n + c - 1) div c * c)"
proof -
  have b: "unat n \<le> 2 ^ 24" "unat c \<le> 2 ^ 21" "1 \<le> unat c"
    using assms by (auto simp: mft_max_attr_list_def word_less_nat_alt not_less unat_gt_0 Suc_le_eq)
  have "1 \<le> n + c" by (simp add: word_le_nat_alt unat_word_ariths) (use b in simp)
  then have s: "unat (n + c - 1) = unat n + unat c - 1"
    using b by (simp add: unat_sub word_le_nat_alt) (simp add: unat_word_ariths)
  have d: "unat ((n + c - 1) div c) = (unat n + unat c - 1) div unat c" by (simp add: unat_div_distrib s)
  have le: "(unat n + unat c - 1) div unat c * unat c \<le> unat n + unat c - 1" by simp
  have "unat n + unat c - 1 < 2 ^ 64" using b by simp
  with le have lt: "(unat n + unat c - 1) div unat c * unat c < 2 ^ 64" by (rule le_less_trans)
  have m: "unat ((n + c - 1) div c * c) = (unat n + unat c - 1) div unat c * unat c"
    using lt by (subst unat_mult_small) (simp_all only: d)
  have "unat n + unat c - 1 = (unat n + unat c - 1) div unat c * unat c + (unat n + unat c - 1) mod unat c" by simp
  moreover have "(unat n + unat c - 1) mod unat c < unat c" using b by simp
  ultimately show ?thesis using b m by linarith
qed

lemma mft_read_list_listed:
  assumes "mft_read_list io first g w = (Ret nos, w')" "honest_reader io disk"
  shows "listed_records disk g first nos \<and> distinct nos"
proof -
  obtain attrs where attrs: "mft_attributes first = Ret attrs"
    using assms(1) by (auto simp: mft_read_list_def mio_bind_Ret_iff)
  show ?thesis
  proof (cases "find (\<lambda>a. attr_typ a = 0x20) attrs")
    case None
    with assms(1) attrs show ?thesis by (simp add: mft_read_list_def listed_records_def)
  next
    case (Some a)
    have "\<exists>v. mft_list_records v = Ret nos \<and>
           (if \<not> nonresident a then attr_value a = Ret v
            else \<exists>n runs. get64 (attr_b a) 48 = (Ret n :: (mft_error, u64) go) \<and> attr_runs a = Ret runs \<and>
              stream_bytes disk runs (unat (Cluster g)) 0 (unat n) = Some v)"
    proof (cases "nonresident a")
      case False
      with assms(1) attrs Some show ?thesis by (auto simp: mft_read_list_def go_bind_Ret_iff)
    next
      case True
      define padded where "padded n = (n + Cluster g - 1) div Cluster g * Cluster g" for n
      obtain n runs b w1 v where n: "get64 (attr_b a) 48 = (Ret n :: (mft_error, u64) go)" "\<not> mft_max_attr_list < n"
        and r: "attr_runs a = Ret runs" and c: "Cluster g \<noteq> 0" "\<not> 2 * 1024 * 1024 < Cluster g"
        and b: "mft_read_stream io runs (Cluster g) 0 (padded n) w1 = (Ret b, w')"
        and v: "go_slice b 0 (unat n) = (Ret v :: (mft_error, byte list) go)" "mft_list_records v = Ret nos"
        using assms(1) attrs Some True
        by (auto simp: mft_read_list_def mio_bind_Ret_iff go_bind_Ret_iff padded_def Let_def split: if_splits)
      have "stream_bytes disk runs (unat (Cluster g)) 0 (unat (padded n)) = Some b"
        using read_stream_bytes [OF b assms(2) attr_runs_ordered [OF r]] unat_lt64 [of "padded n"] by simp
      from stream_bytes_take [OF this padded_size [OF n(2) c, folded padded_def]] v(1)
      have "stream_bytes disk runs (unat (Cluster g)) 0 (unat n) = Some v" by (simp add: go_slice_Ret_iff)
      with True n(1) r v(2) show ?thesis by auto
    qed
    with attrs Some mft_list_records_distinct show ?thesis by (auto simp: listed_records_def)
  qed
qed

section \<open>The extension records\<close>

text \<open>
  What the loop over the pending extensions keeps: \<open>found\<close> are the records placed so far with their runs,
  read through runs that are still among the current ones.
\<close>

definition runs_placed :: "(nat \<Rightarrow> byte) \<Rightarrow> mft_geometry \<Rightarrow> mft_run list \<Rightarrow> mft_run list \<Rightarrow> (u64 \<times> mft_run list) list \<Rightarrow> bool" where
  "runs_placed disk g base runs found \<longleftrightarrow>
    runs_ordered 0 runs \<and> mset runs = mset (base @ concat (map snd found)) \<and>
    (\<forall>(no, added)\<in>set found. extension_runs disk g runs no added)"

lemma record_offset:
  assumes "no < Valid g div Record_size g"
  shows "unat (no * Record_size g) = unat no * unat (Record_size g)"
    "unat no * unat (Record_size g) + unat (Record_size g) < 2 ^ 64"
proof -
  have "Suc (unat no) \<le> unat (Valid g) div unat (Record_size g)"
    using assms by (simp add: word_less_nat_alt unat_div_distrib)
  then have "Suc (unat no) * unat (Record_size g) \<le> unat (Valid g) div unat (Record_size g) * unat (Record_size g)"
    by (rule mult_le_mono1)
  also have "\<dots> \<le> unat (Valid g)" by simp
  finally show "unat no * unat (Record_size g) + unat (Record_size g) < 2 ^ 64"
    using unat_lt64 [of "Valid g"] by simp
  then show "unat (no * Record_size g) = unat no * unat (Record_size g)" by (intro unat_mult_small) simp
qed

lemma scan_ext_placed:
  assumes "mft_scan_ext io g no st w = (Ret st', w')" "honest_reader io disk" "runs_placed disk g base (scan_runs st) found"
  shows "scan_runs st' = scan_runs st \<and> scan_next st' = scan_next st @ [no] \<or>
    (\<exists>added. runs_placed disk g base (scan_runs st') (found @ [(no, added)]) \<and> scan_next st' = scan_next st)"
proof -
  have no: "no < Valid g div Record_size g" using assms(1) by (auto simp: mft_scan_ext_def split: if_splits)
  obtain q w1 where q: "mft_read_stream io (scan_runs st) (Cluster g) (no * Record_size g) (Record_size g) w = (q, w1)" by fastforce
  show ?thesis
  proof (cases q)
    case (Ret raw)
    obtain ext base_ref flags added runs where
      x: "mft_fixup raw (Sector g) = Ret ext" "get64 ext 32 = (Ret base_ref :: (mft_error, u64) go)"
        "get16 ext 22 = (Ret flags :: (mft_error, u16) go)"
        "base_ref AND mft_ref_mask = 0" "flags AND 1 \<noteq> 0" "mft_data_runs ext = Ret added"
      and o: "mft_order_runs (scan_runs st @ added) = Ret runs"
      and st': "scan_runs st' = runs" "scan_next st' = scan_next st"
      using assms(1) no q Ret by (auto simp: mft_scan_ext_def go_bind_Ret_iff not_le split: if_splits)
    note ordered = assms(3) [unfolded runs_placed_def]
    have new: "runs_ordered 0 runs" "mset runs = mset (scan_runs st @ added)" using mft_order_runs_runs [OF o] by simp_all
    then have sub: "set (scan_runs st) \<subseteq> set runs" by (metis mset_eq_setD set_append Un_upper1)
    have "stream_bytes disk (scan_runs st) (unat (Cluster g)) (unat no * unat (Record_size g)) (unat (Record_size g)) = Some raw"
      using read_stream_bytes [OF q [unfolded Ret] assms(2)] ordered record_offset [OF no] by simp
    from stream_bytes_mono [OF this new(1) sub] x no
    have "extension_runs disk g runs no added"
      by (auto simp: extension_runs_def word_less_nat_alt unat_div_distrib)
    moreover have "extension_runs disk g runs n m" if "(n, m) \<in> set found" for n m
      using ordered that extension_runs_mono [OF _ new(1) sub] by auto
    ultimately have "runs_placed disk g base runs (found @ [(no, added)])"
      using ordered new by (auto simp: runs_placed_def)
    with st' show ?thesis by auto
  next
    case (Err err)
    then show ?thesis using assms(1) no q by (auto simp: mft_scan_ext_def mio_bind_Ret_iff not_le split: if_splits)
  next
    case Panic
    then show ?thesis using assms(1) no q by (auto simp: mft_scan_ext_def not_le split: if_splits)
  qed
qed

lemma scan_round_placed:
  assumes "mio_fold (mft_scan_ext io g) pending st w = (Ret st', w')" "honest_reader io disk"
    "runs_placed disk g base (scan_runs st) found" "scan_next st = []"
  shows "\<exists>found'. runs_placed disk g base (scan_runs st') found' \<and>
    mset (map fst found') + mset (scan_next st') = mset (map fst found) + mset pending"
proof (rule mio_fold_induct [where P = "\<lambda>seen st. \<exists>found'. runs_placed disk g base (scan_runs st) found' \<and>
    mset (map fst found') + mset (scan_next st) = mset (map fst found) + mset seen", OF assms(1)])
  show "\<exists>found'. runs_placed disk g base (scan_runs st) found' \<and>
      mset (map fst found') + mset (scan_next st) = mset (map fst found) + mset []"
    using assms(3,4) by auto
next
  fix no s w s' w' seen
  assume "\<exists>found'. runs_placed disk g base (scan_runs s) found' \<and>
      mset (map fst found') + mset (scan_next s) = mset (map fst found) + mset seen"
    and step: "mft_scan_ext io g no s w = (Ret s', w')"
  then obtain found' where f: "runs_placed disk g base (scan_runs s) found'"
    "mset (map fst found') + mset (scan_next s) = mset (map fst found) + mset seen" by blast
  from scan_ext_placed [OF step assms(2) f(1)]
  show "\<exists>found'. runs_placed disk g base (scan_runs s') found' \<and>
      mset (map fst found') + mset (scan_next s') = mset (map fst found) + mset (seen @ [no])"
  proof (elim disjE exE conjE)
    assume "scan_runs s' = scan_runs s" "scan_next s' = scan_next s @ [no]"
    with f show ?thesis by (intro exI [of _ found']) simp
  next
    fix added assume "runs_placed disk g base (scan_runs s') (found' @ [(no, added)])" "scan_next s' = scan_next s"
    with f(2) show ?thesis by (intro exI [of _ "found' @ [(no, added)]"]) simp
  qed
qed

lemma scan_pending_placed:
  assumes "mft_scan_pending io g pending runs ext w = (Ret (runs', ext'), w')" "honest_reader io disk"
    "runs_placed disk g base runs found"
  shows "\<exists>found'. runs_placed disk g base runs' found' \<and> mset (map fst found') = mset (map fst found) + mset pending"
  using assms(1,3)
proof (induction "length pending" arbitrary: pending runs ext w found rule: less_induct)
  case less
  show ?case
  proof (cases "pending = []")
    case True
    with less.prems show ?thesis by (auto simp: mft_scan_pending.simps)
  next
    case False
    define st0 where "st0 = \<lparr>scan_runs = runs, scan_ext = ext, scan_next = [], scan_progress = False\<rparr>"
    from less.prems(1) False obtain st w1 where
      f: "mio_fold (mft_scan_ext io g) pending st0 w = (Ret st, w1)" "scan_progress st" and
      rest: "mft_scan_pending io g (scan_next st) (scan_runs st) (scan_ext st) w1 = (Ret (runs', ext'), w')"
      unfolding mft_scan_pending.simps [of io g pending runs ext w]
      by (auto simp: mio_bind_Ret_iff st0_def split: if_splits)
    have "runs_placed disk g base (scan_runs st0) found" "scan_next st0 = []" using less.prems(2) by (simp_all add: st0_def)
    from scan_round_placed [OF f(1) assms(2) this] obtain found1 where
      f1: "runs_placed disk g base (scan_runs st) found1"
        "mset (map fst found1) + mset (scan_next st) = mset (map fst found) + mset pending" by blast
    have "length (scan_next st) < length pending"
      using mft_scan_round_shorter [OF f(1)] f(2) by (simp add: st0_def)
    from less.hyps [OF this rest f1(1)] f1(2) show ?thesis by auto
  qed
qed

lemma mset_concat_perm: "mset xs = mset ys \<Longrightarrow> mset (concat (map f xs)) = mset (concat (map f ys))"
  by (simp add: mset_concat comp_def) (metis mset_map sum_mset_sum_list)

section \<open>What a scan returns\<close>

lemma run_bytes_sum:
  assumes "mft_run_bytes cluster runs = Ret n"
  shows "unat n = sum_list (map (\<lambda>r. unat (Clusters r) * unat cluster) runs)"
proof -
  have "unat n = unat m + sum_list (map (\<lambda>r. unat (Clusters r) * unat cluster) runs)"
    if "go_fold (\<lambda>run bytes. if Clusters run > ((- 1) - bytes) div cluster then Err ErrMFTCorrupt
      else Ret (bytes + Clusters run * cluster)) runs m = Ret n" for m
    using that
  proof (induction runs arbitrary: m)
    case (Cons r runs)
    then have le: "Clusters r \<le> ((- 1) - m) div cluster"
      and rest: "go_fold (\<lambda>run bytes. if Clusters run > ((- 1) - bytes) div cluster then Err ErrMFTCorrupt
      else Ret (bytes + Clusters run * cluster)) runs (m + Clusters r * cluster) = Ret n"
      by (auto split: if_splits)
    have "unat (- 1 - m) = 2 ^ 64 - 1 - unat m" using unat_max64 by (subst unat_sub) simp_all
    then have "unat (Clusters r) \<le> (2 ^ 64 - 1 - unat m) div unat cluster"
      using le by (simp add: word_le_nat_alt unat_div_distrib)
    then have "unat (Clusters r) * unat cluster \<le> (2 ^ 64 - 1 - unat m) div unat cluster * unat cluster" by (rule mult_le_mono1)
    also have "\<dots> \<le> 2 ^ 64 - 1 - unat m" by simp
    finally have b: "unat (Clusters r) * unat cluster + unat m < 2 ^ 64" using unat_lt64 [of m] by simp
    then have "unat (Clusters r * cluster) = unat (Clusters r) * unat cluster" by (intro unat_mult_small) simp
    with b have "unat (m + Clusters r * cluster) = unat m + unat (Clusters r) * unat cluster"
      by (simp add: unat_word_ariths)
    with Cons.IH [OF rest] show ?case by simp
  qed simp
  from this [of 0] assms show ?thesis by (simp add: mft_run_bytes_def)
qed

lemma first_record_bytes:
  assumes "mft_read_at io (unat (Record_size g)) (Start g * Cluster g) w = (Ret raw, w')" "honest_reader io disk"
    "geometry_validate g = Ret u"
  shows "raw = map disk [unat (Start g) * unat (Cluster g)..<unat (Start g) * unat (Cluster g) + unat (Record_size g)]"
proof -
  have "\<not> Start g > max_int64 div Cluster g" using assms(3) by (auto simp: geometry_validate_def split: if_splits)
  then have "unat (Start g) \<le> unat max_int64 div unat (Cluster g)" by (simp add: word_less_nat_alt unat_div_distrib not_less)
  then have "unat (Start g) * unat (Cluster g) \<le> unat max_int64 div unat (Cluster g) * unat (Cluster g)" by (rule mult_le_mono1)
  also have "\<dots> \<le> unat max_int64" by simp
  finally have "unat (Start g * Cluster g) = unat (Start g) * unat (Cluster g)"
    using unat_lt64 [of max_int64] by (intro unat_mult_small) simp
  then show ?thesis
    using mft_read_at_Ret [OF assms(1)] mft_read_at_honest [OF assms(1,2)] by (intro nth_equalityI) simp_all
qed

text \<open>
  C35: a scan that succeeds on a truthfully read volume returns exactly the master
  file table that the volume holds.  Its runs are those of the first record and of every extension record
  that the first record's attribute list names, each extension read through these runs themselves, in
  order and without overlap.  The number of records is what the valid length and the bytes of these
  runs allow, computed without wrap-around; there is one entry for each, in record order, the decoding
  of that record's bytes under these runs; a record that does not decode is the empty entry.
\<close>

theorem mft_scan_reader_entries:
  assumes "mft_scan_reader procs io g w = (Ret r, w')" "honest_reader io disk"
  shows "\<exists>runs. mft_table disk g runs \<and>
    unat (MFTRunBytes r) = sum_list (map (\<lambda>run. unat (Clusters run) * unat (Cluster g)) runs) \<and>
    unat (RecordsExpected r) = min (unat (Valid g)) (unat (MFTRunBytes r)) div unat (Record_size g) \<and>
    length (Entries r) = unat (RecordsExpected r) \<and> scanned disk g runs (Entries r)"
proof -
  from assms(1) obtain u raw first base runs0 nos w1 w2 w0 wl runs ext w3 cnt rb w4 where
    g: "geometry_validate g = Ret u" and
    raw: "mft_read_at io (unat (Record_size g)) (Start g * Cluster g) w0 = (Ret raw, wl)" and
    first: "mft_fixup raw (Sector g) = Ret first" and
    base: "mft_data_runs first = Ret base" "mft_order_runs base = Ret runs0" and
    nos: "mft_read_list io first g wl = (Ret nos, w1)" and
    p: "mft_scan_pending io g nos runs0 0 w1 = (Ret (runs, ext), w2)" and
    rb: "mft_run_bytes (Cluster g) runs = Ret rb" and
    cnt: "cnt = min (Valid g) rb div Record_size g" and
    c: "mft_scan_chunks (unat cnt) procs io g runs cnt 0 [] w3 = (Ret (Entries r), w4)" and
    re: "RecordsExpected r = cnt" "MFTRunBytes r = rb"
    by (auto simp: mft_scan_reader_def mio_bind_Ret_iff Let_def go_bind_Ret_iff split: if_splits)
  have "runs_placed disk g base runs0 []" using mft_order_runs_runs [OF base(2)] by (simp add: runs_placed_def)
  from scan_pending_placed [OF p assms(2) this] obtain found where
    found: "runs_placed disk g base runs found" "mset (map fst found) = mset nos" by auto
  note listed = mft_read_list_listed [OF nos assms(2)]
  have dist: "distinct (map fst found)" using listed found(2) mset_eq_imp_distinct_iff by blast
  define added where "added no = the (map_of found no)" for no
  have m: "added (fst e) = snd e" if "e \<in> set found" for e
    using map_of_is_SomeI [OF dist, of "fst e" "snd e"] that by (simp add: added_def)
  have "concat (map added (map fst found)) = concat (map snd found)" using m by (simp add: comp_def cong: map_cong)
  then have "mset (concat (map added nos)) = mset (concat (map snd found))"
    using mset_concat_perm [OF found(2), of added] by simp
  moreover have "extension_runs disk g runs no (added no)" if "no \<in> set nos" for no
  proof -
    have "no \<in> set (map fst found)" using that found(2) mset_eq_setD by blast
    then show ?thesis using found(1) m by (auto simp: runs_placed_def)
  qed
  ultimately have table: "mft_table disk g runs"
    using first base(1) listed found(1) first_record_bytes [OF raw assms(2) g] unfolding mft_table_def runs_placed_def
    by (intro exI [of _ first] exI [of _ base] exI [of _ nos] exI [of _ added]) auto
  note geo = geometry_validate_Ret [OF g]
  have o: "runs_ordered 0 runs" using found(1) by (simp add: runs_placed_def)
  have "unat cnt * unat (Record_size g) \<le> unat (min (Valid g) rb)"
    by (simp add: cnt unat_div_distrib)
  also have "\<dots> < 2 ^ 64" using geo by (simp add: min_u64 min_less_iff_disj)
  finally have "scanned disk g runs (Entries r) \<and> length (Entries r) = unat cnt"
    using geo by (intro mft_scan_chunks_scanned [OF c _ _ _ _ assms(2) o]) (simp_all add: scanned_def)
  moreover have "unat cnt = min (unat (Valid g)) (unat rb) div unat (Record_size g)"
    by (simp add: cnt unat_div_distrib min_u64)
  ultimately show ?thesis using table run_bytes_sum [OF rb] re by auto
qed

section \<open>A scan of a small volume\<close>

definition sample_header :: "byte list" where
  "sample_header = [70, 73, 76, 69, 40, 0, 2, 0, 0, 0, 0, 0, 0, 0, 0, 0, 0, 0, 0, 0, 48, 0, 1, 0,
     0, 0, 0, 0, 0, 0, 0, 0, 0, 0, 0, 0, 0, 0, 0, 0, 1, 0, 0, 0, 0, 0, 0, 0,
     128, 0, 0, 0, 72, 0, 0, 0, 1, 0, 64, 0, 0, 0, 0, 0, 0, 0, 0, 0, 0, 0, 0, 0,
     5, 0, 0, 0, 0, 0, 0, 0, 64, 0, 0, 0, 0, 0, 0, 0, 0, 12, 0, 0, 0, 0, 0, 0,
     0, 12, 0, 0, 0, 0, 0, 0, 0, 12, 0, 0, 0, 0, 0, 0, 17, 6, 1, 0, 0, 0, 0, 0,
     255, 255, 255, 255]"

lemma length_sample_header [simp]: "length sample_header = 124"
  by (simp add: sample_header_def)

definition sample_disk :: "byte list" where
  "sample_disk = replicate 512 0 @ sample_header @ replicate 386 0 @ [1, 0] @ replicate 2560 0"

definition sample_geometry :: mft_geometry where
  "sample_geometry = \<lparr>Sector = 512, Cluster = 512, Record_size = 512, Start = 1, Valid = 3072\<rparr>"

lemma list_io_ctx: "mio_ctx (list_io disk) w = (Ret (), w)"
  by (simp add: mio_ctx_def list_io_def)

lemma sample_geometry_valid: "geometry_validate sample_geometry = Ret ()"
  by (simp add: geometry_validate_def sample_geometry_def mft_root_record_def max_int64_def)

lemma fixup_zero: "mft_fixup (replicate 512 0) 512 = Err ErrMFTCorrupt"
  by (simp add: mft_fixup_def get16_def le_at_def Let_def)

definition sample_first :: "byte list" where
  "sample_first = sample_header @ replicate 386 0 @ [1, 0]"

definition sample_fixed :: "byte list" where
  "sample_fixed = sample_header @ replicate 388 0"

lemma fixup_first: "mft_fixup sample_first 512 = Ret sample_fixed"
proof -
  have "replicate 388 (0::byte) = replicate 386 0 @ [0,0]"
    using replicate_add [of 386 2 "0 :: byte"] by (simp add: replicate_two)
  then show ?thesis
  by (simp add: mft_fixup_def get16_def le_at_def Let_def sample_first_def sample_fixed_def fixup_check_def go_check_def
   fixup_restore_def go_slice_def put_at_def, simp add: sample_header_def)
qed

lemma data_first: "mft_data_runs sample_fixed = Ret [\<lparr>VCN = 0, LCN = 1, Clusters = 6, Sparse = False\<rparr>]"
  by (simp add: sample_fixed_def sample_header_def mft_data_runs_def mft_attributes_def bytes_of_string_def mft_each_attr_def
    mft_attr_loop.simps mft_attr_at_def get16_def get32_def get64_def le_at_def byte_at_def go_slice_def
    go_check_def Let_def attr_runs_def mft_parse_runs_def mft_runs_loop.simps run_delta_def max_int64_def min_int64_def word_sless_alt)

lemma attrs_first: "\<exists>attrs. mft_attributes sample_fixed = Ret attrs \<and> find (\<lambda>a. attr_typ a = 0x20) attrs = None"
  by (simp add: sample_fixed_def sample_header_def mft_attributes_def bytes_of_string_def mft_each_attr_def
    mft_attr_loop.simps mft_attr_at_def get16_def get32_def get64_def le_at_def byte_at_def go_slice_def
    go_check_def Let_def)

lemma read_first: "mft_read_at (list_io sample_disk) 512 512 () = (Ret sample_first, ())"
  by (simp add: mft_read_at_def mio_bind_def mio_ctx_def list_io_def max_int64_def sample_disk_def sample_first_def)

lemma list_first: "mft_read_list io sample_fixed g w = (Ret [], w)"
  using attrs_first by (auto simp: mft_read_list_def)

definition sample_chunk :: "byte list" where
  "sample_chunk = sample_first @ replicate 2560 0"

lemma chunk_read: "mft_read_stream (list_io sample_disk) [\<lparr>VCN = 0, LCN = 1, Clusters = 6, Sparse = False\<rparr>] 512 0 3072 () =
  (Ret sample_chunk, ())"
  by (simp add: mft_read_stream.simps mft_read_part_def mft_read_at_def mio_bind_def mio_ctx_def list_io_def
    run_covers_def max_int64_def Let_def sample_disk_def sample_chunk_def sample_first_def)

lemma slot_first: "mft_decode_slot 512 sample_first = Ret empty_mft_entry"
 by (simp add: mft_decode_slot_def fixup_first,
   simp add: sample_fixed_def sample_header_def bytes_of_string_def mft_decode_record_def mft_each_attr_def
    mft_attr_loop.simps mft_attr_at_def get16_def get32_def get64_def le_at_def byte_at_def go_slice_def
    go_check_def mft_decode_attr_def mft_ref_mask_def empty_mft_entry_def Let_def)

lemma slot_zero: "mft_decode_slot 512 (replicate 512 0) = Ret empty_mft_entry"
 by (simp add: mft_decode_slot_def fixup_zero)

lemma chunk_decode:
  "decode_mft_chunk 4 sample_chunk 512 512 (replicate 6 empty_mft_entry) = Ret (replicate 6 empty_mft_entry)"
proof -
  have first: "go_slice sample_chunk 0 512 = Ret sample_first"
    by (simp add: sample_chunk_def go_slice_def sample_first_def)
  have rest: "go_slice sample_chunk lo (lo + 512) = Ret (replicate 512 0)" if "512 \<le> lo" "lo \<le> 2560" for lo
    using that by (simp add: sample_chunk_def go_slice_def sample_first_def drop_Cons')
  have six: "[0..<6] = [0, 1, 2, 3, 4, 5]" by (simp add: upt_rec)
  show ?thesis
    unfolding decode_mft_chunk_sequential decode_mft_records_def
    by (simp add: six first rest [of 512, simplified] rest [of 1024, simplified] rest [of 1536, simplified]
      rest [of 2048, simplified] rest [of 2560, simplified] slot_first slot_zero del: upt_Suc)
      (simp add: eval_nat_numeral)
qed

lemma mft_scan_chunks_end: "mft_scan_chunks todo procs io g runs cnt cnt es w = (Ret es, w)"
  by (cases todo) simp_all

lemma scan_chunks:
  "mft_scan_chunks 6 4 (list_io sample_disk) sample_geometry
     [\<lparr>VCN = 0, LCN = 1, Clusters = 6, Sparse = False\<rparr>] 6 0 [] () = (Ret (replicate 6 empty_mft_entry), ())"
proof -
  have 6: "(6 :: nat) = Suc 5" by simp
  show ?thesis
    by (subst 6, subst mft_scan_chunks.simps(2))
      (simp add: mio_bind_def list_io_ctx Let_def sample_geometry_def mft_buf_len_def chunk_read chunk_decode
        mft_scan_chunks_end)
qed

theorem mft_scan_reader_entries_witness:
  "\<exists>runs. mft_table ((!) sample_disk) sample_geometry runs \<and> scanned ((!) sample_disk) sample_geometry runs (replicate 6 empty_mft_entry)"
proof -
  have "mft_scan_reader 4 (list_io sample_disk) sample_geometry () = (Ret \<lparr>Entries = replicate 6 empty_mft_entry,
    RecordsExpected = 6, MFTRunBytes = 3072, ExtRecords = 0, BytesRead = 3072\<rparr>, ())"
    using scan_chunks [unfolded sample_geometry_def]
    by (simp add: mft_scan_reader_def mio_bind_def sample_geometry_valid)
     (simp add: sample_geometry_def mio_bind_def read_first fixup_first data_first mft_order_runs_def order_step_def
     list_first mft_scan_pending.simps mft_run_bytes_def Let_def)
  from mft_scan_reader_entries [OF this list_io_honest] show ?thesis by auto
qed

end
