(* ===== verification/Go_Path.thy ===== *)
theory Go_Path
  imports Go_Utf8 "HOL-Library.Sublist"
begin

text \<open>
  The parts of \<^verbatim>\<open>strings\<close> and \<^verbatim>\<open>path/filepath\<close> (as built for macOS and Linux)
  that the program uses on paths: splitting, trimming, \<^verbatim>\<open>Clean\<close>, \<^verbatim>\<open>Dir\<close>,
  \<^verbatim>\<open>Base\<close> and \<^verbatim>\<open>Join\<close>, ASCII lower case and case folding against ASCII text.
\<close>

section \<open>Splitting and joining\<close>

fun split_on :: "'c \<Rightarrow> 'c list \<Rightarrow> 'c list list" where
  "split_on c [] = [[]]"
| "split_on c (x # xs) =
    (if x = c then [] # split_on c xs
     else case split_on c xs of [] \<Rightarrow> [[x]] | w # ws \<Rightarrow> (x # w) # ws)"

fun join_with :: "'c \<Rightarrow> 'c list list \<Rightarrow> 'c list" where
  "join_with c [] = []"
| "join_with c [w] = w"
| "join_with c (w # ws) = w @ c # join_with c ws"

lemma split_on_nonempty [simp]: "split_on c s \<noteq> []"
  by (induction s) (auto split: list.splits)

lemma join_with_Cons: "ws \<noteq> [] \<Longrightarrow> join_with c (w # ws) = w @ c # join_with c ws"
  by (cases ws) simp_all

lemma join_with_Cons_hd: "join_with c ((x # w) # ws) = x # join_with c (w # ws)"
  by (cases ws) simp_all

lemma join_split [simp]: "join_with c (split_on c s) = s"
proof (induction s)
  case (Cons x s)
  show ?case
  proof (cases "x = c")
    case True
    then show ?thesis using Cons by (simp add: join_with_Cons)
  next
    case False
    obtain w ws where "split_on c s = w # ws" by (meson neq_Nil_conv split_on_nonempty)
    with False Cons show ?thesis by (simp add: join_with_Cons_hd)
  qed
qed simp

lemma split_on_sep [simp]: "split_on c (s @ c # t) = split_on c s @ split_on c t"
  by (induction s) (auto split: list.splits)

lemma split_on_no_sep: "c \<notin> set s \<Longrightarrow> split_on c s = [s]"
  by (induction s) auto

lemma split_on_set: "w \<in> set (split_on c s) \<Longrightarrow> c \<notin> set w"
  by (induction s arbitrary: w) (auto split: list.splits if_splits)

lemma split_join:
  "ws \<noteq> [] \<Longrightarrow> \<forall>w \<in> set ws. c \<notin> set w \<Longrightarrow> split_on c (join_with c ws) = ws"
  by (induction c ws rule: join_with.induct) (auto simp: split_on_no_sep)

lemma split_on_inj: "split_on c s = split_on c t \<Longrightarrow> s = t"
  by (metis join_split)

text \<open>Component-wise prefixes are prefixes that end at a separator.\<close>

lemma prefix_split_on:
  "prefix (split_on c b) (split_on c s) \<longleftrightarrow> (\<exists>t. s = b @ t \<and> (t = [] \<or> hd t = c))"
proof
  assume "prefix (split_on c b) (split_on c s)"
  then obtain ws where ws: "split_on c s = split_on c b @ ws" by (auto simp: prefix_def)
  show "\<exists>t. s = b @ t \<and> (t = [] \<or> hd t = c)"
  proof (cases ws)
    case Nil
    with ws have "s = b" by (auto dest: split_on_inj)
    then show ?thesis by simp
  next
    case (Cons w ws')
    have "split_on c (b @ c # join_with c ws) = split_on c s"
      using Cons ws split_on_set [of _ c s] by (simp add: split_join)
    then have "b @ c # join_with c ws = s" by (rule split_on_inj)
    then show ?thesis by auto
  qed
next
  assume "\<exists>t. s = b @ t \<and> (t = [] \<or> hd t = c)"
  then obtain t where "s = b @ t" "t = [] \<or> hd t = c" by blast
  then show "prefix (split_on c b) (split_on c s)"
    by (cases t) auto
qed

section \<open>Trimming and case\<close>

definition trim_right :: "'c \<Rightarrow> 'c list \<Rightarrow> 'c list" where
  "trim_right c s = rev (dropWhile (\<lambda>x. x = c) (rev s))"

lemma takeWhile_eq_replicate: "takeWhile (\<lambda>x. x = c) xs = replicate (length (takeWhile (\<lambda>x. x = c) xs)) c"
  by (induction xs) auto

lemma dropWhile_replicate: "dropWhile (\<lambda>x. x = c) (replicate n c @ xs) = dropWhile (\<lambda>x. x = c) xs"
  by (induction n) auto

lemma trim_right_decomp: "\<exists>n. s = trim_right c s @ replicate n c"
proof -
  have "s = rev (takeWhile (\<lambda>x. x = c) (rev s) @ dropWhile (\<lambda>x. x = c) (rev s))" by simp
  then have "s = trim_right c s @ rev (takeWhile (\<lambda>x. x = c) (rev s))"
    unfolding trim_right_def rev_append .
  also have "rev (takeWhile (\<lambda>x. x = c) (rev s)) = replicate (length (takeWhile (\<lambda>x. x = c) (rev s))) c"
    by (subst takeWhile_eq_replicate) simp
  finally show ?thesis ..
qed

lemma trim_right_last:
  assumes "trim_right c s \<noteq> []"
  shows "last (trim_right c s) \<noteq> c"
proof -
  have "dropWhile (\<lambda>x. x = c) (rev s) \<noteq> []" using assms by (simp only: trim_right_def rev_is_Nil_conv not_False_eq_True)
  from hd_dropWhile [OF this] this show ?thesis by (simp only: trim_right_def last_rev not_False_eq_True)
qed

lemma trim_right_id: "s = [] \<or> last s \<noteq> c \<Longrightarrow> trim_right c s = s"
  by (cases s rule: rev_cases) (auto simp: trim_right_def)

lemma trim_right_append_replicate: "trim_right c (s @ replicate n c) = trim_right c s"
  by (simp add: trim_right_def dropWhile_replicate)

text \<open>
  \<^verbatim>\<open>strings.Map\<close> with the ASCII lower-case mapping: the runes of the string, mapped and
  written back, so that bytes that are not UTF-8 become U+FFFD.
\<close>

definition ascii_lower_rune :: "nat \<Rightarrow> nat" where
  "ascii_lower_rune r = (if 65 \<le> r \<and> r \<le> 90 then r + 32 else r)"

definition ascii_lower :: "string \<Rightarrow> string" where
  "ascii_lower s = concat (map (\<lambda>r. utf8_encode (ascii_lower_rune r)) (runes s))"

lemma ascii_lower_rune_scalar [simp]: "scalar_value (ascii_lower_rune r) = scalar_value r"
  by (auto simp: ascii_lower_rune_def scalar_value_def)

lemma ascii_lower_rune_idem [simp]: "ascii_lower_rune (ascii_lower_rune r) = ascii_lower_rune r"
  by (simp add: ascii_lower_rune_def)

lemma runes_ascii_lower: "runes (ascii_lower s) = map ascii_lower_rune (runes s)"
proof -
  have "list_all scalar_value (map ascii_lower_rune (runes s))"
    using runes_list_scalar [of s] by (simp add: list_all_iff)
  from runes_concat_encode [OF this] show ?thesis by (simp add: ascii_lower_def comp_def)
qed

lemma ascii_lower_idem [simp]: "ascii_lower (ascii_lower s) = ascii_lower s"
  by (simp add: ascii_lower_def [of "ascii_lower s"] runes_ascii_lower comp_def) (simp add: ascii_lower_def)

definition ascii_lower_char :: "char \<Rightarrow> char" where
  "ascii_lower_char ch =
    (let n = of_char ch :: nat in if 65 \<le> n \<and> n \<le> 90 then char_of (n + 32) else ch)"

lemma ascii_lower_ascii:
  "\<forall>ch \<in> set s. of_char ch < (128 :: nat) \<Longrightarrow> ascii_lower s = map ascii_lower_char s"
proof -
  assume a: "\<forall>ch \<in> set s. of_char ch < (128 :: nat)"
  have "utf8_encode (ascii_lower_rune (of_char ch)) = [ascii_lower_char ch]" if "ch \<in> set s" for ch
    using a that by (auto simp: ascii_lower_rune_def ascii_lower_char_def utf8_encode_ascii Let_def)
  then have "map (\<lambda>r. utf8_encode (ascii_lower_rune r)) (runes s) = map (\<lambda>ch. [ascii_lower_char ch]) s"
    by (simp add: runes_ascii [OF a])
  then show ?thesis by (simp add: ascii_lower_def)
qed

text \<open>
  \<^verbatim>\<open>strings.EqualFold(s, t)\<close> for a \<open>t\<close> of ASCII characters, exactly: it compares runes under
  Unicode's simple folding, where the only other runes that fold to ASCII letters are U+017F (to s)
  and U+212A (to k).  A rune of \<open>s\<close> that folds to no ASCII letter equals none of \<open>t\<close>, whatever it
  folds to.  The code's calls compare with literals (\<^verbatim>\<open>desktop.ini\<close>, \<^verbatim>\<open>.plist\<close>, \<^verbatim>\<open>subagent-worktrees\<close>).
\<close>

definition fold_ascii_rune :: "nat \<Rightarrow> nat" where
  "fold_ascii_rune r =
    (if 65 \<le> r \<and> r \<le> 90 then r + 32 else if r = 0x17F then 115 else if r = 0x212A then 107 else r)"

definition equal_fold_literal :: "string \<Rightarrow> string \<Rightarrow> bool" where
  "equal_fold_literal s t \<longleftrightarrow> map fold_ascii_rune (runes s) = map fold_ascii_rune (runes t)"

section \<open>Paths\<close>

abbreviation slash :: char where
  "slash \<equiv> CHR ''/''"

definition clean_step :: "bool \<Rightarrow> string \<Rightarrow> string list \<Rightarrow> string list" where
  "clean_step rooted w out =
    (if w = [] \<or> w = ''.'' then out
     else if w = ''..'' then
       (if out \<noteq> [] \<and> last out \<noteq> ''..'' then butlast out
        else if rooted then out else out @ [''..''])
     else out @ [w])"

definition path_clean :: "string \<Rightarrow> string" where
  "path_clean s =
    (let rooted = (s \<noteq> [] \<and> hd s = slash);
         out = fold (clean_step rooted) (split_on slash s) [] in
     if rooted then slash # join_with slash out
     else if out = [] then ''.'' else join_with slash out)"

definition up_to_slash :: "string \<Rightarrow> string" where
  \<comment> \<open>\<^verbatim>\<open>path[:strings.LastIndex(path, "/")+1]\<close>\<close>
  "up_to_slash s = rev (dropWhile (\<lambda>ch. ch \<noteq> slash) (rev s))"

definition after_slash :: "string \<Rightarrow> string" where
  "after_slash s = rev (takeWhile (\<lambda>ch. ch \<noteq> slash) (rev s))"

definition path_dir :: "string \<Rightarrow> string" where
  "path_dir s = path_clean (up_to_slash s)"

definition path_base :: "string \<Rightarrow> string" where
  "path_base s =
    (if s = [] then ''.'' else
     let t = trim_right slash s in if t = [] then [slash] else after_slash t)"

definition path_join :: "string \<Rightarrow> string \<Rightarrow> string" where
  "path_join a b =
    (if a = [] \<and> b = [] then []
     else if a = [] then path_clean b
     else if b = [] then path_clean a
     else path_clean (a @ slash # b))"

text \<open>\<^verbatim>\<open>Dir\<close> reaches a fixed point: the chain of parents of a path is finite.\<close>

definition weight :: "string list \<Rightarrow> nat" where
  "weight ws = sum_list (map (\<lambda>w. Suc (length w)) ws)"

lemma weight_simps [simp]: "weight [] = 0" "weight (w # ws) = Suc (length w) + weight ws"
    "weight (xs @ ys) = weight xs + weight ys"
  by (simp_all add: weight_def)

lemma weight_split: "weight (split_on c s) = Suc (length s)"
  by (induction s) (auto split: list.splits)

lemma length_join: "ws \<noteq> [] \<Longrightarrow> Suc (length (join_with c ws)) = weight ws"
  by (induction c ws rule: join_with.induct) auto

lemma weight_clean_step: "weight (clean_step r w out) \<le> weight out + (if w = [] then 0 else Suc (length w))"
proof -
  have "weight (butlast out) \<le> weight out" by (cases out rule: rev_cases) auto
  then show ?thesis by (auto simp: clean_step_def)
qed

lemma weight_clean_fold: "weight (fold (clean_step r) ws out) \<le> weight out + weight (filter (\<lambda>w. w \<noteq> []) ws)"
proof (induction ws arbitrary: out)
  case (Cons w ws)
  from Cons.IH [of "clean_step r w out"] weight_clean_step [of r w out] show ?case
    by (auto split: if_splits)
qed simp

lemma length_path_clean_dir:
  assumes "s \<noteq> []"
  shows "length (path_clean (s @ [slash])) \<le> length s"
proof -
  define r where "r = (hd (s @ [slash]) = slash)"
  define out where "out = fold (clean_step r) (split_on slash (s @ [slash])) []"
  have "split_on slash (s @ [slash]) = split_on slash s @ [[]]" by simp
  then have w: "weight out \<le> weight (filter (\<lambda>w. w \<noteq> []) (split_on slash s))"
    unfolding out_def using weight_clean_fold [of r "split_on slash (s @ [slash])" "[]"] by simp
  have le: "weight (filter (\<lambda>w. w \<noteq> []) ws) \<le> weight ws" for ws
    by (induction ws) auto
  have clean: "path_clean (s @ [slash]) =
    (if r then slash # join_with slash out else if out = [] then ''.'' else join_with slash out)"
    by (simp add: path_clean_def r_def out_def Let_def)
  show ?thesis
  proof (cases r)
    case True
    with assms obtain s' where s: "s = slash # s'" by (cases s) (auto simp: r_def)
    then have "weight (filter (\<lambda>w. w \<noteq> []) (split_on slash s)) \<le> Suc (length s')"
      using le [of "split_on slash s'"] by (simp add: weight_split)
    with w have "weight out \<le> Suc (length s')" by (simp add: s)
    then have "length (join_with slash out) \<le> length s'"
      using length_join [of out slash] by (cases "out = []") auto
    moreover have "path_clean (s @ [slash]) = slash # join_with slash out" using True by (simp only: clean if_True)
    ultimately show ?thesis by (simp only: s length_Cons Suc_le_mono)
  next
    case False
    have "weight out \<le> Suc (length s)" using w le [of "split_on slash s"] by (simp add: weight_split)
    with False assms length_join [of out slash] show ?thesis
      by (cases "out = []") (auto simp: clean Suc_le_eq)
  qed
qed

definition dir_rank :: "string \<Rightarrow> nat" where
  "dir_rank s = (if s = ''.'' then 0 else Suc (length s))"

lemma path_dir_rank: "path_dir s \<noteq> s \<Longrightarrow> dir_rank (path_dir s) < dir_rank s"
proof -
  assume ne: "path_dir s \<noteq> s"
  show ?thesis
  proof (cases "up_to_slash s = []")
    case True
    then have "path_dir s = ''.''" by (simp add: path_dir_def path_clean_def clean_step_def)
    with ne show ?thesis by (auto simp: dir_rank_def)
  next
    case False
    have "last (up_to_slash s) = slash"
      using False hd_dropWhile [of "\<lambda>ch. ch \<noteq> slash" "rev s"]
      by (simp add: up_to_slash_def last_rev)
    then obtain p where p: "up_to_slash s = p @ [slash]"
      using False by (metis append_butlast_last_id)
    have "length (up_to_slash s) \<le> length s"
      by (simp add: up_to_slash_def) (metis length_dropWhile_le length_rev)
    with p have len: "Suc (length p) \<le> length s" by simp
    show ?thesis
    proof (cases "p = []")
      case True
      then have d: "path_dir s = [slash]" by (simp add: path_dir_def p path_clean_def clean_step_def)
      have "up_to_slash s = s" if "length s = 1"
        using that p True by (cases s) (auto simp: up_to_slash_def split: if_splits)
      then have "length s \<noteq> 1" using ne d p True by auto
      with d len show ?thesis by (auto simp: dir_rank_def)
    next
      case False
      then have "length (path_dir s) \<le> length p" using length_path_clean_dir by (simp add: path_dir_def p)
      moreover have "s \<noteq> ''.''" using False len by auto
      ultimately show ?thesis using len by (auto simp: dir_rank_def)
    qed
  qed
qed

function parents :: "string \<Rightarrow> string list" where
  "parents s = s # (if path_dir s = s then [] else parents (path_dir s))"
  by pat_completeness auto
termination
  by (relation "measure dir_rank") (auto intro: path_dir_rank)

declare parents.simps [simp del]

end
