(* ===== verification/Name_Pattern.thy ===== *)
theory Name_Pattern
  imports Go_Path
begin

text \<open>
  \<^verbatim>\<open>internal/core/filename_pattern.go\<close>: the search pattern of the disk index, with
  \<^verbatim>\<open>*\<close> for any run of characters and \<^verbatim>\<open>?\<close> for one rune.  The matcher of the
  source fills one row of a table per rune of the name; it is compared with the declarative
  meaning of a pattern.
\<close>

section \<open>The pattern\<close>

record name_pattern =
  np_query :: string
  np_wildcard :: bool
  np_literals :: "string list"
  np_chars :: "nat list"

abbreviation star_rune :: nat where "star_rune \<equiv> 42"
abbreviation any_rune :: nat where "any_rune \<equiv> 63"

definition is_wild_char :: "char \<Rightarrow> bool" where
  "is_wild_char ch = (ch = CHR ''*'' \<or> ch = CHR ''?'')"

text \<open>\<^verbatim>\<open>strings.FieldsFunc\<close> at the wildcards: the non-empty runs between them.\<close>

fun literal_fields :: "string \<Rightarrow> string \<Rightarrow> string list" where
  "literal_fields acc [] = (if acc = [] then [] else [acc])"
| "literal_fields acc (ch # s) =
    (if is_wild_char ch then (if acc = [] then [] else [acc]) @ literal_fields [] s
     else literal_fields (acc @ [ch]) s)"

definition parse_name_pattern :: "string \<Rightarrow> name_pattern" where
  "parse_name_pattern query =
    (let q = ascii_lower query; wild = list_ex is_wild_char query in
     \<lparr>np_query = q, np_wildcard = wild, np_literals = (if wild then literal_fields [] q else []),
      np_chars = (if wild then runes q else [])\<rparr>)"

definition pattern_empty :: "name_pattern \<Rightarrow> bool" where
  "pattern_empty p = (np_query p = [])"

definition lower_byte :: "char \<Rightarrow> char" where
  "lower_byte b = (let n = of_char b :: nat in if 65 \<le> n \<and> n \<le> 90 then char_of (n + 32) else b)"

text \<open>\<^verbatim>\<open>containsASCIIInsensitive\<close> and \<^verbatim>\<open>strings.Contains\<close>, as searches for a starting place.\<close>

fun contains_at :: "(char \<Rightarrow> char) \<Rightarrow> string \<Rightarrow> string \<Rightarrow> bool" where
  "contains_at f name lit \<longleftrightarrow>
    list_ex (\<lambda>start. map f (take (length lit) (drop start name)) = lit)
      (filter (\<lambda>start. start + length lit \<le> length name) [0..<length name + 1])"

declare contains_at.simps [simp del]

definition contains_ascii_insensitive :: "string \<Rightarrow> string \<Rightarrow> bool" where
  "contains_ascii_insensitive name lower = contains_at lower_byte name lower"

definition contains_bytes :: "string \<Rightarrow> string \<Rightarrow> bool" where
  "contains_bytes name lit = contains_at (\<lambda>b. b) name lit"

section \<open>The table\<close>

text \<open>\<open>first_row\<close> is the row before any rune: true for the prefixes of stars.\<close>

fun stars_row :: "nat list \<Rightarrow> bool \<Rightarrow> bool list" where
  "stars_row [] ok = []"
| "stars_row (p # ps) ok = (let v = ok \<and> p = star_rune in v # stars_row ps v)"

definition first_row :: "nat list \<Rightarrow> bool list" where
  "first_row pat = True # stars_row pat True"

text \<open>
  \<open>next_cells r pat prev left\<close> fills \<^verbatim>\<open>curr[j+1..]\<close> from \<open>prev = prev[j..]\<close> and
  \<open>left = curr[j]\<close>.
\<close>

fun next_cells :: "nat \<Rightarrow> nat list \<Rightarrow> bool list \<Rightarrow> bool \<Rightarrow> bool list" where
  "next_cells r (p # ps) (x # y # prev) left =
    (let v = (if p = star_rune then y \<or> left else if p = any_rune \<or> p = r then x else False) in
     v # next_cells r ps (y # prev) v)"
| "next_cells r _ _ left = []"

definition next_row :: "nat list \<Rightarrow> nat \<Rightarrow> bool list \<Rightarrow> bool list" where
  "next_row pat r prev = False # next_cells r pat prev False"

definition pattern_matches :: "name_pattern \<Rightarrow> string \<Rightarrow> bool" where
  "pattern_matches p name =
    (if pattern_empty p then False
     else if \<not> np_wildcard p then contains_bytes name (np_query p)
     else if \<not> list_all (contains_bytes name) (np_literals p) then False
     else fold (next_row (np_chars p)) (runes name) (first_row (np_chars p)) ! length (np_chars p))"

definition matches_raw :: "name_pattern \<Rightarrow> string \<Rightarrow> bool" where
  "matches_raw p name =
    (if pattern_empty p then False
     else if \<not> np_wildcard p then contains_ascii_insensitive name (np_query p)
     else if \<not> list_all (contains_ascii_insensitive name) (np_literals p) then False
     else pattern_matches p (ascii_lower name))"

section \<open>What a pattern means\<close>

text \<open>A name matches when it can be cut into pieces that the pattern's characters describe.\<close>

definition fits :: "nat \<Rightarrow> nat list \<Rightarrow> bool" where
  "fits p w \<longleftrightarrow> (if p = star_rune then True else if p = any_rune then length w = 1 else w = [p])"

definition glob :: "nat list \<Rightarrow> nat list \<Rightarrow> bool" where
  "glob ps s \<longleftrightarrow> (\<exists>ws. s = concat ws \<and> list_all2 fits ps ws)"

lemma glob_Nil [simp]: "glob [] s \<longleftrightarrow> s = []"
  by (auto simp: glob_def)

lemma glob_snoc: "glob (ps @ [p]) s \<longleftrightarrow> (\<exists>t w. s = t @ w \<and> glob ps t \<and> fits p w)"
proof
  assume "glob (ps @ [p]) s"
  then obtain ws where ws: "s = concat ws" "list_all2 fits (ps @ [p]) ws" by (auto simp: glob_def)
  then obtain ws1 w where "ws = ws1 @ [w]" "list_all2 fits ps ws1" "fits p w"
    by (auto simp: list_all2_append1 list_all2_Cons1)
  with ws(1) show "\<exists>t w. s = t @ w \<and> glob ps t \<and> fits p w" by (auto simp: glob_def)
next
  assume "\<exists>t w. s = t @ w \<and> glob ps t \<and> fits p w"
  then obtain ws w where "s = concat ws @ w" "list_all2 fits ps ws" "fits p w" by (auto simp: glob_def)
  then have "s = concat (ws @ [w]) \<and> list_all2 fits (ps @ [p]) (ws @ [w])"
    by (simp add: list_all2_appendI)
  then show "glob (ps @ [p]) s" unfolding glob_def by blast
qed

lemma glob_star: "glob (ps @ [star_rune]) [] \<longleftrightarrow> glob ps []"
    "glob (ps @ [star_rune]) (s @ [r]) \<longleftrightarrow> glob (ps @ [star_rune]) s \<or> glob ps (s @ [r])"
proof -
  show "glob (ps @ [star_rune]) [] \<longleftrightarrow> glob ps []" by (auto simp: glob_snoc fits_def)
  show "glob (ps @ [star_rune]) (s @ [r]) \<longleftrightarrow> glob (ps @ [star_rune]) s \<or> glob ps (s @ [r])"
  proof
    assume "glob (ps @ [star_rune]) (s @ [r])"
    then obtain t w where "s @ [r] = t @ w" "glob ps t" by (auto simp: glob_snoc)
    then show "glob (ps @ [star_rune]) s \<or> glob ps (s @ [r])"
      by (cases w rule: rev_cases) (auto simp: glob_snoc fits_def)
  next
    assume "glob (ps @ [star_rune]) s \<or> glob ps (s @ [r])"
    then show "glob (ps @ [star_rune]) (s @ [r])"
      by (auto simp: glob_snoc fits_def) (metis append_Nil2 append.assoc)+
  qed
qed

lemma glob_char:
  assumes "p \<noteq> star_rune"
  shows "\<not> glob (ps @ [p]) []" "glob (ps @ [p]) (s @ [r]) \<longleftrightarrow> (p = any_rune \<or> p = r) \<and> glob ps s"
proof -
  have one: "fits p w \<longleftrightarrow> (\<exists>q. w = [q] \<and> (p = any_rune \<or> p = q))" for w
    using assms by (cases w) (auto simp: fits_def)
  show "\<not> glob (ps @ [p]) []" by (simp add: glob_snoc one)
  show "glob (ps @ [p]) (s @ [r]) \<longleftrightarrow> (p = any_rune \<or> p = r) \<and> glob ps s"
    by (auto simp: glob_snoc one)
qed

section \<open>The table computes the meaning\<close>

definition glob_row :: "nat list \<Rightarrow> nat list \<Rightarrow> bool list" where
  "glob_row pat s = map (\<lambda>j. glob (take j pat) s) [0..<length pat + 1]"

lemma stars_row_glob: "stars_row ps (glob q []) = map (\<lambda>i. glob (q @ take (Suc i) ps) []) [0..<length ps]"
proof (induction ps arbitrary: q)
  case (Cons p ps)
  have "(glob q [] \<and> p = star_rune) = glob (q @ [p]) []"
    using glob_star(1) [of q] glob_char(1) [of p q] by auto
  with Cons [of "q @ [p]"] show ?case by (simp add: Let_def map_upt_Suc del: upt_Suc)
qed simp

lemma first_row_glob: "first_row pat = glob_row pat []"
  using stars_row_glob [of pat "[]"] by (simp add: first_row_def glob_row_def map_upt_Suc del: upt_Suc)

lemma next_cells_glob:
  "next_cells r ps (map (\<lambda>i. glob (q @ take i ps) s) [0..<length ps + 1]) (glob q (s @ [r])) =
   map (\<lambda>i. glob (q @ take (Suc i) ps) (s @ [r])) [0..<length ps]"
proof (induction ps arbitrary: q)
  case (Cons p ps)
  have v: "(if p = star_rune then glob (q @ [p]) s \<or> glob q (s @ [r])
      else if p = any_rune \<or> p = r then glob q s else False) = glob (q @ [p]) (s @ [r])"
    using glob_star(2) [of q s r] glob_char(2) [of p q s r] by auto
  show ?case
    using Cons [of "q @ [p]"] v by (simp add: Let_def map_upt_Suc del: upt_Suc)
qed simp

lemma next_row_glob: "next_row pat r (glob_row pat s) = glob_row pat (s @ [r])"
  using next_cells_glob [of r pat "[]" s]
  by (simp add: next_row_def glob_row_def map_upt_Suc del: upt_Suc)

lemma fold_rows_glob: "fold (next_row pat) rs (glob_row pat s) = glob_row pat (s @ rs)"
  by (induction rs arbitrary: s) (simp_all add: next_row_glob)

lemma table_glob: "fold (next_row pat) rs (first_row pat) ! length pat = glob pat rs"
  using fold_rows_glob [of pat rs "[]"] by (simp add: first_row_glob glob_row_def del: upt_Suc)

section \<open>The literals only save work\<close>

abbreviation enc :: "nat list \<Rightarrow> string" where
  "enc rs \<equiv> concat (map utf8_encode rs)"

definition is_wild_rune :: "nat \<Rightarrow> bool" where
  "is_wild_rune r \<longleftrightarrow> r = star_rune \<or> r = any_rune"

fun literal_runes :: "nat list \<Rightarrow> nat list \<Rightarrow> nat list list" where
  "literal_runes acc [] = (if acc = [] then [] else [acc])"
| "literal_runes acc (r # s) =
    (if is_wild_rune r then (if acc = [] then [] else [acc]) @ literal_runes [] s
     else literal_runes (acc @ [r]) s)"

lemma literal_runes_part:
  "f \<in> set (literal_runes acc rs) \<Longrightarrow> list_all (\<lambda>r. \<not> is_wild_rune r) acc \<Longrightarrow>
   list_all (\<lambda>r. \<not> is_wild_rune r) f \<and> (\<exists>a b. acc @ rs = a @ f @ b)"
proof (induction acc rs rule: literal_runes.induct)
  case (2 acc r s)
  show ?case
  proof (cases "is_wild_rune r")
    case True
    with "2.prems" consider "f = acc" | "f \<in> set (literal_runes [] s)" by (auto split: if_splits)
    then show ?thesis
    proof cases
      case 1
      with "2.prems"(2) show ?thesis by (auto intro: exI [of _ "[]"])
    next
      case 2
      with "2.IH"(1) [OF True] obtain a b where "list_all (\<lambda>r. \<not> is_wild_rune r) f" "s = a @ f @ b" by auto
      then show ?thesis by (auto intro: exI [of _ "acc @ r # a"])
    qed
  next
    case False
    with "2.IH"(2) "2.prems" show ?thesis by simp
  qed
qed (auto intro: exI [of _ "[]"] split: if_splits)

lemma utf8_nats_high: "scalar_value r \<Longrightarrow> 128 \<le> r \<Longrightarrow> n \<in> set (utf8_nats r) \<Longrightarrow> 128 \<le> n"
  unfolding utf8_nats_def Let_def by (simp split: if_splits) auto

lemma encode_cases:
  assumes "scalar_value r"
  obtains (ascii) "r < 128" "utf8_encode r = [char_of r]" "of_char (char_of r :: char) = r"
    | (high) "128 \<le> r" "\<forall>ch \<in> set (utf8_encode r). 128 \<le> (of_char ch :: nat)"
proof (cases "r < 128")
  case True
  then show ?thesis by (intro ascii) (simp_all add: utf8_encode_ascii of_char_of)
next
  case False
  have "128 \<le> (of_char ch :: nat)" if "ch \<in> set (utf8_encode r)" for ch
  proof -
    from that obtain n where n: "n \<in> set (utf8_nats r)" "ch = char_of n" by (auto simp: utf8_encode_def)
    with False assms utf8_nats_high [of r n] utf8_nats_small [of n r] show ?thesis by (simp add: of_char_of)
  qed
  with False show ?thesis by (intro high) auto
qed

lemma wild_char_code: "is_wild_char ch \<longleftrightarrow> is_wild_rune (of_char ch)"
proof -
  have "of_char CHR ''*'' = (42 :: nat)" "of_char CHR ''?'' = (63 :: nat)" by simp_all
  then show ?thesis unfolding is_wild_char_def is_wild_rune_def by (metis of_char_eq_iff)
qed

lemma literal_fields_skip:
  "\<forall>ch \<in> set w. \<not> is_wild_char ch \<Longrightarrow> literal_fields acc (w @ s) = literal_fields (acc @ w) s"
  by (induction w arbitrary: acc) auto

lemma utf8_encode_nonempty [simp]: "utf8_encode r \<noteq> []"
  by (simp add: utf8_encode_def)

lemma enc_Nil_iff: "enc rs = [] \<longleftrightarrow> rs = []"
  by (cases rs) simp_all

lemma literal_fields_enc:
  "list_all scalar_value rs \<Longrightarrow> literal_fields (enc acc) (enc rs) = map enc (literal_runes acc rs)"
proof (induction acc rs rule: literal_runes.induct)
  case (1 acc)
  then show ?case by (simp add: enc_Nil_iff del: concat_eq_Nil_conv)
next
  case (2 acc r s)
  then have sr: "scalar_value r" "list_all scalar_value s" by simp_all
  from sr(1) show ?case
  proof (cases rule: encode_cases)
    case ascii
    with 2 sr show ?thesis by (auto simp: wild_char_code enc_Nil_iff simp del: concat_eq_Nil_conv)
  next
    case high
    then have w: "\<not> is_wild_rune r" "\<forall>ch \<in> set (utf8_encode r). \<not> is_wild_char ch"
      by (auto simp: wild_char_code is_wild_rune_def)
    with 2 sr show ?thesis by (simp add: literal_fields_skip)
  qed
qed

lemma contains_at_iff: "contains_at f name lit \<longleftrightarrow> (\<exists>u v. map f name = u @ lit @ v)"
proof
  assume "contains_at f name lit"
  then obtain k where k: "k + length lit \<le> length name" "map f (take (length lit) (drop k name)) = lit"
    by (auto simp: contains_at.simps list_ex_iff simp del: upt_Suc)
  have "name = take k name @ take (length lit) (drop k name) @ drop (length lit) (drop k name)"
    by (simp only: append_take_drop_id)
  then have "map f name = map f (take k name) @ map f (take (length lit) (drop k name)) @ map f (drop (length lit) (drop k name))"
    by (metis map_append)
  with k(2) show "\<exists>u v. map f name = u @ lit @ v" by metis
next
  assume "\<exists>u v. map f name = u @ lit @ v"
  then obtain u v where uv: "map f name = u @ lit @ v" by blast
  then have "length name = length u + length lit + length v" by (metis add.assoc length_append length_map)
  moreover have "map f (take (length lit) (drop (length u) name)) = lit"
    using uv by (simp add: take_map drop_map flip: take_map drop_map)
  ultimately show "contains_at f name lit"
    unfolding contains_at.simps list_ex_iff by (intro bexI [of _ "length u"]) (simp_all del: upt_Suc)
qed

lemma glob_contains:
  assumes "glob (a @ f @ b) s" "list_all (\<lambda>r. \<not> is_wild_rune r) f"
  shows "\<exists>u v. s = u @ f @ v"
proof -
  obtain ws where s: "s = concat ws" and "list_all2 fits (a @ f @ b) ws" using assms(1) by (auto simp: glob_def)
  then obtain wa wf wb where ws: "ws = wa @ wf @ wb" "list_all2 fits f wf"
    by (auto simp: list_all2_append1)
  have "concat wf = f"
    using ws(2) assms(2) by (induction f wf rule: list_all2_induct) (auto simp: fits_def is_wild_rune_def)
  with s ws(1) show ?thesis by auto
qed

lemma map_lower_byte_enc:
  "list_all scalar_value rs \<Longrightarrow> map lower_byte (enc rs) = enc (map ascii_lower_rune rs)"
proof (induction rs)
  case (Cons r rs)
  then have "scalar_value r" by simp
  then have "map lower_byte (utf8_encode r) = utf8_encode (ascii_lower_rune r)"
  proof (cases rule: encode_cases)
    case ascii
    then show ?thesis by (auto simp: lower_byte_def ascii_lower_rune_def utf8_encode_ascii Let_def)
  next
    case high
    have "map lower_byte (utf8_encode r) = map (\<lambda>b. b) (utf8_encode r)"
      using high(2) by (intro map_cong refl) (auto simp: lower_byte_def Let_def)
    with high(1) show ?thesis by (simp add: ascii_lower_rune_def)
  qed
  with Cons show ?case by simp
qed simp

text \<open>C19: searching with a wildcard query accepts exactly the names that the query
  describes, letter case aside: each star stands for any run of characters, each question mark for
  one rune whatever its width in bytes, and everything else for itself.  The tests for the literal
  parts that come before the table never change the answer.\<close>

theorem matches_raw_glob:
  assumes "list_ex is_wild_char query" "list_all scalar_value rs"
  shows "matches_raw (parse_name_pattern query) (enc rs) \<longleftrightarrow>
    glob (map ascii_lower_rune (runes query)) (map ascii_lower_rune rs)"
proof -
  define pat name where "pat = map ascii_lower_rune (runes query)" and "name = map ascii_lower_rune rs"
  have sc: "list_all scalar_value pat" "list_all scalar_value name"
    using assms(2) runes_list_scalar [of query] by (simp_all add: pat_def name_def list_all_iff)
  have q: "ascii_lower query = enc pat" by (simp add: ascii_lower_def pat_def comp_def)
  have "query \<noteq> []" using assms(1) by auto
  then have "runes query \<noteq> []" by (simp add: runes_def) (subst rune_list.simps, simp add: nats_of_def)
  then have ne: "enc pat \<noteq> []" unfolding enc_Nil_iff by (simp add: pat_def)
  have r: "runes (enc pat) = pat" "runes (enc rs) = rs"
    using runes_concat_encode sc(1) assms(2) by simp_all
  have low: "ascii_lower (enc rs) = enc name" using r(2) by (simp add: ascii_lower_def name_def comp_def)
  have lits: "\<forall>lit \<in> set (literal_fields [] (enc pat)). contains_ascii_insensitive (enc rs) lit \<and>
      contains_bytes (enc name) lit" if g: "glob pat name"
  proof
    fix lit assume "lit \<in> set (literal_fields [] (enc pat))"
    then obtain f where f: "f \<in> set (literal_runes [] pat)" "lit = enc f"
      using literal_fields_enc [OF sc(1), of "[]"] by auto
    from literal_runes_part [OF f(1)] obtain a b where "list_all (\<lambda>r. \<not> is_wild_rune r) f" "pat = a @ f @ b"
      by auto
    with g glob_contains obtain u v where "name = u @ f @ v" by blast
    then have "enc name = enc u @ lit @ enc v" by (simp add: f(2))
    moreover have "map lower_byte (enc rs) = enc name" using map_lower_byte_enc [OF assms(2)] by (simp add: name_def)
    ultimately show "contains_ascii_insensitive (enc rs) lit \<and> contains_bytes (enc name) lit"
      by (auto simp: contains_ascii_insensitive_def contains_bytes_def contains_at_iff)
  qed
  have "runes (enc name) = name" using runes_concat_encode sc(2) by simp
  with lits show ?thesis
    using assms(1) ne unfolding pat_def [symmetric] name_def [symmetric]
    by (auto simp: matches_raw_def pattern_matches_def parse_name_pattern_def Let_def pattern_empty_def q low
      r table_glob list_all_iff simp del: concat_eq_Nil_conv)
qed

theorem matches_raw_glob_witness:
  "matches_raw (parse_name_pattern ''*.Tm?'') (enc [0xE9, 65, 46, 116, 109, 80]) \<longleftrightarrow>
    glob [42, 46, 116, 109, 63] [0xE9, 97, 46, 116, 109, 112]"
proof -
  have "runes ''*.Tm?'' = [42, 46, 84, 109, 63]" by (simp add: runes_ascii_Cons)
  then show ?thesis
    using matches_raw_glob [of "''*.Tm?''" "[0xE9, 65, 46, 116, 109, 80]"]
    by (simp add: is_wild_char_def scalar_value_def ascii_lower_rune_def)
qed

end
