(* ===== verification/Safety.thy ===== *)
theory Safety
  imports Go_Path
begin

text \<open>
  \<^verbatim>\<open>internal/core/safety.go\<close> and \<^verbatim>\<open>internal/core/whitelist.go\<close>: the comparison form of a path,
  the lexical protection policy and the whitelist.  \<open>ul\<close> stands for \<^verbatim>\<open>unicode.ToLower\<close> on
  runes outside ASCII, whose table is data of the standard library; the record
  \<open>safety_policy\<close> is \<^verbatim>\<open>safetyPolicy\<close> and the whitelist is its list of entries.
  The part of \<^verbatim>\<open>protected\<close> that looks at the disk (managed worktrees) is in \<open>Cleaner_Files\<close>.
\<close>

section \<open>The comparison form\<close>

abbreviation backslash :: char where
  "backslash \<equiv> CHR 0x5C"

text \<open>\<open>win s\<close> writes a constant of the source whose separators are backslashes.\<close>

definition win :: "string \<Rightarrow> string" where
  "win s = map (\<lambda>ch. if ch = slash then backslash else ch) s"

definition to_lower :: "(nat \<Rightarrow> nat) \<Rightarrow> nat \<Rightarrow> nat" where
  "to_lower ul r = (if r < 128 then if 65 \<le> r \<and> r \<le> 90 then r + 32 else r else ul r)"

definition norm_rune :: "(nat \<Rightarrow> nat) \<Rightarrow> nat \<Rightarrow> string" where
  "norm_rune ul r =
    (if r = 47 then [backslash]
     else if r = 0x130 then CHR ''i'' # utf8_encode 0x307
     else utf8_encode (to_lower ul r))"

definition norm_path :: "(nat \<Rightarrow> nat) \<Rightarrow> string \<Rightarrow> string" where
  "norm_path ul s = trim_right backslash (concat (map (norm_rune ul) (runes s)))"

definition at_or_under :: "string \<Rightarrow> string \<Rightarrow> bool" where
  "at_or_under s base \<longleftrightarrow>
     prefix base s \<and> (length s = length base \<or> s ! length base = backslash)"

definition beneath :: "string \<Rightarrow> string list \<Rightarrow> bool" where
  "beneath s bases \<longleftrightarrow> (\<exists>v \<in> set bases. at_or_under s v)"

section \<open>The policy\<close>

definition drive_exact :: "string list" where
  "drive_exact = map win [''/program files'', ''/program files (x86)'', ''/programdata'', ''/users'']"

definition mac_prefixes :: "string list" where
  "mac_prefixes = map win [''/system'', ''/library'', ''/applications'', ''/bin'', ''/sbin'', ''/usr'',
     ''/private/etc'', ''/private/var/db'', ''/private/var/root'', ''/private/var/vm'',
     ''/private/var/protected'']"

definition mac_mounted_roles :: "string list" where
  "mac_mounted_roles = [''recovery'', ''preboot'', ''update'', ''vm'']"

definition home_exact :: "string list" where
  "home_exact = map win ['''', ''/desktop'', ''/documents'', ''/downloads'', ''/pictures'', ''/videos'', ''/music'']"

definition profile_exact :: "string list" where
  "profile_exact = map win [''/appdata'', ''/appdata/local'', ''/appdata/locallow'', ''/appdata/roaming'']"

record safety_policy =
  goos :: string
  windows :: string
  home :: string
  process_home :: string
  public :: string
  known :: "string list"

definition new_safety_policy ::
  "(nat \<Rightarrow> nat) \<Rightarrow> string \<Rightarrow> string \<Rightarrow> string \<Rightarrow> string \<Rightarrow> string \<Rightarrow> string list \<Rightarrow> safety_policy" where
  "new_safety_policy ul os wnd hm phome pub kn =
    \<lparr>goos = os, windows = norm_path ul wnd, home = norm_path ul hm, process_home = norm_path ul phome,
     public = norm_path ul pub, known = map (norm_path ul) kn\<rparr>"

definition mac_mounted_helper_volume :: "string \<Rightarrow> bool" where
  "mac_mounted_helper_volume n =
    (let p = win ''/volumes/'' in
     prefix p n \<and> (let rest = drop (length p) n in
       rest \<noteq> [] \<and> takeWhile (\<lambda>ch. ch \<noteq> backslash) rest \<in> set mac_mounted_roles))"

definition is_ntfs_meta_name :: "string \<Rightarrow> bool" where
  "is_ntfs_meta_name name0 =
    (let name = ascii_lower name0 in
     prefix ''$mft'' name \<or> prefix ''dumpstack.log'' name \<or>
     name \<in> set [''$logfile'', ''$volume'', ''$attrdef'', ''$bitmap'', ''$boot'', ''$badclus'', ''$secure'',
       ''$upcase'', ''$extend'', ''pagefile.sys'', ''hiberfil.sys'', ''swapfile.sys'',
       ''system volume information''])"

definition last_component :: "string \<Rightarrow> string" where
  "last_component n = rev (takeWhile (\<lambda>ch. ch \<noteq> backslash) (rev n))"

definition system_root :: "(nat \<Rightarrow> nat) \<Rightarrow> safety_policy \<Rightarrow> string \<Rightarrow> bool" where
  "system_root ul p path =
    (let n = norm_path ul path in
     length n \<le> 3 \<or> goos p = ''darwin'' \<and> beneath n mac_prefixes \<or> n = windows p \<or>
     2 \<le> length n \<and> drop 2 n \<in> set drive_exact)"

definition profile_protected :: "string \<Rightarrow> bool" where
  "profile_protected n =
    (\<exists>sfx \<in> set profile_exact. suffix sfx n \<and>
      (let root = take (length n - length sfx) n in
       2 \<le> length root \<and> prefix (win ''/users/'') (drop 2 root) \<and>
       (let name = drop 9 root in name \<noteq> [] \<and> backslash \<notin> set name)))"

text \<open>\<^verbatim>\<open>protected\<close> after its worktree check; \<open>contents\<close> as in the source.\<close>

definition policy_protected ::
  "(nat \<Rightarrow> nat) \<Rightarrow> safety_policy \<Rightarrow> (string \<times> string) list \<Rightarrow> string \<Rightarrow> bool \<Rightarrow> bool" where
  "policy_protected ul p wl path contents =
    (let n = norm_path ul path in
     length n \<le> 3 \<or>
     (\<exists>e \<in> set wl. at_or_under n (fst e)) \<or>
     goos p = ''darwin'' \<and> (beneath n mac_prefixes \<or> mac_mounted_helper_volume n \<or>
       home p \<noteq> [] \<and> n \<in> set [home p, home p @ win ''/library'', home p @ win ''/library/application support'']) \<or>
     is_ntfs_meta_name (last_component n) \<or>
     at_or_under n (windows p) \<and> (let rest = drop (length (windows p)) n in
       rest = [] \<or> rest = win ''/temp'' \<and> \<not> contents \<or>
       beneath rest (map win [''/system32'', ''/syswow64'', ''/winsxs'', ''/boot'', ''/fonts'', ''/servicing''])) \<or>
     2 \<le> length n \<and> (drop 2 n \<in> set drive_exact \<or>
       beneath (drop 2 n) (map win [''/system volume information'', ''/$windows.~bt'', ''/recovery''])) \<or>
     (\<exists>h \<in> set [home p, process_home p]. h \<noteq> [] \<and> at_or_under n h \<and> drop (length h) n \<in> set home_exact) \<or>
     public p \<noteq> [] \<and> at_or_under n (public p) \<and>
       (drop (length (public p)) n \<in> set home_exact \<or> n = public p @ win ''/libraries'') \<or>
     n \<in> set (known p) \<or>
     profile_protected n)"

definition elevated_parents :: "string list" where
  "elevated_parents = map win [''/library/application support'', ''/library/application scripts'',
     ''/library/caches'', ''/library/logs'', ''/library/preferences'', ''/library/launchagents'',
     ''/library/launchdaemons'', ''/library/privilegedhelpertools'', ''/private/var/db/receipts'']"

text \<open>\<^verbatim>\<open>elevated\<close>, with \<open>symlink\<close> for what its \<^verbatim>\<open>Lstat\<close> found.\<close>

definition elevated_target :: "(nat \<Rightarrow> nat) \<Rightarrow> safety_policy \<Rightarrow> bool \<Rightarrow> string \<Rightarrow> bool" where
  "elevated_target ul p symlink path =
    (goos p = ''darwin'' \<and> \<not> symlink \<and>
     (let s = trim_right slash path in
      slash \<in> set s \<and>
      (let name = ascii_lower (after_slash s) in
       \<not> (name = ''com.apple'' \<or> prefix ''com.apple.'' name \<or>
          name \<in> set [''systemconfiguration'', ''crashreporter'', ''keychains'', ''security'',
            ''preferencepanes'', ''systemprofiler'', ''logs'', ''caches'', ''managedpreferences'',
            ''systemmigration'', ''apple'']) \<and>
       norm_path ul (take (length s - length (after_slash s) - 1) s) \<in> set elevated_parents)))"

definition under_app_support :: "(nat \<Rightarrow> nat) \<Rightarrow> safety_policy \<Rightarrow> string \<Rightarrow> bool" where
  "under_app_support ul p path =
    (let root = home p @ win ''/library/application support''; n = norm_path ul path in
     goos p = ''darwin'' \<and> home p \<noteq> [] \<and> n \<noteq> root \<and> at_or_under n root)"

section \<open>The whitelist\<close>

type_synonym whitelist = "(string \<times> string) list"

text \<open>\<open>uh\<close> is \<^verbatim>\<open>platform.UserHome()\<close>: the home directory, when the platform knows it.\<close>

definition expand_whitelist_home :: "string option \<Rightarrow> string \<Rightarrow> string option" where
  "expand_whitelist_home uh s =
    (if s = ''~'' \<or> prefix ''~/'' s then
       (case uh of None \<Rightarrow> None
        | Some h \<Rightarrow>
            if s = ''~'' then Some h
            else let rest = drop 2 s in
              if prefix [slash] rest then Some rest
              else Some ((if suffix [slash] h then h else h @ [slash]) @ rest))
     else Some s)"

definition reload_whitelist :: "(nat \<Rightarrow> nat) \<Rightarrow> string option \<Rightarrow> string list \<Rightarrow> whitelist \<times> bool" where
  "reload_whitelist ul uh raw =
    (let xs = map (expand_whitelist_home uh) raw in
     (map (\<lambda>s. (norm_path ul s, s)) (map the (filter (\<lambda>x. x \<noteq> None) xs)), None \<notin> set xs))"

definition whitelist_snapshot :: "whitelist \<Rightarrow> string list" where
  "whitelist_snapshot wl = map snd wl"

definition add_whitelist :: "(nat \<Rightarrow> nat) \<Rightarrow> string option \<Rightarrow> string \<Rightarrow> whitelist \<Rightarrow> (string list option) \<times> whitelist" where
  "add_whitelist ul uh path wl =
    (case expand_whitelist_home uh path of
       None \<Rightarrow> (None, wl)
     | Some s \<Rightarrow> let n = norm_path ul s in
         if n \<in> fst ` set wl then (Some (whitelist_snapshot wl), wl)
         else let wl' = wl @ [(n, s)] in (Some (whitelist_snapshot wl'), wl'))"

definition remove_whitelist :: "(nat \<Rightarrow> nat) \<Rightarrow> string option \<Rightarrow> string \<Rightarrow> whitelist \<Rightarrow> (string list option) \<times> whitelist" where
  "remove_whitelist ul uh path wl =
    (case expand_whitelist_home uh path of
       None \<Rightarrow> (None, wl)
     | Some s \<Rightarrow> let n = norm_path ul s; wl' = filter (\<lambda>e. fst e \<noteq> n) wl in
         (Some (whitelist_snapshot wl'), wl'))"

definition is_whitelisted :: "(nat \<Rightarrow> nat) \<Rightarrow> whitelist \<Rightarrow> string \<Rightarrow> bool" where
  "is_whitelisted ul wl path = (\<exists>e \<in> set wl. at_or_under (norm_path ul path) (fst e))"

definition has_whitelist_entry_under :: "(nat \<Rightarrow> nat) \<Rightarrow> whitelist \<Rightarrow> string \<Rightarrow> bool" where
  "has_whitelist_entry_under ul wl path = (\<exists>e \<in> set wl. at_or_under (fst e) (norm_path ul path))"

section \<open>Comparison is by components\<close>

lemma at_or_under_iff: "at_or_under s b \<longleftrightarrow> (\<exists>t. s = b @ t \<and> (t = [] \<or> hd t = backslash))"
proof
  assume "at_or_under s b"
  then obtain t where "s = b @ t" "length s = length b \<or> s ! length b = backslash"
    by (auto simp: at_or_under_def prefix_def)
  then show "\<exists>t. s = b @ t \<and> (t = [] \<or> hd t = backslash)"
    by (cases t) auto
next
  assume "\<exists>t. s = b @ t \<and> (t = [] \<or> hd t = backslash)"
  then obtain t where "s = b @ t" "t = [] \<or> hd t = backslash" by blast
  then show "at_or_under s b" by (cases t) (auto simp: at_or_under_def)
qed

text \<open>A path is at or under another exactly when the components of
  the second are an initial part of the components of the first, so a sibling whose name merely
  extends a name never matches.\<close>

theorem at_or_under_components:
  "at_or_under s b \<longleftrightarrow> prefix (split_on backslash b) (split_on backslash s)"
  unfolding at_or_under_iff prefix_split_on ..

lemma at_or_under_components_iff:
  "at_or_under s b \<longleftrightarrow> prefix (split_on backslash b) (split_on backslash s)"
  unfolding at_or_under_iff prefix_split_on ..

lemma at_or_under_refl [simp]: "at_or_under s s"
  by (simp add: at_or_under_def)

lemma at_or_under_trans: "at_or_under s t \<Longrightarrow> at_or_under t u \<Longrightarrow> at_or_under s u"
  unfolding at_or_under_components_iff by (rule prefix_order.trans)

lemma beneath_under: "beneath s bases \<Longrightarrow> at_or_under t s \<Longrightarrow> beneath t bases"
  by (auto simp: beneath_def intro: at_or_under_trans)

section \<open>What the comparison form is\<close>

text \<open>What the documentation of \<^verbatim>\<open>unicode.ToLower\<close> gives for runes outside ASCII.\<close>

definition lower_table :: "(nat \<Rightarrow> nat) \<Rightarrow> bool" where
  "lower_table ul \<longleftrightarrow>
     (\<forall>r \<ge> 128. scalar_value r \<longrightarrow> scalar_value (ul r) \<and> to_lower ul (ul r) = ul r \<and> ul r \<noteq> 47 \<and> ul r \<noteq> 0x130) \<and>
     ul 0x307 = 0x307"

definition norm_runes :: "(nat \<Rightarrow> nat) \<Rightarrow> nat \<Rightarrow> nat list" where
  "norm_runes ul r = (if r = 47 then [92] else if r = 0x130 then [105, 0x307] else [to_lower ul r])"

definition normal_rune :: "(nat \<Rightarrow> nat) \<Rightarrow> nat \<Rightarrow> bool" where
  "normal_rune ul r \<longleftrightarrow> scalar_value r \<and> norm_runes ul r = [r]"

lemma char_of_nat_eq: "char_of n = ch \<longleftrightarrow> n mod 256 = (of_char ch :: nat)"
proof -
  have "n mod 256 = of_char (char_of n :: char)" by (simp add: of_char_of)
  then show ?thesis by (metis of_char_eq_iff)
qed

lemma norm_rune_runes: "norm_rune ul r = concat (map utf8_encode (norm_runes ul r))"
proof -
  have "char_of (105 :: nat) = CHR ''i''" "char_of (92 :: nat) = backslash"
    by (simp_all add: char_of_nat_eq)
  then show ?thesis by (simp add: norm_rune_def norm_runes_def utf8_encode_ascii)
qed

lemma norm_runes_normal:
  assumes "lower_table ul" "scalar_value r" "q \<in> set (norm_runes ul r)"
  shows "normal_rune ul q"
proof -
  have u: "scalar_value (ul r)" "to_lower ul (ul r) = ul r" "ul r \<noteq> 47" "ul r \<noteq> 0x130" if "128 \<le> r"
    using assms(1,2) that by (auto simp: lower_table_def)
  have a: "ul 0x307 = 0x307" using assms(1) by (simp add: lower_table_def)
  show ?thesis
  proof (cases "r < 128")
    case True
    with assms(3) show ?thesis
      by (auto simp: normal_rune_def norm_runes_def to_lower_def scalar_value_def split: if_splits)
  next
    case False
    with u a assms(3) show ?thesis
      by (auto simp: normal_rune_def norm_runes_def to_lower_def scalar_value_def split: if_splits)
  qed
qed

lemma utf8_last_backslash: "scalar_value r \<Longrightarrow> last (utf8_encode r) = backslash \<longleftrightarrow> r = 92"
proof -
  assume r: "scalar_value r"
  have l: "last (utf8_nats r) = (if r < 0x80 then r else 0x80 + r mod 64)"
    unfolding utf8_nats_def Let_def using r by (simp only: if_True split: if_split) simp
  have "last (utf8_encode r) = char_of (last (utf8_nats r))"
    by (simp add: utf8_encode_def last_map)
  moreover have "0x80 + r mod 64 < 192" by (simp add: add.commute)
  moreover have "(m :: nat) mod 256 = 92 \<longleftrightarrow> m = 92" if "m < 192" for m using that by simp
  ultimately show ?thesis by (simp add: char_of_nat_eq l)
qed

lemma utf8_encode_92: "utf8_encode 92 = [backslash]"
  by (auto simp: utf8_encode_ascii char_of_nat_eq)

lemma trim_right_snoc: "trim_right c (s @ [x]) = (if x = c then trim_right c s else s @ [x])"
  by (simp add: trim_right_def)

lemma trim_encoded:
  "list_all scalar_value rs \<Longrightarrow>
   trim_right backslash (concat (map utf8_encode rs)) = concat (map utf8_encode (trim_right 92 rs))"
proof (induction rs rule: rev_induct)
  case (snoc r rs)
  show ?case
  proof (cases "r = 92")
    case True
    with snoc show ?thesis by (simp add: utf8_encode_92 trim_right_snoc)
  next
    case False
    have "utf8_encode r \<noteq> []" by (simp add: utf8_encode_def)
    then have "last (concat (map utf8_encode (rs @ [r]))) = last (utf8_encode r)" by simp
    with False snoc.prems have "last (concat (map utf8_encode (rs @ [r]))) \<noteq> backslash"
      by (simp add: utf8_last_backslash)
    with False show ?thesis by (simp add: trim_right_snoc trim_right_id)
  qed
qed (simp add: trim_right_def)

lemma norm_path_runes:
  assumes "lower_table ul"
  shows "\<exists>rs. norm_path ul s = concat (map utf8_encode rs) \<and> list_all (normal_rune ul) rs \<and>
    (rs = [] \<or> last rs \<noteq> 92)"
proof -
  define qs where "qs = concat (map (norm_runes ul) (runes s))"
  have n: "list_all (normal_rune ul) qs"
    using norm_runes_normal [OF assms] runes_scalar by (auto simp: qs_def list_all_iff)
  then have sc: "list_all scalar_value qs" by (auto simp: list_all_iff normal_rune_def)
  have "concat (map (norm_rune ul) xs) = concat (map utf8_encode (concat (map (norm_runes ul) xs)))" for xs
    by (induction xs) (simp_all add: norm_rune_runes)
  then have "norm_path ul s = concat (map utf8_encode (trim_right 92 qs))"
    by (simp add: norm_path_def qs_def [symmetric] trim_encoded [OF sc])
  moreover have "list_all (normal_rune ul) (trim_right 92 qs)"
    using n by (auto simp: list_all_iff trim_right_def dest: set_dropWhileD)
  moreover have "trim_right 92 qs = [] \<or> last (trim_right 92 qs) \<noteq> 92"
    using trim_right_last [of 92 qs] by blast
  ultimately show ?thesis by blast
qed

lemma norm_path_normal:
  assumes "list_all (normal_rune ul) rs" "rs = [] \<or> last rs \<noteq> 92"
  shows "norm_path ul (concat (map utf8_encode rs)) = concat (map utf8_encode rs)"
proof -
  have sc: "list_all scalar_value rs" using assms(1) by (auto simp: list_all_iff normal_rune_def)
  have "concat (map (norm_rune ul) rs) = concat (map utf8_encode rs)"
    using assms(1) by (induction rs) (auto simp: norm_rune_runes normal_rune_def)
  then show ?thesis
    using assms(2) by (simp add: norm_path_def runes_concat_encode [OF sc] trim_encoded [OF sc] trim_right_id)
qed

text \<open>The comparison form of a comparison form is itself, so entries may be
  compared with paths however often either was normalised.\<close>

theorem norm_path_idem:
  assumes "lower_table ul"
  shows "norm_path ul (norm_path ul s) = norm_path ul s"
  using norm_path_runes [OF assms, of s] norm_path_normal by metis


theorem norm_path_idem_witness:
  "norm_path (\<lambda>r. if r = 0x130 then 105 else r) (norm_path (\<lambda>r. if r = 0x130 then 105 else r) ''/Users/Me/'') =
   norm_path (\<lambda>r. if r = 0x130 then 105 else r) ''/Users/Me/''"
  by (rule norm_path_idem) (auto simp: lower_table_def to_lower_def scalar_value_def)

section \<open>What is protected\<close>

lemma policy_protected_mac:
  "goos p = ''darwin'' \<Longrightarrow> beneath (norm_path ul s) mac_prefixes \<Longrightarrow> policy_protected ul p wl s c"
  by (simp add: policy_protected_def Let_def)

lemma policy_protected_whitelisted: "is_whitelisted ul wl s \<Longrightarrow> policy_protected ul p wl s c"
  by (auto simp: policy_protected_def is_whitelisted_def Let_def)

definition windows_kept :: "string list" where
  "windows_kept = map win [''/system32'', ''/syswow64'', ''/winsxs'', ''/boot'', ''/fonts'', ''/servicing'']"

lemma at_or_under_drop: "at_or_under n w \<Longrightarrow> n = w @ drop (length w) n"
  by (auto simp: at_or_under_iff)

lemma at_or_under_append: "at_or_under (w @ s) (w @ b) \<longleftrightarrow> at_or_under s b"
  by (simp add: at_or_under_iff)

lemma policy_protected_windows:
  assumes "v \<in> set windows_kept" "at_or_under (norm_path ul s) (windows p @ v)"
  shows "policy_protected ul p wl s c"
proof -
  have "v \<noteq> [] \<and> hd v = backslash" using assms(1) by (auto simp: windows_kept_def win_def)
  then have w: "at_or_under (norm_path ul s) (windows p)"
    using assms(2) by (auto simp: at_or_under_iff)
  then have "at_or_under (drop (length (windows p)) (norm_path ul s)) v"
    using assms(2) at_or_under_drop [OF w] at_or_under_append by metis
  with assms(1) have "beneath (drop (length (windows p)) (norm_path ul s)) windows_kept"
    by (auto simp: beneath_def)
  with w show ?thesis by (simp add: policy_protected_def windows_kept_def Let_def)
qed

text \<open>
  The subtrees that the policy closes: on macOS the system prefixes, on Windows the system
  directories of the Windows folder, and everywhere what the user whitelisted.
\<close>

definition closed_subtree :: "(nat \<Rightarrow> nat) \<Rightarrow> safety_policy \<Rightarrow> whitelist \<Rightarrow> string \<Rightarrow> bool" where
  "closed_subtree ul p wl s \<longleftrightarrow>
     goos p = ''darwin'' \<and> beneath (norm_path ul s) mac_prefixes \<or>
     (\<exists>v \<in> set windows_kept. at_or_under (norm_path ul s) (windows p @ v)) \<or>
     is_whitelisted ul wl s"

text \<open>Whatever lies in a closed subtree is protected, at every depth and in
  any spelling that has the same comparison form, for whole-path and for contents deletion.\<close>

theorem protected_subtree:
  assumes "closed_subtree ul p wl root" "at_or_under (norm_path ul s) (norm_path ul root)"
  shows "policy_protected ul p wl s c"
  using assms(1) unfolding closed_subtree_def
proof (elim disjE conjE bexE)
  assume "goos p = ''darwin''" "beneath (norm_path ul root) mac_prefixes"
  then show ?thesis by (intro policy_protected_mac beneath_under [OF _ assms(2)])
next
  fix v assume "v \<in> set windows_kept" "at_or_under (norm_path ul root) (windows p @ v)"
  then show ?thesis by (rule policy_protected_windows [OF _ at_or_under_trans [OF assms(2)]])
next
  assume "is_whitelisted ul wl root"
  then show ?thesis
    using assms(2) by (intro policy_protected_whitelisted) (auto simp: is_whitelisted_def dest: at_or_under_trans [OF assms(2)])
qed

lemma norm_path_ascii:
  "\<forall>ch \<in> set s. of_char ch < (128 :: nat) \<Longrightarrow>
   norm_path ul s = trim_right backslash (map (\<lambda>ch. if ch = slash then backslash else ascii_lower_char ch) s)"
proof -
  assume a: "\<forall>ch \<in> set s. of_char ch < (128 :: nat)"
  then have r: "runes s = map of_char s" by (rule runes_ascii)
  have "norm_rune ul (of_char ch) = [if ch = slash then backslash else ascii_lower_char ch]"
    if "ch \<in> set s" for ch
  proof -
    have lt: "of_char ch < (128 :: nat)" using a that by blast
    have eq: "of_char ch = (47 :: nat) \<longleftrightarrow> ch = slash"
    proof -
      have "of_char slash = (47 :: nat)" by simp
      then show ?thesis by (metis of_char_eq_iff)
    qed
    have "to_lower ul (of_char ch) < 128" using lt by (simp add: to_lower_def)
    with lt eq show ?thesis
      by (auto simp: norm_rune_def utf8_encode_ascii to_lower_def ascii_lower_char_def Let_def)
  qed
  then have "map (norm_rune ul) (runes s) = map (\<lambda>ch. [if ch = slash then backslash else ascii_lower_char ch]) s"
    by (simp add: r)
  then show ?thesis by (simp add: norm_path_def)
qed

theorem protected_subtree_witness:
  "policy_protected (\<lambda>r. r) (new_safety_policy (\<lambda>r. r) ''darwin'' ''C:/Windows'' ''/Users/me'' [] [] [])
     [] ''/System/Library/x'' True"
  by (rule protected_subtree [of _ _ _ "''/system''"])
    (simp_all add: closed_subtree_def new_safety_policy_def norm_path_ascii trim_right_def ascii_lower_char_def
      mac_prefixes_def beneath_def win_def at_or_under_def char_of_def bit_0)


section \<open>What whitelisting does\<close>

text \<open>Adding a path whitelists exactly what was whitelisted before and the
  subtree of the path with the home directory filled in; adding it again changes nothing.\<close>

theorem whitelist_add_iff:
  assumes "expand_whitelist_home uh path = Some s" "add_whitelist ul uh path wl = (shown, wl')"
  shows "is_whitelisted ul wl' q = (is_whitelisted ul wl q \<or> at_or_under (norm_path ul q) (norm_path ul s))
    \<and> add_whitelist ul uh path wl' = (Some (whitelist_snapshot wl'), wl')"
proof (cases "norm_path ul s \<in> fst ` set wl")
  case True
  then obtain e where "e \<in> set wl" "fst e = norm_path ul s" by auto
  with assms True show ?thesis by (auto simp: add_whitelist_def is_whitelisted_def Let_def)
next
  case False
  with assms show ?thesis by (auto simp: add_whitelist_def is_whitelisted_def Let_def)
qed

theorem whitelist_add_iff_witness:
  "is_whitelisted (\<lambda>r. r) [(norm_path (\<lambda>r. r) ''/home/me/keep'', ''/home/me/keep'')] ''/home/me/keep/x''"
  using whitelist_add_iff [of "Some ''/home/me''" "''~/keep''" "''/home/me/keep''" "\<lambda>r. r" "[]"
      "Some [''/home/me/keep'']" "[(norm_path (\<lambda>r. r) ''/home/me/keep'', ''/home/me/keep'')]" "''/home/me/keep/x''"]
  by (simp add: expand_whitelist_home_def add_whitelist_def whitelist_snapshot_def norm_path_ascii trim_right_def
    at_or_under_def ascii_lower_char_def suffix_def)

lemma whitelist_remove_keeps:
  "expand_whitelist_home uh path = Some s \<Longrightarrow>
   e \<in> set (snd (remove_whitelist ul uh path wl)) \<longleftrightarrow> e \<in> set wl \<and> fst e \<noteq> norm_path ul s"
  by (auto simp: remove_whitelist_def Let_def)

end
