(* ===== verification/Size_Tree.thy ===== *)
theory Size_Tree
  imports Name_Pattern Safety
begin

text \<open>
  The state of \<^verbatim>\<open>SizeTree\<close> (\<^verbatim>\<open>internal/core/disk_tree.go\<close>) and its accessors: slots
  addressed by stable indices, the mapped base with its overrides, and the child lists.  An index
  is a natural number; the source's are \<^verbatim>\<open>uint32\<close>, and every builder of a tree rejects
  more than \<^verbatim>\<open>math.MaxUint32\<close> nodes.
\<close>

section \<open>Slots\<close>

record volume_id =
  vol_label :: string
  vol_mount :: string

record tree_slot =
  ts_parent :: nat
  ts_name :: string
  ts_is_dir :: bool
  ts_size :: u64
  ts_used :: bool
  ts_mtime :: u64
  ts_files :: u64

definition dead_slot :: tree_slot where
  "dead_slot = \<lparr>ts_parent = 0, ts_name = [], ts_is_dir = False, ts_size = 0, ts_used = False,
     ts_mtime = 0, ts_files = 0\<rparr>"

definition root_slot :: "volume_id \<Rightarrow> tree_slot" where
  "root_slot vol = dead_slot\<lparr>ts_name := vol_label vol, ts_is_dir := True, ts_used := True\<rparr>"

definition same_shape :: "tree_slot \<Rightarrow> tree_slot \<Rightarrow> bool" where
  "same_shape s s' \<longleftrightarrow> s\<lparr>ts_size := 0, ts_files := 0\<rparr> = s'\<lparr>ts_size := 0, ts_files := 0\<rparr>"

lemma same_shape_iff: "same_shape s s' \<longleftrightarrow> ts_parent s = ts_parent s' \<and> ts_name s = ts_name s' \<and>
    ts_is_dir s = ts_is_dir s' \<and> ts_used s = ts_used s' \<and> ts_mtime s = ts_mtime s'"
  by (cases s; cases s') (simp add: same_shape_def)

definition slot_add :: "u64 \<Rightarrow> u64 \<Rightarrow> tree_slot \<Rightarrow> tree_slot" where
  "slot_add sz fl s = s\<lparr>ts_size := saturating_add (ts_size s) sz, ts_files := saturating_add (ts_files s) fl\<rparr>"

definition slot_sub :: "u64 \<Rightarrow> u64 \<Rightarrow> tree_slot \<Rightarrow> tree_slot" where
  "slot_sub sz fl s = s\<lparr>ts_size := saturating_sub (ts_size s) sz, ts_files := saturating_sub (ts_files s) fl\<rparr>"

lemma slot_add_simps [simp]:
  "ts_parent (slot_add sz fl s) = ts_parent s" "ts_name (slot_add sz fl s) = ts_name s"
  "ts_is_dir (slot_add sz fl s) = ts_is_dir s" "ts_used (slot_add sz fl s) = ts_used s"
  "ts_mtime (slot_add sz fl s) = ts_mtime s" "ts_size (slot_add sz fl s) = saturating_add (ts_size s) sz"
  "ts_files (slot_add sz fl s) = saturating_add (ts_files s) fl"
  by (simp_all add: slot_add_def)

section \<open>The tree\<close>

text \<open>
  \<open>mapped_base\<close> is what a \<^verbatim>\<open>mappedTreeBase\<close> decodes from its read-only file: its slots, the
  child list and the name offset of each, the file's header, and the files it remembers as cache
  tags.  \<open>st_children\<close> is used by a tree built in memory, \<open>st_child_edits\<close> by
  one with a base.  \<open>st_stamp\<close> is the array behind \<^verbatim>\<open>ancestorStamp\<close> at its full capacity.
\<close>

record mapped_base =
  mb_slots :: "tree_slot list"
  mb_children :: "nat list list"
  mb_name_offs :: "u32 list"
  mb_header :: "byte list"
  mb_tags :: "nat list"

record size_tree =
  st_volume :: volume_id
  st_entries :: "tree_slot list"
  st_children :: "nat list list"
  st_child_edits :: "nat \<rightharpoonup> nat list"
  st_child_names :: "nat \<rightharpoonup> (string \<rightharpoonup> nat)"
  st_blocked :: "string list"
  st_ntfs :: bool
  st_extra :: "nat \<rightharpoonup> nat list"
  st_base :: "mapped_base option"
  st_overrides :: "nat \<rightharpoonup> tree_slot"
  st_stamp :: "u32 list"
  st_gen :: u32

definition base_count :: "size_tree \<Rightarrow> nat" where
  "base_count t = (case st_base t of None \<Rightarrow> 0 | Some b \<Rightarrow> length (mb_slots b))"

definition node_count :: "size_tree \<Rightarrow> nat" where
  "node_count t = base_count t + length (st_entries t)"

text \<open>\<^verbatim>\<open>slot\<close> and \<^verbatim>\<open>setSlot\<close>; an index that is out of range, which the callers exclude,
  reads as an unused slot.\<close>

definition tree_slot_at :: "size_tree \<Rightarrow> nat \<Rightarrow> tree_slot" where
  "tree_slot_at t idx =
    (if idx < base_count t then
       (case st_overrides t idx of
          Some s \<Rightarrow> s
        | None \<Rightarrow> (case st_base t of None \<Rightarrow> dead_slot | Some b \<Rightarrow> mb_slots b ! idx))
     else if idx < node_count t then st_entries t ! (idx - base_count t)
     else dead_slot)"

definition set_slot :: "nat \<Rightarrow> tree_slot \<Rightarrow> size_tree \<Rightarrow> size_tree" where
  "set_slot idx s t =
    (if idx < base_count t then t\<lparr>st_overrides := (st_overrides t)(idx \<mapsto> s)\<rparr>
     else t\<lparr>st_entries := (st_entries t)[idx - base_count t := s]\<rparr>)"

definition tree_valid :: "size_tree \<Rightarrow> nat \<Rightarrow> bool" where
  "tree_valid t idx = (idx < node_count t \<and> ts_used (tree_slot_at t idx))"

definition tree_is_dir :: "size_tree \<Rightarrow> nat \<Rightarrow> bool" where
  "tree_is_dir t idx = (idx < node_count t \<and> ts_used (tree_slot_at t idx) \<and> ts_is_dir (tree_slot_at t idx))"

definition entry_name :: "size_tree \<Rightarrow> nat \<Rightarrow> string" where
  "entry_name t idx = (if \<not> tree_valid t idx then [] else ts_name (tree_slot_at t idx))"

definition name_of :: "size_tree \<Rightarrow> nat \<Rightarrow> string" where
  "name_of t idx = (if idx = 0 then vol_label (st_volume t) else entry_name t idx)"

definition size_of :: "size_tree \<Rightarrow> nat \<Rightarrow> u64" where
  "size_of t idx = (if \<not> tree_valid t idx then 0 else ts_size (tree_slot_at t idx))"

definition file_count_of :: "size_tree \<Rightarrow> nat \<Rightarrow> u64" where
  "file_count_of t idx =
    (if \<not> tree_valid t idx then 0 else if \<not> tree_is_dir t idx then 1 else ts_files (tree_slot_at t idx))"

definition parent_of :: "size_tree \<Rightarrow> nat \<Rightarrow> nat option" where
  "parent_of t idx =
    (if idx = 0 \<or> \<not> tree_valid t idx then None
     else let p = ts_parent (tree_slot_at t idx) in if p \<noteq> idx \<and> tree_valid t p then Some p else None)"

definition child_list :: "size_tree \<Rightarrow> nat \<Rightarrow> nat list" where
  "child_list t parent =
    (case st_base t of
       Some b \<Rightarrow>
         (case st_child_edits t parent of
            Some kids \<Rightarrow> kids
          | None \<Rightarrow> if parent < length (mb_slots b) then mb_children b ! parent else [])
     | None \<Rightarrow> if parent < length (st_children t) then st_children t ! parent else [])"

definition tree_link :: "nat \<Rightarrow> nat \<Rightarrow> size_tree \<Rightarrow> size_tree" where
  "tree_link parent idx t =
    (let t1 = (case st_base t of
         Some b \<Rightarrow> t\<lparr>st_child_edits := (st_child_edits t)(parent \<mapsto> child_list t parent @ [idx])\<rparr>
       | None \<Rightarrow> t\<lparr>st_children := (st_children t)[parent := st_children t ! parent @ [idx]]\<rparr>) in
     case st_child_names t1 parent of
       None \<Rightarrow> t1
     | Some m \<Rightarrow> let key = ascii_lower (ts_name (tree_slot_at t1 idx)) in
         if m key = None then t1\<lparr>st_child_names := (st_child_names t1)(parent \<mapsto> m(key \<mapsto> idx))\<rparr> else t1)"

section \<open>Slots are a store\<close>

text \<open>
  What the tree's algorithms rely on: a slot reads back what was last written to it, writing one
  leaves the others alone and the number of nodes unchanged.
\<close>

locale slot_store =
  fixes get :: "'s \<Rightarrow> nat \<Rightarrow> 'v" and put :: "nat \<Rightarrow> 'v \<Rightarrow> 's \<Rightarrow> 's" and cnt :: "'s \<Rightarrow> nat"
  assumes get_put_same: "i < cnt s \<Longrightarrow> get (put i v s) i = v"
    and get_put_other: "i \<noteq> j \<Longrightarrow> get (put i v s) j = get s j"
    and cnt_put: "cnt (put i v s) = cnt s"
begin

definition update :: "('v \<Rightarrow> 'v) \<Rightarrow> nat \<Rightarrow> 's \<Rightarrow> 's" where
  "update f i s = put i (f (get s i)) s"

lemma get_update: "i < cnt s \<Longrightarrow> get (update f i s) j = (if j = i then f (get s i) else get s j)"
  by (simp add: update_def get_put_same get_put_other)

lemma cnt_fold_update: "cnt (fold (update f) is s) = cnt s"
  by (induction "is" arbitrary: s) (simp_all add: update_def cnt_put)

lemma get_fold_update:
  "distinct is \<Longrightarrow> set is \<subseteq> {..<cnt s} \<Longrightarrow>
   get (fold (update f) is s) j = (if j \<in> set is then f (get s j) else get s j)"
proof (induction "is" arbitrary: s)
  case (Cons i "is")
  then have "cnt (update f i s) = cnt s" by (simp add: update_def cnt_put)
  with Cons show ?case by (auto simp: get_update)
qed simp

lemma fold_update_keeps:
  assumes "\<And>v. P (f v) = P v" "set is \<subseteq> {..<cnt s}"
  shows "P (get (fold (update f) is s) j) = P (get s j)"
  using assms(2)
proof (induction "is" arbitrary: s)
  case (Cons i "is")
  then have "cnt (update f i s) = cnt s" "i < cnt s" by (simp_all add: update_def cnt_put)
  with Cons show ?case by (simp add: get_update assms(1))
qed simp

end

lemma base_count_set [simp]: "base_count (set_slot i s t) = base_count t"
  by (simp add: set_slot_def base_count_def)

lemma node_count_set [simp]: "node_count (set_slot i s t) = node_count t"
  by (simp add: set_slot_def node_count_def base_count_def)

interpretation ts: slot_store tree_slot_at set_slot node_count
proof unfold_locales
  fix i j :: nat and s v t
  show "i < node_count t \<Longrightarrow> tree_slot_at (set_slot i v t) i = v"
    by (auto simp: tree_slot_at_def set_slot_def node_count_def base_count_def split: option.splits)
  show "i \<noteq> j \<Longrightarrow> tree_slot_at (set_slot i v t) j = tree_slot_at t j"
    by (auto simp: tree_slot_at_def set_slot_def node_count_def base_count_def nth_list_update split: option.splits)
  show "node_count (set_slot i v t) = node_count t" by simp
qed

lemma set_slot_fields [simp]:
  "st_volume (set_slot i s t) = st_volume t" "st_children (set_slot i s t) = st_children t"
  "st_child_edits (set_slot i s t) = st_child_edits t" "st_child_names (set_slot i s t) = st_child_names t"
  "st_blocked (set_slot i s t) = st_blocked t" "st_ntfs (set_slot i s t) = st_ntfs t"
  "st_extra (set_slot i s t) = st_extra t" "st_base (set_slot i s t) = st_base t"
  "st_stamp (set_slot i s t) = st_stamp t" "st_gen (set_slot i s t) = st_gen t"
  by (simp_all add: set_slot_def)

lemma child_list_cong:
  "st_base t = st_base t' \<Longrightarrow> st_child_edits t p = st_child_edits t' p \<Longrightarrow> st_children t = st_children t' \<Longrightarrow>
   child_list t p = child_list t' p"
  by (simp add: child_list_def split: option.splits)

lemma child_list_set [simp]: "child_list (set_slot i s t) p = child_list t p"
  by (rule child_list_cong) simp_all

section \<open>Building the child lists\<close>

definition heap_edge :: "tree_slot list \<Rightarrow> nat \<Rightarrow> nat option" where
  "heap_edge es i =
    (let e = es ! i; p = ts_parent e in
     if i = 0 \<or> \<not> ts_used e \<or> p = i \<or> length es \<le> p \<or> \<not> ts_used (es ! p) \<or> \<not> ts_is_dir (es ! p)
     then None else Some p)"

text \<open>The two passes over a tree without a base; the shared backing array only saves allocations.\<close>

definition heap_children :: "tree_slot list \<Rightarrow> nat list list" where
  "heap_children es =
    fold (\<lambda>i ch. case heap_edge es i of None \<Rightarrow> ch | Some p \<Rightarrow> ch[p := ch ! p @ [i]])
      [1..<length es] (replicate (length es) [])"

definition rebuild_child_arrays :: "size_tree \<Rightarrow> size_tree" where
  "rebuild_child_arrays t0 =
    (let t = t0\<lparr>st_child_names := Map.empty\<rparr> in
     case st_base t of
       None \<Rightarrow> t\<lparr>st_children := heap_children (st_entries t)\<rparr>
     | Some b \<Rightarrow>
         fold (\<lambda>i t. let idx = base_count t + i; e = st_entries t ! i in
             if ts_used e \<and> ts_parent e \<noteq> idx \<and> tree_is_dir t (ts_parent e) then tree_link (ts_parent e) idx t else t)
           [0..<length (st_entries t)] (t\<lparr>st_child_edits := Map.empty\<rparr>))"

lemma heap_edge_bounds: "heap_edge es i = Some p \<Longrightarrow> p < length es \<and> p \<noteq> i \<and> i \<noteq> 0 \<and> ts_is_dir (es ! p) \<and> ts_used (es ! p) \<and> ts_used (es ! i)"
  by (auto simp: heap_edge_def Let_def split: if_splits)

lemma heap_children_nth:
  "p < length es \<Longrightarrow> heap_children es ! p = filter (\<lambda>i. heap_edge es i = Some p) [1..<length es]"
proof -
  define step where "step = (\<lambda>i (ch :: nat list list). case heap_edge es i of None \<Rightarrow> ch | Some p \<Rightarrow> ch[p := ch ! p @ [i]])"
  have "length (fold step is ch) = length ch" for "is" ch
    by (induction "is" arbitrary: ch) (simp_all add: step_def split: option.splits)
  then have "fold step is ch ! p = ch ! p @ filter (\<lambda>i. heap_edge es i = Some p) is"
    if "p < length ch" for "is" ch
    using that
  proof (induction "is" arbitrary: ch)
    case (Cons i "is")
    then show ?case by (cases "heap_edge es i") (auto simp: step_def nth_list_update)
  qed simp
  then show "p < length es \<Longrightarrow> heap_children es ! p = filter (\<lambda>i. heap_edge es i = Some p) [1..<length es]"
    by (simp add: heap_children_def step_def [symmetric])
qed

end
