(* ===== verification/Path_Rel.thy ===== *)
theory Path_Rel
  imports Go_Path
begin

text \<open>
  Clean rooted paths as lists of components, and \<^verbatim>\<open>filepath.Rel\<close> with the
  program's \<^verbatim>\<open>pathWithin\<close> on top of it.
\<close>

section \<open>Rel\<close>

text \<open>
  \<^verbatim>\<open>filepath.Rel\<close> compares the elements of the two cleaned paths; a relative base
  \<^verbatim>\<open>.\<close> has none.
\<close>

definition rel_elems :: "string \<Rightarrow> string list" where
  "rel_elems p = (if p \<noteq> [] \<and> hd p = slash then (if tl p = [] then [] else split_on slash (tl p)) else split_on slash p)"

fun rel_walk :: "string list \<Rightarrow> string list \<Rightarrow> string option" where
  "rel_walk (b # bs) (t # ts) =
    (if b = t then rel_walk bs ts
     else if b = ''..'' then None
     else Some (join_with slash (replicate (length (b # bs)) ''..'' @ t # ts)))"
| "rel_walk bs ts = Some (join_with slash (replicate (length bs) ''..'' @ ts))"

definition path_rel :: "string \<Rightarrow> string \<Rightarrow> string option" where
  "path_rel basepath targpath =
    (let b = path_clean basepath; t = path_clean targpath in
     if t = b then Some ''.''
     else if (hd b = slash) \<noteq> (hd t = slash) then None
     else rel_walk (if b = ''.'' then [] else rel_elems b) (rel_elems t))"

definition path_within :: "string \<Rightarrow> string \<Rightarrow> bool" where
  "path_within path root =
    (case path_rel root path of
       None \<Rightarrow> False
     | Some rel \<Rightarrow> rel \<noteq> ''..'' \<and> \<not> prefix ''../'' rel \<and> \<not> prefix ''/'' rel)"

section \<open>Rooted paths by their components\<close>

definition plain :: "string \<Rightarrow> bool" where
  "plain w \<longleftrightarrow> w \<noteq> [] \<and> w \<noteq> ''.'' \<and> w \<noteq> ''..'' \<and> slash \<notin> set w"

definition rooted :: "string list \<Rightarrow> string" where
  "rooted ws = slash # join_with slash ws"

definition comps :: "string \<Rightarrow> string list" where
  "comps s = fold (clean_step True) (split_on slash s) []"

lemma rooted_hd [simp]: "hd (rooted ws) = slash" "rooted ws \<noteq> []"
  by (simp_all add: rooted_def)

lemma path_clean_comps: "s \<noteq> [] \<Longrightarrow> hd s = slash \<Longrightarrow> path_clean s = rooted (comps s)"
  by (simp add: path_clean_def rooted_def comps_def Let_def)

lemma clean_fold_plain: "list_all plain out \<Longrightarrow> \<forall>w \<in> set ws. slash \<notin> set w \<Longrightarrow>
   list_all plain (fold (clean_step True) ws out)"
proof (induction ws arbitrary: out)
  case (Cons w ws)
  have "list_all plain (clean_step True w out)"
    using Cons.prems by (auto simp: clean_step_def list_all_iff plain_def dest: in_set_butlastD)
  with Cons show ?case by simp
qed simp

lemma comps_plain: "list_all plain (comps s)"
  unfolding comps_def by (rule clean_fold_plain) (auto dest: split_on_set)

lemma fold_clean_plain: "list_all plain ws \<Longrightarrow> fold (clean_step r) ws out = out @ ws"
  by (induction ws arbitrary: out) (simp_all add: clean_step_def plain_def)

lemma split_join_plain: "list_all plain ws \<Longrightarrow> ws \<noteq> [] \<Longrightarrow> split_on slash (join_with slash ws) = ws"
  by (rule split_join) (auto simp: list_all_iff plain_def)

lemma comps_rooted: "list_all plain ws \<Longrightarrow> comps (rooted ws) = ws"
  by (cases "ws = []") (simp_all add: comps_def rooted_def clean_step_def split_join_plain fold_clean_plain)

lemma path_clean_rooted: "list_all plain ws \<Longrightarrow> path_clean (rooted ws) = rooted ws"
  by (simp add: path_clean_comps comps_rooted)

lemma path_clean_idem: "s \<noteq> [] \<Longrightarrow> hd s = slash \<Longrightarrow> path_clean (path_clean s) = path_clean s"
  by (simp add: path_clean_comps comps_rooted comps_plain)

lemma rooted_inj: "list_all plain ws \<Longrightarrow> list_all plain vs \<Longrightarrow> rooted ws = rooted vs \<Longrightarrow> ws = vs"
  by (metis comps_rooted)

lemma join_with_append: "ws \<noteq> [] \<Longrightarrow> vs \<noteq> [] \<Longrightarrow> join_with c (ws @ vs) = join_with c ws @ c # join_with c vs"
  by (induction c ws rule: join_with.induct) (simp_all add: join_with_Cons)

lemma rooted_snoc: "rooted (ws @ [w]) = (if ws = [] then slash # w else rooted ws @ slash # w)"
  by (simp add: rooted_def join_with_append)

lemma comps_join:
  assumes "list_all plain ws"
  shows "comps (rooted ws @ slash # s) = fold (clean_step True) (split_on slash s) ws"
proof -
  have "split_on slash (rooted ws @ slash # s) = split_on slash (rooted ws) @ split_on slash s"
    by (simp only: split_on_sep)
  moreover have "fold (clean_step True) (split_on slash (rooted ws)) [] = ws"
    using comps_rooted [OF assms] by (simp only: comps_def)
  ultimately show ?thesis by (simp only: comps_def fold_append comp_apply)
qed

lemma path_join_rooted:
  assumes "list_all plain ws" "s \<noteq> []"
  shows "path_join (rooted ws) s = rooted (fold (clean_step True) (split_on slash s) ws)"
  using assms by (simp add: path_join_def path_clean_comps comps_join)

lemma path_join_plain: "list_all plain ws \<Longrightarrow> plain w \<Longrightarrow> path_join (rooted ws) w = rooted (ws @ [w])"
  by (simp add: path_join_rooted plain_def split_on_no_sep clean_step_def)

lemma path_join_plains:
  "list_all plain ws \<Longrightarrow> list_all plain vs \<Longrightarrow> vs \<noteq> [] \<Longrightarrow> path_join (rooted ws) (join_with slash vs) = rooted (ws @ vs)"
proof -
  assume a: "list_all plain ws" "list_all plain vs" "vs \<noteq> []"
  then have "join_with slash vs \<noteq> []" by (cases vs rule: list.exhaust; cases "tl vs") (auto simp: plain_def join_with_Cons)
  with a show ?thesis by (simp add: path_join_rooted split_join_plain fold_clean_plain)
qed

lemma up_to_slash_snoc: "slash \<notin> set w \<Longrightarrow> up_to_slash (s @ slash # w) = s @ [slash]"
proof -
  assume "slash \<notin> set w"
  then have "dropWhile (\<lambda>ch. ch \<noteq> slash) (rev w @ slash # rev s) = slash # rev s"
    by (subst dropWhile_append2) auto
  then show ?thesis by (simp add: up_to_slash_def)
qed

lemma after_slash_snoc: "slash \<notin> set w \<Longrightarrow> after_slash (s @ slash # w) = w"
proof -
  assume "slash \<notin> set w"
  then have "takeWhile (\<lambda>ch. ch \<noteq> slash) (rev w @ slash # rev s) = rev w"
    by (subst takeWhile_append2) auto
  then show ?thesis by (simp add: after_slash_def)
qed

lemma rooted_last: "\<exists>s. rooted (ws @ [w]) = s @ slash # w \<and> comps (s @ [slash]) = comps (rooted ws)"
proof (cases "ws = []")
  case True
  then show ?thesis by (intro exI [of _ "[]"]) (simp add: rooted_def comps_def clean_step_def)
next
  case False
  have "split_on slash (rooted ws @ [slash]) = split_on slash (rooted ws) @ [[]]" by simp
  then have "comps (rooted ws @ [slash]) = comps (rooted ws)"
    by (simp only: comps_def fold_append comp_apply) (simp add: clean_step_def)
  with False show ?thesis by (intro exI [of _ "rooted ws"]) (simp add: rooted_snoc)
qed

lemma path_dir_rooted:
  assumes "list_all plain (ws @ [w])"
  shows "path_dir (rooted (ws @ [w])) = rooted ws"
proof -
  obtain s where s: "rooted (ws @ [w]) = s @ slash # w" "comps (s @ [slash]) = comps (rooted ws)"
    using rooted_last by blast
  have "s = [] \<or> hd s = slash" using s(1) by (metis rooted_hd(1) hd_append2)
  then have "path_clean (s @ [slash]) = rooted ws" using assms s(2) by (cases s) (simp_all add: path_clean_comps comps_rooted)
  with assms s(1) show ?thesis by (simp add: path_dir_def up_to_slash_snoc plain_def)
qed

lemma path_dir_root: "path_dir (rooted []) = rooted []"
  by (simp add: path_dir_def rooted_def up_to_slash_def path_clean_def clean_step_def)

lemma path_base_rooted:
  assumes "list_all plain (ws @ [w])"
  shows "path_base (rooted (ws @ [w])) = w"
proof -
  obtain s where s: "rooted (ws @ [w]) = s @ slash # w" using rooted_last by blast
  have w: "w \<noteq> []" "slash \<notin> set w" using assms by (simp_all add: plain_def)
  then have "last (s @ slash # w) \<noteq> slash" by (metis last_ConsR last_append last_in_set list.discI)
  then have "trim_right slash (s @ slash # w) = s @ slash # w" by (intro trim_right_id) simp
  with w show ?thesis unfolding s by (simp add: path_base_def after_slash_snoc)
qed

section \<open>Rel on rooted paths\<close>

lemma rel_elems_rooted: "list_all plain ws \<Longrightarrow> rel_elems (rooted ws) = ws"
  by (cases ws) (auto simp: rel_elems_def rooted_def plain_def join_with_Cons_hd split_join_plain neq_Nil_conv
      dest: split_join_plain [of "_ # _"])

lemma rel_walk_same: "rel_walk (bs @ cs) (bs @ ts) = rel_walk cs ts"
  by (induction bs) simp_all

lemma rel_walk_down: "rel_walk [] ts = Some (join_with slash ts)"
  by (cases ts) simp_all

lemma rooted_not_dot: "rooted ws \<noteq> ''.''"
  by (simp add: rooted_def)

lemma path_rel_down:
  "list_all plain ws \<Longrightarrow> list_all plain vs \<Longrightarrow>
   path_rel (rooted ws) (rooted (ws @ vs)) = Some (if vs = [] then ''.'' else join_with slash vs)"
proof -
  assume a: "list_all plain ws" "list_all plain vs"
  then have "rooted (ws @ vs) = rooted ws \<longleftrightarrow> vs = []" using rooted_inj [of "ws @ vs" ws] by auto
  moreover have "rel_walk ws (ws @ vs) = Some (join_with slash vs)" using rel_walk_same [of ws "[]" vs] by (simp add: rel_walk_down)
  ultimately show ?thesis using a
    by (simp add: path_rel_def path_clean_rooted Let_def rel_elems_rooted rooted_not_dot)
qed

lemma rel_walk_up:
  "\<not> prefix bs ts \<Longrightarrow> list_all plain bs \<Longrightarrow> \<exists>r. rel_walk bs ts = Some (join_with slash (''..'' # r))"
proof (induction bs arbitrary: ts)
  case (Cons b bs)
  then show ?case by (cases ts) (auto simp: plain_def split: if_splits)
qed simp

lemma join_dotdot: "join_with slash (''..'' # r) = ''..'' \<or> prefix ''../'' (join_with slash (''..'' # r))"
  by (cases r) auto

text \<open>
  On rooted paths, being within a root is having the root's components as a prefix.
\<close>

theorem path_within_rooted:
  assumes "list_all plain ws" "list_all plain vs"
  shows "path_within (rooted vs) (rooted ws) \<longleftrightarrow> prefix ws vs"
proof (cases "prefix ws vs")
  case True
  then obtain us where us: "vs = ws @ us" by (auto simp: prefix_def)
  with assms have pu: "list_all plain us" by simp
  have "join_with slash us \<noteq> ''..'' \<and> \<not> prefix ''../'' (join_with slash us) \<and> \<not> prefix ''/'' (join_with slash us)" if "us \<noteq> []"
  proof -
    obtain u us' where u: "us = u # us'" using \<open>us \<noteq> []\<close> by (cases us) auto
    have eq: "split_on slash (join_with slash us) = us" using split_join_plain [OF pu \<open>us \<noteq> []\<close>] .
    have "plain u" using pu u by simp
    have False if "prefix (x @ [slash]) (join_with slash us)" "split_on slash x = [x]" "\<not> plain x" for x
    proof -
      obtain y where "join_with slash us = x @ slash # y" using \<open>prefix (x @ [slash]) _\<close> by (auto simp: prefix_def)
      then have "us = [x] @ split_on slash y" using eq that(2) by (simp only: split_on_sep)
      with u \<open>plain u\<close> that(3) show False by simp
    qed
    from this [of "''..''"] this [of "[]"] have "\<not> prefix ''../'' (join_with slash us)" "\<not> prefix ''/'' (join_with slash us)"
      by (auto simp: plain_def)
    moreover have "join_with slash us \<noteq> ''..''"
    proof
      assume "join_with slash us = ''..''"
      then have "us = [''..'']" using eq by simp
      with pu show False by (simp add: plain_def)
    qed
    ultimately show ?thesis by simp
  qed
  then show ?thesis using True assms pu by (auto simp: path_within_def us path_rel_down)
next
  case False
  then have ne: "rooted vs \<noteq> rooted ws" using assms rooted_inj by blast
  obtain r where "rel_walk ws vs = Some (join_with slash (''..'' # r))" using rel_walk_up [OF False assms(1)] by blast
  then have "path_rel (rooted ws) (rooted vs) = Some (join_with slash (''..'' # r))"
    using assms ne by (simp add: path_rel_def path_clean_rooted Let_def rel_elems_rooted rooted_not_dot)
  then show ?thesis using False join_dotdot [of r] by (auto simp: path_within_def)
qed

lemma path_within_clean: "path_within (path_clean p) r = path_within p r" if "p \<noteq> []" "hd p = slash" for p r
  using that by (simp add: path_within_def path_rel_def path_clean_idem)

end
