(* ===== verification/Size_Tree_Edit.thy ===== *)
theory Size_Tree_Edit
  imports Size_Tree Path_Rel
begin

text \<open>
  The operations of \<^verbatim>\<open>SizeTree\<close> that change it: the stamped ancestor walk behind every
  incremental update, lookups through the name cache, removing a subtree, inserting files and
  whole subtrees.
\<close>

section \<open>The ancestor walk\<close>

text \<open>
  \<^verbatim>\<open>ancestorStamp\<close> only grows when its capacity is short of the node count, and is then
  zeroed; a re-slice within the capacity keeps the old stamps.  A generation that wraps to zero
  clears the stamps in use and restarts at one.
\<close>

definition prepare_stamp :: "size_tree \<Rightarrow> size_tree" where
  "prepare_stamp t =
    (let n = node_count t; c = length (st_stamp t) in
     if c < n then t\<lparr>st_stamp := replicate (max n (2 * c)) 0\<rparr> else t)"

definition next_gen :: "size_tree \<Rightarrow> size_tree" where
  "next_gen t =
    (let g = st_gen t + 1; n = node_count t in
     if g = 0 then t\<lparr>st_stamp := replicate n 0 @ drop n (st_stamp t), st_gen := 1\<rparr>
     else t\<lparr>st_gen := g\<rparr>)"

fun anc_loop :: "nat \<Rightarrow> (tree_slot \<Rightarrow> tree_slot) \<Rightarrow> nat \<Rightarrow> size_tree \<Rightarrow> size_tree" where
  "anc_loop 0 f idx t = t"
| "anc_loop (Suc k) f idx t =
    (if \<not> tree_valid t idx \<or> node_count t \<le> idx \<or> st_stamp t ! idx = st_gen t then t
     else
       let s = f (tree_slot_at t idx);
           t' = set_slot idx s (t\<lparr>st_stamp := (st_stamp t)[idx := st_gen t]\<rparr>);
           nxt = ts_parent s in
       if idx = 0 \<or> nxt = idx then t' else anc_loop k f nxt t')"

definition ancestors :: "nat \<Rightarrow> (tree_slot \<Rightarrow> tree_slot) \<Rightarrow> size_tree \<Rightarrow> size_tree" where
  "ancestors idx f t =
    (if node_count t = 0 then t else anc_loop 257 f idx (next_gen (prepare_stamp t)))"

definition note_extra_parent :: "nat \<Rightarrow> nat \<Rightarrow> size_tree \<Rightarrow> size_tree" where
  "note_extra_parent file parent t =
    (if \<not> tree_valid t file \<or> \<not> tree_valid t parent \<or> ts_parent (tree_slot_at t file) = parent \<or>
        ts_is_dir (tree_slot_at t file) then t
     else let known = (case st_extra t file of None \<Rightarrow> [] | Some ps \<Rightarrow> ps) in
       if parent \<in> set known then t
       else t\<lparr>st_extra := (st_extra t)(file \<mapsto> known @ [parent])\<rparr>)"

section \<open>Lookup\<close>

definition child_name_map :: "size_tree \<Rightarrow> nat \<Rightarrow> string \<rightharpoonup> nat" where
  "child_name_map t parent =
    fold (\<lambda>c m. if tree_valid t c
        then (let key = ascii_lower (ts_name (tree_slot_at t c)) in if m key = None then m(key \<mapsto> c) else m)
        else m)
      (child_list t parent) Map.empty"

definition find_child :: "nat \<Rightarrow> string \<Rightarrow> size_tree \<Rightarrow> nat option \<times> size_tree" where
  "find_child parent name t =
    (if \<not> tree_is_dir t parent then (None, t)
     else
       let m = (case st_child_names t parent of Some m \<Rightarrow> m | None \<Rightarrow> child_name_map t parent);
           put = (\<lambda>m. t\<lparr>st_child_names := (st_child_names t)(parent \<mapsto> m)\<rparr>);
           key = ascii_lower name in
       case m key of
         None \<Rightarrow> (None, put m)
       | Some idx \<Rightarrow>
           if tree_valid t idx then (Some idx, put m)
           else
             (case find (\<lambda>c. tree_valid t c \<and> ascii_lower (ts_name (tree_slot_at t c)) = key) (child_list t parent) of
                Some c \<Rightarrow> (Some c, put (m(key \<mapsto> c)))
              | None \<Rightarrow> (None, put (m(key := None)))))"

fun find_steps :: "nat \<Rightarrow> string list \<Rightarrow> size_tree \<Rightarrow> nat list \<times> size_tree" where
  "find_steps cur [] t = ([], t)"
| "find_steps cur (c # cs) t =
    (case find_child cur c t of
       (None, t') \<Rightarrow> ([], t')
     | (Some idx, t') \<Rightarrow> (let (chain, t'') = find_steps idx cs t' in (idx # chain, t'')))"

definition find_path :: "string \<Rightarrow> size_tree \<Rightarrow> nat list \<times> size_tree" where
  "find_path path t =
    (if \<not> path_within path (vol_mount (st_volume t)) \<or> \<not> tree_valid t 0 then ([], t)
     else
       let rel = (case path_rel (vol_mount (st_volume t)) path of None \<Rightarrow> [] | Some rel \<Rightarrow> rel) in
       if rel = ''.'' then ([0], t)
       else let (chain, t') = find_steps 0 (split_on slash rel) t in (0 # chain, t'))"

definition find_node_by_path :: "string \<Rightarrow> size_tree \<Rightarrow> nat option \<times> size_tree" where
  "find_node_by_path path t =
    (if \<not> path_within path (vol_mount (st_volume t)) then (None, t)
     else
       let rel = (case path_rel (vol_mount (st_volume t)) path of None \<Rightarrow> [] | Some rel \<Rightarrow> rel);
           want = 1 + (if rel = ''.'' then 0 else length (split_on slash rel));
           (chain, t') = find_path path t in
       (if length chain \<noteq> want then None else Some (last chain), t'))"

section \<open>Totals of a directory\<close>

definition set_dir_totals :: "nat \<Rightarrow> u64 \<Rightarrow> u64 \<Rightarrow> size_tree \<Rightarrow> size_tree" where
  "set_dir_totals idx sz fl t =
    (if \<not> tree_is_dir t idx then t
     else
       let old_size = size_of t idx; old_files = file_count_of t idx;
           s = (tree_slot_at t idx)\<lparr>ts_size := sz, ts_files := fl\<rparr>;
           t' = set_slot idx s t in
       if idx = 0 then t'
       else ancestors (ts_parent s)
         (\<lambda>e. e\<lparr>ts_size := saturating_add (saturating_sub (ts_size e) old_size) sz,
                ts_files := saturating_add (saturating_sub (ts_files e) old_files) fl\<rparr>) t')"

section \<open>Removing a subtree\<close>

definition used_nodes :: "size_tree \<Rightarrow> nat set" where
  "used_nodes t = {i. tree_valid t i}"

lemma finite_used_nodes [simp]: "finite (used_nodes t)"
  by (rule finite_subset [of _ "{..<node_count t}"]) (auto simp: used_nodes_def tree_valid_def)

definition kill_node :: "nat \<Rightarrow> size_tree \<Rightarrow> size_tree" where
  "kill_node idx t =
    (let t1 = set_slot idx ((tree_slot_at t idx)\<lparr>ts_used := False\<rparr>) t in
     t1\<lparr>st_child_names := (st_child_names t1)(idx := None)\<rparr>)"

lemma node_count_names [simp]: "node_count (t\<lparr>st_child_names := m\<rparr>) = node_count t"
  "base_count (t\<lparr>st_child_names := m\<rparr>) = base_count t"
  "tree_slot_at (t\<lparr>st_child_names := m\<rparr>) = tree_slot_at t"
  by (auto simp: node_count_def base_count_def tree_slot_at_def fun_eq_iff split: option.splits)

lemma child_list_names [simp]: "child_list (t\<lparr>st_child_names := m\<rparr>) p = child_list t p"
  by (rule child_list_cong) simp_all

lemma node_count_kill [simp]: "node_count (kill_node i t) = node_count t" "child_list (kill_node i t) p = child_list t p"
  by (simp_all add: kill_node_def Let_def)

lemma slot_kill: "i < node_count t \<Longrightarrow>
   tree_slot_at (kill_node i t) j = (if j = i then (tree_slot_at t i)\<lparr>ts_used := False\<rparr> else tree_slot_at t j)"
  by (simp add: kill_node_def Let_def ts.get_put_same ts.get_put_other)

lemma valid_kill: "i < node_count t \<Longrightarrow> tree_valid (kill_node i t) j \<longleftrightarrow> j \<noteq> i \<and> tree_valid t j"
  by (simp add: tree_valid_def slot_kill)

function remove_loop :: "nat list \<Rightarrow> size_tree \<Rightarrow> size_tree" where
  "remove_loop [] t = t"
| "remove_loop (cur # stack) t =
    (if \<not> tree_valid t cur then remove_loop stack t
     else remove_loop (rev (child_list t cur) @ stack) (kill_node cur t))"
  by pat_completeness auto
termination
proof (relation "(\<lambda>(stack, t). card (used_nodes t)) <*mlex*> measure (\<lambda>(stack, t). length stack)", goal_cases)
  case 1
  show ?case by (intro wf_mlex) simp
next
  case 2
  then show ?case by (simp add: mlex_prod_def)
next
  case (3 cur stack t)
  then have v: "tree_valid t cur" by simp
  then have "used_nodes (kill_node cur t) = used_nodes t - {cur}"
    by (auto simp: used_nodes_def valid_kill tree_valid_def [of t cur])
  moreover have "card (used_nodes t - {cur}) < card (used_nodes t)"
    by (rule card_Diff1_less) (simp_all add: v used_nodes_def [of t, symmetric] , simp add: used_nodes_def v)
  ultimately show ?case by (simp add: mlex_prod_def)
qed

definition remove_subtree :: "nat \<Rightarrow> u64 \<Rightarrow> u64 \<Rightarrow> size_tree \<Rightarrow> size_tree" where
  "remove_subtree idx sz fl t =
    (if \<not> tree_valid t idx then t
     else
       let parent = ts_parent (tree_slot_at t idx); t' = remove_loop [idx] t in
       if idx \<noteq> 0 then ancestors parent (slot_sub sz fl) t' else t')"

definition remove_subtree_inplace :: "nat \<Rightarrow> size_tree \<Rightarrow> size_tree" where
  "remove_subtree_inplace idx t = remove_subtree idx (size_of t idx) (file_count_of t idx) t"

section \<open>Inserting files and subtrees\<close>

definition append_entry :: "tree_slot \<Rightarrow> size_tree \<Rightarrow> size_tree" where
  "append_entry s t =
    (let t1 = t\<lparr>st_entries := st_entries t @ [s]\<rparr> in
     if st_base t = None then t1\<lparr>st_children := st_children t1 @ [[]]\<rparr> else t1)"

definition upsert_file_with_mtime :: "string \<Rightarrow> u64 \<Rightarrow> u64 \<Rightarrow> size_tree \<Rightarrow> bool \<times> size_tree" where
  "upsert_file_with_mtime path sz mtime t =
    (case find_node_by_path (path_dir path) t of
       (None, t1) \<Rightarrow> (False, t1)
     | (Some parent, t1) \<Rightarrow>
         if \<not> tree_is_dir t1 parent then (False, t1)
         else
           let name = path_base path in
           if name = ''.'' \<or> name = [slash] then (False, t1)
           else
             let (found, t2) = find_node_by_path path t1;
                 insert_new = (\<lambda>t3.
                   let idx = node_count t3;
                       t4 = append_entry \<lparr>ts_parent = parent, ts_name = name, ts_is_dir = False, ts_size = sz,
                              ts_used = True, ts_mtime = mtime, ts_files = 0\<rparr> t3 in
                   (True, ancestors parent (slot_add sz 1) (tree_link parent idx t4))) in
             case found of
               None \<Rightarrow> insert_new t2
             | Some idx \<Rightarrow>
                 if \<not> tree_is_dir t2 idx \<and> entry_name t2 idx = name then
                   let old = size_of t2 idx;
                       t3 = set_slot idx ((tree_slot_at t2 idx)\<lparr>ts_size := sz, ts_mtime := mtime\<rparr>) t2 in
                   (True, ancestors parent
                      (\<lambda>e. e\<lparr>ts_size := saturating_add (saturating_sub (ts_size e) old) sz\<rparr>) t3)
                 else insert_new (remove_subtree_inplace idx t2))"

definition upsert_file :: "string \<Rightarrow> u64 \<Rightarrow> size_tree \<Rightarrow> bool \<times> size_tree" where
  "upsert_file path sz t = upsert_file_with_mtime path sz 0 t"

section \<open>Paths of nodes\<close>

text \<open>
  \<^verbatim>\<open>PathOfWith\<close>: up to 513 parent links, then the names joined from the top.  The cache
  maps nodes to paths found before.
\<close>

definition unsafe_name :: "string \<Rightarrow> bool" where
  "unsafe_name name \<longleftrightarrow> name = [] \<or> name = ''.'' \<or> name = ''..'' \<or> slash \<in> set name \<or> backslash \<in> set name \<or>
     prefix ''/'' name"

fun path_links :: "nat \<Rightarrow> size_tree \<Rightarrow> (nat \<rightharpoonup> string) \<Rightarrow> nat \<Rightarrow> (nat list \<times> string) option" where
  "path_links 0 t cache cur = Some ([], [])"
| "path_links (Suc k) t cache cur =
    (if cur = 0 then Some ([], vol_mount (st_volume t))
     else case cache cur of
       Some p \<Rightarrow> Some ([], p)
     | None \<Rightarrow>
         if \<not> tree_valid t cur then None
         else let nxt = ts_parent (tree_slot_at t cur) in
           if nxt = cur then None
           else map_option (\<lambda>(chain, base). (cur # chain, base)) (path_links k t cache nxt))"

fun path_names :: "size_tree \<Rightarrow> nat list \<Rightarrow> string \<Rightarrow> (nat \<rightharpoonup> string) \<Rightarrow> string \<times> (nat \<rightharpoonup> string)" where
  "path_names t [] base cache = (base, cache)"
| "path_names t (i # is) base cache =
    (let name = ts_name (tree_slot_at t i) in
     if unsafe_name name then ([], cache)
     else let b = path_join base name in path_names t is b (cache(i \<mapsto> b)))"

definition path_of_with :: "size_tree \<Rightarrow> nat \<Rightarrow> (nat \<rightharpoonup> string) \<Rightarrow> string \<times> (nat \<rightharpoonup> string)" where
  "path_of_with t idx cache =
    (if \<not> tree_valid t idx then ([], cache)
     else case path_links 513 t cache idx of
       None \<Rightarrow> ([], cache)
     | Some (chain, base) \<Rightarrow> if base = [] then ([], cache) else path_names t (rev chain) base cache)"

definition path_of :: "size_tree \<Rightarrow> nat \<Rightarrow> string" where
  "path_of t idx = fst (path_of_with t idx Map.empty)"

section \<open>Appending a subtree\<close>

text \<open>
  The indices the used slots of a subtree get when they are appended in slot order.  The guard
  \<^verbatim>\<open>subtree == t\<close> compares pointers and has no counterpart here.
\<close>

definition used_mapping :: "size_tree \<Rightarrow> nat \<Rightarrow> nat \<rightharpoonup> nat" where
  "used_mapping sub base =
    (let used = filter (\<lambda>i. ts_used (tree_slot_at sub i)) [0..<node_count sub] in
     map_of (zip used [base..<base + length used]))"

definition appended_slot :: "size_tree \<Rightarrow> nat \<Rightarrow> nat \<Rightarrow> string \<Rightarrow> nat \<Rightarrow> tree_slot" where
  "appended_slot sub base parent root_name old =
    (let e = tree_slot_at sub old in
     if old = 0 then e\<lparr>ts_name := root_name, ts_parent := parent\<rparr>
     else case used_mapping sub base (ts_parent e) of
       Some p \<Rightarrow> e\<lparr>ts_parent := p\<rparr>
     | None \<Rightarrow> e\<lparr>ts_used := False, ts_parent := parent\<rparr>)"

definition append_subtree_coverage :: "nat \<Rightarrow> string \<Rightarrow> volume_id \<Rightarrow> string list \<Rightarrow> size_tree \<Rightarrow> size_tree" where
  "append_subtree_coverage parent root_name vol gaps t =
    (let new_root = path_join (path_of t parent) root_name;
         moved = concat (map (\<lambda>b. if path_within b (vol_mount vol)
             then [path_join new_root (case path_rel (vol_mount vol) b of None \<Rightarrow> [] | Some r \<Rightarrow> r)] else []) gaps) in
     t\<lparr>st_blocked := st_blocked t @ moved\<rparr>)"

definition link_appended :: "nat \<Rightarrow> size_tree \<Rightarrow> size_tree" where
  "link_appended i t =
    (let e = tree_slot_at t i in
     if ts_used e \<and> tree_is_dir t (ts_parent e) then tree_link (ts_parent e) i t else t)"

definition append_subtree :: "nat \<Rightarrow> size_tree \<Rightarrow> string \<Rightarrow> size_tree \<Rightarrow> size_tree" where
  "append_subtree parent sub root_name t =
    (if \<not> tree_is_dir t parent \<or> \<not> tree_valid sub 0 then t
     else
       let base = node_count t;
           used = filter (\<lambda>i. ts_used (tree_slot_at sub i)) [0..<node_count sub];
           t1 = fold append_entry (map (appended_slot sub base parent root_name) used) t;
           t2 = fold link_appended [base..<node_count t1] t1;
           t3 = ancestors parent (slot_add (size_of sub 0) (file_count_of sub 0)) t2 in
       append_subtree_coverage parent root_name (st_volume sub) (st_blocked sub) t3)"

end
