(* ===== verification/Size_Tree_Chain.thy ===== *)
theory Size_Tree_Chain
  imports Size_Tree_Edit
begin

text \<open>
  The stamped walk refines its specification: with generations that wrap and stamps that are
  reused, \<open>ancestors\<close> applies its function exactly once to each node of the parent chain, up
  to 257 of them, and to nothing else.
\<close>

section \<open>The chain of parents\<close>

fun chain_of :: "nat \<Rightarrow> size_tree \<Rightarrow> nat set \<Rightarrow> nat \<Rightarrow> nat list" where
  "chain_of 0 t seen i = []"
| "chain_of (Suc k) t seen i =
    (if \<not> tree_valid t i \<or> i \<in> seen then []
     else i # (let p = ts_parent (tree_slot_at t i) in
       if i = 0 \<or> p = i then [] else chain_of k t (insert i seen) p))"

definition parent_chain :: "size_tree \<Rightarrow> nat \<Rightarrow> nat list" where
  "parent_chain t i = chain_of 257 t {} i"

lemma chain_of_valid: "j \<in> set (chain_of k t seen i) \<Longrightarrow> tree_valid t j \<and> j \<notin> seen"
  by (induction k t seen i rule: chain_of.induct) (auto simp: Let_def split: if_splits)

lemma distinct_chain_of: "distinct (chain_of k t seen i)"
  by (induction k t seen i rule: chain_of.induct) (auto simp: Let_def dest: chain_of_valid)

definition keeps_links :: "(tree_slot \<Rightarrow> tree_slot) \<Rightarrow> bool" where
  "keeps_links f \<longleftrightarrow> (\<forall>s. ts_parent (f s) = ts_parent s \<and> ts_used (f s) = ts_used s \<and>
     ts_is_dir (f s) = ts_is_dir s \<and> ts_name (f s) = ts_name s)"

lemma keeps_links_simps:
  assumes "keeps_links f"
  shows "ts_parent (f s) = ts_parent s" "ts_used (f s) = ts_used s" "ts_is_dir (f s) = ts_is_dir s" "ts_name (f s) = ts_name s"
  using assms by (simp_all add: keeps_links_def)

lemma keeps_links_add [simp]: "keeps_links (slot_add sz fl)" "keeps_links (slot_sub sz fl)"
  by (simp_all add: keeps_links_def slot_add_def slot_sub_def)

section \<open>Everything but slots and stamps\<close>

definition frame :: "size_tree \<Rightarrow> _" where
  "frame t = (st_volume t, st_children t, st_child_edits t, st_child_names t, st_blocked t, st_ntfs t,
     st_extra t, st_base t, length (st_entries t))"

lemma length_entries_set [simp]: "length (st_entries (set_slot i s t)) = length (st_entries t)"
  by (simp add: set_slot_def)

lemma frame_set [simp]: "frame (set_slot i s t) = frame t"
  by (simp add: frame_def)

lemma frame_stamp [simp]: "frame (t\<lparr>st_stamp := x\<rparr>) = frame t" "frame (t\<lparr>st_gen := g\<rparr>) = frame t"
  by (simp_all add: frame_def)

lemma frame_eqD:
  assumes "frame t = frame t'"
  shows "node_count t = node_count t'" "base_count t = base_count t'" "child_list t p = child_list t' p"
    "st_child_names t = st_child_names t'" "st_extra t = st_extra t'" "st_volume t = st_volume t'"
    "st_blocked t = st_blocked t'" "st_base t = st_base t'" "st_ntfs t = st_ntfs t'"
    "st_children t = st_children t'" "length (st_entries t) = length (st_entries t')"
  using assms child_list_cong [of t t' p] by (simp_all add: frame_def node_count_def base_count_def)

lemma stamp_slots [simp]:
  "tree_slot_at (t\<lparr>st_stamp := x\<rparr>) = tree_slot_at t" "tree_slot_at (t\<lparr>st_gen := g\<rparr>) = tree_slot_at t"
  "node_count (t\<lparr>st_stamp := x\<rparr>) = node_count t" "node_count (t\<lparr>st_gen := g\<rparr>) = node_count t"
  by (auto simp: tree_slot_at_def node_count_def base_count_def fun_eq_iff split: option.splits)

lemma stamp_valid [simp]: "tree_valid (t\<lparr>st_stamp := x\<rparr>) = tree_valid t" "tree_valid (t\<lparr>st_gen := g\<rparr>) = tree_valid t"
  by (simp_all add: tree_valid_def fun_eq_iff)

lemma chain_of_cong:
  assumes "node_count t' = node_count t"
    "\<And>j. ts_used (tree_slot_at t' j) = ts_used (tree_slot_at t j) \<and> ts_parent (tree_slot_at t' j) = ts_parent (tree_slot_at t j)"
  shows "chain_of k t' seen i = chain_of k t seen i"
  by (induction k arbitrary: seen i) (simp_all add: tree_valid_def Let_def assms)

lemma chain_of_seen: "set (chain_of k t seen i) \<inter> seen = {}"
  by (auto dest: chain_of_valid)

section \<open>The stamps\<close>

definition stamps_ok :: "size_tree \<Rightarrow> bool" where
  "stamps_ok t \<longleftrightarrow> (\<forall>i < length (st_stamp t). st_stamp t ! i \<le> st_gen t \<and> (node_count t \<le> i \<longrightarrow> st_stamp t ! i = 0))"

text \<open>The generation has been used for exactly the nodes of \<open>seen\<close>.\<close>

definition stamped :: "size_tree \<Rightarrow> nat set \<Rightarrow> bool" where
  "stamped t seen \<longleftrightarrow> stamps_ok t \<and> node_count t \<le> length (st_stamp t) \<and> st_gen t \<noteq> 0 \<and>
     (\<forall>i < node_count t. st_stamp t ! i = st_gen t \<longleftrightarrow> i \<in> seen)"

lemma stamped_start:
  assumes "stamps_ok t"
  shows "stamped (next_gen (prepare_stamp t)) {}"
proof -
  let ?t = "prepare_stamp t"
  have prep: "stamps_ok ?t" "node_count ?t \<le> length (st_stamp ?t)" "st_gen ?t = st_gen t"
    using assms by (auto simp: prepare_stamp_def stamps_ok_def Let_def nth_append)
  show ?thesis
  proof (cases "st_gen ?t + 1 = 0")
    case True
    then show ?thesis using prep
      by (auto simp: next_gen_def stamped_def stamps_ok_def Let_def nth_append)
  next
    case False
    then have "st_gen ?t < st_gen ?t + 1" using unatSuc [of "st_gen ?t"] by (simp add: word_less_nat_alt add.commute)
    then have lt: "st_stamp ?t ! i < st_gen t + 1" if "i < length (st_stamp ?t)" for i
      using prep that by (auto simp: stamps_ok_def intro: le_less_trans)
    then have "st_stamp ?t ! i \<noteq> st_gen t + 1" if "i < node_count ?t" for i
      using prep(2) that by (metis less_irrefl order_less_le_trans)
    with prep False lt show ?thesis
      by (auto simp: next_gen_def stamped_def stamps_ok_def Let_def intro: less_imp_le)
  qed
qed

lemma frame_start: "frame (next_gen (prepare_stamp t)) = frame t"
  "tree_slot_at (next_gen (prepare_stamp t)) = tree_slot_at t"
  by (simp_all add: next_gen_def prepare_stamp_def Let_def frame_def)

lemma anc_loop_spec:
  assumes "keeps_links f" "stamped t seen"
  shows "(\<forall>j. tree_slot_at (anc_loop k f i t) j =
      (if j \<in> set (chain_of k t seen i) then f (tree_slot_at t j) else tree_slot_at t j)) \<and>
    frame (anc_loop k f i t) = frame t \<and> stamps_ok (anc_loop k f i t)"
  using assms(2)
proof (induction k arbitrary: seen i t)
  case 0
  then show ?case by (simp add: stamped_def)
next
  case (Suc k)
  define t' where "t' = set_slot i (f (tree_slot_at t i)) (t\<lparr>st_stamp := (st_stamp t)[i := st_gen t]\<rparr>)"
  let ?p = "ts_parent (tree_slot_at t i)"
  have cnt: "node_count t' = node_count t" by (simp add: t'_def)
  have fr: "frame t' = frame t" by (simp add: t'_def)
  have step: "anc_loop (Suc k) f i t =
      (if \<not> tree_valid t i \<or> i \<in> seen then t else if i = 0 \<or> ?p = i then t' else anc_loop k f ?p t')"
    using Suc.prems keeps_links_simps [OF assms(1)] by (auto simp: t'_def stamped_def tree_valid_def Let_def)
  show ?case
  proof (cases "\<not> tree_valid t i \<or> i \<in> seen")
    case True
    then show ?thesis using Suc.prems by (simp add: step stamped_def del: anc_loop.simps) 
  next
    case False
    then have st': "stamped t' (insert i seen)"
      using Suc.prems by (auto simp: stamped_def stamps_ok_def t'_def tree_valid_def nth_list_update)
    have slots: "tree_slot_at t' j = (if j = i then f (tree_slot_at t i) else tree_slot_at t j)" for j
      using False by (simp add: t'_def tree_valid_def ts.get_put_same ts.get_put_other)
    have chain: "chain_of k t' (insert i seen) ?p = chain_of k t (insert i seen) ?p"
      using keeps_links_simps [OF assms(1)] by (intro chain_of_cong cnt) (auto simp: slots)
    have out: "i \<notin> set (chain_of k t (insert i seen) ?p)" using chain_of_seen by blast
    show ?thesis
    proof (cases "i = 0 \<or> ?p = i")
      case True
      then show ?thesis using False st' fr by (auto simp: step slots Let_def stamped_def simp del: anc_loop.simps)
    next
      case stop: False
      from Suc.IH [OF st', of ?p] fr out stop False show ?thesis
        by (auto simp: step slots chain Let_def simp del: anc_loop.simps)
    qed
  qed
qed

text \<open>
  C8: whatever stamps earlier walks left behind and even when the 32-bit
  generation counter wraps, the walk applies its function once to each of the first 257 nodes of the
  parent chain (which stops at the root, at a dead node or where it would revisit one) and leaves
  every other slot, the child lists, the name cache and the coverage as they were.
\<close>

theorem ancestors_once:
  assumes "stamps_ok t" "keeps_links f"
  shows "(\<forall>j. tree_slot_at (ancestors i f t) j =
      (if j \<in> set (parent_chain t i) then f (tree_slot_at t j) else tree_slot_at t j)) \<and>
    distinct (parent_chain t i) \<and> frame (ancestors i f t) = frame t \<and> stamps_ok (ancestors i f t)"
proof (cases "node_count t = 0")
  case True
  then have "parent_chain t i = []" by (simp add: parent_chain_def numeral_eq_Suc tree_valid_def)
  with True assms show ?thesis by (simp add: ancestors_def)
next
  case False
  let ?t = "next_gen (prepare_stamp t)"
  have "node_count ?t = node_count t" by (rule frame_eqD [OF frame_start(1)])
  then have "chain_of 257 ?t {} i = parent_chain t i"
    unfolding parent_chain_def by (intro chain_of_cong) (simp_all add: frame_start)
  moreover have "ancestors i f t = anc_loop 257 f i ?t" using False by (simp only: ancestors_def if_False)
  ultimately show ?thesis
    using anc_loop_spec [OF assms(2) stamped_start [OF assms(1)], of 257 i] distinct_chain_of [of 257 t "{}" i]
    by (simp only: frame_start parent_chain_def simp_thms)
qed

end
