(* ===== verification/Size_Tree_Lookup.thy ===== *)
theory Size_Tree_Lookup
  imports Size_Tree_Chain
begin

text \<open>
  The name cache of \<^verbatim>\<open>findChild\<close> is transparent: on a coherent cache a lookup returns
  the first live child with that name, up to ASCII case, and leaves the cache coherent.
  Lookups of whole paths follow.
\<close>

section \<open>Coherence of the name cache\<close>

definition has_key :: "size_tree \<Rightarrow> string \<Rightarrow> nat \<Rightarrow> bool" where
  "has_key t key c \<longleftrightarrow> tree_valid t c \<and> ascii_lower (ts_name (tree_slot_at t c)) = key"

definition first_child :: "size_tree \<Rightarrow> nat \<Rightarrow> string \<Rightarrow> nat option" where
  "first_child t p key = find (has_key t key) (child_list t p)"

definition entry_ok :: "size_tree \<Rightarrow> nat \<Rightarrow> string \<Rightarrow> nat option \<Rightarrow> bool" where
  "entry_ok t p key e =
    (case e of
       None \<Rightarrow> first_child t p key = None
     | Some c \<Rightarrow> c < node_count t \<and> (tree_valid t c \<longrightarrow> first_child t p key = Some c))"

definition names_ok :: "size_tree \<Rightarrow> bool" where
  "names_ok t \<longleftrightarrow> (\<forall>p m. st_child_names t p = Some m \<longrightarrow> (\<forall>key. entry_ok t p key (m key)))"

lemma find_SomeD: "find P xs = Some x \<Longrightarrow> x \<in> set xs \<and> P x"
  by (auto simp: find_Some_iff)

lemma first_child_SomeD: "first_child t p key = Some c \<Longrightarrow> c \<in> set (child_list t p) \<and> has_key t key c"
  by (auto simp: first_child_def dest: find_SomeD)

lemma has_key_valid: "has_key t key c \<Longrightarrow> tree_valid t c \<and> c < node_count t"
  by (simp add: has_key_def tree_valid_def)

lemma child_name_map_key: "child_name_map t p key = first_child t p key"
proof -
  have "fold (\<lambda>c m. if tree_valid t c
        then (let key = ascii_lower (ts_name (tree_slot_at t c)) in if m key = None then m(key \<mapsto> c) else m)
        else m) xs m key = (case m key of Some c \<Rightarrow> Some c | None \<Rightarrow> find (has_key t key) xs)" for xs m
    by (induction xs arbitrary: m) (auto simp: has_key_def Let_def split: option.splits)
  then show ?thesis by (simp add: child_name_map_def first_child_def)
qed

section \<open>Trees that differ in the cache only\<close>

definition same_but_names :: "size_tree \<Rightarrow> size_tree \<Rightarrow> bool" where
  "same_but_names t t' \<longleftrightarrow> (\<exists>m. t' = t\<lparr>st_child_names := m\<rparr>)"

lemma same_but_names_refl [simp]: "same_but_names t t"
  by (auto simp: same_but_names_def intro: exI [of _ "st_child_names t"])

lemma same_but_names_trans: "same_but_names t t' \<Longrightarrow> same_but_names t' t'' \<Longrightarrow> same_but_names t t''"
  by (auto simp: same_but_names_def)

lemma valid_names [simp]: "tree_valid (t\<lparr>st_child_names := m\<rparr>) = tree_valid t"
  "tree_is_dir (t\<lparr>st_child_names := m\<rparr>) = tree_is_dir t"
  by (simp_all add: tree_valid_def tree_is_dir_def fun_eq_iff)

lemma names_simps [simp]: "has_key (t\<lparr>st_child_names := m\<rparr>) = has_key t"
  "first_child (t\<lparr>st_child_names := m\<rparr>) = first_child t"
  "entry_ok (t\<lparr>st_child_names := m\<rparr>) = entry_ok t"
  "chain_of k (t\<lparr>st_child_names := m\<rparr>) s i = chain_of k t s i"
proof -
  show k: "has_key (t\<lparr>st_child_names := m\<rparr>) = has_key t" by (rule ext, rule ext) (simp add: has_key_def)
  show "first_child (t\<lparr>st_child_names := m\<rparr>) = first_child t"
    by (rule ext, rule ext) (simp add: first_child_def k)
  then show "entry_ok (t\<lparr>st_child_names := m\<rparr>) = entry_ok t" by (simp add: entry_ok_def fun_eq_iff cong: option.case_cong)
  show "chain_of k (t\<lparr>st_child_names := m\<rparr>) s i = chain_of k t s i" by (rule chain_of_cong) simp_all
qed

lemma same_but_namesE:
  assumes "same_but_names t t'"
  shows "tree_slot_at t' = tree_slot_at t" "node_count t' = node_count t" "tree_valid t' = tree_valid t"
    "tree_is_dir t' = tree_is_dir t" "child_list t' p = child_list t p" "st_volume t' = st_volume t"
    "first_child t' = first_child t" "st_base t' = st_base t" "st_children t' = st_children t"
    "st_stamp t' = st_stamp t" "st_gen t' = st_gen t" "st_entries t' = st_entries t" "size_of t' = size_of t"
proof -
  obtain m where "t' = t\<lparr>st_child_names := m\<rparr>" using assms by (auto simp: same_but_names_def)
  then show "tree_slot_at t' = tree_slot_at t" "node_count t' = node_count t" "tree_valid t' = tree_valid t"
    "tree_is_dir t' = tree_is_dir t" "child_list t' p = child_list t p" "st_volume t' = st_volume t"
    "first_child t' = first_child t" "st_base t' = st_base t" "st_children t' = st_children t"
    "st_stamp t' = st_stamp t" "st_gen t' = st_gen t" "st_entries t' = st_entries t" "size_of t' = size_of t"
    by (simp_all add: size_of_def fun_eq_iff)
qed

lemma names_ok_put:
  "names_ok t \<Longrightarrow> (\<And>key. entry_ok t p key (m key)) \<Longrightarrow> names_ok (t\<lparr>st_child_names := (st_child_names t)(p \<mapsto> m)\<rparr>)"
  by (auto simp: names_ok_def)

section \<open>One step\<close>

definition find_spec :: "size_tree \<Rightarrow> nat \<Rightarrow> string \<Rightarrow> nat option" where
  "find_spec t p name = (if tree_is_dir t p then first_child t p (ascii_lower name) else None)"

text \<open>
  On a coherent cache, looking a name up in a directory returns the first
  live child of its list whose name agrees up to ASCII case (and nothing when there is none, or the
  parent is not a directory), and changes nothing but the cache, which stays coherent.  In particular
  a cached child that has been removed is replaced by the next one of that name.
\<close>

theorem find_child_first:
  assumes "names_ok t" "find_child p name t = (r, t')"
  shows "r = find_spec t p name \<and> same_but_names t t' \<and> names_ok t'"
proof (cases "tree_is_dir t p")
  case False
  with assms show ?thesis by (simp add: find_child_def find_spec_def)
next
  case True
  define m where "m = (case st_child_names t p of Some m \<Rightarrow> m | None \<Rightarrow> child_name_map t p)"
  let ?key = "ascii_lower name"
  have fresh: "entry_ok t p key (first_child t p key)" for key
    using first_child_SomeD [of t p key] by (auto simp: entry_ok_def dest: has_key_valid split: option.splits)
  have m: "entry_ok t p key (m key)" for key
    using assms(1) fresh by (auto simp: m_def names_ok_def child_name_map_key split: option.splits)
  have upd: "entry_ok t p key ((m(?key := first_child t p ?key)) key)" for key using m fresh by simp
  have keyfun: "(\<lambda>c. tree_valid t c \<and> ascii_lower (ts_name (tree_slot_at t c)) = ?key) = has_key t ?key"
    by (simp add: has_key_def fun_eq_iff)
  have find: "find_child p name t =
      (case m ?key of
         None \<Rightarrow> (None, t\<lparr>st_child_names := (st_child_names t)(p \<mapsto> m)\<rparr>)
       | Some idx \<Rightarrow> if tree_valid t idx then (Some idx, t\<lparr>st_child_names := (st_child_names t)(p \<mapsto> m)\<rparr>)
           else (first_child t p ?key, t\<lparr>st_child_names := (st_child_names t)(p \<mapsto> m(?key := first_child t p ?key))\<rparr>))"
    using True unfolding find_child_def m_def [symmetric] Let_def keyfun first_child_def [symmetric]
    by (auto split: option.splits)
  have same: "same_but_names t (t\<lparr>st_child_names := x\<rparr>)" for x by (auto simp: same_but_names_def)
  have ok1: "names_ok (t\<lparr>st_child_names := (st_child_names t)(p \<mapsto> m)\<rparr>)"
    by (rule names_ok_put [OF assms(1) m])
  have ok2: "names_ok (t\<lparr>st_child_names := (st_child_names t)(p \<mapsto> m(?key := first_child t p ?key))\<rparr>)"
    by (rule names_ok_put [OF assms(1) upd])
  show ?thesis
  proof (cases "m ?key")
    case None
    then show ?thesis using assms(2) m [of ?key] ok1 same True
      by (auto simp: find entry_ok_def find_spec_def)
  next
    case (Some idx)
    then show ?thesis using assms(2) m [of ?key] ok1 ok2 same True
      by (auto simp: find entry_ok_def find_spec_def split: if_splits)
  qed
qed

section \<open>Whole paths\<close>

fun walk :: "size_tree \<Rightarrow> nat \<Rightarrow> string list \<Rightarrow> nat option" where
  "walk t cur [] = Some cur"
| "walk t cur (c # cs) = (case find_spec t cur c of None \<Rightarrow> None | Some i \<Rightarrow> walk t i cs)"

lemma find_spec_cong: "same_but_names t t' \<Longrightarrow> find_spec t' = find_spec t"
  by (simp add: find_spec_def fun_eq_iff same_but_namesE)

lemma walk_cong: "same_but_names t t' \<Longrightarrow> walk t' cur cs = walk t cur cs"
  by (induction cs arbitrary: cur) (simp_all add: find_spec_cong split: option.splits)

lemma walk_append: "walk t cur (cs @ ds) = (case walk t cur cs of None \<Rightarrow> None | Some i \<Rightarrow> walk t i ds)"
  by (induction cs arbitrary: cur) (simp_all split: option.splits)

lemma find_spec_child: "find_spec t p c = Some i \<Longrightarrow> tree_is_dir t p \<and> i \<in> set (child_list t p) \<and> tree_valid t i"
  by (auto simp: find_spec_def has_key_def dest: first_child_SomeD split: if_splits)

lemma walk_valid: "walk t cur cs = Some i \<Longrightarrow> tree_valid t cur \<Longrightarrow> tree_valid t i"
proof (induction cs arbitrary: cur)
  case (Cons c cs)
  then show ?case by (auto split: option.splits dest: find_spec_child)
qed simp

lemma find_steps_walk:
  "names_ok t \<Longrightarrow> find_steps cur cs t = (chain, t') \<Longrightarrow>
   same_but_names t t' \<and> names_ok t' \<and> length chain \<le> length cs \<and>
   walk t cur cs = (if length chain = length cs then Some (last (cur # chain)) else None)"
proof (induction cs arbitrary: cur t t' chain)
  case (Cons c cs)
  obtain r t1 where f: "find_child cur c t = (r, t1)" by fastforce
  note s1 = find_child_first [OF Cons.prems(1) f]
  show ?case
  proof (cases r)
    case None
    with Cons.prems(2) f s1 show ?thesis by auto
  next
    case (Some i)
    obtain ch t2 where g: "find_steps i cs t1 = (ch, t2)" by fastforce
    have s2: "same_but_names t1 t2 \<and> names_ok t2 \<and> length ch \<le> length cs \<and>
        walk t1 i cs = (if length ch = length cs then Some (last (i # ch)) else None)"
      using Cons.IH [OF _ g] s1 by blast
    have "chain = i # ch" "t' = t2" using Cons.prems(2) f g Some by auto
    moreover have "find_spec t cur c = Some i" using s1 Some by simp
    ultimately show ?thesis
      using s1 s2 same_but_names_trans [of t t1 t2] walk_cong [of t t1 i cs] by auto
  qed
qed auto

lemma rel_not_dot: "list_all plain vs \<Longrightarrow> vs \<noteq> [] \<Longrightarrow> join_with slash vs \<noteq> ''.''"
proof
  assume a: "list_all plain vs" "vs \<noteq> []" "join_with slash vs = ''.''"
  then have "vs = [''.'']" using split_join_plain [OF a(1,2)] by simp
  with a(1) show False by (simp add: plain_def)
qed

definition mounted :: "size_tree \<Rightarrow> string list \<Rightarrow> bool" where
  "mounted t ms \<longleftrightarrow> vol_mount (st_volume t) = rooted ms \<and> list_all plain ms"

lemma find_node_by_path_walk:
  assumes "names_ok t" "mounted t ms" "list_all plain vs" "tree_valid t 0"
    and find: "find_node_by_path (rooted (ms @ vs)) t = (r, t')"
  shows "r = walk t 0 vs \<and> same_but_names t t' \<and> names_ok t'"
proof -
  have m: "vol_mount (st_volume t) = rooted ms" "list_all plain ms" using assms(2) by (simp_all add: mounted_def)
  have within: "path_within (rooted (ms @ vs)) (rooted ms)" using m assms(3) by (simp add: path_within_rooted)
  note rel = path_rel_down [OF m(2) assms(3)]
  show ?thesis
  proof (cases "vs = []")
    case True
    then show ?thesis using find within rel assms(1,4) m by (auto simp: find_node_by_path_def find_path_def)
  next
    case False
    obtain chain t1 where st: "find_steps 0 vs t = (chain, t1)" by fastforce
    note s = find_steps_walk [OF assms(1) st]
    have "find_path (rooted (ms @ vs)) t = (0 # chain, t1)"
      using within rel False assms(3,4) m st by (simp add: find_path_def rel_not_dot split_join_plain)
    then have "find_node_by_path (rooted (ms @ vs)) t =
        (if length (0 # chain) \<noteq> 1 + length vs then None else Some (last (0 # chain)), t1)"
      using within rel False assms(3) m by (simp add: find_node_by_path_def rel_not_dot split_join_plain)
    with find s show ?thesis by auto
  qed
qed

end
