(* ===== verification/Size_Tree_Inv.thy ===== *)
theory Size_Tree_Inv
  imports Size_Tree_Lookup
begin

text \<open>
  The aggregate invariant of the incremental edits: every live node hangs below the root
  through live directories and the total of a directory is the sum of its children's.  A change
  below a directory leaves a deficit there, which the ancestor walk settles.
\<close>

section \<open>Edges of the slots\<close>

definition tree_edge :: "size_tree \<Rightarrow> nat \<Rightarrow> nat \<Rightarrow> bool" where
  "tree_edge t i p \<longleftrightarrow> i \<noteq> 0 \<and> p \<noteq> i \<and> tree_valid t i \<and> ts_parent (tree_slot_at t i) = p \<and> tree_is_dir t p"

definition kids :: "size_tree \<Rightarrow> nat \<Rightarrow> nat set" where
  "kids t p = {i. tree_edge t i p}"

lemma kids_finite [simp]: "finite (kids t p)"
  by (rule finite_subset [OF _ finite_used_nodes [of t]]) (auto simp: kids_def tree_edge_def used_nodes_def)

lemma kids_fun: "i \<in> kids t p \<Longrightarrow> i \<in> kids t q \<Longrightarrow> p = q"
  by (auto simp: kids_def tree_edge_def)

text \<open>The two totals of a slot as numbers: bytes, and files (a file counts one).\<close>

definition bytes_of :: "tree_slot \<Rightarrow> nat" where
  "bytes_of s = unat (ts_size s)"

definition files_of :: "tree_slot \<Rightarrow> nat" where
  "files_of s = (if ts_is_dir s then unat (ts_files s) else 1)"

definition deficit :: "(tree_slot \<Rightarrow> nat) \<Rightarrow> size_tree \<Rightarrow> nat \<Rightarrow> int \<Rightarrow> bool" where
  "deficit nv t q d \<longleftrightarrow> (\<forall>p. tree_is_dir t p \<longrightarrow>
     (\<Sum>i \<in> kids t p. int (nv (tree_slot_at t i))) = int (nv (tree_slot_at t p)) + (if p = q then d else 0))"

definition balanced :: "(tree_slot \<Rightarrow> nat) \<Rightarrow> size_tree \<Rightarrow> bool" where
  "balanced nv t \<longleftrightarrow> (\<forall>p. tree_is_dir t p \<longrightarrow> nv (tree_slot_at t p) = (\<Sum>i \<in> kids t p. nv (tree_slot_at t i)))"

lemma balanced_deficit: "balanced nv t \<longleftrightarrow> deficit nv t q 0"
proof -
  have "(\<Sum>i \<in> kids t p. int (nv (tree_slot_at t i))) = int (\<Sum>i \<in> kids t p. nv (tree_slot_at t i))" for p by simp
  then show ?thesis unfolding balanced_def deficit_def by (metis add.right_neutral if_cancel of_nat_eq_iff)
qed

definition tree_wf :: "(nat \<Rightarrow> nat) \<Rightarrow> size_tree \<Rightarrow> bool" where
  "tree_wf r t \<longleftrightarrow> tree_is_dir t 0 \<and>
     (\<forall>i. tree_valid t i \<and> i \<noteq> 0 \<longrightarrow> tree_edge t i (ts_parent (tree_slot_at t i)) \<and> r (ts_parent (tree_slot_at t i)) < r i) \<and>
     (\<forall>i. tree_is_dir t i \<longrightarrow> r i \<le> 256)"

lemma tree_is_dir_valid: "tree_is_dir t i \<Longrightarrow> tree_valid t i \<and> i < node_count t"
  by (simp add: tree_is_dir_def tree_valid_def)

section \<open>The chain from a directory to the root\<close>

fun up_list :: "size_tree \<Rightarrow> nat list \<Rightarrow> bool" where
  "up_list t [] = False"
| "up_list t [i] = (i = 0)"
| "up_list t (i # j # cs) = (tree_edge t i j \<and> up_list t (j # cs))"

lemma chain_up_list:
  assumes wf: "tree_wf r t"
  shows "tree_is_dir t q \<Longrightarrow> r q < k \<Longrightarrow> (\<And>s. s \<in> seen \<Longrightarrow> r q < r s) \<Longrightarrow>
    up_list t (chain_of k t seen q) \<and> hd (chain_of k t seen q) = q \<and> (\<forall>j \<in> set (chain_of k t seen q). tree_is_dir t j)"
proof (induction k arbitrary: q seen)
  case (Suc k)
  have v: "tree_valid t q" "q \<notin> seen" using Suc.prems tree_is_dir_valid by auto
  show ?case
  proof (cases "q = 0")
    case True
    with v Suc.prems(1) show ?thesis by simp
  next
    case False
    let ?p = "ts_parent (tree_slot_at t q)"
    have e: "tree_edge t q ?p" "r ?p < r q" using wf v False by (auto simp: tree_wf_def)
    then have ne: "?p \<noteq> q" and dp: "tree_is_dir t ?p" by (auto simp: tree_edge_def)
    have rs: "r ?p < r s" if "s \<in> insert q seen" for s
    proof (cases "s = q")
      case False
      then have "r q < r s" using Suc.prems(3) that by blast
      with e(2) show ?thesis by simp
    qed (use e in simp)
    have rk: "r ?p < k" using Suc.prems(2) e(2) by simp
    have IH: "up_list t (chain_of k t (insert q seen) ?p) \<and> hd (chain_of k t (insert q seen) ?p) = ?p \<and>
        (\<forall>j \<in> set (chain_of k t (insert q seen) ?p). tree_is_dir t j)"
      using rs by (intro Suc.IH dp rk)
    obtain cs where cs: "chain_of k t (insert q seen) ?p = ?p # cs"
      using IH by (cases "chain_of k t (insert q seen) ?p") auto
    have c: "chain_of (Suc k) t seen q = q # ?p # cs" using v False ne cs by simp
    show ?thesis unfolding c using IH e(1) Suc.prems(1) cs by simp
  qed
qed simp

lemma parent_chain_up:
  assumes "tree_wf r t" "tree_is_dir t q"
  shows "up_list t (parent_chain t q) \<and> hd (parent_chain t q) = q \<and> (\<forall>j \<in> set (parent_chain t q). tree_is_dir t j)"
  unfolding parent_chain_def using assms by (intro chain_up_list [OF assms(1)]) (auto simp: tree_wf_def le_less_trans)

lemma up_list_card:
  "up_list t cs \<Longrightarrow> distinct cs \<Longrightarrow>
   card (kids t p \<inter> set cs) + (if p = hd cs then 1 else 0) = (if p \<in> set cs then 1 else 0)"
proof (induction t cs rule: up_list.induct)
  case (2 t i)
  then have "kids t p \<inter> set [i] = {}" by (auto simp: kids_def tree_edge_def)
  then show ?case using 2 by simp
next
  case (3 t i j cs)
  have IH: "card (kids t p \<inter> set (j # cs)) + (if p = j then 1 else 0) = (if p \<in> set (j # cs) then 1 else 0)"
    using 3 by simp
  have "i \<in> kids t p \<longleftrightarrow> p = j" using 3(2) by (auto simp: kids_def tree_edge_def)
  then have "kids t p \<inter> set (i # j # cs) = (if p = j then insert i (kids t p \<inter> set (j # cs)) else kids t p \<inter> set (j # cs))"
    by auto
  moreover have "i \<notin> kids t p \<inter> set (j # cs)" using 3(3) by simp
  ultimately have "card (kids t p \<inter> set (i # j # cs)) = (if p \<in> set (j # cs) then 1 else 0)"
    using IH by (auto simp: card_insert_if split: if_splits)
  then show ?case using 3(3) by auto
qed simp

section \<open>Settling a deficit\<close>

text \<open>\<open>t'\<close> is \<open>t\<close> with \<open>f\<close> applied to the slots of \<open>cs\<close>.\<close>

definition applied :: "(tree_slot \<Rightarrow> tree_slot) \<Rightarrow> nat set \<Rightarrow> size_tree \<Rightarrow> size_tree \<Rightarrow> bool" where
  "applied f cs t t' \<longleftrightarrow> node_count t' = node_count t \<and>
     (\<forall>j. tree_slot_at t' j = (if j \<in> cs then f (tree_slot_at t j) else tree_slot_at t j))"

lemma applied_links:
  assumes "applied f cs t t'" "keeps_links f"
  shows "tree_valid t' = tree_valid t" "tree_is_dir t' = tree_is_dir t" "tree_edge t' = tree_edge t" "kids t' = kids t"
    "ts_parent (tree_slot_at t' j) = ts_parent (tree_slot_at t j)" "ts_name (tree_slot_at t' j) = ts_name (tree_slot_at t j)"
proof -
  have s: "ts_used (tree_slot_at t' j) = ts_used (tree_slot_at t j)" "ts_is_dir (tree_slot_at t' j) = ts_is_dir (tree_slot_at t j)"
    "ts_parent (tree_slot_at t' j) = ts_parent (tree_slot_at t j)" "ts_name (tree_slot_at t' j) = ts_name (tree_slot_at t j)" for j
    using assms keeps_links_simps [OF assms(2)] by (auto simp: applied_def)
  have cnt: "node_count t' = node_count t" using assms(1) by (simp add: applied_def)
  show v: "tree_valid t' = tree_valid t" and d: "tree_is_dir t' = tree_is_dir t" and "ts_parent (tree_slot_at t' j) = ts_parent (tree_slot_at t j)"
    and "ts_name (tree_slot_at t' j) = ts_name (tree_slot_at t j)"
    by (simp_all add: tree_valid_def tree_is_dir_def cnt s fun_eq_iff)
  from v d show e: "tree_edge t' = tree_edge t" by (simp add: tree_edge_def s fun_eq_iff)
  show "kids t' = kids t" by (simp add: kids_def e fun_eq_iff)
qed

lemma settle:
  assumes "up_list t cs" "distinct cs" "deficit nv t (hd cs) d" "applied f (set cs) t t'" "keeps_links f"
    and val: "\<And>j. j \<in> set cs \<Longrightarrow> int (nv (f (tree_slot_at t j))) = int (nv (tree_slot_at t j)) + d"
  shows "balanced nv t'"
  unfolding balanced_deficit [of nv t' 0] deficit_def
proof (intro allI impI)
  fix p
  assume p: "tree_is_dir t' p"
  note ap = applied_links [OF assms(4,5)]
  have slot: "int (nv (tree_slot_at t' j)) = int (nv (tree_slot_at t j)) + (if j \<in> set cs then d else 0)" for j
    using assms(4) val by (simp add: applied_def)
  have "(\<Sum>i \<in> kids t' p. int (nv (tree_slot_at t' i))) =
      (\<Sum>i \<in> kids t p. int (nv (tree_slot_at t i))) + (\<Sum>i \<in> kids t p. if i \<in> set cs then d else 0)"
    by (simp add: ap slot sum.distrib)
  also have "(\<Sum>i \<in> kids t p. if i \<in> set cs then d else 0) = d * int (card (kids t p \<inter> set cs))"
    by (simp add: sum.If_cases Collect_mem_eq)
  also have "(\<Sum>i \<in> kids t p. int (nv (tree_slot_at t i))) = int (nv (tree_slot_at t p)) + (if p = hd cs then d else 0)"
    using assms(3) p by (simp add: deficit_def ap)
  finally have sum: "(\<Sum>i \<in> kids t' p. int (nv (tree_slot_at t' i))) =
      int (nv (tree_slot_at t p)) + (d * int (card (kids t p \<inter> set cs)) + (if p = hd cs then d else 0))" by simp
  have "d * int (card (kids t p \<inter> set cs)) + (if p = hd cs then d else 0) =
      d * int (card (kids t p \<inter> set cs) + (if p = hd cs then 1 else 0))" by (simp add: distrib_left)
  also have "\<dots> = (if p \<in> set cs then d else 0)" by (simp only: up_list_card [OF assms(1,2)]) simp
  finally have "d * int (card (kids t p \<inter> set cs)) + (if p = hd cs then d else 0) = (if p \<in> set cs then d else 0)" .
  then show "(\<Sum>i \<in> kids t' p. int (nv (tree_slot_at t' i))) = int (nv (tree_slot_at t' p)) + (if p = 0 then 0 else 0)"
    unfolding sum slot [of p] by simp
qed

section \<open>Bounds along the chain\<close>

lemma kid_le: "balanced nv t \<Longrightarrow> tree_edge t i p \<Longrightarrow> nv (tree_slot_at t i) \<le> nv (tree_slot_at t p)"
proof -
  assume a: "balanced nv t" "tree_edge t i p"
  then have "i \<in> kids t p" by (simp add: kids_def)
  then have "nv (tree_slot_at t i) \<le> (\<Sum>j \<in> kids t p. nv (tree_slot_at t j))"
    by (intro member_le_sum) simp_all
  also have "\<dots> = nv (tree_slot_at t p)" using a by (simp add: balanced_def tree_edge_def)
  finally show ?thesis .
qed

lemma up_list_le_root: "balanced nv t \<Longrightarrow> up_list t cs \<Longrightarrow> j \<in> set cs \<Longrightarrow> nv (tree_slot_at t j) \<le> nv (tree_slot_at t 0)"
proof (induction t cs arbitrary: j rule: up_list.induct)
  case (3 t i j' cs)
  have "nv (tree_slot_at t i) \<le> nv (tree_slot_at t j')" using 3 by (intro kid_le) auto
  moreover have "nv (tree_slot_at t j') \<le> nv (tree_slot_at t 0)" using 3 by auto
  ultimately show ?case using 3 by (cases "j = i") (auto intro: order_trans)
qed auto

lemma up_list_ge_hd: "balanced nv t \<Longrightarrow> up_list t cs \<Longrightarrow> j \<in> set cs \<Longrightarrow> nv (tree_slot_at t (hd cs)) \<le> nv (tree_slot_at t j)"
proof (induction t cs arbitrary: j rule: up_list.induct)
  case (3 t i j' cs)
  have "nv (tree_slot_at t i) \<le> nv (tree_slot_at t j')" using 3 by (intro kid_le) auto
  with 3 show ?case by (cases "j = i") (auto intro: order_trans)
qed auto

section \<open>The walk on a well-formed tree\<close>

lemma ancestors_applied:
  assumes "stamps_ok t" "keeps_links f"
  shows "applied f (set (parent_chain t q)) t (ancestors q f t)" "frame (ancestors q f t) = frame t" "stamps_ok (ancestors q f t)"
    "distinct (parent_chain t q)"
  using ancestors_once [OF assms, of q] frame_eqD(1) [of "ancestors q f t" t] by (simp_all add: applied_def)

lemma ancestors_settle:
  assumes "stamps_ok t" "keeps_links f" "tree_wf r t" "tree_is_dir t q" "deficit nv t q d"
    and val: "\<And>j. j \<in> set (parent_chain t q) \<Longrightarrow> int (nv (f (tree_slot_at t j))) = int (nv (tree_slot_at t j)) + d"
  shows "balanced nv (ancestors q f t)"
  using parent_chain_up [OF assms(3,4)] ancestors_applied [OF assms(1,2), of q] assms(5) val
  by (intro settle [where t = t and cs = "parent_chain t q" and f = f and d = d]) (auto simp: assms(2))

end
