(* ===== verification/Size_Tree_Remove.thy ===== *)
theory Size_Tree_Remove
  imports Size_Tree_Inv
begin

text \<open>
  \<^verbatim>\<open>RemoveSubtree\<close> kills exactly the nodes that can be reached from its root through the
  child lists of live nodes, and on a well-formed tree the totals of the others stay exact.
\<close>

section \<open>What the stack reaches\<close>

inductive reachable :: "size_tree \<Rightarrow> nat set \<Rightarrow> nat \<Rightarrow> bool" for t S where
  start: "i \<in> S \<Longrightarrow> tree_valid t i \<Longrightarrow> reachable t S i"
| step: "reachable t S i \<Longrightarrow> c \<in> set (child_list t i) \<Longrightarrow> tree_valid t c \<Longrightarrow> reachable t S c"

inductive_simps reachable_iff: "reachable t S i"

lemma reachable_valid: "reachable t S i \<Longrightarrow> tree_valid t i"
  by (auto elim: reachable.cases)

lemma reachable_mono: "reachable t S i \<Longrightarrow> S \<subseteq> S' \<Longrightarrow> reachable t S' i"
  by (induction rule: reachable.induct) (auto intro: reachable.intros)

lemma reachable_dead: "\<not> tree_valid t cur \<Longrightarrow> reachable t (insert cur S) j \<longleftrightarrow> reachable t S j"
proof
  show "reachable t S j" if "reachable t (insert cur S) j" "\<not> tree_valid t cur"
    using that by (induction rule: reachable.induct) (auto intro: reachable.intros)
qed (auto intro: reachable_mono)

lemma reachable_kill:
  assumes v: "tree_valid t cur"
  shows "reachable t (insert cur S) j \<longleftrightarrow>
    j = cur \<or> reachable (kill_node cur t) (set (child_list t cur) \<union> S) j"
proof
  have valid: "tree_valid (kill_node cur t) j \<longleftrightarrow> j \<noteq> cur \<and> tree_valid t j" for j
    using v by (intro valid_kill) (simp add: tree_valid_def)
  show "j = cur \<or> reachable (kill_node cur t) (set (child_list t cur) \<union> S) j" if "reachable t (insert cur S) j"
    using that
  proof (induction rule: reachable.induct)
    case (start i)
    then show ?case by (cases "i = cur") (auto intro!: reachable.start simp: valid)
  next
    case (step i c)
    show ?case
    proof (cases "c = cur")
      case False
      from step.IH show ?thesis
      proof
        assume "i = cur"
        then show ?thesis using step False by (intro disjI2 reachable.start) (simp_all add: valid)
      next
        assume "reachable (kill_node cur t) (set (child_list t cur) \<union> S) i"
        then have "reachable (kill_node cur t) (set (child_list t cur) \<union> S) c"
          by (rule reachable.step) (use step False in \<open>simp_all add: valid\<close>)
        then show ?thesis ..
      qed
    qed simp
  qed
  show "reachable t (insert cur S) j" if "j = cur \<or> reachable (kill_node cur t) (set (child_list t cur) \<union> S) j"
    using that
  proof
    assume "j = cur"
    then show ?thesis using v by (auto intro: reachable.start)
  next
    assume "reachable (kill_node cur t) (set (child_list t cur) \<union> S) j"
    then show ?thesis
    proof (induction rule: reachable.induct)
      case (start i)
      then show ?case using v valid by (auto intro: reachable.intros)
    next
      case (step i c)
      then show ?case using valid by (auto intro: reachable.step)
    qed
  qed
qed

definition without_names :: "size_tree \<Rightarrow> _" where
  "without_names t = (frame (t\<lparr>st_child_names := Map.empty\<rparr>), st_stamp t, st_gen t)"

lemma frame_no_names: "frame (t\<lparr>st_child_names := m\<rparr>) =
   (st_volume t, st_children t, st_child_edits t, m, st_blocked t, st_ntfs t, st_extra t, st_base t, length (st_entries t))"
  by (simp add: frame_def)

lemma without_names_kill [simp]: "without_names (kill_node i t) = without_names t"
  unfolding without_names_def kill_node_def Let_def frame_no_names by simp

lemma without_namesD:
  assumes "without_names t = without_names t'"
  shows "node_count t = node_count t'" "child_list t p = child_list t' p" "st_volume t = st_volume t'" "st_extra t = st_extra t'"
    "st_base t = st_base t'" "st_children t = st_children t'" "length (st_entries t) = length (st_entries t')"
    "st_stamp t = st_stamp t'" "st_gen t = st_gen t'" "stamps_ok t = stamps_ok t'"
proof -
  note fr = assms [unfolded without_names_def, simplified, THEN conjunct1]
  show n: "node_count t = node_count t'" using frame_eqD(1) [OF fr] by simp
  show "child_list t p = child_list t' p" using frame_eqD(3) [OF fr] by simp
  show "st_volume t = st_volume t'" "st_extra t = st_extra t'"
    "st_base t = st_base t'" "st_children t = st_children t'" "length (st_entries t) = length (st_entries t')"
    using fr by (simp_all add: frame_def)
  show s: "st_stamp t = st_stamp t'" "st_gen t = st_gen t'" using assms by (simp_all add: without_names_def)
  show "stamps_ok t = stamps_ok t'" by (simp add: stamps_ok_def n s)
qed

definition remove_result :: "size_tree \<Rightarrow> (nat \<Rightarrow> bool) \<Rightarrow> size_tree \<Rightarrow> bool" where
  "remove_result t D t' \<longleftrightarrow> without_names t' = without_names t \<and>
     (\<forall>j. tree_slot_at t' j = (if D j then (tree_slot_at t j)\<lparr>ts_used := False\<rparr> else tree_slot_at t j)) \<and>
     (\<forall>p. st_child_names t' p = (if D p then None else st_child_names t p))"

lemma remove_loop_result: "remove_result t (reachable t (set stack)) (remove_loop stack t)"
proof (induction stack t rule: remove_loop.induct)
  case (1 t)
  have "\<not> reachable t {} j" for j
  proof
    assume "reachable t {} j"
    then show False by (induction rule: reachable.induct) auto
  qed
  then show ?case by (simp add: remove_result_def)
next
  case (2 cur stack t)
  show ?case
  proof (cases "tree_valid t cur")
    case False
    then have "reachable t (insert cur S) = reachable t S" for S using reachable_dead by blast
    then show ?thesis using 2(1) False by simp
  next
    case True
    then have n: "cur < node_count t" by (simp add: tree_valid_def)
    have not: "\<not> reachable (kill_node cur t) S cur" for S
      using reachable_valid valid_kill [OF n] by blast
    have IH: "remove_result (kill_node cur t) (reachable (kill_node cur t) (set (child_list t cur) \<union> set stack))
        (remove_loop (rev (child_list t cur) @ stack) (kill_node cur t))"
      using 2(2) True by simp
    have names: "st_child_names (kill_node cur t) = (st_child_names t)(cur := None)"
      by (simp add: kill_node_def Let_def)
    show ?thesis using IH True not
      by (simp add: remove_result_def reachable_kill [OF True] slot_kill [OF n] names)
  qed
qed

section \<open>Links\<close>

definition links_ok :: "size_tree \<Rightarrow> bool" where
  "links_ok t \<longleftrightarrow>
     (\<forall>i p. tree_edge t i p \<longrightarrow> i \<in> set (child_list t p)) \<and>
     (\<forall>p c. c \<in> set (child_list t p) \<longrightarrow> c < node_count t \<and> c \<noteq> 0 \<and> (tree_valid t c \<longrightarrow> ts_parent (tree_slot_at t c) = p)) \<and>
     (st_base t = None \<longrightarrow> length (st_children t) = node_count t)"

lemma first_child_cong:
  "child_list t' p = child_list t p \<Longrightarrow> (\<And>c. c \<in> set (child_list t p) \<Longrightarrow> has_key t' key c = has_key t key c) \<Longrightarrow>
   first_child t' p key = first_child t p key"
  unfolding first_child_def by (auto intro: find_cong)

lemma find_filter_still:
  "find P xs = Some c \<Longrightarrow> (\<And>x. Q x \<Longrightarrow> P x) \<Longrightarrow> Q c \<Longrightarrow> find Q xs = Some c"
  by (induction xs) (auto split: if_splits)

lemma find_none_still: "find P xs = None \<Longrightarrow> (\<And>x. Q x \<Longrightarrow> P x) \<Longrightarrow> find Q xs = None"
  by (auto simp: find_None_iff)

text \<open>On a well-formed tree the reached nodes are the root of the removal and everything below it.\<close>

lemma removed_below:
  assumes "links_ok t" "reachable t {x} j"
  shows "j = x \<or> reachable t {x} (ts_parent (tree_slot_at t j))"
  using assms(2)
proof (cases rule: reachable.cases)
  case (step i)
  then show ?thesis using assms(1) by (auto simp: links_ok_def)
qed auto

lemma removed_closed:
  "links_ok t \<Longrightarrow> reachable t {x} p \<Longrightarrow> tree_edge t i p \<Longrightarrow> reachable t {x} i"
  by (rule reachable.step) (auto simp: links_ok_def tree_edge_def)

definition removal :: "(nat \<Rightarrow> nat) \<Rightarrow> size_tree \<Rightarrow> nat \<Rightarrow> size_tree \<Rightarrow> bool" where
  "removal r t x t' \<longleftrightarrow> links_ok t \<and> tree_wf r t \<and> tree_valid t x \<and> x \<noteq> 0 \<and> remove_result t (reachable t {x}) t'"

lemma removalD:
  assumes "removal r t x t'"
  shows "links_ok t" "tree_wf r t" "tree_valid t x" "x \<noteq> 0" "remove_result t (reachable t {x}) t'"
  using assms by (simp_all add: removal_def)

lemma removal_slot:
  "removal r t x t' \<Longrightarrow>
   tree_slot_at t' j = (if reachable t {x} j then (tree_slot_at t j)\<lparr>ts_used := False\<rparr> else tree_slot_at t j)"
  by (simp add: removal_def remove_result_def)

lemma removal_same:
  assumes "removal r t x t'"
  shows "node_count t' = node_count t" "child_list t' p = child_list t p" "st_base t' = st_base t" "st_children t' = st_children t"
  using assms without_namesD [of t' t] by (auto simp: removal_def remove_result_def)

lemma removal_valid:
  assumes "removal r t x t'"
  shows "tree_valid t' j \<longleftrightarrow> tree_valid t j \<and> \<not> reachable t {x} j"
    "tree_is_dir t' j \<longleftrightarrow> tree_is_dir t j \<and> \<not> reachable t {x} j"
  by (auto simp: tree_valid_def tree_is_dir_def removal_slot [OF assms] removal_same [OF assms])

lemma removal_rank:
  assumes "reachable t {x} j" "removal r t x t'"
  shows "r x \<le> r j \<and> j \<noteq> 0"
  using assms(1)
proof (induction rule: reachable.induct)
  case (start i)
  with removalD(4) [OF assms(2)] show ?case by simp
next
  case (step i c)
  have c: "c \<noteq> 0" "ts_parent (tree_slot_at t c) = i"
    using step removalD(1) [OF assms(2)] by (auto simp: links_ok_def)
  then have "r i < r c" using step removalD(2) [OF assms(2)] by (auto simp: tree_wf_def)
  with step c show ?case by simp
qed

lemma removal_root_edge: "removal r t x t' \<Longrightarrow> tree_edge t x (ts_parent (tree_slot_at t x)) \<and> r (ts_parent (tree_slot_at t x)) < r x"
  by (simp add: removal_def tree_wf_def)

lemma removal_parent_out: "removal r t x t' \<Longrightarrow> \<not> reachable t {x} (ts_parent (tree_slot_at t x))"
proof
  assume R: "removal r t x t'" and "reachable t {x} (ts_parent (tree_slot_at t x))"
  from removal_rank [OF this(2) R] removal_root_edge [OF R] show False by simp
qed

lemma removal_edge:
  assumes R: "removal r t x t'"
  shows "tree_edge t' i p \<longleftrightarrow> tree_edge t i p \<and> \<not> reachable t {x} i"
proof
  assume a: "tree_edge t i p \<and> \<not> reachable t {x} i"
  then have "\<not> reachable t {x} p" using removed_closed [OF removalD(1) [OF R]] by blast
  with a show "tree_edge t' i p" by (simp add: tree_edge_def removal_valid [OF R] removal_slot [OF R])
next
  assume "tree_edge t' i p"
  then show "tree_edge t i p \<and> \<not> reachable t {x} i" by (auto simp: tree_edge_def removal_valid [OF R] removal_slot [OF R])
qed

lemma removal_wf:
  assumes R: "removal r t x t'"
  shows "tree_wf r t'"
proof -
  note wf = removalD(2) [OF R]
  have zero: "tree_is_dir t' 0" using wf removal_rank [OF _ R] by (auto simp: tree_wf_def removal_valid [OF R])
  moreover have "tree_edge t' i (ts_parent (tree_slot_at t' i)) \<and> r (ts_parent (tree_slot_at t' i)) < r i"
    if "tree_valid t' i" "i \<noteq> 0" for i
    using that wf by (auto simp: tree_wf_def removal_edge [OF R] removal_valid [OF R] removal_slot [OF R])
  ultimately show ?thesis using wf by (auto simp: tree_wf_def removal_valid [OF R])
qed

lemma removal_links:
  assumes R: "removal r t x t'"
  shows "links_ok t'"
  using removalD(1) [OF R]
  by (auto simp: links_ok_def removal_edge [OF R] removal_valid [OF R] removal_same [OF R] removal_slot [OF R])

lemma removal_names:
  assumes R: "removal r t x t'" and names: "names_ok t"
  shows "names_ok t'"
proof -
  have key: "has_key t' key c \<Longrightarrow> has_key t key c" for key c
    by (auto simp: has_key_def removal_valid [OF R] removal_slot [OF R])
  have "entry_ok t' p key e" if e: "entry_ok t p key e" for p key e
  proof (cases e)
    case None
    then have "find (has_key t key) (child_list t p) = None" using e by (simp add: entry_ok_def first_child_def)
    then have "find (has_key t' key) (child_list t p) = None" by (rule find_none_still) (rule key)
    then show ?thesis using None by (simp add: entry_ok_def first_child_def removal_same [OF R])
  next
    case (Some c)
    have "first_child t' p key = Some c" if v: "tree_valid t' c"
    proof -
      have f: "first_child t p key = Some c" using e Some v by (simp add: entry_ok_def removal_valid [OF R])
      then have "has_key t key c" using first_child_SomeD by blast
      then have k: "has_key t' key c" using v by (simp add: has_key_def removal_slot [OF R] removal_valid [OF R])
      have "find (has_key t' key) (child_list t p) = Some c"
        using f unfolding first_child_def by (rule find_filter_still) (rule key, assumption, rule k)
      then show ?thesis by (simp add: first_child_def removal_same [OF R])
    qed
    then show ?thesis using e Some by (simp add: entry_ok_def removal_same [OF R])
  qed
  then show ?thesis using names removalD(5) [OF R] by (auto simp: names_ok_def remove_result_def split: if_splits)
qed

lemma removal_deficit:
  assumes R: "removal r t x t'" and bal: "balanced nv t" and nv: "\<And>s. nv (s\<lparr>ts_used := False\<rparr>) = nv s"
  shows "deficit nv t' (ts_parent (tree_slot_at t x)) (- int (nv (tree_slot_at t x)))"
  unfolding deficit_def
proof (intro allI impI)
  fix p
  let ?q = "ts_parent (tree_slot_at t x)"
  assume p: "tree_is_dir t' p"
  then have pd: "tree_is_dir t p" "\<not> reachable t {x} p" by (simp_all add: removal_valid [OF R])
  have xe: "tree_edge t x ?q" using removal_root_edge [OF R] by blast
  have xr: "reachable t {x} x" using removalD(3) [OF R] by (auto intro: reachable.start)
  then have xn: "x \<notin> kids t' p" by (simp add: kids_def removal_edge [OF R])
  have only: "reachable t {x} i \<longleftrightarrow> i = x" if "i \<in> kids t p" for i
    using removed_below [OF removalD(1) [OF R], of x i] that pd xr by (auto simp: kids_def tree_edge_def)
  have kids: "kids t p = (if p = ?q then insert x (kids t' p) else kids t' p)"
  proof -
    have "i \<in> kids t p \<longleftrightarrow> i \<in> kids t' p \<or> i = x \<and> p = ?q" for i
      using only [of i] xe by (auto simp: kids_def removal_edge [OF R]) (auto simp: tree_edge_def)
    then show ?thesis by auto
  qed
  have same: "(\<Sum>i \<in> kids t' p. int (nv (tree_slot_at t' i))) = (\<Sum>i \<in> kids t' p. int (nv (tree_slot_at t i)))"
    by (intro sum.cong) (auto simp: removal_slot [OF R] nv)
  have "(\<Sum>i \<in> kids t p. int (nv (tree_slot_at t i))) = int (nv (tree_slot_at t p))"
    using bal pd by (simp add: balanced_def)
  moreover have "(\<Sum>i \<in> insert x (kids t' p). int (nv (tree_slot_at t i))) =
      int (nv (tree_slot_at t x)) + (\<Sum>i \<in> kids t' p. int (nv (tree_slot_at t i)))"
    using xn by simp
  moreover have "nv (tree_slot_at t' p) = nv (tree_slot_at t p)" using pd by (simp add: removal_slot [OF R])
  ultimately show "(\<Sum>i \<in> kids t' p. int (nv (tree_slot_at t' i))) =
      int (nv (tree_slot_at t' p)) + (if p = ?q then - int (nv (tree_slot_at t x)) else 0)"
    unfolding same using kids by (cases "p = ?q") simp_all
qed

end
