(* ===== verification/Size_Tree_Ops.thy ===== *)
theory Size_Tree_Ops
  imports Size_Tree_Remove
begin

text \<open>
  The incremental edits keep the tree consistent: removing a subtree and inserting or
  updating a file preserve links, name cache, stamps and the exact totals of every directory.
\<close>

section \<open>The invariant\<close>

definition tree_ok :: "(nat \<Rightarrow> nat) \<Rightarrow> size_tree \<Rightarrow> bool" where
  "tree_ok r t \<longleftrightarrow> stamps_ok t \<and> tree_wf r t \<and> links_ok t \<and> names_ok t \<and> balanced bytes_of t \<and> balanced files_of t"

lemma tree_okD:
  assumes "tree_ok r t"
  shows "stamps_ok t" "tree_wf r t" "links_ok t" "names_ok t" "balanced bytes_of t" "balanced files_of t" "tree_is_dir t 0"
  using assms by (simp_all add: tree_ok_def tree_wf_def)

lemma applied_transfer:
  assumes ap: "applied f C t t'" and f: "keeps_links f" and fr: "frame t' = frame t"
  shows "tree_wf r t' = tree_wf r t" "links_ok t' = links_ok t" "names_ok t' = names_ok t"
proof -
  note L = applied_links [OF ap f]
  note F = frame_eqD [OF fr]
  have key: "has_key t' = has_key t" by (intro ext) (simp add: has_key_def L)
  have first: "first_child t' = first_child t" by (intro ext) (simp add: first_child_def key F)
  show "tree_wf r t' = tree_wf r t" by (simp add: tree_wf_def L)
  show "links_ok t' = links_ok t" by (simp add: links_ok_def L F)
  show "names_ok t' = names_ok t" by (simp add: names_ok_def F entry_ok_def first L cong: option.case_cong)
qed

lemma ancestors_ok:
  assumes "stamps_ok t" "keeps_links f" "tree_wf r t" "links_ok t" "names_ok t" "tree_is_dir t q"
    "deficit bytes_of t q d" "deficit files_of t q e"
    "\<And>j. j \<in> set (parent_chain t q) \<Longrightarrow> int (bytes_of (f (tree_slot_at t j))) = int (bytes_of (tree_slot_at t j)) + d"
    "\<And>j. j \<in> set (parent_chain t q) \<Longrightarrow> int (files_of (f (tree_slot_at t j))) = int (files_of (tree_slot_at t j)) + e"
  shows "tree_ok r (ancestors q f t)"
proof -
  note A = ancestors_applied [OF assms(1,2), of q]
  show ?thesis unfolding tree_ok_def
    using A(3) applied_transfer [OF A(1) assms(2) A(2)] assms(3-5)
      ancestors_settle [OF assms(1-3) assms(6,7,9)] ancestors_settle [OF assms(1-3) assms(6,8,10)] by simp
qed

lemma same_but_names_edges:
  assumes "same_but_names t t'"
  shows "tree_edge t' = tree_edge t" "kids t' = kids t"
proof -
  show e: "tree_edge t' = tree_edge t" by (simp add: tree_edge_def fun_eq_iff same_but_namesE [OF assms])
  show "kids t' = kids t" by (simp add: kids_def e fun_eq_iff)
qed

lemma same_but_names_ok:
  assumes "tree_ok r t" "same_but_names t t'" "names_ok t'"
  shows "tree_ok r t'"
  using assms by (simp add: tree_ok_def stamps_ok_def tree_wf_def links_ok_def balanced_def same_but_names_edges same_but_namesE)

section \<open>Values of the updates\<close>

lemma bytes_slot_add: "bytes_of s + unat sz < 2 ^ 64 \<Longrightarrow> bytes_of (slot_add sz fl s) = bytes_of s + unat sz"
  by (simp add: bytes_of_def unat_saturating_add)

lemma files_slot_add: "ts_is_dir s \<Longrightarrow> files_of s + unat fl < 2 ^ 64 \<Longrightarrow> files_of (slot_add sz fl s) = files_of s + unat fl"
  by (simp add: files_of_def unat_saturating_add)

lemma slot_sub_values:
  "bytes_of (slot_sub sz fl s) = bytes_of s - unat sz"
  "ts_is_dir s \<Longrightarrow> files_of (slot_sub sz fl s) = files_of s - unat fl"
  by (simp_all add: bytes_of_def files_of_def slot_sub_def unat_saturating_sub)

lemma size_of_bytes: "tree_valid t x \<Longrightarrow> unat (size_of t x) = bytes_of (tree_slot_at t x)"
  by (simp add: size_of_def bytes_of_def)

lemma file_count_of_files: "tree_valid t x \<Longrightarrow> unat (file_count_of t x) = files_of (tree_slot_at t x)"
  by (auto simp: file_count_of_def files_of_def tree_is_dir_def tree_valid_def)

lemma chain_dir: "tree_wf r t \<Longrightarrow> tree_is_dir t q \<Longrightarrow> j \<in> set (parent_chain t q) \<Longrightarrow> ts_is_dir (tree_slot_at t j)"
proof -
  assume "tree_wf r t" "tree_is_dir t q" "j \<in> set (parent_chain t q)"
  then have "tree_is_dir t j" using parent_chain_up [of r t q] by blast
  then show ?thesis by (simp add: tree_is_dir_def)
qed

lemma up_list_mono: "up_list t' cs \<Longrightarrow> (\<And>i p. tree_edge t' i p \<Longrightarrow> tree_edge t i p) \<Longrightarrow> up_list t cs"
  by (induction cs rule: induct_list012) auto

section \<open>Removal\<close>

inductive below :: "size_tree \<Rightarrow> nat \<Rightarrow> nat \<Rightarrow> bool" for t x where
  top: "tree_valid t x \<Longrightarrow> below t x x"
| under: "below t x p \<Longrightarrow> tree_edge t i p \<Longrightarrow> below t x i"

lemma reachable_below: "tree_wf r t \<Longrightarrow> links_ok t \<Longrightarrow> reachable t {x} j \<longleftrightarrow> below t x j"
proof
  assume wf: "tree_wf r t" and links: "links_ok t"
  show "below t x j" if "reachable t {x} j"
    using that
  proof (induction rule: reachable.induct)
    case (step i c)
    have "c \<noteq> 0" "ts_parent (tree_slot_at t c) = i" using step links by (auto simp: links_ok_def)
    then have "tree_edge t c i" using wf step by (auto simp: tree_wf_def)
    with step show ?case by (blast intro: below.under)
  qed (auto intro: below.top)
  show "reachable t {x} j" if "below t x j"
    using that
  proof (induction rule: below.induct)
    case (under p i)
    then show ?case using removed_closed [OF links] by blast
  qed (auto intro: reachable.start)
qed

text \<open>
  C6: removing a live node other than the root from a consistent tree removes
  exactly that node and everything below it, and leaves a consistent tree: the totals of all
  remaining directories are again exact, and the links, the name cache and the stamps stay coherent.
\<close>

theorem remove_subtree_ok:
  assumes ok: "tree_ok r t" and x: "tree_valid t x" "x \<noteq> 0"
  shows "tree_ok r (remove_subtree_inplace x t) \<and>
    (\<forall>j. tree_valid (remove_subtree_inplace x t) j \<longleftrightarrow> tree_valid t j \<and> \<not> below t x j)"
proof -
  define t' where "t' = remove_loop [x] t"
  let ?q = "ts_parent (tree_slot_at t x)"
  let ?f = "slot_sub (size_of t x) (file_count_of t x)"
  note O = tree_okD [OF ok]
  have R: "removal r t x t'" using O x remove_loop_result [of t "[x]"] by (simp add: removal_def t'_def)
  have st: "stamps_ok t'" using O(1) without_namesD(10) [of t' t] removalD(5) [OF R] by (simp add: remove_result_def)
  have eq: "remove_subtree_inplace x t = ancestors ?q ?f t'"
    using x by (simp add: remove_subtree_inplace_def remove_subtree_def t'_def Let_def)
  have q: "tree_is_dir t' ?q"
    using removal_root_edge [OF R] removal_parent_out [OF R] by (simp add: removal_valid [OF R] tree_edge_def)
  have up: "up_list t' (parent_chain t' ?q)" "hd (parent_chain t' ?q) = ?q"
    using parent_chain_up [OF removal_wf [OF R] q] by simp_all
  have up': "up_list t (parent_chain t' ?q)"
    using up(1) by (rule up_list_mono) (simp add: removal_edge [OF R])
  have slot: "tree_slot_at t' j = tree_slot_at t j" "ts_is_dir (tree_slot_at t' j)" if "j \<in> set (parent_chain t' ?q)" for j
  proof -
    have "tree_is_dir t' j" using parent_chain_up [OF removal_wf [OF R] q] that by blast
    then show "tree_slot_at t' j = tree_slot_at t j" "ts_is_dir (tree_slot_at t' j)"
      by (simp_all add: removal_valid [OF R] removal_slot [OF R]) (simp_all add: tree_is_dir_def)
  qed
  have ge: "nv (tree_slot_at t x) \<le> nv (tree_slot_at t j)" if "balanced nv t" "j \<in> set (parent_chain t' ?q)" for nv j
  proof -
    have "nv (tree_slot_at t x) \<le> nv (tree_slot_at t ?q)" using removal_root_edge [OF R] kid_le [OF that(1)] by blast
    also have "\<dots> \<le> nv (tree_slot_at t j)" using up_list_ge_hd [OF that(1) up' that(2)] up(2) by simp
    finally show ?thesis .
  qed
  have "tree_ok r (ancestors ?q ?f t')"
  proof (rule ancestors_ok [OF st _ removal_wf [OF R] removal_links [OF R] removal_names [OF R O(4)] q])
    show "deficit bytes_of t' ?q (- int (bytes_of (tree_slot_at t x)))" by (rule removal_deficit [OF R O(5)]) (simp add: bytes_of_def)
    show "deficit files_of t' ?q (- int (files_of (tree_slot_at t x)))" by (rule removal_deficit [OF R O(6)]) (simp add: files_of_def)
    fix j
    assume j: "j \<in> set (parent_chain t' ?q)"
    show "int (bytes_of (?f (tree_slot_at t' j))) = int (bytes_of (tree_slot_at t' j)) + - int (bytes_of (tree_slot_at t x))"
      using ge [OF O(5) j] slot [OF j] x by (simp add: slot_sub_values size_of_bytes)
    show "int (files_of (?f (tree_slot_at t' j))) = int (files_of (tree_slot_at t' j)) + - int (files_of (tree_slot_at t x))"
      using ge [OF O(6) j] slot [OF j] x by (simp add: slot_sub_values file_count_of_files)
  qed simp
  moreover have "tree_valid (ancestors ?q ?f t') = tree_valid t'"
    using applied_links(1) [OF ancestors_applied(1) [OF st]] by simp
  ultimately show ?thesis
    unfolding eq using removal_valid(1) [OF R] reachable_below [OF O(2,3)] by simp
qed

end
