(* ===== verification/Size_Tree_Upsert.thy ===== *)
theory Size_Tree_Upsert
  imports Size_Tree_Ops
begin

text \<open>
  \<^verbatim>\<open>UpsertFileWithMtime\<close>: a new entry linked under its directory, an existing file
  updated in place, or a clashing node replaced.  All three keep the tree consistent, and a later
  lookup finds what was written.
\<close>

section \<open>Appending an entry\<close>

lemma append_entry_fields [simp]:
  "st_base (append_entry s t) = st_base t" "st_child_names (append_entry s t) = st_child_names t"
  "st_stamp (append_entry s t) = st_stamp t" "st_gen (append_entry s t) = st_gen t"
  "st_entries (append_entry s t) = st_entries t @ [s]" "st_overrides (append_entry s t) = st_overrides t"
  "st_child_edits (append_entry s t) = st_child_edits t" "st_volume (append_entry s t) = st_volume t"
  "st_children (append_entry s t) = (if st_base t = None then st_children t @ [[]] else st_children t)"
  by (simp_all add: append_entry_def Let_def)

lemma append_entry_counts [simp]: "base_count (append_entry s t) = base_count t" "node_count (append_entry s t) = Suc (node_count t)"
  by (simp_all add: base_count_def node_count_def)

lemma append_entry_slot:
  "tree_slot_at (append_entry s t) j = (if j = node_count t then s else tree_slot_at t j)"
proof -
  consider "j < base_count t" | "base_count t \<le> j" by linarith
  then show ?thesis
  proof cases
    case 1
    then have "j < node_count t" by (simp add: node_count_def)
    with 1 show ?thesis unfolding tree_slot_at_def append_entry_fields append_entry_counts by simp
  next
    case 2
    then show ?thesis by (auto simp: tree_slot_at_def node_count_def nth_append)
  qed
qed

lemma append_entry_children:
  "st_base t = None \<longrightarrow> length (st_children t) = node_count t \<Longrightarrow> child_list (append_entry s t) p = child_list t p"
  by (auto simp: child_list_def nth_append split: option.splits)

section \<open>Linking\<close>

lemma links_slots [simp]:
  "base_count (t\<lparr>st_child_edits := x\<rparr>) = base_count t" "base_count (t\<lparr>st_children := y\<rparr>) = base_count t"
  "node_count (t\<lparr>st_child_edits := x\<rparr>) = node_count t" "node_count (t\<lparr>st_children := y\<rparr>) = node_count t"
  "tree_slot_at (t\<lparr>st_child_edits := x\<rparr>) = tree_slot_at t" "tree_slot_at (t\<lparr>st_children := y\<rparr>) = tree_slot_at t"
  by (auto simp: tree_slot_at_def node_count_def base_count_def fun_eq_iff split: option.splits)

lemma tree_link_same [simp]:
  "node_count (tree_link p i t) = node_count t" "base_count (tree_link p i t) = base_count t"
  "tree_slot_at (tree_link p i t) = tree_slot_at t" "st_base (tree_link p i t) = st_base t"
  "st_stamp (tree_link p i t) = st_stamp t" "st_gen (tree_link p i t) = st_gen t"
  "st_volume (tree_link p i t) = st_volume t"
  "length (st_children (tree_link p i t)) = length (st_children t)"
  by (simp_all add: tree_link_def Let_def split: option.split)

lemma tree_link_children:
  assumes "st_base t = None \<longrightarrow> p < length (st_children t)"
  shows "child_list (tree_link p i t) q = (if q = p then child_list t p @ [i] else child_list t q)"
proof -
  have names: "child_list (case st_child_names u p of None \<Rightarrow> u | Some m \<Rightarrow> if m (key m) = None then u\<lparr>st_child_names := x m\<rparr> else u) q = child_list u q" for u x key
    by (simp split: option.split)
  show ?thesis using assms unfolding tree_link_def Let_def names
    by (auto simp: child_list_def split: option.split)
qed

lemma tree_link_names:
  "st_child_names (tree_link p i t) q =
    (if q = p then map_option (\<lambda>m. let key = ascii_lower (ts_name (tree_slot_at t i)) in
        if m key = None then m(key \<mapsto> i) else m) (st_child_names t p)
     else st_child_names t q)"
  by (simp add: tree_link_def Let_def split: option.split)

section \<open>A new file\<close>

definition file_slot :: "nat \<Rightarrow> string \<Rightarrow> u64 \<Rightarrow> u64 \<Rightarrow> tree_slot" where
  "file_slot parent name sz mtime = \<lparr>ts_parent = parent, ts_name = name, ts_is_dir = False, ts_size = sz,
     ts_used = True, ts_mtime = mtime, ts_files = 0\<rparr>"

definition linked :: "nat \<Rightarrow> tree_slot \<Rightarrow> size_tree \<Rightarrow> size_tree" where
  "linked parent s t = tree_link parent (node_count t) (append_entry s t)"

definition link_step :: "size_tree \<Rightarrow> nat \<Rightarrow> tree_slot \<Rightarrow> bool" where
  "link_step t parent s \<longleftrightarrow> links_ok t \<and> tree_is_dir t parent \<and> ts_parent s = parent \<and> ts_used s \<and> \<not> ts_is_dir s"

lemma link_stepD:
  assumes "link_step t parent s"
  shows "links_ok t" "tree_is_dir t parent" "ts_parent s = parent" "ts_used s" "\<not> ts_is_dir s"
  using assms by (simp_all add: link_step_def)

lemma not_a_node [simp]: "\<not> tree_valid t (node_count t)" "\<not> tree_is_dir t (node_count t)"
  "\<not> tree_edge t (node_count t) p" "\<not> tree_edge t i (node_count t)" "\<not> has_key t key (node_count t)"
  by (simp_all add: tree_valid_def tree_is_dir_def tree_edge_def has_key_def)

lemma linked_slot: "tree_slot_at (linked parent s t) j = (if j = node_count t then s else tree_slot_at t j)"
  by (simp add: linked_def append_entry_slot)

lemma linked_count: "node_count (linked parent s t) = Suc (node_count t)"
  by (simp add: linked_def)

lemma linked_children:
  assumes L: "link_step t parent s"
  shows "child_list (linked parent s t) q = (if q = parent then child_list t parent @ [node_count t] else child_list t q)"
proof -
  note D = link_stepD [OF L]
  have sh: "st_base t = None \<longrightarrow> length (st_children t) = node_count t" using D(1) by (simp add: links_ok_def)
  moreover have "parent < node_count t" using D(2) by (simp add: tree_is_dir_def)
  ultimately show ?thesis
    by (simp add: linked_def tree_link_children append_entry_children [OF sh])
qed

lemma linked_valid:
  assumes L: "link_step t parent s"
  shows "tree_valid (linked parent s t) j \<longleftrightarrow> j = node_count t \<or> tree_valid t j"
    "tree_is_dir (linked parent s t) j \<longleftrightarrow> tree_is_dir t j"
  using link_stepD [OF L] by (auto simp: tree_valid_def tree_is_dir_def linked_slot linked_count)

lemma linked_edge:
  assumes L: "link_step t parent s"
  shows "tree_edge (linked parent s t) i p \<longleftrightarrow> (i = node_count t \<and> p = parent) \<or> tree_edge t i p"
proof (cases "i = node_count t")
  case True
  have "parent \<noteq> node_count t" "0 < node_count t" using link_stepD(2) [OF L] by (auto simp: tree_is_dir_def)
  with True link_stepD [OF L] show ?thesis by (auto simp: tree_edge_def linked_valid [OF L] linked_slot)
next
  case False
  then show ?thesis by (simp add: tree_edge_def linked_valid [OF L] linked_slot)
qed

lemma linked_links:
  assumes L: "link_step t parent s"
  shows "links_ok (linked parent s t)"
proof -
  note D = link_stepD [OF L]
  have z: "0 < node_count t" using D(2) by (simp add: tree_is_dir_def)
  have "length (st_children (linked parent s t)) = node_count (linked parent s t)" if "st_base (linked parent s t) = None"
    using D(1) that by (simp add: linked_def links_ok_def)
  moreover have "i \<in> set (child_list (linked parent s t) p)" if "tree_edge (linked parent s t) i p" for i p
    using that D(1) by (auto simp: linked_edge [OF L] linked_children [OF L] links_ok_def)
  moreover have "c < node_count (linked parent s t) \<and> c \<noteq> 0 \<and>
      (tree_valid (linked parent s t) c \<longrightarrow> ts_parent (tree_slot_at (linked parent s t) c) = p)"
    if "c \<in> set (child_list (linked parent s t) p)" for p c
  proof (cases "c = node_count t \<and> p = parent")
    case True
    then show ?thesis using z D by (simp add: linked_count linked_slot)
  next
    case False
    then have c: "c \<in> set (child_list t p)" using that by (auto simp: linked_children [OF L] split: if_splits)
    then have "c < node_count t" using D(1) by (simp add: links_ok_def)
    then have "c \<noteq> node_count t" "c < Suc (node_count t)" by simp_all
    with c D(1) show ?thesis by (simp add: links_ok_def linked_count linked_slot linked_valid [OF L])
  qed
  ultimately show ?thesis by (simp add: links_ok_def)
qed

lemma linked_wf:
  assumes L: "link_step t parent s" and wf: "tree_wf r t"
  shows "tree_wf (r(node_count t := Suc (r parent))) (linked parent s t)"
proof -
  have "tree_edge (linked parent s t) i (ts_parent (tree_slot_at (linked parent s t) i)) \<and>
      (r(node_count t := Suc (r parent))) (ts_parent (tree_slot_at (linked parent s t) i)) < (r(node_count t := Suc (r parent))) i"
    if "tree_valid (linked parent s t) i" "i \<noteq> 0" for i
  proof (cases "i = node_count t")
    case True
    have "parent \<noteq> node_count t" using link_stepD(2) [OF L] by auto
    with True link_stepD [OF L] show ?thesis by (simp add: linked_slot linked_edge [OF L])
  next
    case False
    then have v: "tree_valid t i" using that by (simp add: linked_valid [OF L])
    then have e: "tree_edge t i (ts_parent (tree_slot_at t i))" "r (ts_parent (tree_slot_at t i)) < r i"
      using wf that by (auto simp: tree_wf_def)
    then have "ts_parent (tree_slot_at t i) \<noteq> node_count t" by auto
    with False e show ?thesis by (simp add: linked_slot linked_edge [OF L])
  qed
  then show ?thesis using wf by (auto simp: tree_wf_def linked_valid [OF L])
qed

lemma linked_deficit:
  assumes L: "link_step t parent s" and bal: "balanced nv t"
  shows "deficit nv (linked parent s t) parent (int (nv s))"
  unfolding deficit_def
proof (intro allI impI)
  fix p
  assume "tree_is_dir (linked parent s t) p"
  then have p: "tree_is_dir t p" by (simp add: linked_valid [OF L])
  then have np: "p \<noteq> node_count t" by auto
  have kids: "kids (linked parent s t) p = (if p = parent then insert (node_count t) (kids t p) else kids t p)"
    by (auto simp: kids_def linked_edge [OF L])
  have new: "node_count t \<notin> kids t p" by (simp add: kids_def)
  have same: "(\<Sum>i \<in> kids t p. int (nv (tree_slot_at (linked parent s t) i))) = (\<Sum>i \<in> kids t p. int (nv (tree_slot_at t i)))"
    using new by (intro sum.cong) (auto simp: linked_slot)
  have "(\<Sum>i \<in> kids t p. int (nv (tree_slot_at t i))) = int (nv (tree_slot_at t p))" using bal p by (simp add: balanced_def)
  then show "(\<Sum>i \<in> kids (linked parent s t) p. int (nv (tree_slot_at (linked parent s t) i))) =
      int (nv (tree_slot_at (linked parent s t) p)) + (if p = parent then int (nv s) else 0)"
    using kids new same np by (cases "p = parent") (simp_all add: linked_slot)
qed

lemma linked_key:
  assumes L: "link_step t parent s"
  shows "has_key (linked parent s t) key c \<longleftrightarrow> (c = node_count t \<and> ascii_lower (ts_name s) = key) \<or> has_key t key c"
  by (cases "c = node_count t") (simp_all add: has_key_def linked_valid [OF L] linked_slot)

lemma find_snoc: "find P (xs @ [x]) = (case find P xs of Some c \<Rightarrow> Some c | None \<Rightarrow> if P x then Some x else None)"
  by (induction xs) auto

lemma linked_first:
  assumes L: "link_step t parent s"
  shows "first_child (linked parent s t) p key =
    (case first_child t p key of
       Some c \<Rightarrow> Some c
     | None \<Rightarrow> if p = parent \<and> ascii_lower (ts_name s) = key then Some (node_count t) else None)"
proof -
  have old: "find (has_key (linked parent s t) key) (child_list t p) = find (has_key t key) (child_list t p)"
    using link_stepD(1) [OF L] by (intro find_cong) (auto simp: linked_key [OF L] links_ok_def)
  have new: "has_key (linked parent s t) key (node_count t) \<longleftrightarrow> ascii_lower (ts_name s) = key"
    by (simp add: linked_key [OF L])
  show ?thesis
    unfolding first_child_def linked_children [OF L] using old new
    by (cases "p = parent") (simp_all add: find_snoc split: option.split)
qed

lemma linked_entry:
  assumes L: "link_step t parent s" and e: "entry_ok t p key e"
    and keep: "p = parent \<and> ascii_lower (ts_name s) = key \<longrightarrow> e \<noteq> None"
  shows "entry_ok (linked parent s t) p key e"
proof (cases e)
  case None
  with e keep show ?thesis by (simp add: entry_ok_def linked_first [OF L])
next
  case (Some c)
  then have "c \<noteq> node_count t" using e by (simp add: entry_ok_def)
  with Some e show ?thesis by (simp add: entry_ok_def linked_first [OF L] linked_count linked_valid [OF L])
qed

lemma linked_names:
  assumes L: "link_step t parent s" and n: "names_ok t"
  shows "names_ok (linked parent s t)"
  unfolding names_ok_def
proof (intro allI impI)
  fix p m key
  assume m: "st_child_names (linked parent s t) p = Some m"
  let ?new = "ascii_lower (ts_name s)"
  have cache: "st_child_names (linked parent s t) p = (if p = parent then map_option (\<lambda>m.
        if m ?new = None then m(?new \<mapsto> node_count t) else m) (st_child_names t parent) else st_child_names t p)"
    by (simp add: linked_def tree_link_names append_entry_slot Let_def)
  show "entry_ok (linked parent s t) p key (m key)"
  proof (cases "p = parent")
    case False
    then show ?thesis using m n by (intro linked_entry [OF L]) (simp_all add: cache names_ok_def)
  next
    case True
    then obtain m0 where m0: "st_child_names t parent = Some m0"
      "m = (if m0 ?new = None then m0(?new \<mapsto> node_count t) else m0)"
      using m [unfolded cache] by (auto simp: map_option_eq_Some)
    have ok: "entry_ok t parent k (m0 k)" for k using n m0(1) by (simp add: names_ok_def)
    show ?thesis
    proof (cases "key = ?new \<and> m0 ?new = None")
      case True
      then have "first_child t parent ?new = None" using ok [of ?new] by (simp add: entry_ok_def)
      with True \<open>p = parent\<close> m0(2) show ?thesis by (simp add: entry_ok_def linked_first [OF L] linked_count)
    next
      case False
      then have "m key = m0 key" using m0(2) by auto
      with False True ok show ?thesis by (auto intro: linked_entry [OF L])
    qed
  qed
qed

section \<open>Both totals after an insertion or an update\<close>

lemma le_root:
  assumes "tree_wf r t" "balanced nv t" "tree_is_dir t j"
  shows "nv (tree_slot_at t j) \<le> nv (tree_slot_at t 0)"
proof -
  have c: "up_list t (parent_chain t j)" "hd (parent_chain t j) = j" using parent_chain_up [OF assms(1,3)] by simp_all
  then have "j \<in> set (parent_chain t j)" by (cases "parent_chain t j") auto
  with up_list_le_root [OF assms(2) c(1)] show ?thesis by blast
qed

lemma stamps_linked: "stamps_ok t \<Longrightarrow> stamps_ok (linked parent s t)"
  by (simp add: stamps_ok_def linked_def)

lemma insert_ok:
  assumes ok: "tree_ok r t" and p: "tree_is_dir t parent"
    and fits: "bytes_of (tree_slot_at t 0) + unat sz < 2 ^ 64" "files_of (tree_slot_at t 0) + 1 < 2 ^ 64"
    and s: "s = file_slot parent name sz mtime"
  shows "tree_ok (r(node_count t := Suc (r parent))) (ancestors parent (slot_add sz 1) (linked parent s t))"
proof -
  note O = tree_okD [OF ok]
  have L: "link_step t parent s" using O(3) p by (simp add: link_step_def s file_slot_def)
  let ?t = "linked parent s t"
  have wf: "tree_wf (r(node_count t := Suc (r parent))) ?t" by (rule linked_wf [OF L O(2)])
  have q: "tree_is_dir ?t parent" using p by (simp add: linked_valid [OF L])
  have slot: "tree_slot_at ?t j = tree_slot_at t j \<and> tree_is_dir t j" if "j \<in> set (parent_chain ?t parent)" for j
  proof -
    have "tree_is_dir ?t j" using parent_chain_up [OF wf q] that by blast
    then have "tree_is_dir t j" by (simp add: linked_valid [OF L])
    moreover from this have "j \<noteq> node_count t" by auto
    ultimately show ?thesis by (simp add: linked_slot)
  qed
  have vals: "bytes_of s = unat sz" "files_of s = 1" by (simp_all add: s file_slot_def bytes_of_def files_of_def)
  show ?thesis
  proof (rule ancestors_ok [OF stamps_linked [OF O(1)] _ wf linked_links [OF L] linked_names [OF L O(4)] q])
    show "deficit bytes_of ?t parent (int (unat sz))" using linked_deficit [OF L O(5)] by (simp add: vals)
    show "deficit files_of ?t parent 1" using linked_deficit [OF L O(6)] by (simp add: vals)
    fix j
    assume "j \<in> set (parent_chain ?t parent)"
    note j = slot [OF this]
    then have d: "ts_is_dir (tree_slot_at t j)" by (simp add: tree_is_dir_def)
    have "bytes_of (tree_slot_at t j) + unat sz < 2 ^ 64" using le_root [OF O(2,5)] j fits(1) by (meson add_le_mono1 le_less_trans)
    then show "int (bytes_of (slot_add sz 1 (tree_slot_at ?t j))) = int (bytes_of (tree_slot_at ?t j)) + int (unat sz)"
      using j by (simp add: bytes_slot_add)
    have "files_of (tree_slot_at t j) + unat (1 :: u64) < 2 ^ 64" using le_root [OF O(2,6)] j fits(2) by (simp, meson add_le_mono1 le_less_trans Suc_le_mono)
    from files_slot_add [OF d this] show "int (files_of (slot_add sz 1 (tree_slot_at ?t j))) = int (files_of (tree_slot_at ?t j)) + 1"
      using j by simp
  qed simp
qed

lemma change_deficit:
  assumes bal: "balanced nv t" and ap: "applied g {x} t t'" and g: "keeps_links g" and e: "tree_edge t x p" and x: "\<not> tree_is_dir t x"
  shows "deficit nv t' p (int (nv (g (tree_slot_at t x))) - int (nv (tree_slot_at t x)))"
  unfolding deficit_def
proof (intro allI impI)
  fix q
  note A = applied_links [OF ap g]
  assume "tree_is_dir t' q"
  then have q: "tree_is_dir t q" by (simp add: A)
  then have qx: "q \<noteq> x" using x by blast
  have slot: "int (nv (tree_slot_at t' j)) = int (nv (tree_slot_at t j)) +
      (if j = x then int (nv (g (tree_slot_at t x))) - int (nv (tree_slot_at t x)) else 0)" for j
    using ap by (simp add: applied_def)
  have "x \<in> kids t q \<longleftrightarrow> q = p" using e by (auto simp: kids_def tree_edge_def)
  then have "(\<Sum>i \<in> kids t q. int (nv (tree_slot_at t' i))) = (\<Sum>i \<in> kids t q. int (nv (tree_slot_at t i))) +
      (if q = p then int (nv (g (tree_slot_at t x))) - int (nv (tree_slot_at t x)) else 0)"
    by (simp add: slot sum.distrib)
  moreover have "(\<Sum>i \<in> kids t q. int (nv (tree_slot_at t i))) = int (nv (tree_slot_at t q))" using bal q by (simp add: balanced_def)
  moreover have "nv (tree_slot_at t' q) = nv (tree_slot_at t q)" using ap qx by (simp add: applied_def)
  ultimately show "(\<Sum>i \<in> kids t' q. int (nv (tree_slot_at t' i))) = int (nv (tree_slot_at t' q)) +
      (if q = p then int (nv (g (tree_slot_at t x))) - int (nv (tree_slot_at t x)) else 0)"
    by (simp add: A)
qed

definition resize :: "u64 \<Rightarrow> u64 \<Rightarrow> tree_slot \<Rightarrow> tree_slot" where
  "resize old sz e = e\<lparr>ts_size := saturating_add (saturating_sub (ts_size e) old) sz\<rparr>"

definition rewrite_file :: "u64 \<Rightarrow> u64 \<Rightarrow> tree_slot \<Rightarrow> tree_slot" where
  "rewrite_file sz mtime s = s\<lparr>ts_size := sz, ts_mtime := mtime\<rparr>"

lemma resize_keeps [simp]: "keeps_links (resize old sz)" "keeps_links (rewrite_file sz mtime)"
  by (simp_all add: keeps_links_def resize_def rewrite_file_def)

lemma set_slot_applied: "x < node_count t \<Longrightarrow> applied g {x} t (set_slot x (g (tree_slot_at t x)) t)"
  by (simp add: applied_def ts.get_put_same ts.get_put_other)

lemma stamps_set [simp]: "stamps_ok (set_slot i s t) = stamps_ok t"
  by (simp add: stamps_ok_def)

lemma update_ok:
  assumes ok: "tree_ok r t" and x: "tree_valid t x" "x \<noteq> 0" "\<not> tree_is_dir t x"
    and fits: "bytes_of (tree_slot_at t 0) + unat sz < 2 ^ 64"
    and t': "t' = set_slot x (rewrite_file sz mtime (tree_slot_at t x)) t"
  shows "tree_ok r (ancestors (ts_parent (tree_slot_at t x)) (resize (size_of t x) sz) t')"
proof -
  let ?p = "ts_parent (tree_slot_at t x)"
  let ?old = "size_of t x"
  note O = tree_okD [OF ok]
  have e: "tree_edge t x ?p" using O(2) x by (simp add: tree_wf_def)
  have ap: "applied (rewrite_file sz mtime) {x} t t'" unfolding t' using x by (intro set_slot_applied) (simp add: tree_valid_def)
  note A = applied_links [OF ap resize_keeps(2)]
  have fr: "frame t' = frame t" by (simp add: t')
  note T = applied_transfer [OF ap resize_keeps(2) fr]
  have wf: "tree_wf r t'" using T(1) O(2) by simp
  have q: "tree_is_dir t' ?p" "tree_is_dir t ?p" using e by (simp_all add: A tree_edge_def)
  have vals: "bytes_of (rewrite_file sz mtime s) = unat sz" "files_of (rewrite_file sz mtime s) = files_of s" for s
    by (simp_all add: rewrite_file_def bytes_of_def files_of_def)
  have up: "up_list t (parent_chain t' ?p)"
    using parent_chain_up [OF wf q(1)] up_list_mono [of t' "parent_chain t' ?p" t] by (simp add: A)
  have slot: "tree_slot_at t' j = tree_slot_at t j \<and> tree_is_dir t j" if "j \<in> set (parent_chain t' ?p)" for j
  proof -
    have "tree_is_dir t' j" using parent_chain_up [OF wf q(1)] that by blast
    then have d: "tree_is_dir t j" by (simp add: A)
    then have "j \<noteq> x" using x(3) by blast
    with ap d show ?thesis by (simp add: applied_def)
  qed
  have old: "unat ?old = bytes_of (tree_slot_at t x)" by (rule size_of_bytes [OF x(1)])
  show ?thesis
  proof (rule ancestors_ok [OF _ resize_keeps(1) wf _ _ q(1)])
    show "stamps_ok t'" using O(1) by (simp add: t')
    show "links_ok t'" "names_ok t'" using T(2,3) O(3,4) by simp_all
    show "deficit bytes_of t' ?p (int (unat sz) - int (unat ?old))"
      using change_deficit [OF O(5) ap resize_keeps(2) e x(3)] by (simp add: vals old)
    show "deficit files_of t' ?p 0"
      using change_deficit [OF O(6) ap resize_keeps(2) e x(3)] by (simp add: vals)
    fix j
    assume jc: "j \<in> set (parent_chain t' ?p)"
    note j = slot [OF jc]
    have "bytes_of (tree_slot_at t x) \<le> bytes_of (tree_slot_at t ?p)" by (rule kid_le [OF O(5) e])
    also have "\<dots> \<le> bytes_of (tree_slot_at t j)"
      using up_list_ge_hd [OF O(5) up jc] parent_chain_up [OF wf q(1)] by simp
    finally have ge: "unat ?old \<le> bytes_of (tree_slot_at t j)" using old by simp
    have "bytes_of (tree_slot_at t j) \<le> bytes_of (tree_slot_at t 0)" using le_root [OF O(2,5)] j by blast
    with fits ge show "int (bytes_of (resize ?old sz (tree_slot_at t' j))) = int (bytes_of (tree_slot_at t' j)) + (int (unat sz) - int (unat ?old))"
      using j by (simp add: resize_def bytes_of_def unat_saturating_add unat_saturating_sub)
    show "int (files_of (resize ?old sz (tree_slot_at t' j))) = int (files_of (tree_slot_at t' j)) + 0"
      by (simp add: resize_def files_of_def)
  qed
qed

end
