(* ===== verification/Size_Tree_Edits.thy ===== *)
theory Size_Tree_Edits
  imports Size_Tree_Upsert
begin

text \<open>
  The properties of \<^verbatim>\<open>UpsertFileWithMtime\<close> as a whole, with a concrete tree on which
  their hypotheses hold.
\<close>

section \<open>The cases of an upsert\<close>

lemma remove_le:
  assumes ok: "tree_ok r t" and x: "tree_valid t x" "x \<noteq> 0"
  shows "bytes_of (tree_slot_at (remove_subtree_inplace x t) j) \<le> bytes_of (tree_slot_at t j) \<and>
    files_of (tree_slot_at (remove_subtree_inplace x t) j) \<le> files_of (tree_slot_at t j)"
proof -
  define t' where "t' = remove_loop [x] t"
  let ?f = "slot_sub (size_of t x) (file_count_of t x)"
  have res: "remove_result t (reachable t {x}) t'" using remove_loop_result [of t "[x]"] by (simp add: t'_def)
  then have st: "stamps_ok t'" using tree_okD(1) [OF ok] without_namesD(10) [of t' t] by (simp add: remove_result_def)
  have eq: "remove_subtree_inplace x t = ancestors (ts_parent (tree_slot_at t x)) ?f t'"
    using x by (simp add: remove_subtree_inplace_def remove_subtree_def t'_def Let_def)
  have "bytes_of (?f s) \<le> bytes_of s" "files_of (?f s) \<le> files_of s" for s
    by (simp_all add: bytes_of_def files_of_def slot_sub_def unat_saturating_sub)
  moreover have "bytes_of (tree_slot_at t' j) = bytes_of (tree_slot_at t j)" "files_of (tree_slot_at t' j) = files_of (tree_slot_at t j)"
    using res by (simp_all add: remove_result_def bytes_of_def files_of_def)
  ultimately show ?thesis
    unfolding eq using ancestors_applied(1) [OF st keeps_links_add(2) [of "size_of t x" "file_count_of t x"], of "ts_parent (tree_slot_at t x)"]
    by (simp add: applied_def) (metis order.refl)
qed

lemma remove_node_count:
  assumes ok: "tree_ok r t" and x: "tree_valid t x" "x \<noteq> 0"
  shows "node_count (remove_subtree_inplace x t) = node_count t" "st_volume (remove_subtree_inplace x t) = st_volume t"
proof -
  define t' where "t' = remove_loop [x] t"
  have res: "remove_result t (reachable t {x}) t'" using remove_loop_result [of t "[x]"] by (simp add: t'_def)
  then have st: "stamps_ok t'" using tree_okD(1) [OF ok] without_namesD(10) [of t' t] by (simp add: remove_result_def)
  have eq: "remove_subtree_inplace x t = ancestors (ts_parent (tree_slot_at t x)) (slot_sub (size_of t x) (file_count_of t x)) t'"
    using x by (simp add: remove_subtree_inplace_def remove_subtree_def t'_def Let_def)
  show "node_count (remove_subtree_inplace x t) = node_count t" "st_volume (remove_subtree_inplace x t) = st_volume t"
    unfolding eq using frame_eqD(1,6) [OF ancestors_applied(2) [OF st keeps_links_add(2)]] res without_namesD(1,3) [of t' t]
    by (simp_all add: remove_result_def)
qed

lemma below_rank: "below t x j \<Longrightarrow> tree_wf r t \<Longrightarrow> r x \<le> r j"
proof (induction rule: below.induct)
  case (under p i)
  then have "r p < r i" by (auto simp: tree_wf_def tree_edge_def)
  with under show ?case by simp
qed simp

text \<open>What \<open>UpsertFile\<close> does once the directory and the old node are known.\<close>

definition upsert_at :: "nat \<Rightarrow> string \<Rightarrow> u64 \<Rightarrow> u64 \<Rightarrow> nat option \<Rightarrow> size_tree \<Rightarrow> size_tree" where
  "upsert_at parent name sz mtime found t =
    (let add = (\<lambda>t. ancestors parent (slot_add sz 1) (linked parent (file_slot parent name sz mtime) t)) in
     case found of
       None \<Rightarrow> add t
     | Some idx \<Rightarrow>
         if \<not> tree_is_dir t idx \<and> entry_name t idx = name then
           ancestors parent (resize (size_of t idx) sz) (set_slot idx (rewrite_file sz mtime (tree_slot_at t idx)) t)
         else add (remove_subtree_inplace idx t))"

lemma upsert_cases:
  assumes ok: "tree_ok r t" and m: "mounted t ms" and vs: "list_all plain (vs @ [w])"
    and up: "upsert_file_with_mtime (rooted (ms @ vs @ [w])) sz mtime t = (res, t')"
  obtains (refused) "res = False" "same_but_names t t'" "names_ok t'"
      "\<And>p. walk t 0 vs = Some p \<Longrightarrow> \<not> tree_is_dir t p"
  | (edited) p t2 where "res = True" "walk t 0 vs = Some p" "tree_is_dir t p" "same_but_names t t2" "names_ok t2"
      "t' = upsert_at p w sz mtime (find_spec t p w) t2"
proof -
  note O = tree_okD [OF ok]
  have root: "tree_valid t 0" using tree_is_dir_valid [OF O(7)] by blast
  have pl: "list_all plain (ms @ vs @ [w])" "list_all plain vs" "plain w" using m vs by (simp_all add: mounted_def)
  have dir: "path_dir (rooted (ms @ vs @ [w])) = rooted (ms @ vs)"
    using path_dir_rooted [of "ms @ vs" w] pl(1) by simp
  have base: "path_base (rooted (ms @ vs @ [w])) = w" using path_base_rooted [of "ms @ vs" w] pl(1) by simp
  have w: "w \<noteq> ''.''" "w \<noteq> [slash]" using pl(3) by (auto simp: plain_def)
  obtain r1 t1 where f1: "find_node_by_path (rooted (ms @ vs)) t = (r1, t1)" by fastforce
  have s1: "r1 = walk t 0 vs" "same_but_names t t1" "names_ok t1"
    using find_node_by_path_walk [OF O(4) m pl(2) root f1] by simp_all
  obtain r2 t2 where f2: "find_node_by_path (rooted (ms @ vs @ [w])) t1 = (r2, t2)" by fastforce
  have s2: "r2 = walk t 0 (vs @ [w])" "same_but_names t t2" "names_ok t2"
  proof -
    have "mounted t1 ms" "tree_valid t1 0" using m root same_but_namesE [OF s1(2)] by (simp_all add: mounted_def)
    from find_node_by_path_walk [OF s1(3) this(1) vs this(2)] f2
    have "r2 = walk t1 0 (vs @ [w])" "same_but_names t1 t2" "names_ok t2" by simp_all
    then show "r2 = walk t 0 (vs @ [w])" "same_but_names t t2" "names_ok t2"
      using s1(2) same_but_names_trans walk_cong [OF s1(2)] by auto
  qed
  show ?thesis
  proof (cases "walk t 0 vs")
    case None
    then have "upsert_file_with_mtime (rooted (ms @ vs @ [w])) sz mtime t = (False, t1)"
      using f1 s1(1) by (simp add: upsert_file_with_mtime_def dir)
    then show ?thesis using refused up s1 None by simp
  next
    case (Some p)
    show ?thesis
    proof (cases "tree_is_dir t p")
      case False
      then have "upsert_file_with_mtime (rooted (ms @ vs @ [w])) sz mtime t = (False, t1)"
        using f1 s1 Some by (simp add: upsert_file_with_mtime_def dir same_but_namesE [OF s1(2)])
      then show ?thesis using refused up s1 Some False by simp
    next
      case True
      have r2: "r2 = find_spec t p w" using s2(1) Some by (simp add: walk_append split: option.split)
      have r1: "r1 = Some p" using s1(1) Some by simp
      have d1: "tree_is_dir t1 p" using True same_but_namesE(4) [OF s1(2)] by simp
      have "upsert_file_with_mtime (rooted (ms @ vs @ [w])) sz mtime t = (True, upsert_at p w sz mtime r2 t2)"
        using f1 f2 w d1 unfolding upsert_file_with_mtime_def dir base r1
        by (simp add: upsert_at_def linked_def file_slot_def resize_def [abs_def] rewrite_file_def Let_def split: option.split)
      then show ?thesis using edited [OF _ Some True s2(2,3)] up r2 by simp
    qed
  qed
qed

lemma upsert_at_ok:
  assumes ok: "tree_ok r t" and p: "tree_is_dir t p" and found: "found = find_spec t p w"
    and fits: "bytes_of (tree_slot_at t 0) + unat sz < 2 ^ 64" "files_of (tree_slot_at t 0) + 1 < 2 ^ 64"
  shows "\<exists>r'. tree_ok r' (upsert_at p w sz mtime found t)"
proof (cases found)
  case None
  then show ?thesis using insert_ok [OF ok p fits refl] by (auto simp: upsert_at_def)
next
  case (Some x)
  note O = tree_okD [OF ok]
  have x: "x \<in> set (child_list t p)" "tree_valid t x" using Some found find_spec_child by metis+
  then have xp: "x \<noteq> 0" "ts_parent (tree_slot_at t x) = p" using O(3) by (auto simp: links_ok_def)
  show ?thesis
  proof (cases "\<not> tree_is_dir t x \<and> entry_name t x = w")
    case True
    then show ?thesis using update_ok [OF ok x(2) xp(1) _ fits(1) refl] Some xp(2) by (auto simp: upsert_at_def)
  next
    case False
    let ?t = "remove_subtree_inplace x t"
    have rem: "tree_ok r ?t" "\<And>j. tree_valid ?t j \<longleftrightarrow> tree_valid t j \<and> \<not> below t x j"
      using remove_subtree_ok [OF ok x(2) xp(1)] by auto
    have "r p < r x" using O(2) x(2) xp by (auto simp: tree_wf_def)
    then have "\<not> below t x p" using below_rank [OF _ O(2)] by fastforce
    then have v: "tree_valid ?t p" using rem(2) tree_is_dir_valid [OF p] by simp
    have "ts_is_dir (tree_slot_at ?t p) = ts_is_dir (tree_slot_at t p)"
    proof -
      define t' where "t' = remove_loop [x] t"
      have res: "remove_result t (reachable t {x}) t'" using remove_loop_result [of t "[x]"] by (simp add: t'_def)
      then have st: "stamps_ok t'" using O(1) without_namesD(10) [of t' t] by (simp add: remove_result_def)
      have "?t = ancestors p (slot_sub (size_of t x) (file_count_of t x)) t'"
        using x xp by (simp add: remove_subtree_inplace_def remove_subtree_def t'_def Let_def)
      then show ?thesis using ancestors_applied(1) [OF st keeps_links_add(2) [of "size_of t x" "file_count_of t x"], of p] res
        by (auto simp: applied_def remove_result_def slot_sub_def)
    qed
    then have d: "tree_is_dir ?t p" using v p by (simp add: tree_is_dir_def tree_valid_def)
    have f: "bytes_of (tree_slot_at ?t 0) + unat sz < 2 ^ 64" "files_of (tree_slot_at ?t 0) + 1 < 2 ^ 64"
      using remove_le [OF ok x(2) xp(1), of 0] fits by linarith+
    show ?thesis using insert_ok [OF rem(1) d f refl] Some False by (auto simp: upsert_at_def)
  qed
qed

text \<open>
  C5: after \<open>UpsertFileWithMtime\<close> of a path below the mount point, whatever it
  found there, the tree is again consistent: every directory's byte and file totals are exactly the
  sums over its children, up to the root.  The call is refused exactly when the containing directory
  is not in the tree, and then only the name cache has changed.
\<close>

theorem upsert_keeps_totals:
  assumes "tree_ok r t" "mounted t ms" "list_all plain (vs @ [w])"
    and "bytes_of (tree_slot_at t 0) + unat sz < 2 ^ 64" "files_of (tree_slot_at t 0) + 1 < 2 ^ 64"
    and "upsert_file_with_mtime (rooted (ms @ vs @ [w])) sz mtime t = (ok, t')"
  shows "(\<exists>r'. tree_ok r' t') \<and> (ok \<longleftrightarrow> (\<exists>p. walk t 0 vs = Some p \<and> tree_is_dir t p)) \<and>
    (\<not> ok \<longrightarrow> same_but_names t t')"
  using assms(1-3,6)
proof (cases rule: upsert_cases)
  case refused
  then show ?thesis using same_but_names_ok [OF assms(1)] by blast
next
  case (edited p t2)
  have ok2: "tree_ok r t2" by (rule same_but_names_ok [OF assms(1) edited(4,5)])
  note S = same_but_namesE [OF edited(4)]
  have "\<exists>r'. tree_ok r' (upsert_at p w sz mtime (find_spec t p w) t2)"
    using assms(4,5) edited(3) by (intro upsert_at_ok [OF ok2]) (simp_all add: S find_spec_cong [OF edited(4)])
  then show ?thesis using edited by blast
qed

section \<open>Reading back what was written\<close>

lemma applied_first:
  assumes ap: "applied f C t t'" and f: "keeps_links f" and fr: "frame t' = frame t"
  shows "first_child t' = first_child t" "find_spec t' = find_spec t"
proof -
  note L = applied_links [OF ap f]
  have "has_key t' = has_key t" by (intro ext) (simp add: has_key_def L)
  then show first: "first_child t' = first_child t" by (intro ext) (simp add: first_child_def frame_eqD [OF fr])
  show "find_spec t' = find_spec t" by (intro ext) (simp add: find_spec_def first L)
qed

lemma walk_mono:
  "(\<And>q c i. find_spec t q c = Some i \<Longrightarrow> find_spec t' q c = Some i) \<Longrightarrow> walk t cur cs = Some i \<Longrightarrow> walk t' cur cs = Some i"
  by (induction cs arbitrary: cur) (auto split: option.splits)

lemma chain_not_file:
  assumes "tree_wf r t" "tree_is_dir t q" "\<not> tree_is_dir t i"
  shows "i \<notin> set (parent_chain t q)"
  using parent_chain_up [OF assms(1,2)] assms(3) by blast

text \<open>Inserting a name that was not there.\<close>

lemma insert_found:
  assumes ok: "tree_ok r t" and p: "tree_is_dir t p" and none: "find_spec t p w = None"
    and t': "t' = ancestors p (slot_add sz 1) (linked p (file_slot p w sz mtime) t)"
  shows "find_spec t' p w = Some (node_count t) \<and> tree_slot_at t' (node_count t) = file_slot p w sz mtime \<and>
    node_count t' = Suc (node_count t) \<and> st_volume t' = st_volume t \<and>
    (\<forall>q c i. find_spec t q c = Some i \<longrightarrow> find_spec t' q c = Some i)"
proof -
  note O = tree_okD [OF ok]
  let ?s = "file_slot p w sz mtime"
  have L: "link_step t p ?s" using O(3) p by (simp add: link_step_def file_slot_def)
  let ?t = "linked p ?s t"
  have st: "stamps_ok ?t" by (rule stamps_linked [OF O(1)])
  note A = ancestors_applied [OF st keeps_links_add(1) [of sz 1], of p]
  have first: "find_spec t' = find_spec ?t" using applied_first(2) [OF A(1) keeps_links_add(1) A(2)] by (simp add: t')
  have "node_count t \<notin> set (parent_chain ?t p)"
    using p by (intro chain_not_file [OF linked_wf [OF L O(2)]]) (simp_all add: linked_valid [OF L])
  then have slot: "tree_slot_at t' (node_count t) = ?s" using A(1) by (simp add: applied_def t' linked_slot)
  have new: "find_spec ?t p w = Some (node_count t)"
  proof -
    have "ts_name ?s = w" by (simp add: file_slot_def)
    with none p show ?thesis by (simp add: find_spec_def linked_valid [OF L] linked_first [OF L])
  qed
  have old: "find_spec ?t q c = Some i" if "find_spec t q c = Some i" for q c i
    using that by (auto simp: find_spec_def linked_valid [OF L] linked_first [OF L] split: if_splits)
  have "node_count t' = Suc (node_count t)" "st_volume t' = st_volume t"
    using frame_eqD(1,6) [OF A(2)] by (simp_all add: t' linked_count) (simp add: linked_def)
  with first slot new old show ?thesis by simp
qed

text \<open>
  C9: a path that \<^verbatim>\<open>UpsertFileWithMtime\<close> accepted is found by the next
  lookup, as a file of that name with the size and time just written, provided that whatever the path
  led to before was itself a file of exactly that name.
\<close>

theorem upsert_found:
  assumes "tree_ok r t" "mounted t ms" "list_all plain (vs @ [w])"
    and "bytes_of (tree_slot_at t 0) + unat sz < 2 ^ 64" "files_of (tree_slot_at t 0) + 1 < 2 ^ 64"
    and "\<And>i. walk t 0 (vs @ [w]) = Some i \<Longrightarrow> \<not> tree_is_dir t i \<and> entry_name t i = w"
    and "upsert_file_with_mtime (rooted (ms @ vs @ [w])) sz mtime t = (True, t')"
  shows "\<exists>i. fst (find_node_by_path (rooted (ms @ vs @ [w])) t') = Some i \<and>
    \<not> tree_is_dir t' i \<and> size_of t' i = sz \<and> entry_name t' i = w \<and> ts_mtime (tree_slot_at t' i) = mtime"
  using assms(1-3,7)
proof (cases rule: upsert_cases)
  case (edited p t2)
  note S = same_but_namesE [OF edited(4)]
  have ok2: "tree_ok r t2" by (rule same_but_names_ok [OF assms(1) edited(4,5)])
  have p2: "tree_is_dir t2 p" using edited(3) S by simp
  note F = find_spec_cong [OF edited(4)]
  have fits: "bytes_of (tree_slot_at t2 0) + unat sz < 2 ^ 64" "files_of (tree_slot_at t2 0) + 1 < 2 ^ 64"
    using assms(4,5) by (simp_all add: S)
  obtain r' where ok': "tree_ok r' t'"
    using upsert_at_ok [OF ok2 p2 _ fits, of "find_spec t p w" w mtime] edited(6) F by auto
  have w2: "walk t2 0 vs = Some p" using edited(2) walk_cong [OF edited(4)] by simp
  have "\<exists>i. find_spec t' p w = Some i \<and> i < node_count t' \<and> ts_used (tree_slot_at t' i) \<and> \<not> ts_is_dir (tree_slot_at t' i) \<and>
      ts_size (tree_slot_at t' i) = sz \<and> ts_name (tree_slot_at t' i) = w \<and> ts_mtime (tree_slot_at t' i) = mtime \<and>
      st_volume t' = st_volume t2 \<and> (\<forall>q c i. find_spec t2 q c = Some i \<longrightarrow> find_spec t' q c = Some i)"
  proof (cases "find_spec t p w")
    case None
    then have n: "find_spec t2 p w = None" by (simp add: F)
    have "t' = ancestors p (slot_add sz 1) (linked p (file_slot p w sz mtime) t2)"
      using edited(6) None by (simp add: upsert_at_def)
    from insert_found [OF ok2 p2 n this] show ?thesis by (auto simp: file_slot_def)
  next
    case (Some x)
    note O = tree_okD [OF ok2]
    have x: "x \<in> set (child_list t2 p)" "tree_valid t2 x" using Some F find_spec_child [of t2 p w x] by simp_all
    then have xp: "x \<noteq> 0" "ts_parent (tree_slot_at t2 x) = p" using O(3) by (auto simp: links_ok_def)
    have "walk t 0 (vs @ [w]) = Some x" using edited(2) Some by (simp add: walk_append)
    then have keep: "\<not> tree_is_dir t2 x" "entry_name t2 x = w" using assms(6) S by (auto simp: entry_name_def)
    let ?t = "set_slot x (rewrite_file sz mtime (tree_slot_at t2 x)) t2"
    have t': "t' = ancestors p (resize (size_of t2 x) sz) ?t" using edited(6) Some keep by (simp add: upsert_at_def)
    have n: "x < node_count t2" using x(2) by (simp add: tree_valid_def)
    note ap = set_slot_applied [OF n, of "rewrite_file sz mtime"]
    note L = applied_links [OF ap resize_keeps(2)]
    have st: "stamps_ok ?t" using O(1) by simp
    note A = ancestors_applied [OF st resize_keeps(1) [of "size_of t2 x" sz], of p]
    have wf: "tree_wf r ?t" using applied_transfer(1) [OF ap resize_keeps(2) frame_set] O(2) by simp
    have "x \<notin> set (parent_chain ?t p)" using p2 keep by (intro chain_not_file [OF wf]) (simp_all add: L)
    then have "tree_slot_at t' x = rewrite_file sz mtime (tree_slot_at t2 x)"
      using A(1) n by (simp add: t' applied_def ts.get_put_same)
    moreover have "find_spec t' = find_spec t2"
      using applied_first(2) [OF A(1) resize_keeps(1) A(2)] applied_first(2) [OF ap resize_keeps(2) frame_set] by (simp add: t')
    moreover have "node_count t' = node_count t2" "st_volume t' = st_volume t2"
      using frame_eqD(1,6) [OF A(2)] by (simp_all add: t')
    moreover have "ts_name (tree_slot_at t2 x) = w" "\<not> ts_is_dir (tree_slot_at t2 x)" "ts_used (tree_slot_at t2 x)"
      using keep x(2) by (simp_all add: entry_name_def tree_is_dir_def tree_valid_def)
    ultimately show ?thesis using n Some F by (intro exI [of _ x]) (simp add: rewrite_file_def)
  qed
  then obtain i where i: "find_spec t' p w = Some i" "i < node_count t'" "ts_used (tree_slot_at t' i)" "\<not> ts_is_dir (tree_slot_at t' i)"
    "ts_size (tree_slot_at t' i) = sz" "ts_name (tree_slot_at t' i) = w" "ts_mtime (tree_slot_at t' i) = mtime"
    "st_volume t' = st_volume t2" and mono: "\<And>q c i. find_spec t2 q c = Some i \<Longrightarrow> find_spec t' q c = Some i"
    by blast
  have "walk t' 0 vs = Some p" using mono w2 by (rule walk_mono)
  then have "walk t' 0 (vs @ [w]) = Some i" using i(1) by (simp add: walk_append)
  moreover obtain r'' t'' where f: "find_node_by_path (rooted (ms @ vs @ [w])) t' = (r'', t'')" by fastforce
  moreover have "mounted t' ms" using assms(2) i(8) S by (simp add: mounted_def)
  moreover have "tree_valid t' 0" using tree_okD(7) [OF ok'] tree_is_dir_valid by blast
  ultimately have "fst (find_node_by_path (rooted (ms @ vs @ [w])) t') = Some i"
    using find_node_by_path_walk [OF tree_okD(4) [OF ok'] _ assms(3) _ f] by simp
  with i show ?thesis by (auto simp: tree_is_dir_def size_of_def entry_name_def tree_valid_def)
qed simp

section \<open>A concrete tree\<close>

definition sample_tree :: size_tree where
  "sample_tree =
    \<lparr>st_volume = \<lparr>vol_label = ''disk'', vol_mount = ''/m''\<rparr>,
     st_entries =
       [dead_slot\<lparr>ts_used := True, ts_is_dir := True, ts_size := 12, ts_files := 2\<rparr>,
        dead_slot\<lparr>ts_used := True, ts_is_dir := True, ts_name := ''d'', ts_size := 7, ts_files := 1\<rparr>,
        dead_slot\<lparr>ts_used := True, ts_name := ''a'', ts_size := 7, ts_parent := 1\<rparr>,
        dead_slot\<lparr>ts_used := True, ts_name := ''b'', ts_size := 5\<rparr>],
     st_children = [[1, 3], [2], [], []], st_child_edits = Map.empty, st_child_names = Map.empty,
     st_blocked = [], st_ntfs = False, st_extra = Map.empty, st_base = None, st_overrides = Map.empty,
     st_stamp = [], st_gen = 0\<rparr>"

lemma sample_nodes:
  "node_count sample_tree = 4" "base_count sample_tree = 0"
  "tree_slot_at sample_tree 0 = dead_slot\<lparr>ts_used := True, ts_is_dir := True, ts_size := 12, ts_files := 2\<rparr>"
  "tree_slot_at sample_tree (Suc 0) = dead_slot\<lparr>ts_used := True, ts_is_dir := True, ts_name := ''d'', ts_size := 7, ts_files := 1\<rparr>"
  "tree_slot_at sample_tree 2 = dead_slot\<lparr>ts_used := True, ts_name := ''a'', ts_size := 7, ts_parent := 1\<rparr>"
  "tree_slot_at sample_tree 3 = dead_slot\<lparr>ts_used := True, ts_name := ''b'', ts_size := 5\<rparr>"
  "child_list sample_tree 0 = [1, 3]" "child_list sample_tree (Suc 0) = [2]" "child_list sample_tree 2 = []"
  "child_list sample_tree 3 = []" "4 \<le> p \<Longrightarrow> child_list sample_tree p = []"
  by (simp_all add: sample_tree_def node_count_def base_count_def tree_slot_at_def child_list_def nth_Cons' numeral_eq_Suc)

lemma sample_tree_shape: "st_base sample_tree = None" "length (st_children sample_tree) = 4"
  by (simp_all add: sample_tree_def)

lemma below4: "(i :: nat) < 4 \<longleftrightarrow> i = 0 \<or> i = 1 \<or> i = 2 \<or> i = 3"
  by linarith

lemma sample_valid: "tree_valid sample_tree i \<longleftrightarrow> i < 4" "tree_is_dir sample_tree i \<longleftrightarrow> i = 0 \<or> i = 1"
  by (auto simp: tree_valid_def tree_is_dir_def below4 sample_nodes dead_slot_def)

lemma sample_edge: "tree_edge sample_tree i p \<longleftrightarrow> i = 1 \<and> p = 0 \<or> i = 2 \<and> p = 1 \<or> i = 3 \<and> p = 0"
  by (auto simp: tree_edge_def sample_valid below4 sample_nodes dead_slot_def)

lemma sample_kids: "kids sample_tree 0 = {1, 3}" "kids sample_tree (Suc 0) = {2}"
  by (auto simp: kids_def sample_edge)

lemma sample_ok: "tree_ok (\<lambda>i. i) sample_tree"
proof -
  have "child_list sample_tree p = (if p = 0 then [1, 3] else if p = 1 then [2] else [])" for p
    using sample_nodes below4 [of p] by (cases "p < 4") auto
  then have links: "links_ok sample_tree"
    using sample_nodes by (auto simp: links_ok_def sample_edge sample_valid dead_slot_def sample_tree_shape split: if_splits)
  have "tree_wf (\<lambda>i. i) sample_tree"
    by (auto simp: tree_wf_def sample_valid sample_edge below4 sample_nodes dead_slot_def)
  moreover have "balanced bytes_of sample_tree" "balanced files_of sample_tree"
    by (auto simp: balanced_def sample_valid sample_kids sample_nodes dead_slot_def bytes_of_def files_of_def)
  moreover have "stamps_ok sample_tree" "names_ok sample_tree" by (simp_all add: stamps_ok_def names_ok_def sample_tree_def)
  ultimately show ?thesis using links by (simp add: tree_ok_def)
qed

lemma sample_mounted: "mounted sample_tree [''m'']"
  by (simp add: mounted_def sample_tree_def rooted_def plain_def)

lemma sample_fits: "bytes_of (tree_slot_at sample_tree 0) + unat (10 :: u64) < 2 ^ 64" "files_of (tree_slot_at sample_tree 0) + 1 < 2 ^ 64"
  by (simp_all add: sample_nodes bytes_of_def files_of_def dead_slot_def)

lemma sample_walk: "walk sample_tree 0 [''d''] = Some 1" "walk sample_tree 0 [''d'', ''c''] = None"
  by (simp_all add: find_spec_def first_child_def has_key_def sample_valid sample_nodes dead_slot_def
      ascii_lower_ascii ascii_lower_char_def)

lemma sample_accepts: "fst (upsert_file_with_mtime (rooted ([''m''] @ [''d''] @ [''c''])) 10 0 sample_tree)"
proof -
  obtain res t' where up: "upsert_file_with_mtime (rooted ([''m''] @ [''d''] @ [''c''])) 10 0 sample_tree = (res, t')" by fastforce
  have "list_all plain ([''d''] @ [''c''])" by (simp add: plain_def)
  with sample_ok sample_mounted show ?thesis
    using up by (cases rule: upsert_cases) (use up sample_walk sample_valid in auto)
qed

lemma chain_of_pos: "0 < k \<Longrightarrow> chain_of k t seen i = (if \<not> tree_valid t i \<or> i \<in> seen then []
     else i # (let p = ts_parent (tree_slot_at t i) in if i = 0 \<or> p = i then [] else chain_of (k - 1) t (insert i seen) p))"
  by (cases k) (simp_all del: One_nat_def add: Let_def)

theorem ancestors_once_witness:
  "tree_slot_at (ancestors 1 (slot_add 3 1) sample_tree) 0 = slot_add 3 1 (tree_slot_at sample_tree 0) \<and>
   tree_slot_at (ancestors 1 (slot_add 3 1) sample_tree) 3 = tree_slot_at sample_tree 3"
proof -
  have "parent_chain sample_tree 1 = [1, 0]"
    by (simp add: parent_chain_def chain_of_pos sample_valid sample_nodes dead_slot_def)
  with ancestors_once [OF tree_okD(1) [OF sample_ok] keeps_links_add(1), of 1 3 1] show ?thesis by simp
qed

theorem find_child_first_witness:
  "fst (find_child 0 ''D'' sample_tree) = Some 1"
proof -
  obtain r t' where f: "find_child 0 ''D'' sample_tree = (r, t')" by fastforce
  have "find_spec sample_tree 0 ''D'' = Some 1"
    by (simp add: find_spec_def first_child_def has_key_def sample_valid sample_nodes dead_slot_def
      ascii_lower_ascii ascii_lower_char_def char_of_def bit_0)
  with find_child_first [OF tree_okD(4) [OF sample_ok] f] f show ?thesis by simp
qed

theorem remove_subtree_ok_witness:
  "tree_ok (\<lambda>i. i) (remove_subtree_inplace 1 sample_tree) \<and> \<not> tree_valid (remove_subtree_inplace 1 sample_tree) 2"
proof -
  have "below sample_tree 1 2" by (rule below.under [OF below.top]) (simp_all add: sample_valid sample_edge)
  then show ?thesis using remove_subtree_ok [OF sample_ok, of 1] by (simp add: sample_valid)
qed

theorem upsert_keeps_totals_witness:
  "fst (upsert_file_with_mtime (rooted ([''m''] @ [''d''] @ [''c''])) 10 0 sample_tree) \<and>
   (\<exists>r'. tree_ok r' (snd (upsert_file_with_mtime (rooted ([''m''] @ [''d''] @ [''c''])) 10 0 sample_tree)))"
proof -
  obtain res t' where up: "upsert_file_with_mtime (rooted ([''m''] @ [''d''] @ [''c''])) 10 0 sample_tree = (res, t')" by fastforce
  have "list_all plain ([''d''] @ [''c''])" by (simp add: plain_def)
  from upsert_keeps_totals [OF sample_ok sample_mounted this sample_fits up] show ?thesis
    unfolding up using sample_walk by (simp add: sample_valid)
qed

theorem upsert_found_witness:
  "\<exists>i. fst (find_node_by_path (rooted ([''m''] @ [''d''] @ [''c'']))
      (snd (upsert_file_with_mtime (rooted ([''m''] @ [''d''] @ [''c''])) 10 0 sample_tree))) = Some i"
proof -
  obtain t' where up: "upsert_file_with_mtime (rooted ([''m''] @ [''d''] @ [''c''])) 10 0 sample_tree = (True, t')"
    using sample_accepts by (metis prod.collapse)
  have pl: "list_all plain ([''d''] @ [''c''])" by (simp add: plain_def)
  have "walk sample_tree 0 ([''d''] @ [''c'']) = Some i \<Longrightarrow> \<not> tree_is_dir sample_tree i \<and> entry_name sample_tree i = ''c''" for i
    using sample_walk by simp
  from upsert_found [OF sample_ok sample_mounted pl sample_fits this up] show ?thesis unfolding up by auto
qed

end
