(* ===== verification/Go_Sort.thy ===== *)
theory Go_Sort
  imports Go_Base "HOL-Library.Multiset"
begin

text \<open>
  \<^verbatim>\<open>sort.SliceStable\<close> with a \<^verbatim>\<open>less\<close> function, the order of Go strings, and
  \<^verbatim>\<open>container/heap\<close> by its contract: \<^verbatim>\<open>Push\<close> adds an element, index 0 is a minimum and
  \<^verbatim>\<open>Pop\<close> removes it.  The heap is kept as a sorted list, whose head is that minimum.
\<close>

fun insert_by :: "('a \<Rightarrow> 'a \<Rightarrow> bool) \<Rightarrow> 'a \<Rightarrow> 'a list \<Rightarrow> 'a list" where
  "insert_by lt x [] = [x]"
| "insert_by lt x (y # ys) = (if lt y x then y # insert_by lt x ys else x # y # ys)"

definition sort_by :: "('a \<Rightarrow> 'a \<Rightarrow> bool) \<Rightarrow> 'a list \<Rightarrow> 'a list" where
  "sort_by lt xs = foldr (insert_by lt) xs []"

lemma mset_insert_by [simp]: "mset (insert_by lt x xs) = add_mset x (mset xs)"
  by (induction xs) auto

lemma mset_sort_by [simp]: "mset (sort_by lt xs) = mset xs"
  by (induction xs) (auto simp: sort_by_def)

lemma set_sort_by [simp]: "set (sort_by lt xs) = set xs"
  by (metis mset_sort_by set_mset_mset)

lemma set_insert_by [simp]: "set (insert_by lt x xs) = insert x (set xs)"
  by (induction xs) auto

lemma length_sort_by [simp]: "length (sort_by lt xs) = length xs"
  by (metis mset_sort_by size_mset)

lemma length_insert_by [simp]: "length (insert_by lt x xs) = Suc (length xs)"
  by (induction xs) auto

lemma distinct_sort_by [simp]: "distinct (sort_by lt xs) = distinct xs"
  by (metis mset_sort_by mset_eq_imp_distinct_iff)

text \<open>A \<^verbatim>\<open>less\<close> function that is a strict weak order.\<close>

locale less_fun =
  fixes lt :: "'a \<Rightarrow> 'a \<Rightarrow> bool"
  assumes asym: "lt a b \<Longrightarrow> \<not> lt b a"
    and neg_trans: "\<not> lt a b \<Longrightarrow> \<not> lt b c \<Longrightarrow> \<not> lt a c"
begin

abbreviation not_after :: "'a \<Rightarrow> 'a \<Rightarrow> bool" where
  "not_after a b \<equiv> \<not> lt b a"

lemma sorted_insert_by: "sorted_wrt not_after xs \<Longrightarrow> sorted_wrt not_after (insert_by lt x xs)"
proof (induction xs)
  case (Cons y ys)
  show ?case
  proof (cases "lt y x")
    case True
    with Cons asym [OF True] show ?thesis by simp
  next
    case False
    then have "\<not> lt z x" if "z \<in> set ys" for z
      using Cons.prems that neg_trans [of z y x] by simp
    with False Cons.prems show ?thesis by simp
  qed
qed simp

lemma sorted_sort_by: "sorted_wrt not_after (sort_by lt xs)"
  by (induction xs) (simp_all add: sort_by_def sorted_insert_by)

lemma insert_by_stable:
  "sorted_wrt not_after xs \<Longrightarrow> (\<And>a b. P a \<Longrightarrow> P b \<Longrightarrow> \<not> lt a b) \<Longrightarrow>
   filter P (insert_by lt x xs) = (if P x then x # filter P xs else filter P xs)"
proof (induction xs)
  case (Cons y ys)
  show ?case
  proof (cases "lt y x")
    case True
    then have "\<not> (P x \<and> P y)" using Cons.prems(2) by blast
    with True Cons show ?thesis by auto
  next
    case False
    then show ?thesis by simp
  qed
qed simp

lemma sort_by_stable:
  "(\<And>a b. P a \<Longrightarrow> P b \<Longrightarrow> \<not> lt a b) \<Longrightarrow> filter P (sort_by lt xs) = filter P xs"
proof (induction xs)
  case (Cons x xs)
  have "sort_by lt (x # xs) = insert_by lt x (sort_by lt xs)" by (simp add: sort_by_def)
  with insert_by_stable [OF sorted_sort_by [of xs] Cons.prems, of P x] Cons show ?case by simp
qed (simp add: sort_by_def)

end

fun string_less :: "string \<Rightarrow> string \<Rightarrow> bool" where
  "string_less s [] = False"
| "string_less [] (b # t) = True"
| "string_less (a # s) (b # t) =
    ((of_char a :: nat) < of_char b \<or> a = b \<and> string_less s t)"

lemma string_less_asym: "string_less s t \<Longrightarrow> \<not> string_less t s"
  by (induction s t rule: string_less.induct) auto

lemma string_less_total: "string_less s t \<or> s = t \<or> string_less t s"
proof (induction s t rule: string_less.induct)
  case (1 s)
  then show ?case by (cases s) auto
next
  case (3 a s b t)
  have "a = b" if "\<not> (of_char a :: nat) < of_char b" "\<not> (of_char b :: nat) < of_char a"
    using that by (metis linorder_neqE_nat of_char_eq_iff)
  with 3 show ?case by auto
qed auto

lemma string_less_trans: "string_less s t \<Longrightarrow> string_less t u \<Longrightarrow> string_less s u"
proof (induction s t arbitrary: u rule: string_less.induct)
  case (2 b t)
  then show ?case by (cases u) auto
next
  case (3 a s b t)
  then show ?case by (cases u) (auto intro: less_trans)
qed auto

interpretation strings: less_fun string_less
proof unfold_locales
  fix a b c
  show "string_less a b \<Longrightarrow> \<not> string_less b a" by (rule string_less_asym)
  show "\<not> string_less a b \<Longrightarrow> \<not> string_less b c \<Longrightarrow> \<not> string_less a c"
    using string_less_total string_less_trans by metis
qed

end
