(* ===== verification/Size_Tree_Query.thy ===== *)
theory Size_Tree_Query
  imports Size_Tree_Edit Go_Sort
begin

text \<open>
  The read side of \<^verbatim>\<open>SizeTree\<close>: nodes and listings, counting, compaction, coverage, the
  walk over the files of a subtree, the largest nodes and the search.  \<open>ctx n\<close> is
  \<^verbatim>\<open>ctx.Err() != nil\<close> when polled at slot \<open>n\<close>.
\<close>

section \<open>Nodes and listings\<close>

record node_info =
  nd_idx :: nat
  nd_name :: string
  nd_is_dir :: bool
  nd_size :: u64
  nd_files :: u64
  nd_own :: u64

definition own_size :: "size_tree \<Rightarrow> nat \<Rightarrow> u64" where
  "own_size t idx =
    (if \<not> tree_is_dir t idx then size_of t idx
     else sat_sum (map (size_of t) (filter (\<lambda>c. tree_valid t c \<and> \<not> tree_is_dir t c) (child_list t idx))))"

definition node_of :: "size_tree \<Rightarrow> nat \<Rightarrow> node_info" where
  "node_of t idx =
    \<lparr>nd_idx = idx, nd_name = name_of t idx, nd_is_dir = tree_is_dir t idx, nd_size = size_of t idx,
     nd_files = file_count_of t idx, nd_own = own_size t idx\<rparr>"

definition hidden_ntfs_metadata :: "size_tree \<Rightarrow> nat \<Rightarrow> bool" where
  "hidden_ntfs_metadata t idx =
    (st_ntfs t \<and>
     (let name = entry_name t idx in
      idx < 16 \<and> (prefix ''$'' name \<or> name = ''.'') \<or> is_ntfs_meta_name name))"

definition node_less :: "node_info \<Rightarrow> node_info \<Rightarrow> bool" where
  "node_less a b = (if nd_size a \<noteq> nd_size b then nd_size b < nd_size a else string_less (nd_name a) (nd_name b))"

definition child_indices :: "size_tree \<Rightarrow> nat \<Rightarrow> nat list" where
  "child_indices t idx = (if \<not> tree_valid t idx then [] else child_list t idx)"

definition child_nodes :: "size_tree \<Rightarrow> nat \<Rightarrow> node_info list" where
  "child_nodes t idx =
    sort_by node_less (map (node_of t)
      (filter (\<lambda>c. tree_valid t c \<and> \<not> hidden_ntfs_metadata t c) (child_indices t idx)))"

section \<open>Counting, cloning and compaction\<close>

text \<open>The used counts of a mapped base are header fields, which the loader checked against its records.\<close>

definition counts_slot :: "bool \<Rightarrow> tree_slot \<Rightarrow> bool" where
  "counts_slot directory s \<longleftrightarrow> ts_used s \<and> ts_is_dir s = directory"

definition base_used_count :: "mapped_base \<Rightarrow> bool \<Rightarrow> u64" where
  "base_used_count b directory = le_word (take 8 (drop (if directory then 40 else 32) (mb_header b)))"

definition count_used :: "size_tree \<Rightarrow> bool \<Rightarrow> u64" where
  "count_used t directory =
    (let overlay = (\<lambda>b idx n. case st_overrides t idx of
           None \<Rightarrow> n
         | Some e \<Rightarrow>
             let n1 = (if counts_slot directory (mb_slots b ! idx) then n - 1 else n) in
             if counts_slot directory e then n1 + 1 else n1);
         n0 = (case st_base t of
           None \<Rightarrow> 0
         | Some b \<Rightarrow> fold (overlay b) [0..<length (mb_slots b)] (base_used_count b directory)) in
     fold (\<lambda>e n. if counts_slot directory e then n + 1 else n) (st_entries t) n0)"

definition tree_clone :: "size_tree \<Rightarrow> size_tree" where
  "tree_clone t =
    (let out = t\<lparr>st_child_names := Map.empty, st_stamp := [], st_gen := 0\<rparr> in
     if st_base t \<noteq> None then out\<lparr>st_children := []\<rparr>
     else rebuild_child_arrays (out\<lparr>st_child_edits := Map.empty\<rparr>))"

definition max_parent :: nat where
  "max_parent = 2 ^ 32 - 1"

definition compact_entries :: "size_tree \<Rightarrow> tree_slot list" where
  "compact_entries t =
    map (\<lambda>idx.
        let slot = tree_slot_at t idx;
            e = (if idx = 0 then slot
                 else slot\<lparr>ts_parent := (case used_mapping t 0 (ts_parent slot) of Some p \<Rightarrow> p | None \<Rightarrow> max_parent)\<rparr>) in
        if ts_is_dir e then e\<lparr>ts_size := 0\<rparr> else e)
      (filter (\<lambda>i. ts_used (tree_slot_at t i)) [0..<node_count t])"

section \<open>Coverage and the files of a subtree\<close>

definition set_blocked_subtrees :: "string list \<Rightarrow> size_tree \<Rightarrow> size_tree" where
  "set_blocked_subtrees paths t = t\<lparr>st_blocked := paths\<rparr>"

definition covers_subtree :: "string \<Rightarrow> size_tree \<Rightarrow> bool \<times> size_tree" where
  "covers_subtree path t =
    (case find_node_by_path path t of
       (None, t') \<Rightarrow> (False, t')
     | (Some _, t') \<Rightarrow>
         (\<not> list_ex (\<lambda>b. path_within (ascii_lower path) (ascii_lower b) \<or> path_within (ascii_lower b) (ascii_lower path))
            (st_blocked t'), t'))"

definition ignored_dir_names :: "string list" where
  "ignored_dir_names = [''node_modules'', ''library'', ''appdata'', ''application data'', ''application support'',
     ''local settings'', ''target'', ''dist'', ''build'', ''out'', ''bin'', ''obj'', ''pkg'', ''vendor'', ''pods'',
     ''deriveddata'', ''bower_components'', ''venv'', ''env'', ''__pycache__'', ''cache'', ''caches'', ''temp'', ''tmp'',
     ''logs'', ''gems'', ''site-packages'', ''docs'', ''doc'', ''documentation'', ''manual'', ''sdk'', ''javadoc'',
     ''$recycle.bin'', ''system volume information'']"

definition to_lower_string :: "(nat \<Rightarrow> nat) \<Rightarrow> string \<Rightarrow> string" where
  "to_lower_string ul s = concat (map (\<lambda>r. utf8_encode (to_lower ul r)) (runes s))"

definition is_ignored_dir_name :: "(nat \<Rightarrow> nat) \<Rightarrow> string \<Rightarrow> bool" where
  "is_ignored_dir_name ul name \<longleftrightarrow> prefix ''.'' name \<or> to_lower_string ul name \<in> set ignored_dir_names"

record subtree_file =
  sf_idx :: nat
  sf_size :: u64
  sf_mtime :: u64

text \<open>What one node adds: the sub-directories to visit and the files within the size range.\<close>

definition child_dirs :: "(string \<Rightarrow> bool) \<Rightarrow> size_tree \<Rightarrow> nat \<Rightarrow> nat list" where
  "child_dirs ignored t cur =
    filter (\<lambda>c. tree_valid t c \<and> ts_is_dir (tree_slot_at t c) \<and> \<not> ignored (ts_name (tree_slot_at t c))) (child_list t cur)"

definition child_files :: "size_tree \<Rightarrow> u64 \<Rightarrow> u64 \<Rightarrow> nat \<Rightarrow> subtree_file list" where
  "child_files t mn mx cur =
    map (\<lambda>c. \<lparr>sf_idx = c, sf_size = ts_size (tree_slot_at t c), sf_mtime = ts_mtime (tree_slot_at t c)\<rparr>)
      (filter (\<lambda>c. tree_valid t c \<and> \<not> ts_is_dir (tree_slot_at t c) \<and> mn \<le> ts_size (tree_slot_at t c) \<and>
         ts_size (tree_slot_at t c) \<le> mx) (child_list t cur))"

function collect_loop ::
  "(string \<Rightarrow> bool) \<Rightarrow> size_tree \<Rightarrow> int \<Rightarrow> u64 \<Rightarrow> u64 \<Rightarrow> (nat \<times> int) list \<Rightarrow> nat set \<Rightarrow> subtree_file list \<Rightarrow> subtree_file list"
where
  "collect_loop ignored t max_depth mn mx [] seen out = out"
| "collect_loop ignored t max_depth mn mx ((cur, depth) # stack) seen out =
    (if \<not> tree_valid t cur \<or> cur \<in> seen then collect_loop ignored t max_depth mn mx stack seen out
     else collect_loop ignored t max_depth mn mx
       (rev (if depth < max_depth then map (\<lambda>c. (c, depth + 1)) (child_dirs ignored t cur) else []) @ stack)
       (insert cur seen) (out @ child_files t mn mx cur))"
  by pat_completeness auto
termination
proof (relation "(\<lambda>(_, t, _, _, _, _, seen, _). card (used_nodes t - seen)) <*mlex*> measure (\<lambda>(_, _, _, _, _, stack, _). length stack)", goal_cases)
  case 1
  show ?case by (intro wf_mlex) simp
next
  case 2
  then show ?case by (simp add: mlex_prod_def)
next
  case (3 ignored t max_depth mn mx cur depth stack seen out)
  then have "cur \<in> used_nodes t - seen" by (simp add: used_nodes_def)
  moreover have "used_nodes t - insert cur seen = (used_nodes t - seen) - {cur}" by blast
  ultimately have "card (used_nodes t - insert cur seen) < card (used_nodes t - seen)"
    using card_Diff1_less [of "used_nodes t - seen" cur] by simp
  then show ?case by (simp add: mlex_prod_def)
qed

definition collect_subtree_files ::
  "(nat \<Rightarrow> nat) \<Rightarrow> nat \<Rightarrow> int \<Rightarrow> u64 \<Rightarrow> u64 \<Rightarrow> size_tree \<Rightarrow> subtree_file list" where
  "collect_subtree_files ul root max_depth mn mx t =
    collect_loop (is_ignored_dir_name ul) t max_depth mn mx [(root, 0)] {} []"

section \<open>The largest nodes\<close>

record sized_node =
  sn_size :: u64
  sn_idx :: nat

definition sized_less :: "sized_node \<Rightarrow> sized_node \<Rightarrow> bool" where
  "sized_less a b = (if sn_size a \<noteq> sn_size b then sn_size a < sn_size b else sn_idx a < sn_idx b)"

definition sized_desc :: "sized_node \<Rightarrow> sized_node \<Rightarrow> bool" where
  "sized_desc a b = (if sn_size a \<noteq> sn_size b then sn_size b < sn_size a else sn_idx a < sn_idx b)"

text \<open>One node offered to the heap of the \<open>n\<close> largest; \<open>hidden\<close> is only asked when it would enter.\<close>

definition offer :: "nat \<Rightarrow> (nat \<Rightarrow> bool) \<Rightarrow> sized_node \<Rightarrow> sized_node list \<Rightarrow> sized_node list" where
  "offer n hidden x h =
    (if length h = n \<and> sn_size x \<le> sn_size (hd h) then h
     else if hidden (sn_idx x) then h
     else let h' = insert_by sized_less x h in if n < length h' then tl h' else h')"

definition norm_to_native_path :: "string \<Rightarrow> string" where
  "norm_to_native_path n =
    (let s = map (\<lambda>ch. if ch = backslash then slash else ch) n in
     if s = [] then ''/''
     else if 2 \<le> length s \<and> s ! 1 = CHR '':'' then s
     else if \<not> prefix ''/'' s then slash # s
     else s)"

definition hidden_dir_paths :: "safety_policy \<Rightarrow> string list \<Rightarrow> string \<Rightarrow> string list" where
  "hidden_dir_paths p wl mount =
    (if goos p = ''darwin'' then map norm_to_native_path mac_prefixes @ map (\<lambda>r. ''/Volumes/'' @ r) mac_mounted_roles else []) @
    (if goos p = ''windows'' \<and> windows p \<noteq> [] then
       map (path_join (norm_to_native_path (windows p))) [''System32'', ''SysWOW64'', ''WinSxS'', ''Boot'', ''Fonts'', ''Servicing'']
     else []) @
    (if goos p = ''windows'' then map (path_join mount) [''System Volume Information'', ''$Windows.~BT'', ''Recovery''] else []) @
    wl"

definition mark_hidden :: "string \<Rightarrow> nat set \<times> size_tree \<Rightarrow> nat set \<times> size_tree" where
  "mark_hidden path = (\<lambda>(dirs, t). case find_node_by_path path t of
      (Some idx, t') \<Rightarrow> (insert idx dirs, t') | (None, t') \<Rightarrow> (dirs, t'))"

definition largest_file_hidden_dirs :: "safety_policy \<Rightarrow> string list \<Rightarrow> size_tree \<Rightarrow> nat set \<times> size_tree" where
  "largest_file_hidden_dirs p wl t = fold mark_hidden (hidden_dir_paths p wl (vol_mount (st_volume t))) ({}, t)"

fun under_hidden_loop :: "nat \<Rightarrow> size_tree \<Rightarrow> nat set \<Rightarrow> nat \<Rightarrow> bool" where
  "under_hidden_loop 0 t dirs idx = False"
| "under_hidden_loop (Suc k) t dirs idx =
    (if \<not> tree_valid t idx then False
     else if idx \<in> dirs then True
     else if idx = 0 then False
     else let nxt = ts_parent (tree_slot_at t idx) in
       if nxt = idx then False else under_hidden_loop k t dirs nxt)"

definition under_hidden_largest_dir :: "size_tree \<Rightarrow> nat set \<Rightarrow> nat \<Rightarrow> bool" where
  "under_hidden_largest_dir t dirs idx = (if dirs = {} then False else under_hidden_loop 257 t dirs idx)"

definition top_eligible :: "size_tree \<Rightarrow> bool \<Rightarrow> nat \<Rightarrow> bool" where
  "top_eligible t files_only i =
    (let e = tree_slot_at t i in
     \<not> (\<not> ts_used e \<or> files_only \<and> (ts_is_dir e \<or> ts_size e = 0) \<or> hidden_ntfs_metadata t i) \<and>
     \<not> (files_only \<and> is_ntfs_meta_name (ts_name e)))"

fun top_loop :: "(nat \<Rightarrow> bool) \<Rightarrow> size_tree \<Rightarrow> nat \<Rightarrow> bool \<Rightarrow> nat set \<Rightarrow> nat list \<Rightarrow> sized_node list \<Rightarrow> sized_node list option" where
  "top_loop ctx t n files_only hidden [] h = Some h"
| "top_loop ctx t n files_only hidden (i # is) h =
    (if i mod 4096 = 0 \<and> ctx i then None
     else top_loop ctx t n files_only hidden is
       (if \<not> top_eligible t files_only i then h
        else offer n (\<lambda>j. files_only \<and> under_hidden_largest_dir t hidden j)
          \<lparr>sn_size = ts_size (tree_slot_at t i), sn_idx = i\<rparr> h))"

definition top_nodes ::
  "safety_policy \<Rightarrow> string list \<Rightarrow> (nat \<Rightarrow> bool) \<Rightarrow> int \<Rightarrow> bool \<Rightarrow> size_tree \<Rightarrow> sized_node list \<times> size_tree" where
  "top_nodes p wl ctx n files_only t =
    (if n \<le> 0 then ([], t)
     else
       let (hidden, t') = (if files_only then largest_file_hidden_dirs p wl t else ({}, t)) in
       (case top_loop ctx t' (nat n) files_only hidden [0..<node_count t'] [] of
          None \<Rightarrow> []
        | Some h \<Rightarrow> sort_by sized_desc h, t'))"

definition largest_files :: "safety_policy \<Rightarrow> string list \<Rightarrow> int \<Rightarrow> size_tree \<Rightarrow> node_info list \<times> size_tree" where
  "largest_files p wl n t =
    (let (top, t') = top_nodes p wl (\<lambda>_. False) n True t in (map (\<lambda>e. node_of t' (sn_idx e)) top, t'))"

section \<open>Search\<close>

record search_hit =
  sh_path :: string
  sh_name :: string
  sh_is_dir :: bool
  sh_size :: u64
  sh_mtime :: u64

fun search_loop :: "(nat \<Rightarrow> bool) \<Rightarrow> size_tree \<Rightarrow> name_pattern \<Rightarrow> nat \<Rightarrow> nat list \<Rightarrow> sized_node list \<Rightarrow> sized_node list option" where
  "search_loop ctx t p n [] cs = Some cs"
| "search_loop ctx t p n (i # is) cs =
    (if i mod 4096 = 0 \<and> ctx i then None
     else let e = tree_slot_at t i in
       if ts_used e \<and> \<not> hidden_ntfs_metadata t i \<and> matches_raw p (ts_name e) then
         let cs' = cs @ [\<lparr>sn_size = ts_size e, sn_idx = i\<rparr>] in
         if n \<le> length cs' then Some cs' else search_loop ctx t p n is cs'
       else search_loop ctx t p n is cs)"

definition search_hits :: "size_tree \<Rightarrow> sized_node list \<Rightarrow> search_hit list" where
  "search_hits t cs =
    rev (fst (fold (\<lambda>c (out, cache).
      let e = tree_slot_at t (sn_idx c); (path, cache') = path_of_with t (sn_idx c) cache in
      (if path \<noteq> [] then \<lparr>sh_path = path, sh_name = ts_name e, sh_is_dir = ts_is_dir e, sh_size = ts_size e, sh_mtime = ts_mtime e\<rparr> # out
       else out, cache')) cs ([], Map.empty)))"

definition search_cancellable ::
  "safety_policy \<Rightarrow> string list \<Rightarrow> (nat \<Rightarrow> bool) \<Rightarrow> string \<Rightarrow> int \<Rightarrow> size_tree \<Rightarrow> search_hit list" where
  "search_cancellable pol wl ctx query max_results t =
    (if max_results \<le> 0 then []
     else
       let p = parse_name_pattern query;
           found = (if pattern_empty p then Some (fst (top_nodes pol wl ctx max_results False t))
             else map_option (sort_by (\<lambda>a b. sn_size b < sn_size a))
               (search_loop ctx t p (nat max_results) [0..<node_count t] [])) in
       case found of
         None \<Rightarrow> []
       | Some cs \<Rightarrow> let out = search_hits t cs in if ctx (node_count t) then [] else out)"

section \<open>Trees from snapshots\<close>

record snapshot_entry =
  sn_path :: string
  sn_dir :: bool
  sn_bytes :: u64
  sn_time :: u64

definition path_depth :: "string \<Rightarrow> nat" where
  "path_depth p = length (filter (\<lambda>ch. ch = slash) (path_clean p))"

definition snapshot_step ::
  "volume_id \<Rightarrow> snapshot_entry \<Rightarrow> tree_slot list \<times> (string \<rightharpoonup> nat) \<Rightarrow> tree_slot list \<times> (string \<rightharpoonup> nat)" where
  "snapshot_step vol e = (\<lambda>(entries, paths).
    let path = path_clean (sn_path e) in
    if path = path_clean (vol_mount vol) \<or> \<not> path_within path (vol_mount vol) then (entries, paths)
    else case paths (path_dir path) of
      None \<Rightarrow> (entries, paths)
    | Some parent \<Rightarrow>
        if \<not> ts_is_dir (entries ! parent) then (entries, paths)
        else (entries @ [dead_slot\<lparr>ts_parent := parent, ts_name := path_base path, ts_is_dir := sn_dir e,
                ts_size := sn_bytes e, ts_mtime := sn_time e, ts_used := True\<rparr>],
              paths(path \<mapsto> length entries)))"

definition snapshot_slots :: "volume_id \<Rightarrow> snapshot_entry list \<Rightarrow> tree_slot list" where
  "snapshot_slots vol snap =
    fst (fold (snapshot_step vol) (sort_by (\<lambda>a b. path_depth (sn_path a) < path_depth (sn_path b)) snap)
      ([root_slot vol], [path_clean (vol_mount vol) \<mapsto> 0]))"

end
