(* ===== verification/Size_Tree_Totals.thy ===== *)
theory Size_Tree_Totals
  imports Size_Tree_Chain
begin

text \<open>
  \<^verbatim>\<open>RecomputeAggregates\<close>: the bottom-up roll-up of a tree in memory, whose worklist drains
  directories whose child directories are all done, the per-file walk of a mapped tree, and the
  construction of trees.  The drain loop runs on fuel; one step per node is enough
  (\<open>drain_total\<close>).
\<close>

section \<open>The roll-up\<close>

definition reset_dir :: "tree_slot \<Rightarrow> tree_slot" where
  "reset_dir s = (if ts_is_dir s then s\<lparr>ts_size := 0, ts_files := 0\<rparr> else s)"

definition add_edge :: "nat \<Rightarrow> tree_slot list \<times> u32 list \<Rightarrow> tree_slot list \<times> u32 list" where
  "add_edge i = (\<lambda>(es, pending). case heap_edge es i of
      None \<Rightarrow> (es, pending)
    | Some p \<Rightarrow>
        if ts_is_dir (es ! i) then (es, pending[p := pending ! p + 1])
        else (es[p := slot_add (ts_size (es ! i)) 1 (es ! p)], pending))"

definition edge_pass :: "tree_slot list \<Rightarrow> tree_slot list \<times> u32 list" where
  "edge_pass es = fold add_edge [0..<length es] (map reset_dir es, replicate (length es) 0)"

text \<open>The top of the \<^verbatim>\<open>ready\<close> stack is the head of the list.\<close>

fun drain :: "nat \<Rightarrow> tree_slot list \<Rightarrow> u32 list \<Rightarrow> nat list \<Rightarrow> tree_slot list option" where
  "drain k es pending [] = Some es"
| "drain 0 es pending (d # ready) = None"
| "drain (Suc k) es pending (d # ready) =
    (case heap_edge es d of
       None \<Rightarrow> drain k es pending ready
     | Some p \<Rightarrow>
         let es' = es[p := slot_add (ts_size (es ! d)) (ts_files (es ! d)) (es ! p)];
             pending' = pending[p := pending ! p - 1] in
         drain k es' pending' (if pending' ! p = 0 then p # ready else ready))"

definition ready_dirs :: "tree_slot list \<Rightarrow> u32 list \<Rightarrow> nat list" where
  "ready_dirs es pending =
    rev (filter (\<lambda>i. ts_used (es ! i) \<and> ts_is_dir (es ! i) \<and> pending ! i = 0) [0..<length es])"

definition roll_up :: "tree_slot list \<Rightarrow> tree_slot list option" where
  "roll_up es0 = (let (es, pending) = edge_pass es0 in drain (length es0) es pending (ready_dirs es pending))"

section \<open>Extra hard-link parents\<close>

definition extra_of :: "size_tree \<Rightarrow> nat \<Rightarrow> nat list" where
  "extra_of t i = (case st_extra t i of None \<Rightarrow> [] | Some ps \<Rightarrow> ps)"

definition add_heap_ancestors :: "nat \<Rightarrow> u64 \<Rightarrow> size_tree \<Rightarrow> size_tree" where
  "add_heap_ancestors idx sz t = anc_loop 257 (slot_add sz 1) idx (next_gen t)"

definition add_extra_parents :: "nat \<Rightarrow> size_tree \<Rightarrow> size_tree" where
  "add_extra_parents i t =
    (let e = tree_slot_at t i in
     if \<not> ts_used e \<or> ts_is_dir e then t
     else fold (\<lambda>parent t.
         if parent = ts_parent e \<or> node_count t \<le> parent \<or> \<not> ts_used (tree_slot_at t parent) then t
         else add_heap_ancestors parent (ts_size e) t) (extra_of t i) t)"

definition recompute_heap_aggregates :: "size_tree \<Rightarrow> size_tree option" where
  "recompute_heap_aggregates t =
    (case roll_up (st_entries t) of
       None \<Rightarrow> None
     | Some es \<Rightarrow>
         let t1 = t\<lparr>st_entries := es\<rparr>; n = length es in
         if st_extra t = Map.empty then Some t1
         else
           let t2 = (if length (st_stamp t1) < n then t1\<lparr>st_stamp := replicate n 0\<rparr> else t1) in
           Some (fold add_extra_parents [0..<n] t2))"

section \<open>Mapped trees\<close>

definition reset_node :: "nat \<Rightarrow> size_tree \<Rightarrow> size_tree" where
  "reset_node i t =
    (let s = tree_slot_at t i in if ts_is_dir s then set_slot i (s\<lparr>ts_size := 0, ts_files := 0\<rparr>) t else t)"

definition add_file :: "nat \<Rightarrow> size_tree \<Rightarrow> size_tree" where
  "add_file i t =
    (let e = tree_slot_at t i in
     if \<not> ts_used e \<or> ts_is_dir e then t
     else fold (\<lambda>parent t.
         if parent = ts_parent e \<or> \<not> tree_valid t parent then t
         else ancestors parent (slot_add (ts_size e) 1) t) (extra_of t i)
       (ancestors (ts_parent e) (slot_add (ts_size e) 1) t))"

definition recompute_aggregates :: "size_tree \<Rightarrow> size_tree option" where
  "recompute_aggregates t =
    (if base_count t = 0 then recompute_heap_aggregates t
     else Some (fold add_file [0..<node_count t] (fold reset_node [0..<node_count t] t)))"

section \<open>Construction\<close>

definition heap_tree :: "volume_id \<Rightarrow> tree_slot list \<Rightarrow> size_tree" where
  "heap_tree vol es =
    \<lparr>st_volume = vol, st_entries = es, st_children = [], st_child_edits = Map.empty, st_child_names = Map.empty,
     st_blocked = [], st_ntfs = False, st_extra = Map.empty, st_base = None, st_overrides = Map.empty,
     st_stamp = [], st_gen = 0\<rparr>"

definition new_size_tree_from_slots :: "volume_id \<Rightarrow> tree_slot list \<Rightarrow> size_tree option" where
  "new_size_tree_from_slots vol slots =
    recompute_aggregates (rebuild_child_arrays (heap_tree vol (if slots = [] then [root_slot vol] else slots)))"

text \<open>\<^verbatim>\<open>NewSizeTree\<close> copies the portable entries into slots with no file counts.\<close>

definition new_size_tree :: "volume_id \<Rightarrow> tree_slot list \<Rightarrow> size_tree option" where
  "new_size_tree vol entries =
    new_size_tree_from_slots vol (map (\<lambda>e. e\<lparr>ts_files := 0\<rparr>) (if entries = [] then [root_slot vol] else entries))"

section \<open>The shape of a heap tree\<close>

definition same_shapes :: "tree_slot list \<Rightarrow> tree_slot list \<Rightarrow> bool" where
  "same_shapes es es' \<longleftrightarrow> list_all2 same_shape es es'"

lemma same_shapes_nth:
  assumes "same_shapes es es'"
  shows "length es = length es'" "i < length es \<Longrightarrow> same_shape (es ! i) (es' ! i)"
  using assms by (auto simp: same_shapes_def list_all2_conv_all_nth)

lemma same_shapes_refl [simp]: "same_shapes es es"
  by (simp add: same_shapes_def list_all2_conv_all_nth same_shape_iff)

lemma same_shapes_trans: "same_shapes a b \<Longrightarrow> same_shapes b c \<Longrightarrow> same_shapes a c"
  by (auto simp: same_shapes_def list_all2_conv_all_nth same_shape_iff)

lemma same_shapes_update: "same_shapes es0 es \<Longrightarrow> same_shape (es ! p) s \<Longrightarrow> same_shapes es0 (es[p := s])"
  by (cases "p < length es") (auto simp: same_shapes_def list_all2_conv_all_nth nth_list_update same_shape_def)

lemma same_shape_slot_add: "same_shape s (slot_add a b s)"
  by (simp add: same_shape_iff)

lemma same_shapes_reset: "same_shapes es (map reset_dir es)"
  by (simp add: same_shapes_def list_all2_conv_all_nth same_shape_iff reset_dir_def)

lemma heap_edge_cong: "same_shapes es es' \<Longrightarrow> i < length es \<Longrightarrow> heap_edge es' i = heap_edge es i"
  using same_shapes_nth [of es es'] by (auto simp: heap_edge_def same_shape_iff Let_def not_le)

lemma heap_edge_dir: "heap_edge es i = Some p \<Longrightarrow> p < length es \<and> p \<noteq> i \<and> ts_used (es ! p) \<and> ts_is_dir (es ! p) \<and> ts_used (es ! i)"
  by (auto simp: heap_edge_def Let_def split: if_splits)

section \<open>The drain loop\<close>

definition dir_set :: "tree_slot list \<Rightarrow> nat set" where
  "dir_set es = {i. i < length es \<and> ts_used (es ! i) \<and> ts_is_dir (es ! i)}"

definition sub_dirs :: "tree_slot list \<Rightarrow> nat \<Rightarrow> nat set" where
  "sub_dirs es p = {i. i < length es \<and> heap_edge es i = Some p \<and> ts_is_dir (es ! i)}"

lemma sub_dirs_finite [simp]: "finite (sub_dirs es p)"
  by (simp add: sub_dirs_def)

lemma sub_dirs_dir: "i \<in> sub_dirs es p \<Longrightarrow> i \<in> dir_set es \<and> p \<in> dir_set es \<and> i \<noteq> p"
  using heap_edge_dir by (auto simp: sub_dirs_def dir_set_def)

lemma sub_dirs_fun: "i \<in> sub_dirs es p \<Longrightarrow> i \<in> sub_dirs es q \<Longrightarrow> p = q"
  by (auto simp: sub_dirs_def)

lemma card_sub_dirs: "card (sub_dirs es p - P) \<le> length es"
proof -
  have "card (sub_dirs es p - P) \<le> card {..<length es}" by (rule card_mono) (auto simp: sub_dirs_def)
  then show ?thesis by simp
qed

text \<open>The total of the members of a set of indices, in index order.\<close>

definition total_of :: "(nat \<Rightarrow> u64) \<Rightarrow> nat \<Rightarrow> (nat \<Rightarrow> bool) \<Rightarrow> u64" where
  "total_of f n Q = sat_sum (map f (filter Q [0..<n]))"

lemma total_of_cong: "(\<And>i. i < n \<Longrightarrow> Q i = Q' i) \<Longrightarrow> (\<And>i. i < n \<Longrightarrow> Q i \<Longrightarrow> f i = g i) \<Longrightarrow> total_of f n Q = total_of g n Q'"
  unfolding total_of_def by (intro arg_cong [where f = sat_sum] map_cong filter_cong) auto

lemma total_of_insert:
  assumes "d < n" "\<not> Q d"
  shows "total_of f n (\<lambda>i. Q i \<or> i = d) = saturating_add (total_of f n Q) (f d)"
proof -
  have "mset (filter (\<lambda>i. Q i \<or> i = d) [0..<n]) = mset (filter Q [0..<n]) + {#d#}"
  proof -
    have "[0..<n] = [0..<d] @ d # [Suc d..<n]" using assms(1) upt_add_eq_append [of 0 d "n - d"] upt_conv_Cons [of d n] by simp
    moreover have "filter (\<lambda>i. Q i \<or> i = d) [0..<d] = filter Q [0..<d]"
      "filter (\<lambda>i. Q i \<or> i = d) [Suc d..<n] = filter Q [Suc d..<n]"
      by (auto intro: filter_cong)
    ultimately show ?thesis using assms(2) by simp
  qed
  then have "mset (map f (filter (\<lambda>i. Q i \<or> i = d) [0..<n])) = mset (map f (filter Q [0..<n]) @ [f d])"
    by simp
  then have "sat_sum (map f (filter (\<lambda>i. Q i \<or> i = d) [0..<n])) = sat_sum (map f (filter Q [0..<n]) @ [f d])"
    by (rule sat_sum_perm)
  then show ?thesis by (simp add: total_of_def)
qed

definition drain_inv ::
  "tree_slot list \<Rightarrow> (tree_slot \<Rightarrow> u64) \<Rightarrow> (nat \<Rightarrow> u64) \<Rightarrow> nat set \<Rightarrow> tree_slot list \<Rightarrow> u32 list \<Rightarrow> nat list \<Rightarrow> bool" where
  "drain_inv es0 v own popped es pending ready \<longleftrightarrow>
     same_shapes es0 es \<and> length pending = length es0 \<and>
     (\<forall>p < length es0. pending ! p = of_nat (card (sub_dirs es0 p - popped))) \<and>
     distinct ready \<and> set ready \<inter> popped = {} \<and>
     set ready \<union> popped = {i \<in> dir_set es0. sub_dirs es0 i \<subseteq> popped} \<and>
     (\<forall>p < length es0. v (es ! p) =
        saturating_add (own p) (total_of (\<lambda>i. v (es ! i)) (length es0) (\<lambda>i. i \<in> sub_dirs es0 p \<and> i \<in> popped)))"

definition adds :: "(tree_slot \<Rightarrow> u64) \<Rightarrow> bool" where
  "adds v \<longleftrightarrow> (\<forall>s d. v (slot_add (ts_size d) (ts_files d) s) = saturating_add (v s) (v d))"

lemma adds_fields [simp]: "adds ts_size" "adds ts_files"
  by (simp_all add: adds_def)

lemma drain_inv_skip:
  assumes "drain_inv es0 v own popped es pending (d # ready)" "heap_edge es0 d = None"
  shows "drain_inv es0 v own (insert d popped) es pending ready"
proof -
  have no: "d \<notin> sub_dirs es0 p" for p using assms(2) by (simp add: sub_dirs_def)
  have diff: "sub_dirs es0 p - insert d popped = sub_dirs es0 p - popped"
    and sub: "sub_dirs es0 p \<subseteq> insert d popped \<longleftrightarrow> sub_dirs es0 p \<subseteq> popped"
    and mem: "i \<in> sub_dirs es0 p \<and> i \<in> insert d popped \<longleftrightarrow> i \<in> sub_dirs es0 p \<and> i \<in> popped" for p i
    using no [of p] by auto
  show ?thesis using assms(1) unfolding drain_inv_def diff sub mem by auto
qed

lemma drain_inv_step:
  assumes inv: "drain_inv es0 v own popped es pending (d # ready)" and edge: "heap_edge es0 d = Some p"
    and v: "adds v" and n: "length es0 < 2 ^ 32"
    and es': "es' = es[p := slot_add (ts_size (es ! d)) (ts_files (es ! d)) (es ! p)]"
    and pending': "pending' = pending[p := pending ! p - 1]"
  shows "drain_inv es0 v own (insert d popped) es' pending' (if pending' ! p = 0 then p # ready else ready)"
proof -
  note I = inv [unfolded drain_inv_def]
  have shape: "same_shapes es0 es" and lenp: "length pending = length es0"
    and cards: "\<And>q. q < length es0 \<Longrightarrow> pending ! q = of_nat (card (sub_dirs es0 q - popped))"
    and dist: "distinct (d # ready)" and disj: "set (d # ready) \<inter> popped = {}"
    and todo: "set (d # ready) \<union> popped = {i \<in> dir_set es0. sub_dirs es0 i \<subseteq> popped}"
    using I by blast+
  have len: "length es = length es0" using same_shapes_nth(1) [OF shape] by simp
  have d: "d \<in> dir_set es0" "d \<notin> popped" "d \<notin> set ready" using dist disj todo by auto
  then have ds: "d \<in> sub_dirs es0 p" using edge by (simp add: sub_dirs_def dir_set_def)
  note pd = sub_dirs_dir [OF ds]
  have pn: "p < length es0" using pd by (simp add: dir_set_def)
  have "p \<notin> {i \<in> dir_set es0. sub_dirs es0 i \<subseteq> popped}" using ds d(2) by blast
  then have p_new: "p \<notin> popped" "p \<notin> set ready" unfolding todo [symmetric] by auto
  have other: "q \<noteq> p \<Longrightarrow> d \<notin> sub_dirs es0 q" for q using ds sub_dirs_fun by blast
  have card: "card (sub_dirs es0 p - popped) = Suc (card (sub_dirs es0 p - insert d popped))"
  proof -
    have "sub_dirs es0 p - insert d popped = (sub_dirs es0 p - popped) - {d}" by blast
    then show ?thesis using ds d(2) card_Suc_Diff1 [of "sub_dirs es0 p - popped" d] by simp
  qed
  have pend: "pending' ! q = of_nat (card (sub_dirs es0 q - insert d popped))" if "q < length es0" for q
  proof (cases "q = p")
    case True
    then show ?thesis using pn lenp by (simp add: pending' cards card)
  next
    case False
    then have "sub_dirs es0 q - insert d popped = sub_dirs es0 q - popped" using other by blast
    then show ?thesis using False that by (simp add: pending' cards)
  qed
  have zero: "pending' ! p = 0 \<longleftrightarrow> sub_dirs es0 p \<subseteq> insert d popped"
  proof -
    have "card (sub_dirs es0 p - insert d popped) < 2 ^ 32" using card_sub_dirs n by (rule le_less_trans)
    then have "unat (of_nat (card (sub_dirs es0 p - insert d popped)) :: u32) = card (sub_dirs es0 p - insert d popped)"
      by (simp add: unat_of_nat)
    then have "pending' ! p = 0 \<longleftrightarrow> card (sub_dirs es0 p - insert d popped) = 0"
      unfolding pend [OF pn] by (metis unat_eq_zero)
    then show ?thesis by auto
  qed
  have ins: "sub_dirs es0 i \<subseteq> insert d popped \<longleftrightarrow> (if i = p then pending' ! p = 0 else sub_dirs es0 i \<subseteq> popped)" for i
    using zero other [of i] by auto
  have notp: "\<not> sub_dirs es0 p \<subseteq> popped" using ds d(2) by blast
  have todo': "i = d \<or> i \<in> set ready \<or> i \<in> popped \<longleftrightarrow> i \<in> dir_set es0 \<and> sub_dirs es0 i \<subseteq> popped" for i
    using todo by auto
  have ready_eq: "set (if pending' ! p = 0 then p # ready else ready) \<union> insert d popped =
      {i \<in> dir_set es0. sub_dirs es0 i \<subseteq> insert d popped}"
    unfolding ins using todo' notp pd by (auto split: if_splits)
  have vals: "v (es' ! i) = (if i = p then saturating_add (v (es ! p)) (v (es ! d)) else v (es ! i))" for i
    using v pn by (simp add: es' len adds_def)
  have sizes: "v (es' ! q) = saturating_add (own q)
      (total_of (\<lambda>i. v (es' ! i)) (length es0) (\<lambda>i. i \<in> sub_dirs es0 q \<and> i \<in> insert d popped))" if q: "q < length es0" for q
  proof -
    have old: "v (es ! q) = saturating_add (own q)
        (total_of (\<lambda>i. v (es ! i)) (length es0) (\<lambda>i. i \<in> sub_dirs es0 q \<and> i \<in> popped))" using I q by blast
    have same: "total_of (\<lambda>i. v (es' ! i)) (length es0) (\<lambda>i. i \<in> sub_dirs es0 q \<and> i \<in> popped) =
        total_of (\<lambda>i. v (es ! i)) (length es0) (\<lambda>i. i \<in> sub_dirs es0 q \<and> i \<in> popped)"
      using p_new by (intro total_of_cong) (auto simp: vals)
    show ?thesis
    proof (cases "q = p")
      case True
      have "total_of (\<lambda>i. v (es' ! i)) (length es0) (\<lambda>i. i \<in> sub_dirs es0 q \<and> i \<in> insert d popped) =
          total_of (\<lambda>i. v (es' ! i)) (length es0) (\<lambda>i. i \<in> sub_dirs es0 q \<and> i \<in> popped \<or> i = d)"
        using ds True by (intro total_of_cong) auto
      also have "\<dots> = saturating_add (total_of (\<lambda>i. v (es' ! i)) (length es0) (\<lambda>i. i \<in> sub_dirs es0 q \<and> i \<in> popped)) (v (es' ! d))"
        using d by (intro total_of_insert) (auto simp: dir_set_def)
      finally show ?thesis using True old same pd by (simp add: vals sat.assoc)
    next
      case False
      then have "total_of (\<lambda>i. v (es' ! i)) (length es0) (\<lambda>i. i \<in> sub_dirs es0 q \<and> i \<in> insert d popped) =
          total_of (\<lambda>i. v (es' ! i)) (length es0) (\<lambda>i. i \<in> sub_dirs es0 q \<and> i \<in> popped)"
        using other by (intro total_of_cong) auto
      with False old same show ?thesis by (simp add: vals)
    qed
  qed
  have "same_shapes es0 es'" unfolding es' by (rule same_shapes_update [OF shape same_shape_slot_add])
  moreover have "distinct (if pending' ! p = 0 then p # ready else ready)" using dist p_new by simp
  moreover have "set (if pending' ! p = 0 then p # ready else ready) \<inter> insert d popped = {}"
    using disj d p_new pd by auto
  moreover have "length pending' = length es0" using lenp by (simp add: pending')
  ultimately show ?thesis unfolding drain_inv_def using pend ready_eq sizes by blast
qed

lemma drain_total:
  assumes "drain_inv es0 ts_size own1 popped es pending ready" "drain_inv es0 ts_files own2 popped es pending ready"
    and n: "length es0 < 2 ^ 32" and k: "card (dir_set es0 - popped) \<le> k"
  shows "\<exists>es' pending' popped'. drain k es pending ready = Some es' \<and>
    drain_inv es0 ts_size own1 popped' es' pending' [] \<and> drain_inv es0 ts_files own2 popped' es' pending' []"
  using assms(1,2) k
proof (induction k arbitrary: popped es pending ready)
  case 0
  have "dir_set es0 \<subseteq> popped" using 0(3) by (simp add: dir_set_def)
  moreover have "set ready \<subseteq> dir_set es0" "set ready \<inter> popped = {}" using 0(1) unfolding drain_inv_def by blast+
  ultimately have "ready = []" by (cases ready) auto
  with 0 show ?case by auto
next
  case (Suc k)
  show ?case
  proof (cases ready)
    case Nil
    with Suc.prems show ?thesis by auto
  next
    case (Cons d ready')
    note i1 = Suc.prems(1) [unfolded Cons] and i2 = Suc.prems(2) [unfolded Cons]
    have d: "d \<in> dir_set es0 - popped" using i1 unfolding drain_inv_def by auto
    have "dir_set es0 - insert d popped = (dir_set es0 - popped) - {d}" by blast
    then have k': "card (dir_set es0 - insert d popped) \<le> k"
      using d Suc.prems(3) card_Diff1_less [of "dir_set es0 - popped" d] by (simp add: dir_set_def)
    have dn: "d < length es0" using d by (simp add: dir_set_def)
    have shape: "same_shapes es0 es" using i1 unfolding drain_inv_def by blast
    then have cong: "heap_edge es d = heap_edge es0 d" using dn by (rule heap_edge_cong)
    show ?thesis
    proof (cases "heap_edge es0 d")
      case None
      from Suc.IH [OF drain_inv_skip [OF i1 None] drain_inv_skip [OF i2 None] k'] None Cons cong show ?thesis by simp
    next
      case (Some p)
      let ?es = "es[p := slot_add (ts_size (es ! d)) (ts_files (es ! d)) (es ! p)]"
      let ?pending = "pending[p := pending ! p - 1]"
      from Suc.IH [OF drain_inv_step [OF i1 Some adds_fields(1) n refl refl] drain_inv_step [OF i2 Some adds_fields(2) n refl refl] k']
      show ?thesis using Some Cons cong by (simp add: Let_def)
    qed
  qed
qed

section \<open>The pass over the edges\<close>

lemma total_of_Suc: "total_of f (Suc n) Q = (if Q n then saturating_add (total_of f n Q) (f n) else total_of f n Q)"
  by (simp add: total_of_def)

lemma total_of_none: "(\<And>i. i < n \<Longrightarrow> \<not> Q i) \<Longrightarrow> total_of f n Q = 0"
  unfolding total_of_def by (subst filter_False) auto

lemma total_of_split:
  "total_of f n Q = saturating_add (total_of f n (\<lambda>i. Q i \<and> \<not> D i)) (total_of f n (\<lambda>i. Q i \<and> D i))"
  by (induction n) (simp_all add: total_of_Suc total_of_none sat.assoc sat.commute sat.left_commute)

definition file_edge :: "tree_slot list \<Rightarrow> nat \<Rightarrow> nat \<Rightarrow> bool" where
  "file_edge es p i \<longleftrightarrow> heap_edge es i = Some p \<and> \<not> ts_is_dir (es ! i)"

definition edge_inv :: "tree_slot list \<Rightarrow> nat \<Rightarrow> tree_slot list \<times> u32 list \<Rightarrow> bool" where
  "edge_inv es0 k = (\<lambda>(es, pending). same_shapes es0 es \<and> length pending = length es0 \<and>
    (\<forall>p < length es0. pending ! p = of_nat (card {i \<in> sub_dirs es0 p. i < k}) \<and>
      ts_size (es ! p) = saturating_add (ts_size (reset_dir (es0 ! p))) (total_of (\<lambda>i. ts_size (es0 ! i)) k (file_edge es0 p)) \<and>
      ts_files (es ! p) = saturating_add (ts_files (reset_dir (es0 ! p))) (total_of (\<lambda>i. 1) k (file_edge es0 p))))"

lemma edge_inv_step:
  assumes inv: "edge_inv es0 k (es, pending)" and k: "k < length es0"
  shows "edge_inv es0 (Suc k) (add_edge k (es, pending))"
proof -
  have shape: "same_shapes es0 es" and len: "length pending = length es0" "length es = length es0"
    using inv same_shapes_nth(1) [of es0 es] by (auto simp: edge_inv_def)
  note old = inv [unfolded edge_inv_def, simplified, THEN conjunct2, THEN conjunct2, rule_format]
  have cong: "heap_edge es k = heap_edge es0 k" and dir: "ts_is_dir (es ! k) = ts_is_dir (es0 ! k)"
    using heap_edge_cong [OF shape k] same_shapes_nth(2) [OF shape k] by (simp_all add: same_shape_iff)
  have sub: "{i \<in> sub_dirs es0 p. i < Suc k} =
      (if heap_edge es0 k = Some p \<and> ts_is_dir (es0 ! k) then insert k {i \<in> sub_dirs es0 p. i < k} else {i \<in> sub_dirs es0 p. i < k})" for p
    using k by (auto simp: sub_dirs_def less_Suc_eq)
  have file_size: "ts_size (es ! k) = ts_size (es0 ! k)" if "\<not> ts_is_dir (es0 ! k)"
  proof -
    have "\<not> file_edge es0 k i" for i using that heap_edge_dir by (auto simp: file_edge_def)
    with that old [OF k] show ?thesis by (simp add: total_of_none reset_dir_def)
  qed
  show ?thesis
  proof (cases "heap_edge es0 k")
    case None
    then show ?thesis using inv cong by (simp add: edge_inv_def add_edge_def sub total_of_Suc file_edge_def)
  next
    case (Some p)
    then have p: "p < length es0" "p \<noteq> k" using heap_edge_dir by blast+
    show ?thesis
    proof (cases "ts_is_dir (es0 ! k)")
      case True
      then have "add_edge k (es, pending) = (es, pending[p := pending ! p + 1])" using Some cong dir by (simp add: add_edge_def)
      then show ?thesis using True Some p shape len old
        by (auto simp: edge_inv_def sub total_of_Suc file_edge_def nth_list_update)
    next
      case False
      then have "add_edge k (es, pending) = (es[p := slot_add (ts_size (es ! k)) 1 (es ! p)], pending)"
        using Some cong dir by (simp add: add_edge_def)
      then show ?thesis using False Some p shape len old file_size
        by (auto simp: edge_inv_def sub total_of_Suc file_edge_def nth_list_update sat.assoc
            intro: same_shapes_update same_shape_slot_add)
    qed
  qed
qed

lemma edge_inv_start: "edge_inv es0 0 (map reset_dir es0, replicate (length es0) 0)"
  by (simp add: edge_inv_def same_shapes_reset total_of_def)

lemma edge_inv_all: "k \<le> length es0 \<Longrightarrow> edge_inv es0 k (fold add_edge [0..<k] (map reset_dir es0, replicate (length es0) 0))"
proof (induction k)
  case (Suc k)
  obtain es pending where eq: "fold add_edge [0..<k] (map reset_dir es0, replicate (length es0) 0) = (es, pending)" by fastforce
  from Suc have "edge_inv es0 k (es, pending)" by (simp add: eq)
  from edge_inv_step [OF this] Suc.prems show ?case by (simp add: eq)
qed (simp add: edge_inv_start)

section \<open>The totals\<close>

text \<open>Edges lead downwards: a rank decreases along every parent link.\<close>

definition acyclic_edges :: "tree_slot list \<Rightarrow> bool" where
  "acyclic_edges es \<longleftrightarrow> (\<exists>r :: nat \<Rightarrow> nat. \<forall>i < length es. \<forall>p. heap_edge es i = Some p \<longrightarrow> r p < r i)"

definition files_in :: "tree_slot \<Rightarrow> u64" where
  "files_in s = (if ts_is_dir s then ts_files s else 1)"

lemma all_popped:
  assumes "drain_inv es0 v own popped es pending []" "acyclic_edges es0"
  shows "dir_set es0 \<subseteq> popped"
proof -
  obtain r :: "nat \<Rightarrow> nat" where r: "heap_edge es0 i = Some p \<Longrightarrow> i < length es0 \<Longrightarrow> r p < r i" for i p
    using assms(2) unfolding acyclic_edges_def by blast
  define m where "m = Max (insert 0 (r ` dir_set es0))"
  have m: "d \<in> dir_set es0 \<Longrightarrow> r d \<le> m" for d by (simp add: m_def dir_set_def)
  have "d \<in> dir_set es0 \<Longrightarrow> d \<in> popped" for d
  proof (induction "m - r d" arbitrary: d rule: less_induct)
    case less
    have "i \<in> popped" if "i \<in> sub_dirs es0 d" for i
    proof -
      have "r d < r i" "i \<in> dir_set es0" using that r sub_dirs_dir by (auto simp: sub_dirs_def)
      then show ?thesis using less.hyps [of i] m [of i] by simp
    qed
    then have "d \<in> {i \<in> dir_set es0. sub_dirs es0 i \<subseteq> popped}" using less.prems by blast
    moreover have "popped = {i \<in> dir_set es0. sub_dirs es0 i \<subseteq> popped}"
      using assms(1) unfolding drain_inv_def by simp
    ultimately show ?case by blast
  qed
  then show ?thesis by blast
qed

lemma roll_up_some:
  assumes n: "length es0 < 2 ^ 32"
  shows "\<exists>es own1 own2 pending popped. roll_up es0 = Some es \<and>
    drain_inv es0 ts_size own1 popped es pending [] \<and> drain_inv es0 ts_files own2 popped es pending [] \<and>
    (\<forall>p < length es0. own1 p = saturating_add (ts_size (reset_dir (es0 ! p))) (total_of (\<lambda>i. ts_size (es0 ! i)) (length es0) (file_edge es0 p)) \<and>
      own2 p = saturating_add (ts_files (reset_dir (es0 ! p))) (total_of (\<lambda>i. 1) (length es0) (file_edge es0 p)))"
proof -
  obtain es1 pending where e: "edge_pass es0 = (es1, pending)" by fastforce
  have inv: "edge_inv es0 (length es0) (es1, pending)" using edge_inv_all [of "length es0" es0] e by (simp add: edge_pass_def)
  then have shape: "same_shapes es0 es1" and len: "length es1 = length es0" "length pending = length es0"
    using same_shapes_nth(1) [of es0 es1] by (auto simp: edge_inv_def)
  have "{i \<in> sub_dirs es0 p. i < length es0} = sub_dirs es0 p" for p by (auto simp: sub_dirs_def)
  with inv have pend: "p < length es0 \<Longrightarrow> pending ! p = of_nat (card (sub_dirs es0 p))" for p by (simp add: edge_inv_def)
  have zero: "pending ! p = 0 \<longleftrightarrow> sub_dirs es0 p \<subseteq> {}" if "p < length es0" for p
  proof -
    have "card (sub_dirs es0 p) < 2 ^ 32" using card_sub_dirs [of es0 p "{}"] n by simp
    then have "unat (of_nat (card (sub_dirs es0 p)) :: u32) = card (sub_dirs es0 p)" by (simp add: unat_of_nat)
    then have "pending ! p = 0 \<longleftrightarrow> card (sub_dirs es0 p) = 0" unfolding pend [OF that] by (metis unat_eq_zero)
    then show ?thesis by simp
  qed
  have ready: "set (ready_dirs es1 pending) = {i \<in> dir_set es0. sub_dirs es0 i \<subseteq> {}}"
    using zero same_shapes_nth(2) [OF shape] by (auto simp: ready_dirs_def dir_set_def len same_shape_iff)
  have start: "drain_inv es0 v (\<lambda>p. v (es1 ! p)) {} es1 pending (ready_dirs es1 pending)" for v
    using shape len pend ready by (simp add: drain_inv_def total_of_none ready_dirs_def)
  have "card (dir_set es0 - {}) \<le> card {..<length es0}" by (rule card_mono) (auto simp: dir_set_def)
  then obtain es' pending' popped where "drain (length es0) es1 pending (ready_dirs es1 pending) = Some es'"
    "drain_inv es0 ts_size (\<lambda>p. ts_size (es1 ! p)) popped es' pending' []"
    "drain_inv es0 ts_files (\<lambda>p. ts_files (es1 ! p)) popped es' pending' []"
    using drain_total [OF start start n, of "length es0"] by auto
  moreover have "\<forall>p < length es0. ts_size (es1 ! p) = saturating_add (ts_size (reset_dir (es0 ! p))) (total_of (\<lambda>i. ts_size (es0 ! i)) (length es0) (file_edge es0 p)) \<and>
      ts_files (es1 ! p) = saturating_add (ts_files (reset_dir (es0 ! p))) (total_of (\<lambda>i. 1) (length es0) (file_edge es0 p))"
    using inv by (simp add: edge_inv_def)
  ultimately show ?thesis unfolding roll_up_def e by (simp add: Let_def) blast
qed

lemma roll_up_totals:
  assumes n: "length es0 < 2 ^ 32" and acyclic: "acyclic_edges es0"
  shows "\<exists>es. roll_up es0 = Some es \<and> same_shapes es0 es \<and>
    (\<forall>p < length es0.
      (if p \<in> dir_set es0 then
         ts_size (es ! p) = total_of (\<lambda>i. ts_size (es ! i)) (length es0) (\<lambda>i. heap_edge es0 i = Some p) \<and>
         ts_files (es ! p) = total_of (\<lambda>i. files_in (es ! i)) (length es0) (\<lambda>i. heap_edge es0 i = Some p)
       else ts_size (es ! p) = ts_size (reset_dir (es0 ! p)) \<and> ts_files (es ! p) = ts_files (reset_dir (es0 ! p))))"
proof -
  obtain es own1 own2 pending popped where up: "roll_up es0 = Some es"
    and inv1: "drain_inv es0 ts_size own1 popped es pending []" and inv2: "drain_inv es0 ts_files own2 popped es pending []"
    and own: "\<And>p. p < length es0 \<Longrightarrow> own1 p = saturating_add (ts_size (reset_dir (es0 ! p))) (total_of (\<lambda>i. ts_size (es0 ! i)) (length es0) (file_edge es0 p)) \<and>
      own2 p = saturating_add (ts_files (reset_dir (es0 ! p))) (total_of (\<lambda>i. 1) (length es0) (file_edge es0 p))"
    using roll_up_some [OF n] by blast
  have shape: "same_shapes es0 es" using inv1 unfolding drain_inv_def by blast
  note popped = all_popped [OF inv1 acyclic]
  have dirs: "i \<in> sub_dirs es0 p \<and> i \<in> popped \<longleftrightarrow> heap_edge es0 i = Some p \<and> ts_is_dir (es0 ! i)" if "i < length es0" for i p
    using popped that sub_dirs_dir by (auto simp: sub_dirs_def)
  have val: "v (es ! p) = saturating_add (own p)
      (total_of (\<lambda>i. v (es ! i)) (length es0) (\<lambda>i. heap_edge es0 i = Some p \<and> ts_is_dir (es0 ! i)))"
    if "drain_inv es0 v own popped es pending []" "p < length es0" for v own p
  proof -
    have "total_of (\<lambda>i. v (es ! i)) (length es0) (\<lambda>i. i \<in> sub_dirs es0 p \<and> i \<in> popped) =
        total_of (\<lambda>i. v (es ! i)) (length es0) (\<lambda>i. heap_edge es0 i = Some p \<and> ts_is_dir (es0 ! i))"
      using dirs by (intro total_of_cong) auto
    then show ?thesis using that unfolding drain_inv_def by simp
  qed
  have plain: "ts_size (es ! p) = ts_size (reset_dir (es0 ! p)) \<and> ts_files (es ! p) = ts_files (reset_dir (es0 ! p))"
    if "p < length es0" "p \<notin> dir_set es0" for p
  proof -
    have "heap_edge es0 i \<noteq> Some p" for i using that heap_edge_dir [of es0 i p] by (auto simp: dir_set_def)
    then show ?thesis using val [OF inv1 that(1)] val [OF inv2 that(1)] own [OF that(1)] by (simp add: total_of_none file_edge_def)
  qed
  have files: "ts_size (es ! i) = ts_size (es0 ! i)" if "i < length es0" "\<not> ts_is_dir (es0 ! i)" for i
    using plain [of i] that by (simp add: dir_set_def reset_dir_def)
  have dir: "ts_size (es ! p) = total_of (\<lambda>i. ts_size (es ! i)) (length es0) (\<lambda>i. heap_edge es0 i = Some p) \<and>
      ts_files (es ! p) = total_of (\<lambda>i. files_in (es ! i)) (length es0) (\<lambda>i. heap_edge es0 i = Some p)"
    if "p < length es0" "p \<in> dir_set es0" for p
  proof -
    have d: "ts_is_dir (es0 ! p)" using that by (simp add: dir_set_def)
    have isdir: "ts_is_dir (es ! i) = ts_is_dir (es0 ! i)" if "i < length es0" for i
      using same_shapes_nth(2) [OF shape that] by (simp add: same_shape_iff)
    have "total_of (\<lambda>i. ts_size (es0 ! i)) (length es0) (file_edge es0 p) =
        total_of (\<lambda>i. ts_size (es ! i)) (length es0) (\<lambda>i. heap_edge es0 i = Some p \<and> \<not> ts_is_dir (es0 ! i))"
      using files by (intro total_of_cong) (auto simp: file_edge_def)
    moreover have "total_of (\<lambda>i. 1) (length es0) (file_edge es0 p) =
        total_of (\<lambda>i. files_in (es ! i)) (length es0) (\<lambda>i. heap_edge es0 i = Some p \<and> \<not> ts_is_dir (es0 ! i))"
      by (intro total_of_cong) (auto simp: file_edge_def files_in_def isdir)
    moreover have "total_of (\<lambda>i. ts_files (es ! i)) (length es0) (\<lambda>i. heap_edge es0 i = Some p \<and> ts_is_dir (es0 ! i)) =
        total_of (\<lambda>i. files_in (es ! i)) (length es0) (\<lambda>i. heap_edge es0 i = Some p \<and> ts_is_dir (es0 ! i))"
      by (intro total_of_cong) (auto simp: files_in_def isdir)
    ultimately show ?thesis using val [OF inv1 that(1)] val [OF inv2 that(1)] own [OF that(1)] d
      total_of_split [of "\<lambda>i. ts_size (es ! i)" "length es0" "\<lambda>i. heap_edge es0 i = Some p" "\<lambda>i. ts_is_dir (es0 ! i)"]
      total_of_split [of "\<lambda>i. files_in (es ! i)" "length es0" "\<lambda>i. heap_edge es0 i = Some p" "\<lambda>i. ts_is_dir (es0 ! i)"]
      by (simp add: reset_dir_def)
  qed
  show ?thesis using up shape plain dir by (intro exI [of _ es]) simp
qed

text \<open>
  C10: building a tree always returns, whatever parent links the entries hold;
  directories on a cycle are left undrained and do not keep the worklist going.
\<close>

theorem new_tree_returns:
  assumes "length slots < 2 ^ 32"
  shows "\<exists>t. new_size_tree_from_slots vol slots = Some t"
proof -
  let ?es = "if slots = [] then [root_slot vol] else slots"
  have "length ?es < 2 ^ 32" using assms by simp
  then obtain es where "roll_up ?es = Some es" using roll_up_some by blast
  then show ?thesis
    by (simp add: new_size_tree_from_slots_def recompute_aggregates_def recompute_heap_aggregates_def
        rebuild_child_arrays_def heap_tree_def base_count_def Let_def split: if_splits)
qed

theorem new_tree_returns_witness:
  "\<exists>t. new_size_tree_from_slots \<lparr>vol_label = ''d'', vol_mount = ''/''\<rparr>
     [dead_slot\<lparr>ts_used := True, ts_is_dir := True\<rparr>, dead_slot\<lparr>ts_used := True, ts_is_dir := True, ts_parent := 2\<rparr>,
      dead_slot\<lparr>ts_used := True, ts_is_dir := True, ts_parent := 1\<rparr>] = Some t"
  by (rule new_tree_returns) simp

definition tree_of_slots :: "volume_id \<Rightarrow> tree_slot list \<Rightarrow> tree_slot list \<Rightarrow> size_tree" where
  "tree_of_slots vol es0 es = (heap_tree vol es0)\<lparr>st_children := heap_children es0, st_entries := es\<rparr>"

lemma new_tree_eq:
  "slots \<noteq> [] \<Longrightarrow> roll_up slots = Some es \<Longrightarrow> new_size_tree_from_slots vol slots = Some (tree_of_slots vol slots es)"
  by (simp add: new_size_tree_from_slots_def recompute_aggregates_def recompute_heap_aggregates_def
      rebuild_child_arrays_def heap_tree_def base_count_def Let_def tree_of_slots_def)

lemma tree_of_slots_access:
  "node_count (tree_of_slots vol es0 es) = length es"
  "i < length es \<Longrightarrow> tree_slot_at (tree_of_slots vol es0 es) i = es ! i"
  "child_list (tree_of_slots vol es0 es) p = (if p < length (heap_children es0) then heap_children es0 ! p else [])"
  by (simp_all add: tree_of_slots_def heap_tree_def node_count_def base_count_def tree_slot_at_def child_list_def)

lemma length_heap_children [simp]: "length (heap_children es) = length es"
proof -
  have "length (fold (\<lambda>i ch. case heap_edge es i of None \<Rightarrow> ch | Some p \<Rightarrow> ch[p := ch ! p @ [i]]) is ch) = length ch" for "is" ch
    by (induction "is" arbitrary: ch) (simp_all split: option.splits)
  then show ?thesis by (simp add: heap_children_def)
qed

lemma total_of_children:
  "p < length es \<Longrightarrow> total_of f (length es) (\<lambda>i. heap_edge es i = Some p) = sat_sum (map f (heap_children es ! p))"
proof -
  assume p: "p < length es"
  have "heap_edge es 0 \<noteq> Some p" by (simp add: heap_edge_def Let_def)
  moreover have "[0..<length es] = 0 # [1..<length es]" using upt_conv_Cons [OF le_less_trans [OF le0 p]] by simp
  ultimately show ?thesis by (simp add: total_of_def heap_children_nth [OF p])
qed

text \<open>
  C7: in a new tree whose parent links have no cycle, the size and file count of
  every directory are the saturating sums of those of its children, a child being listed exactly
  once under its parent and counting one file unless it is itself a directory.
\<close>

theorem new_tree_totals:
  assumes "slots \<noteq> []" "length slots < 2 ^ 32" "acyclic_edges slots"
  shows "\<exists>t. new_size_tree_from_slots vol slots = Some t \<and> node_count t = length slots \<and>
    (\<forall>i < length slots. same_shape (slots ! i) (tree_slot_at t i) \<and>
       (\<not> ts_is_dir (slots ! i) \<longrightarrow> ts_size (tree_slot_at t i) = ts_size (slots ! i))) \<and>
    (\<forall>p. tree_is_dir t p \<longrightarrow>
       size_of t p = sat_sum (map (size_of t) (child_list t p)) \<and>
       file_count_of t p = sat_sum (map (file_count_of t) (child_list t p)) \<and>
       child_list t p = filter (\<lambda>i. heap_edge slots i = Some p) [1..<length slots])"
proof -
  obtain es where up: "roll_up slots = Some es" and shape: "same_shapes slots es"
    and keep: "\<And>i. i < length slots \<Longrightarrow> \<not> ts_is_dir (slots ! i) \<Longrightarrow> ts_size (es ! i) = ts_size (slots ! i)"
    and tot: "\<And>p. p < length slots \<Longrightarrow> p \<in> dir_set slots \<Longrightarrow>
         ts_size (es ! p) = total_of (\<lambda>i. ts_size (es ! i)) (length slots) (\<lambda>i. heap_edge slots i = Some p) \<and>
         ts_files (es ! p) = total_of (\<lambda>i. files_in (es ! i)) (length slots) (\<lambda>i. heap_edge slots i = Some p)"
  proof -
    obtain es where es: "roll_up slots = Some es" "same_shapes slots es"
      "\<And>p. p < length slots \<Longrightarrow>
      (if p \<in> dir_set slots then
         ts_size (es ! p) = total_of (\<lambda>i. ts_size (es ! i)) (length slots) (\<lambda>i. heap_edge slots i = Some p) \<and>
         ts_files (es ! p) = total_of (\<lambda>i. files_in (es ! i)) (length slots) (\<lambda>i. heap_edge slots i = Some p)
       else ts_size (es ! p) = ts_size (reset_dir (slots ! p)) \<and> ts_files (es ! p) = ts_files (reset_dir (slots ! p)))"
      using roll_up_totals [OF assms(2,3)] by blast
    have "ts_size (es ! i) = ts_size (slots ! i)" if "i < length slots" "\<not> ts_is_dir (slots ! i)" for i
      using es(3) [OF that(1)] that by (simp add: dir_set_def reset_dir_def)
    moreover have "ts_size (es ! p) = total_of (\<lambda>i. ts_size (es ! i)) (length slots) (\<lambda>i. heap_edge slots i = Some p) \<and>
         ts_files (es ! p) = total_of (\<lambda>i. files_in (es ! i)) (length slots) (\<lambda>i. heap_edge slots i = Some p)"
      if "p < length slots" "p \<in> dir_set slots" for p
      using es(3) [OF that(1)] that by simp
    ultimately show ?thesis using that es(1,2) by blast
  qed
  let ?t = "tree_of_slots vol slots es"
  have len: "length es = length slots" using same_shapes_nth(1) [OF shape] by simp
  have used: "ts_used (es ! i) = ts_used (slots ! i)" "ts_is_dir (es ! i) = ts_is_dir (slots ! i)" if "i < length slots" for i
    using same_shapes_nth(2) [OF shape that] by (simp_all add: same_shape_iff)
  have "size_of ?t p = sat_sum (map (size_of ?t) (child_list ?t p)) \<and>
      file_count_of ?t p = sat_sum (map (file_count_of ?t) (child_list ?t p)) \<and>
      child_list ?t p = filter (\<lambda>i. heap_edge slots i = Some p) [1..<length slots]" if "tree_is_dir ?t p" for p
  proof -
    have p: "p < length slots" "p \<in> dir_set slots" using that used len by (auto simp: tree_is_dir_def tree_of_slots_access dir_set_def)
    have kid: "i < length slots \<and> ts_used (slots ! i)" if "i \<in> set (heap_children slots ! p)" for i
      using that heap_edge_dir [of slots i p] by (auto simp: heap_children_nth [OF p(1)])
    have "map (size_of ?t) (heap_children slots ! p) = map (\<lambda>i. ts_size (es ! i)) (heap_children slots ! p)"
      "map (file_count_of ?t) (heap_children slots ! p) = map (\<lambda>i. files_in (es ! i)) (heap_children slots ! p)"
      using kid used by (auto simp: size_of_def file_count_of_def tree_valid_def tree_is_dir_def tree_of_slots_access len files_in_def)
    moreover have "size_of ?t p = ts_size (es ! p)" "file_count_of ?t p = ts_files (es ! p)"
      using that by (auto simp: size_of_def file_count_of_def tree_valid_def tree_is_dir_def tree_of_slots_access len)
    moreover have "child_list ?t p = heap_children slots ! p" using p by (simp add: tree_of_slots_access)
    ultimately show ?thesis using tot [OF p]
      by (simp only: total_of_children [OF p(1)] heap_children_nth [OF p(1)] simp_thms)
  qed
  then show ?thesis using new_tree_eq [OF assms(1) up, of vol] len keep same_shapes_nth(2) [OF shape]
    by (simp add: tree_of_slots_access)
qed

definition sample_slots :: "tree_slot list" where
  "sample_slots =
    [dead_slot\<lparr>ts_used := True, ts_is_dir := True\<rparr>,
     dead_slot\<lparr>ts_used := True, ts_name := ''a'', ts_size := 7, ts_parent := 2\<rparr>,
     dead_slot\<lparr>ts_used := True, ts_name := ''d'', ts_is_dir := True, ts_size := 99\<rparr>,
     dead_slot\<lparr>ts_used := True, ts_name := ''b'', ts_size := 5\<rparr>]"

lemma sample_acyclic: "acyclic_edges sample_slots"
  unfolding acyclic_edges_def
  by (rule exI [of _ "(!) [0, 2, 1, 1]"]) (simp add: sample_slots_def heap_edge_def dead_slot_def All_less_Suc numeral_eq_Suc)

theorem new_tree_totals_witness:
  "\<exists>t. new_size_tree_from_slots \<lparr>vol_label = ''d'', vol_mount = ''/''\<rparr> sample_slots = Some t \<and>
     tree_is_dir t 2 \<and> child_list t 2 = [1] \<and> size_of t 2 = 7"
proof -
  have pre: "sample_slots \<noteq> []" "length sample_slots < 2 ^ 32" by (simp_all add: sample_slots_def)
  obtain t where t: "new_size_tree_from_slots \<lparr>vol_label = ''d'', vol_mount = ''/''\<rparr> sample_slots = Some t"
    and cnt: "node_count t = length sample_slots"
    and shape: "\<forall>i < length sample_slots. same_shape (sample_slots ! i) (tree_slot_at t i) \<and>
       (\<not> ts_is_dir (sample_slots ! i) \<longrightarrow> ts_size (tree_slot_at t i) = ts_size (sample_slots ! i))"
    and tot: "\<And>p. tree_is_dir t p \<Longrightarrow> size_of t p = sat_sum (map (size_of t) (child_list t p)) \<and>
       child_list t p = filter (\<lambda>i. heap_edge sample_slots i = Some p) [1..<length sample_slots]"
    using new_tree_totals [OF pre sample_acyclic, of "\<lparr>vol_label = ''d'', vol_mount = ''/''\<rparr>"] by blast
  have dir: "tree_is_dir t 2" using cnt shape [rule_format, of 2]
    by (simp add: tree_is_dir_def sample_slots_def dead_slot_def same_shape_iff)
  have "size_of t 1 = 7" using cnt shape [rule_format, of 1]
    by (simp add: size_of_def tree_valid_def sample_slots_def dead_slot_def same_shape_iff)
  moreover have "filter (\<lambda>i. heap_edge sample_slots i = Some 2) [1..<length sample_slots] = [1]"
    by (simp add: sample_slots_def heap_edge_def dead_slot_def upt_rec)
  ultimately show ?thesis using t dir tot [OF dir] by auto
qed

end
