(* ===== verification/Os_Model.thy ===== *)
theory Os_Model
  imports Safety
begin

text \<open>
  What the cleaner sees of the operating system, and how its code is run.  Every call that leaves
  the program is an operation of the record \<open>os\<close> over a world \<open>'w\<close>; nothing is assumed of it, so
  a statement about the cleaner holds for any file system, any concurrent change to it and any
  error.  The state \<open>pst\<close> is the world, the \<^verbatim>\<open>CleanProgress\<close> of
  \<^verbatim>\<open>internal/core/cleaner.go\<close> and a record of the calls that change the disk.  A step returns
  \<open>None\<close> when the recursion bound given to \<^verbatim>\<open>DeleteTree\<close> is used up.
\<close>

section \<open>Metadata and errors\<close>

datatype os_error = NotExist | Permission | SharingViolation | NotEmpty | OtherError

record file_info =
  fi_dir :: bool
  fi_link :: bool  \<comment> \<open>\<^verbatim>\<open>ruleEvidenceLink\<close>: a symbolic link or another redirect\<close>
  fi_symlink :: bool
  fi_regular :: bool
  fi_length :: int
  fi_alloc :: u64
  fi_writable :: bool
  fi_mtime :: int  \<comment> \<open>nanoseconds since the epoch\<close>
  fi_mtime_zero :: bool
  fi_ids :: "(u64 \<times> u64) option"

record dir_entry =
  de_name :: string
  de_dir :: bool
  de_info :: "os_error + file_info"

record 'w os =
  os_lstat :: "string \<Rightarrow> 'w \<Rightarrow> (os_error + file_info) \<times> 'w"
  os_stat :: "string \<Rightarrow> 'w \<Rightarrow> (os_error + file_info) \<times> 'w"
  os_read_dir :: "string \<Rightarrow> 'w \<Rightarrow> (os_error + dir_entry list) \<times> 'w"
  os_list :: "string \<Rightarrow> 'w \<Rightarrow> dir_entry list \<times> 'w"  \<comment> \<open>what \<^verbatim>\<open>os.ReadDir\<close> read, when its error is ignored\<close>
  os_object_id :: "string \<Rightarrow> 'w \<Rightarrow> (u64 \<times> u64) option \<times> 'w"
  os_is_open :: "string \<Rightarrow> 'w \<Rightarrow> (bool \<times> bool) \<times> 'w"
  os_now :: "'w \<Rightarrow> int \<times> 'w"
  os_cancelled :: "'w \<Rightarrow> bool \<times> 'w"
  os_order :: "nat \<Rightarrow> 'w \<Rightarrow> nat list \<times> 'w"
  os_remove :: "string \<Rightarrow> 'w \<Rightarrow> os_error option \<times> 'w"
  os_remove_exclusive :: "string \<Rightarrow> 'w \<Rightarrow> os_error option \<times> 'w"
  os_make_writable :: "string \<Rightarrow> 'w \<Rightarrow> os_error option \<times> 'w"
  os_force_access :: "string \<Rightarrow> 'w \<Rightarrow> os_error option \<times> 'w"
  os_move_to_trash :: "string \<Rightarrow> 'w \<Rightarrow> os_error option \<times> 'w"

text \<open>What stays fixed during a cleanup: the policy, the whitelist and the platform.\<close>

record 'w env =
  e_lower :: "nat \<Rightarrow> nat"
  e_policy :: safety_policy
  e_whitelist :: whitelist
  e_os :: "'w os"

definition on_windows :: "'w env \<Rightarrow> bool" where
  "on_windows e = (goos (e_policy e) = ''windows'')"

section \<open>Progress\<close>

datatype fail_reason = FailInUse | FailAccessDenied | FailUnverified | FailChanged | FailWorktreeDirty
  | FailWorktreeLocked | FailWorktreeUnverified | FailWorktreeManaged | FailOther

datatype clean_result = CleanOK | CleanSkipped | CleanFailed | CleanManualAction

definition is_skipped :: "fail_reason \<Rightarrow> bool" where
  "is_skipped r = (r = FailInUse \<or> r = FailUnverified)"

record progress =
  TotalFiles :: u64
  TotalBytes :: u64
  Files :: u64
  Bytes :: u64
  Failed :: u64
  Ignored :: u64
  current_path :: string
  reasons :: "string \<rightharpoonup> fail_reason"

definition new_clean_progress :: "u64 \<Rightarrow> u64 \<Rightarrow> progress" where
  "new_clean_progress files bytes = \<lparr>TotalFiles = files, TotalBytes = bytes, Files = 0, Bytes = 0,
     Failed = 0, Ignored = 0, current_path = [], reasons = Map.empty\<rparr>"

section \<open>Steps\<close>

text \<open>
  The recorded calls with their results: \<open>Unlink\<close> and \<open>RemoveDir\<close> are \<^verbatim>\<open>os.Remove\<close> on a
  link and on an emptied directory, \<open>RemoveExclusive\<close> is \<^verbatim>\<open>platform.RemoveFileExclusive\<close>,
  \<open>MakeWritable\<close> is \<^verbatim>\<open>os.Chmod\<close>, \<open>ForceAccess\<close> is \<^verbatim>\<open>platform.ForceDeleteAccess\<close> and
  \<open>RunTool\<close> the start of another program.
\<close>

datatype event = Unlink string "os_error option" | RemoveDir string "os_error option" | RemoveExclusive string "os_error option"
  | MakeWritable string | ForceAccess string | MoveToTrash string "os_error option" | RunTool string "string list"

record 'w pst =
  ps_world :: 'w
  ps_progress :: progress
  ps_trace :: "event list"

type_synonym ('w, 'a) act = "'w pst \<Rightarrow> 'a option \<times> 'w pst"

definition act_ret :: "'a \<Rightarrow> ('w, 'a) act" where
  "act_ret a s = (Some a, s)"

definition act_stop :: "('w, 'a) act" where
  "act_stop s = (None, s)"

definition act_bind :: "('w, 'a) act \<Rightarrow> ('a \<Rightarrow> ('w, 'b) act) \<Rightarrow> ('w, 'b) act" where
  "act_bind m f s = (case m s of (Some a, s') \<Rightarrow> f a s' | (None, s') \<Rightarrow> (None, s'))"

definition act_os :: "('w \<Rightarrow> 'a \<times> 'w) \<Rightarrow> ('w, 'a) act" where
  "act_os f s = (case f (ps_world s) of (a, w) \<Rightarrow> (Some a, s\<lparr>ps_world := w\<rparr>))"

definition act_event :: "('a \<Rightarrow> event) \<Rightarrow> ('w \<Rightarrow> 'a \<times> 'w) \<Rightarrow> ('w, 'a) act" where
  "act_event ev f s = (case f (ps_world s) of (a, w) \<Rightarrow>
     (Some a, s\<lparr>ps_world := w, ps_trace := ps_trace s @ [ev a]\<rparr>))"

definition act_progress :: "(progress \<Rightarrow> progress) \<Rightarrow> ('w, unit) act" where
  "act_progress f s = (Some (), s\<lparr>ps_progress := f (ps_progress s)\<rparr>)"

definition act_read :: "(progress \<Rightarrow> 'a) \<Rightarrow> ('w, 'a) act" where
  "act_read f s = (Some (f (ps_progress s)), s)"

fun act_fold :: "('a \<Rightarrow> 'b \<Rightarrow> ('w, 'b) act) \<Rightarrow> 'a list \<Rightarrow> 'b \<Rightarrow> ('w, 'b) act" where
  "act_fold f [] b = act_ret b"
| "act_fold f (x # xs) b = act_bind (f x b) (act_fold f xs)"

definition act_map :: "('a \<Rightarrow> ('w, 'b) act) \<Rightarrow> 'a list \<Rightarrow> ('w, 'b list) act" where
  "act_map f xs = act_fold (\<lambda>x out. act_bind (f x) (\<lambda>y. act_ret (out @ [y]))) xs []"

text \<open>
  \<^verbatim>\<open>cleanParallel\<close>: the tasks write their own slots of a slice of results.  They run in turn,
  except on Windows, where they run in the order the scheduler picks; a task is not split.
\<close>

definition clean_parallel :: "'w env \<Rightarrow> nat \<Rightarrow> 'b \<Rightarrow> (nat \<Rightarrow> ('w, 'b) act) \<Rightarrow> ('w, 'b list) act" where
  "clean_parallel e n zero run =
    act_bind (if \<not> on_windows e \<or> n < 2 then act_ret [0..<n] else act_os (os_order (e_os e) n)) (\<lambda>order.
      act_fold (\<lambda>i out. act_bind (run i) (\<lambda>r. act_ret (out[i := r])))
        (filter (\<lambda>i. i < n) order) (replicate n zero))"

definition act_cancelled :: "'w env \<Rightarrow> ('w, bool) act" where
  "act_cancelled e = act_os (os_cancelled (e_os e))"

definition act_lstat :: "'w env \<Rightarrow> string \<Rightarrow> ('w, os_error + file_info) act" where
  "act_lstat e path = act_os (os_lstat (e_os e) path)"

definition note_path :: "string \<Rightarrow> ('w, unit) act" where
  "note_path path = act_progress (\<lambda>p. p\<lparr>current_path := path\<rparr>)"

text \<open>\<^verbatim>\<open>fail\<close> and \<^verbatim>\<open>failParent\<close> of \<^verbatim>\<open>CleanProgress\<close>.\<close>

definition progress_fail :: "string \<Rightarrow> fail_reason \<Rightarrow> progress \<Rightarrow> progress" where
  "progress_fail path reason p =
    p\<lparr>reasons := (reasons p)(path \<mapsto> reason), Failed := Failed p + 1,
      Ignored := (if is_skipped reason then Ignored p + 1 else Ignored p)\<rparr>"

definition clean_fail :: "string \<Rightarrow> fail_reason \<Rightarrow> ('w, clean_result) act" where
  "clean_fail path reason = act_bind (act_progress (progress_fail path reason)) (\<lambda>_. act_ret CleanFailed)"

fun parent_reason :: "(string \<rightharpoonup> fail_reason) \<Rightarrow> fail_reason \<Rightarrow> string list \<Rightarrow> fail_reason" where
  "parent_reason rs acc [] = acc"
| "parent_reason rs acc (c # cs) =
    (case rs c of
       None \<Rightarrow> FailOther
     | Some r \<Rightarrow> if \<not> is_skipped r then FailOther
                 else parent_reason rs (if r = FailInUse then FailInUse else acc) cs)"

definition clean_fail_parent :: "string \<Rightarrow> string list \<Rightarrow> ('w, clean_result) act" where
  "clean_fail_parent path children =
    act_bind (act_progress (\<lambda>p. p\<lparr>reasons := (reasons p)(path \<mapsto> parent_reason (reasons p) FailUnverified children)\<rparr>))
      (\<lambda>_. act_ret CleanFailed)"

definition count_file :: "u64 \<Rightarrow> ('w, unit) act" where
  "count_file sz = act_progress (\<lambda>p. p\<lparr>Files := Files p + 1, Bytes := Bytes p + sz\<rparr>)"

section \<open>Reasoning about steps\<close>

lemma act_bind_Some_iff:
  "act_bind m f s = (Some b, s'') \<longleftrightarrow> (\<exists>a s'. m s = (Some a, s') \<and> f a s' = (Some b, s''))"
  by (auto simp: act_bind_def split: prod.splits option.splits)

lemma act_bindE:
  assumes "act_bind m f s = (Some b, s'')"
  obtains a s' where "m s = (Some a, s')" "f a s' = (Some b, s'')"
  using assms by (auto simp: act_bind_Some_iff)

lemma act_ret_iff [simp]: "act_ret a s = (r, s') \<longleftrightarrow> r = Some a \<and> s' = s"
  by (auto simp: act_ret_def)

text \<open>
  A relation between the states before and after a step that ignores the world and the path shown
  to the user, and that holds of a sequence when it holds of its parts.  What one step does is
  shown once per operation; the combinators carry it through the code.
\<close>

locale step_relation =
  fixes R :: "'w pst \<Rightarrow> 'w pst \<Rightarrow> bool"
  assumes R_refl: "R s s"
    and R_trans: "R s t \<Longrightarrow> R t u \<Longrightarrow> R s u"
    and R_world: "R s (s\<lparr>ps_world := w\<rparr>)"
    and R_note: "R s (s\<lparr>ps_progress := (ps_progress s)\<lparr>current_path := path\<rparr>\<rparr>)"
begin

definition steps :: "('w, 'a) act \<Rightarrow> bool" where
  "steps m \<longleftrightarrow> (\<forall>s r s'. m s = (r, s') \<longrightarrow> R s s')"

lemma stepsI: "(\<And>s r s'. m s = (r, s') \<Longrightarrow> R s s') \<Longrightarrow> steps m"
  by (auto simp: steps_def)

lemma stepsD: "steps m \<Longrightarrow> m s = (r, s') \<Longrightarrow> R s s'"
  by (auto simp: steps_def)

lemma steps_ret: "steps (act_ret a)"
  by (auto simp: steps_def R_refl)

lemma steps_stop: "steps act_stop"
  by (auto simp: steps_def act_stop_def R_refl)

lemma steps_bind:
  assumes "steps m" "\<And>a s s'. m s = (Some a, s') \<Longrightarrow> steps (f a)"
  shows "steps (act_bind m f)"
proof (rule stepsI)
  fix s r s' assume "act_bind m f s = (r, s')"
  then consider "m s = (None, s')" | a s1 where "m s = (Some a, s1)" "f a s1 = (r, s')"
    by (auto simp: act_bind_def split: prod.splits option.splits)
  then show "R s s'"
  proof cases
    case 1
    with assms(1) show ?thesis by (rule stepsD)
  next
    case 2
    from stepsD [OF assms(1) 2(1)] stepsD [OF assms(2) [OF 2(1)] 2(2)] show ?thesis by (rule R_trans)
  qed
qed

lemma steps_if: "(c \<Longrightarrow> steps m) \<Longrightarrow> (\<not> c \<Longrightarrow> steps m') \<Longrightarrow> steps (if c then m else m')"
  by simp

lemma steps_case_sum:
  "(\<And>a. x = Inl a \<Longrightarrow> steps (f a)) \<Longrightarrow> (\<And>b. x = Inr b \<Longrightarrow> steps (g b)) \<Longrightarrow>
   steps (case x of Inl a \<Rightarrow> f a | Inr b \<Rightarrow> g b)"
  by (cases x) auto

lemma steps_case_option:
  "(x = None \<Longrightarrow> steps f) \<Longrightarrow> (\<And>b. x = Some b \<Longrightarrow> steps (g b)) \<Longrightarrow>
   steps (case x of None \<Rightarrow> f | Some b \<Rightarrow> g b)"
  by (cases x) auto

lemma steps_os: "steps (act_os f)"
  by (auto simp: steps_def act_os_def R_world split: prod.splits)

lemma steps_read: "steps (act_read f)"
  by (auto simp: steps_def act_read_def R_refl)

lemma steps_note: "steps (note_path path)"
  by (auto simp: steps_def note_path_def act_progress_def R_note)

lemma steps_lstat: "steps (act_lstat e path)"
  by (simp add: act_lstat_def steps_os)

lemma steps_cancelled: "steps (act_cancelled e)"
  by (simp add: act_cancelled_def steps_os)

lemma steps_fold: "(\<And>x b. x \<in> set xs \<Longrightarrow> steps (f x b)) \<Longrightarrow> steps (act_fold f xs b)"
  by (induction xs arbitrary: b) (auto intro: steps_ret steps_bind)

lemma steps_map: "(\<And>x. x \<in> set xs \<Longrightarrow> steps (f x)) \<Longrightarrow> steps (act_map f xs)"
  unfolding act_map_def by (intro steps_fold steps_bind steps_ret)

lemma steps_parallel: "(\<And>i. i < n \<Longrightarrow> steps (run i)) \<Longrightarrow> steps (clean_parallel e n zero run)"
  unfolding clean_parallel_def by (intro steps_bind steps_fold steps_if steps_ret steps_os) auto

lemmas steps_intros = steps_ret steps_stop steps_if steps_case_sum steps_case_option steps_os steps_read
  steps_note steps_lstat steps_cancelled steps_map steps_parallel

end

end
