(* ===== verification/Cleaner_Guards.thy ===== *)
theory Cleaner_Guards
  imports Os_Model
begin

text \<open>
  The checks that stand before every deletion: object identity
  (\<^verbatim>\<open>identity.go\<close>, \<^verbatim>\<open>identity_unix.go\<close>, \<^verbatim>\<open>identity_windows.go\<close>), the SQLite guard
  (\<^verbatim>\<open>database_guard.go\<close>), virtual paths (\<^verbatim>\<open>model.go\<close>) and \<^verbatim>\<open>protected\<close> of
  \<^verbatim>\<open>safety.go\<close> with its look at the disk for managed worktrees.
\<close>

section \<open>Identity\<close>

record target_identity =
  id_dev :: u64
  id_ino :: u64
  id_mtime :: int
  id_length :: int
  id_stable :: "(u64 \<times> u64) option"  \<comment> \<open>\<^verbatim>\<open>stable\<close> and \<^verbatim>\<open>hasStable\<close>\<close>
  id_is_dir :: bool

definition identity_from_metadata :: "'w env \<Rightarrow> file_info \<Rightarrow> target_identity option" where
  "identity_from_metadata e info =
    (if fi_mtime_zero info then None
     else let secs0 = fi_mtime info div 1000000000;
              secs = (if fi_mtime info < 0 \<and> fi_mtime info mod 1000000000 \<noteq> 0 then secs0 + 1 else secs0);
              i = \<lparr>id_dev = 0, id_ino = 0, id_mtime = secs, id_length = fi_length info, id_stable = None,
                   id_is_dir = (fi_dir info \<and> \<not> fi_link info)\<rparr> in
       if on_windows e then Some i
       else case fi_ids info of None \<Rightarrow> None
            | Some (dev, ino) \<Rightarrow> Some (i\<lparr>id_dev := dev, id_ino := ino\<rparr>))"

definition capture_stable :: "'w env \<Rightarrow> string \<Rightarrow> target_identity \<Rightarrow> ('w, target_identity) act" where
  "capture_stable e path i =
    (if on_windows e then act_bind (act_os (os_object_id (e_os e) path)) (\<lambda>st. act_ret (i\<lparr>id_stable := st\<rparr>))
     else act_ret i)"

definition capture_identity :: "'w env \<Rightarrow> string \<Rightarrow> ('w, target_identity option) act" where
  "capture_identity e path =
    act_bind (act_lstat e path) (\<lambda>r. case r of
      Inl _ \<Rightarrow> act_ret None
    | Inr info \<Rightarrow>
        (case identity_from_metadata e info of
           None \<Rightarrow> act_ret None
         | Some i \<Rightarrow> act_bind (capture_stable e path i) (\<lambda>i'. act_ret (Some i'))))"

definition recheck_metadata :: "'w env \<Rightarrow> target_identity \<Rightarrow> string \<Rightarrow> file_info \<Rightarrow> ('w, bool) act" where
  "recheck_metadata e i path info =
    (if \<not> on_windows e then act_ret (fi_ids info = Some (id_dev i, id_ino i))
     else case identity_from_metadata e info of
       None \<Rightarrow> act_ret False
     | Some now \<Rightarrow>
         if id_is_dir now \<noteq> id_is_dir i then act_ret False
         else if id_is_dir now \<and> id_stable i \<noteq> None then
           act_bind (act_os (os_object_id (e_os e) path)) (\<lambda>st. act_ret (st = id_stable i))
         else if id_mtime now \<noteq> id_mtime i \<or> id_length now \<noteq> id_length i then act_ret False
         else if id_stable i = None then act_ret True
         else act_bind (act_os (os_object_id (e_os e) path)) (\<lambda>st. act_ret (st = id_stable i)))"

definition recheck :: "'w env \<Rightarrow> target_identity \<Rightarrow> string \<Rightarrow> ('w, bool) act" where
  "recheck e i path =
    act_bind (act_lstat e path) (\<lambda>r. case r of
      Inl _ \<Rightarrow> act_ret False
    | Inr info \<Rightarrow> recheck_metadata e i path info)"

definition root_identity_holds :: "'w env \<Rightarrow> string \<Rightarrow> target_identity option \<Rightarrow> ('w, bool) act" where
  "root_identity_holds e path i = (case i of None \<Rightarrow> act_ret False | Some x \<Rightarrow> recheck e x path)"

section \<open>Virtual paths and protection\<close>

definition is_virtual_path :: "string \<Rightarrow> bool" where
  "is_virtual_path path =
    (prefix ''tmutil://snapshot/'' path \<or> prefix ''docker://image/'' path \<or> path = ''brew://cleanup'')"

definition worktree_markers :: "string list" where
  "worktree_markers = [''.maka-storage-root.json'', ''.maka-host-composition.json'', ''runtime.sqlite'']"

fun any_marker :: "'w env \<Rightarrow> string \<Rightarrow> string list \<Rightarrow> ('w, bool) act" where
  "any_marker e parent [] = act_ret False"
| "any_marker e parent (m # ms) =
    act_bind (act_lstat e (path_join parent m)) (\<lambda>r.
      if r \<noteq> Inl NotExist then act_ret True else any_marker e parent ms)"

text \<open>\<^verbatim>\<open>IsManagedAgentWorktree\<close>: its loop walks \<open>parents path\<close>.\<close>

definition is_managed_agent_worktree :: "'w env \<Rightarrow> string \<Rightarrow> ('w, bool) act" where
  "is_managed_agent_worktree e path =
    (case find (\<lambda>a. equal_fold_literal (path_base a) ''subagent-worktrees'') (parents path) of
       None \<Rightarrow> act_ret False
     | Some a \<Rightarrow> let parent = path_dir a in
         if parent = a then act_ret True else any_marker e parent worktree_markers)"

definition lexically_protected :: "'w env \<Rightarrow> string \<Rightarrow> bool \<Rightarrow> bool" where
  "lexically_protected e path contents =
     policy_protected (e_lower e) (e_policy e) (e_whitelist e) path contents"

definition is_protected_with :: "'w env \<Rightarrow> string \<Rightarrow> bool \<Rightarrow> ('w, bool) act" where
  "is_protected_with e path contents =
    act_bind (is_managed_agent_worktree e path) (\<lambda>managed.
      act_ret (managed \<or> lexically_protected e path contents))"

definition is_protected :: "'w env \<Rightarrow> string \<Rightarrow> ('w, bool) act" where
  "is_protected e path = is_protected_with e path False"

definition is_contents_protected :: "'w env \<Rightarrow> string \<Rightarrow> ('w, bool) act" where
  "is_contents_protected e path = is_protected_with e path True"

section \<open>The SQLite guard\<close>

definition sqlite_suffixes :: "string list" where
  "sqlite_suffixes = [''-wal'', ''-shm'', ''-journal'']"

definition sqlite_exts :: "string list" where
  "sqlite_exts = [''.db'', ''.sqlite'', ''.sqlite3'', ''.otc'']"

definition sqlite_family_key :: "string \<Rightarrow> string option" where
  "sqlite_family_key name0 =
    (let name = ascii_lower name0 in
     case find (\<lambda>x. suffix x name) sqlite_suffixes of
       Some x \<Rightarrow> Some (take (length name - length x) name)
     | None \<Rightarrow> if \<exists>x \<in> set sqlite_exts. suffix x name then Some name else None)"

definition is_sqlite_companion_name :: "string \<Rightarrow> bool" where
  "is_sqlite_companion_name name = (\<exists>x \<in> set sqlite_suffixes. suffix x (ascii_lower name))"

definition holds_live_database :: "'w env \<Rightarrow> string \<Rightarrow> ('w, bool) act" where
  "holds_live_database e path =
    act_bind (act_os (os_read_dir (e_os e) path)) (\<lambda>r. case r of
      Inl _ \<Rightarrow> act_ret True
    | Inr entries \<Rightarrow> act_ret (\<exists>d \<in> set entries. sqlite_family_key (de_name d) \<noteq> None))"

text \<open>The loop of \<^verbatim>\<open>newestDatabaseWriteIsStale\<close>; \<open>None\<close> is its early \<^verbatim>\<open>return false\<close>.\<close>

fun newest_write :: "'w env \<Rightarrow> string \<Rightarrow> (string \<Rightarrow> bool) \<Rightarrow> dir_entry list \<Rightarrow> int \<Rightarrow> ('w, int option) act" where
  "newest_write e dir relevant [] newest = act_ret (Some newest)"
| "newest_write e dir relevant (d # ds) newest =
    (if \<not> relevant (de_name d) then newest_write e dir relevant ds newest
     else act_bind (act_os (os_stat (e_os e) (path_join dir (de_name d)))) (\<lambda>r. case r of
       Inl _ \<Rightarrow> act_ret None
     | Inr info \<Rightarrow> newest_write e dir relevant ds (max newest (fi_mtime info))))"

definition newest_database_write_is_stale :: "'w env \<Rightarrow> string \<Rightarrow> file_info \<Rightarrow> ('w, bool) act" where
  "newest_database_write_is_stale e path md =
    (let dir = (if fi_dir md then path else path_dir path) in
     act_bind (act_os (os_read_dir (e_os e) dir)) (\<lambda>r. case r of
       Inl _ \<Rightarrow> act_ret False
     | Inr entries \<Rightarrow>
         let key = (case sqlite_family_key (path_base path) of None \<Rightarrow> [] | Some k \<Rightarrow> k) in
         act_bind (newest_write e dir (\<lambda>n. case sqlite_family_key n of None \<Rightarrow> False
             | Some k \<Rightarrow> fi_dir md \<or> k = key) entries (fi_mtime md)) (\<lambda>newest. case newest of
           None \<Rightarrow> act_ret False
         | Some t \<Rightarrow> act_bind (act_os (os_now (e_os e))) (\<lambda>now. act_ret (now - t \<ge> 3600000000000)))))"

definition is_live_database :: "'w env \<Rightarrow> string \<Rightarrow> ('w, bool) act" where
  "is_live_database e path =
    act_bind (act_lstat e path) (\<lambda>r. case r of
      Inl _ \<Rightarrow> act_ret True
    | Inr md \<Rightarrow>
        if fi_symlink md then act_ret False
        else act_bind
          (if fi_dir md then act_bind (holds_live_database e path) (\<lambda>h. act_ret (if h then None else Some False))
           else case sqlite_family_key (path_base path) of
             None \<Rightarrow> act_ret (Some False)
           | Some key \<Rightarrow> act_bind (act_os (os_read_dir (e_os e) (path_dir path))) (\<lambda>r. case r of
               Inl _ \<Rightarrow> act_ret (Some True)
             | Inr entries \<Rightarrow> act_ret (if length (filter (\<lambda>d. sqlite_family_key (de_name d) = Some key) entries) < 2
                 then Some False else None)))
          (\<lambda>verdict. case verdict of
             Some b \<Rightarrow> act_ret b
           | None \<Rightarrow> act_bind (newest_database_write_is_stale e path md) (\<lambda>stale.
               if \<not> stale then act_ret True
               else act_bind (act_os (os_is_open (e_os e) path)) (\<lambda>(opn, known). act_ret (\<not> known \<or> opn)))))"

section \<open>The guards change nothing\<close>

context step_relation
begin

lemma steps_any_marker: "steps (any_marker e parent ms)"
  by (induction ms) (auto intro!: steps_intros steps_bind)

lemma steps_managed: "steps (is_managed_agent_worktree e path)"
  by (auto simp: is_managed_agent_worktree_def Let_def intro!: steps_intros steps_any_marker)

lemma steps_protected: "steps (is_protected_with e path c)"
  unfolding is_protected_with_def by (intro steps_bind steps_ret steps_managed)

lemma steps_recheck: "steps (recheck e i path)"
  unfolding recheck_def recheck_metadata_def by (intro steps_intros steps_bind)

lemma steps_capture: "steps (capture_identity e path)"
  unfolding capture_identity_def capture_stable_def by (intro steps_intros steps_bind)

lemma steps_newest: "steps (newest_write e dir rel ds t)"
  by (induction ds arbitrary: t) (auto intro!: steps_intros steps_bind)

lemma steps_stale: "steps (newest_database_write_is_stale e path md)"
  unfolding newest_database_write_is_stale_def Let_def by (intro steps_intros steps_bind steps_newest)

lemma steps_live: "steps (is_live_database e path)"
  unfolding is_live_database_def holds_live_database_def
  by (intro steps_intros steps_bind steps_stale) (auto intro: steps_ret)

lemmas steps_guards = steps_protected steps_recheck steps_capture steps_live steps_managed

end

section \<open>What a look at the disk establishes\<close>

text \<open>
  No marker of a managed worktree was there: every question about one, asked in turn from the world
  \<open>w\<close> on, was answered with \<^verbatim>\<open>fs.ErrNotExist\<close>.
\<close>

fun all_missing :: "'w env \<Rightarrow> string list \<Rightarrow> 'w \<Rightarrow> bool" where
  "all_missing e [] w \<longleftrightarrow> True"
| "all_missing e (p # ps) w \<longleftrightarrow>
    fst (os_lstat (e_os e) p w) = Inl NotExist \<and> all_missing e ps (snd (os_lstat (e_os e) p w))"

definition unmanaged_seen :: "'w env \<Rightarrow> string \<Rightarrow> 'w \<Rightarrow> bool" where
  "unmanaged_seen e path w \<longleftrightarrow>
    (\<forall>a. find (\<lambda>a. equal_fold_literal (path_base a) ''subagent-worktrees'') (parents path) = Some a \<longrightarrow>
       path_dir a \<noteq> a \<and> all_missing e (map (path_join (path_dir a)) worktree_markers) w)"

text \<open>A path is free in a world when the policy does not list it and no agent manages it there.\<close>

definition free_seen :: "'w env \<Rightarrow> string \<Rightarrow> bool \<Rightarrow> 'w \<Rightarrow> bool" where
  "free_seen e path contents w \<longleftrightarrow> \<not> lexically_protected e path contents \<and> unmanaged_seen e path w"

lemma act_lstat_eq: "act_lstat e path s = (Some (fst (os_lstat (e_os e) path (ps_world s))),
    s\<lparr>ps_world := snd (os_lstat (e_os e) path (ps_world s))\<rparr>)"
  by (simp add: act_lstat_def act_os_def split: prod.splits)

lemma any_marker_False:
  "any_marker e parent ms s = (Some False, s') \<Longrightarrow> all_missing e (map (path_join parent) ms) (ps_world s)"
proof (induction ms arbitrary: s)
  case (Cons m ms)
  let ?r = "os_lstat (e_os e) (path_join parent m) (ps_world s)"
  from Cons.prems have "fst ?r = Inl NotExist" "any_marker e parent ms (s\<lparr>ps_world := snd ?r\<rparr>) = (Some False, s')"
    by (auto simp: act_bind_def act_lstat_eq split: if_splits)
  with Cons.IH [OF this(2)] show ?case by simp
qed simp

lemma managed_False:
  assumes "is_managed_agent_worktree e path s = (Some False, s')"
  shows "unmanaged_seen e path (ps_world s)"
  using assms by (auto simp: is_managed_agent_worktree_def unmanaged_seen_def Let_def any_marker_False split: if_splits)

lemma is_protected_free:
  assumes "is_protected_with e path c s = (Some False, s')"
  shows "free_seen e path c (ps_world s)"
  using assms managed_False by (fastforce simp: is_protected_with_def act_bind_Some_iff free_seen_def)

text \<open>
  The object a recheck found is the one that was recorded: the same device and inode, or on Windows
  the same object identifier (for a directory) or the same identifier, time and length (for a file).
\<close>

definition same_object :: "'w env \<Rightarrow> target_identity \<Rightarrow> string \<Rightarrow> file_info \<Rightarrow> 'w \<Rightarrow> bool" where
  "same_object e i path info w \<longleftrightarrow>
    (if \<not> on_windows e then fi_ids info = Some (id_dev i, id_ino i)
     else \<not> fi_mtime_zero info \<and> (fi_dir info \<and> \<not> fi_link info) = id_is_dir i \<and>
       (id_stable i \<noteq> None \<longrightarrow> fst (os_object_id (e_os e) path w) = id_stable i) \<and>
       (id_is_dir i \<and> id_stable i \<noteq> None \<or>
        map_option id_mtime (identity_from_metadata e info) = Some (id_mtime i) \<and> fi_length info = id_length i))"

definition identity_seen :: "'w env \<Rightarrow> target_identity \<Rightarrow> string \<Rightarrow> 'w \<Rightarrow> bool" where
  "identity_seen e i path w \<longleftrightarrow>
    (\<exists>info w'. os_lstat (e_os e) path w = (Inr info, w') \<and> same_object e i path info w')"

lemma act_os_eq: "act_os f s = (Some (fst (f (ps_world s))), s\<lparr>ps_world := snd (f (ps_world s))\<rparr>)"
  by (simp add: act_os_def split: prod.splits)

lemma recheck_seen:
  assumes "recheck e i path s = (Some True, s')"
  shows "identity_seen e i path (ps_world s)"
proof -
  obtain info w' where l: "os_lstat (e_os e) path (ps_world s) = (Inr info, w')"
    using assms by (cases "os_lstat (e_os e) path (ps_world s)" rule: prod.exhaust)
      (auto simp: recheck_def act_bind_def act_lstat_eq split: sum.splits)
  with assms have r: "recheck_metadata e i path info (s\<lparr>ps_world := w'\<rparr>) = (Some True, s')"
    by (simp add: recheck_def act_bind_def act_lstat_eq)
  have "same_object e i path info w'"
  proof (cases "on_windows e")
    case True
    obtain now where now: "identity_from_metadata e info = Some now"
      using r True by (cases "identity_from_metadata e info") (auto simp: recheck_metadata_def)
    then have f: "\<not> fi_mtime_zero info" "id_is_dir now = (fi_dir info \<and> \<not> fi_link info)" "id_length now = fi_length info"
      using True by (auto simp: identity_from_metadata_def Let_def split: if_splits)
    show ?thesis using r True now f
      by (auto simp: recheck_metadata_def same_object_def act_bind_def act_os_eq split: if_splits)
  qed (use r in \<open>simp add: recheck_metadata_def same_object_def\<close>)
  with l show ?thesis by (auto simp: identity_seen_def)
qed

end
