(* ===== verification/Cleaner_Files.thy ===== *)
theory Cleaner_Files
  imports Cleaner_Guards
begin

text \<open>
  \<^verbatim>\<open>internal/core/cleaner_files.go\<close>: the removal of one file with its access recovery, the
  removal of SQLite families, the recursive \<^verbatim>\<open>DeleteTree\<close>, the clearing of a directory and
  the recycling of a path.  \<open>delete_tree\<close> takes a bound on the depth of its recursion, which on a
  real disk is the depth of the tree.
\<close>

section \<open>Removing one object\<close>

definition io_fail_reason :: "'w env \<Rightarrow> os_error \<Rightarrow> fail_reason" where
  "io_fail_reason e err =
    (if on_windows e \<and> err = SharingViolation then FailInUse
     else if err = Permission then FailAccessDenied else FailOther)"

definition act_unlink :: "'w env \<Rightarrow> string \<Rightarrow> ('w, os_error option) act" where
  "act_unlink e path = act_event (Unlink path) (os_remove (e_os e) path)"

definition act_remove_dir :: "'w env \<Rightarrow> string \<Rightarrow> ('w, os_error option) act" where
  "act_remove_dir e path = act_event (RemoveDir path) (os_remove (e_os e) path)"

definition act_remove_exclusive :: "'w env \<Rightarrow> string \<Rightarrow> ('w, os_error option) act" where
  "act_remove_exclusive e path = act_event (RemoveExclusive path) (os_remove_exclusive (e_os e) path)"

definition act_force_access :: "'w env \<Rightarrow> string \<Rightarrow> ('w, os_error option) act" where
  "act_force_access e path = act_event (\<lambda>_. ForceAccess path) (os_force_access (e_os e) path)"

definition act_make_writable :: "'w env \<Rightarrow> string \<Rightarrow> ('w, os_error option) act" where
  "act_make_writable e path = act_event (\<lambda>_. MakeWritable path) (os_make_writable (e_os e) path)"

definition act_move_to_trash :: "'w env \<Rightarrow> string \<Rightarrow> ('w, os_error option) act" where
  "act_move_to_trash e path = act_event (MoveToTrash path) (os_move_to_trash (e_os e) path)"

definition remove_with_readonly_retry ::
  "'w env \<Rightarrow> string \<Rightarrow> (string \<Rightarrow> ('w, os_error option) act) \<Rightarrow> ('w, os_error option) act" where
  "remove_with_readonly_retry e path remove =
    act_bind (remove path) (\<lambda>err.
      if err = None then act_ret None
      else act_bind (act_lstat e path) (\<lambda>r.
        act_bind (case r of
            Inl _ \<Rightarrow> act_ret None
          | Inr md \<Rightarrow> if \<not> fi_link md \<and> \<not> fi_writable md then act_make_writable e path else act_ret None)
          (\<lambda>_. remove path)))"

definition remove_forcing ::
  "'w env \<Rightarrow> string \<Rightarrow> (string \<Rightarrow> ('w, os_error option) act) \<Rightarrow> ('w, os_error option) act" where
  "remove_forcing e path remove =
    act_bind (remove_with_readonly_retry e path remove) (\<lambda>err.
      if err \<noteq> Some Permission then act_ret err
      else act_bind (act_force_access e path) (\<lambda>_.
        act_bind (remove_with_readonly_retry e path remove) (\<lambda>retry.
          if retry = None then act_ret None
          else let parent = path_dir path in
            act_bind (if parent \<noteq> path then is_protected e parent else act_ret True) (\<lambda>prot.
              if prot then act_ret err
              else act_bind (act_force_access e parent) (\<lambda>_.
                act_bind (remove_with_readonly_retry e path remove) (\<lambda>retry.
                  act_ret (if retry = None then None else err)))))))"

definition clean_file :: "'w env \<Rightarrow> string \<Rightarrow> u64 \<Rightarrow> ('w, clean_result) act" where
  "clean_file e path sz =
    act_bind (act_cancelled e) (\<lambda>c.
    act_bind (if c then act_ret True else is_protected e path) (\<lambda>skip.
      if skip then act_ret CleanSkipped
      else act_bind (note_path path) (\<lambda>_.
        act_bind (remove_forcing e path (act_remove_exclusive e)) (\<lambda>err. case err of
          Some x \<Rightarrow> if x = NotExist then act_ret CleanSkipped else clean_fail path (io_fail_reason e x)
        | None \<Rightarrow> act_bind (count_file sz) (\<lambda>_. act_ret CleanOK)))))"

section \<open>Enumerating a directory\<close>

record clean_entry =
  ce_path :: string
  ce_size :: u64
  ce_identity :: "target_identity option"
  ce_link :: bool
  ce_dir :: bool

text \<open>
  One entry of the loop of \<^verbatim>\<open>enumerateCleanEntries\<close>: \<open>Inr None\<close> is \<^verbatim>\<open>continue\<close>.  The
  cache of \<^verbatim>\<open>Lstat\<close> results only spares calls.
\<close>

definition enumerate_entry :: "'w env \<Rightarrow> string \<Rightarrow> dir_entry \<Rightarrow> ('w, os_error + clean_entry option) act" where
  "enumerate_entry e dir d =
    (let path = path_join dir (de_name d) in
     act_bind (if de_dir d then act_lstat e path else act_ret (de_info d)) (\<lambda>r. case r of
       Inl err \<Rightarrow> act_ret (if err = NotExist then Inr None else Inl err)
     | Inr md \<Rightarrow>
         act_bind (if fi_dir md \<and> \<not> fi_link md then capture_identity e path
                   else act_ret (identity_from_metadata e md)) (\<lambda>i.
           act_ret (Inr (Some \<lparr>ce_path = path, ce_size = fi_alloc md, ce_identity = i,
             ce_link = fi_link md, ce_dir = fi_dir md\<rparr>)))))"

fun enumerate_loop :: "'w env \<Rightarrow> string \<Rightarrow> dir_entry list \<Rightarrow> clean_entry list \<Rightarrow> ('w, os_error + clean_entry list) act" where
  "enumerate_loop e dir [] out = act_ret (Inr out)"
| "enumerate_loop e dir (d # ds) out =
    act_bind (enumerate_entry e dir d) (\<lambda>r. case r of
      Inl err \<Rightarrow> act_ret (Inl err)
    | Inr None \<Rightarrow> enumerate_loop e dir ds out
    | Inr (Some c) \<Rightarrow> enumerate_loop e dir ds (out @ [c]))"

definition enumerate_clean_entries ::
  "'w env \<Rightarrow> string \<Rightarrow> ('w, os_error + clean_entry list \<times> target_identity option) act" where
  "enumerate_clean_entries e dir =
    act_bind (act_os (os_read_dir (e_os e) dir)) (\<lambda>r0.
    act_bind (if r0 = Inl Permission
              then act_bind (act_force_access e dir) (\<lambda>_. act_os (os_read_dir (e_os e) dir))
              else act_ret r0) (\<lambda>r. case r of
      Inl err \<Rightarrow> act_ret (Inl err)
    | Inr entries \<Rightarrow>
        act_bind (capture_identity e dir) (\<lambda>parent.
        act_bind (enumerate_loop e dir entries []) (\<lambda>out. case out of
          Inl err \<Rightarrow> act_ret (Inl err)
        | Inr children \<Rightarrow> act_ret (Inr (children, parent))))))"

definition clean_entry_bindings ::
  "'w env \<Rightarrow> string \<Rightarrow> target_identity option \<Rightarrow> clean_entry list \<Rightarrow> ('w, bool \<times> bool list) act" where
  "clean_entry_bindings e dir parent children =
    act_bind (root_identity_holds e dir parent) (\<lambda>ok.
      if \<not> ok then act_ret (False, replicate (length children) False)
      else act_bind (act_map (\<lambda>c. root_identity_holds e (ce_path c) (ce_identity c)) children)
        (\<lambda>checked. act_ret (True, checked)))"

text \<open>\<^verbatim>\<open>classifyUncheckedChild\<close>: \<open>None\<close> stands for its \<^verbatim>\<open>false\<close>.\<close>

definition classify_unchecked_child :: "'w env \<Rightarrow> bool \<Rightarrow> clean_entry \<Rightarrow> ('w, fail_reason option) act" where
  "classify_unchecked_child e parent_ok c =
    (if \<not> parent_ok then act_ret (Some FailChanged)
     else act_bind (act_lstat e (ce_path c)) (\<lambda>r. act_ret (case r of
       Inl err \<Rightarrow> if err = NotExist then None else Some FailChanged
     | Inr info \<Rightarrow> if \<not> ce_dir c \<and> \<not> ce_link c \<and> \<not> fi_dir info \<and> \<not> fi_link info
         then Some FailInUse else Some FailChanged)))"

section \<open>SQLite families\<close>

abbreviation companion :: "clean_entry \<Rightarrow> bool" where
  "companion c \<equiv> is_sqlite_companion_name (path_base (ce_path c))"

text \<open>The companions first, as \<^verbatim>\<open>sort.SliceStable\<close> leaves them.\<close>

definition family_order :: "clean_entry list \<Rightarrow> clean_entry list" where
  "family_order members = filter companion members @ filter (\<lambda>c. \<not> companion c) members"

fun clean_members :: "'w env \<Rightarrow> clean_entry list \<Rightarrow> string list \<Rightarrow> string list \<Rightarrow> ('w, string list) act" where
  "clean_members e [] failed companion_failures = act_ret failed"
| "clean_members e (f # fs) failed companion_failures =
    (if \<not> companion f \<and> companion_failures \<noteq> [] then
       act_bind (clean_fail_parent (ce_path f) companion_failures) (\<lambda>_.
         clean_members e fs (failed @ [ce_path f]) companion_failures)
     else act_bind (clean_file e (ce_path f) (ce_size f)) (\<lambda>r.
       if r = CleanFailed
       then clean_members e fs (failed @ [ce_path f])
              (if companion f then companion_failures @ [ce_path f] else companion_failures)
       else clean_members e fs failed companion_failures))"

definition clean_file_family :: "'w env \<Rightarrow> clean_entry list \<Rightarrow> ('w, string list) act" where
  "clean_file_family e members0 =
    (let members = family_order members0;
         mains = filter (\<lambda>c. \<not> companion c) members in
     act_bind (if filter companion members \<noteq> [] \<and> mains \<noteq> [] then is_live_database e (ce_path (last mains))
               else act_ret False) (\<lambda>live.
       if live then
         act_bind (act_map (\<lambda>f. clean_fail (ce_path f) FailInUse) members) (\<lambda>_.
           act_ret (map ce_path members))
       else clean_members e members [] []))"

definition family_key :: "clean_entry \<Rightarrow> string" where
  "family_key f = (case sqlite_family_key (path_base (ce_path f)) of None \<Rightarrow> ce_path f | Some k \<Rightarrow> k)"

text \<open>
  The families, in the order in which the source's map is ranged over: \<open>order\<close> is that order, as
  a list of indices into the keys.
\<close>

definition families :: "clean_entry list \<Rightarrow> clean_entry list list" where
  "families files = map (\<lambda>k. filter (\<lambda>f. family_key f = k) files) (remdups (map family_key files))"

definition clean_file_families :: "'w env \<Rightarrow> clean_entry list \<Rightarrow> ('w, string list) act" where
  "clean_file_families e files =
    (let fams0 = families files in
     act_bind (act_os (os_order (e_os e) (length fams0))) (\<lambda>order.
       let fams = map (\<lambda>i. fams0 ! i) (filter (\<lambda>i. i < length fams0) order) in
       act_bind (clean_parallel e (length fams) [] (\<lambda>i. clean_file_family e (fams ! i))) (\<lambda>failures.
         act_ret (concat failures))))"

section \<open>Deleting a tree\<close>

text \<open>The loop over the enumerated children: files, directories and links, failures.\<close>

definition sort_child ::
  "'w env \<Rightarrow> bool \<Rightarrow> clean_entry \<times> bool \<Rightarrow> clean_entry list \<times> clean_entry list \<times> string list \<Rightarrow>
     ('w, clean_entry list \<times> clean_entry list \<times> string list) act" where
  "sort_child e parent_ok cb acc =
    (case (cb, acc) of ((c, checked), (files, dirs, failed)) \<Rightarrow>
      if \<not> checked then
        act_bind (classify_unchecked_child e parent_ok c) (\<lambda>r. case r of
          None \<Rightarrow> act_ret acc
        | Some reason \<Rightarrow> act_bind (clean_fail (ce_path c) reason) (\<lambda>_.
            act_ret (files, dirs, failed @ [ce_path c])))
      else if ce_dir c \<or> ce_link c then act_ret (files, dirs @ [c], failed)
      else act_ret (files @ [c], dirs, failed))"

definition remove_emptied_dir :: "'w env \<Rightarrow> string \<Rightarrow> ('w, clean_result) act" where
  "remove_emptied_dir e path =
    act_bind (remove_forcing e path (act_remove_dir e)) (\<lambda>err. case err of
      None \<Rightarrow> act_ret CleanOK
    | Some x \<Rightarrow>
        if x = NotExist then act_ret CleanOK
        else if x = NotEmpty then clean_fail path FailInUse
        else clean_fail path (io_fail_reason e x))"

definition unlink_link :: "'w env \<Rightarrow> string \<Rightarrow> ('w, clean_result) act" where
  "unlink_link e path =
    act_bind (act_unlink e path) (\<lambda>err. case err of
      Some x \<Rightarrow> if x = NotExist then act_ret CleanSkipped else clean_fail path (io_fail_reason e x)
    | None \<Rightarrow> act_bind (act_progress (\<lambda>p. p\<lparr>Files := Files p + 1\<rparr>)) (\<lambda>_. act_ret CleanOK))"

definition failed_dirs :: "clean_entry list \<Rightarrow> clean_result list \<Rightarrow> string list" where
  "failed_dirs dirs results = map (\<lambda>(d, _). ce_path d) (filter (\<lambda>(_, r). r = CleanFailed) (zip dirs results))"

fun delete_tree :: "nat \<Rightarrow> 'w env \<Rightarrow> string \<Rightarrow> ('w, clean_result) act" where
  "delete_tree 0 e path = act_stop"
| "delete_tree (Suc depth) e path =
    act_bind (act_cancelled e) (\<lambda>c.
    act_bind (if c then act_ret True else is_protected e path) (\<lambda>skip.
      if skip \<or> is_virtual_path path then act_ret CleanSkipped
      else act_bind (act_lstat e path) (\<lambda>r. case r of
        Inl _ \<Rightarrow> act_ret CleanSkipped
      | Inr md \<Rightarrow>
          if fi_link md then unlink_link e path
          else if \<not> fi_dir md then clean_file e path (fi_alloc md)
          else act_bind (note_path path) (\<lambda>_.
            act_bind (enumerate_clean_entries e path) (\<lambda>r. case r of
              Inl err \<Rightarrow> if err = NotExist then act_ret CleanSkipped
                         else clean_fail path (io_fail_reason e err)
            | Inr (children, parent) \<Rightarrow>
                act_bind (clean_entry_bindings e path parent children) (\<lambda>(parent_ok, checked).
                act_bind (act_fold (sort_child e parent_ok) (zip children checked) ([], [], [])) (\<lambda>(files, dirs, failed).
                act_bind (clean_file_families e files) (\<lambda>failed_files.
                act_bind (clean_parallel e (length dirs) CleanOK (\<lambda>i. delete_tree depth e (ce_path (dirs ! i)))) (\<lambda>results.
                let all_failed = failed @ failed_files @ failed_dirs dirs results in
                act_bind (act_cancelled e) (\<lambda>c.
                  if c then act_ret CleanSkipped
                  else if all_failed \<noteq> [] then clean_fail_parent path all_failed
                  else remove_emptied_dir e path))))))))))"

definition clean_path :: "nat \<Rightarrow> 'w env \<Rightarrow> string \<Rightarrow> ('w, clean_result) act" where
  "clean_path depth e path =
    (if is_virtual_path path then act_ret CleanSkipped
     else act_bind (act_cancelled e) (\<lambda>c. if c then act_ret CleanSkipped
     else act_bind (act_lstat e path) (\<lambda>r. case r of
       Inl _ \<Rightarrow> act_ret CleanSkipped
     | Inr _ \<Rightarrow> act_bind (is_protected e path) (\<lambda>prot. if prot then act_ret CleanSkipped
     else act_bind (is_live_database e path) (\<lambda>live. if live then clean_fail path FailInUse
     else delete_tree depth e path)))))"

section \<open>Clearing a directory, recycling a path\<close>

record clean_failure =
  cf_path :: string
  cf_id :: string

record clean_report =
  cr_ok :: nat
  cr_skipped :: nat
  SkippedItems :: "clean_failure list"
  FailedItems :: "clean_failure list"
  Manual :: "clean_failure list"

definition empty_report :: clean_report where
  "empty_report = \<lparr>cr_ok = 0, cr_skipped = 0, SkippedItems = [], FailedItems = [], Manual = []\<rparr>"

fun record_target :: "clean_failure \<Rightarrow> clean_result \<Rightarrow> clean_report \<Rightarrow> clean_report" where
  "record_target t CleanOK r = r\<lparr>cr_ok := cr_ok r + 1\<rparr>"
| "record_target t CleanSkipped r = r\<lparr>cr_skipped := cr_skipped r + 1, SkippedItems := SkippedItems r @ [t]\<rparr>"
| "record_target t CleanFailed r = r\<lparr>FailedItems := FailedItems r @ [t]\<rparr>"
| "record_target t CleanManualAction r = r\<lparr>Manual := Manual r @ [t]\<rparr>"

definition record_result :: "string \<Rightarrow> clean_result \<Rightarrow> clean_report \<Rightarrow> clean_report" where
  "record_result path res = record_target \<lparr>cf_path = path, cf_id = []\<rparr> res"

definition merge_report :: "clean_report \<Rightarrow> clean_report \<Rightarrow> clean_report" where
  "merge_report r other = \<lparr>cr_ok = cr_ok r + cr_ok other, cr_skipped = cr_skipped r + cr_skipped other,
     SkippedItems = SkippedItems r @ SkippedItems other, FailedItems = FailedItems r @ FailedItems other,
     Manual = Manual r @ Manual other\<rparr>"

definition clean_dir_child ::
  "nat \<Rightarrow> 'w env \<Rightarrow> bool \<Rightarrow> clean_entry \<times> bool \<Rightarrow> clean_report \<Rightarrow> ('w, clean_report) act" where
  "clean_dir_child depth e parent_ok cb report =
    (case cb of (c, checked) \<Rightarrow>
      act_bind (act_cancelled e) (\<lambda>canc.
        if canc then act_ret (record_result (ce_path c) CleanSkipped report)
        else if \<not> checked then
          act_bind (classify_unchecked_child e parent_ok c) (\<lambda>r. case r of
            None \<Rightarrow> act_ret (record_result (ce_path c) CleanSkipped report)
          | Some reason \<Rightarrow> act_bind (clean_fail (ce_path c) reason) (\<lambda>res.
              act_ret (record_result (ce_path c) res report)))
        else act_bind (clean_path depth e (ce_path c)) (\<lambda>res.
          act_ret (record_result (ce_path c) res report))))"

definition clean_dir_contents :: "nat \<Rightarrow> 'w env \<Rightarrow> string \<Rightarrow> ('w, clean_report) act" where
  "clean_dir_contents depth e dir =
    act_bind (act_lstat e dir) (\<lambda>r. case r of
      Inl _ \<Rightarrow> act_ret (record_result dir CleanSkipped empty_report)
    | Inr md \<Rightarrow>
        if fi_link md \<or> \<not> fi_dir md then
          act_bind (clean_fail dir FailChanged) (\<lambda>res. act_ret (record_result dir res empty_report))
        else act_bind (is_contents_protected e dir) (\<lambda>prot.
          act_bind (if prot then act_ret True else act_cancelled e) (\<lambda>skip.
          if skip then act_ret (record_result dir CleanSkipped empty_report)
          else act_bind (enumerate_clean_entries e dir) (\<lambda>r. case r of
            Inl err \<Rightarrow>
              if err = NotExist then act_ret (record_result dir CleanSkipped empty_report)
              else act_bind (clean_fail dir (io_fail_reason e err)) (\<lambda>res.
                act_ret (record_result dir res empty_report))
          | Inr (children, parent) \<Rightarrow>
              act_bind (clean_entry_bindings e dir parent children) (\<lambda>(parent_ok, checked).
                act_fold (clean_dir_child depth e parent_ok) (zip children checked) empty_report)))))"

definition recycle_path_with :: "'w env \<Rightarrow> string \<Rightarrow> ('w, clean_result) act" where
  "recycle_path_with e path =
    act_bind (act_cancelled e) (\<lambda>c.
    act_bind (if c \<or> is_virtual_path path then act_ret True else is_protected e path) (\<lambda>skip.
      if skip then act_ret CleanSkipped
      else act_bind (act_lstat e path) (\<lambda>r. case r of
        Inl _ \<Rightarrow> act_ret CleanSkipped
      | Inr _ \<Rightarrow> act_bind (is_live_database e path) (\<lambda>live.
          if live then clean_fail path FailInUse
          else act_bind (note_path path) (\<lambda>_. act_bind (act_move_to_trash e path) (\<lambda>err. case err of
            Some x \<Rightarrow> clean_fail path (io_fail_reason e x)
          | None \<Rightarrow> act_bind (act_lstat e path) (\<lambda>r2.
              if r2 \<noteq> Inl NotExist then clean_fail path FailUnverified
              else act_bind (act_progress (\<lambda>p. p\<lparr>Files := Files p + 1\<rparr>)) (\<lambda>_. act_ret CleanOK))))))))"

datatype disposal = Permanent | RecycleBin | UnknownDisposal string

definition dispose :: "nat \<Rightarrow> 'w env \<Rightarrow> string \<Rightarrow> disposal \<Rightarrow> ('w, clean_result) act" where
  "dispose depth e path d =
    (case d of Permanent \<Rightarrow> clean_path depth e path
     | RecycleBin \<Rightarrow> recycle_path_with e path
     | UnknownDisposal _ \<Rightarrow> clean_fail path FailOther)"

end
