(* ===== verification/Cleaner_Safety.thy ===== *)
theory Cleaner_Safety
  imports Cleaner_Files
begin

text \<open>
  No deletion leaves the policy: whatever the operating system answers and however the disk changes
  meanwhile, the cleaner asks it to remove, unlink, recycle or make writable only paths that are not on
  the lists of the policy and for which it answered, when asked, that no agent manages a worktree there.
\<close>

definition trace_grows :: "(event \<Rightarrow> bool) \<Rightarrow> 'w pst \<Rightarrow> 'w pst \<Rightarrow> bool" where
  "trace_grows P s s' \<longleftrightarrow> (\<exists>ev. ps_trace s' = ps_trace s @ ev \<and> list_all P ev)"

lemma trace_grows_trans: "trace_grows P s t \<Longrightarrow> trace_grows P t u \<Longrightarrow> trace_grows P s u"
  by (auto simp: trace_grows_def)

lemma step_relation_trace: "step_relation (trace_grows P)"
  by unfold_locales (auto simp: trace_grows_def)

interpretation tr: step_relation "trace_grows P" for P
  by (rule step_relation_trace)

lemma tr_event: "(\<And>a. P (ev a)) \<Longrightarrow> tr.steps P (act_event ev f)"
  by (auto simp: tr.steps_def trace_grows_def act_event_def split: prod.splits)

lemma tr_progress: "tr.steps P (act_progress f)"
  by (auto simp: tr.steps_def trace_grows_def act_progress_def)

text \<open>
  A path may be changed when the policy does not protect it and the system, when asked, knew nothing
  of an agent that manages it: a path that the system always reports as managed is never one of them.
\<close>

definition free_path :: "'w env \<Rightarrow> string \<Rightarrow> bool" where
  "free_path e path \<longleftrightarrow> (\<exists>w. free_seen e path False w)"

text \<open>
  What a cleanup may ask of the system.  The access rights of a directory whose contents are cleared
  may be recovered when its contents, if not itself, are unprotected.  No program is started.
\<close>

fun event_allowed :: "'w env \<Rightarrow> event \<Rightarrow> bool" where
  "event_allowed e (Unlink path _) \<longleftrightarrow> free_path e path"
| "event_allowed e (RemoveDir path _) \<longleftrightarrow> free_path e path"
| "event_allowed e (RemoveExclusive path _) \<longleftrightarrow> free_path e path"
| "event_allowed e (MakeWritable path) \<longleftrightarrow> free_path e path"
| "event_allowed e (MoveToTrash path _) \<longleftrightarrow> free_path e path"
| "event_allowed e (ForceAccess path) \<longleftrightarrow> (\<exists>w. free_seen e path True w)"
| "event_allowed e (RunTool _ _) \<longleftrightarrow> False"

text \<open>Disposing of one path is stricter: no exception for access rights.\<close>

definition event_free :: "'w env \<Rightarrow> event \<Rightarrow> bool" where
  "event_free e ev \<longleftrightarrow> (case ev of ForceAccess path \<Rightarrow> free_path e path | _ \<Rightarrow> event_allowed e ev)"

lemma event_free_simps [simp]:
  "event_free e (Unlink path r) = free_path e path" "event_free e (RemoveDir path r) = free_path e path"
  "event_free e (RemoveExclusive path r) = free_path e path" "event_free e (MakeWritable path) = free_path e path"
  "event_free e (MoveToTrash path r) = free_path e path" "event_free e (ForceAccess path) = free_path e path"
  "event_free e (RunTool program args) = False"
  by (simp_all add: event_free_def)

lemma contents_weaker: "free_seen e path False w \<Longrightarrow> free_seen e path True w"
  by (auto simp: free_seen_def lexically_protected_def policy_protected_def Let_def)

lemma free_allowed: "event_free e ev \<Longrightarrow> event_allowed e ev"
  by (cases ev) (auto simp: free_path_def dest: contents_weaker)

lemma tr_steps_mono: "tr.steps P m \<Longrightarrow> (\<And>ev. P ev \<Longrightarrow> Q ev) \<Longrightarrow> tr.steps Q m"
  unfolding tr.steps_def trace_grows_def by (metis list.pred_mono_strong)

abbreviation safe :: "'w env \<Rightarrow> ('w, 'a) act \<Rightarrow> bool" where
  "safe e m \<equiv> tr.steps (event_allowed e) m"

abbreviation free :: "'w env \<Rightarrow> ('w, 'a) act \<Rightarrow> bool" where
  "free e m \<equiv> tr.steps (event_free e) m"

lemma safe_free: "free e m \<Longrightarrow> safe e m"
  by (erule tr_steps_mono) (rule free_allowed)

named_theorems safe_intros

lemmas [safe_intros] = tr.steps_intros tr.steps_guards tr_progress

lemma is_protected_FalseD: "is_protected e path s = (Some False, s') \<Longrightarrow> free_path e path"
  by (auto simp: is_protected_def free_path_def dest: is_protected_free)

lemma steps_looks [safe_intros]: "tr.steps P (is_protected e path)" "tr.steps P (is_contents_protected e path)"
  by (simp_all add: is_protected_def is_contents_protected_def tr.steps_protected)

lemma steps_counts [safe_intros]: "tr.steps P (clean_fail path r)" "tr.steps P (clean_fail_parent path cs)" "tr.steps P (count_file sz)"
  unfolding clean_fail_def clean_fail_parent_def count_file_def
  by (intro safe_intros tr.steps_bind)+

lemma free_readonly_retry:
  assumes "free_path e path" "free e (rem path)"
  shows "free e (remove_with_readonly_retry e path rem)"
  unfolding remove_with_readonly_retry_def act_make_writable_def
  using assms by (intro safe_intros tr.steps_bind tr_event) simp_all

lemma free_remove_forcing:
  assumes "free_path e path" "free e (rem path)"
  shows "free e (remove_forcing e path rem)"
proof -
  note retry = free_readonly_retry [where rem = rem, OF assms]
  have force: "free e (act_force_access e q)" if "free_path e q" for q
    unfolding act_force_access_def using that by (intro tr_event) simp
  show ?thesis
    unfolding remove_forcing_def Let_def
    by (intro safe_intros tr.steps_bind retry force assms(1))
      (auto dest: is_protected_FalseD split: if_splits)
qed

lemma free_clean_file [safe_intros]: "free e (clean_file e path sz)"
  unfolding clean_file_def act_remove_exclusive_def
  by (intro safe_intros tr.steps_bind free_remove_forcing tr_event)
    (auto dest: is_protected_FalseD split: if_splits)

lemma steps_enumerate:
  assumes "P (ForceAccess dir)"
  shows "tr.steps P (enumerate_clean_entries e dir)"
proof -
  have "tr.steps P (enumerate_entry e dir d)" for d
    unfolding enumerate_entry_def Let_def by (intro safe_intros tr.steps_bind)
  then have "tr.steps P (enumerate_loop e dir ds out)" for ds out
    by (induction ds arbitrary: out) (auto intro!: safe_intros tr.steps_bind split: option.splits)
  moreover have "tr.steps P (act_force_access e dir)"
    unfolding act_force_access_def using assms by (intro tr_event) simp
  ultimately show ?thesis
    unfolding enumerate_clean_entries_def by (intro safe_intros tr.steps_bind)
qed

lemma steps_entry_bindings [safe_intros]: "tr.steps P (clean_entry_bindings e dir parent children)"
  unfolding clean_entry_bindings_def root_identity_holds_def by (intro safe_intros tr.steps_bind)

lemma steps_classify [safe_intros]: "tr.steps P (classify_unchecked_child e ok c)"
  unfolding classify_unchecked_child_def by (intro safe_intros tr.steps_bind)

lemma free_members [safe_intros]: "free e (clean_members e fs failed cf)"
  by (induction fs arbitrary: failed cf) (auto intro!: safe_intros tr.steps_bind)

lemma free_families [safe_intros]: "free e (clean_file_families e files)"
  unfolding clean_file_families_def clean_file_family_def Let_def
  by (intro safe_intros tr.steps_bind)

lemma steps_sort_child [safe_intros]: "tr.steps P (sort_child e ok cb acc)"
  unfolding sort_child_def by (auto intro!: safe_intros tr.steps_bind split: prod.splits)

lemma free_delete_tree [safe_intros]: "free e (delete_tree depth e path)"
proof (induction depth arbitrary: path)
  case 0
  show ?case by (simp add: tr.steps_stop)
next
  case (Suc depth)
  have parts: "free e (unlink_link e path)" "free e (remove_emptied_dir e path)" "free e (enumerate_clean_entries e path)"
    if "free_path e path"
    unfolding unlink_link_def remove_emptied_dir_def act_unlink_def act_remove_dir_def
    using that
    by (auto intro!: safe_intros tr.steps_bind tr_event free_remove_forcing steps_enumerate)
  show ?case
    unfolding delete_tree.simps Let_def
    by (auto intro!: safe_intros parts tr.steps_bind tr.steps_fold Suc.IH dest: is_protected_FalseD split: if_splits)
qed

lemmas safe_delete_tree [safe_intros] = safe_free [OF free_delete_tree]

lemma free_clean_path [safe_intros]: "free e (clean_path depth e path)"
  unfolding clean_path_def by (intro safe_intros tr.steps_bind)

lemmas safe_clean_path [safe_intros] = safe_free [OF free_clean_path]

lemma safe_dir_child [safe_intros]: "safe e (clean_dir_child depth e ok cb report)"
  unfolding clean_dir_child_def by (auto intro!: safe_intros tr.steps_bind split: prod.splits)

lemma is_contents_protected_FalseD:
  "is_contents_protected e path s = (Some False, s') \<Longrightarrow> \<exists>w. free_seen e path True w"
  by (auto simp: is_contents_protected_def dest: is_protected_free)

lemma safe_dir_contents [safe_intros]: "safe e (clean_dir_contents depth e dir)"
  unfolding clean_dir_contents_def
  by (auto intro!: safe_intros tr.steps_bind tr.steps_fold steps_enumerate
    dest: is_contents_protected_FalseD split: if_splits)

lemma free_recycle [safe_intros]: "free e (recycle_path_with e path)"
  unfolding recycle_path_with_def act_move_to_trash_def
  by (intro safe_intros tr.steps_bind tr_event) (auto dest: is_protected_FalseD split: if_splits)

lemma free_dispose [safe_intros]: "free e (dispose depth e path d)"
  unfolding dispose_def by (auto intro!: safe_intros split: disposal.splits)

lemmas safe_dispose [safe_intros] = safe_free [OF free_recycle] safe_free [OF free_dispose]

text \<open>C31: disposing of a path, permanently or to the recycle bin,
  changes nothing that is protected: every removal, unlinking, recycling, mode change and recovery of
  access rights that reaches the operating system names a path that the policy does not list and for
  which the system, when asked about the markers of a managed worktree, answered that there are none;
  and no program is started.  This holds whatever the system answers, in whatever order the parallel
  parts run, whatever changes on the disk meanwhile and at every depth of recursion.\<close>

theorem dispose_never_touches_protected:
  "\<exists>calls. ps_trace (snd (dispose depth e path d s)) = ps_trace s @ calls \<and> list_all (event_free e) calls"
  using tr.stepsD [OF free_dispose, of depth e path d s] by (cases "dispose depth e path d s") (simp add: trace_grows_def)

text \<open>Clearing a directory touches no protected path;
  its own access rights are changed only when its contents may be deleted.\<close>

theorem clean_dir_contents_never_touches_protected:
  "\<exists>calls. ps_trace (snd (clean_dir_contents depth e dir s)) = ps_trace s @ calls \<and>
     list_all (event_allowed e) calls"
  using tr.stepsD [OF safe_dir_contents, of depth e dir s]
  by (cases "clean_dir_contents depth e dir s") (simp add: trace_grows_def)

end
