(* ===== verification/Cleaner_Counts.thy ===== *)
theory Cleaner_Counts
  imports Cleaner_Safety
begin

text \<open>
  The cleaner's report agrees with what it did: the number of files it reports is the number of
  files and links the system removed, every failure it returns has a recorded reason, a directory's
  reason follows its children, and a database's main file is kept when a companion is.
\<close>

section \<open>The file counter\<close>

fun removed_file :: "event \<Rightarrow> bool" where
  "removed_file (Unlink _ None) = True"
| "removed_file (RemoveExclusive _ None) = True"
| "removed_file _ = False"

definition removed_files :: "event list \<Rightarrow> u64" where
  "removed_files ev = of_nat (length (filter removed_file ev))"

lemma removed_files_append [simp]: "removed_files (xs @ ys) = removed_files xs + removed_files ys"
  by (simp add: removed_files_def)

lemma removed_files_Nil [simp]: "removed_files [] = 0"
  by (simp add: removed_files_def)

text \<open>\<open>drift d\<close>: the counter is \<open>d\<close> behind the removals made.\<close>

definition drift :: "u64 \<Rightarrow> 'w pst \<Rightarrow> 'w pst \<Rightarrow> bool" where
  "drift d s s' \<longleftrightarrow> (\<exists>ev. ps_trace s' = ps_trace s @ ev \<and>
     Files (ps_progress s') + d = Files (ps_progress s) + removed_files ev)"

lemma drift_trans: "drift d s t \<Longrightarrow> drift d' t u \<Longrightarrow> drift (d + d') s u"
proof -
  assume "drift d s t" "drift d' t u"
  then obtain ev ev' where "ps_trace t = ps_trace s @ ev" "ps_trace u = ps_trace t @ ev'"
    "Files (ps_progress t) + d = Files (ps_progress s) + removed_files ev"
    "Files (ps_progress u) + d' = Files (ps_progress t) + removed_files ev'" by (auto simp: drift_def)
  then have "ps_trace u = ps_trace s @ (ev @ ev')"
    "Files (ps_progress u) + (d + d') = Files (ps_progress s) + removed_files (ev @ ev')"
    by (simp_all add: algebra_simps)
  then show ?thesis unfolding drift_def by blast
qed

lemma drift_0_trans: "drift 0 s t \<Longrightarrow> drift d t u \<Longrightarrow> drift d s u"
  using drift_trans [of 0 s t d u] by simp

lemma drift_refl: "ps_trace s' = ps_trace s \<Longrightarrow> Files (ps_progress s') = Files (ps_progress s) \<Longrightarrow> drift 0 s s'"
  by (auto simp: drift_def intro: exI [of _ "[]"])

interpretation dr: step_relation "drift 0"
  by unfold_locales (auto intro: drift_refl drift_0_trans)

named_theorems drift_intros

lemmas [drift_intros] = dr.steps_intros dr.steps_guards

lemma drift_progress: "(\<And>p. Files (f p) = Files p) \<Longrightarrow> dr.steps (act_progress f)"
  by (auto simp: dr.steps_def act_progress_def intro: drift_refl)

lemma drift_fail [drift_intros]: "dr.steps (clean_fail path r)" "dr.steps (clean_fail_parent path cs)"
  unfolding clean_fail_def clean_fail_parent_def progress_fail_def
  by (intro drift_intros dr.steps_bind drift_progress; simp)+

lemma drift_event: "(\<And>a. \<not> removed_file (ev a)) \<Longrightarrow> dr.steps (act_event ev f)"
  by (auto simp: dr.steps_def act_event_def drift_def removed_files_def split: prod.splits)

text \<open>A removal operation that leaves the counter behind by one exactly when it succeeds.\<close>

definition count_of :: "os_error option option \<Rightarrow> u64" where
  "count_of r = (if r = Some None then 1 else 0)"

definition counts :: "('w, os_error option) act \<Rightarrow> bool" where
  "counts m \<longleftrightarrow> (\<forall>s r s'. m s = (r, s') \<longrightarrow> drift (count_of r) s s')"

lemma countsD: "counts m \<Longrightarrow> m s = (r, s') \<Longrightarrow> drift (count_of r) s s'"
  by (simp add: counts_def)

lemma counts_event:
  assumes "\<And>a. removed_file (ev a) \<longleftrightarrow> a = None"
  shows "counts (act_event ev f)"
  unfolding counts_def
proof (intro allI impI)
  fix s r s' assume "act_event ev f s = (r, s')"
  then obtain a w where r: "r = Some a" and s': "s' = s\<lparr>ps_world := w, ps_trace := ps_trace s @ [ev a]\<rparr>"
    by (auto simp: act_event_def split: prod.splits)
  have "removed_files [ev a] = count_of r"
    using assms [of a] by (simp add: removed_files_def count_of_def r)
  then have "ps_trace s' = ps_trace s @ [ev a]"
    "Files (ps_progress s') + count_of r = Files (ps_progress s) + removed_files [ev a]"
    by (simp_all add: s')
  then show "drift (count_of r) s s'" unfolding drift_def by blast
qed

lemma counts_ret: "err \<noteq> None \<Longrightarrow> counts (act_ret err)"
  by (auto simp: counts_def count_of_def intro: drift_refl)

lemma counts_after:
  assumes "dr.steps m" "\<And>a s s'. m s = (Some a, s') \<Longrightarrow> counts (f a)"
  shows "counts (act_bind m f)"
  unfolding counts_def
proof (intro allI impI)
  fix s r s' assume "act_bind m f s = (r, s')"
  then consider "m s = (None, s')" "r = None" | a s1 where "m s = (Some a, s1)" "f a s1 = (r, s')"
    by (auto simp: act_bind_def split: prod.splits option.splits)
  then show "drift (count_of r) s s'"
  proof cases
    case 1
    with dr.stepsD [OF assms(1) 1(1)] show ?thesis by (simp add: count_of_def)
  next
    case 2
    from dr.stepsD [OF assms(1) 2(1)] countsD [OF assms(2) [OF 2(1)] 2(2)] show ?thesis by (rule drift_0_trans)
  qed
qed

text \<open>After a step that counts, success is final and a failure may be retried.\<close>

lemma counts_retry:
  assumes "counts m" "f None = act_ret None" "\<And>x. counts (f (Some x))"
  shows "counts (act_bind m f)"
  unfolding counts_def
proof (intro allI impI)
  fix s r s' assume b: "act_bind m f s = (r, s')"
  obtain q s1 where q: "m s = (q, s1)" by (cases "m s")
  consider "q = None" | "q = Some None" | x where "q = Some (Some x)" by (metis not_Some_eq)
  then show "drift (count_of r) s s'"
  proof cases
    case 1
    with b q have "r = None" "s' = s1" by (auto simp: act_bind_def)
    with countsD [OF assms(1) q] 1 show ?thesis by simp
  next
    case 2
    with b q assms(2) have "r = Some None" "s' = s1" by (auto simp: act_bind_def)
    with countsD [OF assms(1) q] 2 show ?thesis by simp
  next
    case 3
    with b q have f: "f (Some x) s1 = (r, s')" by (simp add: act_bind_def)
    have "drift 0 s s1" using countsD [OF assms(1) q] 3 by (simp add: count_of_def)
    then show ?thesis using countsD [OF assms(3) f] by (rule drift_0_trans)
  qed
qed

lemma drift_access [drift_intros]: "dr.steps (act_make_writable e p)" "dr.steps (act_force_access e p)"
  unfolding act_make_writable_def act_force_access_def by (rule drift_event, simp)+

lemma drift_protected [drift_intros]: "dr.steps (is_protected e path)" "dr.steps (is_contents_protected e path)"
  by (simp_all add: is_protected_def is_contents_protected_def dr.steps_protected)

lemma counts_if: "(c \<Longrightarrow> counts m) \<Longrightarrow> (\<not> c \<Longrightarrow> counts m') \<Longrightarrow> counts (if c then m else m')"
  by simp

lemma counts_readonly_retry:
  assumes "counts (rem path)"
  shows "counts (remove_with_readonly_retry e path rem)"
  unfolding remove_with_readonly_retry_def
  by (rule counts_retry, rule assms, simp)
    (auto intro!: counts_after assms drift_intros dr.steps_bind)

lemma counts_remove_forcing:
  assumes "counts (rem path)"
  shows "counts (remove_forcing e path rem)"
proof -
  note retry = counts_readonly_retry [where rem = rem, OF assms]
  have last: "counts (act_bind (remove_with_readonly_retry e path rem)
      (\<lambda>retry. act_ret (if retry = None then None else Some x)))" for x
    by (rule counts_retry, rule retry) (simp_all add: counts_ret)
  show ?thesis
    unfolding remove_forcing_def Let_def
  proof (rule counts_retry, rule retry, simp, rule counts_if, simp add: counts_ret,
      rule counts_after, rule drift_access, rule counts_retry, rule retry, simp)
    fix x y assume "\<not> Some x \<noteq> Some Permission"
    show "counts (if Some y = None then act_ret None else act_bind
        (if path_dir path \<noteq> path then is_protected e (path_dir path) else act_ret True) (\<lambda>prot.
          if prot then act_ret (Some x) else act_bind (act_force_access e (path_dir path)) (\<lambda>_.
            act_bind (remove_with_readonly_retry e path rem) (\<lambda>retry.
              act_ret (if retry = None then None else Some x)))))"
      by (auto intro!: counts_after drift_intros counts_ret last)
  qed
qed

text \<open>Once the caller counts a success, it is no longer behind.\<close>

lemma drift_counted:
  assumes "counts m" "\<And>s r s'. f None s = (r, s') \<Longrightarrow> drift (- 1) s s'" "\<And>x. dr.steps (f (Some x))"
  shows "dr.steps (act_bind m f)"
proof (rule dr.stepsI)
  fix s r s' assume b: "act_bind m f s = (r, s')"
  obtain q s1 where q: "m s = (q, s1)" by (cases "m s")
  consider "q = None" | "q = Some None" | x where "q = Some (Some x)" by (metis not_Some_eq)
  then show "drift 0 s s'"
  proof cases
    case 1
    with b q have "s' = s1" by (auto simp: act_bind_def)
    with countsD [OF assms(1) q] 1 show ?thesis by (simp add: count_of_def)
  next
    case 2
    with b q have "f None s1 = (r, s')" by (simp add: act_bind_def)
    with drift_trans [OF countsD [OF assms(1) q] assms(2)] 2 show ?thesis by (simp add: count_of_def)
  next
    case 3
    with b q have f: "f (Some x) s1 = (r, s')" by (simp add: act_bind_def)
    have "drift 0 s s1" using countsD [OF assms(1) q] 3 by (simp add: count_of_def)
    then show ?thesis using dr.stepsD [OF assms(3) f] by (rule drift_0_trans)
  qed
qed

lemma drift_plus_one:
  assumes "\<And>p. Files (f p) = Files p + 1" "act_bind (act_progress f) (\<lambda>_. act_ret a) s = (r, s')"
  shows "drift (- 1) s s'"
  using assms by (auto simp: act_bind_def act_progress_def drift_def intro: exI [of _ "[]"])

lemma drift_clean_file [drift_intros]: "dr.steps (clean_file e path sz)"
proof -
  have forcing: "counts (remove_forcing e path (act_remove_exclusive e))"
    unfolding act_remove_exclusive_def by (intro counts_remove_forcing counts_event) (case_tac a; simp)
  show ?thesis
    unfolding clean_file_def count_file_def
    by (intro drift_intros dr.steps_bind drift_counted forcing)
      (auto intro!: drift_intros elim!: drift_plus_one [rotated])
qed

lemma drift_unlink [drift_intros]: "dr.steps (unlink_link e path)"
proof -
  have "counts (act_unlink e path)"
    unfolding act_unlink_def by (rule counts_event) (case_tac a; simp)
  then show ?thesis
    unfolding unlink_link_def
    by (intro drift_counted) (auto intro!: drift_intros elim!: drift_plus_one [rotated])
qed

lemma drift_remove_dir [drift_intros]: "dr.steps (remove_emptied_dir e path)"
  unfolding remove_emptied_dir_def remove_forcing_def remove_with_readonly_retry_def act_remove_dir_def Let_def
  by (intro drift_intros dr.steps_bind drift_event) simp_all

lemma drift_enumerate [drift_intros]: "dr.steps (enumerate_clean_entries e dir)"
proof -
  have "dr.steps (enumerate_entry e dir d)" for d
    unfolding enumerate_entry_def Let_def by (intro drift_intros dr.steps_bind)
  then have "dr.steps (enumerate_loop e dir ds out)" for ds out
    by (induction ds arbitrary: out) (auto intro!: drift_intros dr.steps_bind split: option.splits)
  then show ?thesis
    unfolding enumerate_clean_entries_def by (intro drift_intros dr.steps_bind)
qed

lemma drift_bindings [drift_intros]: "dr.steps (clean_entry_bindings e dir parent children)"
  unfolding clean_entry_bindings_def root_identity_holds_def by (intro drift_intros dr.steps_bind)

lemma drift_classify [drift_intros]: "dr.steps (classify_unchecked_child e ok c)"
  unfolding classify_unchecked_child_def by (intro drift_intros dr.steps_bind)

lemma drift_members [drift_intros]: "dr.steps (clean_members e fs failed cf)"
  by (induction fs arbitrary: failed cf) (auto intro!: drift_intros dr.steps_bind)

lemma drift_families [drift_intros]: "dr.steps (clean_file_families e files)"
  unfolding clean_file_families_def clean_file_family_def Let_def
  by (intro drift_intros dr.steps_bind)

lemma drift_sort_child [drift_intros]: "dr.steps (sort_child e ok cb acc)"
  unfolding sort_child_def by (auto intro!: drift_intros dr.steps_bind split: prod.splits)

lemma drift_delete_tree [drift_intros]: "dr.steps (delete_tree depth e path)"
proof (induction depth arbitrary: path)
  case (Suc depth)
  then show ?case
    unfolding delete_tree.simps Let_def
    by (auto intro!: drift_intros dr.steps_bind dr.steps_fold split: if_splits)
qed (simp add: dr.steps_stop)

lemma drift_clean_path [drift_intros]: "dr.steps (clean_path depth e path)"
  unfolding clean_path_def by (intro drift_intros dr.steps_bind)

lemma drift_dir_contents: "dr.steps (clean_dir_contents depth e dir)"
proof -
  have "dr.steps (clean_dir_child depth e ok cb report)" for ok cb report
    unfolding clean_dir_child_def by (auto intro!: drift_intros dr.steps_bind split: prod.splits)
  then show ?thesis
    unfolding clean_dir_contents_def
    by (auto intro!: drift_intros dr.steps_bind dr.steps_fold split: if_splits)
qed

text \<open>C33: a permanent cleanup reports as many files as the system says
  it removed or unlinked, no more and no fewer, retries and failures included.\<close>

theorem clean_path_counts_removals:
  "\<exists>calls. ps_trace (snd (clean_path depth e path s)) = ps_trace s @ calls \<and>
     Files (ps_progress (snd (clean_path depth e path s))) =
       Files (ps_progress s) + of_nat (length (filter removed_file calls))"
  using dr.stepsD [OF drift_clean_path, of depth e path s]
  by (cases "clean_path depth e path s") (simp add: drift_def removed_files_def)

end
