(* ===== verification/Cleaner_Report.thy ===== *)
theory Cleaner_Report
  imports Cleaner_Counts
begin

text \<open>
  What the results of a cleanup mean: a directory's reason follows its children, every failure has
  a recorded reason, a database's main file outlives its companions, and the report of a cleared
  directory accounts for each entry once.
\<close>

section \<open>Reasons\<close>

text \<open>A directory that stays because of its children is a real failure as
  soon as one child is, is in use when some child is and the rest are skips, and is otherwise
  unverified; the order of the children does not matter.\<close>

theorem parent_reason_spec:
  "parent_reason rs FailUnverified cs =
    (if rs ` set cs \<subseteq> {Some FailInUse, Some FailUnverified}
     then if Some FailInUse \<in> rs ` set cs then FailInUse else FailUnverified
     else FailOther)"
proof -
  have "parent_reason rs acc cs =
    (if rs ` set cs \<subseteq> {Some FailInUse, Some FailUnverified}
     then if Some FailInUse \<in> rs ` set cs then FailInUse else acc
     else FailOther)" for acc
    by (induction cs arbitrary: acc) (auto simp: is_skipped_def split: option.splits)
  then show ?thesis .
qed

lemma clean_fail_Some: "clean_fail path r s = (Some res, s') \<Longrightarrow> path \<in> dom (reasons (ps_progress s'))"
  by (auto simp: clean_fail_def act_progress_def act_bind_Some_iff progress_fail_def)

lemma clean_fail_parent_Some:
  "clean_fail_parent path cs s = (Some res, s') \<Longrightarrow> path \<in> dom (reasons (ps_progress s'))"
  by (auto simp: clean_fail_parent_def act_progress_def act_bind_Some_iff)

definition fails_with_reason :: "('w, clean_result) act \<Rightarrow> string \<Rightarrow> bool" where
  "fails_with_reason m path \<longleftrightarrow>
     (\<forall>s s'. m s = (Some CleanFailed, s') \<longrightarrow> path \<in> dom (reasons (ps_progress s')))"

named_theorems reason_intros

lemma reason_fail [reason_intros]:
  "fails_with_reason (clean_fail path r) path" "fails_with_reason (clean_fail_parent path cs) path"
  by (auto simp: fails_with_reason_def dest: clean_fail_Some clean_fail_parent_Some)

lemma reason_ret [reason_intros]: "res \<noteq> CleanFailed \<Longrightarrow> fails_with_reason (act_ret res) path"
  by (simp add: fails_with_reason_def)

lemma reason_bind [reason_intros]: "(\<And>a. fails_with_reason (f a) path) \<Longrightarrow> fails_with_reason (act_bind m f) path"
  by (auto simp: fails_with_reason_def act_bind_Some_iff)

lemma reason_cases [reason_intros]:
  "(c \<Longrightarrow> fails_with_reason m path) \<Longrightarrow> (\<not> c \<Longrightarrow> fails_with_reason m' path) \<Longrightarrow>
     fails_with_reason (if c then m else m') path"
  "(\<And>a. fails_with_reason (f a) path) \<Longrightarrow> (\<And>b. fails_with_reason (g b) path) \<Longrightarrow>
     fails_with_reason (case x of Inl a \<Rightarrow> f a | Inr b \<Rightarrow> g b) path"
  "fails_with_reason k path \<Longrightarrow> (\<And>b. fails_with_reason (h b) path) \<Longrightarrow>
     fails_with_reason (case y of None \<Rightarrow> k | Some b \<Rightarrow> h b) path"
  "(\<And>a b. fails_with_reason (l a b) path) \<Longrightarrow> fails_with_reason (case z of (a, b) \<Rightarrow> l a b) path"
  by (simp, cases x, auto, cases y, auto, cases z, auto)

lemma reason_stop: "fails_with_reason act_stop path"
  by (simp add: fails_with_reason_def act_stop_def)

lemma reason_clean_file [reason_intros]: "fails_with_reason (clean_file e path sz) path"
  unfolding clean_file_def by (intro reason_intros) simp_all

lemma reason_delete_tree [reason_intros]: "fails_with_reason (delete_tree depth e path) path"
proof (cases depth)
  case 0
  then show ?thesis by (simp add: reason_stop)
next
  case (Suc d)
  then show ?thesis
    unfolding Suc delete_tree.simps unlink_link_def remove_emptied_dir_def Let_def
    by (intro reason_intros) simp_all
qed

lemma reason_clean_path: "fails_with_reason (clean_path depth e path) path"
  unfolding clean_path_def by (intro reason_intros) simp_all

lemma reason_recycle: "fails_with_reason (recycle_path_with e path) path"
  unfolding recycle_path_with_def by (intro reason_intros) simp_all

lemma reason_dispose: "fails_with_reason (dispose depth e path d) path"
  by (cases d) (simp_all add: dispose_def reason_clean_path reason_recycle reason_fail)

text \<open>A disposal that fails leaves a recorded reason for its path,
  so the report can always tell a skipped item from an error.\<close>

theorem dispose_failure_has_reason:
  assumes "dispose depth e path d s = (Some CleanFailed, s')"
  shows "path \<in> dom (reasons (ps_progress s'))"
  using reason_dispose assms unfolding fails_with_reason_def by blast

section \<open>SQLite families\<close>

fun removes :: "string \<Rightarrow> event \<Rightarrow> bool" where
  "removes path (RemoveExclusive p _) \<longleftrightarrow> p = path"
| "removes path _ \<longleftrightarrow> False"

lemma clean_file_removes_own:
  assumes "path \<noteq> m"
  shows "tr.steps (\<lambda>ev. \<not> removes m ev) (clean_file e path sz)"
proof -
  note [intro] = tr.steps_intros tr.steps_guards tr_progress tr.steps_bind
  have ev: "tr.steps (\<lambda>ev. \<not> removes m ev) (act_remove_exclusive e path)"
    "tr.steps (\<lambda>ev. \<not> removes m ev) (act_make_writable e p)"
    "tr.steps (\<lambda>ev. \<not> removes m ev) (act_force_access e p)" for p
    unfolding act_remove_exclusive_def act_make_writable_def act_force_access_def
    by (rule tr_event, use assms in simp)+
  have retry: "tr.steps (\<lambda>ev. \<not> removes m ev) (remove_with_readonly_retry e path (act_remove_exclusive e))"
    unfolding remove_with_readonly_retry_def by (intro tr.steps_bind tr.steps_intros ev)
  have prot: "tr.steps (\<lambda>ev. \<not> removes m ev) (is_protected e p)" for p
    by (simp add: is_protected_def tr.steps_protected)
  show ?thesis
    unfolding clean_file_def remove_forcing_def clean_fail_def count_file_def Let_def
    by (intro tr.steps_bind tr.steps_intros ev retry prot tr_progress)
qed

abbreviation paths :: "clean_entry list \<Rightarrow> string set" where
  "paths cs \<equiv> ce_path ` set cs"

lemma clean_members_companions:
  assumes "clean_members e (cs @ ms) failed cf s = (Some out, s')" "\<forall>c \<in> set cs. companion c" "m \<notin> paths cs"
  shows "\<exists>xs s1. set xs \<subseteq> paths cs \<and> trace_grows (\<lambda>ev. \<not> removes m ev) s s1 \<and>
    clean_members e ms (failed @ xs) (cf @ xs) s1 = (Some out, s')"
  using assms
proof (induction cs arbitrary: failed cf s)
  case Nil
  then show ?case by (intro exI [of _ "[]"] exI [of _ s]) (simp add: trace_grows_def)
next
  case (Cons c cs)
  then obtain r s2 where f: "clean_file e (ce_path c) (ce_size c) s = (Some r, s2)" and
    rest: "clean_members e (cs @ ms) (if r = CleanFailed then failed @ [ce_path c] else failed)
      (if r = CleanFailed then cf @ [ce_path c] else cf) s2 = (Some out, s')"
    by (auto simp: act_bind_Some_iff split: if_splits)
  have "ce_path c \<noteq> m" using Cons.prems(3) by auto
  from tr.stepsD [OF clean_file_removes_own [OF this] f]
  have t: "trace_grows (\<lambda>ev. \<not> removes m ev) s s2" .
  from Cons.IH [OF rest] Cons.prems(2,3) obtain xs s1 where
    "set xs \<subseteq> paths cs" "trace_grows (\<lambda>ev. \<not> removes m ev) s2 s1"
    "clean_members e ms ((if r = CleanFailed then failed @ [ce_path c] else failed) @ xs)
      ((if r = CleanFailed then cf @ [ce_path c] else cf) @ xs) s1 = (Some out, s')" by auto
  with trace_grows_trans [OF t] show ?case
    by (intro exI [of _ "(if r = CleanFailed then [ce_path c] else []) @ xs"] exI [of _ s1]) auto
qed

lemma clean_members_mains_kept:
  assumes "clean_members e ms failed cf s = (Some out, s')" "\<forall>c \<in> set ms. \<not> companion c" "cf \<noteq> []"
  shows "ps_trace s' = ps_trace s"
  using assms
proof (induction ms arbitrary: failed s)
  case (Cons m ms)
  then obtain r s2 where "clean_fail_parent (ce_path m) cf s = (Some r, s2)"
    "clean_members e ms (failed @ [ce_path m]) cf s2 = (Some out, s')"
    by (auto simp: act_bind_Some_iff split: if_splits)
  with Cons.IH Cons.prems(2,3) show ?case
    by (auto simp: clean_fail_parent_def act_bind_Some_iff act_progress_def)
qed simp

lemma clean_members_mains_failed:
  assumes "clean_members e ms failed cf s = (Some out, s')" "\<forall>c \<in> set ms. \<not> companion c"
  shows "set out \<subseteq> set failed \<union> paths ms"
  using assms
proof (induction ms arbitrary: failed s)
  case (Cons m ms)
  then obtain s2 failed' where "clean_members e ms failed' cf s2 = (Some out, s')"
    "set failed' \<subseteq> set failed \<union> {ce_path m}"
    by (auto simp: act_bind_Some_iff split: if_splits)
  with Cons.IH [of failed' s2] Cons.prems(2) show ?case by auto
qed simp

text \<open>C32: when the removal of a database's write-ahead log, shared memory or
  journal fails, its main file is not removed: the system is never asked to.\<close>

theorem sqlite_main_kept:
  assumes "clean_file_family e members s = (Some failed, s')"
    and "c \<in> set members" "companion c" "ce_path c \<in> set failed"
    and "m \<in> set members" "\<not> companion m" "distinct (map ce_path members)"
  shows "\<exists>calls. ps_trace s' = ps_trace s @ calls \<and> list_all (\<lambda>call. \<not> removes (ce_path m) call) calls"
proof -
  define cs ms where "cs = filter companion members" and "ms = filter (\<lambda>c. \<not> companion c) members"
  have order: "family_order members = cs @ ms" by (simp add: family_order_def cs_def ms_def)
  have no: "tr.steps (\<lambda>ev. \<not> removes (ce_path m) ev) (act_map (\<lambda>f. clean_fail (ce_path f) FailInUse) (cs @ ms))"
    unfolding clean_fail_def by (intro tr.steps_intros tr.steps_bind tr_progress)
  have quiet: "tr.steps (\<lambda>ev. \<not> removes (ce_path m) ev) (is_live_database e p)" for p
    by (rule tr.steps_live)
  have neq: "ce_path x \<noteq> ce_path y" if "x \<in> set members" "y \<in> set members" "companion x" "\<not> companion y" for x y
    using assms(7) that by (auto simp: distinct_map dest!: inj_onD)
  from assms(1) obtain live s1 where g: "(if filter companion (cs @ ms) \<noteq> [] \<and> filter (\<lambda>c. \<not> companion c) (cs @ ms) \<noteq> []
         then is_live_database e (ce_path (last (filter (\<lambda>c. \<not> companion c) (cs @ ms))))
         else act_ret False) s = (Some live, s1)" and
    r: "(if live then act_bind (act_map (\<lambda>f. clean_fail (ce_path f) FailInUse) (cs @ ms)) (\<lambda>_. act_ret (map ce_path (cs @ ms)))
         else clean_members e (cs @ ms) [] []) s1 = (Some failed, s')"
    unfolding clean_file_family_def Let_def order act_bind_Some_iff by blast
  have l: "trace_grows (\<lambda>ev. \<not> removes (ce_path m) ev) s s1"
  proof (rule tr.stepsD)
    show "(if filter companion (cs @ ms) \<noteq> [] \<and> filter (\<lambda>c. \<not> companion c) (cs @ ms) \<noteq> []
         then is_live_database e (ce_path (last (filter (\<lambda>c. \<not> companion c) (cs @ ms))))
         else act_ret False) s = (Some live, s1)" by (rule g)
  qed (intro tr.steps_if quiet tr.steps_ret)
  have "trace_grows (\<lambda>ev. \<not> removes (ce_path m) ev) s1 s'"
  proof (cases live)
    case True
    with r show ?thesis by (auto simp: act_bind_Some_iff dest: tr.stepsD [OF no])
  next
    case False
    have nm: "ce_path m \<notin> paths cs" using neq [of _ m] assms(5,6) by (auto simp: cs_def)
    have comp: "\<forall>c \<in> set cs. companion c" by (simp add: cs_def)
    have "clean_members e (cs @ ms) [] [] s1 = (Some failed, s')" using False r by simp
    from clean_members_companions [OF this comp nm]
    obtain xs s2 where x: "set xs \<subseteq> paths cs" "trace_grows (\<lambda>ev. \<not> removes (ce_path m) ev) s1 s2"
      "clean_members e ms xs xs s2 = (Some failed, s')" by auto
    have "ce_path c \<in> set xs"
      using clean_members_mains_failed [OF x(3)] assms(2-4) neq [of c] by (auto simp: ms_def)
    then have "ps_trace s' = ps_trace s2" by (intro clean_members_mains_kept [OF x(3)]) (auto simp: ms_def)
    with x(2) show ?thesis by (simp add: trace_grows_def)
  qed
  with trace_grows_trans [OF l] show ?thesis by (simp add: trace_grows_def)
qed


section \<open>A concrete system\<close>

text \<open>Every path is a regular file that no one holds, and nothing can be removed.\<close>

definition stubborn_file :: file_info where
  "stubborn_file = \<lparr>fi_dir = False, fi_link = False, fi_symlink = False, fi_regular = True, fi_length = 1, fi_alloc = 1,
     fi_writable = True, fi_mtime = 0, fi_mtime_zero = False, fi_ids = Some (1, 1)\<rparr>"

definition stubborn_os :: "unit os" where
  "stubborn_os = \<lparr>os_lstat = (\<lambda>_ w. (Inr stubborn_file, w)), os_stat = (\<lambda>_ w. (Inr stubborn_file, w)),
     os_read_dir = (\<lambda>_ w. (Inr [], w)), os_list = (\<lambda>_ w. ([], w)), os_object_id = (\<lambda>_ w. (None, w)),
     os_is_open = (\<lambda>_ w. ((False, True), w)), os_now = (\<lambda>w. (0, w)), os_cancelled = (\<lambda>w. (False, w)),
     os_order = (\<lambda>n w. ([0..<n], w)), os_remove = (\<lambda>_ w. (Some OtherError, w)),
     os_remove_exclusive = (\<lambda>_ w. (Some OtherError, w)), os_make_writable = (\<lambda>_ w. (None, w)),
     os_force_access = (\<lambda>_ w. (None, w)), os_move_to_trash = (\<lambda>_ w. (Some OtherError, w))\<rparr>"

definition stubborn_env :: "unit env" where
  "stubborn_env = \<lparr>e_lower = (\<lambda>r. r), e_policy = \<lparr>goos = ''linux'', windows = ''c:'', home = [], process_home = [],
     public = [], known = []\<rparr>, e_whitelist = [], e_os = stubborn_os\<rparr>"

definition start_state :: "unit pst" where
  "start_state = \<lparr>ps_world = (), ps_progress = new_clean_progress 2 2, ps_trace = []\<rparr>"

lemma parents_tmp: "parents ''/t/a.db'' = [''/t/a.db'', ''/t'', ''/'']"
  by (simp add: parents.simps path_dir_def path_clean_def up_to_slash_def clean_step_def)

lemma parents_tmp_wal: "parents ''/t/a.db-wal'' = [''/t/a.db-wal'', ''/t'', ''/'']"
  by (simp add: parents.simps path_dir_def path_clean_def up_to_slash_def clean_step_def)

lemmas eval_paths = path_base_def after_slash_def trim_right_def equal_fold_literal_def runes_ascii_Cons
  fold_ascii_rune_def ascii_lower_char_def ascii_lower_ascii norm_path_ascii last_component_def beneath_def
  at_or_under_def win_def

lemma tmp_unprotected:
  "is_protected stubborn_env ''/t/a.db'' s = (Some False, s)"
  "is_protected stubborn_env ''/t/a.db-wal'' s = (Some False, s)"
  by (simp_all add: is_protected_def is_protected_with_def is_managed_agent_worktree_def parents_tmp parents_tmp_wal
    act_bind_def act_ret_def lexically_protected_def policy_protected_def stubborn_env_def eval_paths Let_def
    is_ntfs_meta_name_def drive_exact_def profile_protected_def profile_exact_def suffix_def)

lemma stubborn_simps:
  "act_cancelled stubborn_env s = (Some False, s)"
  "act_lstat stubborn_env path s = (Some (Inr stubborn_file), s)"
  "act_remove_exclusive stubborn_env path s =
     (Some (Some OtherError), s\<lparr>ps_trace := ps_trace s @ [RemoveExclusive path (Some OtherError)]\<rparr>)"
  "act_os (os_read_dir (e_os stubborn_env) path) s = (Some (Inr []), s)"
  "\<not> on_windows stubborn_env"
  by (simp_all add: act_cancelled_def act_os_def stubborn_env_def stubborn_os_def act_remove_exclusive_def
    act_event_def act_lstat_def on_windows_def)

definition kept :: "string \<Rightarrow> unit pst \<Rightarrow> unit pst" where
  "kept path s = s\<lparr>ps_progress := progress_fail path FailOther ((ps_progress s)\<lparr>current_path := path\<rparr>),
     ps_trace := ps_trace s @ [RemoveExclusive path (Some OtherError), RemoveExclusive path (Some OtherError)]\<rparr>"

lemma stubborn_file_kept:
  assumes "\<And>s. is_protected stubborn_env path s = (Some False, s)"
  shows "clean_file stubborn_env path sz s = (Some CleanFailed, kept path s)"
  using assms
  by (simp add: clean_file_def act_bind_def act_ret_def stubborn_simps note_path_def act_progress_def
    remove_forcing_def remove_with_readonly_retry_def stubborn_file_def clean_fail_def io_fail_reason_def kept_def)

theorem dispose_failure_has_reason_witness:
  "''/t/a.db'' \<in> dom (reasons (ps_progress (kept ''/t/a.db'' start_state)))"
proof (rule dispose_failure_has_reason)
  show "dispose 1 stubborn_env ''/t/a.db'' Permanent start_state = (Some CleanFailed, kept ''/t/a.db'' start_state)"
    by (simp add: dispose_def clean_path_def is_virtual_path_def is_live_database_def act_bind_def act_ret_def
      stubborn_simps tmp_unprotected stubborn_file_kept [OF tmp_unprotected(1)] sqlite_family_key_def
      sqlite_suffixes_def sqlite_exts_def eval_paths suffix_def, simp add: stubborn_file_def)
qed

definition sample_family :: "clean_entry list" where
  "sample_family =
     [\<lparr>ce_path = ''/t/a.db'', ce_size = 1, ce_identity = None, ce_link = False, ce_dir = False\<rparr>,
      \<lparr>ce_path = ''/t/a.db-wal'', ce_size = 1, ce_identity = None, ce_link = False, ce_dir = False\<rparr>]"

theorem sqlite_main_kept_witness:
  "\<exists>failed s' calls. clean_file_family stubborn_env sample_family start_state = (Some failed, s') \<and>
     ps_trace s' = ps_trace start_state @ calls \<and> list_all (\<lambda>call. \<not> removes ''/t/a.db'' call) calls"
proof -
  have c: "is_sqlite_companion_name ''a.db-wal''" "\<not> is_sqlite_companion_name ''a.db''"
    by (simp_all add: is_sqlite_companion_name_def sqlite_suffixes_def eval_paths suffix_def)
  have b: "path_base ''/t/a.db'' = ''a.db''" "path_base ''/t/a.db-wal'' = ''a.db-wal''"
    by (simp_all add: path_base_def after_slash_def trim_right_def)
  have live: "is_live_database stubborn_env ''/t/a.db'' s = (Some False, s)" for s
    by (simp add: is_live_database_def act_bind_def act_ret_def stubborn_simps sqlite_family_key_def
      sqlite_suffixes_def sqlite_exts_def eval_paths suffix_def, simp add: stubborn_file_def)
  obtain s' where run: "clean_file_family stubborn_env sample_family start_state =
      (Some [''/t/a.db-wal'', ''/t/a.db''], s')"
    by (simp add: clean_file_family_def sample_family_def family_order_def b c Let_def act_bind_def act_ret_def
      live stubborn_file_kept [OF tmp_unprotected(2)] clean_fail_parent_def act_progress_def)
  from sqlite_main_kept [OF run, of "sample_family ! 1" "sample_family ! 0"] run
  show ?thesis by (simp add: sample_family_def b c)
qed

end
