(* ===== verification/Rule_Paths.thy ===== *)
theory Rule_Paths
  imports Path_Rel Go_Sort Name_Pattern Safety
begin

text \<open>
  The strings of the rule language (\<^verbatim>\<open>rule_bundle.go\<close>, \<^verbatim>\<open>rule_variables.go\<close>): relative
  paths, variable references \<^verbatim>\<open>${name}\<close> and the expansion of a template into paths.  A path
  accepted by \<^verbatim>\<open>RuleRelative\<close> cannot leave the directory it is joined to.
\<close>

section \<open>Strings\<close>

definition contains_any :: "string \<Rightarrow> string \<Rightarrow> bool" where
  "contains_any chars s \<longleftrightarrow> list_ex (\<lambda>c. c \<in> set chars) s"

text \<open>\<^verbatim>\<open>strings.Cut\<close>: the parts before and after the first occurrence.\<close>

fun cut_at :: "string \<Rightarrow> string \<Rightarrow> (string \<times> string) option" where
  "cut_at sep [] = (if sep = [] then Some ([], []) else None)"
| "cut_at sep (c # s) =
    (if prefix sep (c # s) then Some ([], drop (length sep) (c # s))
     else map_option (\<lambda>(a, b). (c # a, b)) (cut_at sep s))"

text \<open>\<^verbatim>\<open>strings.ReplaceAll\<close> of a non-empty string.\<close>

function replace_all :: "string \<Rightarrow> string \<Rightarrow> string \<Rightarrow> string" where
  "replace_all old new [] = []"
| "replace_all old new (c # s) =
    (if prefix old (c # s) then new @ replace_all old new (drop (length old - 1) s)
     else c # replace_all old new s)"
  by pat_completeness auto
termination
  by (relation "measure (\<lambda>(old, new, s). length s)") auto

definition to_slash :: "string \<Rightarrow> string" where
  \<comment> \<open>\<^verbatim>\<open>strings.ReplaceAll\<close> of a backslash by a slash\<close>
  "to_slash s = map (\<lambda>c. if c = backslash then slash else c) s"

lemma cut_at_Some: "cut_at sep s = Some (a, b) \<Longrightarrow> s = a @ sep @ b"
proof (induction s arbitrary: a)
  case (Cons c s)
  then show ?case
    by (cases "prefix sep (c # s)") (auto simp: prefix_def split: if_splits)
qed (simp split: if_splits)

lemma cut_at_shorter: "cut_at sep s = Some (a, b) \<Longrightarrow> sep \<noteq> [] \<Longrightarrow> length b < length s"
  by (drule cut_at_Some) simp

text \<open>\<^verbatim>\<open>strings.TrimSpace\<close>, by the runes of the string and their widths.\<close>

definition is_space :: "nat \<Rightarrow> bool" where
  "is_space r \<longleftrightarrow> 9 \<le> r \<and> r \<le> 13 \<or> 0x2000 \<le> r \<and> r \<le> 0x200A \<or>
     r \<in> {32, 0x85, 0xA0, 0x1680, 0x2028, 0x2029, 0x202F, 0x205F, 0x3000}"

definition trim_space :: "string \<Rightarrow> string" where
  "trim_space s =
    (let rs = rune_list (nats_of s); space = (\<lambda>(r, w). is_space r);
         skip = sum_list (map snd (takeWhile space rs));
         kept = rev (dropWhile space (rev (dropWhile space rs))) in
     take (sum_list (map snd kept)) (drop skip s))"

section \<open>Relative paths\<close>

definition rule_relative :: "string \<Rightarrow> bool" where
  "rule_relative s =
    (if s = [] \<or> 1024 < length s \<or> prefix ''/'' s \<or> prefix [backslash] s \<or>
        contains_any [CHR '':'', CHR 0x00, CHR ''*'', CHR ''?'', CHR 0x0A, CHR 0x0D] s then False
     else if list_ex (\<lambda>p. p = ''.'' \<or> p = ''..'' \<or> suffix ''.'' p \<or> suffix '' '' p)
          (filter (\<lambda>p. p \<noteq> []) (split_on slash (to_slash s))) then False
     else \<not> contains_bytes (to_slash s) ''//'' \<and> \<not> suffix ''/'' s \<and> \<not> suffix [backslash] s)"

definition rule_identifier :: "string \<Rightarrow> bool" where
  "rule_identifier s \<longleftrightarrow> s \<noteq> [] \<and> list_all (\<lambda>c. let n = of_char c :: nat in
     97 \<le> n \<and> n \<le> 122 \<or> 65 \<le> n \<and> n \<le> 90 \<or> 48 \<le> n \<and> n \<le> 57 \<or> c = CHR ''_'') s"

lemma split_empty_part:
  assumes "[] \<in> set (split_on c s)"
  shows "s = [] \<or> hd s = c \<or> last s = c \<or> (\<exists>u v. s = u @ [c, c] @ v)"
proof -
  obtain us vs where w: "split_on c s = us @ [] # vs" using assms by (auto simp: in_set_conv_decomp)
  then have s: "s = join_with c (us @ [] # vs)" by (metis join_split)
  consider "us = []" "vs = []" | "us = []" "vs \<noteq> []" | "us \<noteq> []" "vs = []" | "us \<noteq> []" "vs \<noteq> []" by blast
  then show ?thesis
  proof cases
    case 4
    then have "s = join_with c us @ [c, c] @ join_with c vs" by (simp add: s join_with_append join_with_Cons)
    then show ?thesis by blast
  qed (simp_all add: s join_with_Cons join_with_append)
qed

lemma contains_bytes_iff: "contains_bytes s lit \<longleftrightarrow> (\<exists>u v. s = u @ lit @ v)"
  by (simp add: contains_bytes_def contains_at_iff)

lemma to_slash_ends:
  assumes "s \<noteq> []"
  shows "hd (to_slash s) = slash \<longleftrightarrow> prefix ''/'' s \<or> prefix [backslash] s"
    and "last (to_slash s) = slash \<longleftrightarrow> suffix ''/'' s \<or> suffix [backslash] s"
proof -
  show "hd (to_slash s) = slash \<longleftrightarrow> prefix ''/'' s \<or> prefix [backslash] s"
    using assms by (cases s) (auto simp: to_slash_def)
  show "last (to_slash s) = slash \<longleftrightarrow> suffix ''/'' s \<or> suffix [backslash] s"
    using assms by (cases s rule: rev_cases) (auto simp: to_slash_def)
qed

text \<open>An accepted path is a list of plain components.\<close>

lemma rule_relative_plain:
  assumes "rule_relative s"
  shows "list_all plain (split_on slash (to_slash s))" "s \<noteq> []"
proof -
  show ne: "s \<noteq> []" using assms by (auto simp: rule_relative_def)
  have ends: "hd (to_slash s) \<noteq> slash" "last (to_slash s) \<noteq> slash" "to_slash s \<noteq> []"
    using assms to_slash_ends [OF ne] ne by (auto simp: rule_relative_def to_slash_def split: if_splits)
  have nd: "\<not> (\<exists>u v. to_slash s = u @ [slash, slash] @ v)"
    using assms by (auto simp: rule_relative_def contains_bytes_iff split: if_splits)
  have full: "[] \<notin> set (split_on slash (to_slash s))"
    using split_empty_part [of slash "to_slash s"] ends nd by blast
  have ok: "p \<noteq> ''.'' \<and> p \<noteq> ''..''" if "p \<in> set (split_on slash (to_slash s))" for p
    using assms that full by (auto simp: rule_relative_def list_ex_iff split: if_splits)
  show "list_all plain (split_on slash (to_slash s))"
    using full ok by (auto simp: list_all_iff plain_def dest: split_on_set)
qed

definition clean_root :: "string \<Rightarrow> bool" where
  "clean_root r \<longleftrightarrow> r \<noteq> [] \<and> hd r = slash \<and> path_clean r = r"

lemma clean_root_comps: "clean_root r \<longleftrightarrow> rooted (comps r) = r"
  by (metis clean_root_def comps_plain path_clean_comps path_clean_rooted rooted_hd)

lemma rule_path_joined:
  assumes "clean_root root" "rule_relative s"
  shows "path_join root (to_slash s) = rooted (comps root @ split_on slash (to_slash s))"
proof -
  have "root = rooted (comps root)" using assms(1) by (simp add: clean_root_comps)
  moreover have "path_join (rooted (comps root)) (join_with slash (split_on slash (to_slash s))) =
      rooted (comps root @ split_on slash (to_slash s))"
    by (rule path_join_plains) (use rule_relative_plain [OF assms(2)] comps_plain in auto)
  ultimately show ?thesis by simp
qed

lemma rule_path_inside:
  assumes "clean_root root" "rule_relative s"
  shows "path_within (path_join root (to_slash s)) root" "path_join root (to_slash s) \<noteq> root"
proof -
  have r: "root = rooted (comps root)" using assms(1) by (simp add: clean_root_comps)
  have pl: "list_all plain (comps root @ split_on slash (to_slash s))"
    using rule_relative_plain [OF assms(2)] comps_plain by simp
  have "path_within (rooted (comps root @ split_on slash (to_slash s))) (rooted (comps root))"
    using path_within_rooted [OF comps_plain pl] by simp
  then show "path_within (path_join root (to_slash s)) root" using r by (simp add: rule_path_joined [OF assms])
  show "path_join root (to_slash s) \<noteq> root"
    using rooted_inj [OF pl comps_plain] r by (fastforce simp: rule_path_joined [OF assms])
qed

section \<open>Variable references\<close>

function rule_variable_names :: "string \<Rightarrow> (string, string list) go" where
  "rule_variable_names s =
    (case cut_at ''${'' s of
       None \<Rightarrow> Ret []
     | Some (_, t) \<Rightarrow>
         (case cut_at ''}'' t of
            None \<Rightarrow> Err ''invalid variable reference''
          | Some (n, u) \<Rightarrow>
              if \<not> rule_identifier n then Err ''invalid variable reference''
              else go_bind (rule_variable_names u) (\<lambda>ns. Ret (n # ns))))"
  by pat_completeness auto
termination
  by (relation "measure length") (auto dest!: cut_at_shorter)

declare rule_variable_names.simps [simp del]

section \<open>Values and expansion\<close>

text \<open>
  The values of \<^verbatim>\<open>encoding/json\<close>.  A number is the text it is written with, an object its
  members in the order of their keys, each key once.  Go's \<^verbatim>\<open>[]string\<close> is an array of
  strings.
\<close>

datatype json = JNull | JBool bool | JNum string | JStr string | JArr "json list" | JObj "(string \<times> json) list"

datatype evidence = Confirmed | Absent | Unknown

record resolution =
  rv_evidence :: evidence
  rv_value :: json

type_synonym variable_values = "(string \<times> resolution) list"

fun json_string :: "json \<Rightarrow> string option" where
  "json_string (JStr s) = Some s"
| "json_string _ = None"

fun replacements :: "json \<Rightarrow> (string, string list) go" where
  "replacements (JStr s) = Ret [s]"
| "replacements (JArr ys) = go_fold (\<lambda>y out. case json_string y of
     None \<Rightarrow> Err ''non-string path member'' | Some s \<Rightarrow> Ret (out @ [s])) ys []"
| "replacements _ = Err ''invalid path variable type''"

definition expand_member :: "string \<Rightarrow> string \<Rightarrow> string \<Rightarrow> string list \<Rightarrow> (string, string list) go" where
  "expand_member n p r expanded =
    (if \<not> rule_relative r \<or> contains_bytes r ''${'' then Err ''variable path escape''
     else let s = replace_all (''${'' @ n @ ''}'') r p in
       if \<not> rule_relative s \<or> 256 \<le> length expanded then Err ''path expansion limit or escape''
       else Ret (List.insert s expanded))"

definition expand_name :: "variable_values \<Rightarrow> string \<Rightarrow> string list \<Rightarrow> (string, string list) go" where
  "expand_name values n out =
    (case map_of values n of
       None \<Rightarrow> Err ''unconfirmed variable''
     | Some v \<Rightarrow>
         if rv_evidence v \<noteq> Confirmed then Err ''unconfirmed variable''
         else go_bind (replacements (rv_value v)) (\<lambda>rs.
           go_bind (go_fold (\<lambda>p. go_fold (expand_member n p) rs) out []) (\<lambda>expanded.
             Ret (sort_by string_less expanded))))"

definition expand_rule_paths :: "string \<Rightarrow> variable_values \<Rightarrow> (string, string list) go" where
  "expand_rule_paths template values =
    go_bind (rule_variable_names template) (\<lambda>names.
    go_bind (go_fold (expand_name values) names [template]) (\<lambda>out.
      if list_all rule_relative out then Ret out else Err ''invalid resolved path''))"

text \<open>An expansion is a set of at most 256 accepted paths, in order.\<close>

lemma go_fold_invariant:
  assumes "go_fold f xs s = Ret s'" "P s" "\<And>x s s'. x \<in> set xs \<Longrightarrow> P s \<Longrightarrow> f x s = Ret s' \<Longrightarrow> P s'"
  shows "P s'"
  using assms
proof (induction xs arbitrary: s)
  case (Cons x xs)
  obtain s1 where "f x s = Ret s1" "go_fold f xs s1 = Ret s'" using Cons.prems(1) by (auto elim: go_bind_RetE)
  with Cons.IH [of s1] Cons.prems show ?case by auto
qed simp

definition path_set :: "string list \<Rightarrow> bool" where
  "path_set out \<longleftrightarrow> distinct out \<and> length out \<le> 256"

lemma expand_member_set:
  "expand_member n p r out = Ret out' \<Longrightarrow> path_set out \<Longrightarrow> path_set out'"
  by (auto simp: expand_member_def path_set_def Let_def List.insert_def split: if_splits)

lemma expand_name_set: "expand_name values n out = Ret out' \<Longrightarrow> path_set out' \<and> sorted_wrt strings.not_after out'"
proof -
  assume a: "expand_name values n out = Ret out'"
  then obtain v rs expanded where e: "go_fold (\<lambda>p. go_fold (expand_member n p) rs) out [] = Ret expanded"
    "out' = sort_by string_less expanded"
    by (auto simp: expand_name_def split: option.splits if_splits elim!: go_bind_RetE)
  have "path_set expanded"
    by (rule go_fold_invariant [OF e(1)]) (auto simp: path_set_def [of "[]"] intro: go_fold_invariant expand_member_set)
  then show ?thesis by (simp add: e(2) path_set_def strings.sorted_sort_by)
qed

lemma expand_rule_paths_set:
  assumes "expand_rule_paths template values = Ret out"
  shows "list_all rule_relative out \<and> path_set out \<and> sorted_wrt strings.not_after out"
proof -
  obtain names where f: "go_fold (expand_name values) names [template] = Ret out" "list_all rule_relative out"
    using assms by (auto simp: expand_rule_paths_def split: if_splits elim!: go_bind_RetE)
  have "path_set out \<and> sorted_wrt strings.not_after out"
    by (rule go_fold_invariant [OF f(1)]) (auto simp: path_set_def dest: expand_name_set)
  with f(2) show ?thesis by simp
qed

text \<open>
  Property C38: whatever the values of its variables, a template expands
  to at most 256 different paths, and each of them, joined to a clean root, lies strictly below it.
\<close>

theorem expand_rule_paths_confined:
  assumes "expand_rule_paths template values = Ret paths" "clean_root root"
  shows "distinct paths \<and> length paths \<le> 256 \<and>
    list_all (\<lambda>p. path_within (path_join root (to_slash p)) root \<and> path_join root (to_slash p) \<noteq> root) paths"
  using expand_rule_paths_set [OF assms(1)] rule_path_inside [OF assms(2)]
  by (auto simp: path_set_def list_all_iff)

theorem expand_rule_paths_confined_witness:
  "path_within (path_join ''/r'' ''a/c'') ''/r'' \<and> path_join ''/r'' ''a/c'' \<noteq> ''/r''"
proof -
  have e: "expand_rule_paths ''a/${v}'' [(''v'', \<lparr>rv_evidence = Confirmed, rv_value = JArr [JStr ''c'']\<rparr>)] = Ret [''a/c'']"
    by code_simp
  have "clean_root ''/r''" by code_simp
  from expand_rule_paths_confined [OF e this] show ?thesis by (simp add: to_slash_def)
qed

end
