(* ===== verification/Rule_Json.thy ===== *)
theory Rule_Json
  imports Rule_Paths
begin

text \<open>
  JSON values as \<^verbatim>\<open>rule_facts.go\<close> uses them: the text \<^verbatim>\<open>json.Marshal\<close> writes, by
  which values are compared, and JSON pointers.
\<close>

section \<open>Marshal\<close>

definition hex_digit :: "nat \<Rightarrow> char" where
  "hex_digit n = (if n < 10 then char_of (48 + n) else char_of (87 + n))"

definition unicode_escape :: "nat \<Rightarrow> string" where
  "unicode_escape r = CHR 0x5C # ''u'' @ map (\<lambda>k. hex_digit (r div 16 ^ k mod 16)) [3, 2, 1, 0]"

text \<open>One rune of a string with its width; a byte that is not UTF-8 is a rune error of width 1.\<close>

definition marshal_rune :: "nat \<times> nat \<Rightarrow> string" where
  "marshal_rune rw =
    (case rw of (r, width) \<Rightarrow>
      if r = rune_error \<and> width = 1 then unicode_escape rune_error
      else if r = 34 \<or> r = 92 then [CHR 0x5C, char_of r]
      else if r = 8 then [CHR 0x5C, CHR ''b''] else if r = 12 then [CHR 0x5C, CHR ''f'']
      else if r = 10 then [CHR 0x5C, CHR ''n''] else if r = 13 then [CHR 0x5C, CHR ''r'']
      else if r = 9 then [CHR 0x5C, CHR ''t'']
      else if r < 32 \<or> r = 60 \<or> r = 62 \<or> r = 38 \<or> r = 0x2028 \<or> r = 0x2029 then unicode_escape r
      else utf8_encode r)"

definition marshal_string :: "string \<Rightarrow> string" where
  "marshal_string s = CHR 0x22 # concat (map marshal_rune (rune_list (nats_of s))) @ [CHR 0x22]"

fun marshal :: "json \<Rightarrow> string" where
  "marshal JNull = ''null''"
| "marshal (JBool b) = (if b then ''true'' else ''false'')"
| "marshal (JNum s) = s"
| "marshal (JStr s) = marshal_string s"
| "marshal (JArr xs) = ''['' @ join_with (CHR '','') (map marshal xs) @ '']''"
| "marshal (JObj ms) = ''{'' @ join_with (CHR '','') (map (\<lambda>(k, v). marshal_string k @ '':'' @ marshal v) ms) @ ''}''"

definition json_equal :: "json \<Rightarrow> json \<Rightarrow> bool" where
  "json_equal a b = (marshal a = marshal b)"

section \<open>Pointers\<close>

definition valid_pointer :: "string \<Rightarrow> bool" where
  "valid_pointer p \<longleftrightarrow> prefix ''/'' p \<and> length p \<le> 1024"

definition is_digit :: "char \<Rightarrow> bool" where
  "is_digit c = (let n = of_char c :: nat in 48 \<le> n \<and> n \<le> 57)"

definition digits_value :: "string \<Rightarrow> nat" where
  "digits_value s = fold (\<lambda>c n. 10 * n + (of_char c - 48)) s 0"

text \<open>\<^verbatim>\<open>strconv.Atoi\<close>; its range error shows as \<open>None\<close>.\<close>

definition atoi :: "string \<Rightarrow> int option" where
  "atoi s =
    (let neg = prefix ''-'' s; body = (if neg \<or> prefix ''+'' s then tl s else s) in
     if body = [] \<or> \<not> list_all is_digit body then None
     else let v = (if neg then - int (digits_value body) else int (digits_value body)) in
       if - (2 ^ 63) \<le> v \<and> v < 2 ^ 63 then Some v else None)"

definition pointer_token :: "string \<Rightarrow> string" where
  "pointer_token s = replace_all ''~0'' ''~'' (replace_all ''~1'' ''/'' s)"

definition json_member :: "json \<Rightarrow> string \<Rightarrow> json option" where
  "json_member v s =
    (case v of
       JObj ms \<Rightarrow> map_of ms s
     | JArr xs \<Rightarrow> (case atoi s of
         None \<Rightarrow> None
       | Some i \<Rightarrow> if i < 0 \<or> int (length xs) \<le> i \<or> 1 < length s \<and> hd s = CHR ''0'' then None
                   else Some (xs ! nat i))
     | _ \<Rightarrow> None)"

fun json_walk :: "json \<Rightarrow> string list \<Rightarrow> json option" where
  "json_walk v [] = Some v"
| "json_walk v (s # ss) = (case json_member v s of None \<Rightarrow> None | Some w \<Rightarrow> json_walk w ss)"

definition json_pointer :: "json \<Rightarrow> string \<Rightarrow> json option" where
  "json_pointer v p =
    (if p = [] then Some v
     else if \<not> prefix ''/'' p then None
     else json_walk v (map pointer_token (split_on slash (tl p))))"

text \<open>The pointer that leads through the given members.\<close>

definition escape_char :: "char \<Rightarrow> string" where
  "escape_char c = (if c = CHR ''~'' then ''~0'' else if c = slash then ''~1'' else [c])"

definition pointer_of :: "string list \<Rightarrow> string" where
  "pointer_of keys = concat (map (\<lambda>k. slash # concat (map escape_char k)) keys)"

lemma unescape_slash:
  "replace_all ''~1'' ''/'' (concat (map escape_char k)) = concat (map (\<lambda>c. if c = CHR ''~'' then ''~0'' else [c]) k)"
  by (induction k) (auto simp: escape_char_def)

lemma unescape_tilde: "replace_all ''~0'' ''~'' (concat (map (\<lambda>c. if c = CHR ''~'' then ''~0'' else [c]) k)) = k"
  by (induction k) auto

lemma pointer_token_escape: "pointer_token (concat (map escape_char k)) = k"
  by (simp add: pointer_token_def unescape_slash unescape_tilde)

lemma escape_no_slash: "slash \<notin> set (concat (map escape_char k))"
  by (auto simp: escape_char_def split: if_splits)

lemma pointer_of_join: "pointer_of (k # keys) = slash # join_with slash (map (\<lambda>k. concat (map escape_char k)) (k # keys))"
  by (induction keys arbitrary: k) (simp_all add: pointer_of_def)

text \<open>
  The pointer written for any list of members, with the escapes of
  RFC 6901, leads through exactly those members.
\<close>

theorem json_pointer_of: "json_pointer v (pointer_of keys) = json_walk v keys"
proof (cases keys)
  case (Cons k ks)
  have "split_on slash (join_with slash (map (\<lambda>k. concat (map escape_char k)) keys)) = map (\<lambda>k. concat (map escape_char k)) keys"
    by (rule split_join) (use Cons escape_no_slash in auto)
  then show ?thesis using Cons by (simp add: pointer_of_join json_pointer_def pointer_token_escape comp_def)
qed (simp add: pointer_of_def json_pointer_def)

end
