(* ===== verification/Rule_Evidence.thy ===== *)
theory Rule_Evidence
  imports Rule_Paths Cleaner_Guards
begin

text \<open>
  \<^verbatim>\<open>internal/core/rule_facts.go\<close>: three-valued evidence, the conditions over named facts,
  and the checks that keep a rule's reads inside its root.
\<close>

section \<open>Evidence and conditions\<close>

text \<open>Kleene's order of truth.\<close>

instantiation evidence :: linorder
begin

definition truth :: "evidence \<Rightarrow> nat" where
  "truth e = (case e of Absent \<Rightarrow> 0 | Unknown \<Rightarrow> 1 | Confirmed \<Rightarrow> 2)"

definition less_eq_evidence :: "evidence \<Rightarrow> evidence \<Rightarrow> bool" where
  "less_eq_evidence a b = (truth a \<le> truth b)"

definition less_evidence :: "evidence \<Rightarrow> evidence \<Rightarrow> bool" where
  "less_evidence a b = (truth a < truth b)"

instance
  by standard (auto simp: less_eq_evidence_def less_evidence_def truth_def split: evidence.splits)

end

text \<open>The tag \<^verbatim>\<open>kind\<close> of a condition, and the condition.\<close>

datatype condition_kind = KFact | KNot | KAll | KAny | KOther string

datatype condition = Condition condition_kind string "condition list" "condition option"

record probe =
  pr_kind :: string
  pr_name :: string
  pr_path :: string
  pr_signature :: string
  pr_pointer :: string
  pr_equals :: json

fun validate_at :: "(string \<times> probe) list \<Rightarrow> condition \<Rightarrow> nat \<Rightarrow> (string, unit) go" where
  "validate_at f (Condition k n cs c) d =
    (if 32 < d then Err ''condition nesting limit''
     else case k of
       KFact \<Rightarrow> if map_of f n = None then Err ''unknown fact'' else Ret ()
     | KNot \<Rightarrow> (case c of None \<Rightarrow> Err ''missing condition'' | Some x \<Rightarrow> validate_at f x (d + 1))
     | KOther _ \<Rightarrow> Err ''unknown condition kind''
     | _ \<Rightarrow> if cs = [] \<or> 256 < length cs then Err ''condition resource limit''
            else go_fold (\<lambda>v _. validate_at f v (d + 1)) cs ())"

definition condition_validate :: "condition \<Rightarrow> (string \<times> probe) list \<Rightarrow> (string, unit) go" where
  "condition_validate c facts = validate_at facts c 0"

type_synonym facts = "(string \<times> evidence) list"

text \<open>The loop of \<^verbatim>\<open>all\<close> and \<^verbatim>\<open>any\<close> over the verdicts of its parts, with its early returns.\<close>

fun verdict_loop :: "bool \<Rightarrow> evidence list \<Rightarrow> bool \<Rightarrow> evidence" where
  "verdict_loop every [] unknown = (if unknown then Unknown else if every then Confirmed else Absent)"
| "verdict_loop every (e # es) unknown =
    (if every \<and> e = Absent then Absent
     else if \<not> every \<and> e = Confirmed then Confirmed
     else verdict_loop every es (unknown \<or> e = Unknown))"

definition opposite :: "evidence \<Rightarrow> evidence" where
  "opposite e = (case e of Confirmed \<Rightarrow> Absent | Absent \<Rightarrow> Confirmed | Unknown \<Rightarrow> Unknown)"

fun evaluate_at :: "facts \<Rightarrow> condition \<Rightarrow> nat \<Rightarrow> evidence" where
  "evaluate_at f (Condition k n cs c) d =
    (if 32 < d then Unknown
     else case k of
       KFact \<Rightarrow> (case map_of f n of None \<Rightarrow> Unknown | Some v \<Rightarrow> if v = Confirmed \<or> v = Absent then v else Unknown)
     | KNot \<Rightarrow> (case c of None \<Rightarrow> Unknown | Some x \<Rightarrow> opposite (evaluate_at f x (d + 1)))
     | KOther _ \<Rightarrow> Unknown
     | _ \<Rightarrow> if cs = [] \<or> 256 < length cs then Unknown
            else verdict_loop (k = KAll) (map (\<lambda>v. evaluate_at f v (d + 1)) cs) False)"

definition condition_evaluate :: "condition \<Rightarrow> facts \<Rightarrow> evidence" where
  "condition_evaluate c f = evaluate_at f c 0"

text \<open>The meaning of a condition in Kleene's strong three-valued logic.\<close>

fun meaning :: "(string \<Rightarrow> evidence) \<Rightarrow> condition \<Rightarrow> evidence" where
  "meaning v (Condition k n cs c) =
    (case k of
       KFact \<Rightarrow> v n
     | KNot \<Rightarrow> (case c of None \<Rightarrow> Unknown | Some x \<Rightarrow> opposite (meaning v x))
     | KAll \<Rightarrow> Min (set (map (meaning v) cs))
     | KAny \<Rightarrow> Max (set (map (meaning v) cs))
     | KOther _ \<Rightarrow> Unknown)"

definition fact_value :: "facts \<Rightarrow> string \<Rightarrow> evidence" where
  "fact_value f n = (case map_of f n of None \<Rightarrow> Unknown | Some e \<Rightarrow> e)"

lemma evidence_bounds: "e \<le> Confirmed" "Absent \<le> e"
  by (cases e; simp add: less_eq_evidence_def truth_def)+

lemma Min_step: "Min (insert e (set es \<union> {u})) = min e (Min (set es \<union> {u}))" for e :: evidence
  by (subst Min_insert) auto

lemma Max_step: "Max (insert e (set es \<union> {u})) = max e (Max (set es \<union> {u}))" for e :: evidence
  by (subst Max_insert) auto

lemma min_evidence: "min Absent e = Absent" "min Confirmed e = e" "min e Confirmed = e" "max Confirmed e = Confirmed" "max Absent e = e" "max e Absent = e"
  using evidence_bounds [of e] by (simp_all add: min_def max_def antisym)

lemma verdict_loop_Min:
  "verdict_loop True es unknown = Min (set es \<union> {if unknown then Unknown else Confirmed})"
proof (induction es arbitrary: unknown)
  case (Cons e es)
  have m: "Min (set (e # es) \<union> {u}) = min e (Min (set es \<union> {u}))" for e u
    using Min_step [of e es u] by (simp only: list.set Un_insert_left)
  have "Min (set es \<union> {Unknown}) = min Unknown (Min (set es \<union> {Confirmed}))"
    using Min_step [of Unknown es Confirmed] Min_step [of Confirmed es Unknown]
    by (simp add: insert_commute min_evidence)
  then show ?case using Cons by (cases e) (simp_all add: m min_evidence del: list.simps(15) Un_insert_right)
qed simp

lemma verdict_loop_Max:
  "verdict_loop False es unknown = Max (set es \<union> {if unknown then Unknown else Absent})"
proof (induction es arbitrary: unknown)
  case (Cons e es)
  have m: "Max (set (e # es) \<union> {u}) = max e (Max (set es \<union> {u}))" for e u
    using Max_step [of e es u] by (simp only: list.set Un_insert_left)
  have "Max (set es \<union> {Unknown}) = max Unknown (Max (set es \<union> {Absent}))"
    using Max_step [of Unknown es Absent] Max_step [of Absent es Unknown]
    by (simp add: insert_commute min_evidence)
  then show ?case using Cons by (cases e) (simp_all add: m min_evidence del: list.simps(15) Un_insert_right)
qed simp

lemma verdict_loop_verdict:
  assumes "es \<noteq> []"
  shows "verdict_loop True es False = Min (set es)" "verdict_loop False es False = Max (set es)"
proof -
  have "Min (set es \<union> {Confirmed}) = min (Min (set es)) (Min {Confirmed})" using assms by (intro Min_Un) auto
  then show "verdict_loop True es False = Min (set es)" by (simp add: verdict_loop_Min min_evidence)
  have "Max (set es \<union> {Absent}) = max (Max (set es)) (Max {Absent})" using assms by (intro Max_Un) auto
  then show "verdict_loop False es False = Max (set es)" by (simp add: verdict_loop_Max min_evidence)
qed

lemma go_fold_unit_Ret: "go_fold (\<lambda>v _. g v) cs () = Ret () \<longleftrightarrow> (\<forall>v \<in> set cs. g v = Ret ())"
proof (induction cs)
  case (Cons v cs)
  then show ?case by (cases "g v") auto
qed simp

lemma evaluate_at_meaning:
  "validate_at facts c d = Ret () \<Longrightarrow> evaluate_at f c d = meaning (fact_value f) c"
proof (induction facts c d rule: validate_at.induct)
  case (1 facts k n cs c d)
  show ?case
  proof (cases k)
    case KFact
    then show ?thesis using "1.prems" by (auto simp: fact_value_def split: if_splits option.splits intro: evidence.exhaust)
  next
    case KNot
    with "1.prems" obtain x where x: "c = Some x" "validate_at facts x (d + 1) = Ret ()" "\<not> 32 < d"
      by (auto split: if_splits option.splits)
    with "1.IH"(1) [OF x(3) KNot x(1)] KNot show ?thesis by simp
  next
    case KAll
    with "1.prems" have a: "\<not> 32 < d" "cs \<noteq> []" "\<not> 256 < length cs" "\<forall>v \<in> set cs. validate_at facts v (d + 1) = Ret ()"
      by (auto simp: go_fold_unit_Ret split: if_splits)
    then have "map (\<lambda>v. evaluate_at f v (d + 1)) cs = map (meaning (fact_value f)) cs"
      using "1.IH"(2) KAll by (auto intro!: map_cong)
    then show ?thesis using a KAll by (simp add: verdict_loop_verdict del: map_eq_conv)
  next
    case KAny
    with "1.prems" have a: "\<not> 32 < d" "cs \<noteq> []" "\<not> 256 < length cs" "\<forall>v \<in> set cs. validate_at facts v (d + 1) = Ret ()"
      by (auto simp: go_fold_unit_Ret split: if_splits)
    then have "map (\<lambda>v. evaluate_at f v (d + 1)) cs = map (meaning (fact_value f)) cs"
      using "1.IH"(3) KAny by (auto intro!: map_cong)
    then show ?thesis using a KAny by (simp add: verdict_loop_verdict del: map_eq_conv)
  qed (use "1.prems" in \<open>auto split: if_splits\<close>)
qed

text \<open>
  Property C39: a condition that passes validation is evaluated by Kleene's strong
  three-valued logic, conjunction being the minimum and disjunction the maximum in the order
  absent, unknown, confirmed; neither the nesting limit nor an early return changes its verdict.
\<close>

theorem condition_kleene:
  assumes "condition_validate c facts = Ret ()"
  shows "condition_evaluate c f = meaning (fact_value f) c"
  using evaluate_at_meaning assms by (simp add: condition_validate_def condition_evaluate_def)

theorem condition_kleene_witness:
  "condition_evaluate (Condition KAll [] [Condition KFact ''a'' [] None,
     Condition KNot [] [] (Some (Condition KFact ''b'' [] None))] None) [(''a'', Confirmed), (''b'', Absent)] = Confirmed"
proof -
  define p where "p = \<lparr>pr_kind = ''file'', pr_name = [], pr_path = ''x'', pr_signature = [], pr_pointer = [], pr_equals = JNull\<rparr>"
  have "condition_validate (Condition KAll [] [Condition KFact ''a'' [] None,
     Condition KNot [] [] (Some (Condition KFact ''b'' [] None))] None) [(''a'', p), (''b'', p)] = Ret ()"
    by code_simp
  from condition_kleene [OF this] show ?thesis
    by (simp add: fact_value_def opposite_def)
qed

text \<open>
  More evidence never changes a definite verdict: facts that were unknown may become known, and a
  condition that was confirmed or absent stays so.
\<close>

definition refines :: "facts \<Rightarrow> facts \<Rightarrow> bool" where
  "refines f g \<longleftrightarrow> (\<forall>n e. map_of f n = Some e \<longrightarrow> e \<noteq> Unknown \<longrightarrow> map_of g n = Some e)"

lemma verdict_loop_known: "verdict_loop k es True \<noteq> Unknown \<Longrightarrow> verdict_loop k es True = (if k then Absent else Confirmed)"
  by (induction es) (auto split: if_splits)

lemma verdict_loop_refine:
  assumes "list_all2 (\<lambda>a b. a \<noteq> Unknown \<longrightarrow> b = a) es fs" "verdict_loop k es u \<noteq> Unknown" "v \<longrightarrow> u"
  shows "verdict_loop k fs v = verdict_loop k es u"
  using assms
proof (induction es fs arbitrary: u v rule: list_all2_induct)
  case Nil
  then show ?case by (auto split: if_splits)
next
  case (Cons e es f fs)
  show ?case
  proof (cases e)
    case Unknown
    then have ne: "verdict_loop k es True \<noteq> Unknown" using Cons.prems by simp
    then have "verdict_loop k es True = (if k then Absent else Confirmed)" by (rule verdict_loop_known)
    moreover have "verdict_loop k fs (v \<or> f = Unknown) = verdict_loop k es True" by (rule Cons.IH) (simp_all add: ne)
    ultimately show ?thesis using Unknown by (cases k) simp_all
  next
    case Confirmed
    then show ?thesis using Cons.prems Cons.IH [of u v] Cons.hyps by (auto split: if_splits)
  next
    case Absent
    then show ?thesis using Cons.prems Cons.IH [of u v] Cons.hyps by (auto split: if_splits)
  qed
qed

lemma evaluate_at_refines:
  "refines f g \<Longrightarrow> evaluate_at f c d \<noteq> Unknown \<Longrightarrow> evaluate_at g c d = evaluate_at f c d"
proof (induction f c d rule: evaluate_at.induct)
  case (1 f k n cs c d)
  have d: "\<not> 32 < d" using "1.prems" by (auto split: if_splits)
  have parts: "list_all2 (\<lambda>a b. a \<noteq> Unknown \<longrightarrow> b = a)
      (map (\<lambda>v. evaluate_at f v (d + 1)) cs) (map (\<lambda>v. evaluate_at g v (d + 1)) cs)"
    if "\<And>x. x \<in> set cs \<Longrightarrow> evaluate_at f x (d + 1) \<noteq> Unknown \<Longrightarrow> evaluate_at g x (d + 1) = evaluate_at f x (d + 1)"
    using that by (auto simp: list_all2_conv_all_nth)
  show ?case
  proof (cases k)
    case KFact
    then show ?thesis using "1.prems" d by (auto simp: refines_def split: if_splits option.splits)
  next
    case KNot
    with "1.prems" d obtain x where x: "c = Some x" "opposite (evaluate_at f x (d + 1)) \<noteq> Unknown"
      by (auto split: option.splits)
    then have "evaluate_at f x (d + 1) \<noteq> Unknown" by (auto simp: opposite_def)
    with "1.IH"(1) [OF d KNot x(1) "1.prems"(1)] KNot x d show ?thesis by simp
  next
    case KAll
    with "1.prems" d have a: "cs \<noteq> []" "\<not> 256 < length cs" by (auto split: if_splits)
    have "verdict_loop True (map (\<lambda>v. evaluate_at f v (d + 1)) cs) False \<noteq> Unknown" using "1.prems" KAll d a by simp
    from verdict_loop_refine [OF parts this, of False] KAll a d "1.IH"(2) "1.prems"(1) show ?thesis by simp
  next
    case KAny
    with "1.prems" d have a: "cs \<noteq> []" "\<not> 256 < length cs" by (auto split: if_splits)
    have "verdict_loop False (map (\<lambda>v. evaluate_at f v (d + 1)) cs) False \<noteq> Unknown" using "1.prems" KAny d a by simp
    from verdict_loop_refine [OF parts this, of False] KAny a d "1.IH"(3) "1.prems"(1) show ?thesis by simp
  qed (use d "1.prems" in auto)
qed

end
