(* ===== verification/Rule_Probe.thy ===== *)
theory Rule_Probe
  imports Rule_Json Rule_Evidence
begin

text \<open>
  \<^verbatim>\<open>rule_facts.go\<close> on the disk: a path counts as evidence only when no link lies between
  the root and it, and a probe reads at most four mebibytes of such a file.
\<close>

section \<open>The environment of the rule engine\<close>

text \<open>
  Calls of the rule engine beyond those of the cleaner.  \<open>re_read_file path n\<close> opens a file and
  reads at most \<open>n\<close> bytes of it; \<open>re_read_some path n\<close> is \<^verbatim>\<open>ReadDir(n)\<close> on an opened
  directory.  \<open>re_unmarshal\<close> is \<^verbatim>\<open>json.Unmarshal\<close> into \<^verbatim>\<open>any\<close> and \<open>re_sha256\<close> the
  hexadecimal digest of \<^verbatim>\<open>crypto/sha256\<close>; \<open>re_error_text\<close> is the text of an error of the
  system.  \<open>re_run_tool\<close> runs a program with a limit in seconds, \<open>None\<close> when it cannot be started or
  does not end in time; \<open>re_uid\<close>, \<open>re_sid\<close> and
  \<open>re_user_home\<close> are the user's ids and home directory.
\<close>

record tool_result =
  tr_ok :: bool
  tr_stdout :: string
  tr_stderr :: string

record 'w rule_env =
  re_env :: "'w env"
  re_eval_symlinks :: "string \<Rightarrow> 'w \<Rightarrow> (os_error + string) \<times> 'w"
  re_read_link :: "string \<Rightarrow> 'w \<Rightarrow> (os_error + string) \<times> 'w"
  re_abs :: "string \<Rightarrow> 'w \<Rightarrow> (os_error + string) \<times> 'w"
  re_read_file :: "string \<Rightarrow> nat \<Rightarrow> 'w \<Rightarrow> (os_error + string) \<times> 'w"
  re_read_some :: "string \<Rightarrow> nat \<Rightarrow> 'w \<Rightarrow> (os_error + dir_entry list) \<times> 'w"
  re_unmarshal :: "string \<Rightarrow> json option"
  re_sha256 :: "string \<Rightarrow> string"
  re_error_text :: "os_error \<Rightarrow> string"
  re_run_tool :: "string \<Rightarrow> string list \<Rightarrow> nat \<Rightarrow> 'w \<Rightarrow> tool_result option \<times> 'w"
  re_uid :: string
  re_sid :: "string option"
  re_user_home :: "string option"

definition rule_norm :: "'w rule_env \<Rightarrow> string \<Rightarrow> string" where
  "rule_norm re path = norm_path (e_lower (re_env re)) path"

datatype failure = Os os_error | Msg string

definition failure_text :: "'w rule_env \<Rightarrow> failure \<Rightarrow> string" where
  "failure_text re f = (case f of Os err \<Rightarrow> re_error_text re err | Msg s \<Rightarrow> s)"

text \<open>Steps that may fail.\<close>

definition act_try :: "('w, 'e + 'a) act \<Rightarrow> ('a \<Rightarrow> ('w, 'e + 'b) act) \<Rightarrow> ('w, 'e + 'b) act" where
  "act_try m f = act_bind m (\<lambda>r. case r of Inl err \<Rightarrow> act_ret (Inl err) | Inr a \<Rightarrow> f a)"

definition act_fail :: "'e \<Rightarrow> ('w, 'e + 'a) act" where
  "act_fail err = act_ret (Inl err)"

definition act_ok :: "'a \<Rightarrow> ('w, 'e + 'a) act" where
  "act_ok a = act_ret (Inr a)"

definition act_msg :: "string \<Rightarrow> ('w, failure + 'a) act" where
  "act_msg s = act_fail (Msg s)"

text \<open>A call of the system and a pure computation, as steps that may fail.\<close>

definition act_sys :: "('w \<Rightarrow> (os_error + 'a) \<times> 'w) \<Rightarrow> ('w, failure + 'a) act" where
  "act_sys f = act_bind (act_os f) (\<lambda>r. case r of Inl err \<Rightarrow> act_fail (Os err) | Inr a \<Rightarrow> act_ok a)"

definition act_go :: "(string, 'a) go \<Rightarrow> ('w, failure + 'a) act" where
  "act_go m = (case m of Ret a \<Rightarrow> act_ok a | Err s \<Rightarrow> act_msg s | Panic \<Rightarrow> act_stop)"

lemma act_try_Some:
  "act_try m f s = (Some (Inr b), s'') \<longleftrightarrow> (\<exists>a s'. m s = (Some (Inr a), s') \<and> f a s' = (Some (Inr b), s''))"
proof -
  have "(case r of Inl err \<Rightarrow> act_ret (Inl err) | Inr a \<Rightarrow> f a) s' = (Some (Inr b), s'') \<longleftrightarrow>
      (\<exists>a. r = Inr a \<and> f a s' = (Some (Inr b), s''))" for r s'
    by (cases r) auto
  then show ?thesis by (auto simp: act_try_def act_bind_Some_iff)
qed

lemma act_tryE:
  assumes "act_try m f s = (Some (Inr b), s'')"
  obtains a s' where "m s = (Some (Inr a), s')" "f a s' = (Some (Inr b), s'')"
  using assms by (auto simp: act_try_Some)

lemma act_fail_iff [simp]: "act_fail err s = (r, s') \<longleftrightarrow> r = Some (Inl err) \<and> s' = s"
  "act_ok a s = (r, s') \<longleftrightarrow> r = Some (Inr a) \<and> s' = s"
  by (auto simp: act_fail_def act_ok_def)

lemma act_msg_iff [simp]: "act_msg m s = (r, s') \<longleftrightarrow> r = Some (Inl (Msg m)) \<and> s' = s"
  by (simp add: act_msg_def)

section \<open>Confined paths\<close>

definition accepted_kind :: "bool \<Rightarrow> file_info \<Rightarrow> bool" where
  "accepted_kind file_only md \<longleftrightarrow> fi_regular md \<or> \<not> file_only \<and> fi_dir md"

fun confined_steps ::
  "(string \<Rightarrow> ('w, os_error + file_info) act) \<Rightarrow> bool \<Rightarrow> string \<Rightarrow> string list \<Rightarrow> ('w, failure + bool) act" where
  "confined_steps lstat file_only real [] = act_ok False"
| "confined_steps lstat file_only real (p # ps) =
    (let path = path_join real p in
     act_bind (lstat path) (\<lambda>r. case r of
       Inl err \<Rightarrow> if err = NotExist then act_ok False else act_fail (Os err)
     | Inr md \<Rightarrow>
         if fi_link md then act_msg ''redirected evidence''
         else if ps = [] then act_ok (accepted_kind file_only md)
         else if \<not> fi_dir md then act_msg ''invalid evidence ancestor''
         else confined_steps lstat file_only path ps))"

definition confined_rule_path ::
  "(string \<Rightarrow> ('w, os_error + file_info) act) \<Rightarrow> (string \<Rightarrow> ('w, failure + string) act) \<Rightarrow>
     string \<Rightarrow> string \<Rightarrow> bool \<Rightarrow> ('w, failure + bool) act" where
  "confined_rule_path lstat eval root target file_only =
    (if prefix (root @ [slash]) target \<and>
        list_ex (\<lambda>part. part = ''.'' \<or> part = ''..'') (split_on slash (drop (length root + 1) target))
     then act_msg ''evidence escapes root''
     else case path_rel root target of
       None \<Rightarrow> act_msg ''evidence escapes root''
     | Some rel \<Rightarrow>
         if rel = ''..'' \<or> prefix ''../'' rel \<or> prefix ''/'' rel then act_msg ''evidence escapes root''
         else act_bind (lstat root) (\<lambda>r. case r of
           Inl err \<Rightarrow> if err = NotExist then act_ok False else act_fail (Os err)
         | Inr md \<Rightarrow>
             if fi_link md then act_msg ''redirected evidence root''
             else act_try (eval root) (\<lambda>real.
               if rel = ''.'' then act_ok (accepted_kind file_only md)
               else confined_steps lstat file_only real (split_on slash rel))))"

definition confined_path :: "'w rule_env \<Rightarrow> string \<Rightarrow> string \<Rightarrow> ('w, failure + bool) act" where
  "confined_path re root target =
    confined_rule_path (act_lstat (re_env re)) (\<lambda>p. act_sys (re_eval_symlinks re p)) root target False"

definition confined_file :: "'w rule_env \<Rightarrow> string \<Rightarrow> string \<Rightarrow> ('w, failure + bool) act" where
  "confined_file re root target =
    confined_rule_path (act_lstat (re_env re)) (\<lambda>p. act_sys (re_eval_symlinks re p)) root target True"

text \<open>
  The check over a file system that answers from a table: every directory it walked through is a
  real directory and what it found is no link.
\<close>

definition table_call :: "(string \<Rightarrow> 'a) \<Rightarrow> string \<Rightarrow> ('w, 'a) act" where
  "table_call f path = act_ret (f path)"

fun real_walk :: "(string \<Rightarrow> os_error + file_info) \<Rightarrow> bool \<Rightarrow> string \<Rightarrow> string list \<Rightarrow> bool" where
  "real_walk f file_only real [] = False"
| "real_walk f file_only real (p # ps) =
    (case f (path_join real p) of
       Inl _ \<Rightarrow> False
     | Inr md \<Rightarrow> \<not> fi_link md \<and> (if ps = [] then accepted_kind file_only md
                 else fi_dir md \<and> real_walk f file_only (path_join real p) ps))"

lemma confined_steps_walk:
  "confined_steps (table_call f) file_only real ps s = (Some (Inr True), s') \<longleftrightarrow> real_walk f file_only real ps \<and> s' = s"
proof (induction ps arbitrary: real)
  case (Cons p ps)
  then show ?case
    by (cases "f (path_join real p)") (auto simp: Let_def table_call_def act_bind_def act_ret_def split: if_splits)
qed simp

text \<open>
  With answers that do not change during the check, a path is
  accepted exactly when it is within the root lexically, the root is no link, and every component
  below it exists, is no link and is a directory except for the last, which is of the wanted kind.
\<close>

definition confined_spec ::
  "(string \<Rightarrow> os_error + file_info) \<Rightarrow> (string \<Rightarrow> failure + string) \<Rightarrow> string \<Rightarrow> string \<Rightarrow> bool \<Rightarrow> bool" where
  "confined_spec f g root target file_only =
    (path_within target root \<and>
     \<not> (prefix (root @ [slash]) target \<and>
        list_ex (\<lambda>part. part = ''.'' \<or> part = ''..'') (split_on slash (drop (length root + 1) target))) \<and>
     (case (f root, g root, path_rel root target) of
        (Inr md, Inr real, Some rel) \<Rightarrow> \<not> fi_link md \<and>
          (if rel = ''.'' then accepted_kind file_only md else real_walk f file_only real (split_on slash rel))
      | _ \<Rightarrow> False))"

theorem confined_rule_path_iff:
  "confined_rule_path (table_call f) (table_call g) root target file_only s = (Some (Inr True), s') \<longleftrightarrow>
   confined_spec f g root target file_only \<and> s' = s"
proof (cases "path_rel root target")
  case (Some rel)
  have dot: "\<not> (''.'' = ''..'' \<or> prefix ''../'' ''.'' \<or> prefix ''/'' ''.'')" by simp
  show ?thesis
  proof (cases "f root")
    case (Inl err)
    then show ?thesis using Some
      by (auto simp: confined_rule_path_def confined_spec_def path_within_def table_call_def act_bind_def act_ret_def)
  next
    case (Inr md)
    show ?thesis
    proof (cases "g root")
      case (Inl err)
      then show ?thesis using Some Inr
        by (auto simp: confined_rule_path_def confined_spec_def path_within_def table_call_def act_bind_def act_ret_def act_try_def)
    next
      case g: (Inr real)
      have w: "confined_steps (table_call f) file_only real (split_on slash rel) s = (Some (Inr True), s') \<longleftrightarrow>
         real_walk f file_only real (split_on slash rel) \<and> s' = s" by (rule confined_steps_walk)
      then show ?thesis using Some Inr g
        unfolding confined_rule_path_def confined_spec_def
        by (auto simp: path_within_def table_call_def [of f root] table_call_def [of g] act_bind_def act_ret_def act_try_def)
    qed
  qed
qed (auto simp: confined_rule_path_def confined_spec_def path_within_def)

section \<open>Probes\<close>

definition read_rule_evidence :: "'w rule_env \<Rightarrow> string \<Rightarrow> ('w, failure + string) act" where
  "read_rule_evidence re path =
    act_try (act_sys (re_read_file re path (4 * 1024 * 1024 + 1))) (\<lambda>b.
      if 4 * 1024 * 1024 < length b then act_msg ''evidence byte limit'' else act_ok b)"

definition probe_validate :: "probe \<Rightarrow> (string, unit) go" where
  "probe_validate p =
    (if pr_kind p = ''variable'' then
       (if 65536 < length (marshal (pr_equals p)) \<or> \<not> rule_identifier (pr_name p)
        then Err ''invalid variable fact'' else Ret ())
     else if \<not> rule_relative (pr_path p) then Err ''probe escapes root''
     else if pr_kind p = ''file'' then Ret ()
     else if pr_kind p = ''text'' then
       (if pr_signature p = [] \<or> 65536 < length (pr_signature p) then Err ''invalid signature'' else Ret ())
     else if pr_kind p = ''json'' then
       (if \<not> valid_pointer (pr_pointer p) then Err ''invalid JSON pointer'' else Ret ())
     else Err ''unknown probe kind'')"

text \<open>What the bytes of a file say of a \<^verbatim>\<open>text\<close> or \<^verbatim>\<open>json\<close> probe.\<close>

definition probe_content :: "'w rule_env \<Rightarrow> probe \<Rightarrow> string \<Rightarrow> evidence" where
  "probe_content re p b =
    (if \<not> utf8_valid b then Unknown
     else if pr_kind p = ''text'' then (if contains_bytes b (pr_signature p) then Confirmed else Absent)
     else case re_unmarshal re b of
       None \<Rightarrow> Unknown
     | Some v \<Rightarrow> (case json_pointer v (pr_pointer p) of
         None \<Rightarrow> Absent
       | Some w \<Rightarrow> if json_equal w (pr_equals p) then Confirmed else Absent))"

definition probe_evaluate :: "'w rule_env \<Rightarrow> probe \<Rightarrow> string \<Rightarrow> variable_values \<Rightarrow> ('w, evidence) act" where
  "probe_evaluate re p root values =
    (if probe_validate p \<noteq> Ret () then act_ret Unknown
     else if pr_kind p = ''variable'' then
       act_ret (case map_of values (pr_name p) of
         None \<Rightarrow> Unknown
       | Some v \<Rightarrow> if rv_evidence v \<noteq> Confirmed then rv_evidence v
                   else if json_equal (rv_value v) (pr_equals p) then Confirmed else Absent)
     else case expand_rule_paths (pr_path p) values of
       Ret [path] \<Rightarrow>
         let target = path_join root (to_slash path) in
         act_bind (confined_file re root target) (\<lambda>r. case r of
           Inl _ \<Rightarrow> act_ret Unknown
         | Inr ok \<Rightarrow>
             if \<not> ok then act_ret Absent
             else if pr_kind p = ''file'' then act_ret Confirmed
             else act_bind (read_rule_evidence re target) (\<lambda>r. case r of
               Inl _ \<Rightarrow> act_ret Unknown
             | Inr b \<Rightarrow> act_ret (probe_content re p b)))
     | _ \<Rightarrow> act_ret Unknown)"

end
