(* ===== verification/Rule_Variables.thy ===== *)
theory Rule_Variables
  imports Rule_Probe
begin

text \<open>
  \<^verbatim>\<open>rule_variables.go\<close>: the checks on a rule's variables, the order in which they can be
  resolved, and their resolution on the disk.  A Go map is a list of its entries in the order in
  which they are ranged over.
\<close>

section \<open>Checks\<close>

record variable =
  va_kind :: string
  va_path :: string
  va_length :: int
  va_pointer :: string
  va_limit :: int

type_synonym variables = "(string \<times> variable) list"

definition validate_rule_template :: "string \<Rightarrow> variables \<Rightarrow> (string, unit) go" where
  "validate_rule_template s vars =
    (if \<not> rule_relative s then Err ''invalid relative template''
     else go_bind (rule_variable_names s) (\<lambda>ns.
       go_fold (\<lambda>n _. if map_of vars n = None then Err ''unknown variable reference'' else Ret ()) ns ()))"

definition check_variable :: "variables \<Rightarrow> string \<times> variable \<Rightarrow> (string, unit) go" where
  "check_variable vars nx =
    (case nx of (n, x) \<Rightarrow>
      if \<not> rule_identifier n then Err ''invalid variable name''
      else go_bind (validate_rule_template (va_path x) vars) (\<lambda>_.
        if va_kind x = ''path'' then Ret ()
        else if va_kind x = ''canonical_hash'' then
          (if va_length x < 8 \<or> 64 < va_length x then Err ''invalid digest length'' else Ret ())
        else if va_kind x = ''directories'' then
          (if va_limit x < 1 \<or> 256 < va_limit x then Err ''directory enumeration limit'' else Ret ())
        else if va_kind x = ''json_field'' \<or> va_kind x = ''json_set'' then
          (if \<not> valid_pointer (va_pointer x) then Err ''invalid JSON pointer'' else Ret ())
        else Err ''unknown variable kind''))"

section \<open>The order of resolution\<close>

text \<open>
  The depth-first search: \<open>df_state\<close> is 0 for a new name, 1 on the stack and 2 when done.  The
  argument \<open>k\<close> of \<open>visit\<close> is 32 less the depth.
\<close>

record dfs =
  df_state :: "string \<Rightarrow> nat"
  df_order :: "string list"

definition references :: "variables \<Rightarrow> string \<Rightarrow> string list" where
  "references vars n =
    (case rule_variable_names (case map_of vars n of None \<Rightarrow> [] | Some x \<Rightarrow> va_path x) of
       Ret ns \<Rightarrow> ns | _ \<Rightarrow> [])"

primrec visit :: "nat \<Rightarrow> variables \<Rightarrow> string \<Rightarrow> dfs \<Rightarrow> (string, dfs) go" where
  "visit 0 vars n st = (if df_state st n = 2 then Ret st else Err ''variable cycle or depth limit'')"
| "visit (Suc k) vars n st =
    (if df_state st n = 2 then Ret st
     else if df_state st n = 1 then Err ''variable cycle or depth limit''
     else go_bind (go_fold (visit k vars) (references vars n) (st\<lparr>df_state := (df_state st)(n := 1)\<rparr>)) (\<lambda>st'.
       Ret \<lparr>df_state = (df_state st')(n := 2), df_order = df_order st' @ [n]\<rparr>))"

definition validate_rule_variables :: "variables \<Rightarrow> (string, string list) go" where
  "validate_rule_variables vars =
    (if 256 < length vars then Err ''variable resource limit''
     else go_bind (go_fold (\<lambda>nx _. check_variable vars nx) vars ()) (\<lambda>_.
       go_bind (go_fold (visit 32 vars) (sort_by string_less (map fst vars)) \<lparr>df_state = \<lambda>_. 0, df_order = []\<rparr>) (\<lambda>st.
         Ret (df_order st))))"

text \<open>An order in which every variable comes after those its path refers to.\<close>

definition resolvable :: "variables \<Rightarrow> string list \<Rightarrow> bool" where
  "resolvable vars order \<longleftrightarrow>
    distinct order \<and> (\<forall>i < length order. set (references vars (order ! i)) \<subseteq> set (take i order))"

definition search_ok :: "variables \<Rightarrow> dfs \<Rightarrow> bool" where
  "search_ok vars st \<longleftrightarrow> resolvable vars (df_order st) \<and> (\<forall>n. df_state st n = 2 \<longleftrightarrow> n \<in> set (df_order st))"

definition extends :: "dfs \<Rightarrow> dfs \<Rightarrow> bool" where
  "extends st st' \<longleftrightarrow> prefix (df_order st) (df_order st') \<and>
     (\<forall>n. df_state st' n \<noteq> 2 \<longrightarrow> df_state st' n = df_state st n) \<and> (\<forall>n. df_state st n = 1 \<longrightarrow> df_state st' n = 1)"

lemma resolvable_snoc:
  assumes "resolvable vars order" "n \<notin> set order" "set (references vars n) \<subseteq> set order"
  shows "resolvable vars (order @ [n])"
  using assms by (auto simp: resolvable_def nth_append less_Suc_eq)

lemma extends_trans: "extends a b \<Longrightarrow> extends b c \<Longrightarrow> extends a c"
  unfolding extends_def using prefix_order.trans by metis

lemma extends_done: "extends st st' \<Longrightarrow> set (df_order st) \<subseteq> set (df_order st')"
  by (auto simp: extends_def prefix_def)

lemma visits_ok:
  assumes step: "\<And>n st st'. n \<in> set ns \<Longrightarrow> f n st = Ret st' \<Longrightarrow> search_ok vars st \<Longrightarrow>
      search_ok vars st' \<and> extends st st' \<and> n \<in> set (df_order st')"
  shows "go_fold f ns st = Ret st' \<Longrightarrow> search_ok vars st \<Longrightarrow>
    search_ok vars st' \<and> extends st st' \<and> set ns \<subseteq> set (df_order st')"
  using step
proof (induction ns arbitrary: st)
  case Nil
  then show ?case by (simp add: extends_def)
next
  case (Cons n ns)
  obtain st1 where st1: "f n st = Ret st1" "go_fold f ns st1 = Ret st'" using Cons.prems(1) by (auto elim: go_bind_RetE)
  have a: "search_ok vars st1" "extends st st1" "n \<in> set (df_order st1)"
    using Cons.prems(3) [OF _ st1(1) Cons.prems(2)] by auto
  have b: "search_ok vars st'" "extends st1 st'" "set ns \<subseteq> set (df_order st')"
    using Cons.IH [OF st1(2) a(1)] Cons.prems(3) by auto
  show ?case using a b extends_trans [OF a(2) b(2)] extends_done [OF b(2)] by auto
qed

lemma visit_ok:
  "visit k vars n st = Ret st' \<Longrightarrow> search_ok vars st \<Longrightarrow>
   search_ok vars st' \<and> extends st st' \<and> n \<in> set (df_order st')"
proof (induction k arbitrary: n st st')
  case 0
  then show ?case by (auto simp: search_ok_def extends_def split: if_splits)
next
  case (Suc k)
  show ?case
  proof (cases "df_state st n = 2")
    case True
    with Suc.prems show ?thesis by (auto simp: search_ok_def extends_def)
  next
    case False
    define st0 where "st0 = st\<lparr>df_state := (df_state st)(n := 1)\<rparr>"
    obtain st1 where n1: "df_state st n \<noteq> 1" and f: "go_fold (visit k vars) (references vars n) st0 = Ret st1"
      and st': "st' = \<lparr>df_state = (df_state st1)(n := 2), df_order = df_order st1 @ [n]\<rparr>"
      using Suc.prems(1) False by (auto simp: st0_def split: if_splits elim!: go_bind_RetE)
    have ok0: "search_ok vars st0" using Suc.prems(2) False by (auto simp: search_ok_def st0_def)
    have ok1: "search_ok vars st1" "extends st0 st1" "set (references vars n) \<subseteq> set (df_order st1)"
      using visits_ok [OF _ f ok0] Suc.IH by blast+
    have on: "df_state st1 n = 1" using ok1(2) by (simp add: extends_def st0_def)
    then have "df_state st1 n \<noteq> 2" by simp
    then have fresh: "n \<notin> set (df_order st1)" using ok1(1) by (simp add: search_ok_def)
    have "search_ok vars st'" using ok1 fresh resolvable_snoc by (auto simp: search_ok_def st')
    moreover have "extends st st'"
      using ok1(2) n1 by (auto simp: extends_def st' st0_def prefix_def)
    ultimately show ?thesis by (simp add: st')
  qed
qed

lemma visit_within:
  assumes closed: "\<And>m. m \<in> D \<Longrightarrow> set (references vars m) \<subseteq> D"
  shows "visit k vars n st = Ret st' \<Longrightarrow> n \<in> D \<Longrightarrow> set (df_order st) \<subseteq> D \<Longrightarrow> set (df_order st') \<subseteq> D"
proof (induction k arbitrary: n st st')
  case (Suc k)
  show ?case
  proof (cases "df_state st n = 2")
    case False
    define st0 where "st0 = st\<lparr>df_state := (df_state st)(n := 1)\<rparr>"
    obtain st1 where f: "go_fold (visit k vars) (references vars n) st0 = Ret st1"
      and st': "df_order st' = df_order st1 @ [n]"
      using Suc.prems(1) False by (auto simp: st0_def split: if_splits elim!: go_bind_RetE)
    have "set (df_order st1) \<subseteq> D"
    proof (rule go_fold_invariant [OF f])
      show "set (df_order st0) \<subseteq> D" using Suc.prems(3) by (simp add: st0_def)
      fix m s s' assume "m \<in> set (references vars n)" "set (df_order s) \<subseteq> D" "visit k vars m s = Ret s'"
      then show "set (df_order s') \<subseteq> D" using Suc.IH closed [OF Suc.prems(2)] by blast
    qed
    then show ?thesis using Suc.prems(2) by (simp add: st')
  qed (use Suc.prems in simp)
qed (auto split: if_splits)

lemma go_fold_checks: "go_fold (\<lambda>x _. f x) xs () = Ret () \<longleftrightarrow> (\<forall>x \<in> set xs. f x = Ret ())"
proof (induction xs)
  case (Cons x xs)
  then show ?case by (cases "f x") auto
qed simp

lemma check_variable_references:
  assumes "check_variable vars (n, x) = Ret ()"
  shows "\<exists>ns. rule_variable_names (va_path x) = Ret ns \<and> set ns \<subseteq> fst ` set vars"
proof -
  have "validate_rule_template (va_path x) vars = Ret ()"
    using assms by (auto simp: check_variable_def split: if_splits elim!: go_bind_RetE)
  then obtain ns where ns: "rule_variable_names (va_path x) = Ret ns"
    "go_fold (\<lambda>n _. if map_of vars n = None then Err ''unknown variable reference'' else Ret ()) ns () = Ret ()"
    by (auto simp: validate_rule_template_def split: if_splits elim!: go_bind_RetE)
  have "n \<in> fst ` set vars" if "n \<in> set ns" for n
  proof -
    have "(if map_of vars n = None then Err ''unknown variable reference'' else Ret ()) = (Ret () :: (string, unit) go)"
      using ns(2) that unfolding go_fold_checks by blast
    then have "map_of vars n \<noteq> None" by (auto split: if_splits)
    then show ?thesis by (simp add: map_of_eq_None_iff)
  qed
  with ns(1) show ?thesis by blast
qed

text \<open>
  When the variables of a rule pass the checks, the order
  returned holds every variable once and each one after all the variables its path refers to.
\<close>

theorem rule_variables_order:
  assumes "validate_rule_variables vars = Ret order"
  shows "resolvable vars order \<and> set order = fst ` set vars"
proof -
  obtain st where checks: "go_fold (\<lambda>nx _. check_variable vars nx) vars () = Ret ()" and
    f: "go_fold (visit 32 vars) (sort_by string_less (map fst vars)) \<lparr>df_state = \<lambda>_. 0, df_order = []\<rparr> = Ret st" and
    order: "order = df_order st"
    using assms unfolding validate_rule_variables_def by (auto split: if_splits elim!: go_bind_RetE simp del: visit.simps)
  have ok: "search_ok vars \<lparr>df_state = \<lambda>_. 0, df_order = []\<rparr>" by (simp add: search_ok_def resolvable_def)
  have r: "search_ok vars st" "fst ` set vars \<subseteq> set (df_order st)"
    using visits_ok [OF _ f ok] visit_ok by auto
  have closed: "set (references vars m) \<subseteq> fst ` set vars" if m: "m \<in> fst ` set vars" for m
  proof -
    obtain x where x: "map_of vars m = Some x" using m by (cases "map_of vars m") (simp_all add: map_of_eq_None_iff)
    then have "check_variable vars (m, x) = Ret ()" using checks map_of_SomeD [OF x] unfolding go_fold_checks by blast
    from check_variable_references [OF this] x show ?thesis by (auto simp: references_def)
  qed
  have "set (df_order st) \<subseteq> fst ` set vars"
  proof (rule go_fold_invariant [OF f])
    fix n s s' assume n: "n \<in> set (sort_by string_less (map fst vars))" and "set (df_order s) \<subseteq> fst ` set vars"
      and "visit 32 vars n s = Ret s'"
    moreover have "n \<in> fst ` set vars" using n by simp
    ultimately show "set (df_order s') \<subseteq> fst ` set vars" using visit_within [OF closed] by blast
  qed simp
  with r show ?thesis by (auto simp: search_ok_def order)
qed

definition path_variable :: "string \<Rightarrow> variable" where
  "path_variable p = \<lparr>va_kind = ''path'', va_path = p, va_length = 0, va_pointer = [], va_limit = 0\<rparr>"

theorem rule_variables_order_witness:
  "resolvable [(''a'', path_variable ''${b}/x''), (''b'', path_variable ''y'')] [''b'', ''a'']"
proof -
  have "validate_rule_variables [(''a'', path_variable ''${b}/x''), (''b'', path_variable ''y'')] = Ret [''b'', ''a'']"
    by code_simp
  from rule_variables_order [OF this] show ?thesis by simp
qed

section \<open>Resolution\<close>

text \<open>The documents read so far, the errors met and the bytes left of the budget.\<close>

record document_cache =
  dc_documents :: "string \<rightharpoonup> json"
  dc_errors :: "string \<rightharpoonup> failure"
  dc_remaining :: nat

definition load_document ::
  "'w rule_env \<Rightarrow> string \<Rightarrow> document_cache \<Rightarrow> ('w, (failure + json) \<times> document_cache) act" where
  "load_document re target dc =
    (case dc_documents dc target of
       Some doc \<Rightarrow> act_ret (Inr doc, dc)
     | None \<Rightarrow>
         (case dc_errors dc target of
            Some err \<Rightarrow> act_ret (Inl err, dc)
          | None \<Rightarrow>
              let failed = (\<lambda>err d. act_ret (Inl err, d\<lparr>dc_errors := (dc_errors d)(target \<mapsto> err)\<rparr>)) in
              act_bind (act_sys (os_stat (e_os (re_env re)) target)) (\<lambda>r. case r of
                Inl err \<Rightarrow> act_ret (Inl err, dc)
              | Inr md \<Rightarrow>
                  if int (dc_remaining dc) < fi_length md then act_ret (Inl (Msg ''extraction byte budget''), dc)
                  else act_bind (read_rule_evidence re target) (\<lambda>r. case r of
                    Inl err \<Rightarrow> failed err dc
                  | Inr b \<Rightarrow>
                      if \<not> utf8_valid b then failed (Msg ''invalid JSON UTF-8'') dc
                      else if dc_remaining dc < length b then failed (Msg ''extraction byte budget'') dc
                      else let dc1 = dc\<lparr>dc_remaining := dc_remaining dc - length b\<rparr> in
                        case re_unmarshal re b of
                          None \<Rightarrow> failed (Msg ''invalid JSON'') dc1
                        | Some doc \<Rightarrow> act_ret (Inr doc, dc1\<lparr>dc_documents := (dc_documents dc1)(target \<mapsto> doc)\<rparr>)))))"

definition json_field :: "json option \<Rightarrow> (string, json option) go" where
  "json_field v =
    (case v of None \<Rightarrow> Ret None
     | Some (JStr s) \<Rightarrow> if 1024 < length s then Err ''JSON field type or limit'' else Ret (Some (JStr s))
     | _ \<Rightarrow> Err ''JSON field type or limit'')"

definition json_set :: "json option \<Rightarrow> (string, json option) go" where
  "json_set v =
    (case v of None \<Rightarrow> Ret None
     | Some (JArr a) \<Rightarrow>
         if 256 < length a then Err ''JSON set type or limit''
         else go_bind (go_fold (\<lambda>x members. case json_string x of
             None \<Rightarrow> Err ''JSON set member type or limit''
           | Some s \<Rightarrow> if 1024 < length s then Err ''JSON set member type or limit''
                       else Ret (List.insert s members)) a []) (\<lambda>members.
           Ret (Some (JArr (map JStr (sort_by string_less members)))))
     | _ \<Rightarrow> Err ''JSON set type or limit'')"

definition list_member ::
  "'w rule_env \<Rightarrow> string \<Rightarrow> string \<Rightarrow> string \<Rightarrow> dir_entry \<Rightarrow> string list \<Rightarrow> ('w, failure + string list) act" where
  "list_member re root target relative d out =
    act_try (confined_path re root (path_join target (de_name d))) (\<lambda>ok.
      if ok \<and> de_dir d then
        let s = relative @ slash # de_name d in
        if \<not> utf8_valid s \<or> \<not> rule_relative s then act_msg ''invalid directory member'' else act_ok (out @ [s])
      else act_ok out)"

fun list_members ::
  "'w rule_env \<Rightarrow> string \<Rightarrow> string \<Rightarrow> string \<Rightarrow> dir_entry list \<Rightarrow> string list \<Rightarrow> ('w, failure + string list) act" where
  "list_members re root target relative [] out = act_ok out"
| "list_members re root target relative (d # ds) out =
    act_try (list_member re root target relative d out) (list_members re root target relative ds)"

definition extract_value ::
  "'w rule_env \<Rightarrow> variable \<Rightarrow> string \<Rightarrow> string \<Rightarrow> string \<Rightarrow> document_cache \<Rightarrow>
     ('w, (failure + json option) \<times> document_cache) act" where
  "extract_value re x root relative target dc =
    (let plain = (\<lambda>m. act_bind m (\<lambda>r. act_ret (r, dc))) in
     if va_kind x = ''path'' then act_ret (Inr (Some (JStr relative)), dc)
     else if va_kind x = ''canonical_hash'' then
       plain (act_try (act_sys (re_eval_symlinks re target)) (\<lambda>p.
         act_try (act_sys (re_abs re p)) (\<lambda>p.
           act_ok (Some (JStr (take (nat (va_length x)) (re_sha256 re (rule_norm re p))))))))
     else if va_kind x = ''json_field'' \<or> va_kind x = ''json_set'' then
       act_bind (confined_file re root target) (\<lambda>r. case r of
         Inl err \<Rightarrow> act_ret (Inl err, dc)
       | Inr ok \<Rightarrow>
           if \<not> ok then act_ret (Inl (Msg ''JSON input is not a file''), dc)
           else act_bind (load_document re target dc) (\<lambda>(r, dc1). case r of
             Inl err \<Rightarrow> act_ret (Inl err, dc1)
           | Inr doc \<Rightarrow>
               let v = json_pointer doc (va_pointer x) in
               act_bind (act_go (if va_kind x = ''json_field'' then json_field v else json_set v)) (\<lambda>r.
                 act_ret (r, dc1))))
     else if va_kind x = ''directories'' then
       plain (act_try (act_sys (re_read_some re target (nat (va_limit x) + 1))) (\<lambda>entries.
         if va_limit x < int (length entries) then act_msg ''directory enumeration exhausted''
         else act_try (list_members re root target relative entries []) (\<lambda>out.
           act_ok (Some (JArr (map JStr (sort_by string_less out)))))))
     else act_ret (Inl (Msg ''unknown variable kind''), dc))"

definition resolve_variable ::
  "'w rule_env \<Rightarrow> variable \<Rightarrow> string \<Rightarrow> variable_values \<Rightarrow> document_cache \<Rightarrow>
     ('w, (failure + json option) \<times> document_cache) act" where
  "resolve_variable re x root values dc =
    (case expand_rule_paths (va_path x) values of
       Ret [relative] \<Rightarrow>
         let target = path_join root (to_slash relative) in
         act_bind (confined_path re root target) (\<lambda>r. case r of
           Inl err \<Rightarrow> act_ret (Inl err, dc)
         | Inr ok \<Rightarrow> if \<not> ok then act_ret (Inr None, dc) else extract_value re x root relative target dc)
     | Err m \<Rightarrow> act_ret (Inl (Msg m), dc)
     | _ \<Rightarrow> act_ret (Inl (Msg ''extraction requires one path''), dc))"

definition resolution_of :: "failure + json option \<Rightarrow> resolution" where
  "resolution_of r =
    (case r of Inl _ \<Rightarrow> \<lparr>rv_evidence = Unknown, rv_value = JNull\<rparr>
     | Inr None \<Rightarrow> \<lparr>rv_evidence = Absent, rv_value = JNull\<rparr>
     | Inr (Some v) \<Rightarrow> \<lparr>rv_evidence = Confirmed, rv_value = v\<rparr>)"

definition evaluate_rule_variables :: "'w rule_env \<Rightarrow> variables \<Rightarrow> string \<Rightarrow> ('w, variable_values) act" where
  "evaluate_rule_variables re vars root =
    (case validate_rule_variables vars of
       Ret order \<Rightarrow>
         act_bind (act_fold (\<lambda>n (values, dc).
             case map_of vars n of
               None \<Rightarrow> act_ret (values, dc)
             | Some x \<Rightarrow> act_bind (resolve_variable re x root values dc) (\<lambda>(r, dc').
                 act_ret (values @ [(n, resolution_of r)], dc')))
           order ([], \<lparr>dc_documents = Map.empty, dc_errors = Map.empty, dc_remaining = 8 * 1024 * 1024\<rparr>))
         (\<lambda>(values, dc). act_ret values)
     | _ \<Rightarrow> act_ret [])"

end
