(* ===== verification/Plan_Operation.thy ===== *)
theory Plan_Operation
  imports Rule_Probe Cleaner_Files
begin

text \<open>
  \<^verbatim>\<open>internal/core/plan_operation.go\<close> and the predicates of \<^verbatim>\<open>owner.go\<close>: the operations a
  rule may ask for, their classes and routes, and the key under which a target is known.
\<close>

section \<open>Operations\<close>

datatype operation_kind = OpFile | OpTree | OpGitWorktree | OpContents | OpDocker | OpBrew | OpGo | OpPnpm
  | OpSnapshot | OpTrash | OpNative | OpRegistration | OpOfficialUninstall | OpUnknown string

datatype native_kind = RegistryKey | RegistryValue | ScheduledTask | SystemExtension | OtherNative string

record operation =
  op_kind :: operation_kind
  op_registration :: string
  op_reference :: string
  op_name :: string
  op_native :: native_kind
  op_identifier :: string

definition plain_operation :: "operation_kind \<Rightarrow> operation" where
  "plain_operation k = \<lparr>op_kind = k, op_registration = [], op_reference = [], op_name = [],
     op_native = OtherNative [], op_identifier = []\<rparr>"

datatype execution_route = RouteTrash | RouteNative | RouteOwner | RouteFilesystem | RouteWorktree | RouteUnrouted

definition removes_directory :: "operation \<Rightarrow> bool" where
  "removes_directory opn = (op_kind opn = OpFile \<or> op_kind opn = OpTree \<or> op_kind opn = OpGitWorktree)"

definition is_native_resource :: "operation \<Rightarrow> bool" where
  "is_native_resource opn = (op_kind opn = OpDocker \<or> op_kind opn = OpSnapshot \<or> op_kind opn = OpBrew \<or> op_kind opn = OpNative)"

definition carries_scan_size :: "operation \<Rightarrow> bool" where
  "carries_scan_size opn = (is_native_resource opn \<or> op_kind opn = OpGo \<or> op_kind opn = OpPnpm)"

definition operation_covers_subtree :: "operation \<Rightarrow> bool" where
  "operation_covers_subtree opn = (op_kind opn \<in> {OpTree, OpContents, OpGo, OpPnpm, OpGitWorktree, OpTrash})"

definition is_filesystem_backed :: "operation \<Rightarrow> bool" where
  "is_filesystem_backed opn =
    (removes_directory opn \<or> op_kind opn = OpContents \<or> op_kind opn = OpGo \<or> op_kind opn = OpPnpm)"

definition operation_route :: "operation \<Rightarrow> execution_route" where
  "operation_route opn =
    (case op_kind opn of
       OpTrash \<Rightarrow> RouteTrash
     | OpDocker \<Rightarrow> RouteNative | OpSnapshot \<Rightarrow> RouteNative | OpBrew \<Rightarrow> RouteNative
     | OpGo \<Rightarrow> RouteOwner | OpPnpm \<Rightarrow> RouteOwner
     | OpFile \<Rightarrow> RouteFilesystem | OpTree \<Rightarrow> RouteFilesystem | OpContents \<Rightarrow> RouteFilesystem
     | OpGitWorktree \<Rightarrow> RouteWorktree
     | _ \<Rightarrow> RouteUnrouted)"

section \<open>Snapshot dates and image references\<close>

definition digits_at :: "string \<Rightarrow> nat list \<Rightarrow> bool" where
  "digits_at s is = list_all (\<lambda>i. i < length s \<and> is_digit (s ! i)) is"

text \<open>The regular expression for a date such as \<^verbatim>\<open>2024-01-31-120000\<close>.\<close>

definition snapshot_shape :: "string \<Rightarrow> bool" where
  "snapshot_shape s \<longleftrightarrow>
    length s = 17 \<and> digits_at s ([0..<4] @ [5..<7] @ [8..<10] @ [11..<17]) \<and>
    s ! 4 = CHR ''-'' \<and> s ! 7 = CHR ''-'' \<and> s ! 10 = CHR ''-''"

definition field :: "string \<Rightarrow> nat \<Rightarrow> nat \<Rightarrow> nat" where
  "field s i n = digits_value (take n (drop i s))"

definition days_in :: "nat \<Rightarrow> nat \<Rightarrow> nat" where
  "days_in month year =
    (if month = 2 then (if year mod 4 = 0 \<and> (year mod 100 \<noteq> 0 \<or> year mod 400 = 0) then 29 else 28)
     else if month \<in> {4, 6, 9, 11} then 30 else 31)"

text \<open>\<^verbatim>\<open>time.Parse\<close> with the layout \<^verbatim>\<open>2006-01-02-150405\<close> on a string of that shape.\<close>

definition parses_as_time :: "string \<Rightarrow> bool" where
  "parses_as_time s =
    (let year = field s 0 4; month = field s 5 2; day = field s 8 2 in
     1 \<le> month \<and> month \<le> 12 \<and> 1 \<le> day \<and> day \<le> days_in month year \<and>
     field s 11 2 < 24 \<and> field s 13 2 < 60 \<and> field s 15 2 < 60)"

definition snapshot_date :: "string \<Rightarrow> string option" where
  "snapshot_date name =
    (let date = (if prefix ''com.apple.TimeMachine.'' name \<and> suffix ''.local'' name
                 then let rest = drop 22 name in (if suffix ''.local'' rest then take (length rest - 6) rest else rest)
                 else name) in
     if snapshot_shape date \<and> parses_as_time date then Some date else None)"

definition docker_char :: "char \<Rightarrow> bool" where
  "docker_char c = (let n = of_char c :: nat in
     97 \<le> n \<and> n \<le> 122 \<or> 65 \<le> n \<and> n \<le> 90 \<or> 48 \<le> n \<and> n \<le> 57 \<or> c \<in> set ''_.-/:@'')"

definition valid_docker_reference :: "string \<Rightarrow> bool" where
  "valid_docker_reference ref =
    (if ref = [] \<or> 512 < length ref \<or> hd ref = CHR ''-'' then False else list_all docker_char ref)"

section \<open>Target keys\<close>

definition native_name :: "native_kind \<Rightarrow> string" where
  "native_name k =
    (case k of RegistryKey \<Rightarrow> ''RegistryKey'' | RegistryValue \<Rightarrow> ''RegistryValue''
     | ScheduledTask \<Rightarrow> ''ScheduledTask'' | SystemExtension \<Rightarrow> ''SystemExtension'' | OtherNative _ \<Rightarrow> [])"

definition snapshot_name :: "string \<Rightarrow> string" where
  "snapshot_name n = (case snapshot_date n of None \<Rightarrow> n | Some date \<Rightarrow> date)"

definition target_key :: "'w rule_env \<Rightarrow> operation \<Rightarrow> string \<Rightarrow> string" where
  "target_key re opn path =
    (case op_kind opn of
       OpDocker \<Rightarrow> ''docker:'' @ op_reference opn
     | OpSnapshot \<Rightarrow> ''snapshot:'' @ snapshot_name (op_name opn)
     | OpBrew \<Rightarrow> ''brew:cleanup''
     | OpNative \<Rightarrow> ''native:'' @ native_name (op_native opn) @ '':'' @ op_identifier opn
     | _ \<Rightarrow> ''path:'' @ rule_norm re path)"

text \<open>What a key stands for.\<close>

datatype target_name = DockerName string | SnapshotName string | BrewName | NativeName string string | PathName string

definition target_name :: "'w rule_env \<Rightarrow> operation \<Rightarrow> string \<Rightarrow> target_name" where
  "target_name re opn path =
    (case op_kind opn of
       OpDocker \<Rightarrow> DockerName (op_reference opn)
     | OpSnapshot \<Rightarrow> SnapshotName (snapshot_name (op_name opn))
     | OpBrew \<Rightarrow> BrewName
     | OpNative \<Rightarrow> NativeName (native_name (op_native opn)) (op_identifier opn)
     | _ \<Rightarrow> PathName (rule_norm re path))"

fun key_of_name :: "target_name \<Rightarrow> string" where
  "key_of_name (DockerName r) = ''docker:'' @ r"
| "key_of_name (SnapshotName n) = ''snapshot:'' @ n"
| "key_of_name BrewName = ''brew:cleanup''"
| "key_of_name (NativeName k i) = ''native:'' @ k @ '':'' @ i"
| "key_of_name (PathName p) = ''path:'' @ p"

lemma target_key_name: "target_key re opn path = key_of_name (target_name re opn path)"
  by (cases "op_kind opn") (simp_all add: target_key_def target_name_def)

lemma native_name_no_colon: "CHR '':'' \<notin> set (native_name k)"
  by (cases k) (auto simp: native_name_def)

lemma split_at_first: "c \<notin> set a \<Longrightarrow> c \<notin> set a' \<Longrightarrow> a @ c # b = a' @ c # b' \<longleftrightarrow> a = a' \<and> b = b'"
proof (induction a arbitrary: a')
  case Nil
  then show ?case by (cases a') auto
next
  case (Cons x a)
  then show ?case by (cases a') auto
qed

text \<open>
  Two targets have the same key exactly when they are the same
  image, the same snapshot date, the same native entry, both the Homebrew cleanup, or paths with
  the same normal form; keys of different kinds never collide.
\<close>

theorem target_key_injective:
  "target_key re opn path = target_key re opn' path' \<longleftrightarrow> target_name re opn path = target_name re opn' path'"
proof -
  have native: "CHR '':'' \<notin> set k" if "target_name re opn path = NativeName k i" for opn path k i
    using that native_name_no_colon by (cases "op_kind opn") (auto simp: target_name_def)
  have inj: "k = k' \<and> i = i'" if "target_name re opn path = NativeName k i" "target_name re opn' path' = NativeName k' i'"
    "k @ CHR '':'' # i = k' @ CHR '':'' # i'" for k k' i i'
    using split_at_first [OF native [OF that(1)] native [OF that(2)]] that(3) by blast
  show ?thesis
    unfolding target_key_name
    by (cases "target_name re opn path"; cases "target_name re opn' path'") (auto dest: inj)
qed

definition is_go_modcache :: "'w rule_env \<Rightarrow> string \<Rightarrow> bool" where
  "is_go_modcache re path = suffix (win ''/go/pkg/mod'') (rule_norm re path)"

definition is_pnpm_store :: "'w rule_env \<Rightarrow> string \<Rightarrow> bool" where
  "is_pnpm_store re path =
    (suffix (win ''/pnpm/store'') (rule_norm re path) \<or> suffix (win ''/.pnpm-store'') (rule_norm re path))"

section \<open>Trash directories\<close>

text \<open>
  The predicates of \<^verbatim>\<open>platform/fileops_*.go\<close>.  On Windows a path is first split as that
  system does, at either separator.
\<close>

definition is_system_trash :: "'w rule_env \<Rightarrow> string \<Rightarrow> bool" where
  "is_system_trash re path =
    (let p = e_policy (re_env re) in
     if goos p = ''windows'' then
       contains_bytes (concat (map (\<lambda>r. utf8_encode (to_lower (e_lower (re_env re)) r)) (runes path))) ''$recycle.bin''
     else if goos p = ''darwin'' then
       (case re_user_home re of None \<Rightarrow> False | Some h \<Rightarrow> path = path_join h ''.Trash'')
     else False)"

definition is_volume_trash :: "'w rule_env \<Rightarrow> string \<Rightarrow> bool" where
  "is_volume_trash re path =
    (\<not> on_windows (re_env re) \<and> path_base (path_dir path) = ''.Trashes'' \<and> path_base path = re_uid re \<and>
     prefix ''/Volumes/'' path)"

definition is_per_drive_trash :: "'w rule_env \<Rightarrow> string \<Rightarrow> bool" where
  "is_per_drive_trash re path =
    (on_windows (re_env re) \<and>
     (case re_sid re of
        None \<Rightarrow> False
      | Some sid \<Rightarrow> equal_fold_literal (path_base (to_slash path)) sid \<and>
          equal_fold_literal (path_base (path_dir (to_slash path))) ''$Recycle.Bin''))"

definition is_trash :: "'w rule_env \<Rightarrow> string \<Rightarrow> bool" where
  "is_trash re path = (is_system_trash re path \<or> is_volume_trash re path \<or> is_per_drive_trash re path)"

end
