(* ===== verification/Plan_Target.thy ===== *)
theory Plan_Target
  imports Plan_Operation
begin

text \<open>
  The targets of a plan (\<^verbatim>\<open>internal/core/plan.go\<close>): what must hold when one is done, what it
  covers, and the evidence the file system gives.  A Go struct whose \<^verbatim>\<open>Kind\<close> says which of
  its fields are set is a datatype with one constructor per kind.
\<close>

record planned_target =
  pt_path :: string
  pt_operation :: operation
  pt_identity :: "target_identity option"
  pt_disposal :: disposal

datatype completion =
    PathAbsent string
  | ContentsEmpty string
  | DockerReferenceAbsent string
  | SnapshotAbsent string
  | BrewPreviewEmpty
  | GoCacheAbsent string
  | PnpmStoreHealthy string
  | TrashInventoryEmpty string
  | WorktreeGone string string
  | RegistrationAbsent string
  | InstallationGone string
  | NoCondition string

definition target_completion :: "planned_target \<Rightarrow> completion" where
  "target_completion t =
    (let p = pt_path t; opn = pt_operation t in
     case op_kind opn of
       OpFile \<Rightarrow> PathAbsent p | OpTree \<Rightarrow> PathAbsent p
     | OpContents \<Rightarrow> ContentsEmpty p
     | OpDocker \<Rightarrow> DockerReferenceAbsent (op_reference opn)
     | OpSnapshot \<Rightarrow> SnapshotAbsent (op_name opn)
     | OpBrew \<Rightarrow> BrewPreviewEmpty
     | OpGo \<Rightarrow> GoCacheAbsent p
     | OpPnpm \<Rightarrow> PnpmStoreHealthy p
     | OpTrash \<Rightarrow> TrashInventoryEmpty p
     | OpGitWorktree \<Rightarrow> WorktreeGone p (op_registration opn)
     | OpNative \<Rightarrow> RegistrationAbsent p | OpRegistration \<Rightarrow> RegistrationAbsent p
     | OpOfficialUninstall \<Rightarrow> InstallationGone p
     | OpUnknown _ \<Rightarrow> NoCondition p)"

datatype target_scope =
    FileScope string
  | OwnedTree string
  | ContentsScope string
  | WorktreeScope string string
  | NativeScope string
  | RegistrationScope string
  | InstallationScope string
  | NoScope string
  | ManifestMember string target_scope

definition scope_of :: "'w rule_env \<Rightarrow> planned_target \<Rightarrow> target_scope" where
  "scope_of re t =
    (let p = pt_path t; opn = pt_operation t in
     case op_kind opn of
       OpFile \<Rightarrow> FileScope p
     | OpTree \<Rightarrow> OwnedTree p
     | OpContents \<Rightarrow> ContentsScope p | OpGo \<Rightarrow> ContentsScope p | OpPnpm \<Rightarrow> ContentsScope p | OpTrash \<Rightarrow> ContentsScope p
     | OpGitWorktree \<Rightarrow> WorktreeScope p (op_registration opn)
     | OpDocker \<Rightarrow> NativeScope (target_key re opn p) | OpSnapshot \<Rightarrow> NativeScope (target_key re opn p)
     | OpBrew \<Rightarrow> NativeScope (target_key re opn p) | OpNative \<Rightarrow> NativeScope (target_key re opn p)
     | OpRegistration \<Rightarrow> RegistrationScope p
     | OpOfficialUninstall \<Rightarrow> InstallationScope p
     | OpUnknown _ \<Rightarrow> NoScope p)"

section \<open>Evidence of the file system\<close>

definition lstat_try :: "'w rule_env \<Rightarrow> string \<Rightarrow> ('w, failure + file_info) act" where
  "lstat_try re path = act_sys (os_lstat (e_os (re_env re)) path)"

definition stat_try :: "'w rule_env \<Rightarrow> string \<Rightarrow> ('w, failure + file_info) act" where
  "stat_try re path = act_sys (os_stat (e_os (re_env re)) path)"

definition filesystem_completion :: "'w rule_env \<Rightarrow> completion \<Rightarrow> ('w, evidence) act" where
  "filesystem_completion re c =
    (case c of
       PathAbsent path \<Rightarrow> act_bind (act_lstat (re_env re) path) (\<lambda>r. act_ret (case r of
           Inl err \<Rightarrow> if err = NotExist then Confirmed else Unknown
         | Inr _ \<Rightarrow> Absent))
     | ContentsEmpty path \<Rightarrow> act_bind (act_lstat (re_env re) path) (\<lambda>r. case r of
           Inl _ \<Rightarrow> act_ret Unknown
         | Inr md \<Rightarrow>
             if fi_link md \<or> \<not> fi_dir md then act_ret Unknown
             else act_bind (capture_identity (re_env re) path) (\<lambda>i.
               if i = None then act_ret Unknown
               else act_bind (act_os (os_read_dir (e_os (re_env re)) path)) (\<lambda>r. act_ret (case r of
                 Inl _ \<Rightarrow> Unknown
               | Inr entries \<Rightarrow> if entries = [] then Confirmed else Absent))))
     | _ \<Rightarrow> act_ret Unknown)"

end
