(* ===== verification/Rule_Ref.thy ===== *)
theory Rule_Ref
  imports Rule_Variables Plan_Target
begin

text \<open>
  Rules as a scan and a cleanup see them: the declarations of \<^verbatim>\<open>rule_types.go\<close> that the
  modelled code reads, version guards (\<^verbatim>\<open>rule_versions.go\<close>), and the captured reference to a
  rule with its revalidation (\<^verbatim>\<open>plan_rule.go\<close>).
\<close>

section \<open>Declarations\<close>

record provider_policy =
  pp_recommended :: bool
  pp_disposal :: disposal

record category_policy =
  ct_safety :: string
  ct_group :: string

record path_rule =
  pa_root :: string
  pa_path :: string
  pa_zh :: string
  pa_en :: string
  pa_category :: string
  pa_recommended :: bool
  pa_operation :: operation_kind
  pa_disposal :: disposal
  pa_minimum_age :: nat

record lock_policy =
  lo_path :: string
  lo_maximum_age :: nat

record download_policy =
  dp_path :: string
  dp_suffixes :: "string list"
  dp_zh :: string
  dp_en :: string
  dp_operation :: operation_kind
  dp_disposal :: disposal
  dp_recommended :: bool

record version_layout =
  vl_id :: string
  vl_root :: string
  vl_platform :: string
  vl_path :: string
  vl_versions :: string
  vl_current :: "string option"
  vl_lock :: "lock_policy option"
  vl_leaf :: "string option"
  vl_prefixes :: "string list"
  vl_exclude :: "string list"
  vl_zh :: string
  vl_en :: string
  vl_category :: string
  vl_operation :: operation_kind
  vl_disposal :: disposal
  vl_recommended :: bool
  vl_downloads :: "download_policy option"

record source_install =
  si_preserve :: "string list"

record rule_definition =
  rd_id :: string
  rd_version :: nat
  rd_platform :: string
  rd_required :: "string list"
  rd_lists :: "(string \<times> string list) list"
  rd_numbers :: "(string \<times> nat) list"
  rd_provider_policies :: "(string \<times> provider_policy) list"
  rd_categories :: "(string \<times> category_policy) list"
  rd_entries :: "path_rule list"
  rd_version_layouts :: "version_layout list"
  rd_app :: "source_install option"
  rd_facts :: "(string \<times> probe) list"
  rd_variables :: variables
  rd_detect :: "condition option"
  rd_preserve :: "string list"

record rule_bundle =
  rb_schema :: nat
  rb_sequence :: nat
  rb_rules :: "rule_definition list"

text \<open>
  A snapshot is known by its address.  \<open>sn_capture\<close> is the snapshot it was captured from, with
  the frozen copy (\<^verbatim>\<open>captureRuleSnapshot\<close>).
\<close>

record rule_snapshot =
  sn_address :: nat
  sn_bundle :: rule_bundle
  sn_capture :: "((nat \<times> rule_bundle) \<times> rule_bundle) option"

definition rule_by_id :: "rule_bundle \<Rightarrow> string \<Rightarrow> rule_definition option" where
  "rule_by_id b i = find (\<lambda>r. rd_id r = i) (rb_rules b)"

definition capture_rule_snapshot :: "nat \<Rightarrow> rule_snapshot \<Rightarrow> rule_snapshot" where
  \<comment> \<open>\<open>new\<close> is the address of the wrapper\<close>
  "capture_rule_snapshot new source =
    (if sn_capture source \<noteq> None then source
     else \<lparr>sn_address = new, sn_bundle = sn_bundle source,
            sn_capture = Some ((sn_address source, sn_bundle source), sn_bundle source)\<rparr>)"

definition rule_list :: "rule_bundle \<Rightarrow> string \<Rightarrow> string \<Rightarrow> string list" where
  "rule_list b i key =
    (case rule_by_id b i of None \<Rightarrow> []
     | Some r \<Rightarrow> (case map_of (rd_lists r) key of None \<Rightarrow> [] | Some l \<Rightarrow> l))"

definition rule_number :: "rule_bundle \<Rightarrow> string \<Rightarrow> string \<Rightarrow> nat \<Rightarrow> nat" where
  "rule_number b i key fallback =
    (case rule_by_id b i of None \<Rightarrow> fallback
     | Some r \<Rightarrow> (case map_of (rd_numbers r) key of None \<Rightarrow> fallback | Some n \<Rightarrow> n))"

definition provider_policy_of :: "rule_bundle \<Rightarrow> string \<Rightarrow> string \<Rightarrow> provider_policy option" where
  "provider_policy_of b i key =
    (case rule_by_id b i of None \<Rightarrow> None | Some r \<Rightarrow> map_of (rd_provider_policies r) key)"

definition category_policy_of :: "rule_bundle \<Rightarrow> string \<Rightarrow> category_policy option" where
  "category_policy_of b key =
    (case rule_by_id b ''engine'' of None \<Rightarrow> None | Some r \<Rightarrow> map_of (rd_categories r) key)"

definition matches_name :: "rule_bundle \<Rightarrow> string \<Rightarrow> string \<Rightarrow> string \<Rightarrow> bool" where
  "matches_name b i policy name =
    (list_ex (\<lambda>v. name = v) (rule_list b i (policy @ ''_exact'')) \<or>
     list_ex (\<lambda>v. prefix v name) (rule_list b i (policy @ ''_prefixes'')) \<or>
     list_ex (\<lambda>v. contains_bytes name v) (rule_list b i (policy @ ''_contains'')) \<or>
     list_ex (\<lambda>v. suffix v name) (rule_list b i (policy @ ''_suffixes'')))"

definition evidence_at :: "'w rule_env \<Rightarrow> rule_definition \<Rightarrow> string \<Rightarrow> ('w, variable_values \<times> facts) act" where
  "evidence_at re d root =
    act_bind (evaluate_rule_variables re (rd_variables d) root) (\<lambda>v.
    act_bind (act_map (\<lambda>(n, p). act_bind (probe_evaluate re p root v) (\<lambda>ev. act_ret (n, ev))) (rd_facts d)) (\<lambda>f.
      act_ret (v, f)))"

definition matches_at :: "'w rule_env \<Rightarrow> rule_definition \<Rightarrow> string \<Rightarrow> ('w, evidence) act" where
  "matches_at re d root =
    (case rd_detect d of None \<Rightarrow> act_ret Confirmed
     | Some c \<Rightarrow> act_bind (evidence_at re d root) (\<lambda>(v, f). act_ret (condition_evaluate c f)))"

section \<open>Version guards\<close>

record version_guard =
  vg_layout :: string
  vg_current :: evidence
  vg_kept :: "string option"
  vg_lock :: evidence
  vg_updating :: bool
  vg_reason :: string

definition bad_version_name :: "string \<Rightarrow> bool" where
  "bad_version_name name =
    (name = ''.'' \<or> name = ''..'' \<or> 128 < length name \<or> trim_space name = [] \<or>
     contains_any [slash, backslash, CHR '':'', CHR 0x00, CHR 0x0D, CHR 0x0A] name)"

text \<open>\<^verbatim>\<open>currentVersionName\<close>; the empty name is an absent pointer.\<close>

definition current_version_name :: "'w rule_env \<Rightarrow> string \<Rightarrow> string \<Rightarrow> string \<Rightarrow> ('w, failure + string) act" where
  "current_version_name re anchor versions pointer =
    (let parent = path_dir pointer in
     act_bind (confined_path re anchor parent) (\<lambda>c.
     if c \<noteq> Inr True then act_msg ''Current parent unavailable''
     else act_bind (act_lstat (re_env re) pointer) (\<lambda>r. case r of
       Inl err \<Rightarrow> if err = NotExist then act_ok [] else act_fail (Os err)
     | Inr md \<Rightarrow>
         if \<not> fi_link md then act_msg ''Current pointer is not a supported link''
         else act_try (act_sys (re_read_link re pointer)) (\<lambda>target0.
           if 8192 < length target0 then act_msg ''Current pointer budget exceeded''
           else act_try (act_sys (re_eval_symlinks re (if prefix ''/'' target0 then target0 else path_join parent target0))) (\<lambda>resolved.
             act_try (act_sys (re_eval_symlinks re versions)) (\<lambda>resolved_versions.
               if rule_norm re (path_dir resolved) \<noteq> rule_norm re resolved_versions
               then act_msg ''Current pointer escapes version inventory''
               else let name = path_base resolved in
                 if bad_version_name name then act_msg ''Invalid current version name''
                 else let candidate = path_join versions name in
                   act_bind (confined_path re anchor candidate) (\<lambda>c.
                   if c \<noteq> Inr True then act_msg ''Current target is not a confined directory''
                   else act_bind (act_lstat (re_env re) candidate) (\<lambda>r. case r of
                     Inl _ \<Rightarrow> act_msg ''Current target is not a confined directory''
                   | Inr md \<Rightarrow>
                       if \<not> fi_dir md \<or> fi_link md then act_msg ''Current target is not a confined directory''
                       else act_ok name))))))))"

text \<open>The age of the update lock: whether it is younger than the limit.\<close>

definition lock_updating :: "'w rule_env \<Rightarrow> lock_policy \<Rightarrow> string \<Rightarrow> ('w, failure + bool) act" where
  "lock_updating re lock path =
    act_try (lstat_try re path) (\<lambda>md.
    act_bind (act_os (os_now (e_os (re_env re)))) (\<lambda>now.
      let age = now - fi_mtime md in
      if age < 0 then act_msg ''Update lock modification is in the future''
      else act_ok (age div 1000000000 < int (lo_maximum_age lock))))"

definition capture_lock :: "'w rule_env \<Rightarrow> lock_policy \<Rightarrow> string \<Rightarrow> string \<Rightarrow> version_guard \<Rightarrow> ('w, version_guard) act" where
  "capture_lock re lock anchor path g =
    (let lost = (\<lambda>f. act_ret (g\<lparr>vg_lock := Unknown, vg_reason := failure_text re f\<rparr>)) in
     act_bind (confined_file re anchor path) (\<lambda>c. case c of
       Inl f \<Rightarrow> lost f
     | Inr False \<Rightarrow> act_bind (act_lstat (re_env re) path) (\<lambda>r. case r of
         Inl err \<Rightarrow> if err = NotExist then act_ret (g\<lparr>vg_lock := Absent\<rparr>) else lost (Os err)
       | Inr _ \<Rightarrow> lost (Msg ''Update lock is not a confined file''))
     | Inr True \<Rightarrow> act_bind (lock_updating re lock path) (\<lambda>r. case r of
         Inl f \<Rightarrow> lost f
       | Inr u \<Rightarrow> act_ret (g\<lparr>vg_updating := u\<rparr>))))"

definition capture_version_guard :: "'w rule_env \<Rightarrow> version_layout \<Rightarrow> string \<Rightarrow> ('w, version_guard) act" where
  "capture_version_guard re layout anchor =
    (let g0 = \<lparr>vg_layout = vl_id layout, vg_current = Confirmed, vg_kept = None, vg_lock = Confirmed,
                vg_updating = False, vg_reason = []\<rparr>;
         base = path_join anchor (to_slash (vl_path layout)) in
     act_bind (case vl_current layout of
         None \<Rightarrow> act_ret g0
       | Some c \<Rightarrow> act_bind (current_version_name re anchor (path_join base (vl_versions layout)) (path_join base c)) (\<lambda>r.
           act_ret (case r of
             Inl f \<Rightarrow> g0\<lparr>vg_current := Unknown, vg_reason := failure_text re f\<rparr>
           | Inr kept \<Rightarrow> if kept = [] then g0\<lparr>vg_current := Absent\<rparr> else g0\<lparr>vg_kept := Some kept\<rparr>))) (\<lambda>g.
     case vl_lock layout of
       None \<Rightarrow> act_ret g
     | Some lock \<Rightarrow> capture_lock re lock anchor (path_join base (lo_path lock)) g))"

definition guard_idle :: "version_guard \<Rightarrow> bool" where
  "guard_idle g = (vg_lock g \<noteq> Unknown \<and> \<not> vg_updating g \<and> vg_current g \<noteq> Unknown)"

definition guard_revalidate :: "'w rule_env \<Rightarrow> version_guard \<Rightarrow> rule_definition \<Rightarrow> string \<Rightarrow> ('w, failure + unit) act" where
  "guard_revalidate re g d anchor =
    (if anchor = [] then act_msg ''Missing version scope''
     else case find (\<lambda>l. vl_id l = vg_layout g) (rd_version_layouts d) of
       None \<Rightarrow> act_msg ''Missing frozen version layout''
     | Some layout \<Rightarrow>
         act_bind (confined_path re anchor (path_join anchor (vl_path layout))) (\<lambda>c.
         if c \<noteq> Inr True then act_msg ''Version root changed or unavailable''
         else act_bind (capture_version_guard re layout anchor) (\<lambda>live.
           if \<not> guard_idle g \<or> \<not> guard_idle live then act_msg ''Version update is active or unknown''
           else if vg_current g \<noteq> vg_current live \<or> vg_kept g \<noteq> vg_kept live
           then act_msg ''Current version changed after scanning''
           else act_ok ())))"

section \<open>References to rules\<close>

record rule_observation =
  ob_rule_id :: string
  ob_version :: nat
  ob_schema :: nat
  ob_sequence :: nat
  ob_scope :: string
  ob_variables :: variable_values
  ob_facts :: facts
  ob_detected :: evidence
  ob_provider_key :: string
  ob_provider_policy :: "provider_policy option"
  ob_version_guard :: "version_guard option"

definition empty_observation :: rule_observation where
  "empty_observation = \<lparr>ob_rule_id = [], ob_version = 0, ob_schema = 0, ob_sequence = 0, ob_scope = [],
     ob_variables = [], ob_facts = [], ob_detected = Unknown, ob_provider_key = [], ob_provider_policy = None,
     ob_version_guard = None\<rparr>"

text \<open>
  \<open>rr_snapshot\<close> is the frozen bundle, \<open>rr_origin\<close> the address and content of the snapshot it was
  taken from.  An observation that was never made has the evidence \<open>Unknown\<close>, which like Go's
  empty string is not \<open>Confirmed\<close>.
\<close>

datatype rule_ref = RuleRef
  (rr_snapshot: "rule_bundle option")
  (rr_origin: "(nat \<times> rule_bundle) option")
  (rr_id: string)
  (rr_scope: string)
  (rr_contributors: "rule_ref list")
  (rr_blocked: string)
  (rr_observation: rule_observation)

definition new_rule_ref :: "'w rule_env \<Rightarrow> rule_snapshot option \<Rightarrow> string \<Rightarrow> string \<Rightarrow> ('w, rule_ref) act" where
  "new_rule_ref re snapshot i scope =
    (case snapshot of
       None \<Rightarrow> act_ret (RuleRef None None i scope [] ''Missing rule snapshot'' empty_observation)
     | Some s \<Rightarrow>
         let (origin, frozen) = (case sn_capture s of Some c \<Rightarrow> c | None \<Rightarrow> ((sn_address s, sn_bundle s), sn_bundle s)) in
         (case rule_by_id frozen i of
            None \<Rightarrow> act_ret (RuleRef (Some frozen) (Some origin) i scope [] (''Unknown rule: '' @ i) empty_observation)
          | Some d \<Rightarrow>
              act_bind (if scope \<noteq> [] then evidence_at re d scope else act_ret ([], [])) (\<lambda>(v, f).
                act_ret (RuleRef (Some frozen) (Some origin) i scope [] []
                  \<lparr>ob_rule_id = i, ob_version = rd_version d, ob_schema = rb_schema (sn_bundle s),
                   ob_sequence = rb_sequence (sn_bundle s), ob_scope = scope, ob_variables = v, ob_facts = f,
                   ob_detected = (case rd_detect d of None \<Rightarrow> Confirmed | Some c \<Rightarrow> condition_evaluate c f),
                   ob_provider_key = [], ob_provider_policy = None, ob_version_guard = None\<rparr>))))"

fun block_ref :: "string \<Rightarrow> rule_ref \<Rightarrow> rule_ref" where
  "block_ref why (RuleRef s og i sc cs _ ob) = RuleRef s og i sc cs why ob"

fun observe_ref :: "(rule_observation \<Rightarrow> rule_observation) \<Rightarrow> rule_ref \<Rightarrow> rule_ref" where
  "observe_ref f (RuleRef s og i sc cs b ob) = RuleRef s og i sc cs b (f ob)"

definition provider_rule_ref :: "'w rule_env \<Rightarrow> rule_snapshot option \<Rightarrow> string \<Rightarrow> string \<Rightarrow> ('w, rule_ref) act" where
  "provider_rule_ref re snapshot i key =
    act_bind (new_rule_ref re snapshot i []) (\<lambda>r. act_ret
      (case rr_snapshot r of None \<Rightarrow> r
       | Some b \<Rightarrow> (case provider_policy_of b i key of
           None \<Rightarrow> block_ref (''Missing provider policy: '' @ i @ ''/'' @ key) r
         | Some p \<Rightarrow> observe_ref (\<lambda>ob. ob\<lparr>ob_provider_key := key, ob_provider_policy := Some p\<rparr>) r)))"

fun blocked_reason :: "rule_ref \<Rightarrow> string" where
  "blocked_reason (RuleRef s og i sc cs b ob) =
    (if b \<noteq> [] then b else case find (\<lambda>r. r \<noteq> []) (map blocked_reason cs) of None \<Rightarrow> [] | Some r \<Rightarrow> r)"

text \<open>\<^verbatim>\<open>reflect.DeepEqual\<close> follows pointers: the addresses do not count.\<close>

fun without_addresses :: "rule_ref \<Rightarrow> rule_ref" where
  "without_addresses (RuleRef s og i sc cs b ob) =
    RuleRef s (map_option (\<lambda>(_, bundle). (0, bundle)) og) i sc (map without_addresses cs) b ob"

definition deep_equal :: "rule_ref \<Rightarrow> rule_ref \<Rightarrow> bool" where
  "deep_equal r other = (without_addresses r = without_addresses other)"

definition merge_ref :: "rule_ref \<Rightarrow> rule_ref \<Rightarrow> rule_ref" where
  "merge_ref r other =
    (if deep_equal r other \<or> list_ex (\<lambda>c. deep_equal c other) (rr_contributors r) then r
     else RuleRef (rr_snapshot r) (rr_origin r) (rr_id r) (rr_scope r) (rr_contributors r @ [other])
       (if map_option fst (rr_origin r) \<noteq> map_option fst (rr_origin other) then ''Mixed rule snapshots'' else rr_blocked r)
       (rr_observation r))"

fun ref_observations :: "rule_ref \<Rightarrow> rule_observation list" where
  "ref_observations (RuleRef s og i sc cs b ob) = ob # concat (map ref_observations cs)"

definition ref_definition :: "rule_bundle option \<Rightarrow> string \<Rightarrow> rule_definition option" where
  "ref_definition s i = (case s of None \<Rightarrow> None | Some b \<Rightarrow> rule_by_id b i)"

definition preserve_templates :: "rule_definition \<Rightarrow> string list" where
  "preserve_templates d = rd_preserve d @ (case rd_app d of None \<Rightarrow> [] | Some a \<Rightarrow> si_preserve a)"

fun declares_preserve :: "rule_ref \<Rightarrow> bool" where
  "declares_preserve (RuleRef s og i sc cs b ob) =
    ((case ref_definition s i of None \<Rightarrow> False | Some d \<Rightarrow> preserve_templates d \<noteq> []) \<or>
     list_ex (\<lambda>x. x) (map declares_preserve cs))"

fun manifest_membership :: "rule_ref \<Rightarrow> bool" where
  "manifest_membership (RuleRef s og i sc cs b ob) =
    ((case ref_definition s i of None \<Rightarrow> False
      | Some d \<Rightarrow> list_ex (\<lambda>(n, v). va_kind v = ''json_set'') (rd_variables d)) \<or>
     list_ex (\<lambda>x. x) (map manifest_membership cs))"

text \<open>A list of steps in turn: all their results, or the first failure.\<close>

fun act_all :: "('w, 'a) act list \<Rightarrow> ('w, 'a list) act" where
  "act_all [] = act_ret []"
| "act_all (m # ms) = act_bind m (\<lambda>a. act_bind (act_all ms) (\<lambda>as. act_ret (a # as)))"

fun act_each :: "('w, 'e + unit) act list \<Rightarrow> ('w, 'e + unit) act" where
  "act_each [] = act_ok ()"
| "act_each (m # ms) = act_try m (\<lambda>_. act_each ms)"

definition expand_preserved :: "string \<Rightarrow> variable_values \<Rightarrow> string list \<Rightarrow> string list" where
  "expand_preserved scope values templates =
    concat (map (\<lambda>t. case expand_rule_paths t values of
        Ret paths \<Rightarrow> map (\<lambda>p. path_join scope (to_slash p)) paths
      | _ \<Rightarrow> [scope]) templates)"

fun preserved :: "'w rule_env \<Rightarrow> bool \<Rightarrow> rule_ref \<Rightarrow> ('w, string list) act" where
  "preserved re live (RuleRef s og i sc cs b ob) =
    act_bind (act_all (map (preserved re live) cs)) (\<lambda>outs.
    let out = concat outs in
    case (if sc = [] then None else ref_definition s i) of
      None \<Rightarrow> act_ret out
    | Some d \<Rightarrow>
        act_bind (if live then evaluate_rule_variables re (rd_variables d) sc else act_ret (ob_variables ob)) (\<lambda>values.
          act_ret (out @ expand_preserved sc values (preserve_templates d))))"

definition check_templates :: "variable_values \<Rightarrow> string list \<Rightarrow> ('w, failure + unit) act" where
  "check_templates values templates =
    act_each (map (\<lambda>t. act_try (act_go (expand_rule_paths t values)) (\<lambda>_. act_ok ())) templates)"

fun revalidate :: "'w rule_env \<Rightarrow> rule_ref \<Rightarrow> ('w, failure + unit) act" where
  "revalidate re (RuleRef s og i sc cs b ob) =
    (if b \<noteq> [] then act_msg b
     else if s = None then act_msg ''Missing snapshot''
     else case ref_definition s i of
       None \<Rightarrow> act_msg ''Unknown rule''
     | Some d \<Rightarrow>
         if ob_detected ob \<noteq> Confirmed then act_msg ''Scan ownership evidence absent or unknown''
         else act_try (act_each (map (revalidate re) cs)) (\<lambda>_.
         act_try (case ob_version_guard ob of None \<Rightarrow> act_ok () | Some g \<Rightarrow> guard_revalidate re g d sc) (\<lambda>_.
         if sc = [] \<and> (rd_variables d \<noteq> [] \<or> rd_detect d \<noteq> None) then act_msg ''Missing evidence scope''
         else act_bind (if rd_detect d = None then act_ret Confirmed else matches_at re d sc) (\<lambda>m.
           if m \<noteq> Confirmed then act_msg ''Ownership evidence changed or unavailable''
           else act_bind (evaluate_rule_variables re (rd_variables d) sc) (\<lambda>values.
             check_templates values (preserve_templates d))))))"

definition authorized_by :: "'w rule_env \<Rightarrow> rule_definition \<Rightarrow> string \<Rightarrow> string \<Rightarrow> variable_values \<Rightarrow> bool" where
  "authorized_by re d scope path values =
    list_ex (\<lambda>entry. case expand_rule_paths (pa_path entry) values of
        Ret paths \<Rightarrow> list_ex (\<lambda>p. rule_norm re (path_join scope (to_slash p)) = rule_norm re path) paths
      | _ \<Rightarrow> False) (rd_entries d)"

fun authorizes :: "'w rule_env \<Rightarrow> string \<Rightarrow> rule_ref \<Rightarrow> ('w, failure + unit) act" where
  "authorizes re path (RuleRef s og i sc cs b ob) =
    act_try (revalidate re (RuleRef s og i sc cs b ob)) (\<lambda>_.
    act_try (act_each (map (authorizes re path) cs)) (\<lambda>_.
      case ref_definition s i of
        None \<Rightarrow> act_stop
      | Some d \<Rightarrow>
          if rd_variables d = [] then act_ok ()
          else if \<not> authorized_by re d sc path (ob_variables ob) then act_msg ''Manifest membership changed or unavailable''
          else act_bind (evaluate_rule_variables re (rd_variables d) sc) (\<lambda>values.
            if \<not> authorized_by re d sc path values then act_msg ''Manifest membership changed or unavailable''
            else act_ok ())))"

end
