(* ===== verification/Installation.thy ===== *)
theory Installation
  imports Rule_Ref
begin

text \<open>
  \<^verbatim>\<open>internal/core/plan_installation.go\<close>: the artifacts of an installation captured at scan
  time, the checks that execution makes against them, and official uninstall commands.
\<close>

section \<open>Artifacts\<close>

record artifact =
  ia_path :: string
  ia_identity :: "target_identity option"

definition capture_artifact :: "'w rule_env \<Rightarrow> string \<Rightarrow> ('w, failure + artifact) act" where
  "capture_artifact re path =
    (let a = \<lparr>ia_path = path, ia_identity = None\<rparr> in
     act_bind (act_lstat (re_env re) path) (\<lambda>r. case r of
       Inl err \<Rightarrow> if err = NotExist then act_ok a else act_fail (Os err)
     | Inr md \<Rightarrow>
         if fi_link md then act_msg ''Redirected installation artifact''
         else act_bind (capture_identity (re_env re) path) (\<lambda>i. case i of
           None \<Rightarrow> act_msg ''Installation artifact identity unavailable''
         | Some x \<Rightarrow>
             if on_windows (re_env re) \<and> id_stable x = None then act_msg ''Installation stable identity unavailable''
             else act_ok (a\<lparr>ia_identity := Some x\<rparr>))))"

definition artifact_unchanged :: "'w rule_env \<Rightarrow> artifact \<Rightarrow> ('w, bool) act" where
  "artifact_unchanged re a =
    (case ia_identity a of
       None \<Rightarrow> act_ret False
     | Some i \<Rightarrow>
         if on_windows (re_env re) then
           act_bind (capture_identity (re_env re) (ia_path a)) (\<lambda>now. act_ret (case now of
             None \<Rightarrow> False
           | Some n \<Rightarrow> id_stable n \<noteq> None \<and> id_stable i \<noteq> None \<and> id_stable n = id_stable i))
         else recheck (re_env re) i (ia_path a))"

section \<open>Installations\<close>

record installation =
  in_root :: string
  in_artifacts :: "artifact list"

definition knows_path :: "'w rule_env \<Rightarrow> installation \<Rightarrow> string \<Rightarrow> bool" where
  "knows_path re i path = list_ex (\<lambda>a. rule_norm re (ia_path a) = rule_norm re path) (in_artifacts i)"

definition capture_next :: "'w rule_env \<Rightarrow> string \<Rightarrow> installation \<Rightarrow> ('w, failure + installation) act" where
  "capture_next re path i =
    act_try (capture_artifact re path) (\<lambda>a.
      act_ok (if knows_path re i path then i else i\<lparr>in_artifacts := in_artifacts i @ [a]\<rparr>))"

fun try_fold :: "('a \<Rightarrow> 's \<Rightarrow> ('w, 'e + 's) act) \<Rightarrow> 'a list \<Rightarrow> 's \<Rightarrow> ('w, 'e + 's) act" where
  "try_fold f [] b = act_ok b"
| "try_fold f (x # xs) b = act_try (f x b) (try_fold f xs)"

definition capture_installation :: "'w rule_env \<Rightarrow> string \<Rightarrow> string list \<Rightarrow> ('w, failure + installation) act" where
  "capture_installation re root paths =
    (if paths = [] \<or> 4096 < length paths then act_msg ''Installation artifact budget invalid''
     else try_fold (capture_next re) paths \<lparr>in_root = root, in_artifacts = []\<rparr>)"

definition revalidate_artifact :: "'w rule_env \<Rightarrow> artifact \<Rightarrow> ('w, failure + unit) act" where
  "revalidate_artifact re a =
    act_bind (act_lstat (re_env re) (ia_path a)) (\<lambda>r.
      if r = Inl NotExist then act_ok ()
      else act_bind (artifact_unchanged re a) (\<lambda>ok.
        if ok then act_ok () else act_msg ''Installation artifact changed, appeared or became unreadable since scan''))"

definition installation_revalidate :: "'w rule_env \<Rightarrow> installation \<Rightarrow> ('w, failure + unit) act" where
  "installation_revalidate re i = act_each (map (revalidate_artifact re) (in_artifacts i))"

definition validate_live_paths :: "'w rule_env \<Rightarrow> installation \<Rightarrow> string \<Rightarrow> string list \<Rightarrow> ('w, failure + unit) act" where
  "validate_live_paths re i root paths =
    (if rule_norm re root \<noteq> rule_norm re (in_root i) then act_msg ''Installation instance changed since scan''
     else if \<not> list_all (knows_path re i) paths then act_msg ''Installation scope expanded since scan''
     else installation_revalidate re i)"

text \<open>
  The loop of \<^verbatim>\<open>ObserveScanPaths\<close> with its error and the receiver it leaves: what was
  appended before the budget was exceeded stays.
\<close>

fun observe_artifacts :: "'w rule_env \<Rightarrow> artifact list \<Rightarrow> installation \<Rightarrow> failure option \<times> installation" where
  "observe_artifacts re [] i = (None, i)"
| "observe_artifacts re (a # as) i =
    (if knows_path re i (ia_path a) then observe_artifacts re as i
     else if length (in_artifacts i) = 4096 then (Some (Msg ''Installation artifact budget exceeded''), i)
     else observe_artifacts re as (i\<lparr>in_artifacts := in_artifacts i @ [a]\<rparr>))"

definition observe_scan_paths :: "'w rule_env \<Rightarrow> string list \<Rightarrow> installation \<Rightarrow> ('w, failure option \<times> installation) act" where
  "observe_scan_paths re paths i =
    (if paths = [] then act_ret (None, i)
     else act_bind (capture_installation re (in_root i) paths) (\<lambda>r. act_ret (case r of
       Inl f \<Rightarrow> (Some f, i)
     | Inr additions \<Rightarrow> observe_artifacts re (in_artifacts additions) i)))"

text \<open>\<^verbatim>\<open>ScannedIdentity\<close>; \<open>Inr None\<close> is an artifact that is gone.\<close>

definition scanned_identity :: "'w rule_env \<Rightarrow> installation \<Rightarrow> string \<Rightarrow> ('w, failure + target_identity option) act" where
  "scanned_identity re i path =
    (case find (\<lambda>a. rule_norm re (ia_path a) = rule_norm re path) (in_artifacts i) of
       None \<Rightarrow> act_msg ''Path is outside the scanned installation evidence''
     | Some a \<Rightarrow> act_bind (act_lstat (re_env re) path) (\<lambda>r.
         if r = Inl NotExist then act_ok None
         else act_bind (artifact_unchanged re a) (\<lambda>ok.
           if ok then act_ok (ia_identity a)
           else act_msg ''Scanned installation artifact changed or is unconfirmed'')))"

section \<open>Official commands\<close>

record uninstaller =
  un_provider :: string
  un_executable :: string
  un_arguments :: "string list"
  un_directory :: string
  un_artifacts :: "string list"

record official_operation =
  of_uninstaller :: uninstaller
  of_evidence :: "artifact list"
  of_directory :: installation

definition capture_evidence :: "'w rule_env \<Rightarrow> string \<Rightarrow> artifact list \<Rightarrow> ('w, failure + artifact list) act" where
  "capture_evidence re path out =
    act_bind (act_lstat (re_env re) path) (\<lambda>r. case r of
      Inl _ \<Rightarrow> act_msg ''Official operation evidence is missing, redirected or not a file''
    | Inr md \<Rightarrow>
        if \<not> fi_regular md \<or> fi_link md then act_msg ''Official operation evidence is missing, redirected or not a file''
        else act_try (capture_artifact re path) (\<lambda>a. act_ok (out @ [a])))"

definition capture_official :: "'w rule_env \<Rightarrow> uninstaller \<Rightarrow> string list \<Rightarrow> ('w, failure + official_operation) act" where
  "capture_official re command evidence =
    act_bind (act_lstat (re_env re) (un_directory command)) (\<lambda>r.
    if (case r of Inl _ \<Rightarrow> True | Inr md \<Rightarrow> \<not> fi_dir md \<or> fi_link md)
    then act_msg ''Official working directory is missing or redirected''
    else act_try (try_fold (capture_evidence re) (un_executable command # evidence) []) (\<lambda>as.
      act_try (capture_installation re (un_directory command) [un_directory command]) (\<lambda>dir.
        act_ok \<lparr>of_uninstaller = command, of_evidence = as, of_directory = dir\<rparr>)))"

definition check_evidence :: "'w rule_env \<Rightarrow> artifact \<Rightarrow> ('w, failure + unit) act" where
  "check_evidence re a = act_bind (artifact_unchanged re a) (\<lambda>ok.
     if ok then act_ok () else act_msg ''Official operation evidence changed or unavailable since scan'')"

definition official_command :: "'w rule_env \<Rightarrow> official_operation \<Rightarrow> ('w, failure + uninstaller) act" where
  "official_command re opn =
    act_try (scanned_identity re (of_directory opn) (un_directory (of_uninstaller opn))) (\<lambda>i.
      if i = None then act_msg ''Official working directory disappeared since scan''
      else act_try (act_each (map (check_evidence re) (of_evidence opn))) (\<lambda>_. act_ok (of_uninstaller opn)))"

section \<open>What an installation covers\<close>

text \<open>Each path once, and never more than 4096 of them.\<close>

definition installation_ok :: "'w rule_env \<Rightarrow> installation \<Rightarrow> bool" where
  "installation_ok re i \<longleftrightarrow> distinct (map (\<lambda>a. rule_norm re (ia_path a)) (in_artifacts i)) \<and> length (in_artifacts i) \<le> 4096"

lemma try_fold_Some:
  "try_fold f (x # xs) b s = (Some (Inr c), s') \<longleftrightarrow>
   (\<exists>b1 s1. f x b s = (Some (Inr b1), s1) \<and> try_fold f xs b1 s1 = (Some (Inr c), s'))"
  by (simp add: act_try_Some)

lemma try_fold_invariant:
  assumes "try_fold f xs b s = (Some (Inr c), s')" "P b"
    "\<And>x b s c s'. x \<in> set xs \<Longrightarrow> P b \<Longrightarrow> f x b s = (Some (Inr c), s') \<Longrightarrow> P c"
  shows "P c"
  using assms
proof (induction xs arbitrary: b s)
  case (Cons x xs)
  then obtain b1 s1 where "f x b s = (Some (Inr b1), s1)" "try_fold f xs b1 s1 = (Some (Inr c), s')"
    unfolding try_fold_Some by blast
  moreover have "P b1" using Cons.prems(3) [of x b s b1 s1] Cons.prems(2) calculation(1) by simp
  ultimately show ?case using Cons.IH [of b1 s1] Cons.prems(3) by (meson list.set_intros(2))
qed simp

lemma try_fold_collects:
  assumes "try_fold f xs b s = (Some (Inr c), s')"
    and adds: "\<And>x b s c s'. f x b s = (Some (Inr c), s') \<Longrightarrow> Q x c"
    and keeps: "\<And>x y b s c s'. Q y b \<Longrightarrow> f x b s = (Some (Inr c), s') \<Longrightarrow> Q y c"
  shows "list_all (\<lambda>x. Q x c) xs"
  using assms(1)
proof (induction xs arbitrary: b s)
  case (Cons x xs)
  then obtain b1 s1 where st: "f x b s = (Some (Inr b1), s1)" "try_fold f xs b1 s1 = (Some (Inr c), s')"
    unfolding try_fold_Some by blast
  have "Q x c" by (rule try_fold_invariant [where P = "Q x", OF st(2) adds [OF st(1)]]) (rule keeps)
  with Cons.IH [OF st(2)] show ?case by simp
qed simp

lemma capture_artifact_path: "capture_artifact re path s = (Some (Inr a), s') \<Longrightarrow> ia_path a = path"
  unfolding capture_artifact_def Let_def
  by (auto elim!: act_bindE split: sum.splits option.splits if_splits)

lemma unknown_path:
  "\<not> knows_path re i path \<Longrightarrow> rule_norm re path \<notin> set (map (\<lambda>a. rule_norm re (ia_path a)) (in_artifacts i))"
  by (auto simp: knows_path_def list_ex_iff)

lemma capture_length:
  "try_fold (capture_next re) paths i s = (Some (Inr j), s') \<Longrightarrow>
   length (in_artifacts j) \<le> length (in_artifacts i) + length paths"
proof (induction paths arbitrary: i s)
  case (Cons p paths)
  then obtain i1 s1 where st: "capture_next re p i s = (Some (Inr i1), s1)"
    "try_fold (capture_next re) paths i1 s1 = (Some (Inr j), s')"
    unfolding try_fold_Some by blast
  have "length (in_artifacts i1) \<le> Suc (length (in_artifacts i))"
    using st(1) by (auto simp: capture_next_def act_try_Some)
  with Cons.IH [OF st(2)] show ?case by simp
qed simp

lemma distinct_artifact:
  "distinct (map (\<lambda>a. rule_norm re (ia_path a)) (in_artifacts i)) \<Longrightarrow> \<not> knows_path re i (ia_path a) \<Longrightarrow>
   distinct (map (\<lambda>a. rule_norm re (ia_path a)) (in_artifacts i @ [a]))"
  using unknown_path [of re i "ia_path a"] by simp

lemma capture_next_cases:
  assumes "capture_next re p i s = (Some (Inr j), s')"
  obtains "knows_path re i p" "j = i"
  | a where "\<not> knows_path re i (ia_path a)" "ia_path a = p" "j = i\<lparr>in_artifacts := in_artifacts i @ [a]\<rparr>"
proof -
  obtain a s1 where "capture_artifact re p s = (Some (Inr a), s1)"
    "j = (if knows_path re i p then i else i\<lparr>in_artifacts := in_artifacts i @ [a]\<rparr>)"
    using assms by (auto simp: capture_next_def act_try_Some)
  with capture_artifact_path that show ?thesis by (metis (full_types))
qed

lemma capture_installation_ok:
  assumes "capture_installation re root paths s = (Some (Inr i), s')"
  shows "installation_ok re i \<and> in_root i = root"
proof -
  have len: "length paths \<le> 4096" and
    f: "try_fold (capture_next re) paths \<lparr>in_root = root, in_artifacts = []\<rparr> s = (Some (Inr i), s')"
    using assms by (auto simp: capture_installation_def split: if_splits)
  have "distinct (map (\<lambda>a. rule_norm re (ia_path a)) (in_artifacts i)) \<and> in_root i = root"
  proof (rule try_fold_invariant [OF f])
    fix x b s c s'
    assume "distinct (map (\<lambda>a. rule_norm re (ia_path a)) (in_artifacts b)) \<and> in_root b = root"
      and "capture_next re x b s = (Some (Inr c), s')"
    then show "distinct (map (\<lambda>a. rule_norm re (ia_path a)) (in_artifacts c)) \<and> in_root c = root"
      by (elim capture_next_cases) (auto dest: distinct_artifact simp del: distinct_map map_append)
  qed simp
  with capture_length [OF f] len show ?thesis by (simp add: installation_ok_def)
qed

lemma capture_knows:
  assumes "capture_installation re root paths s = (Some (Inr i), s')"
  shows "list_all (knows_path re i) paths"
proof -
  have f: "try_fold (capture_next re) paths \<lparr>in_root = root, in_artifacts = []\<rparr> s = (Some (Inr i), s')"
    using assms by (auto simp: capture_installation_def split: if_splits)
  show ?thesis
    by (rule try_fold_collects [OF f]) (auto elim!: capture_next_cases simp: knows_path_def)
qed

lemma observe_artifacts_ok:
  assumes "observe_artifacts re as i = (err, j)" "installation_ok re i"
  shows "installation_ok re j \<and> prefix (in_artifacts i) (in_artifacts j) \<and>
    (err = None \<longrightarrow> list_all (\<lambda>a. knows_path re j (ia_path a)) as)"
  using assms
proof (induction as arbitrary: i)
  case (Cons a as)
  have knows: "knows_path re j (ia_path a)" if "knows_path re k (ia_path a)" "prefix (in_artifacts k) (in_artifacts j)" for k
    using that set_mono_prefix [OF that(2)] by (auto simp: knows_path_def list_ex_iff)
  consider "knows_path re i (ia_path a)" "observe_artifacts re as i = (err, j)"
    | "err \<noteq> None" "j = i"
    | k where "k = i\<lparr>in_artifacts := in_artifacts i @ [a]\<rparr>" "\<not> knows_path re i (ia_path a)" "length (in_artifacts i) \<noteq> 4096"
      "observe_artifacts re as k = (err, j)"
    using Cons.prems(1) by (auto split: if_splits)
  then show ?case
  proof cases
    case 1
    with Cons.IH [OF 1(2) Cons.prems(2)] knows show ?thesis by auto
  next
    case 2
    with Cons.prems(2) show ?thesis by auto
  next
    case (3 k)
    have "installation_ok re k"
      using 3 Cons.prems(2) distinct_artifact [of re i a] by (auto simp: installation_ok_def simp del: distinct_map map_append)
    moreover have "knows_path re k (ia_path a)" "prefix (in_artifacts i) (in_artifacts k)"
      using 3(1) by (auto simp: knows_path_def)
    ultimately show ?thesis using Cons.IH [OF 3(4)] knows [of k] by (auto intro: prefix_order.trans)
  qed
qed simp

text \<open>
  Property C37: captured artifacts are different paths and number at most
  4096, and adding the paths of a scan keeps both and loses no artifact, also when it stops with an
  error; without an error every path of the scan is among them.
\<close>

theorem observe_scan_paths_ok:
  assumes "observe_scan_paths re paths i s = (Some (err, j), s')" "installation_ok re i"
  shows "installation_ok re j \<and> prefix (in_artifacts i) (in_artifacts j) \<and> (err = None \<longrightarrow> list_all (knows_path re j) paths)"
proof -
  consider "paths = []" "j = i" | "err \<noteq> None" "j = i"
    | k s1 where "capture_installation re (in_root i) paths s = (Some (Inr k), s1)" "observe_artifacts re (in_artifacts k) i = (err, j)"
    using assms(1) by (auto simp: observe_scan_paths_def elim!: act_bindE split: if_splits sum.splits)
  then show ?thesis
  proof cases
    case (3 k s1)
    have "knows_path re j p" if "knows_path re k p" "err = None" for p
      using that observe_artifacts_ok [OF 3(2) assms(2)] by (auto simp: knows_path_def list_ex_iff list_all_iff) metis
    with observe_artifacts_ok [OF 3(2) assms(2)] capture_knows [OF 3(1)] show ?thesis by (simp add: list_all_iff)
  qed (use assms(2) in auto)
qed

end
