(* ===== verification/Plan.thy ===== *)
theory Plan
  imports Installation Cleaner_Safety
begin

text \<open>
  \<^verbatim>\<open>internal/core/plan.go\<close>: a cleanup plan, its steps and the validation that precedes every
  execution.
\<close>

section \<open>Plans\<close>

record cleanup_plan =
  cp_rule :: rule_ref
  cp_targets :: "planned_target list"
  cp_preserve :: "string list"
  cp_blocked :: "string list"
  cp_installation :: "installation option"
  cp_official :: "official_operation option"

definition new_cleanup_plan :: "'w rule_env \<Rightarrow> rule_ref \<Rightarrow> planned_target list \<Rightarrow> ('w, cleanup_plan) act" where
  "new_cleanup_plan re rule targets =
    act_bind (preserved re False rule) (\<lambda>keep. act_ret
      \<lparr>cp_rule = rule, cp_targets = targets, cp_preserve = keep,
       cp_blocked = map (\<lambda>ob. ''Scan ownership evidence absent or unknown: '' @ ob_rule_id ob)
         (filter (\<lambda>ob. ob_detected ob \<noteq> Confirmed) (ref_observations rule)),
       cp_installation = None, cp_official = None\<rparr>)"

definition plan_scope :: "'w rule_env \<Rightarrow> cleanup_plan \<Rightarrow> int \<Rightarrow> target_scope option" where
  "plan_scope re p index =
    (if index < 0 \<or> int (length (cp_targets p)) \<le> index then None
     else let t = cp_targets p ! nat index; sc = scope_of re t in
       Some (if manifest_membership (cp_rule p) \<and> \<not> is_native_resource (pt_operation t)
             then ManifestMember (pt_path t) sc else sc))"

section \<open>Steps\<close>

datatype source_action = SourceRevalidate | OfficialOperation | SupplementCleanup | VerifyCompletion
  | RemoveRecoveryRecords | OtherSource string

datatype plan_action = Revalidate | Apply operation | Verify "completion option" | UnregisterWorktree string
  | SourceLifecycle source_action | OtherAction string

record plan_step =
  sp_id :: nat
  sp_target :: nat
  sp_depends :: "nat list"
  sp_action :: plan_action

definition source_steps :: "plan_action list" where
  "source_steps = map SourceLifecycle
     [SourceRevalidate, OfficialOperation, SupplementCleanup, VerifyCompletion, RemoveRecoveryRecords]"

definition has_source_install :: "cleanup_plan \<Rightarrow> bool" where
  "has_source_install p =
    (case ref_definition (rr_snapshot (cp_rule p)) (rr_id (cp_rule p)) of
       None \<Rightarrow> False | Some d \<Rightarrow> rd_app d \<noteq> None)"

definition target_actions :: "cleanup_plan \<Rightarrow> planned_target \<Rightarrow> plan_action list" where
  "target_actions p t =
    (let opn = pt_operation t in
     if op_kind opn = OpOfficialUninstall \<and> has_source_install p then source_steps
     else [Revalidate, Apply opn] @
       (if op_kind opn = OpGitWorktree
        then [Verify (Some (PathAbsent (pt_path t))), UnregisterWorktree (op_registration opn)] else []) @
       [Verify (Some (target_completion t))])"

definition append_steps :: "cleanup_plan \<Rightarrow> nat \<times> planned_target \<Rightarrow> plan_step list \<Rightarrow> plan_step list" where
  "append_steps p it steps =
    (case it of (i, t) \<Rightarrow>
      let first = length steps; actions = target_actions p t in
      steps @ map (\<lambda>k. \<lparr>sp_id = first + k, sp_target = i, sp_depends = (if k = 0 then [] else [first + k - 1]),
                        sp_action = actions ! k\<rparr>) [0..<length actions])"

definition plan_steps :: "cleanup_plan \<Rightarrow> plan_step list" where
  "plan_steps p = fold (append_steps p) (zip [0..<length (cp_targets p)] (cp_targets p)) []"

section \<open>Validation\<close>

text \<open>The two loops over the preserved paths.\<close>

definition check_preserved :: "'w rule_env \<Rightarrow> string list \<Rightarrow> string \<Rightarrow> ('w, failure + unit) act" where
  "check_preserved re keep path =
    (let n = rule_norm re path in
     case find (\<lambda>k. at_or_under n (rule_norm re k)) keep of
       Some k \<Rightarrow> act_msg (''Target is inside a preserved path: '' @ k)
     | None \<Rightarrow> (case find (\<lambda>k. at_or_under (rule_norm re k) n) keep of
         Some k \<Rightarrow> act_msg (''Target covers a preserved path: '' @ k)
       | None \<Rightarrow> act_ok ()))"

definition check_filesystem_target :: "'w rule_env \<Rightarrow> string list \<Rightarrow> planned_target \<Rightarrow> ('w, failure + unit) act" where
  "check_filesystem_target re keep t =
    act_bind (is_protected (re_env re) (pt_path t)) (\<lambda>prot0.
    act_bind (if op_kind (pt_operation t) = OpContents then is_contents_protected (re_env re) (pt_path t) else act_ret prot0) (\<lambda>prot.
    if prot then act_msg ''Protected target''
    else case pt_identity t of
      None \<Rightarrow> act_msg ''Missing target identity''
    | Some i \<Rightarrow> act_bind (recheck (re_env re) i (pt_path t)) (\<lambda>ok.
        if \<not> ok then act_msg ''Target identity changed or unavailable''
        else check_preserved re keep (pt_path t))))"

definition check_target :: "'w rule_env \<Rightarrow> cleanup_plan \<Rightarrow> string list \<Rightarrow> planned_target list \<Rightarrow> planned_target \<Rightarrow> ('w, failure + unit) act" where
  "check_target re p keep earlier t =
    act_try (authorizes re (pt_path t) (cp_rule p)) (\<lambda>_.
    act_try (if is_filesystem_backed (pt_operation t) then check_filesystem_target re keep t else act_ok ()) (\<lambda>_.
      if list_ex (\<lambda>u. rule_norm re (pt_path t) = rule_norm re (pt_path u) \<and> pt_operation t \<noteq> pt_operation u) earlier
      then act_msg ''Conflicting target operations'' else act_ok ()))"

definition plan_validate :: "'w rule_env \<Rightarrow> cleanup_plan \<Rightarrow> ('w, failure + unit) act" where
  "plan_validate re p =
    act_try (revalidate re (cp_rule p)) (\<lambda>_.
      if cp_blocked p \<noteq> [] then act_msg (hd (cp_blocked p))
      else act_try (case cp_installation p of None \<Rightarrow> act_ok () | Some i \<Rightarrow> installation_revalidate re i) (\<lambda>_.
      act_try (case cp_official p of None \<Rightarrow> act_ok ()
               | Some opn \<Rightarrow> act_try (official_command re opn) (\<lambda>_. act_ok ())) (\<lambda>_.
      act_bind (preserved re True (cp_rule p)) (\<lambda>live.
        act_each (map (\<lambda>i. check_target re p (cp_preserve p @ live) (take i (cp_targets p)) (cp_targets p ! i))
          [0..<length (cp_targets p)])))))"

definition binding_matches :: "'w rule_env \<Rightarrow> string \<Rightarrow> operation \<Rightarrow> disposal \<Rightarrow> target_identity option \<Rightarrow> planned_target \<Rightarrow> bool" where
  "binding_matches re path opn d i t =
    (target_key re (pt_operation t) (pt_path t) = target_key re opn path \<and> pt_operation t = opn \<and>
     pt_disposal t = d \<and> pt_identity t = i)"

definition validate_binding ::
  "'w rule_env \<Rightarrow> cleanup_plan \<Rightarrow> string \<Rightarrow> operation \<Rightarrow> disposal \<Rightarrow> target_identity option \<Rightarrow> ('w, failure + unit) act" where
  "validate_binding re p path opn d i =
    (if list_ex (binding_matches re path opn d i) (cp_targets p) then plan_validate re p
     else act_msg ''Selection does not match the scanned plan'')"

section \<open>What validation establishes\<close>

text \<open>
  A successful validation as the chain of states it went through: each relation names the state it
  starts from and the one it ends in, and says what was seen of the disk on the way.
\<close>

definition target_separated :: "'w rule_env \<Rightarrow> string list \<Rightarrow> string \<Rightarrow> bool" where
  "target_separated re keep path \<longleftrightarrow>
    list_all (\<lambda>k. \<not> at_or_under (rule_norm re path) (rule_norm re k) \<and>
                  \<not> at_or_under (rule_norm re k) (rule_norm re path)) keep"

definition target_allowed :: "'w rule_env \<Rightarrow> string list \<Rightarrow> planned_target \<Rightarrow> bool" where
  "target_allowed re keep t \<longleftrightarrow>
    pt_identity t \<noteq> None \<and>
    \<not> lexically_protected (re_env re) (pt_path t) (op_kind (pt_operation t) = OpContents) \<and>
    target_separated re keep (pt_path t)"

text \<open>The two looks at protection; for contents only the second one counts.\<close>

definition found_unprotected :: "'w rule_env \<Rightarrow> planned_target \<Rightarrow> 'w pst \<Rightarrow> 'w pst \<Rightarrow> bool" where
  "found_unprotected re t s s' \<longleftrightarrow>
    (if op_kind (pt_operation t) = OpContents then
       \<exists>b s1. is_protected (re_env re) (pt_path t) s = (Some b, s1) \<and>
         is_contents_protected (re_env re) (pt_path t) s1 = (Some False, s') \<and>
         free_seen (re_env re) (pt_path t) True (ps_world s1)
     else is_protected (re_env re) (pt_path t) s = (Some False, s') \<and>
       free_seen (re_env re) (pt_path t) False (ps_world s))"

definition target_passed ::
  "'w rule_env \<Rightarrow> rule_ref \<Rightarrow> string list \<Rightarrow> planned_target list \<Rightarrow> planned_target \<Rightarrow> 'w pst \<Rightarrow> 'w pst \<Rightarrow> bool" where
  "target_passed re rule keep earlier t s s' \<longleftrightarrow>
    (\<exists>s1. authorizes re (pt_path t) rule s = (Some (Inr ()), s1) \<and>
      (if is_filesystem_backed (pt_operation t) then
         \<exists>i s2. found_unprotected re t s1 s2 \<and> pt_identity t = Some i \<and>
           recheck (re_env re) i (pt_path t) s2 = (Some True, s') \<and>
           identity_seen (re_env re) i (pt_path t) (ps_world s2) \<and> target_separated re keep (pt_path t)
       else s' = s1)) \<and>
    list_all (\<lambda>u. rule_norm re (pt_path u) = rule_norm re (pt_path t) \<longrightarrow> pt_operation u = pt_operation t) earlier"

fun targets_passed ::
  "'w rule_env \<Rightarrow> rule_ref \<Rightarrow> string list \<Rightarrow> planned_target list \<Rightarrow> planned_target list \<Rightarrow> 'w pst \<Rightarrow> 'w pst \<Rightarrow> bool" where
  "targets_passed re rule keep earlier [] s s' \<longleftrightarrow> s' = s"
| "targets_passed re rule keep earlier (t # ts) s s' \<longleftrightarrow>
    (\<exists>s1. target_passed re rule keep earlier t s s1 \<and> targets_passed re rule keep (earlier @ [t]) ts s1 s')"

definition plan_checked :: "'w rule_env \<Rightarrow> cleanup_plan \<Rightarrow> 'w pst \<Rightarrow> 'w pst \<Rightarrow> bool" where
  "plan_checked re p s s' \<longleftrightarrow>
    (\<exists>s1 s2 s3 s4 live.
      revalidate re (cp_rule p) s = (Some (Inr ()), s1) \<and> cp_blocked p = [] \<and>
      (case cp_installation p of None \<Rightarrow> s2 = s1 | Some i \<Rightarrow> installation_revalidate re i s1 = (Some (Inr ()), s2)) \<and>
      (case cp_official p of None \<Rightarrow> s3 = s2 | Some opn \<Rightarrow> \<exists>c. official_command re opn s2 = (Some (Inr c), s3)) \<and>
      preserved re True (cp_rule p) s3 = (Some live, s4) \<and>
      targets_passed re (cp_rule p) (cp_preserve p @ live) [] (cp_targets p) s4 s')"

lemma find_NoneD: "find P xs = None \<Longrightarrow> list_all (\<lambda>x. \<not> P x) xs"
  by (simp add: find_None_iff list_all_iff)

lemma check_preserved_Some:
  "check_preserved re keep path s = (Some (Inr ()), s') \<Longrightarrow> target_separated re keep path \<and> s' = s"
  by (auto simp: check_preserved_def Let_def target_separated_def list_all_iff act_ok_def
    dest!: find_NoneD split: option.splits)

lemma check_filesystem_target_Some:
  assumes "check_filesystem_target re keep t s = (Some (Inr ()), s')"
  shows "\<exists>i s2. found_unprotected re t s s2 \<and> pt_identity t = Some i \<and>
    recheck (re_env re) i (pt_path t) s2 = (Some True, s') \<and>
    identity_seen (re_env re) i (pt_path t) (ps_world s2) \<and> target_separated re keep (pt_path t)"
proof -
  obtain prot0 s1 s2 i s3 where
    p0: "is_protected (re_env re) (pt_path t) s = (Some prot0, s1)" and
    p: "(if op_kind (pt_operation t) = OpContents then is_contents_protected (re_env re) (pt_path t) else act_ret prot0) s1
        = (Some False, s2)" and
    i: "pt_identity t = Some i" "recheck (re_env re) i (pt_path t) s2 = (Some True, s3)" and
    keep: "check_preserved re keep (pt_path t) s3 = (Some (Inr ()), s')"
    using assms unfolding check_filesystem_target_def
    by (auto elim!: act_bindE split: if_splits option.splits)
  have "found_unprotected re t s s2"
    using p0 p is_protected_free [of "re_env re" "pt_path t"]
    unfolding found_unprotected_def is_protected_def is_contents_protected_def by (fastforce split: if_splits)
  with i recheck_seen [OF i(2)] check_preserved_Some [OF keep] show ?thesis by auto
qed

lemma check_target_Some:
  assumes "check_target re p keep earlier t s = (Some (Inr ()), s')"
  shows "target_passed re (cp_rule p) keep earlier t s s'"
proof -
  obtain s1 s2 where a: "authorizes re (pt_path t) (cp_rule p) s = (Some (Inr ()), s1)"
    and c: "(if is_filesystem_backed (pt_operation t) then check_filesystem_target re keep t else act_ok ()) s1 = (Some (Inr ()), s2)"
    and e: "\<not> list_ex (\<lambda>u. rule_norm re (pt_path t) = rule_norm re (pt_path u) \<and> pt_operation t \<noteq> pt_operation u) earlier" "s' = s2"
    using assms unfolding check_target_def by (auto elim!: act_tryE split: if_splits)
  have "list_all (\<lambda>u. rule_norm re (pt_path u) = rule_norm re (pt_path t) \<longrightarrow> pt_operation u = pt_operation t) earlier"
    using e(1) by (auto simp: list_all_iff list_ex_iff)
  with a c e(2) check_filesystem_target_Some show ?thesis
    unfolding target_passed_def by (cases "is_filesystem_backed (pt_operation t)") auto
qed

lemma check_targets_Some:
  assumes "act_each (map (\<lambda>i. check_target re p keep (take i xs) (xs ! i)) [k..<length xs]) s = (Some (Inr ()), s')" "k \<le> length xs"
  shows "targets_passed re (cp_rule p) keep (take k xs) (drop k xs) s s'"
  using assms
proof (induction "length xs - k" arbitrary: k s)
  case 0
  then show ?case by simp
next
  case (Suc n)
  then have k: "k < length xs" by simp
  then obtain s1 where "check_target re p keep (take k xs) (xs ! k) s = (Some (Inr ()), s1)"
    "act_each (map (\<lambda>i. check_target re p keep (take i xs) (xs ! i)) [Suc k..<length xs]) s1 = (Some (Inr ()), s')"
    using Suc.prems(1) by (auto simp: upt_conv_Cons act_try_Some)
  with Suc.hyps(1) [of "Suc k" s1] Suc.hyps(2) k show ?case
    by (auto simp: Cons_nth_drop_Suc [symmetric] take_Suc_conv_app_nth dest: check_target_Some)
qed

lemma plan_validate_checked:
  assumes "plan_validate re p s = (Some (Inr ()), s')"
  shows "plan_checked re p s s'"
proof -
  obtain s1 s2 s3 s4 live where
    "revalidate re (cp_rule p) s = (Some (Inr ()), s1)" "cp_blocked p = []" and
    i: "(case cp_installation p of None \<Rightarrow> act_ok () | Some i \<Rightarrow> installation_revalidate re i) s1 = (Some (Inr ()), s2)" and
    c: "(case cp_official p of None \<Rightarrow> act_ok () | Some opn \<Rightarrow> act_try (official_command re opn) (\<lambda>_. act_ok ())) s2 = (Some (Inr ()), s3)"
    and "preserved re True (cp_rule p) s3 = (Some live, s4)" and
    each: "act_each (map (\<lambda>i. check_target re p (cp_preserve p @ live) (take i (cp_targets p)) (cp_targets p ! i))
      [0..<length (cp_targets p)]) s4 = (Some (Inr ()), s')"
    using assms unfolding plan_validate_def by (auto elim!: act_bindE act_tryE split: if_splits)
  moreover have "case cp_installation p of None \<Rightarrow> s2 = s1 | Some i \<Rightarrow> installation_revalidate re i s1 = (Some (Inr ()), s2)"
    using i by (auto simp: act_ok_def split: option.splits)
  moreover have "case cp_official p of None \<Rightarrow> s3 = s2 | Some opn \<Rightarrow> \<exists>c. official_command re opn s2 = (Some (Inr c), s3)"
    using c by (auto simp: act_ok_def act_try_Some split: option.splits)
  ultimately show ?thesis
    using check_targets_Some [OF each] unfolding plan_checked_def by auto
qed

lemma targets_passed_member:
  "targets_passed re rule keep earlier ts s s' \<Longrightarrow> t \<in> set ts \<Longrightarrow> \<exists>e u u'. target_passed re rule keep e t u u'"
  by (induction ts arbitrary: earlier s) auto

lemma target_passed_allowed:
  assumes "target_passed re rule keep e t u u'" "is_filesystem_backed (pt_operation t)"
  shows "target_allowed re keep t"
  using assms unfolding target_passed_def target_allowed_def found_unprotected_def free_seen_def
  by (cases "op_kind (pt_operation t) = OpContents") auto

lemma plan_validate_targets:
  assumes "plan_validate re p s = (Some (Inr ()), s')" "t \<in> set (cp_targets p)" "is_filesystem_backed (pt_operation t)"
  shows "\<exists>live. target_allowed re (cp_preserve p @ live) t"
  using plan_validate_checked [OF assms(1)] target_passed_allowed [OF _ assms(3)] targets_passed_member [OF _ assms(2)]
  unfolding plan_checked_def by blast

text \<open>
  After a successful validation every target of the plan
  that lies on the file system has an identity captured by the scan, is not protected (for a
  cleared directory: its contents are not), and neither lies within a preserved path nor contains
  one.
\<close>

theorem validated_targets_allowed:
  assumes "plan_validate re p s = (Some (Inr ()), s')"
  shows "list_all (target_allowed re (cp_preserve p)) (filter (\<lambda>t. is_filesystem_backed (pt_operation t)) (cp_targets p))"
  using plan_validate_targets [OF assms] by (fastforce simp: list_all_iff target_allowed_def target_separated_def)

text \<open>A plan with steps numbered in order, each depending on the one before it in its target.\<close>

lemma append_steps_ids:
  "map sp_id steps = [0..<length steps] \<Longrightarrow> map sp_id (append_steps p it steps) = [0..<length (append_steps p it steps)]"
  by (cases it) (auto simp: append_steps_def Let_def intro!: nth_equalityI simp: nth_append)

end
