(* ===== verification/Worktrees.thy ===== *)
theory Worktrees
  imports Plan_Target
begin

text \<open>
  \<^verbatim>\<open>internal/core/worktrees.go\<close>: a linked Git worktree is recognised by its marker, its
  administrative directory and the link back, checked before it is removed, and unregistered by
  Git itself.
\<close>

section \<open>Reading a registration\<close>

record worktree_registration =
  wr_admin :: string
  wr_common :: string
  wr_target :: string
  wr_backlink :: string

definition trim_newlines :: "string \<Rightarrow> string" where
  "trim_newlines s = rev (dropWhile (\<lambda>c. c = CHR 0x0D \<or> c = CHR 0x0A) (rev s))"

definition worktree_text :: "'w rule_env \<Rightarrow> string \<Rightarrow> ('w, failure + string) act" where
  "worktree_text re path =
    act_try (lstat_try re path) (\<lambda>md.
      if \<not> fi_regular md \<or> fi_link md \<or> 8192 < fi_length md then act_msg ''Invalid worktree metadata''
      else act_try (act_sys (re_read_file re path 8193)) (\<lambda>b.
        if 8192 < length b \<or> \<not> utf8_valid b then act_msg ''Invalid worktree metadata encoding or size''
        else act_ok (trim_newlines b)))"

definition local_drive :: "string \<Rightarrow> bool" where
  \<comment> \<open>\<^verbatim>\<open>len(filepath.VolumeName(path)) == 2\<close> on Windows\<close>
  "local_drive path = (2 \<le> length path \<and> path ! 1 = CHR '':'')"

definition canonical_worktree_path :: "'w rule_env \<Rightarrow> string \<Rightarrow> ('w, failure + string) act" where
  "canonical_worktree_path re path =
    (if on_windows (re_env re) \<and> (\<not> local_drive path \<or> prefix [backslash, backslash] path)
     then act_msg ''Worktree must be on a local drive''
     else act_try (act_sys (re_eval_symlinks re path)) (\<lambda>p. act_sys (re_abs re p)))"

definition resolve_worktree_path :: "'w rule_env \<Rightarrow> string \<Rightarrow> string \<Rightarrow> ('w, failure + string) act" where
  "resolve_worktree_path re base v =
    (if v = [] \<or> contains_any [CHR 0x0D, CHR 0x0A, CHR 0x00] v then act_msg ''Invalid worktree path''
     else canonical_worktree_path re (if prefix ''/'' v then v else path_join base v))"

definition is_regular :: "'w rule_env \<Rightarrow> string \<Rightarrow> ('w, bool) act" where
  "is_regular re path =
    act_bind (stat_try re path) (\<lambda>r. act_ret (case r of Inl _ \<Rightarrow> False | Inr md \<Rightarrow> fi_regular md))"

definition registration_matches ::
  "'w rule_env \<Rightarrow> string \<Rightarrow> string \<Rightarrow> string \<Rightarrow> failure + string \<Rightarrow> ('w, bool) act" where
  "registration_matches re admin common marker back =
    (case back of
       Inl _ \<Rightarrow> act_ret False
     | Inr resolved \<Rightarrow>
         if rule_norm re (path_dir admin) \<noteq> rule_norm re (path_join common ''worktrees'') \<or>
            rule_norm re resolved \<noteq> rule_norm re marker then act_ret False
         else act_bind (is_regular re (path_join common ''HEAD'')) (\<lambda>h.
           if \<not> h then act_ret False else is_regular re (path_join admin ''HEAD'')))"

definition inspect_worktree :: "'w rule_env \<Rightarrow> string \<Rightarrow> ('w, failure + worktree_registration) act" where
  "inspect_worktree re path =
    act_try (canonical_worktree_path re path) (\<lambda>target.
    let marker = path_join target ''.git'' in
    act_try (worktree_text re marker) (\<lambda>text.
      if \<not> prefix ''gitdir: '' text then act_msg ''Not a linked worktree''
      else act_try (resolve_worktree_path re target (drop 8 text)) (\<lambda>admin.
        act_try (worktree_text re (path_join admin ''commondir'')) (\<lambda>common_text.
        act_try (resolve_worktree_path re admin common_text) (\<lambda>common.
        act_try (worktree_text re (path_join admin ''gitdir'')) (\<lambda>backlink.
        act_bind (resolve_worktree_path re admin backlink) (\<lambda>back.
        act_bind (registration_matches re admin common marker back) (\<lambda>ok.
          if \<not> ok then act_msg ''Worktree registration mismatch''
          else act_ok \<lparr>wr_admin = admin, wr_common = common, wr_target = target, wr_backlink = backlink\<rparr>))))))))"

section \<open>Discovery\<close>

text \<open>
  \<^verbatim>\<open>DiscoverWorktrees\<close>: depth three, with a budget for directories and entries.  The
  entries of a directory are taken as one list.
\<close>

fun discover :: "'w rule_env \<Rightarrow> nat \<Rightarrow> string \<Rightarrow> nat \<times> string list \<Rightarrow> ('w, nat \<times> string list) act" where
  "discover re depth path (budget, found) =
    (if budget = 0 then act_ret (budget, found)
     else act_bind (act_lstat (re_env re) path) (\<lambda>r. case r of
       Inl _ \<Rightarrow> act_ret (budget - 1, found)
     | Inr md \<Rightarrow>
         if \<not> fi_dir md \<or> fi_link md then act_ret (budget - 1, found)
         else act_bind (act_lstat (re_env re) (path_join path ''.git'')) (\<lambda>r. case r of
           Inr _ \<Rightarrow> act_bind (inspect_worktree re path) (\<lambda>w. act_ret (budget - 1, case w of
               Inl _ \<Rightarrow> found | Inr _ \<Rightarrow> found @ [path]))
         | Inl err \<Rightarrow>
             if err \<noteq> NotExist then act_ret (budget - 1, found)
             else (case depth of
               0 \<Rightarrow> act_ret (budget - 1, found)
             | Suc d \<Rightarrow> act_bind (act_os (os_read_dir (e_os (re_env re)) path)) (\<lambda>r. case r of
                 Inl _ \<Rightarrow> act_ret (budget - 1, found)
               | Inr entries \<Rightarrow>
                   act_fold (\<lambda>c (b, fs).
                       if b = 0 then act_ret (b, fs)
                       else if de_dir c then discover re d (path_join path (de_name c)) (b - 1, fs)
                       else act_ret (b - 1, fs))
                     entries (budget - 1, found))))))"

definition discover_worktrees :: "'w rule_env \<Rightarrow> string \<Rightarrow> ('w, string list) act" where
  "discover_worktrees re container =
    act_bind (discover re 3 container (4096, [])) (\<lambda>(b, found). act_ret found)"

section \<open>Readiness\<close>

definition run_tool :: "'w rule_env \<Rightarrow> string \<Rightarrow> string list \<Rightarrow> nat \<Rightarrow> ('w, tool_result option) act" where
  "run_tool re program args secs = act_event (\<lambda>_. RunTool program args) (re_run_tool re program args secs)"

definition worktree_git :: "'w rule_env \<Rightarrow> string \<Rightarrow> string list \<Rightarrow> nat \<Rightarrow> ('w, tool_result option) act" where
  "worktree_git re common args secs =
    run_tool re ''git'' ([''--no-optional-locks'', ''-c'', ''core.fsmonitor=false'', ''--git-dir'', common] @ args) secs"

text \<open>\<^verbatim>\<open>filepath.Ext\<close>.\<close>

definition path_ext :: "string \<Rightarrow> string" where
  "path_ext s =
    (let tail = takeWhile (\<lambda>c. c \<noteq> slash) (rev s) in
     if CHR ''.'' \<in> set tail then rev (takeWhile (\<lambda>c. c \<noteq> CHR ''.'') tail @ [CHR ''.'']) else [])"

text \<open>
  \<^verbatim>\<open>worktreeMetadataRemovable\<close>.  Every call takes one from the budget, so the recursion is
  never deeper than the budget; \<open>k\<close> is a bound at least as large.
\<close>

fun metadata_removable :: "nat \<Rightarrow> 'w rule_env \<Rightarrow> string \<Rightarrow> nat \<Rightarrow> ('w, bool \<times> nat) act" where
  "metadata_removable 0 re path budget = act_ret (False, budget)"
| "metadata_removable (Suc k) re path budget =
    (if budget = 0 then act_ret (False, budget)
     else act_bind (is_protected (re_env re) path) (\<lambda>prot.
       if prot then act_ret (False, budget)
       else act_bind (act_lstat (re_env re) path) (\<lambda>r. case r of
         Inl _ \<Rightarrow> act_ret (False, budget - 1)
       | Inr md \<Rightarrow>
           if fi_link md then act_ret (False, budget - 1)
           else if fi_regular md then act_ret (path_ext path \<noteq> ''.lock'', budget - 1)
           else if \<not> fi_dir md then act_ret (False, budget - 1)
           else act_bind (act_os (os_read_dir (e_os (re_env re)) path)) (\<lambda>r. case r of
             Inl _ \<Rightarrow> act_ret (False, budget - 1)
           | Inr entries \<Rightarrow>
               act_fold (\<lambda>c (ok, b).
                   if \<not> ok then act_ret (ok, b)
                   else metadata_removable k re (path_join path (de_name c)) b)
                 entries (True, budget - 1)))))"

definition worktree_metadata_removable :: "'w rule_env \<Rightarrow> string \<Rightarrow> nat \<Rightarrow> ('w, bool) act" where
  "worktree_metadata_removable re path budget =
    act_bind (metadata_removable budget re path budget) (\<lambda>(ok, b). act_ret ok)"

definition lstat_missing :: "'w rule_env \<Rightarrow> string \<Rightarrow> ('w, bool) act" where
  "lstat_missing re path = act_bind (act_lstat (re_env re) path) (\<lambda>r. act_ret (r = Inl NotExist))"

definition submodule_entry :: "string \<Rightarrow> bool" where
  "submodule_entry item = prefix ''160000 '' item"

text \<open>\<^verbatim>\<open>CheckReady\<close>; \<open>None\<close> is its empty reason.\<close>

definition check_ready :: "'w rule_env \<Rightarrow> worktree_registration \<Rightarrow> ('w, fail_reason option) act" where
  "check_ready re w =
    act_bind (is_managed_agent_worktree (re_env re) (wr_target w)) (\<lambda>managed.
    if managed then act_ret (Some FailWorktreeManaged)
    else act_bind (act_lstat (re_env re) (path_join (wr_admin w) ''locked'')) (\<lambda>lock.
    if lock \<noteq> Inl NotExist then act_ret (Some (case lock of Inr _ \<Rightarrow> FailWorktreeLocked | Inl _ \<Rightarrow> FailWorktreeUnverified))
    else act_bind (inspect_worktree re (wr_target w)) (\<lambda>current.
    act_bind (is_protected (re_env re) (wr_target w)) (\<lambda>prot.
    act_bind (if prot then act_ret False else worktree_metadata_removable re (wr_admin w) 1024) (\<lambda>removable.
    if \<not> removable \<or> current \<noteq> Inr w then act_ret (Some FailWorktreeUnverified)
    else act_bind (lstat_missing re (path_join (wr_admin w) ''locked'')) (\<lambda>unlocked.
    if \<not> unlocked then act_ret (Some FailWorktreeUnverified)
    else act_bind (worktree_git re (wr_admin w)
        [''--work-tree'', wr_target w, ''status'', ''--porcelain'', ''--untracked-files=all'', ''--ignored'', ''--ignore-submodules=none''] 10)
      (\<lambda>status. case status of
        None \<Rightarrow> act_ret (Some FailWorktreeUnverified)
      | Some st \<Rightarrow>
          if \<not> tr_ok st then act_ret (Some FailWorktreeUnverified)
          else if tr_stdout st \<noteq> [] then act_ret (Some FailWorktreeDirty)
          else act_bind (worktree_git re (wr_admin w) [''ls-files'', ''--stage'', ''-z''] 10) (\<lambda>index. act_ret (case index of
            None \<Rightarrow> Some FailWorktreeUnverified
          | Some ix \<Rightarrow>
              if \<not> tr_ok ix \<or> list_ex submodule_entry (split_on (CHR 0x00) (tr_stdout ix))
              then Some FailWorktreeUnverified else None)))))))))"

section \<open>Unregistering\<close>

definition unregister_worktree :: "'w rule_env \<Rightarrow> worktree_registration \<Rightarrow> ('w, failure + unit) act" where
  "unregister_worktree re w =
    act_bind (lstat_missing re (wr_target w)) (\<lambda>gone.
    if \<not> gone then act_msg ''Worktree checkout still present or unverified''
    else act_bind (worktree_text re (path_join (wr_admin w) ''gitdir'')) (\<lambda>backlink.
    act_bind (worktree_text re (path_join (wr_admin w) ''commondir'')) (\<lambda>common_text.
    act_bind (resolve_worktree_path re (wr_admin w) (case common_text of Inl _ \<Rightarrow> [] | Inr s \<Rightarrow> s)) (\<lambda>common.
    act_bind (worktree_metadata_removable re (wr_admin w) 1024) (\<lambda>removable.
    if \<not> removable \<or> backlink \<noteq> Inr (wr_backlink w) \<or> isl common_text \<or> common \<noteq> Inr (wr_common w)
    then act_msg ''Exact worktree registration could not be revalidated''
    else act_bind (worktree_git re (wr_common w) [''worktree'', ''remove'', ''--'', wr_target w] 30) (\<lambda>r. case r of
        None \<Rightarrow> act_msg ''Exact worktree unregister unavailable or timed out''
      | Some run \<Rightarrow>
          if \<not> tr_ok run then act_msg (''Exact worktree unregister failed: '' @ trim_space (tr_stderr run))
          else act_ok ()))))))"

definition worktree_completion :: "'w rule_env \<Rightarrow> worktree_registration \<Rightarrow> ('w, evidence) act" where
  "worktree_completion re w =
    act_bind (filesystem_completion re (PathAbsent (wr_target w))) (\<lambda>checkout.
    act_bind (filesystem_completion re (PathAbsent (wr_admin w))) (\<lambda>registration.
      act_ret (if checkout = Confirmed \<and> registration = Confirmed then Confirmed
        else if checkout = Unknown \<or> registration = Unknown then Unknown else Absent)))"

end
