(* ===== verification/Plan_Flow.thy ===== *)
theory Plan_Flow
  imports Plan Worktrees
begin

text \<open>
  \<^verbatim>\<open>internal/core/plan_flow.go\<close>: one executor runs the steps of a target; what differs
  between files, owners' tools, worktrees and registered uninstallers is a \<^verbatim>\<open>planExecutor\<close>.
\<close>

section \<open>Executors\<close>

datatype spot_check = SpotClear | SpotBusy | SpotUnknown

text \<open>
  The interface \<^verbatim>\<open>planExecutor\<close>; \<open>'x\<close> is the state an executor keeps between its calls.
\<close>

record ('w, 'x) capability =
  cap_supports :: "planned_target \<Rightarrow> bool"
  cap_occupancy :: bool
  cap_prepare :: "planned_target \<Rightarrow> 'x \<Rightarrow> ('w, (failure + string) \<times> 'x) act"
  cap_effective :: "'x \<Rightarrow> plan_action \<Rightarrow> planned_target \<Rightarrow> plan_action"
  cap_apply :: "planned_target \<Rightarrow> 'x \<Rightarrow> ('w, clean_report \<times> 'x) act"
  cap_verify :: "completion \<Rightarrow> 'x \<Rightarrow> ('w, evidence) act"
  cap_failure :: "'x \<Rightarrow> string"
  cap_unregister :: "planned_target \<Rightarrow> string \<Rightarrow> 'x \<Rightarrow> ('w, failure + unit) act"
  cap_source :: "source_action \<Rightarrow> 'x \<Rightarrow> ('w, failure + unit) act"

datatype step_status = StepSucceeded | StepFailed | StepBlocked | StepUnknown | StepCancelled

record step_result =
  sr_step :: plan_step
  sr_status :: step_status
  sr_reason :: string

record plan_execution =
  pe_rule_id :: string
  pe_version :: nat
  pe_schema :: nat
  pe_sequence :: nat
  pe_target :: int
  pe_steps :: "step_result list"

text \<open>A report with the executions that produced it (\<^verbatim>\<open>PlanExecutions\<close>).\<close>

record flow_report =
  fr_report :: clean_report
  fr_executions :: "plan_execution list"

definition report_incomplete :: "clean_report \<Rightarrow> bool" where
  "report_incomplete r = (FailedItems r \<noteq> [] \<or> SkippedItems r \<noteq> [] \<or> Manual r \<noteq> [])"

section \<open>The executor of a target\<close>

text \<open>What the steps of a target share: a failed dependency, the report, the executor's state.\<close>

record 'x run =
  rn_failed :: bool
  rn_report :: clean_report
  rn_state :: 'x
  rn_results :: "step_result list"

definition validate_target ::
  "'w rule_env \<Rightarrow> operation \<Rightarrow> string \<Rightarrow> bool \<Rightarrow> ('w, bool) act" where
  "validate_target re opn path remove_dir =
    (if op_kind opn = OpNative then
       act_ret ((case op_native opn of OtherNative _ \<Rightarrow> False | _ \<Rightarrow> True) \<and> op_identifier opn \<noteq> [])
     else if is_native_resource opn then
       act_ret (if \<not> is_virtual_path path then False
         else (case op_kind opn of
             OpDocker \<Rightarrow> valid_docker_reference (op_reference opn)
           | OpBrew \<Rightarrow> True
           | OpSnapshot \<Rightarrow> snapshot_date (op_name opn) \<noteq> None
           | _ \<Rightarrow> False))
     else if is_virtual_path path then act_ret False
     else if op_kind opn = OpGo then act_ret (is_go_modcache re path)
     else if op_kind opn = OpPnpm then act_ret (is_pnpm_store re path)
     else if op_kind opn = OpTrash then act_ret (is_trash re path)
     else if is_go_modcache re path \<or> is_pnpm_store re path \<or> is_trash re path then act_ret False
     else act_bind (act_lstat (re_env re) path) (\<lambda>r. case r of
       Inl _ \<Rightarrow> act_ret False
     | Inr md \<Rightarrow>
         if fi_link md then act_ret False
         else (case op_kind opn of
           OpFile \<Rightarrow> act_ret (remove_dir \<and> fi_regular md)
         | OpTree \<Rightarrow> act_bind (is_regular re (path_join path ''.git'')) (\<lambda>git.
             act_ret (remove_dir \<and> fi_dir md \<and> \<not> git))
         | OpGitWorktree \<Rightarrow> act_bind (inspect_worktree re path) (\<lambda>w. act_ret (case w of
             Inl _ \<Rightarrow> False
           | Inr entry \<Rightarrow> remove_dir \<and> rule_norm re (wr_admin entry) = rule_norm re (op_registration opn)))
         | OpContents \<Rightarrow> act_ret (\<not> remove_dir \<and> fi_dir md)
         | _ \<Rightarrow> act_ret False)))"

definition for_scanned_path :: "'w rule_env \<Rightarrow> operation \<Rightarrow> string \<Rightarrow> ('w, operation) act" where
  "for_scanned_path re opn path =
    act_bind (act_lstat (re_env re) path) (\<lambda>r.
    if (case r of Inl _ \<Rightarrow> False | Inr md \<Rightarrow> fi_regular md) \<and> (op_kind opn = OpTree \<or> op_kind opn = OpContents)
    then act_ret (plain_operation OpFile)
    else act_bind (act_lstat (re_env re) (path_join path ''.git'')) (\<lambda>g.
      if op_kind opn = OpTree \<and> (case g of Inl _ \<Rightarrow> False | Inr md \<Rightarrow> fi_regular md)
      then act_bind (inspect_worktree re path) (\<lambda>w. act_ret ((plain_operation OpGitWorktree)
        \<lparr>op_registration := (case w of Inl _ \<Rightarrow> path_join path ''.git'' | Inr entry \<Rightarrow> wr_admin entry)\<rparr>))
      else act_ret opn))"

definition run_revalidate ::
  "'w rule_env \<Rightarrow> ('w, 'x) capability \<Rightarrow> cleanup_plan \<Rightarrow> planned_target \<Rightarrow> spot_check \<Rightarrow> 'x \<Rightarrow>
     ('w, (step_status \<times> string) \<times> 'x) act" where
  "run_revalidate re cap plan t occupancy x =
    act_bind (if \<not> cap_supports cap t then act_ret False
              else if op_kind (pt_operation t) = OpOfficialUninstall then act_ret True
              else validate_target re (pt_operation t) (pt_path t) (op_kind (pt_operation t) \<noteq> OpContents)) (\<lambda>supported.
    if cap_occupancy cap \<and> occupancy \<noteq> SpotClear then
      act_ret ((if occupancy = SpotUnknown then StepUnknown else StepBlocked, ''Target occupancy is busy or unconfirmed''), x)
    else if \<not> supported then act_ret ((StepBlocked, ''Operation requires its native capability executor''), x)
    else act_bind (plan_validate re plan) (\<lambda>v. case v of
      Inl f \<Rightarrow> act_ret ((StepBlocked, failure_text re f), x)
    | Inr _ \<Rightarrow> act_bind (cap_prepare cap t x) (\<lambda>(r, x'). act_ret (case r of
        Inl f \<Rightarrow> ((StepBlocked, failure_text re f), x')
      | Inr note \<Rightarrow> ((StepSucceeded, note), x')))))"

definition apply_status :: "('w, 'x) capability \<Rightarrow> 'x \<Rightarrow> clean_report \<Rightarrow> step_status \<times> string" where
  "apply_status cap x r =
    (if FailedItems r \<noteq> [] then
       (StepFailed, if cap_failure cap x = [] then ''Cleanup reported a failure'' else cap_failure cap x)
     else if SkippedItems r \<noteq> [] \<or> Manual r \<noteq> [] then (StepBlocked, ''Cleanup skipped or requires manual action'')
     else (StepSucceeded, []))"

definition verify_status :: "evidence \<Rightarrow> step_status \<times> string" where
  "verify_status e =
    (case e of Confirmed \<Rightarrow> (StepSucceeded, [])
     | Absent \<Rightarrow> (StepFailed, ''Cleanup completion condition is not met'')
     | Unknown \<Rightarrow> (StepUnknown, ''Cleanup completion could not be confirmed''))"

definition run_source ::
  "'w rule_env \<Rightarrow> ('w, 'x) capability \<Rightarrow> cleanup_plan \<Rightarrow> planned_target \<Rightarrow> source_action \<Rightarrow> 'x \<Rightarrow>
     ('w, step_status \<times> string) act" where
  "run_source re cap plan t a x =
    act_bind (if a \<noteq> SourceRevalidate then act_ok ()
              else if \<not> cap_supports cap t then act_msg ''Unsupported source operation''
              else if cp_installation plan = None then act_msg ''Missing captured installation instance''
              else plan_validate re plan) (\<lambda>v. case v of
      Inl f \<Rightarrow> act_ret (StepBlocked, failure_text re f)
    | Inr _ \<Rightarrow> act_bind (cap_source cap a x) (\<lambda>r. act_ret (case r of
        Inl f \<Rightarrow> (StepFailed, failure_text re f)
      | Inr _ \<Rightarrow> (StepSucceeded, []))))"

definition run_action ::
  "'w rule_env \<Rightarrow> ('w, 'x) capability \<Rightarrow> cleanup_plan \<Rightarrow> planned_target \<Rightarrow> spot_check \<Rightarrow> plan_action \<Rightarrow> 'x run \<Rightarrow>
     ('w, (step_status \<times> string) \<times> 'x run) act" where
  "run_action re cap plan t occupancy a rn =
    (case a of
       Revalidate \<Rightarrow> act_bind (run_revalidate re cap plan t occupancy (rn_state rn)) (\<lambda>(st, x).
         act_ret (st, rn\<lparr>rn_state := x\<rparr>))
     | Apply _ \<Rightarrow> act_bind (cap_apply cap t (rn_state rn)) (\<lambda>(r, x).
         act_ret (apply_status cap x r, rn\<lparr>rn_report := r, rn_state := x\<rparr>))
     | Verify None \<Rightarrow> act_ret ((StepUnknown, ''Missing completion condition''), rn)
     | Verify (Some c) \<Rightarrow> act_bind (cap_verify cap c (rn_state rn)) (\<lambda>ev. act_ret (verify_status ev, rn))
     | UnregisterWorktree reg \<Rightarrow> act_bind (cap_unregister cap t reg (rn_state rn)) (\<lambda>r. act_ret (case r of
         Inl f \<Rightarrow> ((StepFailed, failure_text re f), rn)
       | Inr _ \<Rightarrow> ((StepSucceeded, []), rn)))
     | SourceLifecycle sa \<Rightarrow> act_bind (run_source re cap plan t sa (rn_state rn)) (\<lambda>st. act_ret (st, rn))
     | OtherAction _ \<Rightarrow> act_ret ((StepBlocked, ''Unknown capability action''), rn))"

definition run_step ::
  "'w rule_env \<Rightarrow> ('w, 'x) capability \<Rightarrow> cleanup_plan \<Rightarrow> planned_target \<Rightarrow> spot_check \<Rightarrow> plan_step \<Rightarrow> 'x run \<Rightarrow>
     ('w, 'x run) act" where
  "run_step re cap plan t occupancy step0 rn =
    (let step = step0\<lparr>sp_action := cap_effective cap (rn_state rn) (sp_action step0) t\<rparr>;
         note = (\<lambda>(st, reason) rn'. rn'\<lparr>rn_failed := rn_failed rn' \<or> st \<noteq> StepSucceeded,
           rn_results := rn_results rn' @ [\<lparr>sr_step = step, sr_status = st, sr_reason = reason\<rparr>]\<rparr>) in
     if rn_failed rn then act_ret (note (StepBlocked, ''Dependency did not succeed'') rn)
     else act_bind (act_cancelled (re_env re)) (\<lambda>c.
       if c then act_ret (note (StepCancelled, ''Cancelled before step'') rn)
       else act_bind (run_action re cap plan t occupancy (sp_action step) rn) (\<lambda>(st, rn'). act_ret (note st rn'))))"

fun nat_text :: "nat \<Rightarrow> string" where
  "nat_text n = (if n < 10 then [char_of (48 + n)] else nat_text (n div 10) @ [char_of (48 + n mod 10)])"

definition int_text :: "int \<Rightarrow> string" where
  "int_text i = (if i < 0 then CHR ''-'' # nat_text (nat (- i)) else nat_text (nat i))"

text \<open>A target whose steps did not all succeed is never left without an entry in the report.\<close>

definition settle_report :: "'w rule_env \<Rightarrow> string \<Rightarrow> 'x run \<Rightarrow> ('w, clean_report) act" where
  "settle_report re path rn =
    (let r = rn_report rn in
     if \<not> rn_failed rn \<or> report_incomplete r then act_ret r
     else act_bind (act_cancelled (re_env re)) (\<lambda>c.
       let r0 = r\<lparr>cr_ok := 0\<rparr> in
       if c then act_ret (record_result path CleanSkipped r0)
       else act_bind (act_read (\<lambda>p. reasons p path)) (\<lambda>known.
         act_bind (clean_fail path (case known of None \<Rightarrow> FailUnverified | Some x \<Rightarrow> x)) (\<lambda>res.
           act_ret (record_result path res r0)))))"

definition execute_capability ::
  "'w rule_env \<Rightarrow> ('w, 'x) capability \<Rightarrow> 'x \<Rightarrow> cleanup_plan \<Rightarrow> int \<Rightarrow> spot_check \<Rightarrow> ('w, flow_report) act" where
  "execute_capability re cap x plan index occupancy =
    (if index < 0 \<or> int (length (cp_targets plan)) \<le> index then
       act_ret \<lparr>fr_report = record_target
           \<lparr>cf_path = [], cf_id = ''plan:'' @ rr_id (cp_rule plan) @ '':target:'' @ int_text index\<rparr> CleanFailed empty_report,
         fr_executions = []\<rparr>
     else
       let t = cp_targets plan ! nat index; ob = rr_observation (cp_rule plan) in
       act_bind (act_fold (run_step re cap plan t occupancy)
           (filter (\<lambda>st. int (sp_target st) = index) (plan_steps plan))
           \<lparr>rn_failed = False, rn_report = empty_report, rn_state = x, rn_results = []\<rparr>) (\<lambda>rn.
       act_bind (settle_report re (pt_path t) rn) (\<lambda>r.
         act_ret \<lparr>fr_report = r, fr_executions =
           [\<lparr>pe_rule_id = rr_id (cp_rule plan), pe_version = ob_version ob, pe_schema = ob_schema ob,
             pe_sequence = ob_sequence ob, pe_target = index, pe_steps = rn_results rn\<rparr>]\<rparr>)))"

section \<open>The result of an execution\<close>

definition status_text :: "step_status \<Rightarrow> string" where
  "status_text st = (case st of StepSucceeded \<Rightarrow> ''succeeded'' | StepFailed \<Rightarrow> ''failed'' | StepBlocked \<Rightarrow> ''blocked''
     | StepUnknown \<Rightarrow> ''unknown'' | StepCancelled \<Rightarrow> ''cancelled'')"

definition execution_result :: "flow_report \<Rightarrow> string option" where
  "execution_result fr =
    (let steps = concat (map pe_steps (fr_executions fr)) in
     case find (\<lambda>r. sr_status r \<noteq> StepSucceeded) steps of
       Some r \<Rightarrow> Some (''Capability step '' @ status_text (sr_status r) @ '': '' @ sr_reason r)
     | None \<Rightarrow>
         if steps = [] then Some ''No capability execution was reported''
         else if report_incomplete (fr_report fr) then Some ''Capability reported incomplete cleanup''
         else None)"

end
