(* ===== verification/Plan_Executors.thy ===== *)
theory Plan_Executors
  imports Plan_Flow
begin

text \<open>
  The executors of \<^verbatim>\<open>plan_flow.go\<close> and \<^verbatim>\<open>worktrees.go\<close>, with the owner's tools of
  \<^verbatim>\<open>owner.go\<close>.  \<open>depth\<close> is the bound on the recursion of \<^verbatim>\<open>DeleteTree\<close>.
\<close>

section \<open>Files, trees and contents\<close>

definition filesystem_supports :: "planned_target \<Rightarrow> bool" where
  "filesystem_supports t =
    ((op_kind (pt_operation t) = OpFile \<or> op_kind (pt_operation t) = OpTree \<or> op_kind (pt_operation t) = OpContents) \<and>
     (op_kind (pt_operation t) \<noteq> OpContents \<or> pt_disposal t = Permanent))"

definition filesystem_apply :: "nat \<Rightarrow> 'w rule_env \<Rightarrow> planned_target \<Rightarrow> ('w, clean_report) act" where
  "filesystem_apply depth re t =
    (if op_kind (pt_operation t) = OpContents then clean_dir_contents depth (re_env re) (pt_path t)
     else act_bind (dispose depth (re_env re) (pt_path t) (pt_disposal t)) (\<lambda>res.
       act_ret (record_result (pt_path t) res empty_report)))"

definition filesystem_executor :: "nat \<Rightarrow> 'w rule_env \<Rightarrow> ('w, unit) capability" where
  "filesystem_executor depth re =
    \<lparr>cap_supports = filesystem_supports, cap_occupancy = True,
     cap_prepare = (\<lambda>_ x. act_ret (Inr [], x)), cap_effective = (\<lambda>_ a _. a),
     cap_apply = (\<lambda>t x. act_bind (filesystem_apply depth re t) (\<lambda>r. act_ret (r, x))),
     cap_verify = (\<lambda>c _. filesystem_completion re c), cap_failure = (\<lambda>_. []),
     cap_unregister = (\<lambda>_ _ _. act_msg ''Step requires its worktree capability executor''),
     cap_source = (\<lambda>_ _. act_msg ''Step requires its source capability executor'')\<rparr>"

definition execute_filesystem_plan ::
  "nat \<Rightarrow> 'w rule_env \<Rightarrow> cleanup_plan \<Rightarrow> int \<Rightarrow> spot_check \<Rightarrow> ('w, flow_report) act" where
  "execute_filesystem_plan depth re plan index occupancy =
    execute_capability re (filesystem_executor depth re) () plan index occupancy"

section \<open>Owners\<close>

record prepared_owner =
  po_operation :: operation
  po_target :: string

definition owner_query :: "operation_kind \<Rightarrow> (string \<times> string list) option" where
  "owner_query k = (case k of OpGo \<Rightarrow> Some (''go'', [''env'', ''GOMODCACHE''])
     | OpPnpm \<Rightarrow> Some (''pnpm'', [''store'', ''path'']) | _ \<Rightarrow> None)"

definition owner_matches :: "'w rule_env \<Rightarrow> operation \<Rightarrow> string \<Rightarrow> string \<Rightarrow> bool" where
  "owner_matches re opn target path =
    (let owner = rule_norm re path; selected = rule_norm re target in
     path \<noteq> [] \<and> (owner = selected \<or> op_kind opn = OpPnpm \<and> prefix (selected @ [backslash]) owner))"

definition prepare_owner :: "'w rule_env \<Rightarrow> string \<Rightarrow> operation \<Rightarrow> ('w, prepared_owner option) act" where
  "prepare_owner re target opn =
    (case owner_query (op_kind opn) of
       None \<Rightarrow> act_ret None
     | Some (tool, args) \<Rightarrow> act_bind (run_tool re tool args 5) (\<lambda>r. act_ret (case r of
         None \<Rightarrow> None
       | Some run \<Rightarrow>
           if \<not> tr_ok run \<or> \<not> utf8_valid (tr_stdout run) then None
           else if \<not> owner_matches re opn target (trim_space (tr_stdout run)) then None
           else Some \<lparr>po_operation = opn, po_target = target\<rparr>)))"

definition owner_apply :: "'w rule_env \<Rightarrow> prepared_owner \<Rightarrow> ('w, failure + unit) act" where
  "owner_apply re po =
    (let go = (\<lambda>tool args. act_bind (run_tool re tool args 120) (\<lambda>r. case r of
          None \<Rightarrow> act_msg ''Owner cleanup unavailable or timed out after preparation''
        | Some run \<Rightarrow> if \<not> tr_ok run then act_msg (''Owner cleanup failed: '' @ trim_space (tr_stderr run)) else act_ok ())) in
     case op_kind (po_operation po) of
       OpGo \<Rightarrow> go ''go'' [''clean'', ''-modcache'']
     | OpPnpm \<Rightarrow> go ''pnpm'' [''store'', ''prune'']
     | _ \<Rightarrow> act_msg ''Unsupported owner capability'')"

definition owner_completion :: "'w rule_env \<Rightarrow> prepared_owner \<Rightarrow> ('w, evidence) act" where
  "owner_completion re po =
    (case op_kind (po_operation po) of
       OpGo \<Rightarrow> filesystem_completion re (PathAbsent (po_target po))
     | OpPnpm \<Rightarrow> act_bind (run_tool re ''pnpm'' [''store'', ''status''] 120) (\<lambda>r. act_ret (case r of
         None \<Rightarrow> Unknown | Some run \<Rightarrow> if tr_ok run then Confirmed else Absent))
     | _ \<Rightarrow> act_ret Unknown)"

record owner_state =
  ow_owner :: "prepared_owner option"
  ow_fallback :: bool
  ow_error :: string

definition owner_supports :: "planned_target \<Rightarrow> bool" where
  "owner_supports t =
    ((op_kind (pt_operation t) = OpGo \<or> op_kind (pt_operation t) = OpPnpm) \<and> pt_disposal t = Permanent)"

definition owner_prepare :: "'w rule_env \<Rightarrow> planned_target \<Rightarrow> owner_state \<Rightarrow> ('w, (failure + string) \<times> owner_state) act" where
  "owner_prepare re t x =
    act_bind (prepare_owner re (pt_path t) (pt_operation t)) (\<lambda>po. act_ret
      (Inr (if po = None then ''Owner preflight unavailable or scope mismatched; using authorized contents cleanup'' else []),
       x\<lparr>ow_owner := po, ow_fallback := (po = None)\<rparr>))"

definition owner_effective :: "owner_state \<Rightarrow> plan_action \<Rightarrow> planned_target \<Rightarrow> plan_action" where
  "owner_effective x a t =
    (if \<not> ow_fallback x then a
     else case a of
       Apply _ \<Rightarrow> Apply (plain_operation OpContents)
     | Verify _ \<Rightarrow> Verify (Some (ContentsEmpty (pt_path t)))
     | _ \<Rightarrow> a)"

definition owner_execute :: "nat \<Rightarrow> 'w rule_env \<Rightarrow> planned_target \<Rightarrow> owner_state \<Rightarrow> ('w, clean_report \<times> owner_state) act" where
  "owner_execute depth re t x =
    (let stop = (\<lambda>reason message. act_bind (clean_fail (pt_path t) reason) (\<lambda>res.
           act_ret (record_result (pt_path t) res empty_report, x\<lparr>ow_error := message\<rparr>))) in
     act_bind (root_identity_holds (re_env re) (pt_path t) (pt_identity t)) (\<lambda>same.
     act_bind (if \<not> same then act_ret True else is_protected (re_env re) (pt_path t)) (\<lambda>refuse.
     if refuse then stop FailChanged ''Target identity or protection changed during owner preflight''
     else if ow_fallback x then act_bind (clean_dir_contents depth (re_env re) (pt_path t)) (\<lambda>r. act_ret (r, x))
     else case ow_owner x of
       None \<Rightarrow> act_stop
     | Some po \<Rightarrow> act_bind (owner_apply re po) (\<lambda>r. case r of
         Inl f \<Rightarrow> stop FailOther (failure_text re f)
       | Inr _ \<Rightarrow> act_ret (record_result (pt_path t) CleanOK empty_report, x)))))"

definition owner_verify :: "'w rule_env \<Rightarrow> u64 \<Rightarrow> completion \<Rightarrow> owner_state \<Rightarrow> ('w, evidence) act" where
  "owner_verify re hint c x =
    (if ow_fallback x then filesystem_completion re c
     else case ow_owner x of
       None \<Rightarrow> act_stop
     | Some po \<Rightarrow> act_bind (owner_completion re po) (\<lambda>ev.
         if ev = Confirmed then act_bind (count_file hint) (\<lambda>_. act_ret ev) else act_ret ev))"

definition owner_executor :: "nat \<Rightarrow> 'w rule_env \<Rightarrow> u64 \<Rightarrow> ('w, owner_state) capability" where
  "owner_executor depth re hint =
    \<lparr>cap_supports = owner_supports, cap_occupancy = True, cap_prepare = owner_prepare re, cap_effective = owner_effective,
     cap_apply = owner_execute depth re, cap_verify = owner_verify re hint, cap_failure = ow_error,
     cap_unregister = (\<lambda>_ _ _. act_msg ''Step requires its worktree capability executor''),
     cap_source = (\<lambda>_ _. act_msg ''Step requires its source capability executor'')\<rparr>"

definition execute_owner_plan ::
  "nat \<Rightarrow> 'w rule_env \<Rightarrow> cleanup_plan \<Rightarrow> int \<Rightarrow> spot_check \<Rightarrow> u64 \<Rightarrow> ('w, flow_report) act" where
  "execute_owner_plan depth re plan index occupancy hint =
    execute_capability re (owner_executor depth re hint) \<lparr>ow_owner = None, ow_fallback = False, ow_error = []\<rparr> plan index occupancy"

section \<open>Worktrees\<close>

definition fail_text :: "fail_reason \<Rightarrow> string" where
  "fail_text r = (case r of FailInUse \<Rightarrow> ''in_use'' | FailAccessDenied \<Rightarrow> ''access_denied'' | FailUnverified \<Rightarrow> ''unverified''
     | FailChanged \<Rightarrow> ''changed'' | FailWorktreeDirty \<Rightarrow> ''worktree_dirty'' | FailWorktreeLocked \<Rightarrow> ''worktree_locked''
     | FailWorktreeUnverified \<Rightarrow> ''worktree_unverified'' | FailWorktreeManaged \<Rightarrow> ''worktree_managed'' | FailOther \<Rightarrow> ''other'')"

definition worktree_supports :: "planned_target \<Rightarrow> bool" where
  "worktree_supports t = (op_kind (pt_operation t) = OpGitWorktree \<and> pt_disposal t = Permanent)"

type_synonym worktree_state = "worktree_registration option"

definition worktree_prepare :: "'w rule_env \<Rightarrow> planned_target \<Rightarrow> worktree_state \<Rightarrow> ('w, (failure + string) \<times> worktree_state) act" where
  "worktree_prepare re t x =
    act_bind (inspect_worktree re (pt_path t)) (\<lambda>w.
    act_bind (case w of
        Inl _ \<Rightarrow> act_ret (Some FailWorktreeUnverified)
      | Inr entry \<Rightarrow>
          if rule_norm re (wr_admin entry) = rule_norm re (op_registration (pt_operation t)) then check_ready re entry
          else act_ret (Some FailWorktreeUnverified)) (\<lambda>reason. case reason of
      Some why \<Rightarrow> act_bind (act_progress (\<lambda>p. p\<lparr>reasons := (reasons p)(pt_path t \<mapsto> why)\<rparr>)) (\<lambda>_.
        act_ret (Inl (Msg (''Worktree preflight: '' @ fail_text why)), x))
    | None \<Rightarrow> act_ret (Inr [], case w of Inl _ \<Rightarrow> x | Inr entry \<Rightarrow> Some entry)))"

definition worktree_apply :: "nat \<Rightarrow> 'w rule_env \<Rightarrow> planned_target \<Rightarrow> worktree_state \<Rightarrow> ('w, clean_report \<times> worktree_state) act" where
  "worktree_apply depth re t x =
    act_bind (inspect_worktree re (pt_path t)) (\<lambda>current.
    act_bind (root_identity_holds (re_env re) (pt_path t) (pt_identity t)) (\<lambda>same.
    act_bind (if \<not> same then act_ret True else is_protected (re_env re) (pt_path t)) (\<lambda>refuse.
      if refuse \<or> (case (current, x) of (Inr w, Some e) \<Rightarrow> w \<noteq> e | _ \<Rightarrow> True) then
        act_bind (clean_fail (pt_path t) FailWorktreeUnverified) (\<lambda>res.
          act_ret (record_result (pt_path t) res empty_report, x))
      else act_bind (filesystem_apply depth re t) (\<lambda>r. act_ret (r, x)))))"

definition worktree_unregister :: "'w rule_env \<Rightarrow> planned_target \<Rightarrow> string \<Rightarrow> worktree_state \<Rightarrow> ('w, failure + unit) act" where
  "worktree_unregister re t registration x =
    (case x of
       None \<Rightarrow> act_msg ''Exact worktree registration was not prepared''
     | Some e \<Rightarrow> if wr_admin e \<noteq> registration then act_msg ''Exact worktree registration was not prepared''
                 else unregister_worktree re e)"

definition worktree_verify :: "'w rule_env \<Rightarrow> completion \<Rightarrow> worktree_state \<Rightarrow> ('w, evidence) act" where
  "worktree_verify re c x =
    (case c of
       PathAbsent _ \<Rightarrow> filesystem_completion re c
     | WorktreeGone _ registration \<Rightarrow> (case x of
         None \<Rightarrow> act_ret Unknown
       | Some e \<Rightarrow> if wr_admin e = registration then worktree_completion re e else act_ret Unknown)
     | _ \<Rightarrow> act_ret Unknown)"

definition worktree_executor :: "nat \<Rightarrow> 'w rule_env \<Rightarrow> ('w, worktree_state) capability" where
  "worktree_executor depth re =
    \<lparr>cap_supports = worktree_supports, cap_occupancy = True, cap_prepare = worktree_prepare re, cap_effective = (\<lambda>_ a _. a),
     cap_apply = worktree_apply depth re, cap_verify = worktree_verify re, cap_failure = (\<lambda>_. []),
     cap_unregister = worktree_unregister re,
     cap_source = (\<lambda>_ _. act_msg ''Step requires its source capability executor'')\<rparr>"

definition execute_worktree_plan ::
  "nat \<Rightarrow> 'w rule_env \<Rightarrow> cleanup_plan \<Rightarrow> int \<Rightarrow> spot_check \<Rightarrow> ('w, flow_report) act" where
  "execute_worktree_plan depth re plan index occupancy =
    execute_capability re (worktree_executor depth re) None plan index occupancy"

section \<open>Registered and source uninstallers\<close>

text \<open>The caller supplies what runs and what verifies it.\<close>

definition registered_supports :: "planned_target \<Rightarrow> bool" where
  "registered_supports t = (op_kind (pt_operation t) = OpOfficialUninstall \<and> pt_disposal t = Permanent)"

definition registered_apply :: "'w rule_env \<Rightarrow> ('w, failure + unit) act \<Rightarrow> planned_target \<Rightarrow> string \<Rightarrow> ('w, clean_report \<times> string) act" where
  "registered_apply re run t x =
    act_bind run (\<lambda>r. case r of
      Inl f \<Rightarrow> act_bind (clean_fail (pt_path t) FailOther) (\<lambda>res.
        act_ret (record_result (pt_path t) res empty_report, failure_text re f))
    | Inr _ \<Rightarrow> act_ret (record_result (pt_path t) CleanOK empty_report, x))"

definition registered_executor ::
  "'w rule_env \<Rightarrow> ('w, failure + unit) act \<Rightarrow> (completion \<Rightarrow> ('w, evidence) act) \<Rightarrow> ('w, string) capability" where
  "registered_executor re run verify =
    \<lparr>cap_supports = registered_supports, cap_occupancy = False, cap_prepare = (\<lambda>_ x. act_ret (Inr [], x)),
     cap_effective = (\<lambda>_ a _. a), cap_apply = registered_apply re run, cap_verify = (\<lambda>c _. verify c),
     cap_failure = (\<lambda>x. x), cap_unregister = (\<lambda>_ _ _. act_msg ''Step requires its worktree capability executor''),
     cap_source = (\<lambda>_ _. act_msg ''Step requires its source capability executor'')\<rparr>"

definition execute_registered_plan ::
  "'w rule_env \<Rightarrow> cleanup_plan \<Rightarrow> int \<Rightarrow> ('w, failure + unit) act \<Rightarrow> (completion \<Rightarrow> ('w, evidence) act) \<Rightarrow> ('w, flow_report) act" where
  "execute_registered_plan re plan index run verify =
    execute_capability re (registered_executor re run verify) [] plan index SpotUnknown"

definition source_executor ::
  "nat \<Rightarrow> 'w rule_env \<Rightarrow> bool \<Rightarrow> (source_action \<Rightarrow> ('w, failure + unit) act) \<Rightarrow> ('w, unit) capability" where
  "source_executor depth re lifecycle run = (filesystem_executor depth re)
    \<lparr>cap_supports := (\<lambda>t. lifecycle \<and> registered_supports t), cap_occupancy := False, cap_source := (\<lambda>a _. run a)\<rparr>"

definition execute_source_plan ::
  "nat \<Rightarrow> 'w rule_env \<Rightarrow> cleanup_plan \<Rightarrow> int \<Rightarrow> (source_action \<Rightarrow> ('w, failure + unit) act) \<Rightarrow> ('w, flow_report) act" where
  "execute_source_plan depth re plan index run =
    execute_capability re (source_executor depth re (has_source_install plan) run) () plan index SpotUnknown"

end
