(* ===== verification/Plan_Steps.thy ===== *)
theory Plan_Steps
  imports Plan_Executors
begin

text \<open>
  What the rule engine and the executors do to the state: reading rules, validating plans and
  checking targets only asks questions, and an executor stays within a relation as soon as its own
  operations do.
\<close>

section \<open>Questions only\<close>

context step_relation
begin

lemma steps_try: "steps m \<Longrightarrow> (\<And>a s s'. m s = (Some (Inr a), s') \<Longrightarrow> steps (f a)) \<Longrightarrow> steps (act_try m f)"
  unfolding act_try_def by (rule steps_bind) (auto intro: steps_ret split: sum.splits)

lemma steps_results: "steps (act_fail err)" "steps (act_ok a)" "steps (act_msg m)"
  unfolding act_fail_def act_ok_def act_msg_def by (rule steps_ret)+

lemma steps_sys: "steps (act_sys f)"
  unfolding act_sys_def by (intro steps_bind steps_os steps_case_sum steps_results)

lemma steps_go: "steps (act_go m)"
  unfolding act_go_def by (auto intro: steps_results steps_stop split: go.splits)

lemma steps_all: "(\<And>m. m \<in> set ms \<Longrightarrow> steps m) \<Longrightarrow> steps (act_all ms)"
  by (induction ms) (auto intro!: steps_ret steps_bind)

lemma steps_each: "(\<And>m. m \<in> set ms \<Longrightarrow> steps m) \<Longrightarrow> steps (act_each ms)"
  by (induction ms) (auto intro!: steps_results steps_try)

lemma steps_try_fold: "(\<And>x b. x \<in> set xs \<Longrightarrow> steps (f x b)) \<Longrightarrow> steps (try_fold f xs b)"
  by (induction xs arbitrary: b) (auto intro!: steps_results steps_try)

lemma steps_case_prod: "(\<And>a b. x = (a, b) \<Longrightarrow> steps (f a b)) \<Longrightarrow> steps (case x of (a, b) \<Rightarrow> f a b)"
  by (cases x) auto

lemmas steps_rules = steps_try steps_bind steps_results steps_sys steps_go steps_case_prod steps_intros steps_guards

lemma steps_tries: "steps (lstat_try re path)" "steps (stat_try re path)"
  unfolding lstat_try_def stat_try_def by (rule steps_sys)+

lemma steps_confined_steps: "(\<And>p. steps (lstat p)) \<Longrightarrow> steps (confined_steps lstat fo real ps)"
  by (induction ps arbitrary: real) (auto simp: Let_def intro!: steps_rules)

lemma steps_confined: "steps (confined_path re root target)" "steps (confined_file re root target)"
  unfolding confined_path_def confined_file_def confined_rule_path_def
  by (intro steps_rules steps_confined_steps)+

lemma steps_read_evidence: "steps (read_rule_evidence re path)"
  unfolding read_rule_evidence_def by (intro steps_rules)

lemma steps_probe: "steps (probe_evaluate re p root values)"
  unfolding probe_evaluate_def Let_def
  by (auto intro!: steps_rules steps_confined steps_read_evidence split: go.splits list.splits)

lemma steps_load: "steps (load_document re target dc)"
  unfolding load_document_def Let_def
  by (auto intro!: steps_rules steps_read_evidence split: option.splits)

lemma steps_members: "steps (list_members re root target relative ds out)"
  by (induction ds arbitrary: out) (auto simp: list_member_def Let_def intro!: steps_rules steps_confined)

lemma steps_extract: "steps (extract_value re x root relative target dc)"
  unfolding extract_value_def Let_def
  by (intro steps_rules steps_confined steps_load steps_members)

lemma steps_variables: "steps (evaluate_rule_variables re vars root)"
proof -
  have "steps (resolve_variable re x root vals dc)" for x vals dc
    unfolding resolve_variable_def Let_def
    by (auto intro!: steps_rules steps_confined steps_extract split: go.splits list.splits)
  then show ?thesis
    unfolding evaluate_rule_variables_def
    by (auto intro!: steps_rules steps_fold split: go.splits option.splits prod.splits)
qed

lemma steps_evidence: "steps (evidence_at re d root)" "steps (matches_at re d root)"
  unfolding evidence_at_def matches_at_def
  by (intro steps_rules steps_variables steps_probe)+

lemma steps_guard: "steps (guard_revalidate re g d anchor)"
proof -
  have "steps (current_version_name re a v p)" for a v p
    unfolding current_version_name_def Let_def by (intro steps_rules steps_confined)
  moreover have "steps (capture_lock re l a p g)" for l a p g
    unfolding capture_lock_def lock_updating_def Let_def
    by (auto intro!: steps_rules steps_confined steps_tries split: sum.splits bool.splits)
  ultimately show ?thesis
    unfolding guard_revalidate_def capture_version_guard_def Let_def
    by (intro steps_rules steps_confined)
qed

lemma steps_revalidate: "steps (revalidate re r)"
proof (induction r)
  case (RuleRef s og i sc cs b ob)
  have "steps (check_templates vals ts)" for vals ts
    unfolding check_templates_def by (auto intro!: steps_each steps_rules)
  with RuleRef show ?case
    by (auto intro!: steps_rules steps_each steps_guard steps_evidence steps_variables split: option.splits)
qed

lemma steps_authorizes: "steps (authorizes re path r)"
proof (induction r)
  case (RuleRef s og i sc cs b ob)
  then show ?case
    by (auto simp del: revalidate.simps intro!: steps_rules steps_each steps_revalidate steps_variables split: option.splits)
qed

lemma steps_preserved: "steps (preserved re live r)"
proof (induction r)
  case (RuleRef s og i sc cs b ob)
  then show ?case
    by (auto simp: Let_def intro!: steps_rules steps_all steps_variables split: option.splits)
qed

lemma steps_unchanged: "steps (artifact_unchanged re a)"
  unfolding artifact_unchanged_def by (intro steps_rules)

lemma steps_installation: "steps (installation_revalidate re i)" "steps (scanned_identity re i path)" "steps (official_command re opn)"
  unfolding installation_revalidate_def scanned_identity_def official_command_def revalidate_artifact_def check_evidence_def
  by (auto intro!: steps_rules steps_each steps_unchanged split: option.splits)

lemma steps_check_target: "steps (check_target re p keep earlier t)"
proof -
  have "steps (check_preserved re keep path)" for path
    unfolding check_preserved_def Let_def by (auto intro: steps_results split: option.splits)
  then show ?thesis
    unfolding check_target_def check_filesystem_target_def is_protected_def is_contents_protected_def
    by (intro steps_rules steps_authorizes)
qed

lemma steps_validate: "steps (plan_validate re p)"
  unfolding plan_validate_def
  by (auto intro!: steps_rules steps_revalidate steps_installation steps_preserved steps_each steps_check_target
    split: option.splits)

lemma steps_text: "steps (worktree_text re path)" "steps (canonical_worktree_path re path)" "steps (resolve_worktree_path re base v)"
    "steps (is_regular re path)"
  unfolding worktree_text_def canonical_worktree_path_def resolve_worktree_path_def is_regular_def
  by (auto intro!: steps_rules steps_tries)

lemma steps_inspect: "steps (inspect_worktree re path)"
  unfolding inspect_worktree_def registration_matches_def Let_def
  by (intro steps_rules steps_text)

lemma steps_completion: "steps (filesystem_completion re c)"
  unfolding filesystem_completion_def by (auto intro!: steps_rules split: completion.splits)

lemma steps_validate_target: "steps (validate_target re opn path rd)"
  unfolding validate_target_def
  by (auto intro!: steps_rules steps_text steps_inspect split: operation_kind.splits)

lemma steps_removable: "steps (metadata_removable k re path budget)"
proof (induction k arbitrary: path budget)
  case (Suc k)
  then show ?case
    by (auto simp: is_protected_def intro!: steps_rules steps_fold split: prod.splits)
qed (simp add: steps_ret)

lemma steps_worktree_removable: "steps (worktree_metadata_removable re path budget)"
  unfolding worktree_metadata_removable_def by (intro steps_rules steps_removable)

lemmas steps_questions = steps_validate steps_validate_target steps_inspect steps_completion steps_text steps_worktree_removable

end

end
