(* ===== verification/Plan_Runs.thy ===== *)
theory Plan_Runs
  imports Plan_Steps
begin

text \<open>
  What running the steps of a target guarantees: nothing happens before a successful validation or
  after a failed step, the report and the step results agree, and a result without error means
  that the completion condition was confirmed.
\<close>

section \<open>The steps of a target\<close>

lemma steps_of_blocks:
  "map (\<lambda>st. (sp_target st, sp_action st)) (fold (append_steps p) its steps) =
   map (\<lambda>st. (sp_target st, sp_action st)) steps @ concat (map (\<lambda>(i, t). map (Pair i) (target_actions p t)) its)"
proof (induction its arbitrary: steps)
  case (Cons it its)
  obtain i t where it: "it = (i, t)" by (cases it) auto
  have "map (\<lambda>k. (i, target_actions p t ! k)) [0..<length (target_actions p t)] = map (Pair i) (target_actions p t)"
    by (rule nth_equalityI) auto
  then show ?case using Cons.IH [of "append_steps p it steps"] by (simp add: it append_steps_def Let_def comp_def)
qed simp

lemma filter_pairs: "filter (\<lambda>x. fst x = j) (map (Pair i) xs) = (if i = j then map (Pair i) xs else [])"
  by (induction xs) auto

lemma filter_blocks:
  "filter (\<lambda>x. fst x = j) (concat (map (\<lambda>(i, t). map (Pair i) (f t)) (zip [m..<m + length ts] ts))) =
   (if m \<le> j \<and> j < m + length ts then map (Pair j) (f (ts ! (j - m))) else [])"
proof (induction ts arbitrary: m)
  case (Cons t ts)
  have "zip [m..<m + length (t # ts)] (t # ts) = (m, t) # zip [Suc m..<Suc m + length ts] ts"
    by (simp add: upt_conv_Cons del: upt_Suc)
  then show ?case using Cons.IH [of "Suc m"]
    by (auto simp: filter_pairs nth_Cons' le_Suc_eq not_le less_Suc_eq_le dest: le_antisym)
qed auto

lemma target_steps:
  assumes "0 \<le> index" "index < int (length (cp_targets p))"
  shows "map sp_action (filter (\<lambda>st. int (sp_target st) = index) (plan_steps p)) = target_actions p (cp_targets p ! nat index)"
proof -
  have "map (\<lambda>st. (sp_target st, sp_action st)) (filter (\<lambda>st. int (sp_target st) = index) (plan_steps p)) =
      filter (\<lambda>x. int (fst x) = index) (map (\<lambda>st. (sp_target st, sp_action st)) (plan_steps p))"
    by (simp add: filter_map comp_def)
  also have "(\<lambda>x. int (fst x) = index) = (\<lambda>x :: nat \<times> plan_action. fst x = nat index)"
    using assms(1) by auto
  also have "filter (\<lambda>x. fst x = nat index) (map (\<lambda>st. (sp_target st, sp_action st)) (plan_steps p)) =
      map (Pair (nat index)) (target_actions p (cp_targets p ! nat index))"
    using filter_blocks [of "nat index" "target_actions p" 0 "cp_targets p"] assms
    by (simp add: plan_steps_def steps_of_blocks nat_less_iff)
  finally have "map snd (map (\<lambda>st. (sp_target st, sp_action st)) (filter (\<lambda>st. int (sp_target st) = index) (plan_steps p))) =
      map snd (map (Pair (nat index)) (target_actions p (cp_targets p ! nat index)))"
    by (rule arg_cong)
  then show ?thesis by (simp add: comp_def)
qed

section \<open>Executors within a relation\<close>

locale executor = step_relation R for R :: "'w pst \<Rightarrow> 'w pst \<Rightarrow> bool" +
  fixes cap :: "('w, 'x) capability"
  assumes steps_prepare: "steps (cap_prepare cap t x)"
    and steps_apply: "steps (cap_apply cap t x)"
    and steps_verify: "steps (cap_verify cap c x)"
    and steps_unregister: "steps (cap_unregister cap t reg x)"
    and steps_source: "steps (cap_source cap a x)"
    and steps_fail: "steps (clean_fail path r)"
begin

lemma steps_run_revalidate: "steps (run_revalidate re cap plan t occ x)"
  unfolding run_revalidate_def by (intro steps_rules steps_questions steps_prepare)

lemma steps_run_action: "steps (run_action re cap plan t occ a rn)"
proof -
  have "steps (run_source re cap plan t sa x)" for sa x
    unfolding run_source_def by (intro steps_rules steps_questions steps_source)
  then show ?thesis
    unfolding run_action_def
    by (auto intro!: steps_rules steps_run_revalidate steps_apply steps_verify steps_unregister
      split: plan_action.splits option.splits)
qed

lemma steps_run_step: "steps (run_step re cap plan t occ st rn)"
  unfolding run_step_def Let_def by (intro steps_rules steps_run_action)

lemma steps_settle: "steps (settle_report re path rn)"
  unfolding settle_report_def Let_def by (intro steps_rules steps_fail)

lemma steps_execute: "steps (execute_capability re cap x plan index occ)"
  unfolding execute_capability_def Let_def by (intro steps_rules steps_fold steps_run_step steps_settle)

end

section \<open>Failed runs\<close>

definition run_ok :: "'x run \<Rightarrow> bool" where
  "run_ok rn \<longleftrightarrow> rn_failed rn = list_ex (\<lambda>r. sr_status r \<noteq> StepSucceeded) (rn_results rn) \<and>
     (\<not> rn_failed rn \<longrightarrow> \<not> report_incomplete (rn_report rn))"

text \<open>Statuses up to the first that is no success, and only \<open>StepBlocked\<close> after it.\<close>

definition chained :: "step_status list \<Rightarrow> bool" where
  "chained sts = list_all (\<lambda>st. st = StepBlocked) (tl (dropWhile (\<lambda>st. st = StepSucceeded) sts))"

lemma chained_snoc:
  "chained sts \<Longrightarrow> (list_ex (\<lambda>st. st \<noteq> StepSucceeded) sts \<Longrightarrow> st = StepBlocked) \<Longrightarrow> chained (sts @ [st])"
proof (induction sts)
  case (Cons x sts)
  then show ?case by (cases "x = StepSucceeded") (auto simp: chained_def)
qed (simp add: chained_def)

lemma run_action_results:
  "run_action re cap plan t occ a rn s = (Some (st, rn'), s') \<Longrightarrow>
   rn_results rn' = rn_results rn \<and> rn_failed rn' = rn_failed rn"
  unfolding run_action_def
  by (auto elim!: act_bindE split: plan_action.splits option.splits prod.splits sum.splits)

lemma run_action_report:
  "run_action re cap plan t occ a rn s = (Some (st, rn'), s') \<Longrightarrow> fst st = StepSucceeded \<Longrightarrow>
   \<not> report_incomplete (rn_report rn) \<Longrightarrow> \<not> report_incomplete (rn_report rn')"
  unfolding run_action_def
  by (auto simp: apply_status_def report_incomplete_def elim!: act_bindE
    split: plan_action.splits option.splits prod.splits sum.splits if_splits)

lemma run_step_failed:
  "rn_failed rn \<Longrightarrow> \<exists>r. run_step re cap plan t occ st rn s = (Some (rn\<lparr>rn_failed := True, rn_results := rn_results rn @ [r]\<rparr>), s) \<and>
     sr_status r = StepBlocked"
  by (auto simp: run_step_def Let_def act_ret_def)

lemma run_step_cases:
  assumes "run_step re cap plan t occ st rn s = (Some rn', s')" "\<not> rn_failed rn"
  obtains (cancelled) r where "rn' = rn\<lparr>rn_failed := True, rn_results := rn_results rn @ [r]\<rparr>" "sr_status r = StepCancelled"
  | (ran) sr rn1 s1 r where
      "run_action re cap plan t occ (cap_effective cap (rn_state rn) (sp_action st) t) rn s1 = (Some (sr, rn1), s')"
      "rn' = rn1\<lparr>rn_failed := fst sr \<noteq> StepSucceeded, rn_results := rn_results rn @ [r]\<rparr>" "sr_status r = fst sr"
proof -
  obtain c s1 where c: "act_cancelled (re_env re) s = (Some c, s1)"
    using assms by (auto simp: run_step_def Let_def elim!: act_bindE)
  show ?thesis
  proof (cases c)
    case True
    with assms c show ?thesis by (intro cancelled) (auto simp: run_step_def Let_def act_bind_def)
  next
    case False
    then obtain st1 reason rn1 where ran1: "run_action re cap plan t occ (cap_effective cap (rn_state rn) (sp_action st) t) rn s1 =
        (Some ((st1, reason), rn1), s')" and
      "rn' = rn1\<lparr>rn_failed := rn_failed rn1 \<or> st1 \<noteq> StepSucceeded,
         rn_results := rn_results rn1 @ [\<lparr>sr_step = st\<lparr>sp_action := cap_effective cap (rn_state rn) (sp_action st) t\<rparr>,
           sr_status = st1, sr_reason = reason\<rparr>]\<rparr>"
      using assms c by (auto simp: run_step_def Let_def act_bind_def split: prod.splits option.splits)
    with run_action_results [OF ran1] assms(2) ran [OF ran1] show ?thesis by simp
  qed
qed

lemma act_fold_Cons_iff:
  "act_fold f (x # xs) b s = (Some c, s') \<longleftrightarrow> (\<exists>b1 s1. f x b s = (Some b1, s1) \<and> act_fold f xs b1 s1 = (Some c, s'))"
  by (simp add: act_bind_Some_iff)

lemma act_fold_invariant:
  assumes "act_fold f xs b s = (Some c, s')" "P b" "\<And>x b s c s'. x \<in> set xs \<Longrightarrow> P b \<Longrightarrow> f x b s = (Some c, s') \<Longrightarrow> P c"
  shows "P c"
  using assms
proof (induction xs arbitrary: b s)
  case (Cons x xs)
  then obtain b1 s1 where st: "f x b s = (Some b1, s1)" "act_fold f xs b1 s1 = (Some c, s')"
    unfolding act_fold_Cons_iff by blast
  have "P b1" using Cons.prems(3) [of x b s b1 s1] Cons.prems(2) st(1) by simp
  then show ?case using Cons.IH [OF st(2)] Cons.prems(3) by (meson list.set_intros(2))
qed simp

lemma fold_failed:
  "rn_failed rn \<Longrightarrow> \<exists>rs. act_fold (run_step re cap plan t occ) sts rn s =
     (Some (rn\<lparr>rn_failed := True, rn_results := rn_results rn @ rs\<rparr>), s) \<and> list_all (\<lambda>r. sr_status r = StepBlocked) rs"
proof (induction sts arbitrary: rn)
  case Nil
  then show ?case by (intro exI [of _ "[]"]) simp
next
  case (Cons st sts)
  obtain r where r: "run_step re cap plan t occ st rn s = (Some (rn\<lparr>rn_failed := True, rn_results := rn_results rn @ [r]\<rparr>), s)"
    "sr_status r = StepBlocked" using run_step_failed [OF Cons.prems] by blast
  obtain rs where "act_fold (run_step re cap plan t occ) sts (rn\<lparr>rn_failed := True, rn_results := rn_results rn @ [r]\<rparr>) s =
      (Some (rn\<lparr>rn_failed := True, rn_results := (rn_results rn @ [r]) @ rs\<rparr>), s)" "list_all (\<lambda>r. sr_status r = StepBlocked) rs"
    using Cons.IH [of "rn\<lparr>rn_failed := True, rn_results := rn_results rn @ [r]\<rparr>"] by auto
  then show ?case using r by (intro exI [of _ "r # rs"]) (simp add: act_bind_def)
qed

lemma run_step_ok:
  assumes "run_step re cap plan t occ st rn s = (Some rn', s')" "run_ok rn \<and> chained (map sr_status (rn_results rn))"
  shows "run_ok rn' \<and> chained (map sr_status (rn_results rn')) \<and> length (rn_results rn') = Suc (length (rn_results rn))"
proof (cases "rn_failed rn")
  case True
  with run_step_failed [OF True, of re cap plan t occ st s] assms show ?thesis
    by (auto simp: run_ok_def intro!: chained_snoc simp: list_ex_iff)
next
  case False
  from assms(1) False show ?thesis
  proof (cases rule: run_step_cases)
    case cancelled
    with assms(2) False show ?thesis by (auto simp: run_ok_def list_ex_iff intro!: chained_snoc)
  next
    case (ran sr rn1 s1 r)
    from run_action_results [OF ran(1)] run_action_report [OF ran(1)] assms(2) False ran(2,3) show ?thesis
      by (auto simp: run_ok_def list_ex_iff intro!: chained_snoc)
  qed
qed

lemma fold_run_ok:
  assumes "act_fold (run_step re cap plan t occ) sts rn s = (Some rn', s')" "run_ok rn \<and> chained (map sr_status (rn_results rn))"
  shows "run_ok rn' \<and> chained (map sr_status (rn_results rn')) \<and> length (rn_results rn') = length (rn_results rn) + length sts"
  using assms
proof (induction sts arbitrary: rn s)
  case (Cons st sts)
  then obtain rn1 s1 where st: "run_step re cap plan t occ st rn s = (Some rn1, s1)" "act_fold (run_step re cap plan t occ) sts rn1 s1 = (Some rn', s')"
    unfolding act_fold_Cons_iff by blast
  from run_step_ok [OF st(1) Cons.prems(2)] Cons.IH [OF st(2)] show ?case by simp
qed simp

lemma settle_cases:
  assumes "settle_report re path rn s = (Some r, s')"
  shows "(\<not> rn_failed rn \<longrightarrow> r = rn_report rn \<and> s' = s) \<and> (rn_failed rn \<longrightarrow> report_incomplete r)"
  using assms unfolding settle_report_def Let_def
  by (auto simp: report_incomplete_def record_result_def clean_fail_def act_progress_def elim!: act_bindE split: if_splits)

text \<open>An execution in its parts.\<close>

lemma execute_capability_Some:
  assumes "execute_capability re cap x plan index occ s = (Some fr, s')" "0 \<le> index" "index < int (length (cp_targets plan))"
  obtains rn s1 where
    "act_fold (run_step re cap plan (cp_targets plan ! nat index) occ) (filter (\<lambda>st. int (sp_target st) = index) (plan_steps plan))
      \<lparr>rn_failed = False, rn_report = empty_report, rn_state = x, rn_results = []\<rparr> s = (Some rn, s1)"
    "settle_report re (pt_path (cp_targets plan ! nat index)) rn s1 = (Some (fr_report fr), s')"
    "concat (map pe_steps (fr_executions fr)) = rn_results rn"
  using assms by (auto simp: execute_capability_def Let_def elim!: act_bindE)

lemma actions_nonempty: "target_actions p t \<noteq> []"
  by (simp add: target_actions_def Let_def source_steps_def)

lemma fold_run_start:
  assumes "act_fold (run_step re cap plan t occ) sts
    \<lparr>rn_failed = False, rn_report = empty_report, rn_state = x, rn_results = []\<rparr> s = (Some rn, s')"
  shows "run_ok rn" "chained (map sr_status (rn_results rn))" "length (rn_results rn) = length sts"
  using fold_run_ok [OF assms] by (simp_all add: run_ok_def report_incomplete_def empty_report_def chained_def)

text \<open>
  Property C30: whatever the executor does, an execution is reported
  as done exactly when its report lists nothing that failed, was skipped or needs the user; a
  cancelled, blocked or unconfirmed step always leaves an entry.
\<close>

theorem execution_result_iff_complete:
  assumes "execute_capability re cap x plan index occ s = (Some fr, s')"
  shows "execution_result fr = None \<longleftrightarrow> \<not> report_incomplete (fr_report fr)"
proof (cases "0 \<le> index \<and> index < int (length (cp_targets plan))")
  case True
  from assms True obtain rn s1 where
    f: "act_fold (run_step re cap plan (cp_targets plan ! nat index) occ) (filter (\<lambda>st. int (sp_target st) = index) (plan_steps plan))
      \<lparr>rn_failed = False, rn_report = empty_report, rn_state = x, rn_results = []\<rparr> s = (Some rn, s1)" and
    st: "settle_report re (pt_path (cp_targets plan ! nat index)) rn s1 = (Some (fr_report fr), s')" and
    res: "concat (map pe_steps (fr_executions fr)) = rn_results rn"
    by (elim conjE execute_capability_Some)
  have ok: "run_ok rn" "length (rn_results rn) = length (filter (\<lambda>st. int (sp_target st) = index) (plan_steps plan))"
    using fold_run_start [OF f] by auto
  have "length (filter (\<lambda>st. int (sp_target st) = index) (plan_steps plan)) \<noteq> 0"
    using target_steps [of index plan] True actions_nonempty by (metis length_0_conv length_map)
  then have ne: "rn_results rn \<noteq> []" using ok(2) by auto
  show ?thesis
  proof (cases "rn_failed rn")
    case True
    then obtain r where "r \<in> set (rn_results rn)" "sr_status r \<noteq> StepSucceeded" using ok(1) by (auto simp: run_ok_def list_ex_iff)
    then have "find (\<lambda>r. sr_status r \<noteq> StepSucceeded) (rn_results rn) \<noteq> None" by (auto simp: find_None_iff)
    then show ?thesis using settle_cases [OF st] True by (auto simp: execution_result_def res)
  next
    case False
    then have "find (\<lambda>r. sr_status r \<noteq> StepSucceeded) (rn_results rn) = None" "\<not> report_incomplete (rn_report rn)"
      using ok(1) by (auto simp: run_ok_def list_ex_iff find_None_iff)
    then show ?thesis using settle_cases [OF st] False ne by (simp add: execution_result_def res)
  qed
next
  case False
  with assms have "fr = \<lparr>fr_report = record_target
           \<lparr>cf_path = [], cf_id = ''plan:'' @ rr_id (cp_rule plan) @ '':target:'' @ int_text index\<rparr> CleanFailed empty_report,
         fr_executions = []\<rparr>"
    by (auto simp: execute_capability_def)
  then show ?thesis by (simp add: execution_result_def report_incomplete_def)
qed

text \<open>
  The step results of an execution are a run of successes, at
  most one step that failed, was blocked, unknown or cancelled, and blocked steps after it.
\<close>

theorem execution_steps_chained:
  assumes "execute_capability re cap x plan index occ s = (Some fr, s')"
  shows "list_all (\<lambda>pe. chained (map sr_status (pe_steps pe))) (fr_executions fr)"
proof (cases "0 \<le> index \<and> index < int (length (cp_targets plan))")
  case True
  then obtain rn s1 s2 where "act_fold (run_step re cap plan (cp_targets plan ! nat index) occ) (filter (\<lambda>st. int (sp_target st) = index) (plan_steps plan))
      \<lparr>rn_failed = False, rn_report = empty_report, rn_state = x, rn_results = []\<rparr> s = (Some rn, s1)"
    "map pe_steps (fr_executions fr) = [rn_results rn]"
    using assms by (auto simp: execute_capability_def Let_def elim!: act_bindE)
  with fold_run_start(2) [OF this(1)] show ?thesis by (cases "fr_executions fr") auto
qed (use assms in \<open>auto simp: execute_capability_def\<close>)

end
