(* ===== verification/Plan_Safety.thy ===== *)
theory Plan_Safety
  imports Plan_Runs
begin

text \<open>
  The executors with the policy: a plan changes nothing before the chain of its checks, from the state
  in which the execution started, succeeded; what it changes is unprotected; and a run without error
  ends with a confirmed completion.
\<close>

section \<open>The executors keep to the policy\<close>

interpretation qt: step_relation "\<lambda>s s' :: 'w pst. ps_trace s' = ps_trace s"
  by unfold_locales auto

lemmas safe_plan = tr.steps_rules tr.steps_fold tr.steps_questions safe_intros

lemma safe_filesystem_apply: "safe (re_env re) (filesystem_apply depth re t)"
  unfolding filesystem_apply_def by (intro safe_plan)

interpretation fsx: executor "trace_grows (event_allowed (re_env re))" "filesystem_executor depth re" for re depth
  by unfold_locales
    (auto simp: filesystem_executor_def intro!: safe_plan safe_filesystem_apply)

text \<open>The programs that an owner's executor may start.\<close>

definition owner_command :: "event \<Rightarrow> bool" where
  "owner_command ev \<longleftrightarrow>
    ev \<in> {RunTool ''go'' [''env'', ''GOMODCACHE''], RunTool ''go'' [''clean'', ''-modcache''],
      RunTool ''pnpm'' [''store'', ''path''], RunTool ''pnpm'' [''store'', ''prune''], RunTool ''pnpm'' [''store'', ''status'']}"

definition owner_event :: "'w env \<Rightarrow> event \<Rightarrow> bool" where
  "owner_event e ev \<longleftrightarrow> event_allowed e ev \<or> owner_command ev"

lemma owner_run: "owner_command (RunTool program args) \<Longrightarrow> tr.steps (owner_event e) (run_tool re program args secs)"
  unfolding run_tool_def by (intro tr_event) (simp add: owner_event_def)

lemma owner_safe: "safe e m \<Longrightarrow> tr.steps (owner_event e) m"
  by (erule tr_steps_mono) (simp add: owner_event_def)

lemma owner_execute_steps: "tr.steps (owner_event (re_env re)) (owner_execute depth re t x)"
proof -
  have "tr.steps (owner_event (re_env re)) (owner_apply re po)" for po
    unfolding owner_apply_def Let_def
    by (auto intro!: safe_plan owner_run simp: owner_command_def split: operation_kind.splits option.splits)
  moreover have "tr.steps (owner_event (re_env re)) (root_identity_holds (re_env re) (pt_path t) (pt_identity t))"
    unfolding root_identity_holds_def by (auto intro!: safe_plan split: option.splits)
  ultimately show ?thesis
    unfolding owner_execute_def Let_def by (intro safe_plan owner_safe [OF safe_dir_contents])
qed

interpretation owx: executor "trace_grows (owner_event (re_env re))" "owner_executor depth re hint" for re depth hint
proof unfold_locales
  fix t :: planned_target and x c
  show "tr.steps (owner_event (re_env re)) (cap_prepare (owner_executor depth re hint) t x)"
    unfolding owner_executor_def owner_prepare_def prepare_owner_def
    by (auto intro!: safe_plan owner_run simp: owner_command_def owner_query_def
      split: option.splits operation_kind.splits)
  show "tr.steps (owner_event (re_env re)) (cap_verify (owner_executor depth re hint) c x)"
    unfolding owner_executor_def owner_verify_def owner_completion_def
    by (auto intro!: safe_plan owner_run simp: owner_command_def split: operation_kind.splits option.splits)
qed (auto simp: owner_executor_def intro!: safe_plan owner_execute_steps)

text \<open>
  The Git commands of a worktree's executor: two that only read (optional locks are off) and the
  removal of a registration whose checkout is gone.
\<close>

definition git_options :: "string \<Rightarrow> string list" where
  "git_options d = [''--no-optional-locks'', ''-c'', ''core.fsmonitor=false'', ''--git-dir'', d]"

definition git_status_args :: "string \<Rightarrow> string list" where
  "git_status_args target = [''--work-tree'', target, ''status'', ''--porcelain'', ''--untracked-files=all'', ''--ignored'',
     ''--ignore-submodules=none'']"

definition git_index_args :: "string list" where
  "git_index_args = [''ls-files'', ''--stage'', ''-z'']"

definition git_reads :: "event \<Rightarrow> bool" where
  "git_reads ev \<longleftrightarrow>
    (\<exists>d p. ev = RunTool ''git'' (git_options d @ git_status_args p)) \<or> (\<exists>d. ev = RunTool ''git'' (git_options d @ git_index_args))"

definition worktree_event :: "'w env \<Rightarrow> event \<Rightarrow> bool" where
  "worktree_event e ev \<longleftrightarrow> event_allowed e ev \<or> git_reads ev \<or>
    (\<exists>d p. ev = RunTool ''git'' (git_options d @ [''worktree'', ''remove'', ''--'', p]))"

lemma worktree_safe: "safe e m \<Longrightarrow> tr.steps (worktree_event e) m"
  by (erule tr_steps_mono) (simp add: worktree_event_def)

lemma worktree_git_run: "P (RunTool ''git'' (git_options d @ args)) \<Longrightarrow> tr.steps P (worktree_git re d args secs)"
  unfolding worktree_git_def run_tool_def git_options_def by (intro tr_event) simp

lemma check_ready_reads: "tr.steps git_reads (check_ready re w)"
  unfolding check_ready_def lstat_missing_def
  by (intro safe_plan worktree_git_run) (auto simp: git_reads_def git_status_args_def git_index_args_def)

lemma reads_worktree: "tr.steps git_reads m \<Longrightarrow> tr.steps (worktree_event e) m"
  by (erule tr_steps_mono) (simp add: worktree_event_def)

interpretation wtx: executor "trace_grows (worktree_event (re_env re))" "worktree_executor depth re" for re depth
proof unfold_locales
  fix t :: planned_target and x :: worktree_state and c reg
  show "tr.steps (worktree_event (re_env re)) (cap_prepare (worktree_executor depth re) t x)"
    unfolding worktree_executor_def worktree_prepare_def
    by (auto intro!: safe_plan reads_worktree [OF check_ready_reads])
  show "tr.steps (worktree_event (re_env re)) (cap_apply (worktree_executor depth re) t x)"
    unfolding worktree_executor_def worktree_apply_def root_identity_holds_def
    by (auto intro!: safe_plan worktree_safe [OF safe_filesystem_apply])
  show "tr.steps (worktree_event (re_env re)) (cap_verify (worktree_executor depth re) c x)"
    unfolding worktree_executor_def worktree_verify_def worktree_completion_def
    by (auto intro!: safe_plan split: completion.splits)
  show "tr.steps (worktree_event (re_env re)) (cap_unregister (worktree_executor depth re) t reg x)"
    unfolding worktree_executor_def worktree_unregister_def unregister_worktree_def lstat_missing_def
    by (auto intro!: safe_plan worktree_git_run simp: worktree_event_def split: option.splits)
qed (auto simp: worktree_executor_def intro!: safe_plan)

section \<open>Validation comes first\<close>

text \<open>
  What the target itself looked like, in the world \<open>w\<close> from which it was checked: a real path with no
  owner of its own, neither a link nor another redirect, and of the kind its operation asks for.
\<close>

definition shape_seen :: "'w rule_env \<Rightarrow> operation \<Rightarrow> string \<Rightarrow> 'w \<Rightarrow> bool" where
  "shape_seen re opn path w \<longleftrightarrow>
    \<not> is_virtual_path path \<and> \<not> is_go_modcache re path \<and> \<not> is_pnpm_store re path \<and> \<not> is_trash re path \<and>
    (\<exists>md w'. os_lstat (e_os (re_env re)) path w = (Inr md, w') \<and> \<not> fi_link md \<and>
      (op_kind opn = OpFile \<longrightarrow> fi_regular md) \<and> (op_kind opn = OpContents \<longrightarrow> fi_dir md) \<and>
      (op_kind opn = OpTree \<longrightarrow> fi_dir md \<and>
        (\<forall>git. fst (os_stat (e_os (re_env re)) (path_join path ''.git'') w') = Inr git \<longrightarrow> \<not> fi_regular git)))"

definition shaped_kinds :: "operation_kind set" where
  "shaped_kinds = {OpFile, OpTree, OpContents, OpGitWorktree}"

text \<open>
  The checks before the first change, as a chain of states from \<open>s\<close>: the cancellation was asked
  for, the target was looked at and the whole plan validated, and no call was made meanwhile.
\<close>

definition revalidated :: "'w rule_env \<Rightarrow> cleanup_plan \<Rightarrow> planned_target \<Rightarrow> 'w pst \<Rightarrow> 'w pst \<Rightarrow> bool" where
  "revalidated re plan t s s' \<longleftrightarrow>
    (\<exists>s1. validate_target re (pt_operation t) (pt_path t) (op_kind (pt_operation t) \<noteq> OpContents) s = (Some True, s1) \<and>
      (op_kind (pt_operation t) \<in> shaped_kinds \<longrightarrow> shape_seen re (pt_operation t) (pt_path t) (ps_world s)) \<and>
      plan_validate re plan s1 = (Some (Inr ()), s') \<and> plan_checked re plan s1 s') \<and> ps_trace s' = ps_trace s"

definition target_checked :: "'w rule_env \<Rightarrow> cleanup_plan \<Rightarrow> planned_target \<Rightarrow> 'w pst \<Rightarrow> 'w pst \<Rightarrow> bool" where
  "target_checked re plan t s s' \<longleftrightarrow>
    (\<exists>s1. act_cancelled (re_env re) s = (Some False, s1) \<and> revalidated re plan t s1 s') \<and> ps_trace s' = ps_trace s"

lemma validate_target_shape:
  assumes "validate_target re opn path rd s = (Some True, s')" "op_kind opn \<in> shaped_kinds"
  shows "shape_seen re opn path (ps_world s)"
proof -
  have plain: "\<not> is_native_resource opn" "op_kind opn \<noteq> OpNative" "op_kind opn \<noteq> OpGo" "op_kind opn \<noteq> OpPnpm" "op_kind opn \<noteq> OpTrash"
    using assms(2) by (auto simp: shaped_kinds_def is_native_resource_def)
  then have real: "\<not> is_virtual_path path" "\<not> (is_go_modcache re path \<or> is_pnpm_store re path \<or> is_trash re path)"
    using assms(1) by (auto simp: validate_target_def split: if_splits)
  obtain md w' where l: "os_lstat (e_os (re_env re)) path (ps_world s) = (Inr md, w')" "\<not> fi_link md"
    and k: "(case op_kind opn of
           OpFile \<Rightarrow> act_ret (rd \<and> fi_regular md)
         | OpTree \<Rightarrow> act_bind (is_regular re (path_join path ''.git'')) (\<lambda>git.
             act_ret (rd \<and> fi_dir md \<and> \<not> git))
         | OpGitWorktree \<Rightarrow> act_bind (inspect_worktree re path) (\<lambda>w. act_ret (case w of
             Inl _ \<Rightarrow> False
           | Inr entry \<Rightarrow> rd \<and> rule_norm re (wr_admin entry) = rule_norm re (op_registration opn)))
         | OpContents \<Rightarrow> act_ret (\<not> rd \<and> fi_dir md)
         | _ \<Rightarrow> act_ret False) (s\<lparr>ps_world := w'\<rparr>) = (Some True, s')"
    using assms(1) plain real
    by (cases "os_lstat (e_os (re_env re)) path (ps_world s)")
      (auto simp: validate_target_def act_bind_def act_lstat_eq split: sum.splits if_splits)
  have "\<not> fi_regular g" if "op_kind opn = OpTree" "fst (os_stat (e_os (re_env re)) (path_join path ''.git'') w') = Inr g" for g
    using k that
    by (simp add: is_regular_def stat_try_def act_sys_def act_os_eq act_bind_def act_ok_def act_ret_def)
  then show ?thesis
    using real l k unfolding shape_seen_def by (auto simp: act_bind_def split: prod.splits option.splits)
qed

lemma quiet_validate: "plan_validate re plan s = (r, s') \<Longrightarrow> ps_trace s' = ps_trace s"
  by (rule qt.stepsD [OF qt.steps_validate])

text \<open>\<^verbatim>\<open>run_revalidate\<close> goes on to the preparation only through these checks.\<close>

lemma run_revalidate_cases:
  assumes "run_revalidate re cap plan t occ x s = (r, s')" "cap_supports cap t \<longrightarrow> op_kind (pt_operation t) \<noteq> OpOfficialUninstall"
  obtains (refused) "ps_trace s' = ps_trace s" "\<forall>st x'. r = Some (st, x') \<longrightarrow> fst st \<noteq> StepSucceeded"
  | (prepared) u q where "cap_supports cap t" "cap_occupancy cap \<longrightarrow> occ = SpotClear" "revalidated re plan t s u"
    "cap_prepare cap t x u = (q, s')"
    "\<forall>st x'. r = Some (st, x') \<longrightarrow> fst st \<noteq> StepSucceeded \<or> (\<exists>msg. q = Some (Inr msg, x'))"
proof -
  define sup where "sup = (if \<not> cap_supports cap t then act_ret False
              else if op_kind (pt_operation t) = OpOfficialUninstall then act_ret True
              else validate_target re (pt_operation t) (pt_path t) (op_kind (pt_operation t) \<noteq> OpContents))"
  obtain ok s1 where sup: "sup s = (ok, s1)" by fastforce
  have tr1: "ps_trace s1 = ps_trace s"
    by (rule qt.stepsD [rotated, where m = sup, OF sup]) (auto simp: sup_def intro: qt.steps_ret qt.steps_validate_target)
  note unf = assms(1) [unfolded run_revalidate_def, folded sup_def]
  show thesis
  proof (cases "ok = Some True \<and> (cap_occupancy cap \<longrightarrow> occ = SpotClear)")
    case False
    show thesis
      by (rule refused) (use unf sup tr1 False in \<open>cases ok; auto simp: act_bind_def act_ret_def split: if_splits\<close>)+
  next
    case True
    then have vt: "cap_supports cap t"
      "validate_target re (pt_operation t) (pt_path t) (op_kind (pt_operation t) \<noteq> OpContents) s = (Some True, s1)"
      using sup assms(2) by (auto simp: sup_def split: if_splits)
    obtain v s2 where v: "plan_validate re plan s1 = (v, s2)" by fastforce
    with quiet_validate [OF v] tr1 have tr2: "ps_trace s2 = ps_trace s" by simp
    show thesis
    proof (cases "v = Some (Inr ())")
      case valid: True
      obtain q s3 where q: "cap_prepare cap t x s2 = (q, s3)" by fastforce
      have re: "revalidated re plan t s s2"
        using vt v valid plan_validate_checked validate_target_shape tr2 unfolding revalidated_def by blast
      have "s3 = s'" using unf sup v valid True q by (auto simp: act_bind_def act_ret_def split: option.splits prod.splits)
      moreover have "\<forall>st x'. r = Some (st, x') \<longrightarrow> fst st \<noteq> StepSucceeded \<or> (\<exists>msg. q = Some (Inr msg, x'))"
        using unf sup v valid True q by (auto simp: act_bind_def act_ret_def split: option.splits prod.splits sum.splits)
      ultimately show thesis using vt(1) True re q by (intro prepared) auto
    next
      case False
      show thesis
        by (rule refused) (use unf sup v tr2 True False in \<open>auto simp: act_bind_def act_ret_def split: option.splits sum.splits\<close>)+
    qed
  qed
qed

lemma run_source_refused:
  assumes "run_source re cap plan t SourceRevalidate x s = (r, s')" "\<not> cap_supports cap t"
  shows "s' = s \<and> (\<forall>st. r = Some st \<longrightarrow> fst st \<noteq> StepSucceeded)"
  using assms by (auto simp: run_source_def act_bind_def act_ret_def act_fail_def act_msg_def split: if_splits)

lemma first_action:
  "hd (target_actions p t) = Revalidate \<or>
   hd (target_actions p t) = SourceLifecycle SourceRevalidate \<and> op_kind (pt_operation t) = OpOfficialUninstall"
  by (simp add: target_actions_def Let_def source_steps_def)

definition keeps_checks :: "('w, 'x) capability \<Rightarrow> bool" where
  "keeps_checks cap \<longleftrightarrow> (\<forall>x t. cap_effective cap x Revalidate t = Revalidate \<and>
     (\<forall>a. cap_effective cap x (SourceLifecycle a) t = SourceLifecycle a))"

text \<open>A step that may run: it was cancelled, or its action ran from a state with the same trace.\<close>

lemma run_step_action:
  assumes "run_step re cap plan t occ st rn s = (r, s')" "\<not> rn_failed rn"
  shows "(ps_trace s' = ps_trace s \<and> (\<forall>rn'. r = Some rn' \<longrightarrow> rn_failed rn')) \<or>
    (\<exists>u p. act_cancelled (re_env re) s = (Some False, u) \<and> ps_trace u = ps_trace s \<and>
       run_action re cap plan t occ (cap_effective cap (rn_state rn) (sp_action st) t) rn u = (p, s') \<and>
       (\<forall>rn'. r = Some rn' \<longrightarrow> rn_failed rn' \<or> (\<exists>res rn1. p = Some (res, rn1) \<and> fst res = StepSucceeded)))"
proof -
  obtain c s1 where c: "act_cancelled (re_env re) s = (Some c, s1)"
    by (cases "os_cancelled (e_os (re_env re)) (ps_world s)") (auto simp: act_cancelled_def act_os_def)
  have tr1: "ps_trace s1 = ps_trace s" using qt.stepsD [OF qt.steps_cancelled c] .
  show ?thesis
  proof (cases c)
    case True
    with assms c tr1 show ?thesis by (auto simp: run_step_def Let_def act_bind_def act_ret_def)
  next
    case False
    obtain q s2 where q: "run_action re cap plan t occ (cap_effective cap (rn_state rn) (sp_action st) t) rn s1 = (q, s2)" by fastforce
    from assms c q False have "s2 = s'" "\<forall>rn'. r = Some rn' \<longrightarrow> rn_failed rn' \<or> (\<exists>res rn1. q = Some (res, rn1) \<and> fst res = StepSucceeded)"
      by (auto simp: run_step_def Let_def act_bind_def act_ret_def split: option.splits prod.splits)
    with q tr1 c False show ?thesis by auto
  qed
qed

lemma run_first_cases:
  assumes "run_step re cap plan t occ st rn s = (r, s')" "\<not> rn_failed rn" "keeps_checks cap"
    "cap_supports cap t \<longrightarrow> op_kind (pt_operation t) \<noteq> OpOfficialUninstall"
    "sp_action st = Revalidate \<or> sp_action st = SourceLifecycle SourceRevalidate \<and> op_kind (pt_operation t) = OpOfficialUninstall"
  obtains (refused) "ps_trace s' = ps_trace s" "\<forall>rn'. r = Some rn' \<longrightarrow> rn_failed rn'"
  | (prepared) u q where "cap_supports cap t" "cap_occupancy cap \<longrightarrow> occ = SpotClear" "target_checked re plan t s u"
    "cap_prepare cap t (rn_state rn) u = (q, s')"
    "\<forall>rn'. r = Some rn' \<longrightarrow> rn_failed rn' \<or> (\<exists>msg x'. q = Some (Inr msg, x'))"
proof -
  have e: "cap_effective cap (rn_state rn) (sp_action st) t = sp_action st"
    using assms(3,5) by (auto simp: keeps_checks_def)
  from run_step_action [OF assms(1,2)] consider "ps_trace s' = ps_trace s" "\<forall>rn'. r = Some rn' \<longrightarrow> rn_failed rn'"
    | v p where "act_cancelled (re_env re) s = (Some False, v)" "ps_trace v = ps_trace s"
      "run_action re cap plan t occ (sp_action st) rn v = (p, s')"
      "\<forall>rn'. r = Some rn' \<longrightarrow> rn_failed rn' \<or> (\<exists>res rn1. p = Some (res, rn1) \<and> fst res = StepSucceeded)"
    unfolding e by (elim disjE exE conjE) blast+
  then show thesis
  proof cases
    case 1
    then show thesis by (rule refused)
  next
    case (2 v p)
    show thesis
    proof (cases "sp_action st = Revalidate")
      case False
      then have a: "sp_action st = SourceLifecycle SourceRevalidate" and no: "\<not> cap_supports cap t" using assms(4,5) by auto
      obtain q s1 where q: "run_source re cap plan t SourceRevalidate (rn_state rn) v = (q, s1)" by fastforce
      from run_source_refused [OF this no] 2 a q show thesis
        by (intro refused) (auto simp: run_action_def act_bind_def act_ret_def split: option.splits)
    next
      case True
      obtain w s1 where w: "run_revalidate re cap plan t occ (rn_state rn) v = (w, s1)" by fastforce
      with 2(3) True have s1: "s1 = s'" and p: "\<forall>res rn1. p = Some (res, rn1) \<longrightarrow> (\<exists>x'. w = Some (res, x'))"
        by (auto simp: run_action_def act_bind_def act_ret_def split: option.splits prod.splits)
      from w [unfolded s1] assms(4) show thesis
      proof (cases rule: run_revalidate_cases)
        case refused1: refused
        have "\<forall>rn'. r = Some rn' \<longrightarrow> rn_failed rn'" using refused1(2) p 2(4) by fastforce
        then show thesis using refused1(1) 2(2) by (intro refused) auto
      next
        case step: (prepared u q)
        have "target_checked re plan t s u"
          using 2(1,2) step(3) unfolding target_checked_def revalidated_def by auto
        moreover have "\<forall>rn'. r = Some rn' \<longrightarrow> rn_failed rn' \<or> (\<exists>msg x'. q = Some (Inr msg, x'))"
          using step(5) p 2(4) by fastforce
        ultimately show thesis using step(1,2,4) by (intro prepared)
      qed
    qed
  qed
qed

lemma settle_quiet: "settle_report re path rn s = (r, s') \<Longrightarrow> ps_trace s' = ps_trace s"
proof (rule qt.stepsD)
  have "qt.steps (clean_fail path reason)" for reason
    by (auto simp: qt.steps_def clean_fail_def act_progress_def act_bind_def act_ret_def)
  then show "qt.steps (settle_report re path rn)"
    unfolding settle_report_def Let_def by (intro qt.steps_rules)
qed

text \<open>An execution starts with the first step of its target and stops there if that fails.\<close>

definition finish_run :: "'w rule_env \<Rightarrow> cleanup_plan \<Rightarrow> int \<Rightarrow> planned_target \<Rightarrow> 'x run \<Rightarrow> ('w, flow_report) act" where
  "finish_run re plan index t rn = act_bind (settle_report re (pt_path t) rn) (\<lambda>r.
     let ob = rr_observation (cp_rule plan) in
     act_ret \<lparr>fr_report = r, fr_executions =
       [\<lparr>pe_rule_id = rr_id (cp_rule plan), pe_version = ob_version ob, pe_schema = ob_schema ob,
         pe_sequence = ob_sequence ob, pe_target = index, pe_steps = rn_results rn\<rparr>]\<rparr>)"

lemma execute_capability_eq:
  "0 \<le> index \<Longrightarrow> index < int (length (cp_targets plan)) \<Longrightarrow>
   execute_capability re cap x plan index occ =
   act_bind (act_fold (run_step re cap plan (cp_targets plan ! nat index) occ) (filter (\<lambda>st. int (sp_target st) = index) (plan_steps plan))
     \<lparr>rn_failed = False, rn_report = empty_report, rn_state = x, rn_results = []\<rparr>) (finish_run re plan index (cp_targets plan ! nat index))"
  by (simp add: execute_capability_def Let_def finish_run_def [abs_def])

lemma finish_quiet: "finish_run re plan index t rn s = (r, s') \<Longrightarrow> ps_trace s' = ps_trace s"
  by (auto simp: finish_run_def act_bind_def act_ret_def Let_def dest!: settle_quiet split: option.splits prod.splits)

lemma execute_first:
  assumes "execute_capability re cap x plan index occ s = (r, s')" "0 \<le> index" "index < int (length (cp_targets plan))"
  obtains st sts q s1 where
    "hd (target_actions plan (cp_targets plan ! nat index)) = sp_action st"
    "sp_action st = Revalidate \<or> sp_action st = SourceLifecycle SourceRevalidate \<and>
       op_kind (pt_operation (cp_targets plan ! nat index)) = OpOfficialUninstall"
    "filter (\<lambda>st. int (sp_target st) = index) (plan_steps plan) = st # sts"
    "run_step re cap plan (cp_targets plan ! nat index) occ st \<lparr>rn_failed = False, rn_report = empty_report, rn_state = x, rn_results = []\<rparr> s = (q, s1)"
    "(\<forall>rn. q = Some rn \<longrightarrow> rn_failed rn) \<Longrightarrow> ps_trace s' = ps_trace s1"
    "\<And>rn. q = Some rn \<Longrightarrow> act_bind (act_fold (run_step re cap plan (cp_targets plan ! nat index) occ) sts rn)
       (finish_run re plan index (cp_targets plan ! nat index)) s1 = (r, s')"
proof -
  let ?t = "cp_targets plan ! nat index" and ?rn = "\<lparr>rn_failed = False, rn_report = empty_report, rn_state = x, rn_results = []\<rparr>"
  obtain st sts where steps: "filter (\<lambda>st. int (sp_target st) = index) (plan_steps plan) = st # sts"
    and first: "hd (target_actions plan ?t) = sp_action st"
    and st: "sp_action st = Revalidate \<or> sp_action st = SourceLifecycle SourceRevalidate \<and> op_kind (pt_operation ?t) = OpOfficialUninstall"
    using target_steps [OF assms(2,3)] first_action [of plan ?t] actions_nonempty [of plan ?t]
    by (cases "filter (\<lambda>st. int (sp_target st) = index) (plan_steps plan)") (auto dest: sym)
  obtain q s1 where q: "run_step re cap plan ?t occ st ?rn s = (q, s1)" by fastforce
  have "ps_trace s' = ps_trace s1" if fl: "\<forall>rn. q = Some rn \<longrightarrow> rn_failed rn"
  proof (cases q)
    case None
    with assms q show ?thesis by (auto simp: execute_capability_eq steps act_bind_def)
  next
    case (Some rn1)
    then obtain rs where "act_fold (run_step re cap plan ?t occ) sts rn1 s1 =
        (Some (rn1\<lparr>rn_failed := True, rn_results := rn_results rn1 @ rs\<rparr>), s1)"
      using fold_failed fl by blast
    with assms q Some show ?thesis
      by (auto simp: execute_capability_eq steps act_bind_def dest!: finish_quiet)
  qed
  moreover have "act_bind (act_fold (run_step re cap plan ?t occ) sts rn) (finish_run re plan index ?t) s1 = (r, s')" if "q = Some rn" for rn
    using assms q that by (simp add: execute_capability_eq steps act_bind_def)
  ultimately show ?thesis using that [OF first st steps q] by blast
qed

text \<open>Whatever the executor does later, it does it after these checks and its preparation.\<close>

definition goes_on :: "'w rule_env \<Rightarrow> ('w, 'x) capability \<Rightarrow> cleanup_plan \<Rightarrow> int \<Rightarrow> planned_target \<Rightarrow> spot_check \<Rightarrow>
    'w pst \<Rightarrow> flow_report option \<times> 'w pst \<Rightarrow> bool" where
  "goes_on re cap plan index t occ s r \<longleftrightarrow>
    (\<exists>sts rn. act_bind (act_fold (run_step re cap plan t occ) sts rn) (finish_run re plan index t) s = r)"

definition target_of :: "cleanup_plan \<Rightarrow> int \<Rightarrow> planned_target option" where
  "target_of plan index = (if 0 \<le> index \<and> index < int (length (cp_targets plan)) then Some (cp_targets plan ! nat index) else None)"

lemma execute_cases:
  assumes "execute_capability re cap x plan index occ s = (r, s')" "keeps_checks cap"
    "\<forall>t. cap_supports cap t \<longrightarrow> op_kind (pt_operation t) \<noteq> OpOfficialUninstall"
  obtains (refused) "ps_trace s' = ps_trace s"
  | (prepared) t u q s1 where "target_of plan index = Some t" "cap_supports cap t" "cap_occupancy cap \<longrightarrow> occ = SpotClear"
    "target_checked re plan t s u" "cap_prepare cap t x u = (q, s1)"
    "(\<forall>msg x'. q \<noteq> Some (Inr msg, x')) \<Longrightarrow> ps_trace s' = ps_trace s1"
    "ps_trace s' = ps_trace s1 \<or> goes_on re cap plan index t occ s1 (r, s')"
proof (cases "0 \<le> index \<and> index < int (length (cp_targets plan))")
  case False
  with assms(1) have "s' = s" by (auto simp: execute_capability_def act_ret_def split: if_splits)
  then show thesis using refused by simp
next
  case True
  then have ix: "0 \<le> index" "index < int (length (cp_targets plan))" by simp_all
  let ?t = "cp_targets plan ! nat index"
  from execute_first [OF assms(1) ix] show thesis
  proof cases
    case (1 st sts q s1)
    have "\<not> rn_failed \<lparr>rn_failed = False, rn_report = empty_report, rn_state = x, rn_results = []\<rparr>" by simp
    from 1(4) this assms(2) spec [OF assms(3), of ?t] 1(2) show thesis
    proof (cases rule: run_first_cases)
      case refused1: refused
      with 1(5) show thesis by (intro refused) simp
    next
      case step: (prepared u p)
      show thesis
      proof (rule prepared)
        show "target_of plan index = Some ?t" using ix by (simp add: target_of_def)
        show "cap_supports cap ?t" "cap_occupancy cap \<longrightarrow> occ = SpotClear" "target_checked re plan ?t s u"
          using step by simp_all
        show "cap_prepare cap ?t x u = (p, s1)" using step(4) by simp
        show "ps_trace s' = ps_trace s1" if "\<forall>msg x'. p \<noteq> Some (Inr msg, x')"
          using 1(5) step(5) that by blast
        show "ps_trace s' = ps_trace s1 \<or> goes_on re cap plan index ?t occ s1 (r, s')"
          using 1(5,6) unfolding goes_on_def by (cases q) auto
      qed
    qed
  qed
qed

lemma effective_keeps: "keeps_checks (filesystem_executor depth re)" "keeps_checks (owner_executor depth re hint)"
    "keeps_checks (worktree_executor depth re)"
  by (simp_all add: keeps_checks_def filesystem_executor_def owner_executor_def owner_effective_def worktree_executor_def)

lemma checked_allowed:
  assumes "target_checked re plan t s u" "target_of plan index = Some t" "is_filesystem_backed (pt_operation t)"
  shows "target_allowed re (cp_preserve plan) t"
proof -
  have "t \<in> set (cp_targets plan)" using assms(2) by (auto simp: target_of_def split: if_splits)
  with assms(1,3) obtain live where "target_allowed re (cp_preserve plan @ live) t"
    unfolding target_checked_def revalidated_def using plan_validate_targets by metis
  then show ?thesis by (auto simp: target_allowed_def target_separated_def)
qed

lemma executor_fields [simp]: "cap_supports (filesystem_executor depth re) = filesystem_supports"
    "cap_supports (owner_executor depth re hint) = owner_supports" "cap_supports (worktree_executor depth re) = worktree_supports"
    "cap_occupancy (filesystem_executor depth re)" "cap_occupancy (owner_executor depth re hint)"
    "cap_occupancy (worktree_executor depth re)" "cap_prepare (worktree_executor depth re) = worktree_prepare re"
    "cap_prepare (filesystem_executor depth re) = (\<lambda>_ x. act_ret (Inr [], x))"
    "cap_prepare (owner_executor depth re hint) = owner_prepare re"
  by (simp_all add: filesystem_executor_def owner_executor_def worktree_executor_def)

lemma filesystem_backed: "filesystem_supports t \<Longrightarrow> is_filesystem_backed (pt_operation t)"
    "owner_supports t \<Longrightarrow> is_filesystem_backed (pt_operation t)" "worktree_supports t \<Longrightarrow> is_filesystem_backed (pt_operation t)"
  by (auto simp: filesystem_supports_def owner_supports_def worktree_supports_def is_filesystem_backed_def removes_directory_def)

lemma not_official:
    "\<forall>t. cap_supports (filesystem_executor depth re) t \<longrightarrow> op_kind (pt_operation t) \<noteq> OpOfficialUninstall"
    "\<forall>t. cap_supports (owner_executor depth re hint) t \<longrightarrow> op_kind (pt_operation t) \<noteq> OpOfficialUninstall"
    "\<forall>t. cap_supports (worktree_executor depth re) t \<longrightarrow> op_kind (pt_operation t) \<noteq> OpOfficialUninstall"
  by (auto simp: filesystem_supports_def owner_supports_def worktree_supports_def)

text \<open>
  Property C20: executing a target of a plan on the file system changes only what
  the policy leaves free; and unless it changes nothing at all, the index names a target of the plan
  that the executor supports, the target was not occupied, and from the state in which the execution
  started these checks succeeded one after the other, with no change in between: the user had not
  cancelled; the target was a real path of the kind its operation asks for and no link; every rule
  was validated again and nothing of the scan's ownership was missing; the captured installation and
  the official operation still held; and then, for every target of the plan in turn, the rule
  authorised its path, no managed worktree and no protected path was found there, its object was the
  one the scan had recorded, and it neither lay within a path preserved now or at the scan nor contained one.
\<close>

theorem filesystem_plan_safe:
  "\<exists>calls. ps_trace (snd (execute_filesystem_plan depth re plan index occ s)) = ps_trace s @ calls \<and>
     list_all (event_allowed (re_env re)) calls \<and>
     (calls = [] \<or> (\<exists>t u. target_of plan index = Some t \<and> filesystem_supports t \<and> occ = SpotClear \<and>
        target_checked re plan t s u \<and> target_allowed re (cp_preserve plan) t))"
proof -
  obtain r s' where ex: "execute_capability re (filesystem_executor depth re) () plan index occ s = (r, s')" by fastforce
  have "ps_trace s' = ps_trace s \<or> (\<exists>t u. target_of plan index = Some t \<and> filesystem_supports t \<and> occ = SpotClear \<and>
        target_checked re plan t s u \<and> target_allowed re (cp_preserve plan) t)"
    using ex effective_keeps(1) not_official(1)
  proof (cases rule: execute_cases)
    case (prepared t u q s1)
    with checked_allowed [OF prepared(4,1) filesystem_backed(1)] show ?thesis by auto
  qed simp
  with tr.stepsD [OF fsx.steps_execute ex] show ?thesis
    by (auto simp: execute_filesystem_plan_def ex trace_grows_def)
qed

text \<open>
  The same for a target cleared by its owner's tool: no tool is started
  and nothing is removed before the plan was validated, the tools are those of the owner, and the
  fallback to deleting contents keeps to the policy.
\<close>

theorem owner_plan_safe:
  "\<exists>calls. ps_trace (snd (execute_owner_plan depth re plan index occ hint s)) = ps_trace s @ calls \<and>
     list_all (owner_event (re_env re)) calls \<and>
     (calls = [] \<or> (\<exists>t u. target_of plan index = Some t \<and> owner_supports t \<and> occ = SpotClear \<and>
        target_checked re plan t s u \<and> target_allowed re (cp_preserve plan) t))"
proof -
  obtain r s' where ex: "execute_capability re (owner_executor depth re hint) \<lparr>ow_owner = None, ow_fallback = False, ow_error = []\<rparr>
      plan index occ s = (r, s')" by fastforce
  have "ps_trace s' = ps_trace s \<or> (\<exists>t u. target_of plan index = Some t \<and> owner_supports t \<and> occ = SpotClear \<and>
        target_checked re plan t s u \<and> target_allowed re (cp_preserve plan) t)"
    using ex effective_keeps(2) not_official(2)
  proof (cases rule: execute_cases)
    case (prepared t u q s1)
    with checked_allowed [OF prepared(4,1) filesystem_backed(2)] show ?thesis by auto
  qed simp
  with tr.stepsD [OF owx.steps_execute ex] show ?thesis
    by (auto simp: execute_owner_plan_def ex trace_grows_def)
qed

section \<open>Worktrees\<close>

text \<open>
  A worktree found ready, as the chain of states from \<open>s\<close> to \<open>s'\<close>: no agent manages it; it is not locked;
  its registration is still \<open>w\<close>; it is not protected and its metadata can be removed; it is still not
  locked; \<^verbatim>\<open>git status\<close> succeeded without any output; and the index lists no submodule.  The two
  commands are the only calls made.
\<close>

definition git_succeeds :: "'w rule_env \<Rightarrow> string \<Rightarrow> string list \<Rightarrow> 'w pst \<Rightarrow> string \<Rightarrow> 'w pst \<Rightarrow> bool" where
  "git_succeeds re d args s out s' \<longleftrightarrow>
    (\<exists>st w. re_run_tool re ''git'' (git_options d @ args) 10 (ps_world s) = (Some st, w) \<and> tr_ok st \<and> tr_stdout st = out \<and>
      s' = s\<lparr>ps_world := w, ps_trace := ps_trace s @ [RunTool ''git'' (git_options d @ args)]\<rparr>)"

definition ready_seen :: "'w rule_env \<Rightarrow> worktree_registration \<Rightarrow> 'w pst \<Rightarrow> 'w pst \<Rightarrow> bool" where
  "ready_seen re w s s' \<longleftrightarrow>
    (\<exists>s1 s2 s3 s4 s5 s6 s7 listing.
      is_managed_agent_worktree (re_env re) (wr_target w) s = (Some False, s1) \<and>
      unmanaged_seen (re_env re) (wr_target w) (ps_world s) \<and>
      act_lstat (re_env re) (path_join (wr_admin w) ''locked'') s1 = (Some (Inl NotExist), s2) \<and>
      inspect_worktree re (wr_target w) s2 = (Some (Inr w), s3) \<and>
      is_protected (re_env re) (wr_target w) s3 = (Some False, s4) \<and>
      free_seen (re_env re) (wr_target w) False (ps_world s3) \<and>
      worktree_metadata_removable re (wr_admin w) 1024 s4 = (Some True, s5) \<and>
      act_lstat (re_env re) (path_join (wr_admin w) ''locked'') s5 = (Some (Inl NotExist), s6) \<and>
      git_succeeds re (wr_admin w) (git_status_args (wr_target w)) s6 [] s7 \<and>
      git_succeeds re (wr_admin w) git_index_args s7 listing s' \<and>
      \<not> list_ex submodule_entry (split_on (CHR 0x00) listing) \<and>
      ps_trace s6 = ps_trace s)"

lemma worktree_gitE:
  assumes "worktree_git re d args 10 s = (Some (Some st), s')" "tr_ok st"
  shows "git_succeeds re d args s (tr_stdout st) s'"
  using assms by (auto simp: worktree_git_def run_tool_def act_event_def git_succeeds_def git_options_def split: prod.splits)

lemma check_ready_None:
  assumes "check_ready re w s = (Some None, s')"
  shows "ready_seen re w s s'"
proof -
  obtain s1 s2 s3 s4 s5 s6 s7 st ix where
    m: "is_managed_agent_worktree (re_env re) (wr_target w) s = (Some False, s1)"
    and l: "act_lstat (re_env re) (path_join (wr_admin w) ''locked'') s1 = (Some (Inl NotExist), s2)"
    and i: "inspect_worktree re (wr_target w) s2 = (Some (Inr w), s3)"
    and p: "is_protected (re_env re) (wr_target w) s3 = (Some False, s4)"
    and r: "worktree_metadata_removable re (wr_admin w) 1024 s4 = (Some True, s5)"
    and u: "lstat_missing re (path_join (wr_admin w) ''locked'') s5 = (Some True, s6)"
    and g: "worktree_git re (wr_admin w) (git_status_args (wr_target w)) 10 s6 = (Some (Some st), s7)" "tr_ok st" "tr_stdout st = []"
    and x: "worktree_git re (wr_admin w) git_index_args 10 s7 = (Some (Some ix), s')" "tr_ok ix"
      "\<not> list_ex submodule_entry (split_on (CHR 0x00) (tr_stdout ix))"
    using assms unfolding check_ready_def git_status_args_def git_index_args_def
    by (auto elim!: act_bindE split: if_splits option.splits)
  have l2: "act_lstat (re_env re) (path_join (wr_admin w) ''locked'') s5 = (Some (Inl NotExist), s6)"
    using u by (auto simp: lstat_missing_def elim!: act_bindE)
  have "ps_trace s6 = ps_trace s"
    using qt.stepsD [OF qt.steps_managed m] qt.stepsD [OF qt.steps_lstat l] qt.stepsD [OF qt.steps_inspect i]
      qt.stepsD [OF qt.steps_protected p [unfolded is_protected_def]] qt.stepsD [OF qt.steps_worktree_removable r]
      qt.stepsD [OF qt.steps_lstat l2] by simp
  with m l i p r l2 worktree_gitE [OF g(1,2)] worktree_gitE [OF x(1,2)] g(3) x(3) managed_False [OF m]
    is_protected_free [OF p [unfolded is_protected_def]]
  show ?thesis unfolding ready_seen_def by metis
qed

lemma ready_trace:
  "ready_seen re w s s' \<Longrightarrow> ps_trace s' = ps_trace s @ [RunTool ''git'' (git_options (wr_admin w) @ git_status_args (wr_target w)),
     RunTool ''git'' (git_options (wr_admin w) @ git_index_args)]"
  by (auto simp: ready_seen_def git_succeeds_def)

lemma prepare_ready:
  assumes "worktree_prepare re t x s = (Some (Inr msg, x'), s')"
  shows "\<exists>w s1. inspect_worktree re (pt_path t) s = (Some (Inr w), s1) \<and>
    rule_norm re (wr_admin w) = rule_norm re (op_registration (pt_operation t)) \<and> ready_seen re w s1 s'"
  using assms check_ready_None unfolding worktree_prepare_def
  by (fastforce elim!: act_bindE split: sum.splits option.splits if_splits)

lemma prepare_reads: "tr.steps git_reads (worktree_prepare re t x)"
  unfolding worktree_prepare_def
  by (intro tr.steps_rules tr.steps_questions tr_progress check_ready_reads)

text \<open>
  Property C28: executing a worktree target starts nothing but the two Git commands
  that only read, unless from the state in which the execution started these checks succeeded one
  after the other: those of a file target; then its registration was the one the scan had recorded,
  and the worktree was found ready: not managed by an agent, not locked at two looks, unprotected, its
  metadata removable, \<^verbatim>\<open>git status\<close> without any output and an index without submodules.  The
  two commands come first, and what is changed after them is free; the only other program started is
  Git's own removal of a registration.
\<close>

theorem worktree_plan_safe:
  "\<exists>calls. ps_trace (snd (execute_worktree_plan depth re plan index occ s)) = ps_trace s @ calls \<and>
     list_all (worktree_event (re_env re)) calls \<and>
     (list_all git_reads calls \<or>
      (\<exists>t u w u1 u2 rest. target_of plan index = Some t \<and> worktree_supports t \<and> occ = SpotClear \<and>
        target_checked re plan t s u \<and> target_allowed re (cp_preserve plan) t \<and>
        inspect_worktree re (pt_path t) u = (Some (Inr w), u1) \<and>
        rule_norm re (wr_admin w) = rule_norm re (op_registration (pt_operation t)) \<and>
        ready_seen re w u1 u2 \<and>
        calls = [RunTool ''git'' (git_options (wr_admin w) @ git_status_args (wr_target w)),
          RunTool ''git'' (git_options (wr_admin w) @ git_index_args)] @ rest))"
proof -
  obtain r s' where ex: "execute_capability re (worktree_executor depth re) None plan index occ s = (r, s')" by fastforce
  from tr.stepsD [OF wtx.steps_execute ex] obtain calls where
    calls: "ps_trace s' = ps_trace s @ calls" "list_all (worktree_event (re_env re)) calls"
    by (auto simp: trace_grows_def)
  have "list_all git_reads calls \<or>
      (\<exists>t u w u1 u2 rest. target_of plan index = Some t \<and> worktree_supports t \<and> occ = SpotClear \<and>
        target_checked re plan t s u \<and> target_allowed re (cp_preserve plan) t \<and>
        inspect_worktree re (pt_path t) u = (Some (Inr w), u1) \<and>
        rule_norm re (wr_admin w) = rule_norm re (op_registration (pt_operation t)) \<and>
        ready_seen re w u1 u2 \<and>
        calls = [RunTool ''git'' (git_options (wr_admin w) @ git_status_args (wr_target w)),
          RunTool ''git'' (git_options (wr_admin w) @ git_index_args)] @ rest)"
    using ex effective_keeps(3) not_official(3)
  proof (cases rule: execute_cases)
    case refused
    with calls(1) show ?thesis by simp
  next
    case (prepared t u q s1)
    have u: "ps_trace u = ps_trace s" using prepared(4) by (simp add: target_checked_def)
    have q: "worktree_prepare re t None u = (q, s1)" using prepared(5) by simp
    show ?thesis
    proof (cases "\<exists>msg x'. q = Some (Inr msg, x')")
      case False
      with prepared(6) tr.stepsD [OF prepare_reads q] u calls(1) show ?thesis by (auto simp: trace_grows_def)
    next
      case True
      then obtain w u1 where w: "inspect_worktree re (pt_path t) u = (Some (Inr w), u1)"
        "rule_norm re (wr_admin w) = rule_norm re (op_registration (pt_operation t))" "ready_seen re w u1 s1"
        using prepare_ready q by metis
      have "tr.steps (worktree_event (re_env re)) (act_bind (act_fold (run_step re (worktree_executor depth re) plan t occ) sts rn)
          (finish_run re plan index t))" for sts rn
        unfolding finish_run_def Let_def
        by (intro tr.steps_rules tr.steps_fold wtx.steps_run_step wtx.steps_settle)
      from tr.stepsD [OF this] prepared(7) obtain rest where "ps_trace s' = ps_trace s1 @ rest"
        unfolding goes_on_def trace_grows_def by (metis append_Nil2)
      with calls(1) ready_trace [OF w(3)] qt.stepsD [OF qt.steps_inspect w(1)] u
      have "calls = [RunTool ''git'' (git_options (wr_admin w) @ git_status_args (wr_target w)),
          RunTool ''git'' (git_options (wr_admin w) @ git_index_args)] @ rest" by simp
      with prepared(1-4) w checked_allowed [OF prepared(4,1) filesystem_backed(3)] show ?thesis by auto
    qed
  qed
  with calls ex show ?thesis by (auto simp: execute_worktree_plan_def)
qed

section \<open>Completion\<close>

lemma fold_snoc: "act_fold f (xs @ [x]) b s = act_bind (act_fold f xs b) (f x) s"
proof (induction xs arbitrary: b s)
  case (Cons a xs)
  then show ?case by (auto simp: act_bind_def split: option.splits prod.splits)
qed (auto simp: act_bind_def act_ret_def split: option.splits prod.splits)

text \<open>An execution that is reported as done ran its last step successfully.\<close>

lemma execute_last:
  assumes "execute_capability re cap x plan index occ s = (Some fr, s')" "execution_result fr = None"
  obtains t st rn0 s0 rn where "target_of plan index = Some t" "sp_action st = last (target_actions plan t)"
    "run_step re cap plan t occ st rn0 s0 = (Some rn, s')" "\<not> rn_failed rn0" "\<not> rn_failed rn"
proof -
  have ix: "0 \<le> index" "index < int (length (cp_targets plan))"
    using assms by (auto simp: execute_capability_def execution_result_def split: if_splits)
  define t where "t = cp_targets plan ! nat index"
  define sts where "sts = filter (\<lambda>st. int (sp_target st) = index) (plan_steps plan)"
  have acts: "map sp_action sts = target_actions plan t" using target_steps [OF ix] by (simp add: t_def sts_def)
  then obtain init st where sts: "sts = init @ [st]" using actions_nonempty [of plan t] by (cases sts rule: rev_cases) auto
  obtain rn s1 where f: "act_fold (run_step re cap plan t occ) sts
      \<lparr>rn_failed = False, rn_report = empty_report, rn_state = x, rn_results = []\<rparr> s = (Some rn, s1)"
    and settle: "settle_report re (pt_path t) rn s1 = (Some (fr_report fr), s')"
    and res: "concat (map pe_steps (fr_executions fr)) = rn_results rn"
    using execute_capability_Some [OF assms(1) ix] unfolding t_def sts_def by metis
  have "find (\<lambda>r. sr_status r \<noteq> StepSucceeded) (rn_results rn) = None"
    using assms(2) by (simp add: execution_result_def res Let_def split: option.splits)
  then have ok: "\<not> rn_failed rn" using fold_run_start(1) [OF f]
    by (auto simp: run_ok_def list_ex_iff find_None_iff)
  with settle_cases [OF settle] have s1: "s1 = s'" by simp
  obtain rn0 s0 where st: "run_step re cap plan t occ st rn0 s0 = (Some rn, s')"
    using f unfolding sts fold_snoc s1 by (elim act_bindE)
  show ?thesis
  proof (rule that [OF _ _ st _ ok])
    show "target_of plan index = Some t" using ix by (simp add: target_of_def t_def)
    show "sp_action st = last (target_actions plan t)" by (simp add: acts [symmetric] sts)
    show "\<not> rn_failed rn0" using st ok by (auto simp: run_step_def Let_def act_ret_def)
  qed
qed

text \<open>Without a source lifecycle that last step confirmed the completion condition.\<close>

lemma execute_complete:
  assumes "execute_capability re cap x plan index occ s = (Some fr, s')" "execution_result fr = None"
    "\<And>x a t. cap_effective cap x a t = a" "\<And>a x. \<exists>m. cap_source cap a x = act_msg m"
  shows "\<exists>t y u. target_of plan index = Some t \<and> cap_verify cap (target_completion t) y u = (Some Confirmed, s')"
proof -
  obtain t st rn0 s0 rn where t: "target_of plan index = Some t" and last: "sp_action st = last (target_actions plan t)"
    and st: "run_step re cap plan t occ st rn0 s0 = (Some rn, s')" and ok: "\<not> rn_failed rn0" "\<not> rn_failed rn"
    using assms(1,2) by (rule execute_last)
  from st ok(1) show ?thesis
  proof (cases rule: run_step_cases)
    case cancelled
    with ok(2) show ?thesis by simp
  next
    case (ran sr rn1 u r)
    then have succeeded: "fst sr = StepSucceeded" using ok(2) by simp
    obtain m where m: "cap_source cap RemoveRecoveryRecords (rn_state rn0) = act_msg m" using assms(4) by blast
    have "sp_action st = SourceLifecycle RemoveRecoveryRecords \<or> sp_action st = Verify (Some (target_completion t))"
      unfolding last by (simp add: target_actions_def Let_def source_steps_def)
    then show ?thesis
    proof
      assume "sp_action st = SourceLifecycle RemoveRecoveryRecords"
      with ran(1) succeeded m show ?thesis
        by (auto simp: assms(3) run_action_def run_source_def act_msg_def act_fail_def act_ok_def elim!: act_bindE)
    next
      assume "sp_action st = Verify (Some (target_completion t))"
      with ran(1) succeeded have "cap_verify cap (target_completion t) (rn_state rn0) u = (Some Confirmed, s')"
        by (auto simp: assms(3) run_action_def verify_status_def elim!: act_bindE split: evidence.splits)
      with t show ?thesis by blast
    qed
  qed
qed

text \<open>
  Property C29: when an execution on the file system is reported as done,
  its last observation of the disk confirmed the completion condition of the target: the path is
  gone, or the directory is there and empty.
\<close>

theorem filesystem_plan_complete:
  assumes "execute_filesystem_plan depth re plan index occ s = (Some fr, s')" "execution_result fr = None"
  shows "\<exists>t u. target_of plan index = Some t \<and> filesystem_completion re (target_completion t) u = (Some Confirmed, s')"
  using execute_complete [OF assms(1) [unfolded execute_filesystem_plan_def] assms(2)]
  by (auto simp: filesystem_executor_def)

end
