(* ===== verification/Eval_Paths.thy ===== *)
theory Eval_Paths
  imports Safety
begin

text \<open>
  Code equations for ASCII strings, on the bits of a character, so that concrete paths evaluate
  without the arithmetic of code points.
\<close>

fun seven_bit :: "char \<Rightarrow> bool" where
  "seven_bit (Char b0 b1 b2 b3 b4 b5 b6 b7) \<longleftrightarrow> \<not> b7"

fun lower_bits :: "char \<Rightarrow> char" where
  "lower_bits (Char b0 b1 b2 b3 b4 b5 b6 b7) =
    (if b7 \<or> \<not> b6 \<or> b5 \<or> \<not> (b0 \<or> b1 \<or> b2 \<or> b3 \<or> b4) \<or> (b4 \<and> b3 \<and> (b2 \<or> b1 \<and> b0))
     then Char b0 b1 b2 b3 b4 b5 b6 b7 else Char b0 b1 b2 b3 b4 True b6 b7)"

lemma seven_bit_iff: "seven_bit c \<longleftrightarrow> of_char c < (128 :: nat)"
  by (cases c) (auto simp: of_char_def split: if_splits)

lemma lower_bits_iff: "lower_bits c = ascii_lower_char c"
proof (cases c)
  case (Char b0 b1 b2 b3 b4 b5 b6 b7)
  show ?thesis unfolding Char
    by (cases b0; cases b1; cases b2; cases b3; cases b4; cases b5; cases b6; cases b7)
      (simp_all add: ascii_lower_char_def char_of_def bit_0)
qed

lemma lower_bits_eq: "lower_bits = ascii_lower_char"
  by (rule ext) (rule lower_bits_iff)

lemma norm_path_code [code]:
  "norm_path ul s = trim_right backslash
    (if list_all seven_bit s then map (\<lambda>ch. if ch = slash then backslash else lower_bits ch) s
     else concat (map (norm_rune ul) (runes s)))"
  unfolding lower_bits_eq using norm_path_ascii [of s ul] by (auto simp: list_all_iff seven_bit_iff norm_path_def)

lemma ascii_lower_code [code]:
  "ascii_lower s = (if list_all seven_bit s then map lower_bits s
     else concat (map (\<lambda>r. utf8_encode (ascii_lower_rune r)) (runes s)))"
  using ascii_lower_ascii [of s] by (auto simp: list_all_iff seven_bit_iff lower_bits_iff ascii_lower_def)

lemma fold_bits: "of_char c < (128 :: nat) \<Longrightarrow> fold_ascii_rune (of_char c) = of_char (lower_bits c)"
  by (auto simp: fold_ascii_rune_def lower_bits_iff ascii_lower_char_def Let_def)

lemma equal_fold_literal_code [code]:
  "equal_fold_literal s t \<longleftrightarrow>
    (if list_all seven_bit s \<and> list_all seven_bit t then map lower_bits s = map lower_bits t
     else map fold_ascii_rune (runes s) = map fold_ascii_rune (runes t))"
proof (cases "list_all seven_bit s \<and> list_all seven_bit t")
  case True
  then have "map fold_ascii_rune (runes s) = map of_char (map lower_bits s)"
      "map fold_ascii_rune (runes t) = map of_char (map lower_bits t)"
    using runes_ascii [of s] runes_ascii [of t] fold_bits by (auto simp: list_all_iff seven_bit_iff)
  moreover have "inj (of_char :: char \<Rightarrow> nat)" by (rule injI) simp
  ultimately have "map fold_ascii_rune (runes s) = map fold_ascii_rune (runes t) \<longleftrightarrow> map lower_bits s = map lower_bits t"
    using inj_map_eq_map by metis
  with True show ?thesis by (simp add: equal_fold_literal_def)
qed (auto simp: equal_fold_literal_def)

end
