(* ===== verification/Disk_Selection.thy ===== *)
theory Disk_Selection
  imports Path_Rel Go_Sort Os_Model "HOL-Library.AList"
begin

text \<open>
  \<^verbatim>\<open>internal/core/disk_selection.go\<close>: what the user picked on the disk page.  The nearest
  included or excluded path above a file decides about it.  The two maps are association lists in
  the order in which Go ranges over them; no result depends on it.
\<close>

section \<open>The state\<close>

record selection =
  sel_selected :: "(string \<times> u64) list"
  sel_excluded :: "(string \<times> u64) list"

definition new_selection :: selection where
  "new_selection = \<lparr>sel_selected = [], sel_excluded = []\<rparr>"

definition has_key :: "(string \<times> u64) list \<Rightarrow> string \<Rightarrow> bool" where
  "has_key m p = (map_of m p \<noteq> None)"

definition explicit :: "selection \<Rightarrow> string \<Rightarrow> bool option" where
  "explicit s p = (if has_key (sel_excluded s) p then Some False else if has_key (sel_selected s) p then Some True else None)"

text \<open>The loop of \<^verbatim>\<open>IsSelected\<close> walks \<open>parents\<close>.\<close>

definition nearest :: "(string \<Rightarrow> bool option) \<Rightarrow> string \<Rightarrow> bool" where
  "nearest f p = (case find (\<lambda>q. f q \<noteq> None) (parents p) of None \<Rightarrow> False | Some q \<Rightarrow> f q = Some True)"

definition sel_is_selected :: "selection \<Rightarrow> string \<Rightarrow> bool" where
  "sel_is_selected s path = nearest (explicit s) (path_clean path)"

definition has_selected_ancestor :: "selection \<Rightarrow> string \<Rightarrow> bool" where
  "has_selected_ancestor s path = list_ex (has_key (sel_selected s)) (tl (parents path))"

section \<open>Changing it\<close>

text \<open>The body of the two loops that drop a selection which an ancestor covers anyway.\<close>

definition drop_covered :: "string \<times> u64 \<Rightarrow> selection \<Rightarrow> selection" where
  "drop_covered e s =
    (case e of (p, sz) \<Rightarrow>
      let s' = s\<lparr>sel_selected := AList.delete p (sel_selected s)\<rparr> in
      if sel_is_selected s' p then s' else s'\<lparr>sel_selected := AList.update p sz (sel_selected s')\<rparr>)"

definition drop_idle_exclusions :: "selection \<Rightarrow> selection" where
  "drop_idle_exclusions s = s\<lparr>sel_excluded := filter (\<lambda>(p, sz). has_selected_ancestor s p) (sel_excluded s)\<rparr>"

definition prune_below :: "string \<Rightarrow> string \<times> u64 \<Rightarrow> selection \<Rightarrow> selection" where
  "prune_below path e s =
    (case e of (p, sz) \<Rightarrow> if p = path \<or> \<not> path_within p path then s else drop_covered (p, sz) s)"

definition toggle :: "string \<Rightarrow> u64 \<Rightarrow> selection \<Rightarrow> selection" where
  "toggle path0 sz s =
    (let path = path_clean path0 in
     if sel_is_selected s path then
       if has_key (sel_selected s) path then
         drop_idle_exclusions (s\<lparr>sel_selected := AList.delete path (sel_selected s)\<rparr>)
       else s\<lparr>sel_excluded := AList.update path sz (sel_excluded s)\<rparr>
     else if has_key (sel_excluded s) path then s\<lparr>sel_excluded := AList.delete path (sel_excluded s)\<rparr>
     else
       let s1 = s\<lparr>sel_selected := AList.update path sz (sel_selected s)\<rparr> in
       fold (prune_below path) (sel_selected s1) s1)"

definition set_one :: "string \<Rightarrow> u64 \<Rightarrow> bool \<Rightarrow> selection \<Rightarrow> selection" where
  "set_one path sz on s = (if sel_is_selected s path \<noteq> on then toggle path sz s else s)"

definition set_row :: "bool \<Rightarrow> string \<times> u64 \<Rightarrow> selection \<Rightarrow> selection" where
  "set_row on row s =
    (let path = path_clean (fst row) in
     if on then
       let s1 = s\<lparr>sel_excluded := AList.delete path (sel_excluded s)\<rparr> in
       if sel_is_selected s1 path then s1 else s1\<lparr>sel_selected := AList.update path (snd row) (sel_selected s1)\<rparr>
     else if has_key (sel_selected s) path then s\<lparr>sel_selected := AList.delete path (sel_selected s)\<rparr>
     else if sel_is_selected s path then s\<lparr>sel_excluded := AList.update path (snd row) (sel_excluded s)\<rparr>
     else s)"

definition prune_covered :: "string \<times> u64 \<Rightarrow> selection \<Rightarrow> selection" where
  "prune_covered e s = (if has_selected_ancestor s (fst e) then drop_covered e s else s)"

definition set_many :: "string list \<Rightarrow> u64 list \<Rightarrow> bool \<Rightarrow> selection \<Rightarrow> selection" where
  "set_many paths sizes on s =
    (if paths = [] \<or> length paths \<noteq> length sizes then s
     else
       let s1 = fold (set_row on) (zip paths sizes) s in
       drop_idle_exclusions (fold prune_covered (sel_selected s1) s1))"

definition sel_clear :: "selection \<Rightarrow> selection" where
  "sel_clear s = s\<lparr>sel_selected := [], sel_excluded := []\<rparr>"

definition sel_len :: "selection \<Rightarrow> nat" where
  "sel_len s = length (sel_selected s)"

definition sel_is_empty :: "selection \<Rightarrow> bool" where
  "sel_is_empty s = (sel_len s = 0)"

definition total_size :: "selection \<Rightarrow> u64" where
  "total_size s =
    saturating_sub (fold (\<lambda>(p, n) acc. saturating_add acc n) (sel_selected s) 0)
      (fold (\<lambda>(p, n) acc. saturating_add acc n) (sel_excluded s) 0)"

definition selected_roots :: "selection \<Rightarrow> string list" where
  "selected_roots s = sort_by string_less (map fst (sel_selected s))"

definition child_selected :: "selection \<Rightarrow> string \<Rightarrow> bool \<Rightarrow> bool" where
  "child_selected s path0 parent_selected =
    (let path = path_clean path0 in
     if has_key (sel_excluded s) path then False else if has_key (sel_selected s) path then True else parent_selected)"

section \<open>Targets\<close>

text \<open>
  \<^verbatim>\<open>expand\<close> of \<^verbatim>\<open>ResolveTargets\<close>; \<open>k\<close> bounds its depth.  An error of \<^verbatim>\<open>os.ReadDir\<close> is
  ignored: the entries read before it are used.
\<close>

definition splits :: "selection \<Rightarrow> string \<Rightarrow> bool" where
  "splits s path = list_ex (\<lambda>(p, sz). p \<noteq> path \<and> path_within p path) (sel_excluded s)"

fun expand_root :: "nat \<Rightarrow> 'w env \<Rightarrow> selection \<Rightarrow> string \<Rightarrow> string list \<Rightarrow> ('w, string list) act" where
  "expand_root 0 e s path out = act_stop"
| "expand_root (Suc k) e s path out =
    (if has_key (sel_excluded s) path then act_ret out
     else if \<not> splits s path then act_ret (out @ [path])
     else act_bind (act_lstat e path) (\<lambda>r. case r of
       Inl _ \<Rightarrow> act_ret out
     | Inr info \<Rightarrow>
         if \<not> fi_dir info \<or> fi_symlink info then act_ret out
         else act_bind (act_os (os_list (e_os e) path)) (\<lambda>entries.
           act_fold (\<lambda>c out. expand_root k e s (path_join path (de_name c)) out) entries out)))"

definition resolve_targets :: "nat \<Rightarrow> 'w env \<Rightarrow> selection \<Rightarrow> ('w, string list) act" where
  "resolve_targets k e s =
    act_bind (act_fold (expand_root k e s) (selected_roots s) []) (\<lambda>out. act_ret (sort_by string_less out))"

section \<open>Nearest entries\<close>

lemma nearest_rec:
  "nearest f p = (case f p of Some b \<Rightarrow> b | None \<Rightarrow> if path_dir p = p then False else nearest f (path_dir p))"
  by (subst nearest_def, subst parents.simps) (auto simp: nearest_def split: option.splits)

lemma nearest_eq:
  assumes "\<And>q. f' q = f q \<or> nearest f' q = nearest f q"
  shows "nearest f' q = nearest f q"
proof (induction q rule: parents.induct)
  case (1 q)
  then show ?case using assms [of q] by (subst (1 2) nearest_rec) (auto simp: nearest_rec [of _ q] split: option.splits)
qed

lemma nearest_eq_at: "(\<And>q. q \<noteq> p \<Longrightarrow> f' q = f q) \<Longrightarrow> nearest f' p = nearest f p \<Longrightarrow> nearest f' q = nearest f q"
  by (rule nearest_eq) metis

lemma nearest_no_true: "(\<And>r. r \<in> set (parents q) \<Longrightarrow> f r \<noteq> Some True) \<Longrightarrow> \<not> nearest f q"
  by (auto simp: nearest_def find_Some_iff split: option.splits)

lemma parents_rank: "q \<in> set (parents p) \<Longrightarrow> dir_rank q \<le> dir_rank p"
proof (induction p rule: parents.induct)
  case (1 p)
  then show ?case using path_dir_rank [of p] by (subst (asm) parents.simps) (auto split: if_splits)
qed

lemma nearest_above: "path_dir p \<noteq> p \<Longrightarrow> nearest (f(p := x)) (path_dir p) = nearest f (path_dir p)"
proof -
  assume "path_dir p \<noteq> p"
  then have "p \<notin> set (parents (path_dir p))" using path_dir_rank [of p] parents_rank [of p "path_dir p"] by auto
  then have "find (\<lambda>q. (f(p := x)) q \<noteq> None) (parents (path_dir p)) = find (\<lambda>q. f q \<noteq> None) (parents (path_dir p))"
    by (intro find_cong) auto
  moreover have "(f(p := x)) q = f q" if "find (\<lambda>q. f q \<noteq> None) (parents (path_dir p)) = Some q" for q
  proof -
    from that have "q \<in> set (parents (path_dir p))" by (auto simp: find_Some_iff)
    with \<open>p \<notin> _\<close> show ?thesis by auto
  qed
  ultimately show ?thesis by (auto simp: nearest_def split: option.splits)
qed

definition parent_state :: "(string \<Rightarrow> bool option) \<Rightarrow> string \<Rightarrow> bool" where
  "parent_state f p = (if path_dir p = p then False else nearest f (path_dir p))"

lemma nearest_clear: "nearest (f(p := None)) p = parent_state f p"
  by (subst nearest_rec) (simp add: parent_state_def nearest_above)

lemma nearest_here: "f p = Some b \<Longrightarrow> nearest f p = b"
  by (subst nearest_rec) simp

lemma nearest_set [simp]: "nearest (f(p := Some b)) p = b"
  by (subst nearest_rec) simp

section \<open>Invariant\<close>

definition clean_keys :: "(string \<times> u64) list \<Rightarrow> bool" where
  "clean_keys m = list_all (\<lambda>(p, sz). path_clean p = p) m"

definition selection_ok :: "selection \<Rightarrow> bool" where
  "selection_ok s \<longleftrightarrow> distinct (map fst (sel_selected s)) \<and> distinct (map fst (sel_excluded s)) \<and>
     (\<forall>p. has_key (sel_selected s) p \<longrightarrow> \<not> has_key (sel_excluded s) p) \<and>
     clean_keys (sel_selected s) \<and> clean_keys (sel_excluded s)"

lemma has_key_alist [simp]:
  "has_key (AList.update p v m) q = (q = p \<or> has_key m q)" "has_key (AList.delete p m) q = (q \<noteq> p \<and> has_key m q)"
  by (auto simp: has_key_def update_conv' delete_conv')

lemma has_key_filter: "has_key (filter (\<lambda>(p, v). P p) m) q = (P q \<and> has_key m q)"
  by (induction m) (auto simp: has_key_def)

lemma clean_alist:
  "clean_keys m \<Longrightarrow> path_clean p = p \<Longrightarrow> clean_keys (AList.update p v m)"
  "clean_keys m \<Longrightarrow> clean_keys (AList.delete p m)" "clean_keys m \<Longrightarrow> clean_keys (filter P m)"
  by (induction m) (auto simp: clean_keys_def)

lemma explicit_None: "explicit s p = None \<longleftrightarrow> \<not> has_key (sel_excluded s) p \<and> \<not> has_key (sel_selected s) p"
  by (simp add: explicit_def)

section \<open>Dropping entries\<close>

lemma drop_covered_ok:
  assumes "selection_ok s" "map_of (sel_selected s) p = Some sz"
  shows "selection_ok (drop_covered (p, sz) s)" "nearest (explicit (drop_covered (p, sz) s)) q = nearest (explicit s) q"
    "\<And>r. r \<noteq> p \<Longrightarrow> map_of (sel_selected (drop_covered (p, sz) s)) r = map_of (sel_selected s) r"
proof -
  let ?s = "s\<lparr>sel_selected := AList.delete p (sel_selected s)\<rparr>"
  have in_p: "(p, sz) \<in> set (sel_selected s)" using assms(2) by (rule map_of_SomeD)
  then have p: "path_clean p = p" using assms(1) by (auto simp: selection_ok_def clean_keys_def list_all_iff)
  have key: "has_key (sel_selected s) p" using assms(2) by (simp add: has_key_def)
  show "selection_ok (drop_covered (p, sz) s)"
    using assms(1) key p unfolding selection_ok_def drop_covered_def Let_def
    by (auto simp: distinct_update distinct_delete intro: clean_alist)
  show "map_of (sel_selected (drop_covered (p, sz) s)) r = map_of (sel_selected s) r" if "r \<noteq> p" for r
    using that by (simp add: drop_covered_def Let_def update_conv' delete_conv')
  show "nearest (explicit (drop_covered (p, sz) s)) q = nearest (explicit s) q"
  proof (cases "sel_is_selected ?s p")
    case False
    then have "explicit (drop_covered (p, sz) s) = explicit s"
      using key by (auto simp: drop_covered_def Let_def explicit_def fun_eq_iff)
    then show ?thesis by simp
  next
    case True
    have "explicit s p = Some True"
      using assms(1) key by (simp add: explicit_def selection_ok_def)
    then have "nearest (explicit ?s) p = nearest (explicit s) p"
      using True by (simp add: sel_is_selected_def p nearest_here [of "explicit s"])
    moreover have "explicit ?s r = explicit s r" if "r \<noteq> p" for r using that by (simp add: explicit_def)
    ultimately have "nearest (explicit ?s) q = nearest (explicit s) q"
      by (rule nearest_eq_at [rotated])
    with True show ?thesis by (simp add: drop_covered_def Let_def)
  qed
qed

lemma fold_drop_ok:
  assumes "\<And>e s. g e s = s \<or> g e s = drop_covered e s" "selection_ok s"
    "distinct (map fst xs)" "\<And>p sz. (p, sz) \<in> set xs \<Longrightarrow> map_of (sel_selected s) p = Some sz"
  shows "selection_ok (fold g xs s) \<and> (\<forall>q. nearest (explicit (fold g xs s)) q = nearest (explicit s) q)"
  using assms(2-4)
proof (induction xs arbitrary: s)
  case (Cons e xs)
  obtain p sz where e: "e = (p, sz)" by (cases e)
  have m: "map_of (sel_selected s) p = Some sz" using Cons.prems(3) by (simp add: e)
  consider "g e s = s" | "g e s = drop_covered (p, sz) s" using assms(1) [of e s] by (auto simp: e)
  then show ?case
  proof cases
    case 1
    with Cons.IH [OF Cons.prems(1)] Cons.prems(2,3) show ?thesis by simp
  next
    case 2
    have "map_of (sel_selected (drop_covered (p, sz) s)) r = Some v" if r: "(r, v) \<in> set xs" for r v
    proof -
      have "r \<in> fst ` set xs" using r by force
      then have "r \<noteq> p" using Cons.prems(2) by (auto simp: e)
      then show ?thesis using drop_covered_ok(3) [OF Cons.prems(1) m, of r] Cons.prems(3) [of r v] r by simp
    qed
    with Cons.IH [OF drop_covered_ok(1) [OF Cons.prems(1) m]] Cons.prems(2) drop_covered_ok(2) [OF Cons.prems(1) m] 2
    show ?thesis by simp
  qed
qed simp

lemma drop_idle_ok:
  assumes "selection_ok s"
  shows "selection_ok (drop_idle_exclusions s)" "nearest (explicit (drop_idle_exclusions s)) q = nearest (explicit s) q"
proof -
  show "selection_ok (drop_idle_exclusions s)"
    using assms by (auto simp: selection_ok_def drop_idle_exclusions_def has_key_filter distinct_map_filter clean_alist)
  show "nearest (explicit (drop_idle_exclusions s)) q = nearest (explicit s) q"
  proof (rule nearest_eq)
    fix r
    show "explicit (drop_idle_exclusions s) r = explicit s r \<or>
      nearest (explicit (drop_idle_exclusions s)) r = nearest (explicit s) r"
    proof (cases "has_key (sel_excluded s) r \<and> \<not> has_selected_ancestor s r")
      case False
      then show ?thesis by (auto simp: explicit_def drop_idle_exclusions_def has_key_filter)
    next
      case True
      then have no: "\<not> has_key (sel_selected s) r'" if "r' \<in> set (parents r)" for r'
        using that assms parents.simps [of r]
        by (auto simp: has_selected_ancestor_def list_ex_iff selection_ok_def split: if_splits)
      have "\<not> nearest (explicit (drop_idle_exclusions s)) r"
        by (rule nearest_no_true) (use no in \<open>auto simp: explicit_def drop_idle_exclusions_def\<close>)
      moreover have "\<not> nearest (explicit s) r"
        by (rule nearest_no_true) (use no in \<open>auto simp: explicit_def\<close>)
      ultimately show ?thesis by simp
    qed
  qed
qed

section \<open>Toggling\<close>

lemma rooted_clean: "p \<noteq> [] \<Longrightarrow> hd p = slash \<Longrightarrow> path_clean (path_clean p) = path_clean p"
  by (rule path_clean_idem)

lemma nearest_explicit_eq: "(\<And>q. explicit s' q = f q) \<Longrightarrow> nearest (explicit s') = nearest f"
  by (rule arg_cong [where f = nearest], rule ext)

lemma selection_okD:
  assumes "selection_ok s"
  shows "distinct (map fst (sel_selected s))" "distinct (map fst (sel_excluded s))"
    "has_key (sel_selected s) r \<Longrightarrow> \<not> has_key (sel_excluded s) r"
    "clean_keys (sel_selected s)" "clean_keys (sel_excluded s)"
  using assms by (auto simp: selection_ok_def)

lemmas alist_facts = distinct_update distinct_delete clean_alist

lemma cleared:
  assumes "f p \<noteq> Some (parent_state f p)" "f p = Some b"
  shows "nearest (f(p := None)) r = nearest (f(p := Some (\<not> b))) r"
  by (rule nearest_eq_at [of p]) (use assms in \<open>auto simp: nearest_clear\<close>)

text \<open>The four branches, for a clean path.\<close>

lemma toggle_unselect:
  assumes "selection_ok s" "has_key (sel_selected s) p" "explicit s p \<noteq> Some (parent_state (explicit s) p)"
  defines "s' \<equiv> drop_idle_exclusions (s\<lparr>sel_selected := AList.delete p (sel_selected s)\<rparr>)"
  shows "selection_ok s' \<and> nearest (explicit s') r = nearest ((explicit s)(p := Some False)) r"
proof -
  let ?s = "s\<lparr>sel_selected := AList.delete p (sel_selected s)\<rparr>"
  note d = selection_okD [OF assms(1)]
  have "selection_ok ?s" using d by (auto simp: selection_ok_def alist_facts)
  moreover have "nearest (explicit ?s) = nearest ((explicit s)(p := None))"
    by (rule nearest_explicit_eq) (use d(3) [OF assms(2)] in \<open>auto simp: explicit_def\<close>)
  moreover have "explicit s p = Some True" using assms(2) d(3) by (simp add: explicit_def)
  ultimately show ?thesis using drop_idle_ok [of ?s] cleared [OF assms(3)] by (simp add: s'_def)
qed

lemma toggle_exclude:
  fixes sz :: u64
  assumes "selection_ok s" "\<not> has_key (sel_selected s) p" "path_clean p = p"
  defines "s' \<equiv> s\<lparr>sel_excluded := AList.update p sz (sel_excluded s)\<rparr>"
  shows "selection_ok s' \<and> nearest (explicit s') r = nearest ((explicit s)(p := Some False)) r"
proof -
  note d = selection_okD [OF assms(1)]
  have "selection_ok s'" using d assms(2,3) by (auto simp: selection_ok_def s'_def alist_facts)
  moreover have "nearest (explicit s') = nearest ((explicit s)(p := Some False))"
    by (rule nearest_explicit_eq) (auto simp: s'_def explicit_def)
  ultimately show ?thesis by simp
qed

lemma toggle_unexclude:
  assumes "selection_ok s" "has_key (sel_excluded s) p" "explicit s p \<noteq> Some (parent_state (explicit s) p)"
  defines "s' \<equiv> s\<lparr>sel_excluded := AList.delete p (sel_excluded s)\<rparr>"
  shows "selection_ok s' \<and> nearest (explicit s') r = nearest ((explicit s)(p := Some True)) r"
proof -
  note d = selection_okD [OF assms(1)]
  have "selection_ok s'" using d by (auto simp: selection_ok_def s'_def alist_facts)
  moreover have "nearest (explicit s') = nearest ((explicit s)(p := None))"
    by (rule nearest_explicit_eq) (use assms(2) d(3) in \<open>auto simp: s'_def explicit_def\<close>)
  moreover have ex: "explicit s p = Some False" using assms(2) by (simp add: explicit_def)
  ultimately show ?thesis using cleared [OF assms(3) ex, of r] by simp
qed

lemma toggle_select:
  fixes sz :: u64
  assumes "selection_ok s" "\<not> has_key (sel_excluded s) p" "path_clean p = p"
    and g: "\<And>e s. g e s = s \<or> g e s = drop_covered e s"
  defines "s1 \<equiv> s\<lparr>sel_selected := AList.update p sz (sel_selected s)\<rparr>"
  shows "selection_ok (fold g (sel_selected s1) s1) \<and>
    nearest (explicit (fold g (sel_selected s1) s1)) r = nearest ((explicit s)(p := Some True)) r"
proof -
  note d = selection_okD [OF assms(1)]
  have s1: "selection_ok s1" using d assms(2,3) by (auto simp: selection_ok_def s1_def alist_facts)
  moreover have "nearest (explicit s1) = nearest ((explicit s)(p := Some True))"
    by (rule nearest_explicit_eq) (use assms(2) in \<open>auto simp: s1_def explicit_def\<close>)
  moreover have "selection_ok (fold g (sel_selected s1) s1) \<and>
    (\<forall>q. nearest (explicit (fold g (sel_selected s1) s1)) q = nearest (explicit s1) q)"
    by (rule fold_drop_ok [OF g s1]) (use selection_okD(1) [OF s1] in auto)
  ultimately show ?thesis by simp
qed

lemma prune_below_cases: "prune_below path e s = s \<or> prune_below path e s = drop_covered e s"
  by (auto simp: prune_below_def split: prod.splits)

text \<open>
  Toggling an absolute path keeps the two maps well formed (different
  clean paths, none both selected and excluded) and turns its selection into the opposite, for
  itself and for everything below it that no nearer entry decides; nothing else changes.  The
  hypothesis is that the entry of the path, if it has one, differs from what its parent gives it.
\<close>

theorem toggle_flips:
  assumes "selection_ok s" "path \<noteq> []" "hd path = slash"
    and "explicit s (path_clean path) \<noteq> Some (parent_state (explicit s) (path_clean path))"
  shows "selection_ok (toggle path sz s) \<and> sel_is_selected (toggle path sz s) q =
     nearest ((explicit s)(path_clean path := Some (\<not> sel_is_selected s path))) (path_clean q)"
proof -
  define p where "p = path_clean path"
  have pp: "path_clean p = p" using assms(2,3) by (simp add: p_def rooted_clean)
  have sel: "sel_is_selected s path = sel_is_selected s p" using pp by (simp add: sel_is_selected_def p_def)
  have t: "toggle path sz s = (if sel_is_selected s p then
       if has_key (sel_selected s) p then drop_idle_exclusions (s\<lparr>sel_selected := AList.delete p (sel_selected s)\<rparr>)
       else s\<lparr>sel_excluded := AList.update p sz (sel_excluded s)\<rparr>
     else if has_key (sel_excluded s) p then s\<lparr>sel_excluded := AList.delete p (sel_excluded s)\<rparr>
     else let s1 = s\<lparr>sel_selected := AList.update p sz (sel_selected s)\<rparr> in fold (prune_below p) (sel_selected s1) s1)"
    by (simp add: toggle_def Let_def p_def)
  note need = assms(4) [folded p_def]
  have "selection_ok (toggle path sz s) \<and>
    nearest (explicit (toggle path sz s)) r = nearest ((explicit s)(p := Some (\<not> sel_is_selected s p))) r" for r
    unfolding t Let_def
    using toggle_unselect [OF assms(1) _ need] toggle_exclude [OF assms(1) _ pp] toggle_unexclude [OF assms(1) _ need]
      toggle_select [where g = "prune_below p", OF assms(1) _ pp prune_below_cases] by simp
  then show ?thesis by (simp add: sel_is_selected_def [of "toggle path sz s"] sel p_def)
qed

section \<open>Selecting many rows\<close>

text \<open>\<open>f\<close> leaves out entries of \<open>g\<close> that select what is selected anyway.\<close>

definition leaner :: "(string \<Rightarrow> bool option) \<Rightarrow> (string \<Rightarrow> bool option) \<Rightarrow> bool" where
  "leaner f g \<longleftrightarrow> (\<forall>r. f r = g r \<or> f r = None \<and> g r = Some True \<and> nearest f r)"

lemma leaner_nearest: "leaner f g \<Longrightarrow> nearest f q = nearest g q"
  by (rule nearest_eq) (use nearest_here [of g] in \<open>auto simp: leaner_def\<close>)

lemma nearest_down: "nearest f (path_dir q) \<Longrightarrow> path_dir q \<noteq> q \<Longrightarrow> f q \<noteq> Some False \<Longrightarrow> nearest f q"
  by (subst nearest_rec) (auto split: option.splits)

lemma nearest_up: "nearest f q \<Longrightarrow> f q \<noteq> Some True \<Longrightarrow> path_dir q \<noteq> q \<and> nearest f (path_dir q) \<and> f q = None"
  using nearest_rec [of f q] by (auto split: option.splits if_splits)

lemma nearest_mono: "nearest f q \<Longrightarrow> nearest (f(p := Some True)) q"
proof (induction q rule: parents.induct)
  case (1 q)
  show ?case
  proof (cases "q = p \<or> f q = Some True")
    case True
    then have "(f(p := Some True)) q = Some True" by auto
    then show ?thesis by (simp only: nearest_here)
  next
    case False
    with nearest_up [OF "1.prems"] have up: "path_dir q \<noteq> q" "nearest f (path_dir q)" "(f(p := Some True)) q \<noteq> Some False" by auto
    from nearest_down [OF "1.IH" [OF up(1,2)] up(1,3)] show ?thesis .
  qed
qed

lemma leaner_select:
  assumes "leaner f g" "f' = f(p := Some True) \<or> f' = f(p := None) \<and> nearest f' p"
  shows "leaner f' (g(p := Some True))"
proof -
  have eq: "nearest f' r = nearest (f(p := Some True)) r" for r
    by (rule nearest_eq_at [of p]) (use assms(2) in auto)
  have "f' r = g r \<or> f' r = None \<and> g r = Some True \<and> nearest f' r" if "r \<noteq> p" for r
    using assms that nearest_mono [of f r p] eq [of r] by (auto simp: leaner_def)
  then show ?thesis using assms(2) eq [of p] by (auto simp: leaner_def)
qed

lemma set_row_select:
  assumes "selection_ok s" "path_clean (path_clean path) = path_clean path" "leaner (explicit s) g"
  shows "selection_ok (set_row True (path, sz) s) \<and> leaner (explicit (set_row True (path, sz) s)) (g(path_clean path := Some True))"
proof -
  let ?p = "path_clean path"
  let ?s1 = "s\<lparr>sel_excluded := AList.delete ?p (sel_excluded s)\<rparr>"
  note d = selection_okD [OF assms(1)]
  have s1: "selection_ok ?s1" using d by (auto simp: selection_ok_def alist_facts)
  have e1: "explicit ?s1 = (explicit s)(?p := (if has_key (sel_selected s) ?p then Some True else None))"
    by (auto simp: explicit_def fun_eq_iff)
  show ?thesis
  proof (cases "sel_is_selected ?s1 ?p")
    case True
    have "leaner (explicit ?s1) (g(?p := Some True))"
      by (rule leaner_select [OF assms(3)]) (use True in \<open>auto simp: e1 sel_is_selected_def assms(2)\<close>)
    with True s1 show ?thesis by (simp add: set_row_def Let_def)
  next
    case False
    let ?s2 = "?s1\<lparr>sel_selected := AList.update ?p sz (sel_selected ?s1)\<rparr>"
    have "selection_ok ?s2" using selection_okD [OF s1] assms(2) by (auto simp: selection_ok_def alist_facts)
    moreover have "explicit ?s2 = (explicit s)(?p := Some True)" by (auto simp: explicit_def fun_eq_iff)
    ultimately show ?thesis using False leaner_select [OF assms(3)] by (simp add: set_row_def Let_def)
  qed
qed

lemma set_rows_select:
  assumes "selection_ok s" "list_all (\<lambda>(p, sz). path_clean (path_clean p) = path_clean p) rows" "leaner (explicit s) g"
  shows "selection_ok (fold (set_row True) rows s) \<and>
    leaner (explicit (fold (set_row True) rows s)) (\<lambda>r. if r \<in> path_clean ` fst ` set rows then Some True else g r)"
  using assms
proof (induction rows arbitrary: s g)
  case (Cons row rows)
  obtain p sz where row: "row = (p, sz)" by (cases row)
  from set_row_select [OF Cons.prems(1) _ Cons.prems(3), of p sz] Cons.prems(2)
  have "selection_ok (set_row True row s)" "leaner (explicit (set_row True row s)) (g(path_clean p := Some True))"
    by (simp_all add: row)
  from Cons.IH [OF this(1) _ this(2)] Cons.prems(2)
  have "selection_ok (fold (set_row True) (row # rows) s) \<and> leaner (explicit (fold (set_row True) (row # rows) s))
      (\<lambda>r. if r \<in> path_clean ` fst ` set rows then Some True else (g(path_clean p := Some True)) r)" by simp
  moreover have "(\<lambda>r. if r \<in> path_clean ` fst ` set rows then Some True else (g(path_clean p := Some True)) r) =
      (\<lambda>r. if r \<in> path_clean ` fst ` set (row # rows) then Some True else g r)" by (auto simp: row fun_eq_iff)
  ultimately show ?case by simp
qed simp

lemma prune_covered_cases: "prune_covered e s = s \<or> prune_covered e s = drop_covered e s"
  by (simp add: prune_covered_def)

text \<open>
  Selecting many absolute rows at once keeps the maps well formed and
  selects every row, and below a row everything that no nearer entry decides; explicit exclusions
  below the rows keep their effect.
\<close>

theorem set_many_selects:
  assumes "selection_ok s" "paths \<noteq> []" "length paths = length sizes" "list_all (\<lambda>p. p \<noteq> [] \<and> hd p = slash) paths"
  shows "selection_ok (set_many paths sizes True s) \<and> sel_is_selected (set_many paths sizes True s) q =
    nearest (\<lambda>r. if r \<in> path_clean ` set paths then Some True else explicit s r) (path_clean q)"
proof -
  let ?s1 = "fold (set_row True) (zip paths sizes) s"
  let ?s2 = "fold prune_covered (sel_selected ?s1) ?s1"
  have rows: "fst ` set (zip paths sizes) = set paths" using assms(3) by (metis map_fst_zip set_map)
  have "list_all (\<lambda>(p, sz). path_clean (path_clean p) = path_clean p) (zip paths sizes)"
    using assms(4) by (auto simp: list_all_iff rooted_clean dest: set_zip_leftD)
  from set_rows_select [OF assms(1) this, of "explicit s"]
  have s1: "selection_ok ?s1" "leaner (explicit ?s1) (\<lambda>r. if r \<in> path_clean ` set paths then Some True else explicit s r)"
    by (auto simp: leaner_def rows)
  have s2: "selection_ok ?s2 \<and> (\<forall>q. nearest (explicit ?s2) q = nearest (explicit ?s1) q)"
    by (rule fold_drop_ok [OF prune_covered_cases s1(1)]) (use selection_okD(1) [OF s1(1)] in auto)
  from s2 drop_idle_ok [of ?s2] leaner_nearest [OF s1(2)] assms(2,3) show ?thesis
    by (simp add: set_many_def Let_def sel_is_selected_def)
qed

section \<open>Entries that say nothing\<close>

text \<open>
  Without the hypothesis of \<open>toggle_flips\<close> it does not hold: taking an exclusion back leaves the
  entries below it, which then repeat what their parent gives them.  Toggling such a path once
  changes nothing that the user sees, and its size is counted twice.
\<close>

definition redundant_selection :: selection where
  "redundant_selection = toggle ''/a/b'' 4 (toggle ''/a/b/c'' 1 (toggle ''/a/b'' 4 (toggle ''/a'' 10 new_selection)))"

lemma redundant_toggle:
  "sel_is_selected redundant_selection ''/a/b/c'' \<and> sel_is_selected (toggle ''/a/b/c'' 1 redundant_selection) ''/a/b/c'' \<and>
   total_size redundant_selection = 11 \<and> total_size (toggle ''/a'' 10 new_selection) = 10"
  by code_simp

lemma sample_selection_ok: "selection_ok (toggle ''/a'' 10 new_selection)"
proof -
  have "toggle ''/a'' 10 new_selection = \<lparr>sel_selected = [(''/a'', 10)], sel_excluded = []\<rparr>" by code_simp
  then show ?thesis by (simp add: selection_ok_def has_key_def clean_keys_def) code_simp
qed

theorem toggle_flips_witness:
  "\<not> sel_is_selected (toggle ''/a/b'' 4 (toggle ''/a'' 10 new_selection)) ''/a/b/c'' \<and>
   sel_is_selected (toggle ''/a/b'' 4 (toggle ''/a'' 10 new_selection)) ''/a/d''"
proof -
  let ?s = "toggle ''/a'' 10 new_selection"
  have "explicit ?s (path_clean ''/a/b'') \<noteq> Some (parent_state (explicit ?s) (path_clean ''/a/b''))" by code_simp
  note t = toggle_flips [OF sample_selection_ok _ _ this, of 4]
  have "\<not> nearest ((explicit ?s)(path_clean ''/a/b'' := Some (\<not> sel_is_selected ?s ''/a/b''))) (path_clean ''/a/b/c'')"
    "nearest ((explicit ?s)(path_clean ''/a/b'' := Some (\<not> sel_is_selected ?s ''/a/b''))) (path_clean ''/a/d'')"
    by code_simp+
  with t [of "''/a/b/c''"] t [of "''/a/d''"] show ?thesis by simp
qed

theorem set_many_selects_witness:
  "sel_is_selected (set_many [''/a/b'', ''/c''] [1, 2] True (toggle ''/a'' 10 new_selection)) ''/c/d''"
proof -
  let ?s = "toggle ''/a'' 10 new_selection"
  have "nearest (\<lambda>r. if r \<in> path_clean ` set [''/a/b'', ''/c''] then Some True else explicit ?s r) (path_clean ''/c/d'')"
    by code_simp
  with set_many_selects [OF sample_selection_ok, of "[''/a/b'', ''/c'']" "[1, 2]" "''/c/d''"] show ?thesis by simp
qed

section \<open>Targets keep what is excluded\<close>

definition spares :: "selection \<Rightarrow> string \<Rightarrow> bool" where
  "spares s t = list_all (\<lambda>(p, sz). p \<noteq> t \<and> \<not> path_within p t) (sel_excluded s)"

lemma spares_leaf: "\<not> has_key (sel_excluded s) path \<Longrightarrow> \<not> splits s path \<Longrightarrow> spares s path"
  by (auto simp: spares_def splits_def list_all_iff list_ex_iff has_key_def map_of_eq_None_iff) force+

lemma act_fold_keeps:
  assumes "act_fold f xs b s = (Some c, s')" "P b" "\<And>x b s c s'. x \<in> set xs \<Longrightarrow> P b \<Longrightarrow> f x b s = (Some c, s') \<Longrightarrow> P c"
  shows "P c"
  using assms
proof (induction xs arbitrary: b s)
  case (Cons x xs)
  from Cons.prems(1) obtain b1 s1 where st: "f x b s = (Some b1, s1)" "act_fold f xs b1 s1 = (Some c, s')"
    by (auto elim: act_bindE)
  have "P b1" using Cons.prems(3) [of x b s b1 s1] Cons.prems(2) st(1) by simp
  then show ?case using Cons.IH [OF st(2)] Cons.prems(3) by (meson list.set_intros(2))
qed simp

lemma expand_spares:
  "expand_root k e s path out st = (Some out', st') \<Longrightarrow> list_all (spares s) out \<Longrightarrow> list_all (spares s) out'"
proof (induction k arbitrary: path out st out' st')
  case (Suc k)
  from Suc.prems consider "out' = out" | "out' = out @ [path]" "\<not> has_key (sel_excluded s) path" "\<not> splits s path"
    | entries :: "dir_entry list" and st1 where "act_fold (\<lambda>c. expand_root k e s (path_join path (de_name c))) entries out st1 = (Some out', st')"
    by (auto elim!: act_bindE split: if_splits sum.splits)
  then show ?case
  proof cases
    case (3 entries st1)
    show ?thesis by (rule act_fold_keeps [where P = "list_all (spares s)", OF 3 Suc.prems(2)]) (rule Suc.IH)
  qed (use Suc.prems(2) spares_leaf in auto)
qed (simp add: act_stop_def)

text \<open>
  Property C40: no target that the selection resolves to is an excluded path
  or has one below it, whatever the disk answers while the folders are split.
\<close>

theorem resolve_targets_spares:
  assumes "resolve_targets k e s st = (Some targets, st')"
  shows "list_all (spares s) targets"
proof -
  obtain out st1 where f: "act_fold (expand_root k e s) (selected_roots s) [] st = (Some out, st1)"
    and t: "targets = sort_by string_less out"
    using assms by (auto simp: resolve_targets_def elim!: act_bindE)
  have "list_all (spares s) out"
    by (rule act_fold_keeps [OF f]) (auto intro: expand_spares)
  then show ?thesis by (simp add: t list_all_iff)
qed

text \<open>
  Splitting ends: a folder is split only while an excluded path lies below it, so the depth is
  bounded by the longest of them.  \<open>proper_listings\<close> is what \<^verbatim>\<open>os.ReadDir\<close> promises of names.
\<close>

definition proper_listings :: "'w env \<Rightarrow> bool" where
  "proper_listings e \<longleftrightarrow> (\<forall>path w. list_all (\<lambda>c. plain (de_name c)) (fst (os_list (e_os e) path w)))"

definition absolute_keys :: "(string \<times> u64) list \<Rightarrow> bool" where
  "absolute_keys m = list_all (\<lambda>(p, sz). p = rooted (comps p)) m"

definition split_depth :: "selection \<Rightarrow> nat" where
  "split_depth s = Max (insert 0 ((\<lambda>(p, sz). length (comps p)) ` set (sel_excluded s)))"

lemma split_bound:
  assumes "splits s (rooted ws)" "absolute_keys (sel_excluded s)" "list_all plain ws"
  shows "length ws < split_depth s"
proof -
  obtain p sz where p: "(p, sz) \<in> set (sel_excluded s)" "p \<noteq> rooted ws" "path_within p (rooted ws)"
    using assms(1) by (auto simp: splits_def list_ex_iff)
  then have r: "p = rooted (comps p)" using assms(2) by (auto simp: absolute_keys_def list_all_iff)
  with p(3) path_within_rooted [OF assms(3) comps_plain] have "prefix ws (comps p)" by metis
  with p(2) r have "length ws < length (comps p)" by (metis prefix_length_less strict_prefixI)
  also have "\<dots> \<le> split_depth s" unfolding split_depth_def by (rule Max_ge) (use p(1) in force)+
  finally show ?thesis .
qed

lemma act_fold_returns:
  assumes "\<And>x b s. x \<in> set xs \<Longrightarrow> P b \<Longrightarrow> \<exists>c s'. f x b s = (Some c, s') \<and> P c" "P b"
  shows "\<exists>c s'. act_fold f xs b s = (Some c, s') \<and> P c"
  using assms
proof (induction xs arbitrary: b s)
  case (Cons x xs)
  obtain c s1 where c: "f x b s = (Some c, s1)" "P c" using Cons.prems by (meson list.set_intros(1))
  obtain d s2 where "act_fold f xs c s1 = (Some d, s2)" "P d" using Cons.IH [OF _ c(2), of s1] Cons.prems(1) by (meson list.set_intros(2))
  with c show ?case by (auto simp: act_bind_def)
qed simp

lemma child_state:
  assumes "list_all plain ws" "plain w" "sel_is_selected s (rooted ws)"
  shows "sel_is_selected s (rooted (ws @ [w])) \<or> has_key (sel_excluded s) (rooted (ws @ [w]))"
proof -
  have d: "path_dir (rooted (ws @ [w])) = rooted ws" using path_dir_rooted [of ws w] assms(1,2) by simp
  moreover have "rooted ws \<noteq> rooted (ws @ [w])" using rooted_inj [of ws "ws @ [w]"] assms(1,2) by auto
  ultimately show ?thesis
    using nearest_down [of "explicit s" "rooted (ws @ [w])"] assms
    by (auto simp: sel_is_selected_def path_clean_rooted explicit_def split: if_splits)
qed

lemma expand_returns:
  assumes "proper_listings e" "absolute_keys (sel_excluded s)"
  shows "list_all plain ws \<Longrightarrow> split_depth s < length ws + k \<Longrightarrow> 0 < k \<Longrightarrow> list_all (sel_is_selected s) out \<Longrightarrow>
    sel_is_selected s (rooted ws) \<or> has_key (sel_excluded s) (rooted ws) \<Longrightarrow>
    \<exists>out' st'. expand_root k e s (rooted ws) out st = (Some out', st') \<and> list_all (sel_is_selected s) out'"
proof (induction k arbitrary: ws out st)
  case (Suc k)
  consider "has_key (sel_excluded s) (rooted ws) \<or> \<not> splits s (rooted ws)"
    | "\<not> has_key (sel_excluded s) (rooted ws)" "splits s (rooted ws)" by blast
  then show ?case
  proof cases
    case 1
    with Suc.prems show ?thesis by auto
  next
    case 2
    have k: "split_depth s < Suc (length ws) + k" "0 < k"
      using Suc.prems(2) split_bound [OF 2(2) assms(2) Suc.prems(1)] by auto
    obtain md st1 where l: "act_lstat e (rooted ws) st = (Some md, st1)"
      by (cases "os_lstat (e_os e) (rooted ws) (ps_world st)") (auto simp: act_lstat_def act_os_def)
    obtain es st2 where d: "act_os (os_list (e_os e) (rooted ws)) st1 = (Some es, st2)"
      by (cases "os_list (e_os e) (rooted ws) (ps_world st1)") (auto simp: act_os_def)
    have names: "list_all (\<lambda>c. plain (de_name c)) es"
      using d assms(1) [unfolded proper_listings_def, rule_format, of "rooted ws" "ps_world st1"]
      by (auto simp: act_os_def split: sum.splits prod.splits)
    have "\<exists>out' st'. act_fold (\<lambda>c out. expand_root k e s (path_join (rooted ws) (de_name c)) out)
        es out st2 = (Some out', st') \<and> list_all (sel_is_selected s) out'"
    proof (rule act_fold_returns)
      fix c out st
      assume c: "c \<in> set es" and o: "list_all (sel_is_selected s) out"
      then have pl: "plain (de_name c)" using names by (auto simp: list_all_iff)
      then have ws: "list_all plain (ws @ [de_name c])" using Suc.prems(1) by simp
      have "sel_is_selected s (rooted (ws @ [de_name c])) \<or> has_key (sel_excluded s) (rooted (ws @ [de_name c]))"
        using child_state [OF Suc.prems(1) pl, of s] Suc.prems(5) 2(1) by blast
      from Suc.IH [OF ws _ k(2) o this, of st] k(1) path_join_plain [OF Suc.prems(1) pl]
      show "\<exists>out' st'. expand_root k e s (path_join (rooted ws) (de_name c)) out st = (Some out', st') \<and> list_all (sel_is_selected s) out'"
        by simp
    qed (rule Suc.prems(4))
    then show ?thesis using 2 l d Suc.prems(4)
      by (cases md) (auto simp: act_bind_def)
  qed
qed simp

text \<open>
  Resolving the targets ends, with a depth of one more than
  that of the deepest excluded path, and every target it returns is selected.
\<close>

theorem resolve_targets_returns:
  assumes "proper_listings e" "selection_ok s" "absolute_keys (sel_selected s)" "absolute_keys (sel_excluded s)"
  shows "\<exists>targets st'. resolve_targets (Suc (split_depth s)) e s st = (Some targets, st') \<and>
    list_all (sel_is_selected s) targets"
proof -
  have "\<exists>out st'. act_fold (expand_root (Suc (split_depth s)) e s) (selected_roots s) [] st = (Some out, st') \<and>
      list_all (sel_is_selected s) out"
  proof (rule act_fold_returns)
    fix root out st
    assume r: "root \<in> set (selected_roots s)" and o: "list_all (sel_is_selected s) out"
    then have root: "root = rooted (comps root)" and key: "has_key (sel_selected s) root"
      using assms(3) by (auto simp: selected_roots_def absolute_keys_def list_all_iff has_key_def map_of_eq_None_iff)
    have "explicit s root = Some True" using key selection_okD(3) [OF assms(2) key] by (simp add: explicit_def)
    then have "nearest (explicit s) root" using nearest_here [of "explicit s" root True] by simp
    moreover have "path_clean root = root" using path_clean_rooted [OF comps_plain [of root]] root by metis
    ultimately have "sel_is_selected s (rooted (comps root))" using root by (simp add: sel_is_selected_def)
    then show "\<exists>out' st'. expand_root (Suc (split_depth s)) e s root out st = (Some out', st') \<and> list_all (sel_is_selected s) out'"
      using expand_returns [where k = "Suc (split_depth s)" and st = st, OF assms(1,4) comps_plain [of root] _ _ o] root by simp
  qed simp
  then show ?thesis by (auto simp: resolve_targets_def act_bind_def list_all_iff)
qed

end
