(* ===== verification/Plan_Sample.thy ===== *)
theory Plan_Sample
  imports Plan_Safety Eval_Paths Disk_Selection "HOL-Library.Code_Target_Nat"
begin

text \<open>
  A disk in memory and a plan on it, at which the properties of plans are applied: the files are a
  list of paths with their metadata, a removal takes a path out of it, nothing is open and no call
  is refused.
\<close>

type_synonym disk = "(string \<times> file_info) list"

definition sample_info :: "bool \<Rightarrow> u64 \<Rightarrow> file_info" where
  "sample_info dir i = \<lparr>fi_dir = dir, fi_link = False, fi_symlink = False, fi_regular = \<not> dir, fi_length = 1, fi_alloc = 1,
     fi_writable = True, fi_mtime = 0, fi_mtime_zero = False, fi_ids = Some (1, i)\<rparr>"

definition disk_lstat :: "string \<Rightarrow> disk \<Rightarrow> (os_error + file_info) \<times> disk" where
  "disk_lstat path w = ((case map_of w path of None \<Rightarrow> Inl NotExist | Some md \<Rightarrow> Inr md), w)"

definition disk_children :: "string \<Rightarrow> disk \<Rightarrow> dir_entry list" where
  "disk_children path w = map (\<lambda>(p, md). \<lparr>de_name = path_base p, de_dir = fi_dir md, de_info = Inr md\<rparr>)
     (filter (\<lambda>(p, md). path_dir p = path \<and> p \<noteq> path \<and> plain (path_base p)) w)"

definition disk_remove :: "string \<Rightarrow> disk \<Rightarrow> os_error option \<times> disk" where
  "disk_remove path w =
    (if map_of w path = None then (Some NotExist, w)
     else if disk_children path w \<noteq> [] then (Some NotEmpty, w)
     else (None, filter (\<lambda>(p, md). p \<noteq> path) w))"

definition disk_os :: "disk os" where
  "disk_os = \<lparr>os_lstat = disk_lstat, os_stat = disk_lstat,
     os_read_dir = (\<lambda>path w. (Inr (disk_children path w), w)), os_list = (\<lambda>path w. (disk_children path w, w)), os_object_id = (\<lambda>_ w. (None, w)),
     os_is_open = (\<lambda>_ w. ((False, True), w)), os_now = (\<lambda>w. (0, w)), os_cancelled = (\<lambda>w. (False, w)),
     os_order = (\<lambda>n w. ([0..<n], w)), os_remove = disk_remove, os_remove_exclusive = disk_remove,
     os_make_writable = (\<lambda>_ w. (None, w)), os_force_access = (\<lambda>_ w. (None, w)), os_move_to_trash = disk_remove\<rparr>"

definition disk_env :: "disk env" where
  "disk_env = \<lparr>e_lower = (\<lambda>r. r), e_policy = \<lparr>goos = ''linux'', windows = ''c:'', home = [], process_home = [],
     public = [], known = []\<rparr>, e_whitelist = [], e_os = disk_os\<rparr>"

definition disk_rule_env :: "disk rule_env" where
  "disk_rule_env = \<lparr>re_env = disk_env, re_eval_symlinks = (\<lambda>p w. (Inr p, w)), re_read_link = (\<lambda>p w. (Inl OtherError, w)),
     re_abs = (\<lambda>p w. (Inr p, w)), re_read_file = (\<lambda>_ _ w. (Inr [], w)),
     re_read_some = (\<lambda>path _ w. (Inr (disk_children path w), w)), re_unmarshal = (\<lambda>_. None), re_sha256 = (\<lambda>s. s),
     re_error_text = (\<lambda>_. ''error''), re_run_tool = (\<lambda>_ _ _ w. (None, w)), re_uid = ''0'', re_sid = None, re_user_home = None\<rparr>"

definition disk_state :: "disk pst" where
  "disk_state = \<lparr>ps_world = [(''/t'', sample_info True 1), (''/t/a'', sample_info False 2), (''/t/b'', sample_info False 3)],
     ps_progress = new_clean_progress 1 1, ps_trace = []\<rparr>"

definition sample_rule :: rule_definition where
  "sample_rule = \<lparr>rd_id = ''r'', rd_version = 1, rd_platform = ''linux'', rd_required = [], rd_lists = [], rd_numbers = [],
     rd_provider_policies = [], rd_categories = [], rd_entries = [], rd_version_layouts = [], rd_app = None, rd_facts = [], rd_variables = [],
     rd_detect = None, rd_preserve = [''keep'']\<rparr>"

definition sample_ref :: rule_ref where
  "sample_ref = RuleRef (Some \<lparr>rb_schema = 1, rb_sequence = 1, rb_rules = [sample_rule]\<rparr>) None ''r'' ''/s'' [] []
     (empty_observation\<lparr>ob_rule_id := ''r'', ob_version := 1, ob_detected := Confirmed\<rparr>)"

definition sample_target :: planned_target where
  "sample_target = \<lparr>pt_path = ''/t/a'', pt_operation = plain_operation OpFile,
     pt_identity = Some \<lparr>id_dev = 1, id_ino = 2, id_mtime = 0, id_length = 1, id_stable = None, id_is_dir = False\<rparr>, pt_disposal = Permanent\<rparr>"

definition sample_plan :: cleanup_plan where
  "sample_plan = \<lparr>cp_rule = sample_ref, cp_targets = [sample_target], cp_preserve = [''/s/keep''], cp_blocked = [],
     cp_installation = None, cp_official = None\<rparr>"

section \<open>The properties at this disk\<close>

lemma plan_sample_valid: "fst (plan_validate disk_rule_env sample_plan disk_state) = Some (Inr ())"
  by code_simp

theorem validated_targets_allowed_witness: "target_allowed disk_rule_env [''/s/keep''] sample_target"
proof -
  obtain s' where v: "plan_validate disk_rule_env sample_plan disk_state = (Some (Inr ()), s')"
    using plan_sample_valid by (cases "plan_validate disk_rule_env sample_plan disk_state") auto
  from validated_targets_allowed [OF v] show ?thesis
    by (simp add: sample_plan_def sample_target_def is_filesystem_backed_def removes_directory_def plain_operation_def)
qed

definition done_plan :: "flow_report option \<times> disk pst \<Rightarrow> bool" where
  "done_plan r = (case fst r of None \<Rightarrow> False | Some fr \<Rightarrow> execution_result fr = None \<and> length (fr_executions fr) = 1 \<and>
     map fst (ps_world (snd r)) = [''/t'', ''/t/b''])"

lemma sample_done: "done_plan (execute_filesystem_plan 1 disk_rule_env sample_plan 0 SpotClear disk_state)"
  by code_simp

lemma sample_run:
  obtains fr s' where "execute_filesystem_plan 1 disk_rule_env sample_plan 0 SpotClear disk_state = (Some fr, s')"
    "execution_result fr = None" "length (fr_executions fr) = 1"
  using sample_done by (cases "execute_filesystem_plan 1 disk_rule_env sample_plan 0 SpotClear disk_state")
    (auto simp: done_plan_def split: option.splits)

theorem execution_result_iff_complete_witness:
  "\<exists>fr s'. execute_filesystem_plan 1 disk_rule_env sample_plan 0 SpotClear disk_state = (Some fr, s') \<and>
     \<not> report_incomplete (fr_report fr)"
proof -
  obtain fr s' where r: "execute_filesystem_plan 1 disk_rule_env sample_plan 0 SpotClear disk_state = (Some fr, s')"
    "execution_result fr = None" by (rule sample_run)
  with execution_result_iff_complete [OF r(1) [unfolded execute_filesystem_plan_def]] show ?thesis by blast
qed

theorem execution_steps_chained_witness:
  "\<exists>fr s' pe. execute_filesystem_plan 1 disk_rule_env sample_plan 0 SpotClear disk_state = (Some fr, s') \<and>
     fr_executions fr = [pe] \<and> chained (map sr_status (pe_steps pe))"
proof -
  obtain fr s' where r: "execute_filesystem_plan 1 disk_rule_env sample_plan 0 SpotClear disk_state = (Some fr, s')"
    "length (fr_executions fr) = 1" by (rule sample_run)
  then obtain pe where "fr_executions fr = [pe]" by (auto simp: length_Suc_conv)
  with execution_steps_chained [OF r(1) [unfolded execute_filesystem_plan_def]] r(1) show ?thesis by simp
qed

theorem filesystem_plan_complete_witness:
  "\<exists>u s'. filesystem_completion disk_rule_env (PathAbsent ''/t/a'') u = (Some Confirmed, s')"
proof -
  obtain fr s' where r: "execute_filesystem_plan 1 disk_rule_env sample_plan 0 SpotClear disk_state = (Some fr, s')"
    "execution_result fr = None" by (rule sample_run)
  from filesystem_plan_complete [OF r] show ?thesis
    by (auto simp: target_of_def sample_plan_def target_completion_def sample_target_def plain_operation_def)
qed

definition scan_start :: installation where
  "scan_start = \<lparr>in_root = ''/t'', in_artifacts = []\<rparr>"

definition scan_found :: "(failure option \<times> installation) option \<times> disk pst \<Rightarrow> bool" where
  "scan_found r = (case fst r of Some (None, j) \<Rightarrow> map ia_path (in_artifacts j) = [''/t/a'', ''/t/b''] | _ \<Rightarrow> False)"

lemma sample_scan: "scan_found (observe_scan_paths disk_rule_env [''/t/a'', ''/t/b'', ''/T/a''] scan_start disk_state)"
  by code_simp

theorem observe_scan_paths_ok_witness:
  "\<exists>j. installation_ok disk_rule_env j \<and> map ia_path (in_artifacts j) = [''/t/a'', ''/t/b'']"
proof -
  obtain j s' where r: "observe_scan_paths disk_rule_env [''/t/a'', ''/t/b'', ''/T/a''] scan_start disk_state = (Some (None, j), s')"
    "map ia_path (in_artifacts j) = [''/t/a'', ''/t/b'']"
    using sample_scan by (cases "observe_scan_paths disk_rule_env [''/t/a'', ''/t/b'', ''/T/a''] scan_start disk_state")
      (auto simp: scan_found_def split: option.splits prod.splits)
  have "installation_ok disk_rule_env scan_start" by (simp add: installation_ok_def scan_start_def)
  from observe_scan_paths_ok [OF r(1) this] have "installation_ok disk_rule_env j" by (elim conjE)
  with r(2) show ?thesis by (intro exI [of _ j] conjI)
qed

section \<open>A selection on this disk\<close>

definition sample_selection :: selection where
  "sample_selection = \<lparr>sel_selected = [(''/t'', 2)], sel_excluded = [(''/t/b'', 1)]\<rparr>"

definition resolved :: "string list option \<times> disk pst \<Rightarrow> bool" where
  "resolved r = (fst r = Some [''/t/a''])"

lemma sample_resolved: "resolved (resolve_targets 3 disk_env sample_selection disk_state)"
  by code_simp

theorem resolve_targets_spares_witness: "spares sample_selection ''/t/a''"
proof -
  obtain st' where "resolve_targets 3 disk_env sample_selection disk_state = (Some [''/t/a''], st')"
    using sample_resolved by (cases "resolve_targets 3 disk_env sample_selection disk_state") (auto simp: resolved_def)
  from resolve_targets_spares [OF this] show ?thesis by simp
qed

theorem resolve_targets_returns_witness:
  "\<exists>targets st'. resolve_targets (Suc (split_depth sample_selection)) disk_env sample_selection disk_state = (Some targets, st') \<and>
     list_all (sel_is_selected sample_selection) targets"
proof (rule resolve_targets_returns)
  show "proper_listings disk_env"
    by (auto simp: proper_listings_def disk_env_def disk_os_def disk_children_def list_all_iff)
  show "selection_ok sample_selection"
    by (simp add: selection_ok_def sample_selection_def has_key_def clean_keys_def) code_simp
  show "absolute_keys (sel_selected sample_selection)" "absolute_keys (sel_excluded sample_selection)" by code_simp+
qed

end
