(* ===== verification/Scan_Targets.thy ===== *)
theory Scan_Targets
  imports Plan
begin

text \<open>
  \<^verbatim>\<open>internal/core/categories.go\<close>: what a scan looks at, how contributions to the same
  path are merged, how covered paths disappear into the path above, and how a target is split around
  what its rules preserve.
\<close>

section \<open>Targets of a scan\<close>

datatype category = SystemTemp | UserTemp | UserCache | BrowserCache | PackageCache | UpdaterPackages | Logs
  | RecycleBinCategory | Thumbnails | BrokenLoginItems | AiAgents | DevBuild | DevWorktrees | LocalSnapshots
  | IosBackup | OldIdeData | DockerImages | OtherCategory string

definition all_categories :: "category list" where
  "all_categories = [SystemTemp, UserTemp, UserCache, BrowserCache, PackageCache, UpdaterPackages, Logs,
     RecycleBinCategory, Thumbnails, BrokenLoginItems, AiAgents, DevBuild, DevWorktrees, LocalSnapshots,
     IosBackup, OldIdeData, DockerImages]"

definition category_id :: "category \<Rightarrow> string" where
  "category_id c = (case c of SystemTemp \<Rightarrow> ''SystemTemp'' | UserTemp \<Rightarrow> ''UserTemp'' | UserCache \<Rightarrow> ''UserCache''
     | BrowserCache \<Rightarrow> ''BrowserCache'' | PackageCache \<Rightarrow> ''PackageCache'' | UpdaterPackages \<Rightarrow> ''UpdaterPackages''
     | Logs \<Rightarrow> ''Logs'' | RecycleBinCategory \<Rightarrow> ''RecycleBin'' | Thumbnails \<Rightarrow> ''Thumbnails''
     | BrokenLoginItems \<Rightarrow> ''BrokenLoginItems'' | AiAgents \<Rightarrow> ''AiAgents'' | DevBuild \<Rightarrow> ''DevBuild''
     | DevWorktrees \<Rightarrow> ''DevWorktrees'' | LocalSnapshots \<Rightarrow> ''LocalSnapshots'' | IosBackup \<Rightarrow> ''IosBackup''
     | OldIdeData \<Rightarrow> ''OldIdeData'' | DockerImages \<Rightarrow> ''DockerImages'' | OtherCategory s \<Rightarrow> s)"

text \<open>\<open>rules\<close> is the result of \<^verbatim>\<open>CurrentRules\<close>, \<open>None\<close> when they cannot be loaded.\<close>

definition policy_of_category :: "rule_bundle option \<Rightarrow> category \<Rightarrow> category_policy" where
  "policy_of_category rules c =
    (case rules of
       Some b \<Rightarrow> (case category_policy_of b (category_id c) of
         Some p \<Rightarrow> p | None \<Rightarrow> \<lparr>ct_safety = ''danger'', ct_group = ''developer''\<rparr>)
     | None \<Rightarrow> \<lparr>ct_safety = ''danger'', ct_group = ''developer''\<rparr>)"

definition default_selected :: "rule_bundle option \<Rightarrow> category \<Rightarrow> bool" where
  "default_selected rules c = (ct_safety (policy_of_category rules c) = ''safe'')"

definition is_developer :: "rule_bundle option \<Rightarrow> category \<Rightarrow> bool" where
  "is_developer rules c = (ct_group (policy_of_category rules c) = ''developer'')"

definition is_discovered :: "category \<Rightarrow> bool" where
  "is_discovered c = (c = DevBuild)"

record label =
  lb_zh :: string
  lb_en :: string

record app_owner =
  ao_name :: label
  ao_processes :: "string list"

record scan_target =
  sc_operation :: operation
  sc_disposal :: disposal
  sc_rule :: rule_ref
  sc_path :: string
  sc_label :: label
  sc_category :: category
  sc_recommended :: bool
  sc_size_hint :: "u64 option"
  sc_owner :: "app_owner option"

definition provider_target ::
  "'w rule_env \<Rightarrow> rule_snapshot option \<Rightarrow> string \<Rightarrow> string \<Rightarrow> string \<Rightarrow> label \<Rightarrow> category \<Rightarrow> operation \<Rightarrow> bool \<Rightarrow> ('w, scan_target) act" where
  "provider_target re snapshot rule key path lbl cat opn recommended =
    act_bind (provider_rule_ref re snapshot rule key) (\<lambda>r.
    let p = (case snapshot of None \<Rightarrow> None | Some s \<Rightarrow> provider_policy_of (sn_bundle s) rule key);
        disp = (case p of None \<Rightarrow> Permanent | Some q \<Rightarrow> pp_disposal q) in
    act_ret \<lparr>sc_operation = opn, sc_disposal = disp,
      sc_rule = (if disp = RecycleBin \<and> op_kind opn \<noteq> OpFile \<and> op_kind opn \<noteq> OpTree
        then block_ref ''Provider disposal conflicts with its typed operation'' r else r),
      sc_path = path, sc_label = lbl, sc_category = cat,
      sc_recommended = (recommended \<and> (case p of None \<Rightarrow> False | Some q \<Rightarrow> pp_recommended q)),
      sc_size_hint = None, sc_owner = None\<rparr>)"

section \<open>Merging\<close>

text \<open>The same path from several contributors.\<close>

definition join_same :: "scan_target \<Rightarrow> scan_target \<Rightarrow> scan_target" where
  "join_same first t =
    (let f1 = (if sc_operation first \<noteq> sc_operation t \<or> sc_disposal first \<noteq> sc_disposal t
           then first\<lparr>sc_rule := block_ref ''Conflicting cleanup policies for the same target'' (sc_rule first), sc_recommended := False\<rparr>
           else first) in
     f1\<lparr>sc_rule := merge_ref (sc_rule f1) (sc_rule t), sc_recommended := sc_recommended f1 \<and> sc_recommended t,
        sc_owner := (if sc_owner f1 = None then sc_owner t else sc_owner f1)\<rparr>)"

definition merge_contributor :: "'w rule_env \<Rightarrow> scan_target \<Rightarrow> scan_target list \<Rightarrow> scan_target list" where
  "merge_contributor re t merged =
    (let key = rule_norm re (sc_path t) in
     if list_ex (\<lambda>m. rule_norm re (sc_path m) = key) merged
     then map (\<lambda>m. if rule_norm re (sc_path m) = key then join_same m t else m) merged
     else merged @ [t])"

text \<open>A path below another: the one it disappears into is the shortest.\<close>

definition covers :: "'w rule_env \<Rightarrow> scan_target \<Rightarrow> scan_target \<Rightarrow> bool" where
  "covers re p t \<longleftrightarrow>
    rule_norm re (sc_path p) \<noteq> rule_norm re (sc_path t) \<and> operation_covers_subtree (sc_operation p) \<and>
    at_or_under (rule_norm re (sc_path t)) (rule_norm re (sc_path p))"

definition cover_parent :: "'w rule_env \<Rightarrow> scan_target list \<Rightarrow> nat \<Rightarrow> nat option" where
  "cover_parent re ms i =
    fold (\<lambda>j best. if i \<noteq> j \<and> covers re (ms ! j) (ms ! i) \<and>
        (case best of None \<Rightarrow> True
         | Some b \<Rightarrow> length (rule_norm re (sc_path (ms ! j))) < length (rule_norm re (sc_path (ms ! b))))
      then Some j else best) [0..<length ms] None"

definition join_below :: "scan_target \<Rightarrow> scan_target \<Rightarrow> scan_target" where
  "join_below p child =
    (let p1 = (if sc_disposal p \<noteq> sc_disposal child
           then p\<lparr>sc_rule := block_ref ''Conflicting cleanup policies for the same subtree'' (sc_rule p), sc_recommended := False\<rparr>
           else p) in
     p1\<lparr>sc_rule := merge_ref (sc_rule p1) (sc_rule child), sc_recommended := sc_recommended p1 \<and> sc_recommended child\<rparr>)"

definition absorb :: "'w rule_env \<Rightarrow> nat \<Rightarrow> scan_target list \<Rightarrow> scan_target list" where
  "absorb re i ms =
    (case cover_parent re ms i of None \<Rightarrow> ms | Some p \<Rightarrow> ms[p := join_below (ms ! p) (ms ! i)])"

definition remaining :: "'w rule_env \<Rightarrow> scan_target list \<Rightarrow> scan_target list" where
  "remaining re ms =
    map (\<lambda>i. fold (absorb re) [0..<length ms] ms ! i) (filter (\<lambda>i. cover_parent re ms i = None) [0..<length ms])"

section \<open>Splitting around preserved paths\<close>

definition split_child :: "scan_target \<Rightarrow> string \<Rightarrow> (os_error + file_info) \<Rightarrow> scan_target" where
  "split_child parent name r =
    (let sep = map char_of [0x20, 0xC2, 0xB7, 0x20 :: nat];
         opn = (if op_kind (sc_operation parent) = OpContents then plain_operation OpTree else sc_operation parent) in
     parent\<lparr>sc_path := path_join (sc_path parent) name, sc_size_hint := None,
       sc_label := \<lparr>lb_zh = lb_zh (sc_label parent) @ sep @ name, lb_en = lb_en (sc_label parent) @ sep @ name\<rparr>,
       sc_operation := (case r of Inr md \<Rightarrow> if fi_regular md then plain_operation OpFile else opn | Inl _ \<Rightarrow> opn)\<rparr>)"

definition is_kept :: "'w rule_env \<Rightarrow> string list \<Rightarrow> string \<Rightarrow> bool" where
  "is_kept re keep path = list_ex (\<lambda>k. rule_norm re k = rule_norm re path) keep"

definition keeps_below :: "'w rule_env \<Rightarrow> string list \<Rightarrow> string \<Rightarrow> bool" where
  "keeps_below re keep path = list_ex (\<lambda>k. at_or_under (rule_norm re k) (rule_norm re path)) keep"

type_synonym split_state = "(scan_target list \<times> nat) option"

definition split_entry ::
  "(scan_target \<Rightarrow> nat \<Rightarrow> ('w, split_state) act) \<Rightarrow> 'w rule_env \<Rightarrow> scan_target \<Rightarrow> string list \<Rightarrow> dir_entry \<Rightarrow> split_state \<Rightarrow> ('w, split_state) act" where
  "split_entry nested re parent keep c st =
    (case st of
       None \<Rightarrow> act_ret None
     | Some (out, budget) \<Rightarrow>
         if budget = 0 then act_ret None
         else act_bind (act_lstat (re_env re) (path_join (sc_path parent) (de_name c))) (\<lambda>r.
           let child = split_child parent (de_name c) r in
           if is_kept re keep (sc_path child) then act_ret st
           else if keeps_below re keep (sc_path child) then
             act_bind (nested child (budget - 1)) (\<lambda>sub. act_ret (case sub of
               None \<Rightarrow> None | Some (cs, b) \<Rightarrow> Some (out @ cs, b)))
           else act_ret (Some (out @ [child], budget - 1))))"

definition split_level ::
  "(scan_target \<Rightarrow> nat \<Rightarrow> ('w, split_state) act) \<Rightarrow> 'w rule_env \<Rightarrow> scan_target \<Rightarrow> string list \<Rightarrow> nat \<Rightarrow> ('w, split_state) act" where
  "split_level nested re parent keep budget =
    act_bind (act_os (os_read_dir (e_os (re_env re)) (sc_path parent))) (\<lambda>r. case r of
      Inl _ \<Rightarrow> act_ret None
    | Inr entries \<Rightarrow> act_fold (split_entry nested re parent keep) entries (Some ([], budget)))"

text \<open>\<^verbatim>\<open>splitPreservedTarget\<close> with the depth that is left.\<close>

primrec split_preserved ::
  "nat \<Rightarrow> 'w rule_env \<Rightarrow> string list \<Rightarrow> scan_target \<Rightarrow> nat \<Rightarrow> ('w, split_state) act" where
  "split_preserved 0 re keep parent budget = split_level (\<lambda>_ _. act_ret None) re parent keep budget"
| "split_preserved (Suc d) re keep parent budget = split_level (split_preserved d re keep) re parent keep budget"

definition needs_split :: "'w rule_env \<Rightarrow> scan_target \<Rightarrow> string list \<Rightarrow> bool" where
  "needs_split re t keep \<longleftrightarrow>
    (op_kind (sc_operation t) = OpTree \<or> op_kind (sc_operation t) = OpContents) \<and>
    list_ex (\<lambda>k. rule_norm re k \<noteq> rule_norm re (sc_path t) \<and> at_or_under (rule_norm re k) (rule_norm re (sc_path t))) keep"

definition emit_target :: "'w rule_env \<Rightarrow> scan_target \<Rightarrow> scan_target list \<Rightarrow> ('w, scan_target list) act" where
  "emit_target re t out =
    act_bind (preserved re False (sc_rule t)) (\<lambda>keep.
      if needs_split re t keep then
        act_bind (split_preserved 8 re keep t 4096) (\<lambda>r. act_ret (case r of
          None \<Rightarrow> out @ [t] | Some (cs, b) \<Rightarrow> out @ cs))
      else act_ret (out @ [t]))"

definition normalize_scan_targets :: "'w rule_env \<Rightarrow> scan_target list \<Rightarrow> ('w, scan_target list) act" where
  "normalize_scan_targets re targets =
    act_fold (emit_target re) (remaining re (fold (merge_contributor re) targets [])) []"

section \<open>What a split spares\<close>

lemma fold_option_keeps:
  assumes "act_fold f xs st s = (Some (Some r), s')" "\<And>x s u s'. x \<in> set xs \<Longrightarrow> f x None s = (u, s') \<Longrightarrow> u = Some None"
    "pred_option P st" "\<And>x a s b s'. x \<in> set xs \<Longrightarrow> P a \<Longrightarrow> f x (Some a) s = (Some (Some b), s') \<Longrightarrow> P b"
  shows "P r"
  using assms
proof (induction xs arbitrary: st s)
  case (Cons x xs)
  then obtain st1 s1 where st1: "f x st s = (Some st1, s1)" "act_fold f xs st1 s1 = (Some (Some r), s')"
    by (auto elim: act_bindE)
  have "pred_option P st1"
  proof (cases st)
    case None
    with Cons.prems(2) [of x s] st1(1) show ?thesis by fastforce
  next
    case (Some a)
    with Cons.prems(3) have "P a" by simp
    with Some Cons.prems(4) [of x a s] st1(1) show ?thesis by (cases st1) auto
  qed
  show ?case
  proof (rule Cons.IH [OF st1(2)])
    show "pred_option P st1" by fact
  qed (use Cons.prems(2,4) in \<open>meson list.set_intros(2)\<close>)+
qed simp

definition spared_by :: "'w rule_env \<Rightarrow> string list \<Rightarrow> scan_target list \<Rightarrow> bool" where
  "spared_by re keep out = list_all (\<lambda>t. \<not> keeps_below re keep (sc_path t)) out"

lemma split_level_spares:
  assumes "split_level nested re parent keep budget s = (Some (Some (out, b)), s')"
    and nested: "\<And>child n s out b s'. nested child n s = (Some (Some (out, b)), s') \<Longrightarrow> spared_by re keep out"
  shows "spared_by re keep out"
proof -
  obtain entries s1 where f: "act_fold (split_entry nested re parent keep) entries (Some ([], budget)) s1 = (Some (Some (out, b)), s')"
    using assms(1) by (auto simp: split_level_def elim!: act_bindE split: sum.splits)
  have "case (out, b) of (o1, _) \<Rightarrow> spared_by re keep o1"
  proof (rule fold_option_keeps [OF f])
    fix c a s r s'
    assume a: "case a of (o1, _) \<Rightarrow> spared_by re keep o1"
      and st: "split_entry nested re parent keep c (Some a) s = (Some (Some r), s')"
    obtain o1 n where an: "a = (o1, n)" by (cases a)
    from st a show "case r of (o1, _) \<Rightarrow> spared_by re keep o1"
      unfolding an
      by (auto simp: split_entry_def Let_def spared_by_def elim!: act_bindE split: if_splits option.splits dest!: nested)
  qed (auto simp: split_entry_def spared_by_def)
  then show ?thesis by simp
qed

text \<open>
  Property C21: when a target is split around the paths its rules preserve,
  no piece is such a path or contains one, at any depth.
\<close>

theorem split_preserved_spares:
  assumes "split_preserved depth re keep target budget s = (Some (Some (pieces, left)), s')"
  shows "list_all (\<lambda>t. list_all (\<lambda>k. \<not> at_or_under (rule_norm re k) (rule_norm re (sc_path t))) keep) pieces"
proof -
  have "spared_by re keep pieces"
    using assms
  proof (induction depth arbitrary: target budget s pieces left s')
    case 0
    then show ?case unfolding split_preserved.simps by (rule split_level_spares) simp
  next
    case (Suc depth)
    show ?case by (rule split_level_spares [OF Suc.prems [unfolded split_preserved.simps]]) (rule Suc.IH)
  qed
  then show ?thesis by (auto simp: spared_by_def keeps_below_def list_all_iff list_ex_iff)
qed

section \<open>Preserved paths survive merging\<close>

text \<open>What a reference preserves, from what was observed when it was taken.\<close>

fun kept_paths :: "rule_ref \<Rightarrow> string list" where
  "kept_paths (RuleRef s og i sc cs b ob) =
    concat (map kept_paths cs) @
    (case (if sc = [] then None else ref_definition s i) of None \<Rightarrow> []
     | Some d \<Rightarrow> expand_preserved sc (ob_variables ob) (preserve_templates d))"

lemma act_all_rets: "act_all (map (\<lambda>x. act_ret (f x)) xs) = act_ret (map f xs)"
proof (induction xs)
  case (Cons x xs)
  then show ?case by (simp add: act_bind_def act_ret_def fun_eq_iff)
qed simp

lemma preserved_kept: "preserved re False r = act_ret (kept_paths r)"
proof (induction r)
  case (RuleRef s og i sc cs b ob)
  have "map (preserved re False) cs = map (\<lambda>c. act_ret (kept_paths c)) cs"
    using RuleRef by (rule map_cong [OF refl])
  then have "act_all (map (preserved re False) cs) = act_ret (map kept_paths cs)"
    by (simp only: act_all_rets)
  then show ?case
    unfolding preserved.simps kept_paths.simps
    by (simp only:) (simp add: act_bind_def act_ret_def fun_eq_iff Let_def split: option.splits)
qed

lemma kept_without_addresses: "kept_paths (without_addresses r) = kept_paths r"
proof (induction r)
  case (RuleRef s og i sc cs b ob)
  then have "map (kept_paths \<circ> without_addresses) cs = map kept_paths cs" by simp
  then show ?case by (simp only: without_addresses.simps kept_paths.simps map_map)
qed

lemma kept_deep_equal: "deep_equal r other \<Longrightarrow> kept_paths r = kept_paths other"
  unfolding deep_equal_def by (metis kept_without_addresses)

lemma kept_block [simp]: "kept_paths (block_ref why r) = kept_paths r"
  by (cases r) simp

lemma kept_merge:
  "set (kept_paths r) \<subseteq> set (kept_paths (merge_ref r other)) \<and> set (kept_paths other) \<subseteq> set (kept_paths (merge_ref r other))"
proof (cases "deep_equal r other")
  case True
  then show ?thesis using kept_deep_equal [OF True] by (simp add: merge_ref_def)
next
  case False
  obtain s og i sc cs b ob where r: "r = RuleRef s og i sc cs b ob" by (cases r)
  show ?thesis
  proof (cases "list_ex (\<lambda>c. deep_equal c other) cs")
    case True
    then obtain c where "c \<in> set cs" "kept_paths c = kept_paths other"
      using kept_deep_equal by (auto simp: list_ex_iff)
    with True show ?thesis by (auto simp: merge_ref_def r split del: option.splits)
  next
    case False
    with \<open>\<not> deep_equal r other\<close> show ?thesis by (auto simp: merge_ref_def r split del: option.splits)
  qed
qed

lemma kept_join:
  "set (kept_paths (sc_rule m)) \<subseteq> set (kept_paths (sc_rule (join_same m t)))"
  "set (kept_paths (sc_rule t)) \<subseteq> set (kept_paths (sc_rule (join_same m t)))"
  "set (kept_paths (sc_rule m)) \<subseteq> set (kept_paths (sc_rule (join_below m t)))"
  "set (kept_paths (sc_rule t)) \<subseteq> set (kept_paths (sc_rule (join_below m t)))"
  using kept_merge [of "sc_rule m" "sc_rule t"] kept_merge [of "block_ref x (sc_rule m)" "sc_rule t" for x]
  by (auto simp: join_same_def join_below_def Let_def)

lemma join_fields [simp]:
  "sc_path (join_same m t) = sc_path m" "sc_path (join_below m t) = sc_path m"
  "sc_operation (join_same m t) = sc_operation m" "sc_operation (join_below m t) = sc_operation m"
  by (simp_all add: join_same_def join_below_def Let_def)

text \<open>\<open>m\<close> speaks for \<open>t\<close>: it lies at or above it and preserves what it preserves.\<close>

definition speaks_for :: "'w rule_env \<Rightarrow> scan_target \<Rightarrow> scan_target \<Rightarrow> bool" where
  "speaks_for re m t \<longleftrightarrow> at_or_under (rule_norm re (sc_path t)) (rule_norm re (sc_path m)) \<and>
     set (kept_paths (sc_rule t)) \<subseteq> set (kept_paths (sc_rule m))"

lemma speaks_for_refl [simp]: "speaks_for re m m"
  by (simp add: speaks_for_def)

lemma speaks_for_join: "speaks_for re m t \<Longrightarrow> speaks_for re (join_same m u) t"
  using kept_join(1) [of m u] by (auto simp: speaks_for_def)

lemma speaks_for_join_new:
  "rule_norm re (sc_path m) = rule_norm re (sc_path t) \<Longrightarrow> speaks_for re (join_same m t) t"
  using kept_join(2) [of t m] by (simp add: speaks_for_def)

lemma merge_contributor_speaks:
  assumes "m \<in> set ms \<and> speaks_for re m t \<or> t = u"
  shows "\<exists>m \<in> set (merge_contributor re u ms). speaks_for re m t"
proof (cases "list_ex (\<lambda>m. rule_norm re (sc_path m) = rule_norm re (sc_path u)) ms")
  case True
  then obtain k where "k \<in> set ms" "rule_norm re (sc_path k) = rule_norm re (sc_path u)"
    by (auto simp: list_ex_iff)
  then have "\<exists>m \<in> set ms. speaks_for re
    (if rule_norm re (sc_path m) = rule_norm re (sc_path u) then join_same m u else m) t"
    using assms speaks_for_join [of re _ t u] speaks_for_join_new [of re k u] by (metis (full_types))
  moreover have eq: "merge_contributor re u ms =
    map (\<lambda>m. if rule_norm re (sc_path m) = rule_norm re (sc_path u) then join_same m u else m) ms"
    by (simp add: merge_contributor_def Let_def True)
  ultimately show ?thesis unfolding eq set_map by (elim bexE) (rule bexI, assumption, erule imageI)
next
  case False
  then have "merge_contributor re u ms = ms @ [u]" by (simp add: merge_contributor_def Let_def)
  then show ?thesis using assms by auto
qed

lemma merge_fold_speaks:
  "t \<in> set ts \<or> (\<exists>m \<in> set ms. speaks_for re m t) \<Longrightarrow> \<exists>m \<in> set (fold (merge_contributor re) ts ms). speaks_for re m t"
proof (induction ts arbitrary: ms)
  case (Cons u ts)
  then have "t \<in> set ts \<or> (\<exists>m \<in> set (merge_contributor re u ms). speaks_for re m t)"
    using merge_contributor_speaks [of _ ms re t u] by (cases "t = u") auto
  from Cons.IH [OF this] show ?case by simp
qed simp

section \<open>Covered targets\<close>

definition better_parent :: "'w rule_env \<Rightarrow> scan_target list \<Rightarrow> nat \<Rightarrow> nat \<Rightarrow> nat option \<Rightarrow> bool" where
  "better_parent re ms i n best =
    (case best of
       None \<Rightarrow> \<forall>j < n. i \<noteq> j \<longrightarrow> \<not> covers re (ms ! j) (ms ! i)
     | Some p \<Rightarrow> p < n \<and> i \<noteq> p \<and> covers re (ms ! p) (ms ! i) \<and>
         (\<forall>j < n. i \<noteq> j \<longrightarrow> covers re (ms ! j) (ms ! i) \<longrightarrow>
            length (rule_norm re (sc_path (ms ! p))) \<le> length (rule_norm re (sc_path (ms ! j)))))"

lemma cover_parent_best: "better_parent re ms i (length ms) (cover_parent re ms i)"
proof -
  define pick where "pick = (\<lambda>j best. if i \<noteq> j \<and> covers re (ms ! j) (ms ! i) \<and>
        (case best of None \<Rightarrow> True
         | Some b \<Rightarrow> length (rule_norm re (sc_path (ms ! j))) < length (rule_norm re (sc_path (ms ! b))))
      then Some j else best)"
  have "better_parent re ms i n (fold pick [0..<n] None)" for n
  proof (induction n)
    case (Suc n)
    show ?case
    proof (cases "fold pick [0..<n] None")
      case None
      with Suc show ?thesis by (auto simp: better_parent_def pick_def less_Suc_eq)
    next
      case (Some p)
      with Suc show ?thesis by (auto simp: better_parent_def pick_def less_Suc_eq intro: order.trans)
    qed
  qed (simp add: better_parent_def)
  then show ?thesis by (simp add: cover_parent_def pick_def)
qed

lemma cover_parent_None: "cover_parent re ms i = None \<longleftrightarrow> (\<forall>j < length ms. i \<noteq> j \<longrightarrow> \<not> covers re (ms ! j) (ms ! i))"
  using cover_parent_best [of re ms i] by (cases "cover_parent re ms i") (auto simp: better_parent_def)

lemma covers_longer: "covers re p t \<Longrightarrow> length (rule_norm re (sc_path p)) < length (rule_norm re (sc_path t))"
  unfolding covers_def at_or_under_iff by (elim conjE exE) simp

lemma covers_trans: "covers re q p \<Longrightarrow> covers re p t \<Longrightarrow> covers re q t"
  using covers_longer [of re q p] covers_longer [of re p t]
  unfolding covers_def by (metis at_or_under_trans less_asym)

text \<open>The parent a covered target disappears into is not covered itself.\<close>

lemma parent_uncovered:
  assumes "cover_parent re ms i = Some p"
  shows "p < length ms" "p \<noteq> i" "covers re (ms ! p) (ms ! i)" "cover_parent re ms p = None"
proof -
  have best: "better_parent re ms i (length ms) (Some p)"
    using cover_parent_best [of re ms i] assms by simp
  then show p: "p < length ms" "p \<noteq> i" "covers re (ms ! p) (ms ! i)"
    by (auto simp: better_parent_def)
  have "\<not> covers re (ms ! q) (ms ! p)" if q: "q < length ms" for q
  proof
    assume c: "covers re (ms ! q) (ms ! p)"
    have "q \<noteq> i" using covers_longer [OF c] covers_longer [OF p(3)] by auto
    then have "length (rule_norm re (sc_path (ms ! p))) \<le> length (rule_norm re (sc_path (ms ! q)))"
      using best q covers_trans [OF c p(3)] by (auto simp: better_parent_def)
    with covers_longer [OF c] show False by simp
  qed
  then show "cover_parent re ms p = None" by (simp add: cover_parent_None)
qed

section \<open>Absorbing the covered targets\<close>

definition same_place :: "scan_target \<Rightarrow> scan_target \<Rightarrow> bool" where
  "same_place m t \<longleftrightarrow> sc_path m = sc_path t \<and> sc_operation m = sc_operation t"

definition same_places :: "scan_target list \<Rightarrow> scan_target list \<Rightarrow> bool" where
  "same_places = list_all2 same_place"

lemma covers_same_place: "same_place p p' \<Longrightarrow> same_place t t' \<Longrightarrow> covers re p t = covers re p' t'"
  by (simp add: covers_def same_place_def)

lemma cover_parent_same_places:
  assumes "same_places ms ns" "i < length ms"
  shows "cover_parent re ms i = cover_parent re ns i"
proof -
  have len: "length ms = length ns" and at: "\<And>j. j < length ms \<Longrightarrow> same_place (ms ! j) (ns ! j)"
    using assms(1) by (auto simp: same_places_def list_all2_conv_all_nth)
  have path: "sc_path (ms ! j) = sc_path (ns ! j)" if "j < length ms" for j
    using at [OF that] by (simp add: same_place_def)
  define pick where "pick = (\<lambda>ms :: scan_target list. \<lambda>j best. if i \<noteq> j \<and> covers re (ms ! j) (ms ! i) \<and>
        (case best of None \<Rightarrow> True
         | Some b \<Rightarrow> length (rule_norm re (sc_path (ms ! j))) < length (rule_norm re (sc_path (ms ! b))))
      then Some j else best)"
  have "fold (pick ms) [0..<n] None = fold (pick ns) [0..<n] None \<and>
      pred_option (\<lambda>b. b < n) (fold (pick ms) [0..<n] None)" if "n \<le> length ms" for n
    using that
  proof (induction n)
    case (Suc n)
    then have IH: "fold (pick ms) [0..<n] None = fold (pick ns) [0..<n] None"
      "pred_option (\<lambda>b. b < n) (fold (pick ns) [0..<n] None)" by auto
    have c: "covers re (ms ! n) (ms ! i) = covers re (ns ! n) (ns ! i)"
      using Suc.prems assms(2) by (intro covers_same_place at) auto
    show ?case
      using IH Suc.prems path
      by (cases "fold (pick ns) [0..<n] None") (auto simp: pick_def c)
  qed simp
  from this [of "length ms"] show ?thesis by (simp add: cover_parent_def pick_def len)
qed

lemma same_places_refl [simp]: "same_places ms ms"
  by (simp add: same_places_def list_all2_refl same_place_def)

lemma same_places_at: "same_places ms ns \<Longrightarrow> i < length ms \<Longrightarrow> same_place (ms ! i) (ns ! i)"
  by (simp add: same_places_def list_all2_conv_all_nth)

lemma absorb_places: "same_places (absorb re i ms) ns = same_places ms ns"
proof (cases "cover_parent re ms i")
  case (Some p)
  then have "p < length ms" by (rule parent_uncovered)
  then show ?thesis
    by (auto simp: absorb_def Some same_places_def list_all2_conv_all_nth nth_list_update same_place_def)
qed (simp add: absorb_def)

lemma length_absorb [simp]: "length (absorb re i ms) = length ms"
  by (simp add: absorb_def split: option.split)

text \<open>After the first \<open>n\<close> targets were looked at.\<close>

definition absorbed :: "'w rule_env \<Rightarrow> scan_target list \<Rightarrow> nat \<Rightarrow> scan_target list \<Rightarrow> bool" where
  "absorbed re ms n cs \<longleftrightarrow> same_places cs ms \<and>
     (\<forall>i < length ms. set (kept_paths (sc_rule (ms ! i))) \<subseteq> set (kept_paths (sc_rule (cs ! i)))) \<and>
     (\<forall>i < n. \<forall>p. cover_parent re ms i = Some p \<longrightarrow>
        set (kept_paths (sc_rule (ms ! i))) \<subseteq> set (kept_paths (sc_rule (cs ! p))))"

lemma absorb_keeps:
  assumes "i < length cs"
  shows "set (kept_paths (sc_rule (cs ! i))) \<subseteq> set (kept_paths (sc_rule (absorb re n cs ! i)))"
  using assms kept_join(3) by (auto simp: absorb_def nth_list_update parent_uncovered(1) split: option.split)

lemma absorbed_step:
  assumes "absorbed re ms n cs" "n < length ms"
  shows "absorbed re ms (Suc n) (absorb re n cs)"
proof -
  have places: "same_places cs ms" and own: "\<And>i. i < length ms \<Longrightarrow> set (kept_paths (sc_rule (ms ! i))) \<subseteq> set (kept_paths (sc_rule (cs ! i)))"
    using assms(1) by (auto simp: absorbed_def)
  have len: "length cs = length ms" using places by (simp add: same_places_def list_all2_lengthD)
  have mono: "set (kept_paths (sc_rule (cs ! i))) \<subseteq> set (kept_paths (sc_rule (absorb re n cs ! i)))" if "i < length ms" for i
    by (rule absorb_keeps) (simp add: that len)
  have "set (kept_paths (sc_rule (ms ! i))) \<subseteq> set (kept_paths (sc_rule (absorb re n cs ! p)))"
    if i: "i < Suc n" "cover_parent re ms i = Some p" for i p
  proof (cases "i = n")
    case True
    have cp: "cover_parent re cs n = Some p"
      using cover_parent_same_places [OF places, of n re] i(2) assms(2) len True by simp
    have "p < length cs" using parent_uncovered(1) [OF i(2)] len by simp
    then have "absorb re n cs ! p = join_below (cs ! p) (cs ! n)" by (simp add: absorb_def cp)
    then show ?thesis using own [OF assms(2)] kept_join(4) [of "cs ! n" "cs ! p"] True by auto
  next
    case False
    with i have "set (kept_paths (sc_rule (ms ! i))) \<subseteq> set (kept_paths (sc_rule (cs ! p)))"
      using assms(1) by (simp add: absorbed_def)
    then show ?thesis using mono [OF parent_uncovered(1) [OF i(2)]] by blast
  qed
  then show ?thesis
    using own mono places by (fastforce simp: absorbed_def absorb_places)
qed

lemma absorbed_all: "n \<le> length ms \<Longrightarrow> absorbed re ms n (fold (absorb re) [0..<n] ms)"
proof (induction n)
  case (Suc n)
  then show ?case using absorbed_step [of re ms n] by simp
qed (simp add: absorbed_def)

lemma remaining_speaks:
  assumes "t \<in> set targets"
  shows "\<exists>m \<in> set (remaining re (fold (merge_contributor re) targets [])). speaks_for re m t"
proof -
  let ?ms = "fold (merge_contributor re) targets []" and ?cs = "\<lambda>ms. fold (absorb re) [0..<length ms] ms"
  obtain i where i: "i < length ?ms" "speaks_for re (?ms ! i) t"
    using merge_fold_speaks [of t targets "[]" re] assms by (metis in_set_conv_nth)
  have all: "absorbed re ?ms (length ?ms) (?cs ?ms)" by (rule absorbed_all) simp
  then have place: "\<And>j. j < length ?ms \<Longrightarrow> sc_path (?cs ?ms ! j) = sc_path (?ms ! j)"
    using same_places_at by (fastforce simp: absorbed_def same_place_def same_places_def list_all2_conv_all_nth)
  define root where "root = (case cover_parent re ?ms i of None \<Rightarrow> i | Some p \<Rightarrow> p)"
  have root: "root < length ?ms" "cover_parent re ?ms root = None"
    using i(1) parent_uncovered(1,4) by (auto simp: root_def split: option.split)
  have "set (kept_paths (sc_rule (?ms ! i))) \<subseteq> set (kept_paths (sc_rule (?cs ?ms ! root)))"
    using all i(1) by (auto simp: absorbed_def root_def split: option.split)
  moreover have "at_or_under (rule_norm re (sc_path (?ms ! i))) (rule_norm re (sc_path (?ms ! root)))"
    using parent_uncovered(3) by (auto simp: root_def covers_def split: option.split)
  ultimately have "speaks_for re (?cs ?ms ! root) t"
    using i(2) place [OF root(1)] by (auto simp: speaks_for_def intro: at_or_under_trans)
  then show ?thesis using root by (auto simp: remaining_def)
qed

text \<open>
  Property C22: whatever targets the contributors propose, each of them is spoken for by a
  target that remains after merging: one that lies at it or above it, and whose rules preserve every
  path that the merged target's rules preserve.
\<close>

theorem merging_loses_nothing:
  "list_all (\<lambda>t. list_ex (\<lambda>m. speaks_for re m t) (remaining re (fold (merge_contributor re) targets []))) targets"
  by (simp add: list_all_iff list_ex_iff remaining_speaks)

lemma merge_contributor_distinct:
  "distinct (map (\<lambda>m. rule_norm re (sc_path m)) ms) \<Longrightarrow> distinct (map (\<lambda>m. rule_norm re (sc_path m)) (merge_contributor re u ms))"
proof (cases "list_ex (\<lambda>m. rule_norm re (sc_path m) = rule_norm re (sc_path u)) ms")
  case True
  then have "map (\<lambda>m. rule_norm re (sc_path m)) (merge_contributor re u ms) = map (\<lambda>m. rule_norm re (sc_path m)) ms"
    by (simp add: merge_contributor_def Let_def)
  then show "distinct (map (\<lambda>m. rule_norm re (sc_path m)) ms) \<Longrightarrow> ?thesis" by simp
qed (auto simp: merge_contributor_def Let_def list_ex_iff)

lemma merge_fold_distinct:
  "distinct (map (\<lambda>m. rule_norm re (sc_path m)) ms) \<Longrightarrow>
   distinct (map (\<lambda>m. rule_norm re (sc_path m)) (fold (merge_contributor re) ts ms))"
  by (induction ts arbitrary: ms) (simp_all add: merge_contributor_distinct)

lemma absorbed_at:
  assumes "i < length ms"
  shows "same_place (fold (absorb re) [0..<length ms] ms ! i) (ms ! i)"
proof (rule same_places_at)
  show "same_places (fold (absorb re) [0..<length ms] ms) ms"
    using absorbed_all [of "length ms" ms re] by (simp add: absorbed_def)
  then show "i < length (fold (absorb re) [0..<length ms] ms)"
    using assms by (simp only: same_places_def list_all2_lengthD)
qed

lemma remaining_places:
  "map (\<lambda>m. (sc_path m, sc_operation m)) (remaining re ms) =
   map (\<lambda>i. (sc_path (ms ! i), sc_operation (ms ! i))) (filter (\<lambda>i. cover_parent re ms i = None) [0..<length ms])"
  unfolding remaining_def map_map comp_def
proof (rule map_cong [OF refl])
  fix i assume "i \<in> set (filter (\<lambda>i. cover_parent re ms i = None) [0..<length ms])"
  then have "i < length ms" by simp
  from absorbed_at [OF this, of re]
  show "(sc_path (fold (absorb re) [0..<length ms] ms ! i), sc_operation (fold (absorb re) [0..<length ms] ms ! i)) =
      (sc_path (ms ! i), sc_operation (ms ! i))" by (simp add: same_place_def)
qed

lemma map_by_index: "map (\<lambda>i. f (xs ! i)) [0..<length xs] = map f xs"
  by (rule nth_equalityI) simp_all

lemma remaining_from:
  assumes "m \<in> set (remaining re ms)"
  obtains i where "i < length ms" "cover_parent re ms i = None" "same_place m (ms ! i)"
proof -
  obtain i where i: "i < length ms" "cover_parent re ms i = None" "m = fold (absorb re) [0..<length ms] ms ! i"
    using assms by (auto simp only: remaining_def set_map set_filter set_upt atLeastLessThan_iff)
  show ?thesis by (rule that [OF i(1,2)]) (simp only: i(3) absorbed_at [OF i(1)])
qed

lemma remaining_uncovered:
  assumes "p \<in> set (remaining re ms)" "t \<in> set (remaining re ms)"
  shows "\<not> covers re p t"
proof
  assume c: "covers re p t"
  obtain i where i: "i < length ms" "same_place p (ms ! i)" using assms(1) by (rule remaining_from)
  obtain j where j: "cover_parent re ms j = None" "same_place t (ms ! j)" using assms(2) by (rule remaining_from)
  have ij: "covers re (ms ! i) (ms ! j)" using c covers_same_place [OF i(2) j(2), of re] by simp
  then have "j \<noteq> i" using covers_longer by fastforce
  with ij i(1) j(1) show False by (simp add: cover_parent_None)
qed

text \<open>
  The targets that remain have different normalised paths, and no target that
  clears a whole subtree has another one below it: no path is scanned or cleaned twice.
\<close>

theorem remaining_apart:
  "let left = remaining re (fold (merge_contributor re) targets []) in
     distinct (map (\<lambda>t. rule_norm re (sc_path t)) left) \<and> list_all (\<lambda>p. list_all (\<lambda>t. \<not> covers re p t) left) left"
proof -
  define left where "left = remaining re (fold (merge_contributor re) targets [])"
  let ?ms = "fold (merge_contributor re) targets []"
  let ?kept = "filter (\<lambda>i. cover_parent re ?ms i = None) [0..<length ?ms]"
  have "map (\<lambda>t. rule_norm re (sc_path t)) left = map (\<lambda>i. rule_norm re (sc_path (?ms ! i))) ?kept"
    using arg_cong [OF remaining_places, of "map (\<lambda>x. rule_norm re (fst x))" re ?ms] by (simp add: left_def comp_def)
  moreover have "distinct (map (\<lambda>i. rule_norm re (sc_path (?ms ! i))) [0..<length ?ms])"
    using merge_fold_distinct [of re "[]" targets]
    by (subst map_by_index [where f = "\<lambda>m. rule_norm re (sc_path m)"]) simp
  ultimately have "distinct (map (\<lambda>t. rule_norm re (sc_path t)) left)"
    by (simp add: distinct_map_filter)
  moreover have "list_all (\<lambda>p. list_all (\<lambda>t. \<not> covers re p t) left) left"
    unfolding left_def list_all_iff by (intro ballI remaining_uncovered)
  ultimately show ?thesis by (simp add: left_def Let_def)
qed

end
