(* ===== verification/Scanner.thy ===== *)
theory Scanner
  imports Scan_Targets Plan_Runs
begin

text \<open>
  \<^verbatim>\<open>internal/core/scanner.go\<close> and the item operations of \<^verbatim>\<open>internal/core/inuse.go\<close>:
  the scan of the fixed targets, the grouping of its items by category, the merging of discovered
  items and the removal of cleaned ones.  Plans are kept with the address they were allocated at,
  because the selection compares them as pointers.
\<close>

section \<open>Items\<close>

record busy =
  bs_app :: string
  bs_open :: bool
  bs_unknown :: bool

record scan_item =
  si_plans :: "(nat \<times> cleanup_plan) list"
  si_operation :: operation
  si_disposal :: disposal
  si_rule :: rule_ref
  si_path :: string
  si_label :: label
  si_size :: u64
  si_file_count :: u64
  si_last_modified :: u64
  si_category :: category
  si_recommended :: bool
  si_busy :: "busy option"
  si_identity :: "target_identity option"
  si_owner :: "app_owner option"

definition freeze_plan :: "'w rule_env \<Rightarrow> nat \<Rightarrow> scan_item \<Rightarrow> ('w, scan_item) act" where
  "freeze_plan re address item =
    (if si_plans item \<noteq> [] then act_ret item
     else act_bind (new_cleanup_plan re (si_rule item)
         [\<lparr>pt_path = si_path item, pt_operation = si_operation item, pt_identity = si_identity item, pt_disposal = si_disposal item\<rparr>])
       (\<lambda>plan. act_ret (item\<lparr>si_rule := cp_rule plan, si_plans := [(address, plan)]\<rparr>)))"

record category_summary =
  cs_category :: category
  cs_total_size :: u64
  cs_items :: "scan_item list"
  cs_partial :: bool

section \<open>The scan of the fixed targets\<close>

text \<open>What a \<^verbatim>\<open>FileIndexQuery\<close> and the context of a scan supply.\<close>

record path_measurement =
  pm_size :: u64
  pm_files :: u64
  pm_newest_mtime :: u64

record 'w scan_source =
  ss_measure :: "string \<Rightarrow> 'w \<Rightarrow> path_measurement option \<times> 'w"
  ss_stopped :: "'w \<Rightarrow> bool \<times> 'w"

definition env_whitelisted :: "'w rule_env \<Rightarrow> string \<Rightarrow> bool" where
  "env_whitelisted re path = is_whitelisted (e_lower (re_env re)) (e_whitelist (re_env re)) path"

definition env_whitelist_under :: "'w rule_env \<Rightarrow> string \<Rightarrow> bool" where
  "env_whitelist_under re path = has_whitelist_entry_under (e_lower (re_env re)) (e_whitelist (re_env re)) path"

definition scanned_item :: "'w rule_env \<Rightarrow> scan_target \<Rightarrow> operation \<Rightarrow> scan_item" where
  "scanned_item re t opn =
    \<lparr>si_plans = [], si_operation = opn, si_disposal = sc_disposal t, si_rule = sc_rule t, si_path = sc_path t,
     si_label = sc_label t, si_size = 0, si_file_count = 0, si_last_modified = 0, si_category = sc_category t,
     si_recommended = (sc_recommended t \<and> \<not> env_whitelist_under re (sc_path t)), si_busy = None, si_identity = None,
     si_owner = sc_owner t\<rparr>"

definition measured :: "path_measurement \<Rightarrow> target_identity \<Rightarrow> scan_item \<Rightarrow> scan_item" where
  "measured m i item = item\<lparr>si_identity := Some i, si_size := pm_size m, si_file_count := pm_files m,
     si_last_modified := pm_newest_mtime m\<rparr>"

text \<open>One task; \<open>None\<close> leaves its slot of the results empty.\<close>

definition scan_target_item :: "'w rule_env \<Rightarrow> 'w scan_source \<Rightarrow> nat \<Rightarrow> scan_target \<Rightarrow> ('w, scan_item option) act" where
  "scan_target_item re src address t =
    act_bind (act_os (ss_stopped src)) (\<lambda>stopped.
    if stopped \<or> env_whitelisted re (sc_path t) then act_ret None
    else act_bind (for_scanned_path re (sc_operation t) (sc_path t)) (\<lambda>opn.
      let item = scanned_item re t opn;
          frozen = (\<lambda>item. act_bind (freeze_plan re address item) (\<lambda>f. act_ret (Some f))) in
      if is_virtual_path (sc_path t) then
        frozen (case sc_size_hint t of None \<Rightarrow> item | Some n \<Rightarrow> item\<lparr>si_size := n\<rparr>)
      else act_bind (act_lstat (re_env re) (sc_path t)) (\<lambda>r.
        if (case r of Inl _ \<Rightarrow> True | Inr md \<Rightarrow> fi_link md) then act_ret None
        else act_bind (capture_identity (re_env re) (sc_path t)) (\<lambda>i. case i of
          None \<Rightarrow> act_ret None
        | Some identity \<Rightarrow> act_bind (act_os (ss_measure src (sc_path t))) (\<lambda>m. case m of
            None \<Rightarrow> act_ret None
          | Some msr \<Rightarrow> frozen (measured msr identity item))))))"

text \<open>The loop that sends the indices, until the context is done.\<close>

fun sent_indices :: "'w scan_source \<Rightarrow> nat list \<Rightarrow> ('w, nat list) act" where
  "sent_indices src [] = act_ret []"
| "sent_indices src (i # is) = act_bind (act_os (ss_stopped src)) (\<lambda>stopped.
     if stopped then act_ret [] else act_bind (sent_indices src is) (\<lambda>js. act_ret (i # js)))"

text \<open>The workers take the indices in the order the scheduler picks; a task is not split.\<close>

definition scan_slots :: "'w rule_env \<Rightarrow> 'w scan_source \<Rightarrow> scan_target list \<Rightarrow> ('w, scan_item option list) act" where
  "scan_slots re src targets =
    act_bind (sent_indices src [0..<length targets]) (\<lambda>sent.
    act_bind (act_os (os_order (e_os (re_env re)) (length sent))) (\<lambda>order.
      act_fold (\<lambda>i slots. act_bind (scan_target_item re src i (targets ! i)) (\<lambda>r. act_ret (slots[i := r])))
        (map (nth sent) (filter (\<lambda>k. k < length sent) order)) (replicate (length targets) None)))"

definition larger_item :: "scan_item \<Rightarrow> scan_item \<Rightarrow> bool" where
  "larger_item a b = (si_size b < si_size a)"

definition items_total :: "scan_item list \<Rightarrow> u64" where
  "items_total items = fold (\<lambda>item total. saturating_add total (si_size item)) items 0"

definition category_of_items :: "scan_item list \<Rightarrow> category \<Rightarrow> category_summary" where
  "category_of_items items c =
    (let own = sort_by larger_item (filter (\<lambda>item. si_category item = c) items) in
     \<lparr>cs_category = c, cs_total_size = items_total own, cs_items = own, cs_partial = False\<rparr>)"

definition aggregate_scan_items :: "scan_item list \<Rightarrow> category_summary list" where
  "aggregate_scan_items items = map (category_of_items items) all_categories"

definition scan_fixed :: "'w rule_env \<Rightarrow> 'w scan_source \<Rightarrow> scan_target list \<Rightarrow> ('w, category_summary list) act" where
  "scan_fixed re src targets =
    act_bind (scan_slots re src targets) (\<lambda>slots.
      act_ret (aggregate_scan_items (map the (filter (\<lambda>s. s \<noteq> None) slots))))"

section \<open>Discovered items\<close>

definition drop_vanished_discovered :: "'w rule_env \<Rightarrow> scan_item list \<Rightarrow> ('w, scan_item list) act" where
  "drop_vanished_discovered re items =
    act_fold (\<lambda>item kept. act_bind (act_os (os_stat (e_os (re_env re)) (si_path item))) (\<lambda>r.
      act_ret (case r of Inl _ \<Rightarrow> kept | Inr _ \<Rightarrow> kept @ [item]))) items []"

text \<open>What lies before the last \<open>c\<close> (\<^verbatim>\<open>strings.LastIndexByte\<close>), and the loop that cuts a path there.\<close>

fun last_cut :: "char \<Rightarrow> string \<Rightarrow> string option" where
  "last_cut c [] = None"
| "last_cut c (x # p) =
    (case last_cut c p of Some q \<Rightarrow> Some (x # q) | None \<Rightarrow> if x = c then Some [] else None)"

lemma last_cut_shorter: "last_cut c p = Some q \<Longrightarrow> length q < length p"
  by (induction p arbitrary: q) (auto split: option.splits if_splits)

function cut_prefixes :: "string \<Rightarrow> string list" where
  "cut_prefixes p = (case last_cut backslash p of None \<Rightarrow> [] | Some q \<Rightarrow> q # cut_prefixes q)"
  by auto
termination by (relation "measure length") (auto dest: last_cut_shorter)

declare cut_prefixes.simps [simp del]

definition fixed_prefixes :: "string list \<Rightarrow> string list" where
  "fixed_prefixes fixed = concat (map (\<lambda>p. p # cut_prefixes p) fixed)"

definition overlaps :: "string list \<Rightarrow> string \<Rightarrow> bool" where
  "overlaps fixed n \<longleftrightarrow> List.member (fixed_prefixes fixed) n \<or> list_ex (List.member fixed) (n # cut_prefixes n)"

definition fixed_paths :: "'w rule_env \<Rightarrow> category_summary list \<Rightarrow> string list" where
  "fixed_paths re cats = concat (map (\<lambda>cat. map (\<lambda>item. rule_norm re (si_path item)) (cs_items cat)) cats)"

definition accepted_items :: "'w rule_env \<Rightarrow> category_summary list \<Rightarrow> scan_item list \<Rightarrow> scan_item list" where
  "accepted_items re cats items =
    map (\<lambda>item. item\<lparr>si_recommended := si_recommended item \<and> \<not> env_whitelist_under re (si_path item)\<rparr>)
      (filter (\<lambda>item. \<not> env_whitelisted re (si_path item) \<and> \<not> overlaps (fixed_paths re cats) (rule_norm re (si_path item))) items)"

definition merge_category :: "scan_item list \<Rightarrow> bool \<Rightarrow> category_summary \<Rightarrow> category_summary" where
  "merge_category accepted partial cat =
    (let joined = cs_items cat @ filter (\<lambda>item. si_category item = cs_category cat) accepted;
         items = (if is_discovered (cs_category cat) then sort_by larger_item joined else joined) in
     cat\<lparr>cs_partial := cs_partial cat \<or> partial \<and> is_discovered (cs_category cat),
         cs_items := items, cs_total_size := items_total items\<rparr>)"

definition merge_discovered :: "'w rule_env \<Rightarrow> category_summary list \<Rightarrow> scan_item list \<Rightarrow> bool \<Rightarrow> category_summary list" where
  "merge_discovered re cats items partial = map (merge_category (accepted_items re cats items) partial) cats"

section \<open>After a cleanup\<close>

definition is_cleared :: "string list \<Rightarrow> string list \<Rightarrow> scan_item \<Rightarrow> bool" where
  "is_cleared attempted failed item = (List.member attempted (si_path item) \<and> \<not> List.member failed (si_path item))"

definition apply_clean_result ::
  "category_summary list \<Rightarrow> string list \<Rightarrow> string list \<Rightarrow> category_summary list \<times> string list" where
  "apply_clean_result cats attempted failed =
    (map (\<lambda>cat. let kept = filter (\<lambda>item. \<not> is_cleared attempted failed item) (cs_items cat) in
        cat\<lparr>cs_items := kept, cs_total_size := items_total kept\<rparr>) cats,
     concat (map (\<lambda>cat. map si_path (filter (is_cleared attempted failed) (cs_items cat))) cats))"

section \<open>Occupancy badges and availability\<close>

definition busy_is_empty :: "busy \<Rightarrow> bool" where
  "busy_is_empty b = (bs_app b = [] \<and> \<not> bs_open b \<and> \<not> bs_unknown b)"

definition takes_badge :: "(string \<rightharpoonup> busy) \<Rightarrow> scan_item \<Rightarrow> busy option" where
  "takes_badge obs item =
    (if is_native_resource (si_operation item) \<or> is_virtual_path (si_path item) then None
     else case obs (si_path item) of None \<Rightarrow> None | Some b \<Rightarrow> if busy_is_empty b then None else Some b)"

definition apply_busy :: "category_summary list \<Rightarrow> (string \<rightharpoonup> busy) \<Rightarrow> category_summary list \<times> nat" where
  "apply_busy cats obs =
    (map (\<lambda>cat. cat\<lparr>cs_items := map (\<lambda>item. case takes_badge obs item of None \<Rightarrow> item
        | Some b \<Rightarrow> item\<lparr>si_busy := Some b\<rparr>) (cs_items cat)\<rparr>) cats,
     sum_list (map (\<lambda>cat. length (filter (\<lambda>item. takes_badge obs item \<noteq> None) (cs_items cat))) cats))"

definition cleanup_available :: "scan_item \<Rightarrow> bool" where
  "cleanup_available item = (blocked_reason (si_rule item) = [])"

definition cleanable_size :: "category_summary \<Rightarrow> u64" where
  "cleanable_size cat = fold (\<lambda>item size. if cleanup_available item then saturating_add size (si_size item) else size) (cs_items cat) 0"

section \<open>Overlap by prefixes\<close>

lemma last_cut_None: "last_cut c p = None \<longleftrightarrow> c \<notin> set p"
  by (induction p) (auto split: option.splits)

lemma last_cut_Some: "last_cut c p = Some q \<Longrightarrow> \<exists>r. p = q @ c # r \<and> c \<notin> set r"
  by (induction p arbitrary: q) (auto split: option.splits if_splits simp: last_cut_None)

lemma set_cut_prefixes: "set (cut_prefixes p) = {q. \<exists>r. p = q @ backslash # r}"
proof (induction p rule: cut_prefixes.induct)
  case (1 p)
  show ?case
  proof (cases "last_cut backslash p")
    case None
    then have "backslash \<notin> set p" by (simp add: last_cut_None)
    then have "{q. \<exists>r. p = q @ backslash # r} = {}" by auto
    moreover have "cut_prefixes p = []" using None by (subst cut_prefixes.simps) simp
    ultimately show ?thesis by simp
  next
    case (Some q)
    then obtain r where r: "p = q @ backslash # r" "backslash \<notin> set r" using last_cut_Some by blast
    have "(\<exists>u. p = v @ backslash # u) \<longleftrightarrow> v = q \<or> (\<exists>u. q = v @ backslash # u)" for v
    proof
      assume "\<exists>u. p = v @ backslash # u"
      then obtain u where u: "q @ backslash # r = v @ backslash # u" using r by auto
      then obtain us where us: "q @ us = v \<and> backslash # r = us @ backslash # u \<or> q = v @ us \<and> us @ backslash # r = backslash # u"
        by (auto simp: append_eq_append_conv2)
      then show "v = q \<or> (\<exists>u. q = v @ backslash # u)"
        using r(2) by (cases us) auto
    qed (auto simp: r(1))
    moreover have "cut_prefixes p = q # cut_prefixes q" using Some by (subst cut_prefixes.simps) simp
    ultimately show ?thesis using "1.IH" [OF Some] by auto
  qed
qed

lemma set_path_prefixes: "set (p # cut_prefixes p) = {q. at_or_under p q}"
proof -
  have "at_or_under p q \<longleftrightarrow> q = p \<or> (\<exists>r. p = q @ backslash # r)" for q
    unfolding at_or_under_iff by (metis append_Nil2 hd_Cons_tl list.sel(1) list.simps(3))
  then show ?thesis by (auto simp: set_cut_prefixes)
qed

lemma overlaps_iff_lookup: "overlaps fixed n = list_ex (\<lambda>p. at_or_under n p \<or> at_or_under p n) fixed"
proof -
  have "List.member (fixed_prefixes fixed) n \<longleftrightarrow> list_ex (\<lambda>p. at_or_under p n) fixed"
    using set_path_prefixes by (auto simp: fixed_prefixes_def list_ex_iff simp del: list.set)
  moreover have "list_ex (List.member fixed) (n # cut_prefixes n) \<longleftrightarrow> list_ex (\<lambda>p. at_or_under n p) fixed"
    using set_path_prefixes [of n] by (auto simp: list_ex_iff simp del: list.set)
  ultimately show ?thesis by (auto simp: overlaps_def list_ex_iff)
qed

text \<open>
  Property C23: the hash lookups of the merge decide exactly what comparing the path with
  every fixed path would: some fixed path is the path itself, lies above it or lies below it.
\<close>

theorem overlaps_iff: "overlaps fixed n = list_ex (\<lambda>p. at_or_under n p \<or> at_or_under p n) fixed"
  by (rule overlaps_iff_lookup)

section \<open>Totals\<close>

lemma unat_items_total: "unat (items_total items) = min (2 ^ 64 - 1) (sum_list (map (\<lambda>item. unat (si_size item)) items))"
proof -
  have "unat (fold (\<lambda>item total. saturating_add total (si_size item)) items t) =
      min (2 ^ 64 - 1) (unat t + sum_list (map (\<lambda>item. unat (si_size item)) items))" for t
  proof (induction items arbitrary: t)
    case Nil
    show ?case using unat_lt64 [of t] by simp
  next
    case (Cons item items)
    show ?case by (simp add: Cons unat_saturating_add)
  qed
  from this [of 0] show ?thesis by (simp add: items_total_def)
qed

interpretation larger: less_fun larger_item
  by unfold_locales (auto simp: larger_item_def)

section \<open>Well-formed summaries\<close>

text \<open>An item can be cleaned with nothing but what was captured when it was scanned.\<close>

definition bound_item :: "scan_item \<Rightarrow> bool" where
  "bound_item item =
    (case si_plans item of
       [(a, plan)] \<Rightarrow> cp_rule plan = si_rule item \<and> cp_targets plan =
         [\<lparr>pt_path = si_path item, pt_operation = si_operation item, pt_identity = si_identity item, pt_disposal = si_disposal item\<rparr>]
     | _ \<Rightarrow> False)"

definition well_formed_item :: "'w rule_env \<Rightarrow> scan_item \<Rightarrow> bool" where
  "well_formed_item re item \<longleftrightarrow>
    bound_item item \<and> (is_virtual_path (si_path item) \<or> si_identity item \<noteq> None) \<and>
    \<not> env_whitelisted re (si_path item) \<and> \<not> (si_recommended item \<and> env_whitelist_under re (si_path item))"

definition summary_total_ok :: "category_summary \<Rightarrow> bool" where
  "summary_total_ok cat =
    (unat (cs_total_size cat) = min (2 ^ 64 - 1) (sum_list (map (\<lambda>item. unat (si_size item)) (cs_items cat))))"

definition well_formed_summary :: "'w rule_env \<Rightarrow> category_summary \<Rightarrow> bool" where
  "well_formed_summary re cat \<longleftrightarrow>
    list_all (\<lambda>item. well_formed_item re item \<and> si_category item = cs_category cat) (cs_items cat) \<and> summary_total_ok cat"

definition largest_first :: "category_summary \<Rightarrow> bool" where
  "largest_first cat = sorted_wrt (\<lambda>a b. si_size b \<le> si_size a) (cs_items cat)"

lemma freeze_plan_Some:
  assumes "freeze_plan re a item s = (Some f, s')" "si_plans item = []"
  shows "bound_item f" "si_path f = si_path item" "si_recommended f = si_recommended item" "si_identity f = si_identity item"
    "si_category f = si_category item"
  using assms by (auto simp: freeze_plan_def new_cleanup_plan_def bound_item_def elim!: act_bindE)

lemma scan_target_item_Some:
  assumes "scan_target_item re src a t s = (Some (Some item), s')"
  shows "well_formed_item re item"
proof -
  obtain i0 s0 where f: "freeze_plan re a i0 s0 = (Some item, s')" and i0: "si_plans i0 = []"
    "is_virtual_path (si_path i0) \<or> si_identity i0 \<noteq> None" "\<not> env_whitelisted re (si_path i0)"
    "\<not> (si_recommended i0 \<and> env_whitelist_under re (si_path i0))"
    using assms unfolding scan_target_item_def Let_def
    by (auto elim!: act_bindE split: if_splits option.splits sum.splits simp: scanned_item_def measured_def)
  show ?thesis using freeze_plan_Some [OF f i0(1)] i0 by (simp add: well_formed_item_def)
qed

lemma scan_slots_well_formed:
  assumes "scan_slots re src targets s = (Some slots, s')"
  shows "list_all (pred_option (well_formed_item re)) slots"
proof -
  obtain ks s1 where f: "act_fold (\<lambda>i slots. act_bind (scan_target_item re src i (targets ! i)) (\<lambda>r. act_ret (slots[i := r])))
      ks (replicate (length targets) None) s1 = (Some slots, s')"
    using assms by (auto simp: scan_slots_def elim!: act_bindE)
  show ?thesis
  proof (rule act_fold_invariant [where P = "list_all (pred_option (well_formed_item re))", OF f])
    fix i and slots :: "scan_item option list" and s out s'
    assume ok: "list_all (pred_option (well_formed_item re)) slots"
      and st: "act_bind (scan_target_item re src i (targets ! i)) (\<lambda>r. act_ret (slots[i := r])) s = (Some out, s')"
    from st obtain r where r: "scan_target_item re src i (targets ! i) s = (Some r, s')" "out = slots[i := r]"
      by (auto elim!: act_bindE)
    have "pred_option (well_formed_item re) r" using r(1) scan_target_item_Some by (cases r) auto
    then show "list_all (pred_option (well_formed_item re)) out"
      using ok set_update_subset_insert [of slots i r] by (auto simp: list_all_iff r(2))
  qed (simp add: list_all_iff)
qed

lemma category_of_items_well_formed:
  assumes "list_all (well_formed_item re) items"
  shows "well_formed_summary re (category_of_items items c)" "largest_first (category_of_items items c)"
proof -
  show "well_formed_summary re (category_of_items items c)"
    using assms by (auto simp: well_formed_summary_def category_of_items_def Let_def list_all_iff summary_total_ok_def unat_items_total)
  have "sorted_wrt (\<lambda>a b. \<not> larger_item b a) (sort_by larger_item (filter (\<lambda>item. si_category item = c) items))"
    by (rule larger.sorted_sort_by)
  then show "largest_first (category_of_items items c)"
    by (simp add: largest_first_def category_of_items_def Let_def larger_item_def not_less)
qed

lemma scan_fixed_items:
  assumes "scan_fixed re src targets s = (Some cats, s')"
  shows "map cs_category cats = all_categories \<and> list_all (\<lambda>cat. well_formed_summary re cat \<and> largest_first cat) cats"
proof -
  obtain slots where slots: "scan_slots re src targets s = (Some slots, s')"
    and cats: "cats = aggregate_scan_items (map the (filter (\<lambda>s. s \<noteq> None) slots))"
    using assms by (auto simp: scan_fixed_def elim!: act_bindE)
  have "list_all (well_formed_item re) (map the (filter (\<lambda>s. s \<noteq> None) slots))"
    using scan_slots_well_formed [OF slots] by (auto simp: list_all_iff)
  from category_of_items_well_formed [OF this] show ?thesis
    unfolding cats aggregate_scan_items_def
    by (simp add: list_all_iff comp_def) (simp add: category_of_items_def Let_def)
qed

text \<open>
  Property C3: a scan returns one summary for each category, in order, its items
  largest first, and its total is the sum of their sizes, cut at 64 bits; every item belongs to its
  category, is not excluded by the user, is not recommended when something below it is excluded, has
  an identity unless its path is virtual, and is bound to one plan for exactly its path, operation,
  identity and disposal.
\<close>

theorem scan_fixed_well_formed:
  assumes "scan_fixed re src targets s = (Some cats, s')"
  shows "map cs_category cats = all_categories \<and> list_all (\<lambda>cat. well_formed_summary re cat \<and> largest_first cat) cats"
  using assms by (rule scan_fixed_items)

text \<open>What discovery hands over is bound and measured like a scanned item.\<close>

definition ready_item :: "scan_item \<Rightarrow> bool" where
  "ready_item item \<longleftrightarrow> bound_item item \<and> (is_virtual_path (si_path item) \<or> si_identity item \<noteq> None)"

lemma bound_item_recommended [simp]: "bound_item (item\<lparr>si_recommended := b\<rparr>) = bound_item item"
  by (auto simp: bound_item_def split: list.splits)

lemma accepted_ready:
  assumes "list_all ready_item items"
  shows "list_all (well_formed_item re) (accepted_items re cats items)"
  using assms by (auto simp: accepted_items_def list_all_iff well_formed_item_def ready_item_def)

lemma merge_category_well_formed:
  assumes "well_formed_summary re cat" "list_all (well_formed_item re) accepted"
  shows "well_formed_summary re (merge_category accepted partial cat)"
  using assms
  by (auto simp: merge_category_def Let_def well_formed_summary_def list_all_iff summary_total_ok_def unat_items_total)

lemma merged_from:
  assumes "item \<in> set (cs_items (merge_category accepted partial cat))"
  shows "item \<in> set (cs_items cat) \<or> item \<in> set accepted"
  using assms by (auto simp: merge_category_def Let_def split: if_splits)

definition all_items :: "category_summary list \<Rightarrow> scan_item list" where
  "all_items cats = concat (map cs_items cats)"

lemma accepted_apart:
  assumes "item \<in> set (accepted_items re cats items)" "old \<in> set (all_items cats)"
  shows "\<not> at_or_under (rule_norm re (si_path item)) (rule_norm re (si_path old))"
    "\<not> at_or_under (rule_norm re (si_path old)) (rule_norm re (si_path item))"
proof -
  have "rule_norm re (si_path old) \<in> set (fixed_paths re cats)"
    using assms(2) by (auto simp: fixed_paths_def all_items_def)
  moreover have "\<not> overlaps (fixed_paths re cats) (rule_norm re (si_path item))"
    using assms(1) by (auto simp: accepted_items_def)
  ultimately show "\<not> at_or_under (rule_norm re (si_path item)) (rule_norm re (si_path old))"
    "\<not> at_or_under (rule_norm re (si_path old)) (rule_norm re (si_path item))"
    by (auto simp: overlaps_iff_lookup list_ex_iff)
qed

text \<open>
  Property C24: merging what was discovered keeps every summary well-formed, whatever the
  exclusions have become, keeps every item that was there, and adds no item that lies at, above or below one.
\<close>

theorem merge_discovered_safe:
  assumes "list_all (well_formed_summary re) cats" "list_all ready_item items"
  shows "list_all (well_formed_summary re) (merge_discovered re cats items partial) \<and>
    set (all_items cats) \<subseteq> set (all_items (merge_discovered re cats items partial)) \<and>
    (\<forall>new \<in> set (all_items (merge_discovered re cats items partial)) - set (all_items cats).
       \<forall>old \<in> set (all_items cats).
         \<not> at_or_under (rule_norm re (si_path new)) (rule_norm re (si_path old)) \<and>
         \<not> at_or_under (rule_norm re (si_path old)) (rule_norm re (si_path new)))"
proof (intro conjI ballI)
  show "list_all (well_formed_summary re) (merge_discovered re cats items partial)"
    using assms(1) merge_category_well_formed [OF _ accepted_ready [OF assms(2), of re cats]]
    by (simp add: merge_discovered_def list_all_iff)
  show "set (all_items cats) \<subseteq> set (all_items (merge_discovered re cats items partial))"
    by (auto simp: all_items_def merge_discovered_def merge_category_def Let_def)
next
  fix new old
  assume new: "new \<in> set (all_items (merge_discovered re cats items partial)) - set (all_items cats)"
    and old: "old \<in> set (all_items cats)"
  then have acc: "new \<in> set (accepted_items re cats items)"
    by (auto simp: all_items_def merge_discovered_def dest: merged_from)
  show "\<not> at_or_under (rule_norm re (si_path new)) (rule_norm re (si_path old))"
    using accepted_apart(1) [OF acc old] .
  show "\<not> at_or_under (rule_norm re (si_path old)) (rule_norm re (si_path new))"
    using accepted_apart(2) [OF acc old] .
qed

section \<open>Clearing\<close>

text \<open>
  After a cleanup the paths reported as cleared are attempted ones that
  did not fail; an item stays, in its order, exactly when its path is not among them, and the totals
  are those of the items that stay.
\<close>

theorem apply_clean_result_spec:
  "case apply_clean_result cats attempted failed of (left, cleared) \<Rightarrow>
    set cleared \<subseteq> set attempted - set failed \<and>
    map (\<lambda>cat. (cs_category cat, cs_items cat)) left =
      map (\<lambda>cat. (cs_category cat, filter (\<lambda>item. si_path item \<notin> set cleared) (cs_items cat))) cats \<and>
    list_all summary_total_ok left"
proof -
  obtain left cleared where run: "apply_clean_result cats attempted failed = (left, cleared)" by fastforce
  have cleared: "set cleared = si_path ` {item \<in> set (all_items cats). is_cleared attempted failed item}"
  proof -
    have "cleared = concat (map (\<lambda>cat. map si_path (filter (is_cleared attempted failed) (cs_items cat))) cats)"
      using run by (simp add: apply_clean_result_def)
    also have "\<dots> = map si_path (filter (is_cleared attempted failed) (all_items cats))"
      by (induction cats) (simp_all add: all_items_def)
    finally show ?thesis by simp
  qed
  have "is_cleared attempted failed item \<longleftrightarrow> si_path item \<in> set cleared" if "item \<in> set (all_items cats)" for item
    using that by (auto simp: cleared is_cleared_def)
  then have same: "filter (\<lambda>item. \<not> is_cleared attempted failed item) (cs_items cat) =
      filter (\<lambda>item. si_path item \<notin> set cleared) (cs_items cat)" if "cat \<in> set cats" for cat
    using that by (intro filter_cong) (auto simp: all_items_def)
  have left: "left = map (\<lambda>cat. let kept = filter (\<lambda>item. \<not> is_cleared attempted failed item) (cs_items cat) in
        cat\<lparr>cs_items := kept, cs_total_size := items_total kept\<rparr>) cats"
    using run by (simp add: apply_clean_result_def)
  show ?thesis unfolding run prod.case
  proof (intro conjI)
    show "set cleared \<subseteq> set attempted - set failed" by (auto simp: cleared is_cleared_def)
    show "list_all summary_total_ok left"
      by (simp add: left list_all_iff Let_def summary_total_ok_def unat_items_total)
  qed (simp add: left Let_def same)
qed

end
