(* ===== verification/Go_Float.thy ===== *)
theory Go_Float
  imports Rule_Json
begin

text \<open>
  \<^verbatim>\<open>strconv.ParseFloat\<close> on text without letters, and the products, comparisons and
  conversions that the program makes with the result.  A finite \<^verbatim>\<open>float64\<close> that is not
  negative is a pair \<open>(m, e)\<close> that stands for \<open>m * 2 ^ e\<close>; every operation rounds to 53 bits, half to
  even, down to the exponent -1074, and beyond the largest number is infinite.
\<close>

section \<open>Rounding\<close>

datatype float64 = Finite nat int | Infinite

fun bit_length :: "nat \<Rightarrow> nat" where
  "bit_length n = (if n = 0 then 0 else Suc (bit_length (n div 2)))"

declare bit_length.simps [simp del]

text \<open>\<open>shifted e a\<close> is \<open>a * 2 ^ e\<close> for \<open>e\<close> that is not negative, else \<open>a\<close>.\<close>

definition shifted :: "int \<Rightarrow> nat \<Rightarrow> nat" where
  "shifted e a = a * 2 ^ nat e"

text \<open>The largest \<open>e\<close> with \<open>2 ^ e \<le> a / b\<close>.\<close>

definition log_quot :: "nat \<Rightarrow> nat \<Rightarrow> int" where
  "log_quot a b =
    (let e = int (bit_length a) - int (bit_length b) in
     if shifted e b \<le> shifted (- e) a then e else e - 1)"

definition round_half_even :: "nat \<Rightarrow> nat \<Rightarrow> nat" where
  "round_half_even num den =
    (let m = num div den; r = num mod den in
     if den < 2 * r \<or> den = 2 * r \<and> odd m then m + 1 else m)"

definition float_exponent :: "nat \<Rightarrow> nat \<Rightarrow> int" where
  "float_exponent a b = max (- 1074) (log_quot a b - 52)"

definition round_quot :: "nat \<Rightarrow> nat \<Rightarrow> float64" where
  "round_quot a b =
    (if a = 0 then Finite 0 0
     else let e = float_exponent a b; m = round_half_even (shifted (- e) a) (shifted e b) in
       if 1024 \<le> int (bit_length m) - 1 + e then Infinite else Finite m e)"

definition float_of_nat :: "nat \<Rightarrow> float64" where
  "float_of_nat n = round_quot n 1"

text \<open>\<open>m * 2 ^ e\<close> times an integer that is a \<^verbatim>\<open>float64\<close> itself.\<close>

definition float_scale :: "float64 \<Rightarrow> nat \<Rightarrow> float64" where
  "float_scale x k = (case x of Infinite \<Rightarrow> Infinite | Finite m e \<Rightarrow> round_quot (shifted e (m * k)) (shifted (- e) 1))"

text \<open>\<^verbatim>\<open>value >= math.MaxUint64\<close>, where the constant is the \<^verbatim>\<open>float64\<close> \<open>2 ^ 64\<close>, and
  \<^verbatim>\<open>uint64(value)\<close>.\<close>

definition float_floor :: "nat \<Rightarrow> int \<Rightarrow> nat" where
  "float_floor m e = shifted e m div shifted (- e) 1"

definition float_to_u64 :: "float64 \<Rightarrow> u64" where
  "float_to_u64 x = (case x of Infinite \<Rightarrow> - 1
     | Finite m e \<Rightarrow> if 2 ^ 64 \<le> float_floor m e then - 1 else of_nat (float_floor m e))"

section \<open>Decimal syntax\<close>

text \<open>The check that underscores separate digits; \<open>saw\<close> tells the last character.\<close>

datatype saw = SawStart | SawDigit | SawUnderscore | SawOther

fun underscores_ok :: "saw \<Rightarrow> string \<Rightarrow> bool" where
  "underscores_ok w [] = (w \<noteq> SawUnderscore)"
| "underscores_ok w (c # s) =
    (if is_digit c then underscores_ok SawDigit s
     else if c = CHR ''_'' then w = SawDigit \<and> underscores_ok SawUnderscore s
     else w \<noteq> SawUnderscore \<and> underscores_ok SawOther s)"

record decimal =
  dc_negative :: bool
  dc_digits :: nat
  dc_places :: nat

text \<open>Text without letters: a sign, digits with at most one point, underscores between digits.\<close>

definition read_decimal :: "string \<Rightarrow> decimal option" where
  "read_decimal s =
    (let body = (if prefix ''-'' s \<or> prefix ''+'' s then tl s else s);
         plain = filter (\<lambda>c. c \<noteq> CHR ''_'') body;
         whole = takeWhile is_digit plain; rest = dropWhile is_digit plain;
         frac = (if prefix ''.'' rest then tl rest else rest) in
     if whole = [] \<and> (rest = [] \<or> frac = []) \<or> \<not> list_all is_digit frac \<or> \<not> prefix ''.'' rest \<and> rest \<noteq> [] then None
     else if CHR ''_'' \<in> set body \<and> \<not> underscores_ok SawStart body then None
     else Some \<lparr>dc_negative = prefix ''-'' s, dc_digits = digits_value (whole @ frac), dc_places = length frac\<rparr>)"

text \<open>The result with \<^verbatim>\<open>err == nil\<close>: a range error has an infinite value.\<close>

definition parse_magnitude :: "decimal \<Rightarrow> float64" where
  "parse_magnitude d = round_quot (dc_digits d) (10 ^ dc_places d)"

end
