(* ===== verification/Native_Tools.thy ===== *)
theory Native_Tools
  imports Go_Float Scan_Targets Worktrees
begin

text \<open>
  Resources that other programs own: \<^verbatim>\<open>internal/core/docker.go\<close>,
  \<^verbatim>\<open>internal/core/brew.go\<close> and \<^verbatim>\<open>internal/core/snapshots.go\<close>.  Their output is
  parsed, what is unused is selected, and a removal counts as done only when the program's own
  inventory no longer lists it.  Programs run by name or by path are \<open>run_tool\<close>.
\<close>

section \<open>Text\<close>

definition newline :: char where
  "newline = CHR 0x0A"

definition text_lines :: "string \<Rightarrow> string list" where
  "text_lines s = split_on newline s"

definition trim_prefix :: "string \<Rightarrow> string \<Rightarrow> string" where
  "trim_prefix p s = (if prefix p s then drop (length p) s else s)"

definition trim_suffix :: "string \<Rightarrow> string \<Rightarrow> string" where
  "trim_suffix x s = (if suffix x s then take (length s - length x) s else s)"

definition cut_prefix :: "string \<Rightarrow> string \<Rightarrow> string option" where
  "cut_prefix p s = (if prefix p s then Some (drop (length p) s) else None)"

definition cut_suffix :: "string \<Rightarrow> string \<Rightarrow> string option" where
  "cut_suffix x s = (if suffix x s then Some (take (length s - length x) s) else None)"

text \<open>\<^verbatim>\<open>strings.ToValidUTF8\<close> with the replacement character: one for each run of invalid bytes.\<close>

fun valid_runs :: "bool \<Rightarrow> (nat \<times> nat) list \<Rightarrow> string" where
  "valid_runs bad [] = []"
| "valid_runs bad ((r, w) # rs) =
    (if r = rune_error \<and> w = 1 then (if bad then [] else utf8_encode rune_error) @ valid_runs True rs
     else utf8_encode r @ valid_runs False rs)"

definition to_valid_utf8 :: "string \<Rightarrow> string" where
  "to_valid_utf8 s = valid_runs False (rune_list (nats_of s))"

definition has_space :: "string \<Rightarrow> bool" where
  "has_space s = list_ex (\<lambda>(r, w). is_space r) (rune_list (nats_of s))"

definition is_letter :: "char \<Rightarrow> bool" where
  "is_letter c = (let n = of_char c :: nat in 97 \<le> n \<and> n \<le> 122 \<or> 65 \<le> n \<and> n \<le> 90)"

definition docker_image_path :: "string \<Rightarrow> string" where
  "docker_image_path ref = ''docker://image/'' @ ref"

definition snapshot_path :: "string \<Rightarrow> string" where
  "snapshot_path name = ''tmutil://snapshot/'' @ name"

definition text_of :: "nat list \<Rightarrow> string" where
  "text_of = map char_of"

section \<open>Docker images\<close>

definition docker_none :: string where
  "docker_none = ''<none>''"

definition docker_format :: string where
  "docker_format = ''{{.ID}}|{{.Repository}}|{{.Tag}}|{{.Digest}}|{{.Size}}''"

record docker_image =
  di_id :: string
  di_repository :: string
  di_tag :: string
  di_digest :: string
  di_size :: u64

datatype junk_kind = DockerDangling | DockerOldVersion | DockerUnreferenced

record docker_junk =
  dj_image :: docker_image
  dj_kind :: junk_kind

definition rmi_ref :: "docker_junk \<Rightarrow> string" where
  "rmi_ref j = (let i = dj_image j in
     if di_tag i = docker_none then
       (if di_repository i \<noteq> docker_none \<and> di_digest i \<noteq> docker_none then di_repository i @ ''@'' @ di_digest i else di_id i)
     else di_repository i @ '':'' @ di_tag i)"

definition unit_factor :: "string \<Rightarrow> nat" where
  "unit_factor u =
    (if u = ''kB'' \<or> u = ''KB'' then 10 ^ 3 else if u = ''MB'' then 10 ^ 6 else if u = ''GB'' then 10 ^ 9
     else if u = ''TB'' then 10 ^ 12 else 1)"

text \<open>The text before the unit holds digits and points only, so a syntax error leaves zero.\<close>

definition parse_docker_size :: "string \<Rightarrow> u64" where
  "parse_docker_size text0 =
    (let text = trim_space text0; number = (\<lambda>c. is_digit c \<or> c = CHR ''.'');
         magnitude = (case read_decimal (takeWhile number text) of None \<Rightarrow> Finite 0 0 | Some d \<Rightarrow> parse_magnitude d) in
     float_to_u64 (float_scale magnitude (unit_factor (trim_space (dropWhile number text)))))"

function strip_sha :: "string \<Rightarrow> string" where
  "strip_sha i = (if prefix ''sha256:'' i then strip_sha (drop 7 i) else i)"
  by auto
termination by (relation "measure length") (auto simp: prefix_def)

declare strip_sha.simps [simp del]

definition parse_docker_line :: "string \<Rightarrow> docker_image option" where
  "parse_docker_line line =
    (let fields = split_on (CHR ''|'') (trim_suffix [CHR 0x0D] line) in
     if length fields < 5 \<or> fields ! 0 = [] \<or> fields ! 1 = [] then None
     else Some \<lparr>di_id = strip_sha (fields ! 0), di_repository = fields ! 1, di_tag = fields ! 2, di_digest = fields ! 3,
       di_size = parse_docker_size (fields ! 4)\<rparr>)"

definition parse_docker_images :: "string \<Rightarrow> docker_image list" where
  "parse_docker_images stdout = List.map_filter parse_docker_line (text_lines stdout)"

text \<open>\<^verbatim>\<open>strconv.ParseUint\<close> in base 10 with 64 bits.\<close>

definition parse_uint :: "string \<Rightarrow> u64 option" where
  "parse_uint s =
    (if s = [] \<or> \<not> list_all is_digit s \<or> 2 ^ 64 \<le> digits_value s then None else Some (of_nat (digits_value s)))"

definition docker_version_tag :: "string \<Rightarrow> u64 list option" where
  "docker_version_tag tag = those (map (\<lambda>part. parse_uint (trim_prefix ''+'' part)) (split_on (CHR ''.'') tag))"

definition same_image_id :: "docker_image \<Rightarrow> string \<Rightarrow> bool" where
  "same_image_id img i = (6 \<le> length i \<and> 6 \<le> length (di_id img) \<and> (prefix i (di_id img) \<or> prefix (di_id img) i))"

definition names_image :: "docker_image \<Rightarrow> string \<Rightarrow> bool" where
  "names_image img ref0 =
    (let ref = trim_space ref0 in
     ref \<noteq> [] \<and>
     (ref = di_repository img @ '':'' @ di_tag img \<or> di_tag img = ''latest'' \<and> ref = di_repository img \<or>
      di_digest img \<noteq> docker_none \<and> ref = di_repository img @ ''@'' @ di_digest img \<or>
      same_image_id img (trim_prefix ''sha256:'' ref)))"

definition docker_image_referenced :: "docker_image \<Rightarrow> string list \<Rightarrow> bool" where
  "docker_image_referenced img refs = list_ex (names_image img) refs"

definition referenced_ids :: "docker_image list \<Rightarrow> string list \<Rightarrow> string list" where
  "referenced_ids images refs = map di_id (filter (\<lambda>i. docker_image_referenced i refs) images)"

text \<open>\<^verbatim>\<open>push\<close>: the references taken are those of the output.\<close>

definition push_junk :: "docker_image \<Rightarrow> junk_kind \<Rightarrow> docker_junk list \<Rightarrow> docker_junk list" where
  "push_junk img kind out =
    (let item = \<lparr>dj_image = img, dj_kind = kind\<rparr> in
     if List.member (map rmi_ref out) (rmi_ref item) then out else out @ [item])"

definition push_unreferenced :: "string list \<Rightarrow> junk_kind \<Rightarrow> docker_image \<Rightarrow> docker_junk list \<Rightarrow> docker_junk list" where
  "push_unreferenced referenced kind img out =
    (if List.member referenced (di_id img) then out else push_junk img kind out)"

definition repository_order :: "docker_image list \<Rightarrow> string list" where
  "repository_order images = fold (\<lambda>i repos. if List.member repos (di_repository i) then repos else repos @ [di_repository i])
     (filter (\<lambda>i. di_repository i \<noteq> docker_none) images) []"

text \<open>\<^verbatim>\<open>slices.Compare(a, b) < 0\<close>.\<close>

fun parts_less :: "u64 list \<Rightarrow> u64 list \<Rightarrow> bool" where
  "parts_less [] bs = (bs \<noteq> [])"
| "parts_less (a # as) [] = False"
| "parts_less (a # as) (b # bs) = (a < b \<or> a = b \<and> parts_less as bs)"

definition image_versions :: "docker_image list \<Rightarrow> string \<Rightarrow> (docker_image \<times> u64 list) list" where
  "image_versions images repo = sort_by (\<lambda>a b. parts_less (snd a) (snd b))
     (List.map_filter (\<lambda>i. map_option (Pair i) (docker_version_tag (di_tag i))) (filter (\<lambda>i. di_repository i = repo) images))"

definition push_old_versions :: "string list \<Rightarrow> docker_image list \<Rightarrow> string \<Rightarrow> docker_junk list \<Rightarrow> docker_junk list" where
  "push_old_versions referenced images repo out =
    (let versions = image_versions images repo in
     if length versions < 2 then out
     else fold (\<lambda>(i, parts). if parts = snd (last versions) then \<lambda>out. out else push_unreferenced referenced DockerOldVersion i)
       versions out)"

definition select_docker_junk :: "docker_image list \<Rightarrow> string list \<Rightarrow> docker_junk list" where
  "select_docker_junk images refs =
    (let referenced = referenced_ids images refs;
         dangling = fold (push_unreferenced referenced DockerDangling) (filter (\<lambda>i. di_repository i = docker_none) images) [];
         old = fold (push_old_versions referenced images) (repository_order images) dangling in
     fold (push_unreferenced referenced DockerUnreferenced)
       (filter (\<lambda>i. di_repository i \<noteq> docker_none \<and> di_tag i \<noteq> docker_none) images) old)"

definition docker_label :: "docker_junk \<Rightarrow> label" where
  "docker_label j = (case dj_kind j of
     DockerDangling \<Rightarrow> let short = concat (map utf8_encode (take 12 (runes (di_id (dj_image j))))) in
       \<lparr>lb_zh = text_of [0xE6, 0x82, 0xAC, 0xE7, 0xA9, 0xBA, 0xE9, 0x95, 0x9C, 0xE5, 0x83, 0x8F, 0x20] @ short @ text_of [0xEF, 0xBC, 0x88, 0xE6, 0x9E, 0x84, 0xE5, 0xBB, 0xBA, 0xE6, 0xAE, 0x8B, 0xE7, 0x95, 0x99, 0xEF, 0xBC, 0x89],
        lb_en = ''Dangling image '' @ short @ '' (build residue)''\<rparr>
   | DockerOldVersion \<Rightarrow> \<lparr>lb_zh = rmi_ref j @ text_of [0xEF, 0xBC, 0x88, 0xE6, 0x97, 0xA7, 0xE7, 0x89, 0x88, 0xE6, 0x9C, 0xAC, 0xEF, 0xBC, 0x89],
        lb_en = rmi_ref j @ '' (old version)''\<rparr>
   | DockerUnreferenced \<Rightarrow> \<lparr>lb_zh = rmi_ref j @ text_of [0xEF, 0xBC, 0x88, 0xE6, 0x9C, 0xAA, 0xE8, 0xA2, 0xAB, 0xE5, 0xAE, 0xB9, 0xE5, 0x99, 0xA8, 0xE4, 0xBD, 0xBF, 0xE7, 0x94, 0xA8, 0xEF, 0xBC, 0x89],
        lb_en = rmi_ref j @ '' (unused by any container)''\<rparr>)"

definition docker_target :: "'w rule_env \<Rightarrow> rule_snapshot option \<Rightarrow> docker_junk \<Rightarrow> ('w, scan_target) act" where
  "docker_target re s j =
    act_bind (provider_target re s ''engine'' ''docker_image'' (docker_image_path (rmi_ref j)) (docker_label j) DockerImages
        ((plain_operation OpDocker)\<lparr>op_reference := rmi_ref j\<rparr>) True)
      (\<lambda>t. act_ret (t\<lparr>sc_size_hint := Some (di_size (dj_image j))\<rparr>))"

definition docker_scan_targets :: "'w rule_env \<Rightarrow> rule_snapshot option \<Rightarrow> ('w, scan_target list) act" where
  "docker_scan_targets re s =
    act_bind (run_tool re ''docker'' [''images'', ''--format'', docker_format] 5) (\<lambda>inventory.
      case inventory of None \<Rightarrow> act_ret [] | Some listing \<Rightarrow>
      if \<not> tr_ok listing then act_ret []
      else let images = parse_docker_images (to_valid_utf8 (tr_stdout listing)) in
      if images = [] then act_ret []
      else act_bind (run_tool re ''docker'' [''container'', ''ls'', ''-a'', ''--format'', ''{{.Image}}''] 5) (\<lambda>containers.
        let refs = (case containers of None \<Rightarrow> [] | Some run \<Rightarrow>
              if tr_ok run then filter (\<lambda>r. r \<noteq> []) (map trim_space (text_lines (to_valid_utf8 (tr_stdout run)))) else []) in
        act_map (docker_target re s) (select_docker_junk images refs)))"

definition remove_docker_image :: "'w rule_env \<Rightarrow> string \<Rightarrow> ('w, bool \<times> (failure + unit)) act" where
  "remove_docker_image re ref =
    (if \<not> valid_docker_reference ref then act_ret (False, Inl (Msg ''Invalid Docker reference''))
     else act_bind (run_tool re ''docker'' [''image'', ''rm'', ''--'', ref] 120) (\<lambda>r. act_ret (case r of
       None \<Rightarrow> (False, Inl (Msg ''Docker removal unavailable or timed out''))
     | Some run \<Rightarrow> if \<not> tr_ok run then (False, Inl (Msg (trim_space (tr_stderr run))))
         else (contains_bytes (tr_stdout run) ''Deleted:'', Inr ()))))"

definition is_hex :: "char \<Rightarrow> bool" where
  "is_hex c = (let n = of_char c :: nat in 48 \<le> n \<and> n \<le> 57 \<or> 97 \<le> n \<and> n \<le> 102 \<or> 65 \<le> n \<and> n \<le> 70)"

definition lists_reference :: "string \<Rightarrow> docker_image list \<Rightarrow> bool" where
  "lists_reference reference images =
    (let i = trim_prefix ''sha256:'' reference;
         by_id = (12 \<le> length i \<and> length i \<le> 64 \<and> list_all is_hex i);
         full = (if list_ex (\<lambda>c. c = CHR '':'' \<or> c = CHR ''@'') reference then reference else reference @ '':latest'') in
     list_ex (\<lambda>img. by_id \<and> prefix i (di_id img) \<or> di_repository img @ '':'' @ di_tag img = full \<or>
       di_repository img @ ''@'' @ di_digest img = full) images)"

definition docker_inventory_evidence :: "string \<Rightarrow> string \<Rightarrow> evidence" where
  "docker_inventory_evidence reference stdout =
    (let images = parse_docker_images stdout in
     if \<not> utf8_valid stdout then Unknown
     else if length images \<noteq> length (filter (\<lambda>line. trim_space line \<noteq> []) (text_lines stdout)) then Unknown
     else if lists_reference reference images then Absent else Confirmed)"

definition docker_reference_absence :: "'w rule_env \<Rightarrow> string \<Rightarrow> ('w, evidence) act" where
  "docker_reference_absence re reference =
    (if \<not> valid_docker_reference reference then act_ret Unknown
     else act_bind (run_tool re ''docker'' [''images'', ''--no-trunc'', ''--format'', docker_format] 120) (\<lambda>r. act_ret (case r of
       None \<Rightarrow> Unknown
     | Some run \<Rightarrow> if \<not> tr_ok run then Unknown else docker_inventory_evidence reference (tr_stdout run))))"

section \<open>Homebrew\<close>

definition brew_candidates :: "string list" where
  "brew_candidates = [''/opt/homebrew/bin/brew'', ''/usr/local/bin/brew'']"

fun first_present :: "'w rule_env \<Rightarrow> string list \<Rightarrow> ('w, string) act" where
  "first_present re [] = act_ret []"
| "first_present re (p # ps) =
    act_bind (act_lstat (re_env re) p) (\<lambda>r. case r of Inr _ \<Rightarrow> act_ret p | Inl _ \<Rightarrow> first_present re ps)"

definition brew_executable :: "'w rule_env \<Rightarrow> ('w, string) act" where
  "brew_executable re = first_present re brew_candidates"

definition brew_throttle_days :: int where
  "brew_throttle_days = 7"

definition should_offer_brew_cleanup :: "'w rule_env \<Rightarrow> int option \<Rightarrow> ('w, bool) act" where
  "should_offer_brew_cleanup re last_run =
    (case last_run of None \<Rightarrow> act_ret True
     | Some t \<Rightarrow> act_bind (act_os (os_now (e_os (re_env re)))) (\<lambda>nanos.
         let now = nanos div 1000000000 in
         act_ret (t \<le> now \<and> brew_throttle_days * 86400 \<le> now - t)))"

definition brew_unit :: "string \<Rightarrow> nat option" where
  "brew_unit u =
    (if u = ''B'' then Some 1 else if u = ''KB'' then Some (10 ^ 3) else if u = ''MB'' then Some (10 ^ 6)
     else if u = ''GB'' then Some (10 ^ 9) else if u = ''TB'' then Some (10 ^ 12) else None)"

text \<open>\<^verbatim>\<open>text[:i]\<close> and \<^verbatim>\<open>text[i:]\<close>, where \<open>i\<close> is the first letter, if there is one.\<close>

definition split_at_letter :: "string \<Rightarrow> (string \<times> string) option" where
  "split_at_letter text =
    (let number = takeWhile (\<lambda>c. \<not> is_letter c) text; unit_text = dropWhile (\<lambda>c. \<not> is_letter c) text in
     if unit_text = [] then None else Some (number, unit_text))"

definition parse_brew_size :: "string \<Rightarrow> u64 option" where
  "parse_brew_size text =
    (case split_at_letter (trim_space text) of None \<Rightarrow> None
     | Some (number, u) \<Rightarrow>
       (case read_decimal number of None \<Rightarrow> None
        | Some d \<Rightarrow> if parse_magnitude d = Infinite then None
          else (case brew_unit u of None \<Rightarrow> None
            | Some k \<Rightarrow> Some (if dc_negative d then 0 else float_to_u64 (float_scale (parse_magnitude d) k)))))"

definition removal_line :: "string \<Rightarrow> bool" where
  "removal_line line = (prefix ''Would remove'' line \<or> prefix ''Prune:'' line \<or> prefix ''Removing:'' line)"

definition summary_size :: "string \<Rightarrow> u64 option option" where
  "summary_size line =
    (case cut_at ''approximately '' line of None \<Rightarrow> None
     | Some (a, rest) \<Rightarrow> (case cut_suffix '' of disk space.'' rest of None \<Rightarrow> None
         | Some sz \<Rightarrow> Some (parse_brew_size sz)))"

text \<open>One line of the loop, over the size found so far and the number of removals; a failed parse
  leaves \<^verbatim>\<open>hasSize\<close> false.\<close>

definition brew_line :: "string \<Rightarrow> u64 option \<times> u64 \<Rightarrow> u64 option \<times> u64" where
  "brew_line line0 st =
    (case st of (sz, files) \<Rightarrow>
      let line = trim_suffix [CHR 0x0D] line0 in
      ((if sz \<noteq> None then sz else case summary_size line of None \<Rightarrow> None | Some parsed \<Rightarrow> parsed),
       (if removal_line line then files + 1 else files)))"

text \<open>\<^verbatim>\<open>ParseBrewCleanupOutput\<close>; \<open>None\<close> is \<^verbatim>\<open>present == false\<close>.\<close>

definition parse_brew_cleanup_output :: "string \<Rightarrow> (u64 \<times> u64) option" where
  "parse_brew_cleanup_output stdout =
    (case fold brew_line (text_lines stdout) (None, 0) of
       (Some bytes, files) \<Rightarrow> if 0 < bytes then Some (bytes, max files 1) else None
     | (None, files) \<Rightarrow> if 0 < files then Some (0, files) else None)"

definition brew_scan_targets :: "'w rule_env \<Rightarrow> rule_snapshot option \<Rightarrow> int option \<Rightarrow> ('w, scan_target list) act" where
  "brew_scan_targets re s last_run =
    act_bind (should_offer_brew_cleanup re last_run) (\<lambda>offer. if \<not> offer then act_ret [] else
    act_bind (brew_executable re) (\<lambda>exe. if exe = [] then act_ret [] else
    act_bind (run_tool re exe [''cleanup'', ''-n''] 15) (\<lambda>r. case r of None \<Rightarrow> act_ret [] | Some preview \<Rightarrow>
      if \<not> tr_ok preview then act_ret []
      else (case parse_brew_cleanup_output (to_valid_utf8 (tr_stdout preview)) of
        None \<Rightarrow> act_ret []
      | Some (bytes, files) \<Rightarrow>
          act_bind (provider_target re s ''engine'' ''brew_cleanup'' ''brew://cleanup''
              \<lparr>lb_zh = text_of [0x48, 0x6F, 0x6D, 0x65, 0x62, 0x72, 0x65, 0x77, 0x20, 0xE6, 0xB8, 0x85, 0xE7, 0x90, 0x86], lb_en = ''Homebrew cleanup''\<rparr> PackageCache (plain_operation OpBrew) True)
            (\<lambda>t. act_ret [t\<lparr>sc_size_hint := Some bytes\<rparr>])))))"

definition brew_cleanup_action :: "'w rule_env \<Rightarrow> ('w, failure + unit) act" where
  "brew_cleanup_action re =
    act_bind (brew_executable re) (\<lambda>exe.
      if exe = [] then act_msg ''Homebrew executable unavailable''
      else act_bind (run_tool re exe [''cleanup''] 60) (\<lambda>r. case r of
        None \<Rightarrow> act_msg ''Homebrew cleanup unavailable or timed out''
      | Some run \<Rightarrow> if \<not> tr_ok run then act_msg (trim_space (tr_stderr run)) else act_ok ()))"

text \<open>The summary that says that nothing is left, with its size written as zero.\<close>

definition zero_size :: "string \<Rightarrow> bool" where
  "zero_size sz =
    (parse_brew_size sz = Some 0 \<and>
     (case split_at_letter sz of None \<Rightarrow> False
      | Some (number, u) \<Rightarrow> (case read_decimal number of None \<Rightarrow> False
          | Some d \<Rightarrow> (case parse_magnitude d of Finite m e \<Rightarrow> m = 0 | Infinite \<Rightarrow> False))))"

definition empty_summary :: "string \<Rightarrow> bool" where
  "empty_summary line =
    list_ex (\<lambda>p. case cut_prefix p (trim_prefix ''==> '' line) of None \<Rightarrow> False
        | Some rest \<Rightarrow> (case cut_suffix '' of disk space.'' rest of None \<Rightarrow> False | Some sz \<Rightarrow> zero_size sz))
      [''This operation would free approximately '', ''This operation has freed approximately '']"

fun preview_loop :: "string list \<Rightarrow> bool \<Rightarrow> evidence" where
  "preview_loop [] unknown = (if unknown then Unknown else Confirmed)"
| "preview_loop (line0 # lines) unknown =
    (let line = trim_space line0 in
     if removal_line line then Absent
     else if line = [] \<or> line = ''Pruning symlinks...'' then preview_loop lines unknown
     else preview_loop lines (unknown \<or> \<not> empty_summary line))"

definition brew_preview_completion :: "string \<Rightarrow> evidence" where
  "brew_preview_completion stdout =
    (if \<not> utf8_valid stdout then Unknown
     else if parse_brew_cleanup_output stdout \<noteq> None then Absent
     else preview_loop (text_lines stdout) False)"

definition brew_cleanup_completion :: "'w rule_env \<Rightarrow> ('w, evidence) act" where
  "brew_cleanup_completion re =
    act_bind (brew_executable re) (\<lambda>exe.
      if exe = [] then act_ret Unknown
      else act_bind (run_tool re exe [''cleanup'', ''-n''] 15) (\<lambda>r. act_ret (case r of
        None \<Rightarrow> Unknown | Some run \<Rightarrow> if \<not> tr_ok run then Unknown else brew_preview_completion (tr_stdout run))))"

section \<open>Local snapshots\<close>

definition snapshot_target :: "'w rule_env \<Rightarrow> rule_snapshot option \<Rightarrow> string \<Rightarrow> ('w, scan_target) act" where
  "snapshot_target re s name =
    provider_target re s ''engine'' ''local_snapshot'' (snapshot_path name)
      \<lparr>lb_zh = text_of [0xE6, 0x9C, 0xAC, 0xE5, 0x9C, 0xB0, 0xE5, 0xBF, 0xAB, 0xE7, 0x85, 0xA7, 0x20, 0xC2, 0xB7, 0x20] @ name,
       lb_en = text_of [0x4C, 0x6F, 0x63, 0x61, 0x6C, 0x20, 0x73, 0x6E, 0x61, 0x70, 0x73, 0x68, 0x6F, 0x74, 0x20, 0xC2, 0xB7, 0x20] @ name\<rparr>
      LocalSnapshots ((plain_operation OpSnapshot)\<lparr>op_name := name\<rparr>) True"

definition macos_snapshot_targets :: "'w rule_env \<Rightarrow> rule_snapshot option \<Rightarrow> ('w, scan_target list) act" where
  "macos_snapshot_targets re s =
    act_bind (run_tool re ''tmutil'' [''listlocalsnapshots'', ''/''] 5) (\<lambda>r. case r of
      None \<Rightarrow> act_ret []
    | Some run \<Rightarrow> if \<not> tr_ok run then act_ret []
        else act_map (snapshot_target re s)
          (filter (\<lambda>name. name \<noteq> [] \<and> \<not> has_space name) (map trim_space (text_lines (to_valid_utf8 (tr_stdout run))))))"

definition remove_snapshot :: "'w rule_env \<Rightarrow> string \<Rightarrow> ('w, bool) act" where
  "remove_snapshot re name =
    (case snapshot_date name of None \<Rightarrow> act_ret False
     | Some date \<Rightarrow> act_bind (run_tool re ''tmutil'' [''deletelocalsnapshots'', date] 60) (\<lambda>r.
         act_ret (case r of None \<Rightarrow> False | Some run \<Rightarrow> tr_ok run)))"

fun snapshot_lines :: "string \<Rightarrow> string list \<Rightarrow> evidence" where
  "snapshot_lines date [] = Confirmed"
| "snapshot_lines date (line0 # lines) =
    (let line = trim_space line0 in
     if line = [] \<or> prefix ''Snapshots for disk'' line then snapshot_lines date lines
     else if \<not> prefix ''com.apple.'' line \<or> has_space line then Unknown
     else if line = ''com.apple.TimeMachine.'' @ date @ ''.local'' then Absent
     else snapshot_lines date lines)"

definition snapshot_absence :: "'w rule_env \<Rightarrow> string \<Rightarrow> ('w, evidence) act" where
  "snapshot_absence re name =
    (case snapshot_date name of None \<Rightarrow> act_ret Unknown
     | Some date \<Rightarrow> act_bind (run_tool re ''tmutil'' [''listlocalsnapshots'', ''/''] 60) (\<lambda>r. act_ret (case r of
         None \<Rightarrow> Unknown
       | Some run \<Rightarrow> if \<not> tr_ok run \<or> \<not> utf8_valid (tr_stdout run) then Unknown
           else snapshot_lines date (text_lines (tr_stdout run)))))"

end
