(* ===== verification/Native_Plan.thy ===== *)
theory Native_Plan
  imports Plan_Safety Native_Tools
begin

text \<open>
  The executor for resources that other programs own (\<^verbatim>\<open>internal/core/plan_flow.go\<close>), and what
  is guaranteed of it: which images are offered for removal, which programs are started, and what a
  plan that is reported as done has read last.
\<close>

section \<open>The executor\<close>

record native_state =
  nv_layers_deleted :: bool
  nv_error :: string

definition native_supports :: "planned_target \<Rightarrow> bool" where
  "native_supports t =
    ((op_kind (pt_operation t) = OpDocker \<or> op_kind (pt_operation t) = OpBrew \<or> op_kind (pt_operation t) = OpSnapshot) \<and>
     pt_disposal t = Permanent)"

definition native_action :: "'w rule_env \<Rightarrow> operation \<Rightarrow> bool \<Rightarrow> ('w, bool \<times> (failure + unit)) act" where
  "native_action re opn layers =
    (let unavailable = Inl (Msg ''Native operation failed or unavailable'') in
     case op_kind opn of
       OpDocker \<Rightarrow> remove_docker_image re (op_reference opn)
     | OpBrew \<Rightarrow> act_bind (brew_cleanup_action re) (\<lambda>r. act_ret (layers, r))
     | OpSnapshot \<Rightarrow> act_bind (remove_snapshot re (op_name opn)) (\<lambda>ok. act_ret (layers, if ok then Inr () else unavailable))
     | _ \<Rightarrow> act_ret (layers, unavailable))"

definition native_apply :: "'w rule_env \<Rightarrow> planned_target \<Rightarrow> native_state \<Rightarrow> ('w, clean_report \<times> native_state) act" where
  "native_apply re t x =
    act_bind (native_action re (pt_operation t) (nv_layers_deleted x)) (\<lambda>(layers, r).
      let y = x\<lparr>nv_layers_deleted := layers\<rparr> in
      case r of
        Inl f \<Rightarrow> act_bind (clean_fail (pt_path t) FailOther) (\<lambda>res.
          act_ret (record_result (pt_path t) res empty_report, y\<lparr>nv_error := failure_text re f\<rparr>))
      | Inr _ \<Rightarrow> act_ret (record_result (pt_path t) CleanOK empty_report, y))"

definition native_evidence :: "'w rule_env \<Rightarrow> completion \<Rightarrow> ('w, evidence) act" where
  "native_evidence re c = (case c of
       DockerReferenceAbsent r \<Rightarrow> docker_reference_absence re r
     | SnapshotAbsent n \<Rightarrow> snapshot_absence re n
     | BrewPreviewEmpty \<Rightarrow> brew_cleanup_completion re
     | _ \<Rightarrow> act_ret Unknown)"

text \<open>\<open>remember\<close> is \<^verbatim>\<open>recordBrewCleanup\<close>, which stores the time in the settings.\<close>

definition native_verify :: "'w rule_env \<Rightarrow> ('w \<Rightarrow> unit \<times> 'w) \<Rightarrow> u64 \<Rightarrow> completion \<Rightarrow> native_state \<Rightarrow> ('w, evidence) act" where
  "native_verify re remember hint c x =
    act_bind (native_evidence re c) (\<lambda>ev.
      if ev \<noteq> Confirmed then act_ret ev
      else act_bind (if c = BrewPreviewEmpty then act_os remember else act_ret ()) (\<lambda>_.
        act_bind (act_progress (\<lambda>p. p\<lparr>Files := Files p + 1\<rparr>)) (\<lambda>_.
        act_bind (if c = BrewPreviewEmpty \<or> (case c of DockerReferenceAbsent _ \<Rightarrow> nv_layers_deleted x | _ \<Rightarrow> False)
                  then act_progress (\<lambda>p. p\<lparr>Bytes := Bytes p + hint\<rparr>) else act_ret ()) (\<lambda>_. act_ret ev))))"

definition native_executor :: "'w rule_env \<Rightarrow> ('w \<Rightarrow> unit \<times> 'w) \<Rightarrow> u64 \<Rightarrow> ('w, native_state) capability" where
  "native_executor re remember hint =
    \<lparr>cap_supports = native_supports, cap_occupancy = False, cap_prepare = (\<lambda>_ x. act_ret (Inr [], x)),
     cap_effective = (\<lambda>_ a _. a), cap_apply = native_apply re, cap_verify = native_verify re remember hint, cap_failure = nv_error,
     cap_unregister = (\<lambda>_ _ _. act_msg ''Step requires its worktree capability executor''),
     cap_source = (\<lambda>_ _. act_msg ''Step requires its source capability executor'')\<rparr>"

definition execute_native_plan ::
  "'w rule_env \<Rightarrow> ('w \<Rightarrow> unit \<times> 'w) \<Rightarrow> cleanup_plan \<Rightarrow> int \<Rightarrow> u64 \<Rightarrow> ('w, flow_report) act" where
  "execute_native_plan re remember plan index hint =
    execute_capability re (native_executor re remember hint) \<lparr>nv_layers_deleted = False, nv_error = []\<rparr> plan index SpotUnknown"

section \<open>Which images are offered\<close>

definition image_ref :: "docker_image \<Rightarrow> string" where
  "image_ref img = rmi_ref \<lparr>dj_image = img, dj_kind = DockerDangling\<rparr>"

lemma rmi_ref_image: "rmi_ref j = image_ref (dj_image j)"
  by (simp add: image_ref_def rmi_ref_def Let_def)

text \<open>The output \<open>out\<close> offers only images of \<open>ok\<close>, each reference once.\<close>

definition offers :: "(docker_image \<Rightarrow> bool) \<Rightarrow> docker_junk list \<Rightarrow> bool" where
  "offers ok out \<longleftrightarrow> list_all (\<lambda>j. ok (dj_image j)) out \<and> distinct (map rmi_ref out)"

lemma push_junk_offers: "offers ok out \<Longrightarrow> ok img \<Longrightarrow> offers ok (push_junk img k out)"
  by (auto simp: offers_def push_junk_def Let_def)

lemma push_junk_refs: "set (map rmi_ref (push_junk img k out)) = insert (image_ref img) (set (map rmi_ref out))"
  by (auto simp: push_junk_def Let_def rmi_ref_image)

lemma push_unreferenced_offers:
  "offers ok out \<Longrightarrow> (di_id img \<notin> set referenced \<Longrightarrow> ok img) \<Longrightarrow> offers ok (push_unreferenced referenced k img out)"
  by (simp add: push_unreferenced_def push_junk_offers)

lemma fold_unreferenced:
  "offers ok out \<Longrightarrow> (\<And>img. img \<in> set imgs \<Longrightarrow> di_id img \<notin> set referenced \<Longrightarrow> ok img) \<Longrightarrow>
   offers ok (fold (push_unreferenced referenced k) imgs out)"
  by (induction imgs arbitrary: out) (auto simp: push_unreferenced_offers)

lemma fold_unreferenced_refs:
  "set (map rmi_ref (fold (push_unreferenced referenced k) imgs out)) =
   set (map rmi_ref out) \<union> image_ref ` {img \<in> set imgs. di_id img \<notin> set referenced}"
proof (induction imgs arbitrary: out)
  case (Cons img imgs)
  then show ?case using push_junk_refs [of img k out] by (auto simp: push_unreferenced_def)
qed simp

lemma image_versions_from:
  assumes "(img, parts) \<in> set (image_versions images repo)"
  shows "img \<in> set images" "di_repository img = repo" "docker_version_tag (di_tag img) = Some parts"
  using assms by (auto simp: image_versions_def List.map_filter_def)

lemma not_version_none: "docker_version_tag docker_none = None"
  by code_simp

definition removable_image :: "docker_image list \<Rightarrow> string list \<Rightarrow> docker_image \<Rightarrow> bool" where
  "removable_image images refs img \<longleftrightarrow>
    img \<in> set images \<and> (di_repository img = docker_none \<or> di_tag img \<noteq> docker_none) \<and>
    \<not> list_ex (\<lambda>other. di_id other = di_id img \<and> docker_image_referenced other refs) images"

lemma referenced_ids_iff: "i \<in> set (referenced_ids images refs) \<longleftrightarrow> list_ex (\<lambda>other. di_id other = i \<and> docker_image_referenced other refs) images"
  by (auto simp: referenced_ids_def list_ex_iff)

lemma old_versions_offers:
  assumes "offers (removable_image images refs) out"
  shows "offers (removable_image images refs) (push_old_versions (referenced_ids images refs) images repo out)"
proof -
  define vs where "vs = image_versions images repo"
  have "offers (removable_image images refs) (fold (\<lambda>(i, parts). if parts = snd (last vs) then \<lambda>out. out
      else push_unreferenced (referenced_ids images refs) DockerOldVersion i) ws out)" if "set ws \<subseteq> set vs" for ws
    using that assms
  proof (induction ws arbitrary: out)
    case (Cons w ws)
    obtain i parts where w: "w = (i, parts)" by (cases w)
    then have "i \<in> set images" "di_tag i \<noteq> docker_none"
      using Cons.prems(1) image_versions_from [of i parts images repo] not_version_none by (auto simp: vs_def)
    then have "removable_image images refs i" if "di_id i \<notin> set (referenced_ids images refs)"
      using that by (simp add: removable_image_def referenced_ids_iff)
    then have "offers (removable_image images refs) (push_unreferenced (referenced_ids images refs) DockerOldVersion i out)"
      by (rule push_unreferenced_offers [OF Cons.prems(2)])
    then show ?case using Cons by (simp add: w)
  qed simp
  from this [of vs] show ?thesis using assms by (simp add: push_old_versions_def Let_def vs_def)
qed

lemma fold_offers: "P out \<Longrightarrow> (\<And>x out. P out \<Longrightarrow> P (f x out)) \<Longrightarrow> P (fold f xs out)"
  by (induction xs arbitrary: out) auto

lemma old_versions_grow: "set (map rmi_ref out) \<subseteq> set (map rmi_ref (push_old_versions referenced images repo out))"
proof -
  have "set (map rmi_ref out) \<subseteq> set (map rmi_ref (fold (\<lambda>(i, parts). if parts = p then \<lambda>out. out
      else push_unreferenced referenced DockerOldVersion i) ws out))" for p ws
  proof (induction ws arbitrary: out)
    case (Cons w ws)
    obtain i parts where w: "w = (i, parts)" by (cases w)
    have "set (map rmi_ref out) \<subseteq> set (map rmi_ref (push_unreferenced referenced DockerOldVersion i out))"
      using push_junk_refs [of i DockerOldVersion out] by (auto simp: push_unreferenced_def)
    with Cons [of out] Cons [of "push_unreferenced referenced DockerOldVersion i out"] show ?case
      by (cases "parts = p") (simp_all add: w)
  qed simp
  from this [of "snd (last (image_versions images repo))" "image_versions images repo"] show ?thesis
    by (simp only: push_old_versions_def Let_def) (cases "length (image_versions images repo) < 2", simp_all)
qed

text \<open>
  Why an image is offered, as a reference: one without a repository is a leftover of a build, one with a
  version below that of another image of its repository is outdated, and any other one is unused.
\<close>

definition docker_kind :: "docker_image list \<Rightarrow> docker_image \<Rightarrow> junk_kind" where
  "docker_kind images img =
    (if di_repository img = docker_none then DockerDangling
     else case docker_version_tag (di_tag img) of
       None \<Rightarrow> DockerUnreferenced
     | Some parts \<Rightarrow>
         if list_ex (\<lambda>other. di_repository other = di_repository img \<and>
              (case docker_version_tag (di_tag other) of None \<Rightarrow> False | Some newer \<Rightarrow> parts_less parts newer)) images
         then DockerOldVersion else DockerUnreferenced)"

definition kinds_ok :: "docker_image list \<Rightarrow> docker_junk list \<Rightarrow> bool" where
  "kinds_ok images out \<longleftrightarrow> list_all (\<lambda>j. dj_kind j = docker_kind images (dj_image j)) out"

lemma parts_less_Nil [simp]: "\<not> parts_less a []"
  by (cases a) simp_all

lemma parts_asym: "parts_less a b \<Longrightarrow> \<not> parts_less b a"
  by (induction a b rule: parts_less.induct) auto

lemma parts_total: "parts_less a b \<or> a = b \<or> parts_less b a"
proof (induction a b rule: parts_less.induct)
  case (1 bs)
  then show ?case by (cases "bs = []") simp_all
qed auto

lemma parts_neg_trans: "\<not> parts_less a b \<Longrightarrow> \<not> parts_less b c \<Longrightarrow> \<not> parts_less a c"
proof (induction a b arbitrary: c rule: parts_less.induct)
  case (3 a as b bs)
  then show ?case by (cases c) (auto split: if_splits)
qed auto

interpretation versions: less_fun "\<lambda>a b. parts_less (snd a) (snd b)"
  by unfold_locales (erule parts_asym, erule (1) parts_neg_trans)

lemma image_versions_iff: "(img, parts) \<in> set (image_versions images repo) \<longleftrightarrow>
    img \<in> set images \<and> di_repository img = repo \<and> docker_version_tag (di_tag img) = Some parts"
  by (force simp: image_versions_def List.map_filter_def image_iff)

text \<open>What the loop over the versions skips is exactly the newest ones.\<close>

lemma old_version_iff:
  assumes "(img, parts) \<in> set (image_versions images repo)" "repo \<noteq> docker_none"
  shows "docker_kind images img = DockerOldVersion \<longleftrightarrow> parts \<noteq> snd (last (image_versions images repo))"
proof -
  let ?vs = "image_versions images repo"
  have img: "di_repository img = repo" "docker_version_tag (di_tag img) = Some parts" using assms(1) by (auto simp: image_versions_iff)
  have ne: "?vs \<noteq> []" using assms(1) by auto
  obtain top newest where top: "last ?vs = (top, newest)" by fastforce
  with last_in_set [OF ne] have t: "top \<in> set images" "di_repository top = repo" "docker_version_tag (di_tag top) = Some newest"
    by (auto simp: image_versions_iff)
  have sorted: "sorted_wrt versions.not_after (butlast ?vs @ [last ?vs])"
    using versions.sorted_sort_by ne by (simp add: image_versions_def)
  have "\<not> parts_less newest p" if "(i, p) \<in> set ?vs" for i p
  proof -
    have "set ?vs = insert (last ?vs) (set (butlast ?vs))"
      using ne by (metis append_butlast_last_id Un_insert_right list.simps(15) set_append sup_bot_right empty_set)
    with that consider "(i, p) = last ?vs" | "(i, p) \<in> set (butlast ?vs)" by auto
    then show ?thesis
    proof cases
      case 1
      then show ?thesis using parts_asym [of newest newest] top by auto
    next
      case 2
      then have "\<not> parts_less (snd (last ?vs)) (snd (i, p))" using sorted unfolding sorted_wrt_append by auto
      then show ?thesis using top by simp
    qed
  qed
  then have max: "\<not> parts_less newest p" if "other \<in> set images" "di_repository other = repo" "docker_version_tag (di_tag other) = Some p" for other p
    using that by (auto simp: image_versions_iff)
  show ?thesis
  proof
    assume "docker_kind images img = DockerOldVersion"
    then obtain other newer where "other \<in> set images" "di_repository other = repo" "docker_version_tag (di_tag other) = Some newer"
      "parts_less parts newer"
      using img assms(2) by (auto simp: docker_kind_def list_ex_iff split: option.splits if_splits)
    then show "parts \<noteq> snd (last ?vs)" using max top by auto
  next
    assume "parts \<noteq> snd (last ?vs)"
    then have "parts_less parts newest"
      using parts_total [of parts newest] max [of img parts] assms(1) top by (auto simp: image_versions_iff)
    then show "docker_kind images img = DockerOldVersion"
      using img assms(2) t by (auto simp: docker_kind_def list_ex_iff)
  qed
qed

lemma push_junk_kinds:
  "kinds_ok images out \<Longrightarrow> (image_ref img \<notin> set (map rmi_ref out) \<Longrightarrow> docker_kind images img = k) \<Longrightarrow>
   kinds_ok images (push_junk img k out)"
  by (auto simp: kinds_ok_def push_junk_def Let_def rmi_ref_image)

lemma fold_unreferenced_kinds:
  "kinds_ok images out \<Longrightarrow>
   (\<And>img. img \<in> set imgs \<Longrightarrow> di_id img \<notin> set referenced \<Longrightarrow> image_ref img \<notin> set (map rmi_ref out) \<Longrightarrow> docker_kind images img = k) \<Longrightarrow>
   kinds_ok images (fold (push_unreferenced referenced k) imgs out)"
proof (induction imgs arbitrary: out)
  case (Cons img imgs)
  let ?out = "push_unreferenced referenced k img out"
  have "kinds_ok images ?out"
    using Cons.prems by (auto simp: push_unreferenced_def intro!: push_junk_kinds)
  moreover have "set (map rmi_ref out) \<subseteq> set (map rmi_ref ?out)"
    using push_junk_refs [of img k out] by (auto simp: push_unreferenced_def)
  then have "docker_kind images i = k" if "i \<in> set imgs" "di_id i \<notin> set referenced" "image_ref i \<notin> set (map rmi_ref ?out)" for i
    using Cons.prems(2) [of i] that by auto
  ultimately have "kinds_ok images (fold (push_unreferenced referenced k) imgs ?out)" by (rule Cons.IH)
  then show ?case by simp
qed simp

definition old_steps :: "string list \<Rightarrow> u64 list \<Rightarrow> (docker_image \<times> u64 list) list \<Rightarrow> docker_junk list \<Rightarrow> docker_junk list" where
  "old_steps referenced newest vs out =
    fold (push_unreferenced referenced DockerOldVersion) (map fst (filter (\<lambda>(i, parts). parts \<noteq> newest) vs)) out"

lemma push_old_versions_eq: "push_old_versions referenced images repo out =
    (let vs = image_versions images repo in if length vs < 2 then out else old_steps referenced (snd (last vs)) vs out)"
proof -
  have "fold (\<lambda>(i, parts). if parts = newest then \<lambda>out. out else push_unreferenced referenced DockerOldVersion i) vs out =
      old_steps referenced newest vs out" for newest vs
    unfolding old_steps_def by (induction vs arbitrary: out) auto
  then show ?thesis by (simp add: push_old_versions_def Let_def)
qed

lemma old_versions_kinds:
  assumes "kinds_ok images out" "repo \<noteq> docker_none"
  shows "kinds_ok images (push_old_versions referenced images repo out)"
  unfolding push_old_versions_eq Let_def old_steps_def
  using assms old_version_iff [OF _ assms(2)] by (auto intro!: fold_unreferenced_kinds)

lemma old_versions_pushed:
  assumes "img \<in> set images" "di_repository img \<noteq> docker_none" "docker_kind images img = DockerOldVersion" "di_id img \<notin> set referenced"
  shows "image_ref img \<in> set (map rmi_ref (push_old_versions referenced images (di_repository img) out))"
proof -
  let ?vs = "image_versions images (di_repository img)"
  obtain parts where parts: "docker_version_tag (di_tag img) = Some parts"
    using assms(2,3) by (auto simp: docker_kind_def split: option.splits if_splits)
  then have v: "(img, parts) \<in> set ?vs" using assms(1) by (simp add: image_versions_iff)
  with old_version_iff [OF this assms(2)] assms(3) have ne: "parts \<noteq> snd (last ?vs)" by simp
  with v have "2 \<le> length ?vs" by (cases ?vs; cases "tl ?vs") auto
  moreover have "img \<in> set (map fst (filter (\<lambda>(i, p). p \<noteq> snd (last ?vs)) ?vs))" using v ne by force
  ultimately show ?thesis
    using assms(4) unfolding push_old_versions_eq Let_def old_steps_def by (auto simp: fold_unreferenced_refs simp del: set_map)
qed

lemma repositories_listed: "set (repository_order images) = di_repository ` {i \<in> set images. di_repository i \<noteq> docker_none}"
proof -
  have "set (fold (\<lambda>i repos. if List.member repos (di_repository i) then repos else repos @ [di_repository i]) is repos) =
      set repos \<union> di_repository ` set is" for "is" :: "docker_image list" and repos
    by (induction "is" arbitrary: repos) auto
  then show ?thesis by (auto simp: repository_order_def)
qed

lemma old_fold_kinds:
  "kinds_ok images out \<Longrightarrow> docker_none \<notin> set repos \<Longrightarrow> kinds_ok images (fold (push_old_versions referenced images) repos out)"
  by (induction repos arbitrary: out) (auto intro!: old_versions_kinds [OF _ not_sym])

lemma old_fold_pushed:
  assumes "img \<in> set images" "docker_kind images img = DockerOldVersion" "di_id img \<notin> set referenced"
    "docker_none \<notin> set repos" "di_repository img \<in> set repos"
  shows "image_ref img \<in> set (map rmi_ref (fold (push_old_versions referenced images) repos out))"
  using assms(4,5)
proof (induction repos arbitrary: out)
  case (Cons repo repos)
  let ?out = "push_old_versions referenced images repo out"
  show ?case
  proof (cases "di_repository img = repo")
    case True
    then have "image_ref img \<in> set (map rmi_ref ?out)"
      using old_versions_pushed [OF assms(1) _ assms(2,3), of out] Cons.prems(1) by auto
    moreover have "set (map rmi_ref ?out) \<subseteq> set (map rmi_ref (fold (push_old_versions referenced images) repos ?out))"
      using old_versions_grow by (intro fold_offers [where P = "\<lambda>o1. set (map rmi_ref ?out) \<subseteq> set (map rmi_ref o1)"]) blast+
    ultimately show ?thesis by auto
  qed (use Cons in auto)
qed simp

text \<open>
  Property C27: the images offered for removal are exactly those whose id no container refers to
  under any name, except tagless ones of a named repository; each reference is offered once, whatever
  order and versions the images have; and each is offered for its reason: without a repository as a
  leftover, with a version below another image's of its repository as outdated, any other as unused.
\<close>

theorem docker_junk_spec:
  "set (map rmi_ref (select_docker_junk images refs)) = image_ref ` {img \<in> set images. removable_image images refs img} \<and>
   list_all (\<lambda>j. removable_image images refs (dj_image j)) (select_docker_junk images refs) \<and>
   distinct (map rmi_ref (select_docker_junk images refs)) \<and>
   list_all (\<lambda>j. dj_kind j = docker_kind images (dj_image j)) (select_docker_junk images refs)"
proof -
  let ?refd = "referenced_ids images refs" and ?ok = "removable_image images refs"
  define dangling where "dangling = fold (push_unreferenced ?refd DockerDangling) (filter (\<lambda>i. di_repository i = docker_none) images) []"
  define old where "old = fold (push_old_versions ?refd images) (repository_order images) dangling"
  have out: "select_docker_junk images refs = fold (push_unreferenced ?refd DockerUnreferenced)
      (filter (\<lambda>i. di_repository i \<noteq> docker_none \<and> di_tag i \<noteq> docker_none) images) old"
    by (simp add: select_docker_junk_def Let_def old_def dangling_def)
  have d: "offers ?ok dangling"
    unfolding dangling_def by (rule fold_unreferenced) (auto simp: offers_def removable_image_def referenced_ids_iff)
  have o1: "offers ?ok old" unfolding old_def
    by (rule fold_offers [where P = "offers ?ok", OF d]) (rule old_versions_offers)
  have all: "offers ?ok (select_docker_junk images refs)"
    unfolding out by (rule fold_unreferenced [OF o1]) (auto simp: removable_image_def referenced_ids_iff)
  have "set (map rmi_ref dangling) \<subseteq> set (map rmi_ref old)"
    unfolding old_def using old_versions_grow
    by (intro fold_offers [where P = "\<lambda>out. set (map rmi_ref dangling) \<subseteq> set (map rmi_ref out)"]) blast+
  then have "image_ref ` {img \<in> set images. ?ok img} \<subseteq> set (map rmi_ref (select_docker_junk images refs))"
    unfolding out dangling_def fold_unreferenced_refs by (auto simp: removable_image_def referenced_ids_iff)
  moreover have "kinds_ok images (select_docker_junk images refs)"
  proof -
    have k: "kinds_ok images dangling" unfolding dangling_def
      by (rule fold_unreferenced_kinds) (auto simp: kinds_ok_def docker_kind_def)
    have repos: "docker_none \<notin> set (repository_order images)" by (auto simp: repositories_listed)
    have "docker_kind images img = DockerUnreferenced"
      if "img \<in> set images" "di_repository img \<noteq> docker_none" "di_id img \<notin> set ?refd" "image_ref img \<notin> set (map rmi_ref old)" for img
    proof -
      have "docker_kind images img \<noteq> DockerOldVersion"
        using old_fold_pushed [OF that(1) _ that(3) repos, of dangling] that(1,2,4) unfolding old_def by (auto simp: repositories_listed)
      with that(2) show ?thesis by (auto simp: docker_kind_def split: option.splits if_splits)
    qed
    then show ?thesis unfolding out
      by (intro fold_unreferenced_kinds) (auto simp: old_def old_fold_kinds [OF k repos])
  qed
  ultimately show ?thesis using all by (auto simp: offers_def list_all_iff rmi_ref_image removable_image_def kinds_ok_def)
qed

section \<open>Which programs are started\<close>

definition native_command :: "planned_target \<Rightarrow> event \<Rightarrow> bool" where
  "native_command t ev =
    (case ev of RunTool program args \<Rightarrow>
       program = ''docker'' \<and> args = [''images'', ''--no-trunc'', ''--format'', docker_format] \<or>
       program = ''docker'' \<and> op_kind (pt_operation t) = OpDocker \<and> valid_docker_reference (op_reference (pt_operation t)) \<and>
         args = [''image'', ''rm'', ''--'', op_reference (pt_operation t)] \<or>
       program = ''tmutil'' \<and> args = [''listlocalsnapshots'', ''/''] \<or>
       program = ''tmutil'' \<and> op_kind (pt_operation t) = OpSnapshot \<and>
         (\<exists>date. snapshot_date (op_name (pt_operation t)) = Some date \<and> args = [''deletelocalsnapshots'', date]) \<or>
       program \<in> set brew_candidates \<and> args = [''cleanup'', ''-n''] \<or>
       program \<in> set brew_candidates \<and> op_kind (pt_operation t) = OpBrew \<and> args = [''cleanup'']
     | _ \<Rightarrow> False)"

lemma runs_native: "native_command t (RunTool program args) \<Longrightarrow> tr.steps (native_command t) (run_tool re program args secs)"
  unfolding run_tool_def by (intro tr_event) simp

text \<open>The brew executable found is one of the candidates.\<close>

lemma first_present_from: "first_present re ps s = (Some exe, s') \<Longrightarrow> exe = [] \<or> exe \<in> set ps"
proof (induction ps arbitrary: s)
  case (Cons p ps)
  then obtain r s1 where r: "act_lstat (re_env re) p s = (Some r, s1)"
    "(case r of Inr _ \<Rightarrow> act_ret p | Inl _ \<Rightarrow> first_present re ps) s1 = (Some exe, s')"
    by (auto elim!: act_bindE)
  then show ?case using Cons.IH [of s1] by (cases r) auto
qed simp

lemma brew_bind:
  assumes "\<And>exe. exe = [] \<or> exe \<in> set brew_candidates \<Longrightarrow> tr.steps P (f exe)"
  shows "tr.steps P (act_bind (brew_executable re) f)"
proof (rule tr.steps_bind)
  have "tr.steps P (first_present re ps)" for ps
    by (induction ps) (auto intro!: tr.steps_rules tr.steps_questions split: sum.splits)
  then show "tr.steps P (brew_executable re)" by (simp add: brew_executable_def)
next
  fix exe s s' assume "brew_executable re s = (Some exe, s')"
  then show "tr.steps P (f exe)" unfolding brew_executable_def by (intro assms first_present_from)
qed

text \<open>The executor for one target.\<close>

definition only_target :: "planned_target \<Rightarrow> ('w, 'x) capability \<Rightarrow> ('w, 'x) capability" where
  "only_target t cap = cap\<lparr>cap_apply := (\<lambda>u x. if u = t then cap_apply cap u x else act_stop)\<rparr>"

lemma only_target_fields:
  "cap_supports (only_target t cap) = cap_supports cap" "cap_occupancy (only_target t cap) = cap_occupancy cap"
  "cap_prepare (only_target t cap) = cap_prepare cap" "cap_effective (only_target t cap) = cap_effective cap"
  "cap_apply (only_target t cap) t = cap_apply cap t" "cap_verify (only_target t cap) = cap_verify cap"
  "cap_failure (only_target t cap) = cap_failure cap" "cap_unregister (only_target t cap) = cap_unregister cap"
  "cap_source (only_target t cap) = cap_source cap"
  by (simp_all add: only_target_def)

lemma run_step_only: "run_step re (only_target t cap) plan t occ = run_step re cap plan t occ"
proof -
  have "run_action re (only_target t cap) plan t occ a rn = run_action re cap plan t occ a rn" for a rn
    unfolding run_action_def run_revalidate_def run_source_def apply_status_def only_target_fields ..
  then show ?thesis by (intro ext) (simp only: run_step_def only_target_fields)
qed

lemma execute_only:
  assumes "target_of plan index = Some t"
  shows "execute_capability re (only_target t cap) x plan index occ = execute_capability re cap x plan index occ"
proof -
  have ix: "0 \<le> index" "index < int (length (cp_targets plan))" "cp_targets plan ! nat index = t"
    using assms by (auto simp: target_of_def split: if_splits)
  show ?thesis unfolding execute_capability_eq [OF ix(1,2)] ix(3) run_step_only ..
qed

lemmas native_steps = tr.steps_rules tr.steps_questions tr_progress brew_bind

lemma native_action_calls: "tr.steps (native_command t) (native_action re (pt_operation t) layers)"
proof (cases "op_kind (pt_operation t)")
  case OpDocker
  then show ?thesis unfolding native_action_def Let_def remove_docker_image_def
    by (simp, intro conjI impI native_steps runs_native) (auto simp: native_command_def)
next
  case OpSnapshot
  then show ?thesis unfolding native_action_def Let_def remove_snapshot_def
    by (cases "snapshot_date (op_name (pt_operation t))")
      (auto intro!: native_steps runs_native simp: native_command_def)
next
  case OpBrew
  then show ?thesis unfolding native_action_def Let_def brew_cleanup_action_def
    by simp (intro native_steps runs_native, auto simp: native_command_def)
qed (auto simp: native_action_def intro: tr.steps_ret)

lemma native_apply_calls: "tr.steps (native_command t) (native_apply re t x)"
proof -
  have "tr.steps (native_command t) (clean_fail path r)" for path r
    unfolding clean_fail_def by (intro native_steps)
  then show ?thesis unfolding native_apply_def Let_def
    by (auto intro!: native_steps native_action_calls split: sum.splits)
qed

lemma native_verify_calls: "tr.steps (native_command t) (native_verify re remember hint c x)"
proof -
  have "tr.steps (native_command t) (native_evidence re c)"
    unfolding native_evidence_def docker_reference_absence_def snapshot_absence_def brew_cleanup_completion_def
    by (cases c) (auto intro!: native_steps runs_native simp: native_command_def split: option.splits)
  then show ?thesis unfolding native_verify_def by (intro native_steps)
qed

interpretation nvx: executor "trace_grows (native_command t)" "only_target t (native_executor re remember hint)" for t re remember hint
  by unfold_locales
    (auto simp: only_target_def native_executor_def clean_fail_def intro!: native_steps native_apply_calls native_verify_calls tr.steps_stop)

text \<open>
  Property C26: executing a native target starts no program before, from the state in
  which the execution started, the target passed its check and the plan was validated; then it starts
  only the target's own removal, of a reference or a date that passed its syntax check, and
  inventories, and it changes no file itself.
\<close>

theorem native_plan_safe:
  "\<exists>calls. ps_trace (snd (execute_native_plan re remember plan index hint s)) = ps_trace s @ calls \<and>
     (calls = [] \<or> (\<exists>t u u'. target_of plan index = Some t \<and> native_supports t \<and>
        plan_validate re plan u = (Some (Inr ()), u') \<and> target_checked re plan t s u' \<and> list_all (native_command t) calls))"
proof -
  let ?cap = "native_executor re remember hint" and ?x = "\<lparr>nv_layers_deleted = False, nv_error = []\<rparr>"
  obtain r s' where ex: "execute_capability re ?cap ?x plan index SpotUnknown s = (r, s')" by fastforce
  show ?thesis
  proof (cases "ps_trace s' = ps_trace s")
    case True
    then show ?thesis by (simp add: execute_native_plan_def ex)
  next
    case False
    have "keeps_checks ?cap" "\<forall>t. cap_supports ?cap t \<longrightarrow> op_kind (pt_operation t) \<noteq> OpOfficialUninstall"
      by (auto simp: keeps_checks_def native_executor_def native_supports_def)
    with ex obtain t u' where t: "target_of plan index = Some t" "native_supports t" "target_checked re plan t s u'"
    proof (cases rule: execute_cases)
      case (prepared t u q s1)
      then show thesis by (intro that) (simp_all add: native_executor_def)
    qed (use False in simp)
    then obtain u where v: "plan_validate re plan u = (Some (Inr ()), u')"
      by (auto simp: target_checked_def revalidated_def)
    have "execute_capability re (only_target t ?cap) ?x plan index SpotUnknown s = (r, s')"
      using ex by (simp add: execute_only [OF t(1)])
    from tr.stepsD [OF nvx.steps_execute this] t v show ?thesis
      by (auto simp: execute_native_plan_def ex trace_grows_def)
  qed
qed

text \<open>
  When the removal of a native resource is reported as done, the owning
  program was asked afterwards, and its answer confirmed that the resource is gone.
\<close>

theorem native_plan_complete:
  assumes "execute_native_plan re remember plan index hint s = (Some fr, s')" "execution_result fr = None"
  shows "\<exists>t u u'. target_of plan index = Some t \<and> native_evidence re (target_completion t) u = (Some Confirmed, u')"
proof -
  obtain t y u where t: "target_of plan index = Some t"
    "native_verify re remember hint (target_completion t) y u = (Some Confirmed, s')"
    using execute_complete [OF assms(1) [unfolded execute_native_plan_def] assms(2)]
    by (auto simp: native_executor_def)
  from t(2) obtain ev u' where "native_evidence re (target_completion t) u = (Some ev, u')" "ev = Confirmed"
    unfolding native_verify_def by (elim act_bindE) (auto elim!: act_bindE split: if_splits)
  with t(1) show ?thesis by blast
qed

end
