(* ===== verification/Clean_Targets.thy ===== *)
theory Clean_Targets
  imports Scanner Native_Plan
begin

text \<open>
  \<^verbatim>\<open>internal/core/cleaner_targets.go\<close> and \<^verbatim>\<open>internal/core/cleaner_trash.go\<close>: what
  the user selected is merged by target, checked against what the scan recorded, and routed to the
  executor of its operation.
\<close>

section \<open>Selected targets\<close>

record clean_target =
  tg_plans :: "(nat \<times> cleanup_plan) list"
  tg_rule :: "rule_ref option"
  tg_operation :: operation
  tg_path :: string
  tg_remove_dir :: bool
  tg_size_hint :: "u64 option"
  tg_identity :: "target_identity option"
  tg_disposal :: disposal

definition item_target :: "scan_item \<Rightarrow> clean_target" where
  "item_target item =
    \<lparr>tg_plans = si_plans item, tg_rule = Some (si_rule item), tg_operation = si_operation item, tg_path = si_path item,
     tg_remove_dir = removes_directory (si_operation item), tg_size_hint = Some (si_size item),
     tg_identity = si_identity item, tg_disposal = si_disposal item\<rparr>"

text \<open>\<^verbatim>\<open>Recheck\<close> fails for one of the identities, from left to right.\<close>

definition identity_lost :: "'w rule_env \<Rightarrow> clean_target \<Rightarrow> ('w, bool) act" where
  "identity_lost re t = (case tg_identity t of None \<Rightarrow> act_ret False
     | Some i \<Rightarrow> act_bind (recheck (re_env re) i (tg_path t)) (\<lambda>ok. act_ret (\<not> ok)))"

definition targets_conflict :: "'w rule_env \<Rightarrow> clean_target \<Rightarrow> clean_target \<Rightarrow> ('w, bool) act" where
  "targets_conflict re first t =
    (if tg_operation first \<noteq> tg_operation t \<or> tg_disposal first \<noteq> tg_disposal t \<or> tg_remove_dir first \<noteq> tg_remove_dir t \<or>
        (tg_identity first = None) \<noteq> (tg_identity t = None) then act_ret True
     else act_bind (identity_lost re first) (\<lambda>lost. if lost then act_ret True else identity_lost re t))"

definition add_plan :: "nat \<times> cleanup_plan \<Rightarrow> (nat \<times> cleanup_plan) list \<Rightarrow> (nat \<times> cleanup_plan) list" where
  "add_plan p plans = (if List.member (map fst plans) (fst p) then plans else plans @ [p])"

definition join_rules :: "rule_ref option \<Rightarrow> rule_ref option \<Rightarrow> rule_ref option" where
  "join_rules first r =
    (case r of None \<Rightarrow> first
     | Some other \<Rightarrow> (case first of None \<Rightarrow> Some other | Some mine \<Rightarrow> Some (merge_ref mine other)))"

text \<open>\<open>current\<close> is \<^verbatim>\<open>CurrentRules\<close>.\<close>

definition engine_rule_ref :: "'w rule_env \<Rightarrow> rule_snapshot option \<Rightarrow> ('w, rule_ref) act" where
  "engine_rule_ref re current = new_rule_ref re current ''engine'' []"

definition join_targets :: "'w rule_env \<Rightarrow> rule_snapshot option \<Rightarrow> bool \<Rightarrow> clean_target \<Rightarrow> clean_target \<Rightarrow> ('w, clean_target) act" where
  "join_targets re current conflict first t =
    (let joined = first\<lparr>tg_plans := fold add_plan (tg_plans t) (tg_plans first), tg_rule := join_rules (tg_rule first) (tg_rule t)\<rparr> in
     if \<not> conflict then act_ret joined
     else act_bind (engine_rule_ref re current) (\<lambda>engine.
       let rule = (case tg_rule joined of None \<Rightarrow> engine | Some r \<Rightarrow> r) in
       act_ret (joined\<lparr>tg_rule := Some (block_ref ''Conflicting selected cleanup policies'' rule)\<rparr>)))"

definition clean_key :: "'w rule_env \<Rightarrow> clean_target \<Rightarrow> string" where
  "clean_key re t = target_key re (tg_operation t) (tg_path t)"

fun position_of :: "('a \<Rightarrow> bool) \<Rightarrow> 'a list \<Rightarrow> nat option" where
  "position_of P [] = None"
| "position_of P (x # xs) = (if P x then Some 0 else map_option Suc (position_of P xs))"

definition merge_clean_target :: "'w rule_env \<Rightarrow> rule_snapshot option \<Rightarrow> clean_target \<Rightarrow> clean_target list \<Rightarrow> ('w, clean_target list) act" where
  "merge_clean_target re current t merged =
    (case position_of (\<lambda>m. clean_key re m = clean_key re t) merged of
       None \<Rightarrow> act_ret (merged @ [t])
     | Some i \<Rightarrow> act_bind (targets_conflict re (merged ! i) t) (\<lambda>conflict.
         act_bind (join_targets re current conflict (merged ! i) t) (\<lambda>joined. act_ret (merged[i := joined]))))"

definition merge_clean_targets :: "'w rule_env \<Rightarrow> rule_snapshot option \<Rightarrow> clean_target list \<Rightarrow> ('w, clean_target list) act" where
  "merge_clean_targets re current targets = act_fold (merge_clean_target re current) targets []"

section \<open>Reports of a cleanup\<close>

definition merge_flow :: "flow_report \<Rightarrow> flow_report \<Rightarrow> flow_report" where
  "merge_flow a b = \<lparr>fr_report = merge_report (fr_report a) (fr_report b), fr_executions = fr_executions a @ fr_executions b\<rparr>"

definition plain_flow :: "clean_report \<Rightarrow> flow_report" where
  "plain_flow r = \<lparr>fr_report = r, fr_executions = []\<rparr>"

definition record_flow :: "string \<Rightarrow> clean_result \<Rightarrow> flow_report \<Rightarrow> flow_report" where
  "record_flow path res fr = fr\<lparr>fr_report := record_result path res (fr_report fr)\<rparr>"

record target_fail_info =
  tf_path :: string
  tf_reason :: "fail_reason option"
  tf_failed_leaves :: nat
  tf_skipped_leaves :: nat

text \<open>The loop of \<^verbatim>\<open>targetFailInfo\<close>: the counts by reason, and the most frequent real failure.\<close>

record fail_tally =
  fl_info :: target_fail_info
  fl_counts :: "fail_reason \<Rightarrow> nat"
  fl_error :: "fail_reason option"

definition count_of :: "fail_tally \<Rightarrow> fail_reason option \<Rightarrow> nat" where
  "count_of ft r = (case r of None \<Rightarrow> 0 | Some x \<Rightarrow> fl_counts ft x)"

definition tally_failure :: "fail_reason \<Rightarrow> fail_tally \<Rightarrow> fail_tally" where
  "tally_failure reason ft0 =
    (let ft1 = ft0\<lparr>fl_counts := (fl_counts ft0)(reason := fl_counts ft0 reason + 1),
           fl_info := (fl_info ft0)\<lparr>tf_failed_leaves := tf_failed_leaves (fl_info ft0) + 1\<rparr>\<rparr>;
         ft2 = (if is_skipped reason then ft1\<lparr>fl_info := (fl_info ft1)\<lparr>tf_skipped_leaves := tf_skipped_leaves (fl_info ft1) + 1\<rparr>\<rparr>
                else if count_of ft1 (fl_error ft1) < fl_counts ft1 reason then ft1\<lparr>fl_error := Some reason\<rparr> else ft1) in
     if count_of ft2 (tf_reason (fl_info ft2)) < fl_counts ft2 reason
     then ft2\<lparr>fl_info := (fl_info ft2)\<lparr>tf_reason := Some reason\<rparr>\<rparr> else ft2)"

definition failures_below :: "'w rule_env \<Rightarrow> string \<Rightarrow> clean_failure list \<Rightarrow> clean_failure list" where
  "failures_below re path failures =
    filter (\<lambda>f. cf_path f \<noteq> [] \<and> at_or_under (rule_norm re (cf_path f)) (rule_norm re path)) failures"

definition failure_reason :: "(string \<rightharpoonup> fail_reason) \<Rightarrow> clean_failure \<Rightarrow> fail_reason" where
  "failure_reason why f = (case why (cf_path f) of None \<Rightarrow> FailOther | Some r \<Rightarrow> r)"

definition target_fail_info_of ::
  "'w rule_env \<Rightarrow> string \<Rightarrow> clean_failure list \<Rightarrow> (string \<rightharpoonup> fail_reason) \<Rightarrow> target_fail_info" where
  "target_fail_info_of re path failures why =
    (let ft = fold tally_failure (map (failure_reason why) (failures_below re path failures))
           \<lparr>fl_info = \<lparr>tf_path = path, tf_reason = None, tf_failed_leaves = 0, tf_skipped_leaves = 0\<rparr>,
            fl_counts = (\<lambda>_. 0), fl_error = None\<rparr> in
     if fl_error ft \<noteq> None then (fl_info ft)\<lparr>tf_reason := fl_error ft\<rparr> else fl_info ft)"

section \<open>The trash\<close>

text \<open>What the platform and the settings supply to a cleanup.\<close>

record 'w clean_source =
  cl_spot :: "string list \<Rightarrow> 'w \<Rightarrow> (string \<rightharpoonup> spot_check) \<times> 'w"
  cl_empty_shell :: "'w \<Rightarrow> bool \<times> 'w"  \<comment> \<open>\<^verbatim>\<open>EmptyTrashShell\<close> without an error\<close>
  cl_trash_dirs :: "'w \<Rightarrow> string list \<times> 'w"
  cl_measure :: "string \<Rightarrow> 'w \<Rightarrow> path_measurement option \<times> 'w"
  cl_remember :: "'w \<Rightarrow> unit \<times> 'w"
  cl_rules :: "rule_snapshot option"

text \<open>
  \<^verbatim>\<open>equal_fold_literal\<close> is \<^verbatim>\<open>strings.EqualFold\<close> against an ASCII literal, Unicode folding included
  (\<open>Go_Path\<close>).
\<close>

definition is_recycle_junk_entry :: "'w rule_env \<Rightarrow> string \<Rightarrow> bool" where
  "is_recycle_junk_entry re name = (\<not> on_windows (re_env re) \<or> \<not> equal_fold_literal name ''desktop.ini'')"

text \<open>The children of a trash directory on Windows; the flag is the early return.\<close>

definition trash_child ::
  "nat \<Rightarrow> 'w rule_env \<Rightarrow> bool \<Rightarrow> clean_entry \<times> bool \<Rightarrow> clean_report \<times> bool \<Rightarrow> ('w, clean_report \<times> bool) act" where
  "trash_child depth re parent_ok cb st =
    (case (cb, st) of ((c, checked), (report, returned)) \<Rightarrow>
      if returned then act_ret st
      else act_bind (act_cancelled (re_env re)) (\<lambda>canc.
        if canc then act_ret (report, True)
        else if \<not> is_recycle_junk_entry re (path_base (ce_path c)) then act_ret st
        else if \<not> checked then
          act_bind (classify_unchecked_child (re_env re) parent_ok c) (\<lambda>r. case r of
            None \<Rightarrow> act_ret (record_result (ce_path c) CleanSkipped report, False)
          | Some reason \<Rightarrow> act_bind (clean_fail (ce_path c) reason) (\<lambda>res.
              act_ret (record_result (ce_path c) res report, False)))
        else act_bind (delete_tree depth (re_env re) (ce_path c)) (\<lambda>res.
          act_ret (record_result (ce_path c) res report, False))))"

definition trash_directory :: "nat \<Rightarrow> 'w rule_env \<Rightarrow> string \<Rightarrow> clean_report \<Rightarrow> ('w, clean_report \<times> bool) act" where
  "trash_directory depth re dir report =
    (let e = re_env re in
     act_bind (act_lstat e dir) (\<lambda>r.
     if r = Inl NotExist then act_ret (report, False)
     else if \<not> on_windows e then act_bind (clean_dir_contents depth e dir) (\<lambda>own. act_ret (merge_report report own, False))
     else if (case r of Inl _ \<Rightarrow> True | Inr md \<Rightarrow> \<not> fi_dir md \<or> fi_link md) then
       act_bind (clean_fail dir FailUnverified) (\<lambda>res. act_ret (record_result dir res report, False))
     else act_bind (enumerate_clean_entries e dir) (\<lambda>listing. case listing of
         Inl err \<Rightarrow> act_bind (clean_fail dir (io_fail_reason e err)) (\<lambda>res. act_ret (record_result dir res report, False))
       | Inr (children, parent) \<Rightarrow> act_bind (clean_entry_bindings e dir parent children) (\<lambda>(parent_ok, checked).
           act_fold (trash_child depth re parent_ok) (zip children checked) (report, False)))))"

fun trash_directories :: "nat \<Rightarrow> 'w rule_env \<Rightarrow> string list \<Rightarrow> clean_report \<Rightarrow> ('w, clean_report) act" where
  "trash_directories depth re [] report = act_ret report"
| "trash_directories depth re (dir # dirs) report =
    act_bind (act_cancelled (re_env re)) (\<lambda>canc.
      if canc then act_ret report
      else act_bind (trash_directory depth re dir report) (\<lambda>(report, returned).
        if returned then act_ret report else trash_directories depth re dirs report))"

definition empty_trash :: "nat \<Rightarrow> 'w rule_env \<Rightarrow> 'w clean_source \<Rightarrow> ('w, clean_report) act" where
  "empty_trash depth re src =
    act_bind (act_cancelled (re_env re)) (\<lambda>canc.
    if canc then act_ret empty_report
    else act_bind (act_event (\<lambda>_. RunTool ''EmptyTrashShell'' []) (cl_empty_shell src)) (\<lambda>ok.
      act_bind (act_os (cl_trash_dirs src)) (\<lambda>dirs.
        trash_directories depth re dirs
          (if ok then empty_report else record_target \<lparr>cf_path = [], cf_id = ''recycle_bin''\<rparr> CleanFailed empty_report))))"

section \<open>One selected target\<close>

definition leaf_occupancy_gate :: "'w rule_env \<Rightarrow> clean_target \<Rightarrow> bool" where
  "leaf_occupancy_gate re t =
    (on_windows (re_env re) \<and> tg_disposal t = Permanent \<and>
     (op_kind (tg_operation t) = OpContents \<or> op_kind (tg_operation t) = OpFile))"

definition forward_slashes :: "string \<Rightarrow> string" where
  "forward_slashes s = trim_right slash (map (\<lambda>c. if c = backslash then slash else c) s)"

definition launch_agent_plist :: "string \<Rightarrow> string \<Rightarrow> bool" where
  "launch_agent_plist path user_home =
    (case last_cut slash (forward_slashes path) of None \<Rightarrow> False
     | Some parent \<Rightarrow>
         let base = drop (length parent + 1) (forward_slashes path) in
         parent \<noteq> [] \<and>
         (case last_cut (CHR ''.'') base of None \<Rightarrow> False
          | Some stem \<Rightarrow> stem \<noteq> [] \<and> equal_fold_literal (drop (length stem) base) ''.plist'' \<and>
              (parent = ''/Library/LaunchAgents'' \<or> user_home \<noteq> [] \<and> parent = forward_slashes user_home @ ''/Library/LaunchAgents'')))"

fun bindings_valid :: "'w rule_env \<Rightarrow> clean_target \<Rightarrow> (nat \<times> cleanup_plan) list \<Rightarrow> ('w, bool) act" where
  "bindings_valid re t [] = act_ret True"
| "bindings_valid re t (p # ps) =
    act_bind (validate_binding re (snd p) (tg_path t) (tg_operation t) (tg_disposal t) (tg_identity t)) (\<lambda>r.
      case r of Inl _ \<Rightarrow> act_ret False | Inr _ \<Rightarrow> bindings_valid re t ps)"

text \<open>The checks before anything else; a failed one names its reason.\<close>

definition target_checks :: "'w rule_env \<Rightarrow> clean_target \<Rightarrow> ('w, fail_reason option) act" where
  "target_checks re t =
    act_bind (is_managed_agent_worktree (re_env re) (tg_path t)) (\<lambda>managed.
    if managed then act_ret (Some FailWorktreeManaged)
    else act_bind (case tg_rule t of None \<Rightarrow> act_ok () | Some r \<Rightarrow> revalidate re r) (\<lambda>v. case v of
      Inl _ \<Rightarrow> act_ret (Some FailUnverified)
    | Inr _ \<Rightarrow>
        act_bind (if tg_remove_dir t = removes_directory (tg_operation t)
                  then validate_target re (tg_operation t) (tg_path t) (tg_remove_dir t) else act_ret False) (\<lambda>shape.
        act_bind (bindings_valid re t (tg_plans t)) (\<lambda>bound.
          act_ret (if shape \<and> bound then None else Some FailUnverified)))))"

definition target_occupancy :: "'w rule_env \<Rightarrow> (string \<rightharpoonup> spot_check) \<Rightarrow> clean_target \<Rightarrow> spot_check" where
  "target_occupancy re spot t =
    (if leaf_occupancy_gate re t then SpotClear
     else case spot (tg_path t) of None \<Rightarrow> SpotUnknown | Some c \<Rightarrow> c)"

text \<open>The first plan, or one made of the target's own rule, and the target's position in it.\<close>

definition target_plan :: "'w rule_env \<Rightarrow> clean_target \<Rightarrow> ('w, cleanup_plan option) act" where
  "target_plan re t =
    (case tg_plans t of
       p # _ \<Rightarrow> act_ret (Some (snd p))
     | [] \<Rightarrow> (case tg_rule t of None \<Rightarrow> act_ret None
         | Some r \<Rightarrow> act_bind (new_cleanup_plan re r
             [\<lparr>pt_path = tg_path t, pt_operation = tg_operation t, pt_identity = tg_identity t, pt_disposal = tg_disposal t\<rparr>])
             (\<lambda>p. act_ret (Some p))))"

definition plan_position :: "'w rule_env \<Rightarrow> clean_target \<Rightarrow> cleanup_plan \<Rightarrow> nat option" where
  "plan_position re t p = position_of (\<lambda>u. target_key re (pt_operation u) (pt_path u) = clean_key re t) (cp_targets p)"

definition route_target ::
  "nat \<Rightarrow> 'w rule_env \<Rightarrow> 'w clean_source \<Rightarrow> spot_check \<Rightarrow> clean_target \<Rightarrow> cleanup_plan \<Rightarrow> nat \<Rightarrow> ('w, flow_report) act" where
  "route_target depth re src occupancy t p i =
    (let hint = (case tg_size_hint t of None \<Rightarrow> 0 | Some n \<Rightarrow> n) in
     case operation_route (tg_operation t) of
       RouteFilesystem \<Rightarrow> execute_filesystem_plan depth re p (int i) occupancy
     | RouteOwner \<Rightarrow> execute_owner_plan depth re p (int i) occupancy hint
     | RouteWorktree \<Rightarrow> execute_worktree_plan depth re p (int i) occupancy
     | RouteNative \<Rightarrow> execute_native_plan re (cl_remember src) p (int i) hint
     | _ \<Rightarrow> act_bind (clean_fail (tg_path t) FailUnverified) (\<lambda>res.
         act_ret (plain_flow (record_result (tg_path t) res empty_report))))"

text \<open>The body of the loop after the checks; the flag tells whether the trash was emptied.\<close>

definition act_result :: "string \<Rightarrow> flow_report \<times> bool \<Rightarrow> ('w, clean_result) act \<Rightarrow> ('w, flow_report \<times> bool) act" where
  "act_result path st m = act_bind m (\<lambda>res. act_ret (record_flow path res (fst st), snd st))"

definition run_target ::
  "nat \<Rightarrow> 'w rule_env \<Rightarrow> 'w clean_source \<Rightarrow> spot_check \<Rightarrow> clean_target \<Rightarrow> flow_report \<times> bool \<Rightarrow> ('w, flow_report \<times> bool) act" where
  "run_target depth re src occupancy t st =
    (let e = re_env re; path = tg_path t in
     if op_kind (tg_operation t) = OpTrash then
       (if is_volume_trash re path \<or> is_per_drive_trash re path then
          act_bind (clean_dir_contents depth e path) (\<lambda>r. act_ret (merge_flow (fst st) (plain_flow r), snd st))
        else if \<not> snd st then act_bind (empty_trash depth re src) (\<lambda>r. act_ret (merge_flow (fst st) (plain_flow r), True))
        else act_ret st)
     else if goos (e_policy e) = ''darwin'' \<and> launch_agent_plist path (case re_user_home re of None \<Rightarrow> [] | Some h \<Rightarrow> h) then
       act_bind (root_identity_holds e path (tg_identity t)) (\<lambda>same.
         act_result path st (if same then recycle_path_with e path else clean_fail path FailChanged))
     else act_bind (target_plan re t) (\<lambda>plan.
       case (case plan of None \<Rightarrow> None | Some p \<Rightarrow> map_option (Pair p) (plan_position re t p)) of
         None \<Rightarrow> act_result path st (clean_fail path FailUnverified)
       | Some (p, i) \<Rightarrow> act_bind (route_target depth re src occupancy t p i) (\<lambda>own.
           act_ret (merge_flow (fst st) own, snd st))))"

definition clean_one ::
  "nat \<Rightarrow> 'w rule_env \<Rightarrow> 'w clean_source \<Rightarrow> (string \<rightharpoonup> spot_check) \<Rightarrow> clean_target \<Rightarrow> flow_report \<times> bool \<Rightarrow> ('w, flow_report \<times> bool) act" where
  "clean_one depth re src spot t st =
    (let path = tg_path t; occupancy = target_occupancy re spot t in
     act_bind (note_path path) (\<lambda>_.
     act_bind (target_checks re t) (\<lambda>refused. case refused of
       Some reason \<Rightarrow> act_result path st (clean_fail path reason)
     | None \<Rightarrow>
         if \<not> is_native_resource (tg_operation t) \<and> occupancy \<noteq> SpotClear then
           act_result path st (clean_fail path (if occupancy = SpotBusy then FailInUse else FailUnverified))
         else run_target depth re src occupancy t st)))"

fun clean_loop ::
  "nat \<Rightarrow> 'w rule_env \<Rightarrow> 'w clean_source \<Rightarrow> (string \<rightharpoonup> spot_check) \<Rightarrow> clean_target list \<Rightarrow> flow_report \<times> bool \<Rightarrow> ('w, flow_report) act" where
  "clean_loop depth re src spot [] st = act_ret (fst st)"
| "clean_loop depth re src spot (t # ts) st =
    act_bind (act_cancelled (re_env re)) (\<lambda>canc.
      if canc then act_ret (fst st) else act_bind (clean_one depth re src spot t st) (clean_loop depth re src spot ts))"

section \<open>After the loop\<close>

record remaining_live =
  rl_path :: string
  rl_bytes :: u64
  rl_file_count :: u64

record targets_report =
  tr_flow :: flow_report
  tr_fail_info :: "target_fail_info list"
  tr_remaining :: "remaining_live list"

definition still_listed :: "'w rule_env \<Rightarrow> clean_report \<Rightarrow> clean_target \<Rightarrow> bool" where
  "still_listed re r t =
    list_ex (\<lambda>f. cf_path f = tg_path t \<or>
        cf_path f \<noteq> [] \<and> \<not> tg_remove_dir t \<and> at_or_under (rule_norm re (cf_path f)) (rule_norm re (tg_path t)))
      (FailedItems r @ SkippedItems r @ Manual r)"

definition account_target ::
  "'w rule_env \<Rightarrow> 'w clean_source \<Rightarrow> (string \<rightharpoonup> fail_reason) \<Rightarrow> clean_target \<Rightarrow> targets_report \<Rightarrow> ('w, targets_report) act" where
  "account_target re src why t rep0 =
    (let info = target_fail_info_of re (tg_path t) (FailedItems (fr_report (tr_flow rep0))) why;
         rep = (if 0 < tf_failed_leaves info then rep0\<lparr>tr_fail_info := tr_fail_info rep0 @ [info]\<rparr> else rep0) in
     act_bind (act_cancelled (re_env re)) (\<lambda>canc.
     if canc \<or> is_virtual_path (tg_path t) \<or> \<not> still_listed re (fr_report (tr_flow rep)) t then act_ret rep
     else act_bind (act_os (cl_measure src (tg_path t))) (\<lambda>m. act_ret (case m of
         None \<Rightarrow> rep
       | Some msr \<Rightarrow> rep\<lparr>tr_remaining := tr_remaining rep @
           [\<lparr>rl_path = tg_path t, rl_bytes = pm_size msr, rl_file_count = pm_files msr\<rparr>]\<rparr>))))"

definition clean_targets ::
  "nat \<Rightarrow> 'w rule_env \<Rightarrow> 'w clean_source \<Rightarrow> clean_target list \<Rightarrow> ('w, targets_report) act" where
  "clean_targets depth re src selected =
    act_bind (merge_clean_targets re (cl_rules src) selected) (\<lambda>targets.
    act_bind (act_os (cl_spot src (map tg_path (filter (\<lambda>t. \<not> leaf_occupancy_gate re t) targets)))) (\<lambda>spot.
    act_bind (clean_loop depth re src spot targets (plain_flow empty_report, False)) (\<lambda>fr.
    act_bind (act_read reasons) (\<lambda>why.
      act_fold (account_target re src why) targets \<lparr>tr_flow = fr, tr_fail_info = [], tr_remaining = []\<rparr>))))"

end
