(* ===== verification/Clean_Safety.thy ===== *)
theory Clean_Safety
  imports Clean_Targets
begin

text \<open>
  The cleanup of a selection as a whole: beside the programs it may start and the access rights of
  Windows trash directories it changes only what is unprotected, and a target is touched only in the
  state that the chain of its checks has reached.
\<close>

section \<open>Questions\<close>

context step_relation
begin

lemma steps_identity_holds: "steps (root_identity_holds e path i)"
  unfolding root_identity_holds_def by (auto intro!: steps_rules split: option.splits)

lemma steps_engine: "steps (engine_rule_ref re current)"
  unfolding engine_rule_ref_def new_rule_ref_def
  by (auto intro!: steps_rules steps_evidence split: option.splits)

lemma steps_merge_targets: "steps (merge_clean_targets re current ts)"
proof -
  have "steps (identity_lost re t)" for t
    unfolding identity_lost_def by (auto intro!: steps_rules split: option.splits)
  then have "steps (targets_conflict re a b)" for a b
    unfolding targets_conflict_def by (intro steps_rules)
  moreover have "steps (join_targets re current c a b)" for c a b
    unfolding join_targets_def Let_def by (intro steps_rules steps_engine)
  ultimately have "steps (merge_clean_target re current t ms)" for t ms
    unfolding merge_clean_target_def by (auto intro!: steps_rules split: option.splits)
  then show ?thesis unfolding merge_clean_targets_def by (intro steps_fold)
qed

lemma steps_bindings: "steps (bindings_valid re t ps)"
proof (induction ps)
  case (Cons p ps)
  then show ?case unfolding bindings_valid.simps validate_binding_def
    by (auto intro!: steps_rules steps_questions split: sum.splits)
qed (simp add: steps_ret)

lemma steps_target_checks: "steps (target_checks re t)"
  unfolding target_checks_def
  by (auto intro!: steps_rules steps_questions steps_revalidate steps_bindings split: option.splits sum.splits)

lemma steps_target_plan: "steps (target_plan re t)"
  unfolding target_plan_def new_cleanup_plan_def
  by (auto intro!: steps_rules steps_preserved split: list.splits option.splits)

end

section \<open>Nothing protected is changed\<close>

lemmas safe_clean = tr.steps_rules tr.steps_fold tr.steps_questions tr.steps_identity_holds tr.steps_merge_targets
  tr.steps_target_checks tr.steps_target_plan safe_intros

text \<open>
  The programs a cleanup starts: the owner's Go and pnpm commands, the two reading Git commands and the
  removal of a registration, the commands for images, snapshots and Homebrew, and the shell's own
  emptying of the trash.
\<close>

definition listed_program :: "event \<Rightarrow> bool" where
  "listed_program ev \<longleftrightarrow>
    owner_command ev \<or> git_reads ev \<or> (\<exists>d p. ev = RunTool ''git'' (git_options d @ [''worktree'', ''remove'', ''--'', p])) \<or>
    (\<exists>t. native_command t ev) \<or> ev = RunTool ''EmptyTrashShell'' []"

interpretation nax: executor "trace_grows listed_program" "native_executor re remember hint" for re remember hint
proof unfold_locales
  fix t :: planned_target and x :: native_state and c
  have lift: "tr.steps listed_program m" if "tr.steps (native_command t) m" for m :: "('c, 'd) act"
    using that by (rule tr_steps_mono) (auto simp: listed_program_def)
  show "tr.steps listed_program (cap_apply (native_executor re remember hint) t x)"
    by (simp add: native_executor_def lift [OF native_apply_calls])
  show "tr.steps listed_program (cap_verify (native_executor re remember hint) c x)"
    by (simp add: native_executor_def tr_steps_mono [OF native_verify_calls [of t]] listed_program_def exI [of _ t])
qed (auto simp: native_executor_def intro!: safe_clean)

text \<open>On Windows a trash directory that cannot be read is made accessible without a look at the policy.\<close>

definition trash_access :: "'w rule_env \<Rightarrow> 'w clean_source \<Rightarrow> event \<Rightarrow> bool" where
  "trash_access re src ev \<longleftrightarrow> on_windows (re_env re) \<and> (\<exists>dir w. ev = ForceAccess dir \<and> dir \<in> set (fst (cl_trash_dirs src w)))"

definition change_allowed :: "'w rule_env \<Rightarrow> 'w clean_source \<Rightarrow> event \<Rightarrow> bool" where
  "change_allowed re src ev \<longleftrightarrow> event_allowed (re_env re) ev \<or> listed_program ev \<or> trash_access re src ev"

abbreviation permitted :: "'w rule_env \<Rightarrow> 'w clean_source \<Rightarrow> ('w, 'a) act \<Rightarrow> bool" where
  "permitted re src m \<equiv> tr.steps (change_allowed re src) m"

lemma permitted_safe: "safe (re_env re) m \<Longrightarrow> permitted re src m"
  by (erule tr_steps_mono) (simp add: change_allowed_def)

lemma permitted_lift:
  "tr.steps (owner_event (re_env re)) m \<Longrightarrow> permitted re src m"
  "tr.steps (worktree_event (re_env re)) m \<Longrightarrow> permitted re src m"
  "tr.steps listed_program m \<Longrightarrow> permitted re src m"
  by (erule tr_steps_mono, auto simp: change_allowed_def owner_event_def worktree_event_def listed_program_def)+

lemma permitted_enumerate:
  assumes "dir \<in> set (fst (cl_trash_dirs src w))" "on_windows (re_env re)"
  shows "permitted re src (enumerate_clean_entries (re_env re) dir)"
proof -
  have "permitted re src (enumerate_entry e dir d)" for e d
    unfolding enumerate_entry_def Let_def by (intro safe_clean)
  then have "permitted re src (enumerate_loop e dir ds out)" for e ds out
    by (induction ds arbitrary: out) (auto intro!: safe_clean split: option.splits)
  moreover have "permitted re src (act_force_access (re_env re) dir)"
    unfolding act_force_access_def using assms by (intro tr_event) (auto simp: change_allowed_def trash_access_def)
  ultimately show ?thesis
    unfolding enumerate_clean_entries_def by (intro safe_clean)
qed

lemma permitted_trash: "permitted re src (empty_trash depth re src)"
proof -
  have child: "permitted re src (trash_child depth re ok cb st)" for ok cb st
    by (rule permitted_safe) (auto simp: trash_child_def intro!: safe_clean split: prod.splits option.splits)
  have leaves: "permitted re src (clean_dir_contents depth (re_env re) dir)" "permitted re src (clean_fail dir why)"
    "permitted re src (clean_entry_bindings (re_env re) dir parent children)" for dir why parent children
    by (rule permitted_safe, intro safe_clean)+
  have "permitted re src (trash_directory depth re dir report)" if "dir \<in> set (fst (cl_trash_dirs src w))" for dir report w
    unfolding trash_directory_def Let_def using that
    by (auto intro!: tr.steps_rules tr.steps_fold child leaves permitted_enumerate split: sum.splits prod.splits)
  then have dirs: "permitted re src (trash_directories depth re dirs report)" if "set dirs \<subseteq> set (fst (cl_trash_dirs src w))" for dirs report w
    using that by (induction dirs arbitrary: report) (auto intro!: tr.steps_rules tr.steps_guards)
  have all: "permitted re src (act_bind (act_os (cl_trash_dirs src)) (\<lambda>dirs. trash_directories depth re dirs report))" for report
  proof (rule tr.steps_bind [OF tr.steps_os])
    fix a and s s' :: "'a pst" assume "act_os (cl_trash_dirs src) s = (Some a, s')"
    then have "set a \<subseteq> set (fst (cl_trash_dirs src (ps_world s)))" by (auto simp: act_os_def split: prod.splits)
    then show "permitted re src (trash_directories depth re a report)" by (rule dirs)
  qed
  have "permitted re src (act_bind (act_event (\<lambda>_. RunTool ''EmptyTrashShell'' []) (cl_empty_shell src)) (\<lambda>ok.
      act_bind (act_os (cl_trash_dirs src)) (\<lambda>dirs. trash_directories depth re dirs (report ok))))" for report
  proof (rule tr.steps_bind)
    show "permitted re src (act_event (\<lambda>_. RunTool ''EmptyTrashShell'' []) (cl_empty_shell src))"
      by (rule tr_event) (simp add: change_allowed_def listed_program_def)
  qed (rule all)
  then show ?thesis unfolding empty_trash_def
    by (intro tr.steps_bind [OF tr.steps_cancelled] tr.steps_if tr.steps_ret)
qed

lemma permitted_route: "permitted re src (route_target depth re src occ t p i)"
proof -
  have "permitted re src (execute_filesystem_plan depth re p index occ)" for index
    unfolding execute_filesystem_plan_def by (rule permitted_safe [OF fsx.steps_execute])
  moreover have "permitted re src (execute_owner_plan depth re p index occ hint)" for index hint
    unfolding execute_owner_plan_def by (rule permitted_lift(1) [OF owx.steps_execute])
  moreover have "permitted re src (execute_worktree_plan depth re p index occ)" for index
    unfolding execute_worktree_plan_def by (rule permitted_lift(2) [OF wtx.steps_execute])
  moreover have "permitted re src (execute_native_plan re remember p index hint)" for remember index hint
    unfolding execute_native_plan_def by (rule permitted_lift(3) [OF nax.steps_execute])
  ultimately show ?thesis
    unfolding route_target_def Let_def by (auto intro!: safe_clean split: execution_route.splits)
qed

section \<open>Checks come first\<close>

text \<open>
  Whether something may still be using a target was asked and answered with no; or the target is not a
  path; or, on Windows, it is removed file by file, each opened exclusively.
\<close>

definition unoccupied :: "'w rule_env \<Rightarrow> (string \<rightharpoonup> spot_check) \<Rightarrow> clean_target \<Rightarrow> bool" where
  "unoccupied re spot t \<longleftrightarrow>
    op_kind (tg_operation t) \<in> {OpDocker, OpSnapshot, OpBrew, OpNative} \<or> spot (tg_path t) = Some SpotClear \<or>
    on_windows (re_env re) \<and> tg_disposal t = Permanent \<and> op_kind (tg_operation t) \<in> {OpContents, OpFile}"

text \<open>The plans a target is bound to, validated one after the other.\<close>

fun plans_checked :: "'w rule_env \<Rightarrow> clean_target \<Rightarrow> (nat \<times> cleanup_plan) list \<Rightarrow> 'w pst \<Rightarrow> 'w pst \<Rightarrow> bool" where
  "plans_checked re t [] s s' \<longleftrightarrow> s' = s"
| "plans_checked re t (p # ps) s s' \<longleftrightarrow>
    (\<exists>u\<in>set (cp_targets (snd p)). target_key re (pt_operation u) (pt_path u) = target_key re (tg_operation t) (tg_path t) \<and>
       pt_operation u = tg_operation t \<and> pt_disposal u = tg_disposal t \<and> pt_identity u = tg_identity t) \<and>
    (\<exists>s1. plan_validate re (snd p) s = (Some (Inr ()), s1) \<and> plan_checked re (snd p) s s1 \<and> plans_checked re t ps s1 s')"

text \<open>The checks of a selected target, as a chain of states during which nothing was changed.\<close>

definition authorized :: "'w rule_env \<Rightarrow> (string \<rightharpoonup> spot_check) \<Rightarrow> clean_target \<Rightarrow> 'w pst \<Rightarrow> 'w pst \<Rightarrow> bool" where
  "authorized re spot t s s' \<longleftrightarrow>
    unoccupied re spot t \<and> tg_remove_dir t = removes_directory (tg_operation t) \<and>
    (\<exists>s1 s2 s3.
      is_managed_agent_worktree (re_env re) (tg_path t) s = (Some False, s1) \<and>
      unmanaged_seen (re_env re) (tg_path t) (ps_world s) \<and>
      (case tg_rule t of None \<Rightarrow> s2 = s1 | Some r \<Rightarrow> revalidate re r s1 = (Some (Inr ()), s2)) \<and>
      validate_target re (tg_operation t) (tg_path t) (tg_remove_dir t) s2 = (Some True, s3) \<and>
      (op_kind (tg_operation t) \<in> shaped_kinds \<longrightarrow> shape_seen re (tg_operation t) (tg_path t) (ps_world s2)) \<and>
      plans_checked re t (tg_plans t) s3 s') \<and>
    ps_trace s' = ps_trace s"

lemma bindings_valid_Some: "bindings_valid re t ps s = (Some True, s') \<Longrightarrow> plans_checked re t ps s s'"
proof (induction ps arbitrary: s)
  case (Cons p ps)
  then obtain s1 where v: "validate_binding re (snd p) (tg_path t) (tg_operation t) (tg_disposal t) (tg_identity t) s = (Some (Inr ()), s1)"
    and rest: "bindings_valid re t ps s1 = (Some True, s')"
    by (auto elim!: act_bindE split: sum.splits)
  from v have "list_ex (binding_matches re (tg_path t) (tg_operation t) (tg_disposal t) (tg_identity t)) (cp_targets (snd p))"
    "plan_validate re (snd p) s = (Some (Inr ()), s1)"
    by (auto simp: validate_binding_def act_msg_def act_fail_def split: if_splits)
  with Cons.IH [OF rest] plan_validate_checked show ?case by (auto simp: list_ex_iff binding_matches_def)
qed simp

lemma occupancy_clear:
  "is_native_resource (tg_operation t) \<or> target_occupancy re spot t = SpotClear \<Longrightarrow> unoccupied re spot t"
  by (auto simp: unoccupied_def is_native_resource_def target_occupancy_def leaf_occupancy_gate_def split: option.splits if_splits)

lemma target_checks_None:
  assumes "target_checks re t s = (Some None, s')" "is_native_resource (tg_operation t) \<or> target_occupancy re spot t = SpotClear"
  shows "authorized re spot t s s'"
proof -
  obtain s1 s2 s3 v where m: "is_managed_agent_worktree (re_env re) (tg_path t) s = (Some False, s1)"
    and v: "(case tg_rule t of None \<Rightarrow> act_ok () | Some r \<Rightarrow> revalidate re r) s1 = (Some (Inr v), s2)"
    and shape: "(if tg_remove_dir t = removes_directory (tg_operation t)
       then validate_target re (tg_operation t) (tg_path t) (tg_remove_dir t) else act_ret False) s2 = (Some True, s3)"
    and bound: "bindings_valid re t (tg_plans t) s3 = (Some True, s')"
    using assms(1) unfolding target_checks_def
    by (auto elim!: act_bindE split: if_splits sum.splits)
  have "case tg_rule t of None \<Rightarrow> s2 = s1 | Some r \<Rightarrow> revalidate re r s1 = (Some (Inr ()), s2)"
    using v by (auto simp: act_ok_def split: option.splits)
  moreover have "tg_remove_dir t = removes_directory (tg_operation t)"
    "validate_target re (tg_operation t) (tg_path t) (tg_remove_dir t) s2 = (Some True, s3)"
    using shape by (auto split: if_splits)
  moreover have "ps_trace s' = ps_trace s" using qt.stepsD [OF qt.steps_target_checks assms(1)] .
  ultimately show ?thesis
    unfolding authorized_def
    using m managed_False [OF m] validate_target_shape occupancy_clear [OF assms(2)] bindings_valid_Some [OF bound] by blast
qed

text \<open>
  Property C2: handling a selected target either changes nothing at all, or goes on from the
  state \<open>u\<close> that a chain of checks reached, from the state in which the handling started and with
  no change in between: nothing was using the target (a path that was not probed, or whose use is unknown,
  does not count as unused), no agent manages it, its rule was validated again, it is of the kind its
  operation asks for, and every plan it is bound to was validated and has a target of exactly its
  key, operation, disposal and identity.
\<close>

theorem clean_one_authorized:
  fixes s :: "'w pst"
  shows "ps_trace (snd (clean_one depth re src spot t st s)) = ps_trace s \<or>
    (\<exists>s0 u. note_path (tg_path t) s = (Some (), s0) \<and> authorized re spot t s0 u \<and> ps_trace u = ps_trace s \<and>
      clean_one depth re src spot t st s = run_target depth re src (target_occupancy re spot t) t st u)"
proof -
  obtain s0 where noted: "note_path (tg_path t) s = (Some (), s0)" "ps_trace s0 = ps_trace s"
    by (simp add: note_path_def act_progress_def)
  obtain q s1 where q: "target_checks re t s0 = (q, s1)" by fastforce
  have s1: "ps_trace s1 = ps_trace s" using qt.stepsD [OF qt.steps_target_checks q] noted by simp
  have fail: "ps_trace (snd (act_result path st (clean_fail path why) u)) = ps_trace u" for path why and u :: "'w pst"
    by (simp add: act_result_def clean_fail_def act_progress_def act_bind_def act_ret_def)
  note unf = clean_one_def Let_def act_bind_def [of "note_path _"] act_bind_def [of "target_checks _ _"]
  consider why where "q = Some (Some why)" | "q = None"
    | "q = Some None" "\<not> is_native_resource (tg_operation t) \<and> target_occupancy re spot t \<noteq> SpotClear"
    | (clear) "q = Some None" "is_native_resource (tg_operation t) \<or> target_occupancy re spot t = SpotClear"
    by (cases q) auto
  then show ?thesis
  proof cases
    case clear
    with q have "authorized re spot t s0 s1" by (intro target_checks_None) simp_all
    moreover have "clean_one depth re src spot t st s = run_target depth re src (target_occupancy re spot t) t st s1"
      using noted q clear by (auto simp: unf)
    ultimately show ?thesis using noted s1 by blast
  qed (use noted q s1 fail in \<open>auto simp: unf\<close>)
qed

section \<open>The whole cleanup\<close>

lemma permitted_one: "permitted re src (clean_one depth re src spot t st)"
proof -
  have result: "permitted re src (act_result path st m)" if "safe (re_env re) m" for path m
    unfolding act_result_def by (intro tr.steps_rules permitted_safe that)
  have "permitted re src (run_target depth re src occ t st)" for occ
    unfolding run_target_def Let_def
    by (auto intro!: tr.steps_rules result permitted_route permitted_safe [OF safe_dir_contents]
      permitted_trash tr.steps_identity_holds tr.steps_target_plan safe_dispose steps_counts split: option.splits)
  then show ?thesis unfolding clean_one_def Let_def
    by (auto intro!: tr.steps_rules tr.steps_target_checks result steps_counts split: option.splits)
qed

text \<open>
  Property C1: whatever was selected, whatever the system answers and whatever changes
  meanwhile, a cleanup asks the system to remove, recycle or make writable only paths that the policy
  does not protect and for which the system reported no managed worktree; a directory whose access
  rights are recovered has at least contents that may be cleared.  Beside this it does only two things:
  it starts programs, each of them a command of the list \<open>listed_program\<close>, which removes what its
  own program owns; and on Windows it recovers the access rights of the trash directories that the
  system names, which are not compared with the policy.
\<close>

theorem clean_targets_safe:
  "\<exists>calls. ps_trace (snd (clean_targets depth re src selected s)) = ps_trace s @ calls \<and>
     list_all (change_allowed re src) calls"
proof -
  have loop: "permitted re src (clean_loop depth re src spot ts st)" for spot ts st
    by (induction ts arbitrary: st) (auto intro!: tr.steps_rules permitted_one)
  have account: "permitted re src (account_target re src why t rep)" for why t rep
    unfolding account_target_def Let_def by (intro tr.steps_rules)
  obtain r s' where run: "clean_targets depth re src selected s = (r, s')" by fastforce
  have "permitted re src (clean_targets depth re src selected)"
    unfolding clean_targets_def by (intro tr.steps_rules tr.steps_merge_targets tr.steps_fold loop account)
  from tr.stepsD [OF this run] show ?thesis by (auto simp: run trace_grows_def)
qed

end
