(* ===== verification/Clean_Merge.thy ===== *)
theory Clean_Merge
  imports Clean_Targets
begin

text \<open>
  From the scan to the cleanup: a scanned item reaches the executor with the plan that was frozen
  for it, a merged selection keeps every plan, and the reason shown for a target hides no failure.
\<close>

section \<open>A scanned item is its plan's target\<close>

text \<open>
  Property C4: an item of a scan, when it is selected, is cleaned under the one plan that
  the scan froze for it, as that plan's first target, and passes the comparison of the selection
  with the plan.
\<close>

theorem scanned_item_planned:
  assumes "scan_fixed re src targets s = (Some cats, s')" "item \<in> set (all_items cats)"
  shows "\<exists>a plan. tg_plans (item_target item) = [(a, plan)] \<and> target_plan re (item_target item) = act_ret (Some plan) \<and>
    plan_position re (item_target item) plan = Some 0 \<and>
    list_ex (binding_matches re (si_path item) (si_operation item) (si_disposal item) (si_identity item)) (cp_targets plan)"
proof -
  have "bound_item item"
    using scan_fixed_items [OF assms(1)] assms(2)
    by (auto simp: all_items_def list_all_iff well_formed_summary_def well_formed_item_def)
  moreover from this obtain a plan where plans: "si_plans item = [(a, plan)]"
    by (cases "si_plans item"; cases "tl (si_plans item)") (auto simp: bound_item_def)
  ultimately have "cp_targets plan =
      [\<lparr>pt_path = si_path item, pt_operation = si_operation item, pt_identity = si_identity item, pt_disposal = si_disposal item\<rparr>]"
    by (simp add: bound_item_def)
  with plans show ?thesis
    by (auto simp: item_target_def target_plan_def plan_position_def clean_key_def binding_matches_def)
qed

section \<open>Merging a selection\<close>

definition plan_addresses :: "clean_target \<Rightarrow> nat set" where
  "plan_addresses t = fst ` set (tg_plans t)"

definition merged_ok :: "'w rule_env \<Rightarrow> clean_target list \<Rightarrow> clean_target list \<Rightarrow> bool" where
  "merged_ok re ts ms \<longleftrightarrow> distinct (map (clean_key re) ms) \<and> set (map (clean_key re) ms) = set (map (clean_key re) ts) \<and>
     (\<forall>t \<in> set ts. \<exists>m \<in> set ms. clean_key re m = clean_key re t \<and> plan_addresses t \<subseteq> plan_addresses m)"

lemma position_of_Some: "position_of P xs = Some i \<Longrightarrow> i < length xs \<and> P (xs ! i)"
  by (induction xs arbitrary: i) (auto split: if_splits)

lemma position_of_None: "position_of P xs = None \<longleftrightarrow> (\<forall>x \<in> set xs. \<not> P x)"
  by (induction xs) auto

lemma fold_add_plan: "fst ` set (fold add_plan ps qs) = fst ` set ps \<union> fst ` set qs"
  by (induction ps arbitrary: qs) (auto simp: add_plan_def)

lemma join_targets_Some:
  assumes "join_targets re current c first t s = (Some m, s')"
  shows "clean_key re m = clean_key re first" "plan_addresses m = plan_addresses first \<union> plan_addresses t"
proof -
  have m: "tg_plans m = fold add_plan (tg_plans t) (tg_plans first)" "tg_operation m = tg_operation first" "tg_path m = tg_path first"
    using assms by (auto simp: join_targets_def Let_def elim!: act_bindE split: if_splits)
  show "clean_key re m = clean_key re first" by (simp add: clean_key_def m)
  show "plan_addresses m = plan_addresses first \<union> plan_addresses t"
    using fold_add_plan [of "tg_plans t" "tg_plans first"] by (simp add: plan_addresses_def m Un_commute)
qed

lemma merge_clean_target_ok:
  assumes "merge_clean_target re current t ms s = (Some out, s')" "merged_ok re ts ms"
  shows "merged_ok re (ts @ [t]) out"
proof (cases "position_of (\<lambda>m. clean_key re m = clean_key re t) ms")
  case None
  then have "out = ms @ [t]" using assms(1) by (simp add: merge_clean_target_def)
  moreover have "clean_key re t \<notin> set (map (clean_key re) ms)" using None by (auto simp: position_of_None)
  ultimately have "out = ms @ [t]" "clean_key re t \<notin> set (map (clean_key re) ms)" by simp_all
  then show ?thesis using assms(2) by (auto simp: merged_ok_def)
next
  case (Some i)
  then obtain c s1 m where i: "i < length ms" "clean_key re (ms ! i) = clean_key re t"
    and m: "join_targets re current c (ms ! i) t s1 = (Some m, s')" and out: "out = ms[i := m]"
    using assms(1) position_of_Some [OF Some] by (auto simp: merge_clean_target_def elim!: act_bindE)
  have keys: "map (clean_key re) out = map (clean_key re) ms"
    using join_targets_Some(1) [OF m] i by (simp add: out map_update list_update_same_conv)
  have keep: "\<exists>m' \<in> set out. clean_key re m' = clean_key re x \<and> plan_addresses x \<subseteq> plan_addresses m'" if "x \<in> set ms" for x
  proof (cases "x = ms ! i")
    case True
    then show ?thesis using join_targets_Some [OF m] i(1) by (auto simp: out intro!: bexI [of _ m] set_update_memI)
  next
    case False
    from that obtain k where "k < length ms" "ms ! k = x" by (auto simp: in_set_conv_nth)
    then have "k \<noteq> i" using False by auto
    then have "out ! k = x" "k < length out" using \<open>k < length ms\<close> \<open>ms ! k = x\<close> by (simp_all add: out)
    then have "x \<in> set out" by (metis nth_mem)
    then show ?thesis by blast
  qed
  have new: "m \<in> set out" using i(1) by (simp add: out set_update_memI)
  show ?thesis unfolding merged_ok_def keys
  proof (intro conjI ballI)
    show "distinct (map (clean_key re) ms)" using assms(2) by (simp add: merged_ok_def)
    show "set (map (clean_key re) ms) = set (map (clean_key re) (ts @ [t]))"
    proof -
      have "clean_key re t \<in> clean_key re ` set ms" using i by (metis imageI nth_mem)
      then show ?thesis using assms(2) by (auto simp: merged_ok_def)
    qed
    fix u assume "u \<in> set (ts @ [t])"
    then consider "u \<in> set ts" | "u = t" by auto
    then show "\<exists>m \<in> set out. clean_key re m = clean_key re u \<and> plan_addresses u \<subseteq> plan_addresses m"
    proof cases
      case 1
      then obtain x where "x \<in> set ms" "clean_key re x = clean_key re u" "plan_addresses u \<subseteq> plan_addresses x"
        using assms(2) by (auto simp: merged_ok_def)
      with keep [of x] show ?thesis by fastforce
    next
      case 2
      then show ?thesis using join_targets_Some [OF m] i(2) new by (intro bexI [of _ m]) auto
    qed
  qed
qed

text \<open>
  Property C25: a merged selection has one target for each key that was selected, and no
  plan is lost: the merged target carries every plan of each target it stands for, so all of them
  are validated before it is touched.
\<close>

theorem merge_clean_targets_spec:
  assumes "merge_clean_targets re current selected s = (Some merged, s')"
  shows "distinct (map (clean_key re) merged) \<and> set (map (clean_key re) merged) = set (map (clean_key re) selected) \<and>
    list_all (\<lambda>t. list_ex (\<lambda>m. clean_key re m = clean_key re t \<and> plan_addresses t \<subseteq> plan_addresses m) merged) selected"
proof -
  have "merged_ok re (ts @ selected) merged" if "merged_ok re ts ms" "act_fold (merge_clean_target re current) selected ms s = (Some merged, s')"
    for ts ms
    using that
  proof (induction selected arbitrary: ts ms s)
    case (Cons t selected)
    then obtain ms1 s1 where t: "merge_clean_target re current t ms s = (Some ms1, s1)"
      and rest: "act_fold (merge_clean_target re current) selected ms1 s1 = (Some merged, s')"
      by (auto elim: act_bindE)
    from Cons.IH [OF merge_clean_target_ok [OF t Cons.prems(1)] rest] show ?case by simp
  qed simp
  from this [of "[]" "[]"] assms show ?thesis
    by (auto simp: merge_clean_targets_def merged_ok_def list_all_iff list_ex_iff)
qed

section \<open>The reason of a target\<close>

text \<open>\<open>best\<close> is a most frequent reason among those of \<open>P\<close>.\<close>

definition leads :: "(fail_reason \<Rightarrow> nat) \<Rightarrow> (fail_reason \<Rightarrow> bool) \<Rightarrow> fail_reason option \<Rightarrow> bool" where
  "leads cnt P best = (case best of
     None \<Rightarrow> \<forall>q. P q \<longrightarrow> cnt q = 0
   | Some b \<Rightarrow> P b \<and> 0 < cnt b \<and> (\<forall>q. P q \<longrightarrow> cnt q \<le> cnt b))"

lemma leads_step:
  assumes "leads cnt P best" "P r" "cnt' = cnt(r := cnt r + 1)"
  shows "leads cnt' P (if (case best of None \<Rightarrow> 0 | Some b \<Rightarrow> cnt' b) < cnt' r then Some r else best)"
  using assms by (cases best) (auto simp: leads_def le_Suc_eq)

lemma leads_other: "leads cnt P best \<Longrightarrow> \<not> P r \<Longrightarrow> leads (cnt(r := n)) P best"
  by (cases best) (auto simp: leads_def)

definition tallied :: "string \<Rightarrow> fail_reason list \<Rightarrow> fail_tally \<Rightarrow> bool" where
  "tallied path rs ft \<longleftrightarrow> fl_counts ft = count_list rs \<and> tf_path (fl_info ft) = path \<and>
     tf_failed_leaves (fl_info ft) = length rs \<and> tf_skipped_leaves (fl_info ft) = length (filter is_skipped rs) \<and>
     leads (count_list rs) (\<lambda>_. True) (tf_reason (fl_info ft)) \<and>
     leads (count_list rs) (\<lambda>r. \<not> is_skipped r) (fl_error ft)"

lemma tally_step:
  assumes "tallied path rs ft"
  shows "tallied path (rs @ [r]) (tally_failure r ft)"
proof -
  have cnt: "count_list (rs @ [r]) = (count_list rs)(r := count_list rs r + 1)" by (auto simp: fun_eq_iff)
  have all: "leads (count_list rs) (\<lambda>_. True) (tf_reason (fl_info ft))" and real: "leads (count_list rs) (\<lambda>r. \<not> is_skipped r) (fl_error ft)"
    and c: "fl_counts ft = count_list rs"
    using assms by (simp_all add: tallied_def)
  note steps = leads_step [OF all _ cnt] leads_step [OF real _ cnt] leads_other [OF real, of r "count_list rs r + 1"]
  show ?thesis
    using assms steps
    by (cases "is_skipped r")
      (auto simp: tallied_def tally_failure_def Let_def count_of_def c cnt cong: option.case_cong split: if_splits)
qed

lemma tally_fold: "tallied path (rs @ qs) (fold tally_failure qs ft)" if "tallied path rs ft"
  using that by (induction qs arbitrary: rs ft) (use tally_step in fastforce)+

definition failure_reasons :: "'w rule_env \<Rightarrow> string \<Rightarrow> clean_failure list \<Rightarrow> (string \<rightharpoonup> fail_reason) \<Rightarrow> fail_reason list" where
  "failure_reasons re path failures why = map (failure_reason why) (failures_below re path failures)"

text \<open>
  The failures counted for a target are all those recorded at or below it; the
  reason shown is a most frequent one, but as soon as one of them is a real failure it is a most
  frequent real failure, however many leaves were merely skipped.
\<close>

theorem target_fail_info_spec:
  "let rs = failure_reasons re path failures why; info = target_fail_info_of re path failures why in
    tf_failed_leaves info = length rs \<and> tf_skipped_leaves info = length (filter is_skipped rs) \<and>
    (if rs = [] then tf_reason info = None
     else \<exists>r \<in> set rs. tf_reason info = Some r \<and> list_ex (\<lambda>q. \<not> is_skipped q) rs = (\<not> is_skipped r) \<and>
       list_all (\<lambda>q. count_list rs q \<le> count_list rs r) (filter (\<lambda>q. is_skipped q = is_skipped r) rs))"
proof -
  define rs where "rs = failure_reasons re path failures why"
  define info where "info = target_fail_info_of re path failures why"
  define ft where "ft = fold tally_failure rs \<lparr>fl_info = \<lparr>tf_path = path, tf_reason = None, tf_failed_leaves = 0, tf_skipped_leaves = 0\<rparr>,
            fl_counts = (\<lambda>_. 0), fl_error = None\<rparr>"
  have "tallied path ([] @ rs) ft"
    unfolding ft_def by (rule tally_fold) (simp add: tallied_def leads_def fun_eq_iff)
  then have ft: "tallied path rs ft" by simp
  have info: "info = (if fl_error ft \<noteq> None then (fl_info ft)\<lparr>tf_reason := fl_error ft\<rparr> else fl_info ft)"
    by (simp only: info_def target_fail_info_of_def ft_def rs_def failure_reasons_def Let_def)
  have mem: "q \<in> set rs \<longleftrightarrow> 0 < count_list rs q" for q
    by (simp add: count_list_0_iff flip: neq0_conv)
  have "tf_failed_leaves info = length rs \<and> tf_skipped_leaves info = length (filter is_skipped rs) \<and>
    (if rs = [] then tf_reason info = None
     else \<exists>r \<in> set rs. tf_reason info = Some r \<and> list_ex (\<lambda>q. \<not> is_skipped q) rs = (\<not> is_skipped r) \<and>
       list_all (\<lambda>q. count_list rs q \<le> count_list rs r) (filter (\<lambda>q. is_skipped q = is_skipped r) rs))"
  proof (cases "fl_error ft")
    case None
    then have skipped: "q \<in> set rs \<Longrightarrow> is_skipped q" for q
      using ft by (auto simp: tallied_def leads_def mem)
    show ?thesis
    proof (cases "tf_reason (fl_info ft)")
      case None
      then have "rs = []" using ft mem by (cases rs) (auto simp: tallied_def leads_def)
      then show ?thesis using ft \<open>fl_error ft = None\<close> None by (simp add: info tallied_def)
    next
      case (Some r)
      then have "r \<in> set rs" "\<forall>q. count_list rs q \<le> count_list rs r" using ft by (auto simp: tallied_def leads_def mem)
      then show ?thesis using ft \<open>fl_error ft = None\<close> Some skipped
        by (auto simp: info tallied_def list_ex_iff list_all_iff)
    qed
  next
    case (Some r)
    then have "r \<in> set rs" "\<not> is_skipped r" "\<forall>q. \<not> is_skipped q \<longrightarrow> count_list rs q \<le> count_list rs r"
      using ft by (auto simp: tallied_def leads_def mem)
    then show ?thesis using ft Some by (auto simp: info tallied_def list_ex_iff list_all_iff)
  qed
  then show ?thesis unfolding Let_def rs_def info_def .
qed

end
