(* ===== verification/Clean_Sample.thy ===== *)
theory Clean_Sample
  imports Plan_Sample Clean_Safety Clean_Merge
begin

text \<open>
  The disk of \<open>Plan_Sample\<close> scanned, merged, split and cleaned: the properties of scans and
  selections at concrete inputs.
\<close>

definition sample_scan_target :: "string \<Rightarrow> scan_target" where
  "sample_scan_target path = \<lparr>sc_operation = plain_operation OpTree, sc_disposal = Permanent, sc_rule = sample_ref,
     sc_path = path, sc_label = \<lparr>lb_zh = [], lb_en = []\<rparr>, sc_category = UserCache, sc_recommended = True, sc_size_hint = None,
     sc_owner = None\<rparr>"

definition disk_source :: "disk scan_source" where
  "disk_source = \<lparr>ss_measure = (\<lambda>_ w. (Some \<lparr>pm_size = 1, pm_files = 1, pm_newest_mtime = 0\<rparr>, w)), ss_stopped = (\<lambda>w. (False, w))\<rparr>"

definition sample_identity :: "u64 \<Rightarrow> target_identity" where
  "sample_identity i = \<lparr>id_dev = 1, id_ino = i, id_mtime = 0, id_length = 1, id_stable = None, id_is_dir = False\<rparr>"

fun scanned_paths :: "category_summary list option \<times> 'w pst \<Rightarrow> string list" where
  "scanned_paths (None, s) = []"
| "scanned_paths (Some cats, s) = map si_path (all_items cats)"

lemma sample_scanned:
  "scanned_paths (scan_fixed disk_rule_env disk_source [sample_scan_target ''/t/a'', sample_scan_target ''/t/b''] disk_state) = [''/t/a'', ''/t/b'']"
  by code_simp

lemma sample_scan_run:
  obtains cats s' item where "scan_fixed disk_rule_env disk_source [sample_scan_target ''/t/a'', sample_scan_target ''/t/b''] disk_state = (Some cats, s')"
    "map si_path (all_items cats) = [''/t/a'', ''/t/b'']" "item \<in> set (all_items cats)" "si_path item = ''/t/a''"
proof -
  obtain r s' where run: "scan_fixed disk_rule_env disk_source [sample_scan_target ''/t/a'', sample_scan_target ''/t/b''] disk_state = (r, s')"
    by fastforce
  then obtain cats where "r = Some cats" "map si_path (all_items cats) = [''/t/a'', ''/t/b'']"
    using sample_scanned by (cases r) simp_all
  with run that [of cats s' "hd (all_items cats)"] show ?thesis by (cases "all_items cats") simp_all
qed

theorem scan_fixed_well_formed_witness:
  "\<exists>cats s'. scan_fixed disk_rule_env disk_source [sample_scan_target ''/t/a'', sample_scan_target ''/t/b''] disk_state = (Some cats, s') \<and>
     map si_path (all_items cats) = [''/t/a'', ''/t/b''] \<and> list_all (well_formed_summary disk_rule_env) cats"
proof -
  obtain cats s' where r: "scan_fixed disk_rule_env disk_source [sample_scan_target ''/t/a'', sample_scan_target ''/t/b''] disk_state = (Some cats, s')"
    "map si_path (all_items cats) = [''/t/a'', ''/t/b'']" by (rule sample_scan_run)
  from scan_fixed_well_formed [OF r(1)] r show ?thesis by (auto simp: list_all_iff)
qed

theorem scanned_item_planned_witness:
  "\<exists>item plan. si_path item = ''/t/a'' \<and> target_plan disk_rule_env (item_target item) = act_ret (Some plan) \<and>
     plan_position disk_rule_env (item_target item) plan = Some 0"
proof -
  obtain cats s' item where r: "scan_fixed disk_rule_env disk_source [sample_scan_target ''/t/a'', sample_scan_target ''/t/b''] disk_state = (Some cats, s')"
    and item: "item \<in> set (all_items cats)" "si_path item = ''/t/a''" by (rule sample_scan_run)
  from scanned_item_planned [OF r item(1)] item(2) show ?thesis by blast
qed

lemma sample_first_scan:
  obtains cats s' where "scan_fixed disk_rule_env disk_source [sample_scan_target ''/t/a''] disk_state = (Some cats, s')"
    "map si_path (all_items cats) = [''/t/a'']"
proof -
  have "scanned_paths (scan_fixed disk_rule_env disk_source [sample_scan_target ''/t/a''] disk_state) = [''/t/a'']" by code_simp
  with that show ?thesis
    by (cases "scan_fixed disk_rule_env disk_source [sample_scan_target ''/t/a''] disk_state"; cases "fst (scan_fixed disk_rule_env disk_source [sample_scan_target ''/t/a''] disk_state)") auto
qed

theorem merge_discovered_safe_witness:
  "\<exists>cats items. map si_path (all_items cats) = [''/t/a''] \<and> map si_path items = [''/t/a'', ''/t/b''] \<and>
     list_all (well_formed_summary disk_rule_env) (merge_discovered disk_rule_env cats items False)"
proof -
  obtain cats s' where c: "scan_fixed disk_rule_env disk_source [sample_scan_target ''/t/a''] disk_state = (Some cats, s')"
    "map si_path (all_items cats) = [''/t/a'']" by (rule sample_first_scan)
  obtain more_cats s2 where m: "scan_fixed disk_rule_env disk_source [sample_scan_target ''/t/a'', sample_scan_target ''/t/b''] disk_state = (Some more_cats, s2)"
    "map si_path (all_items more_cats) = [''/t/a'', ''/t/b'']" by (rule sample_scan_run)
  have wf: "list_all (well_formed_summary disk_rule_env) cats" using scan_fixed_items [OF c(1)] by (auto simp: list_all_iff)
  have "list_all ready_item (all_items more_cats)"
    using scan_fixed_items [OF m(1)] by (auto simp: list_all_iff all_items_def well_formed_summary_def well_formed_item_def ready_item_def)
  from merge_discovered_safe [OF wf this, of False] c(2) m(2) show ?thesis
    by (intro exI [of _ cats] exI [of _ "all_items more_cats"] conjI) simp_all
qed

lemma sample_split:
  "map_option (map_option (map sc_path \<circ> fst)) (fst (split_preserved 1 disk_rule_env [''/t/b''] (sample_scan_target ''/t'') 9 disk_state)) = Some (Some [''/t/a''])"
  by code_simp

theorem split_preserved_spares_witness:
  "\<exists>pieces left s'. split_preserved 1 disk_rule_env [''/t/b''] (sample_scan_target ''/t'') 9 disk_state = (Some (Some (pieces, left)), s') \<and>
     map sc_path pieces = [''/t/a''] \<and>
     list_all (\<lambda>t. \<not> at_or_under (rule_norm disk_rule_env ''/t/b'') (rule_norm disk_rule_env (sc_path t))) pieces"
proof -
  obtain pieces left s' where r: "split_preserved 1 disk_rule_env [''/t/b''] (sample_scan_target ''/t'') 9 disk_state = (Some (Some (pieces, left)), s')"
    "map sc_path pieces = [''/t/a'']"
    using sample_split by (cases "split_preserved 1 disk_rule_env [''/t/b''] (sample_scan_target ''/t'') 9 disk_state") auto
  from split_preserved_spares [OF r(1)] r show ?thesis by simp
qed

section \<open>Selections\<close>

definition sample_clean_target :: "nat \<Rightarrow> clean_target" where
  "sample_clean_target a = \<lparr>tg_plans = [(a, sample_plan)], tg_rule = Some sample_ref, tg_operation = plain_operation OpFile,
     tg_path = ''/t/a'', tg_remove_dir = True, tg_size_hint = None, tg_identity = pt_identity sample_target, tg_disposal = Permanent\<rparr>"

lemma sample_merged:
  "map_option (map (map fst \<circ> tg_plans)) (fst (merge_clean_targets disk_rule_env None [sample_clean_target 1, sample_clean_target 2] disk_state)) = Some [[1, 2]]"
  by code_simp

theorem merge_clean_targets_spec_witness:
  "\<exists>merged s'. merge_clean_targets disk_rule_env None [sample_clean_target 1, sample_clean_target 2] disk_state = (Some merged, s') \<and>
     distinct (map (clean_key disk_rule_env) merged) \<and> map (map fst \<circ> tg_plans) merged = [[1, 2]]"
proof -
  obtain merged s' where r: "merge_clean_targets disk_rule_env None [sample_clean_target 1, sample_clean_target 2] disk_state = (Some merged, s')"
    "map (map fst \<circ> tg_plans) merged = [[1, 2]]"
    using sample_merged by (cases "merge_clean_targets disk_rule_env None [sample_clean_target 1, sample_clean_target 2] disk_state") auto
  from merge_clean_targets_spec [OF r(1)] r show ?thesis by (intro exI [of _ merged] exI [of _ s'] conjI) simp_all
qed

section \<open>A native plan\<close>

definition tool_env :: "disk rule_env" where
  "tool_env = disk_rule_env\<lparr>re_run_tool := (\<lambda>program args secs w.
     (Some \<lparr>tr_ok = True, tr_stdout = (if args = [''image'', ''rm'', ''--'', ''x:1''] then ''Deleted: x'' else []), tr_stderr = []\<rparr>, w))\<rparr>"

definition image_plan :: cleanup_plan where
  "image_plan = sample_plan\<lparr>cp_targets := [\<lparr>pt_path = ''docker://image/x:1'',
     pt_operation = (plain_operation OpDocker)\<lparr>op_reference := ''x:1''\<rparr>, pt_identity = None, pt_disposal = Permanent\<rparr>]\<rparr>"

definition done_natively :: "flow_report option \<times> disk pst \<Rightarrow> bool" where
  "done_natively r = (case fst r of None \<Rightarrow> False | Some fr \<Rightarrow> execution_result fr = None \<and> Bytes (ps_progress (snd r)) = 7)"

lemma sample_native: "done_natively (execute_native_plan tool_env (\<lambda>w. ((), w)) image_plan 0 7 disk_state)"
  by code_simp

theorem native_plan_complete_witness:
  "\<exists>u u'. docker_reference_absence tool_env ''x:1'' u = (Some Confirmed, u')"
proof -
  obtain fr s' where r: "execute_native_plan tool_env (\<lambda>w. ((), w)) image_plan 0 7 disk_state = (Some fr, s')" "execution_result fr = None"
    using sample_native by (cases "execute_native_plan tool_env (\<lambda>w. ((), w)) image_plan 0 7 disk_state")
      (auto simp: done_natively_def split: option.splits)
  from native_plan_complete [OF r] show ?thesis
    by (auto simp: target_of_def image_plan_def target_completion_def plain_operation_def native_evidence_def)
qed

end
