(* ===== verification/Index_Format.thy ===== *)
theory Index_Format
  imports Size_Tree_Totals Size_Tree_Query Size_Tree_Remove Go_Sort
begin

text \<open>
  \<^verbatim>\<open>internal/core/disk_index_cache_format.go\<close> with the mapped view of
  \<^verbatim>\<open>disk_index_mapped_unix.go\<close>: the file in which the tree of a scan is kept.  A base starts
  with a header of 128 bytes, the mount and the label; the name pool, the records of the slots and
  the child lists in compressed rows are sections that the header locates.  Everything read from the
  file is untrusted: an access out of range is \<open>Panic\<close>, a rejected file is \<open>Err\<close>.
\<close>

section \<open>Bytes\<close>

datatype index_error = IndexCorrupt string | IndexIncomplete string | IndexStale

type_synonym 'a index_go = "(index_error, 'a) go"

definition cache_invalid :: "string \<Rightarrow> 'a index_go" where
  "cache_invalid reason = Err (IndexCorrupt reason)"

definition cache_parent_mask :: u32 where
  "cache_parent_mask = 0x3fffffff"

definition cache_used_bit :: u32 where
  "cache_used_bit = 0x40000000"

definition cache_dir_bit :: u32 where
  "cache_dir_bit = 0x80000000"

definition cache_put :: "nat \<Rightarrow> byte list \<Rightarrow> byte list \<Rightarrow> byte list index_go" where
  "cache_put off v b = (if off + length v \<le> length b then Ret (put_at b off v) else Panic)"

definition cache_put32 :: "nat \<Rightarrow> u32 \<Rightarrow> byte list \<Rightarrow> byte list index_go" where
  "cache_put32 off v = cache_put off (put_le 4 v)"

definition cache_put64 :: "nat \<Rightarrow> u64 \<Rightarrow> byte list \<Rightarrow> byte list index_go" where
  "cache_put64 off v = cache_put off (put_le 8 v)"

text \<open>The hash of the whole file, with the eight bytes at \<open>off\<close>, its own field, read as zero.\<close>

definition checksum_step :: "nat \<Rightarrow> nat \<times> byte \<Rightarrow> u64 \<Rightarrow> u64" where
  "checksum_step off iv h =
    (case iv of (i, v) \<Rightarrow> (h XOR ucast (if off \<le> i \<and> i < off + 8 then 0 else v)) * 0x100000001b3)"

definition cache_checksum :: "byte list \<Rightarrow> nat \<Rightarrow> u64" where
  "cache_checksum b off = fold (checksum_step off) (enumerate 0 b) 0xcbf29ce484222325"

definition cache_range :: "byte list \<Rightarrow> nat \<Rightarrow> nat \<Rightarrow> byte list index_go" where
  "cache_range b off cnt =
    (if length b < off \<or> length b - off < cnt then cache_invalid ''truncated section'' else go_slice b off (off + cnt))"

section \<open>Records\<close>

record cache_record =
  cr_slot :: tree_slot
  cr_name_off :: u32

record index_meta =
  im_last_event :: u64
  im_scanned_at :: u64
  im_file_count :: u64
  im_dir_count :: u64
  im_total_size :: u64

record decoded_index =
  di_tree :: size_tree
  di_records :: "cache_record list option"
  di_meta :: index_meta
  di_checksum :: u64

definition record_count :: "decoded_index \<Rightarrow> nat" where
  "record_count d = (case di_records d of Some rs \<Rightarrow> length rs | None \<Rightarrow> base_count (di_tree d))"

definition record_at :: "decoded_index \<Rightarrow> nat \<Rightarrow> cache_record index_go" where
  "record_at d idx =
    (case di_records d of
       Some rs \<Rightarrow> byte_at rs idx
     | None \<Rightarrow> (case st_base (di_tree d) of
         None \<Rightarrow> Panic
       | Some m \<Rightarrow> go_bind (byte_at (mb_slots m) idx) (\<lambda>s.
           go_bind (byte_at (mb_name_offs m) idx) (\<lambda>off. Ret \<lparr>cr_slot = s, cr_name_off = off\<rparr>))))"

text \<open>A name of the pool: two bytes of length, then the name.\<close>

definition pool_name :: "byte list \<Rightarrow> nat \<Rightarrow> string index_go" where
  "pool_name pool off =
    go_bind (cache_range pool off 2) (\<lambda>pre. go_bind (get16 pre 0) (\<lambda>n.
      case cache_range pool (off + 2) (unat n) of
        Ret bytes \<Rightarrow>
          if \<not> utf8_valid (string_of_bytes bytes) then cache_invalid ''invalid name pool'' else Ret (string_of_bytes bytes)
      | Err _ \<Rightarrow> cache_invalid ''invalid name pool''
      | Panic \<Rightarrow> Panic))"

definition record_parent :: "u32 \<Rightarrow> nat" where
  "record_parent bits = unat (bits AND cache_parent_mask)"

definition record_slot :: "u32 \<Rightarrow> string \<Rightarrow> u64 \<Rightarrow> u32 \<Rightarrow> u32 \<Rightarrow> tree_slot" where
  "record_slot bits name sz mtime files =
    \<lparr>ts_parent = record_parent bits, ts_name = name, ts_is_dir = (bits AND cache_dir_bit \<noteq> 0), ts_size = sz,
     ts_used = (bits AND cache_used_bit \<noteq> 0), ts_mtime = ucast mtime, ts_files = ucast files\<rparr>"

definition cache_read_record :: "byte list \<Rightarrow> byte list \<Rightarrow> cache_record index_go" where
  "cache_read_record b pool =
    go_bind (get32 b 0) (\<lambda>bits. go_bind (get32 b 4) (\<lambda>off.
    go_bind (pool_name pool (unat off)) (\<lambda>name.
    go_bind (get64 b 8) (\<lambda>sz. go_bind (get32 b 16) (\<lambda>mtime. go_bind (get32 b 20) (\<lambda>files.
      Ret \<lparr>cr_slot = record_slot bits name sz mtime files, cr_name_off = off\<rparr>))))))"

definition record_bits :: "tree_slot \<Rightarrow> u32" where
  "record_bits e =
    (let bits = word_of_nat (ts_parent e);
         bits = (if ts_used e then bits OR cache_used_bit else bits) in
     if ts_is_dir e then bits OR cache_dir_bit else bits)"

definition cache_write_record :: "nat \<Rightarrow> tree_slot \<Rightarrow> u32 \<Rightarrow> byte list \<Rightarrow> byte list index_go" where
  "cache_write_record at e off b =
    go_bind (cache_put32 at (record_bits e) b) (\<lambda>b. go_bind (cache_put32 (at + 4) off b) (\<lambda>b.
    go_bind (cache_put64 (at + 8) (ts_size e) b) (\<lambda>b. go_bind (cache_put32 (at + 16) (ucast (ts_mtime e)) b) (\<lambda>b.
      cache_put32 (at + 20) (ucast (ts_files e)) b))))"

section \<open>Names and the shape of a tree\<close>

definition path_separator :: char where
  \<comment> \<open>\<^verbatim>\<open>filepath.Separator\<close> on macOS and Linux\<close>
  "path_separator = slash"

definition valid_disk_index_name :: "string \<Rightarrow> bool" where
  "valid_disk_index_name name =
    (\<not> (name = [] \<or> name ! 0 = CHR ''.'' \<and> (length name = 1 \<or> length name = 2 \<and> name ! 1 = CHR ''.'')) \<and>
     list_all (\<lambda>c. \<not> (c = slash \<or> c = CHR 0x00 \<or> path_separator = backslash \<and> c = backslash)) name)"

definition fits_index :: "tree_slot \<Rightarrow> bool" where
  "fits_index e =
    (\<not> (unat cache_parent_mask < ts_parent e \<or> 0xffffffff < ts_mtime e \<or> 0xffffffff < ts_files e \<or>
        65535 < length (ts_name e) \<or> \<not> utf8_valid (ts_name e)))"

lemma fewer_zeros:
  assumes "i < length st" "st ! i = 0"
  shows "length (filter (\<lambda>x. x = 0) (st[i := Suc k])) < length (filter (\<lambda>x. x = 0) st)"
proof -
  have "filter (\<lambda>x. x = 0) st = filter (\<lambda>x. x = 0) (take i st) @ 0 # filter (\<lambda>x. x = 0) (drop (Suc i) st)"
    using assms by (subst id_take_nth_drop [of i st]) simp_all
  then show ?thesis using assms(1) by (simp add: upd_conv_take_nth_drop)
qed

text \<open>
  The walk from a slot towards the root.  \<open>st\<close> is 0 for a slot not seen yet, 1 on the current chain
  and 2 when its chain is known to be good.
\<close>

function climb :: "size_tree \<Rightarrow> nat list \<Rightarrow> nat list \<Rightarrow> nat \<Rightarrow> (nat list \<times> nat list \<times> nat) index_go" where
  "climb t st chain cur =
    (if cur < length st then
       if st ! cur = 0 then
         (let p = ts_parent (tree_slot_at t cur) in
          if \<not> tree_is_dir t p then cache_invalid ''invalid ancestor''
          else climb t (st[cur := 1]) (chain @ [cur]) p)
       else Ret (st, chain, cur)
     else Panic)"
  by pat_completeness auto
termination
proof (relation "measure (\<lambda>(t, st, chain, cur). length (filter (\<lambda>x. x = 0) st))", goal_cases)
  case (2 t st chain cur p)
  then show ?case using fewer_zeros [of cur st 0] by simp
qed simp

declare climb.simps [simp del]

definition validate_entry :: "size_tree \<Rightarrow> bool \<Rightarrow> nat \<Rightarrow> nat list \<Rightarrow> nat list index_go" where
  "validate_entry t ordered i st =
    (let e = tree_slot_at t i in
     if \<not> fits_index e then cache_invalid ''entry exceeds v7 representation''
     else if \<not> ts_used e then Ret st
     else if 0 < i \<and> \<not> valid_disk_index_name (ts_name e) then cache_invalid ''unsafe name component''
     else if 0 < i \<and> (\<not> tree_is_dir t (ts_parent e) \<or> ts_parent e = i \<or> ordered \<and> i \<le> ts_parent e)
       then cache_invalid ''invalid parent''
     else go_bind (climb t st [] i) (\<lambda>(st, chain, cur).
       if st ! cur = 1 then cache_invalid ''parent cycle'' else Ret (fold (\<lambda>j st. st[j := 2]) chain st)))"

definition bad_root :: "size_tree \<Rightarrow> bool" where
  "bad_root t \<longleftrightarrow> node_count t = 0 \<or> unat cache_parent_mask + 1 < node_count t \<or> \<not> tree_is_dir t 0 \<or>
     ts_parent (tree_slot_at t 0) \<noteq> 0"

definition validate_disk_tree :: "size_tree \<Rightarrow> bool \<Rightarrow> unit index_go" where
  "validate_disk_tree t ordered =
    (if bad_root t then cache_invalid ''invalid root''
     else go_bind (go_fold (validate_entry t ordered) [0..<node_count t] ((replicate (node_count t) 0)[0 := 2]))
       (\<lambda>_. Ret ()))"

end
