(* ===== verification/Index_Decode.thy ===== *)
theory Index_Decode
  imports Index_Format
begin

text \<open>
  Reading a base (\<^verbatim>\<open>disk_index_cache_format.go\<close>, \<^verbatim>\<open>disk_index_mapped_unix.go\<close>): the checks on
  the header and its sections, and the two loaders, one that copies every slot to the heap and one
  that keeps a view of the mapped file.
\<close>

section \<open>The header\<close>

definition nat32 :: "byte list \<Rightarrow> nat \<Rightarrow> nat index_go" where
  "nat32 b off = go_bind (get32 b off) (\<lambda>w. Ret (unat w))"

fun go_map :: "('a \<Rightarrow> ('e, 'b) go) \<Rightarrow> 'a list \<Rightarrow> ('e, 'b list) go" where
  "go_map f [] = Ret []"
| "go_map f (x # xs) = go_bind (f x) (\<lambda>y. go_bind (go_map f xs) (\<lambda>ys. Ret (y # ys)))"

record index_header =
  ih_count :: nat
  ih_pool_len :: nat
  ih_child_len :: nat
  ih_labels_len :: nat
  ih_pool :: nat
  ih_entries :: nat
  ih_starts :: nat
  ih_children :: nat

definition index_sections :: "index_header \<Rightarrow> (nat \<times> nat) list" where
  "index_sections h =
    [(0, 128 + ih_labels_len h), (ih_pool h, ih_pool_len h), (ih_entries h, ih_count h * 24),
     (ih_starts h, (ih_count h + 1) * 4), (ih_children h, ih_child_len h * 4)]"

definition section_less :: "nat \<times> nat \<Rightarrow> nat \<times> nat \<Rightarrow> bool" where
  "section_less s s' = (if fst s = fst s' then snd s < snd s' else fst s < fst s')"

fun check_sections :: "byte list \<Rightarrow> nat \<Rightarrow> (nat \<times> nat) list \<Rightarrow> unit index_go" where
  "check_sections b end_pos [] = Ret ()"
| "check_sections b end_pos ((off, sz) # ss) =
     (if off < end_pos then cache_invalid ''overlapping sections''
      else go_bind (cache_range b off sz) (\<lambda>_. check_sections b (off + sz) ss))"

definition check_labels :: "byte list \<Rightarrow> volume_id \<Rightarrow> nat \<Rightarrow> nat \<Rightarrow> unit index_go" where
  "check_labels b vol ml ll =
    (case cache_range b 128 (ml + ll) of
       Ret labels \<Rightarrow>
         if string_of_bytes (take ml labels) \<noteq> vol_mount vol \<or> \<not> utf8_valid (string_of_bytes labels)
         then cache_invalid ''mount/label mismatch'' else Ret ()
     | Err _ \<Rightarrow> cache_invalid ''mount/label mismatch''
     | Panic \<Rightarrow> Panic)"

definition check_layout :: "byte list \<Rightarrow> index_header \<Rightarrow> unit index_go" where
  "check_layout b h =
    (if ih_count h = 0 \<or> unat cache_parent_mask + 1 < ih_count h \<or> ih_entries h mod 8 \<noteq> 0 \<or>
        ih_starts h mod 4 \<noteq> 0 \<or> ih_children h mod 4 \<noteq> 0
     then cache_invalid ''section alignment/count''
     else check_sections b 0 (sort_by section_less (index_sections h)))"

definition read_index_header :: "byte list \<Rightarrow> volume_id \<Rightarrow> (index_header \<times> u64) index_go" where
  "read_index_header b vol =
    (if length b < 128 \<or> string_of_bytes (take 8 b) \<noteq> ''QCIDXV07'' then cache_invalid ''unknown or incomplete base''
     else go_bind (get32 b 8) (\<lambda>version.
     if version \<noteq> 7 then cache_invalid ''unknown or incomplete base''
     else go_bind (get64 b 72) (\<lambda>checksum.
     if checksum = 0 \<or> cache_checksum b 72 \<noteq> checksum then cache_invalid ''base checksum''
     else go_bind (nat32 b 12) (\<lambda>n. go_bind (nat32 b 16) (\<lambda>pl. go_bind (nat32 b 20) (\<lambda>cl.
     go_bind (nat32 b 24) (\<lambda>ml. go_bind (nat32 b 28) (\<lambda>ll. go_bind (check_labels b vol ml ll) (\<lambda>_.
     go_bind (nat32 b 80) (\<lambda>po. go_bind (nat32 b 84) (\<lambda>eo. go_bind (nat32 b 88) (\<lambda>cs. go_bind (nat32 b 92) (\<lambda>ca.
     let h = \<lparr>ih_count = n, ih_pool_len = pl, ih_child_len = cl, ih_labels_len = ml + ll, ih_pool = po,
              ih_entries = eo, ih_starts = cs, ih_children = ca\<rparr> in
     go_bind (check_layout b h) (\<lambda>_. Ret (h, checksum)))))))))))))))"

definition read_index_meta :: "byte list \<Rightarrow> index_meta index_go" where
  "read_index_meta b =
    go_bind (get64 b 32) (\<lambda>files. go_bind (get64 b 40) (\<lambda>dirs. go_bind (get64 b 48) (\<lambda>total.
    go_bind (get64 b 56) (\<lambda>event. go_bind (get64 b 64) (\<lambda>scanned.
      Ret \<lparr>im_last_event = event, im_scanned_at = scanned, im_file_count = files, im_dir_count = dirs,
           im_total_size = total\<rparr>)))))"

section \<open>Loading to the heap\<close>

definition heap_record :: "byte list \<Rightarrow> index_header \<Rightarrow> byte list \<Rightarrow> nat \<Rightarrow> cache_record index_go" where
  "heap_record b h pool i =
    go_bind (go_slice b (ih_entries h + i * 24) (ih_entries h + (i + 1) * 24)) (\<lambda>raw.
    go_bind (cache_read_record raw pool) (\<lambda>r.
      if \<not> ts_used (cr_slot r) then cache_invalid ''base tombstone'' else Ret r))"

definition heap_child :: "size_tree \<Rightarrow> byte list \<Rightarrow> index_header \<Rightarrow> nat \<Rightarrow> nat \<Rightarrow> bool list \<Rightarrow> bool list index_go" where
  "heap_child t b h i j seen =
    go_bind (nat32 b (ih_children h + j * 4)) (\<lambda>child.
      if child = 0 \<or> ih_count h \<le> child \<or> seen ! child \<or> ts_parent (tree_slot_at t child) \<noteq> i
      then cache_invalid ''CSR child'' else Ret (seen[child := True]))"

definition csr_range :: "byte list \<Rightarrow> index_header \<Rightarrow> nat \<Rightarrow> (nat \<times> nat) index_go" where
  "csr_range b h i =
    go_bind (nat32 b (ih_starts h + i * 4)) (\<lambda>start. go_bind (nat32 b (ih_starts h + (i + 1) * 4)) (\<lambda>stop.
      if stop < start \<or> ih_child_len h < stop then cache_invalid ''CSR range'' else Ret (start, stop)))"

definition heap_row :: "size_tree \<Rightarrow> byte list \<Rightarrow> index_header \<Rightarrow> nat \<Rightarrow> bool list \<Rightarrow> bool list index_go" where
  "heap_row t b h i seen =
    go_bind (csr_range b h i) (\<lambda>(start, stop). go_fold (heap_child t b h i) [start..<stop] seen)"

definition check_sentinels :: "byte list \<Rightarrow> index_header \<Rightarrow> unit index_go" where
  "check_sentinels b h =
    go_bind (nat32 b (ih_starts h)) (\<lambda>lo. go_bind (nat32 b (ih_starts h + ih_count h * 4)) (\<lambda>hi.
      if lo \<noteq> 0 \<or> hi \<noteq> ih_child_len h then cache_invalid ''CSR sentinel'' else Ret ()))"

definition decode_heap_body ::
  "byte list \<Rightarrow> byte list \<Rightarrow> volume_id \<Rightarrow> index_header \<Rightarrow> u64 \<Rightarrow> decoded_index index_go" where
  "decode_heap_body b pool vol h checksum =
    go_bind (go_map (heap_record b h pool) [0..<ih_count h]) (\<lambda>records.
    let t = heap_tree vol (map cr_slot records) in
    go_bind (validate_disk_tree t True) (\<lambda>_.
    go_bind (check_sentinels b h) (\<lambda>_.
    go_bind (go_fold (heap_row t b h) [0..<ih_count h] ((replicate (ih_count h) False)[0 := True])) (\<lambda>seen.
    if list_ex Not seen then cache_invalid ''missing CSR child''
    else go_bind (read_index_meta b) (\<lambda>meta.
    if im_file_count meta \<noteq> count_used t False \<or> im_dir_count meta \<noteq> count_used t True
    then cache_invalid ''base statistics''
    else Ret \<lparr>di_tree = rebuild_child_arrays t, di_records = Some records, di_meta = meta, di_checksum = checksum\<rparr>)))))"

section \<open>The mapped view\<close>

definition base_raw :: "byte list \<Rightarrow> index_header \<Rightarrow> nat \<Rightarrow> byte list index_go" where
  "base_raw b h idx = go_slice b (ih_entries h + idx * 24) (ih_entries h + idx * 24 + 24)"

definition base_values :: "byte list \<Rightarrow> index_header \<Rightarrow> nat \<Rightarrow> tree_slot index_go" where
  "base_values b h idx =
    go_bind (base_raw b h idx) (\<lambda>raw. go_bind (get32 raw 0) (\<lambda>bits. go_bind (get64 raw 8) (\<lambda>sz.
    go_bind (get32 raw 16) (\<lambda>mtime. go_bind (get32 raw 20) (\<lambda>files. Ret (record_slot bits [] sz mtime files))))))"

definition base_bits :: "byte list \<Rightarrow> index_header \<Rightarrow> nat \<Rightarrow> u32 index_go" where
  "base_bits b h idx = get32 b (ih_entries h + idx * 24)"

definition base_name_off :: "byte list \<Rightarrow> index_header \<Rightarrow> nat \<Rightarrow> u32 index_go" where
  "base_name_off b h idx = get32 b (ih_entries h + idx * 24 + 4)"

definition base_name :: "byte list \<Rightarrow> index_header \<Rightarrow> byte list \<Rightarrow> nat \<Rightarrow> string index_go" where
  "base_name b h pool idx =
    go_bind (base_name_off b h idx) (\<lambda>off. go_bind (get16 pool (unat off)) (\<lambda>n.
    go_bind (go_slice pool (unat off + 2) (unat off + 2 + unat n)) (\<lambda>name. Ret (string_of_bytes name))))"

definition base_slot :: "byte list \<Rightarrow> index_header \<Rightarrow> byte list \<Rightarrow> nat \<Rightarrow> tree_slot index_go" where
  "base_slot b h pool idx =
    go_bind (base_values b h idx) (\<lambda>s. go_bind (base_name b h pool idx) (\<lambda>name. Ret (s\<lparr>ts_name := name\<rparr>)))"

definition base_children :: "byte list \<Rightarrow> index_header \<Rightarrow> nat \<Rightarrow> nat list index_go" where
  "base_children b h idx =
    go_bind (nat32 b (ih_starts h + idx * 4)) (\<lambda>start. go_bind (nat32 b (ih_starts h + (idx + 1) * 4)) (\<lambda>stop.
      go_map (\<lambda>j. nat32 b (ih_children h + j * 4)) [start..<stop]))"

definition mapped_tree :: "volume_id \<Rightarrow> mapped_base \<Rightarrow> size_tree" where
  "mapped_tree vol m = (heap_tree vol [])\<lparr>st_base := Some m\<rparr>"

text \<open>\<^verbatim>\<open>asciiEqFold\<close> and \<^verbatim>\<open>isCacheDirTagName\<close> of \<^verbatim>\<open>devscan.go\<close>.\<close>

definition ascii_eq_fold :: "string \<Rightarrow> string \<Rightarrow> bool" where
  "ascii_eq_fold a b = (length a = length b \<and> list_all2 (\<lambda>x y. x = y \<or> ascii_lower_char x = ascii_lower_char y) a b)"

definition is_cache_dir_tag_name :: "string \<Rightarrow> bool" where
  "is_cache_dir_tag_name name = (length name = 12 \<and> ascii_eq_fold name ''CACHEDIR.TAG'')"

definition check_mapped_links ::
  "byte list \<Rightarrow> index_header \<Rightarrow> nat \<Rightarrow> u32 \<Rightarrow> string \<Rightarrow> unit index_go" where
  "check_mapped_links b h i bits name =
    (if i = 0 then
       if record_parent bits \<noteq> 0 \<or> bits AND cache_dir_bit = 0 then cache_invalid ''invalid root'' else Ret ()
     else if \<not> valid_disk_index_name name then cache_invalid ''unsafe name component''
     else if i \<le> record_parent bits then cache_invalid ''invalid parent''
     else go_bind (base_bits b h (record_parent bits)) (\<lambda>pb.
       if pb AND (cache_used_bit OR cache_dir_bit) \<noteq> cache_used_bit OR cache_dir_bit
       then cache_invalid ''invalid parent'' else Ret ()))"

definition mapped_entry ::
  "byte list \<Rightarrow> index_header \<Rightarrow> byte list \<Rightarrow> nat \<Rightarrow> u64 \<times> u64 \<times> nat list \<Rightarrow> (u64 \<times> u64 \<times> nat list) index_go" where
  "mapped_entry b h pool i st =
    (case st of (files, dirs, tags) \<Rightarrow>
      go_bind (go_slice b (ih_entries h + i * 24) (ih_entries h + (i + 1) * 24)) (\<lambda>raw.
      go_bind (get32 raw 0) (\<lambda>bits. go_bind (get32 raw 4) (\<lambda>off. go_bind (pool_name pool (unat off)) (\<lambda>name.
      if bits AND cache_used_bit = 0 then cache_invalid ''base tombstone''
      else go_bind (check_mapped_links b h i bits name) (\<lambda>_.
        Ret (if bits AND cache_dir_bit \<noteq> 0 then (files, dirs + 1, tags)
             else (files + 1, dirs,
               if length name = length ''CACHEDIR.TAG'' \<and> is_cache_dir_tag_name name then tags @ [i] else tags))))))))"

definition bitmap_test :: "u64 list \<Rightarrow> nat \<Rightarrow> bool" where
  "bitmap_test seen c \<longleftrightarrow> seen ! (c div 64) AND push_bit (c mod 64) 1 \<noteq> 0"

definition bitmap_set :: "nat \<Rightarrow> u64 list \<Rightarrow> u64 list" where
  "bitmap_set c seen = seen[c div 64 := seen ! (c div 64) OR push_bit (c mod 64) 1]"

definition mapped_child ::
  "byte list \<Rightarrow> index_header \<Rightarrow> nat \<Rightarrow> nat \<Rightarrow> u64 list \<times> nat \<times> bool \<Rightarrow> (u64 list \<times> nat \<times> bool) index_go" where
  "mapped_child b h i j st =
    (case st of (seen, previous, ordered) \<Rightarrow>
      go_bind (nat32 b (ih_children h + j * 4)) (\<lambda>child.
      if child = 0 \<or> ih_count h \<le> child \<or> bitmap_test seen child then cache_invalid ''CSR child''
      else go_bind (base_bits b h child) (\<lambda>bits.
      if record_parent bits \<noteq> i then cache_invalid ''CSR child''
      else Ret (bitmap_set child seen, child, if child < previous then False else ordered))))"

text \<open>A row that is stored in another order is kept as a sorted copy.\<close>

definition mapped_row ::
  "byte list \<Rightarrow> index_header \<Rightarrow> nat \<Rightarrow> u64 list \<times> nat list list \<Rightarrow> (u64 list \<times> nat list list) index_go" where
  "mapped_row b h i st =
    (case st of (seen, rows) \<Rightarrow>
      go_bind (csr_range b h i) (\<lambda>(start, stop).
      go_bind (go_fold (mapped_child b h i) [start..<stop] (seen, 0, True)) (\<lambda>(seen, previous, ordered).
      go_bind (base_children b h i) (\<lambda>kids.
        Ret (seen, rows @ [if ordered then kids else sort kids])))))"

definition decode_mapped_body ::
  "byte list \<Rightarrow> byte list \<Rightarrow> volume_id \<Rightarrow> index_header \<Rightarrow> u64 \<Rightarrow> decoded_index index_go" where
  "decode_mapped_body b pool vol h checksum =
    (let n = ih_count h in
     go_bind (go_fold (mapped_entry b h pool) [0..<n] (0, 0, [])) (\<lambda>(files, dirs, tags).
     if ih_child_len h \<noteq> n - 1 then cache_invalid ''CSR sentinel''
     else go_bind (check_sentinels b h) (\<lambda>_.
     go_bind (go_fold (mapped_row b h) [0..<n] (replicate ((n + 63) div 64) 0, [])) (\<lambda>(seen, rows).
     go_bind (read_index_meta b) (\<lambda>meta.
     if files \<noteq> im_file_count meta \<or> dirs \<noteq> im_dir_count meta then cache_invalid ''base statistics''
     else go_bind (go_map (base_slot b h pool) [0..<n]) (\<lambda>slots.
     go_bind (go_map (base_name_off b h) [0..<n]) (\<lambda>offs.
       Ret \<lparr>di_tree = mapped_tree vol \<lparr>mb_slots = slots, mb_children = rows, mb_name_offs = offs,
              mb_header = take 128 b, mb_tags = tags\<rparr>,
            di_records = None, di_meta = meta, di_checksum = checksum\<rparr>)))))))"

definition decode_disk_index_with :: "byte list \<Rightarrow> volume_id \<Rightarrow> bool \<Rightarrow> decoded_index index_go" where
  "decode_disk_index_with b vol mapped =
    go_bind (read_index_header b vol) (\<lambda>(h, checksum).
    go_bind (cache_range b (ih_pool h) (ih_pool_len h)) (\<lambda>pool.
      if mapped then decode_mapped_body b pool vol h checksum else decode_heap_body b pool vol h checksum))"

definition decode_disk_index :: "byte list \<Rightarrow> volume_id \<Rightarrow> decoded_index index_go" where
  "decode_disk_index b vol = decode_disk_index_with b vol False"

end
