(* ===== verification/Index_Encode.thy ===== *)
theory Index_Encode
  imports Index_Decode
begin

text \<open>
  Writing a base (\<^verbatim>\<open>disk_index_cache_format.go\<close>): the general encoder, which reorders a tree whose
  parents do not come first, and the encoder for ordered trees, which counts the children in the
  output itself.
\<close>

section \<open>The name pool\<close>

record intern_state =
  in_pool :: "byte list"
  in_names :: "string \<rightharpoonup> u32"

definition cache_intern :: "string \<Rightarrow> intern_state \<Rightarrow> u32 \<times> intern_state" where
  "cache_intern name st =
    (case in_names st name of
       Some off \<Rightarrow> (off, st)
     | None \<Rightarrow>
         let off = word_of_nat (length (in_pool st)) in
         (off, \<lparr>in_pool = in_pool st @ [word_of_nat (length name), word_of_nat (length name div 256)] @ bytes_of_string name,
                in_names = (in_names st)(name \<mapsto> off)\<rparr>))"

fun intern_all :: "string list \<Rightarrow> intern_state \<Rightarrow> u32 list \<times> intern_state" where
  "intern_all [] st = ([], st)"
| "intern_all (name # names) st =
     (let (off, st1) = cache_intern name st; (offs, st2) = intern_all names st1 in (off # offs, st2))"

definition no_names :: intern_state where
  "no_names = \<lparr>in_pool = [], in_names = Map.empty\<rparr>"

section \<open>The frame of a file\<close>

definition align8 :: "nat \<Rightarrow> nat" where
  "align8 v = (v + 7) div 8 * 8"

record index_layout =
  il_pool :: nat
  il_entries :: nat
  il_starts :: nat
  il_children :: nat
  il_length :: nat

definition index_layout_of :: "volume_id \<Rightarrow> byte list \<Rightarrow> nat \<Rightarrow> index_layout" where
  "index_layout_of v pool n =
    (let po = align8 (128 + length (vol_mount v) + length (vol_label v));
         eo = align8 (po + length pool);
         cs = eo + n * 24;
         ca = cs + (n + 1) * 4 in
     \<lparr>il_pool = po, il_entries = eo, il_starts = cs, il_children = ca, il_length = ca + (n - 1) * 4\<rparr>)"

fun put_fields :: "(nat \<times> byte list) list \<Rightarrow> byte list \<Rightarrow> byte list index_go" where
  "put_fields [] b = Ret b"
| "put_fields ((off, v) # fs) b = go_bind (cache_put off v b) (put_fields fs)"

definition nat_field :: "nat \<Rightarrow> nat \<Rightarrow> nat \<times> byte list" where
  "nat_field off v = (off, put_le 4 (word_of_nat v :: u32))"

definition word_field :: "nat \<Rightarrow> u64 \<Rightarrow> nat \<times> byte list" where
  "word_field off v = (off, put_le 8 v)"

definition header_fields :: "volume_id \<Rightarrow> index_meta \<Rightarrow> byte list \<Rightarrow> nat \<Rightarrow> index_layout \<Rightarrow> (nat \<times> byte list) list" where
  "header_fields v meta pool n l =
    [(0, bytes_of_string ''QCIDXV07''), nat_field 8 7,
     nat_field 12 n, nat_field 16 (length pool), nat_field 20 (n - 1), nat_field 24 (length (vol_mount v)),
     nat_field 28 (length (vol_label v)), nat_field 80 (il_pool l), nat_field 84 (il_entries l),
     nat_field 88 (il_starts l), nat_field 92 (il_children l),
     word_field 32 (im_file_count meta), word_field 40 (im_dir_count meta), word_field 48 (im_total_size meta),
     word_field 56 (im_last_event meta), word_field 64 (im_scanned_at meta),
     (128, bytes_of_string (vol_mount v)), (128 + length (vol_mount v), bytes_of_string (vol_label v)),
     (il_pool l, pool)]"

definition allocate_disk_index :: "volume_id \<Rightarrow> index_meta \<Rightarrow> byte list \<Rightarrow> nat \<Rightarrow> (byte list \<times> index_layout) index_go" where
  "allocate_disk_index v meta pool n =
    (let l = index_layout_of v pool n in
     if 0xffffffff < il_length l then cache_invalid ''base exceeds v7 offsets''
     else go_bind (put_fields (header_fields v meta pool n l) (replicate (il_length l) 0)) (\<lambda>b. Ret (b, l)))"

definition seal_disk_index :: "byte list \<Rightarrow> byte list index_go" where
  "seal_disk_index b = cache_put64 72 (cache_checksum b 72) b"

section \<open>Any order\<close>

definition count_child :: "size_tree \<Rightarrow> nat \<Rightarrow> nat list list \<times> bool \<Rightarrow> (nat list list \<times> bool) index_go" where
  "count_child t i st =
    (case st of (children, ordered) \<Rightarrow>
      let e = tree_slot_at t i; p = ts_parent e in
      if 0 < i \<and> ts_used e then
        if p < length children then Ret (children[p := children ! p @ [i]], if i \<le> p then False else ordered) else Panic
      else Ret st)"

text \<open>
  The traversal, with the top of the stack at the head of the list.  No slot is in two child lists,
  so a stack that starts with the root is empty after at most as many steps as there are slots.
\<close>

fun visit_slots :: "nat \<Rightarrow> nat list list \<Rightarrow> nat list \<Rightarrow> nat list \<Rightarrow> nat list \<Rightarrow> (nat list \<times> nat list) option" where
  "visit_slots k children [] order remap = Some (order, remap)"
| "visit_slots 0 children (idx # stack) order remap = None"
| "visit_slots (Suc k) children (idx # stack) order remap =
     visit_slots k children (children ! idx @ stack) (order @ [idx]) (remap[idx := length order])"

definition put_children :: "nat \<Rightarrow> nat list \<Rightarrow> nat list \<Rightarrow> nat \<times> byte list \<Rightarrow> (nat \<times> byte list) index_go" where
  "put_children ca remap cs st =
    go_fold (\<lambda>c (cursor, b). go_bind (byte_at remap c) (\<lambda>r.
      go_bind (cache_put32 (ca + cursor * 4) (word_of_nat r) b) (\<lambda>b. Ret (cursor + 1, b)))) cs st"

definition put_row ::
  "size_tree \<Rightarrow> index_layout \<Rightarrow> nat list list \<Rightarrow> nat list \<Rightarrow> nat \<times> nat \<times> u32 \<Rightarrow> nat \<times> byte list \<Rightarrow> (nat \<times> byte list) index_go" where
  "put_row t l children remap row st =
    (case (row, st) of ((i, idx, off), (cursor, b)) \<Rightarrow>
      let e = tree_slot_at t idx in
      go_bind (byte_at remap (ts_parent e)) (\<lambda>p.
      go_bind (cache_write_record (il_entries l + i * 24) (e\<lparr>ts_parent := p\<rparr>) off b) (\<lambda>b.
      go_bind (cache_put32 (il_starts l + i * 4) (word_of_nat cursor) b) (\<lambda>b.
        put_children (il_children l) remap (children ! idx) (cursor, b)))))"

definition write_unordered ::
  "size_tree \<Rightarrow> volume_id \<Rightarrow> index_meta \<Rightarrow> nat list list \<Rightarrow> nat list \<Rightarrow> nat list \<Rightarrow> byte list index_go" where
  "write_unordered t v meta children order remap =
    (case intern_all (map (\<lambda>idx. ts_name (tree_slot_at t idx)) order) no_names of
       (offs, names) \<Rightarrow>
         go_bind (allocate_disk_index v meta (in_pool names) (length order)) (\<lambda>(b, l).
         go_bind (go_fold (put_row t l children remap) (zip [0..<length order] (zip order offs)) (0, b)) (\<lambda>(cursor, b).
         go_bind (cache_put32 (il_starts l + length order * 4) (word_of_nat cursor) b) seal_disk_index)))"

definition encode_unordered :: "size_tree \<Rightarrow> volume_id \<Rightarrow> index_meta \<Rightarrow> byte list index_go option" where
  "encode_unordered t v meta =
    (let n = node_count t in
     case go_fold (count_child t) [0..<n] (replicate n [], True) of
       Ret (children, ordered) \<Rightarrow>
         (case visit_slots n children [0] [] (replicate n 0) of
            None \<Rightarrow> None
          | Some (order, remap) \<Rightarrow>
              let (order, remap) =
                (if ordered then
                   let order = sort order in
                   (order, fold (\<lambda>i remap. remap[order ! i := i]) [0..<length order] remap)
                 else (order, remap)) in
              Some (write_unordered t v meta children order remap))
     | Err e \<Rightarrow> Some (Err e)
     | Panic \<Rightarrow> Some Panic)"

section \<open>Parents first\<close>

text \<open>\<open>None\<close> is the answer that the tree is not ordered.\<close>

fun ordered_slots :: "size_tree \<Rightarrow> nat list \<Rightarrow> nat list \<Rightarrow> nat list \<Rightarrow> (nat list \<times> nat list) option" where
  "ordered_slots t [] order remap = Some (order, remap)"
| "ordered_slots t (i # is) order remap =
     (let e = tree_slot_at t i in
      if \<not> ts_used e then ordered_slots t is order remap
      else if 0 < i \<and> i \<le> ts_parent e then None
      else ordered_slots t is (order @ [i]) (remap[i := length order]))"

text \<open>A base slot without an override reuses the offset that its name got before.\<close>

definition name_offset :: "size_tree \<Rightarrow> nat \<Rightarrow> intern_state \<times> (u32 \<rightharpoonup> u32) \<Rightarrow> u32 \<times> intern_state \<times> (u32 \<rightharpoonup> u32)" where
  "name_offset t idx st =
    (case st of (names, base_names) \<Rightarrow>
       if idx < base_count t then
         (case st_overrides t idx of
            Some e \<Rightarrow> let (off, names) = cache_intern (ts_name e) names in (off, names, base_names)
          | None \<Rightarrow>
              (case st_base t of
                 None \<Rightarrow> (0, names, base_names)
               | Some m \<Rightarrow>
                   let key = mb_name_offs m ! idx in
                   case base_names key of
                     Some off \<Rightarrow> (off, names, base_names)
                   | None \<Rightarrow>
                       let (off, names) = cache_intern (ts_name (mb_slots m ! idx)) names in
                       (off, names, base_names(key \<mapsto> off))))
       else let (off, names) = cache_intern (ts_name (st_entries t ! (idx - base_count t))) names in (off, names, base_names))"

fun name_offsets :: "size_tree \<Rightarrow> nat list \<Rightarrow> intern_state \<times> (u32 \<rightharpoonup> u32) \<Rightarrow> u32 list \<times> intern_state" where
  "name_offsets t [] st = ([], fst st)"
| "name_offsets t (idx # order) st =
     (let (off, st1) = name_offset t idx st; (offs, names) = name_offsets t order st1 in (off # offs, names))"

definition put_counted ::
  "size_tree \<Rightarrow> index_layout \<Rightarrow> nat list \<Rightarrow> nat \<times> nat \<times> u32 \<Rightarrow> byte list \<Rightarrow> byte list index_go" where
  "put_counted t l remap row b =
    (case row of (i, idx, off) \<Rightarrow>
      let e = tree_slot_at t idx in
      go_bind (byte_at remap (ts_parent e)) (\<lambda>p.
      go_bind (cache_write_record (il_entries l + i * 24) (e\<lparr>ts_parent := p\<rparr>) off b) (\<lambda>b.
        if 0 < i then
          let at = il_starts l + (p + 1) * 4 in go_bind (get32 b at) (\<lambda>k. cache_put32 at (k + 1) b)
        else Ret b)))"

definition sum_starts :: "index_layout \<Rightarrow> nat \<Rightarrow> byte list \<Rightarrow> byte list index_go" where
  "sum_starts l i b =
    go_bind (get32 b (il_starts l + i * 4)) (\<lambda>x. go_bind (get32 b (il_starts l + (i + 1) * 4)) (\<lambda>y.
      cache_put32 (il_starts l + (i + 1) * 4) (x + y) b))"

definition put_sorted_child ::
  "size_tree \<Rightarrow> index_layout \<Rightarrow> nat list \<Rightarrow> nat \<times> nat \<Rightarrow> u32 list \<times> byte list \<Rightarrow> (u32 list \<times> byte list) index_go" where
  "put_sorted_child t l remap row st =
    (case (row, st) of ((i, idx), (offs, b)) \<Rightarrow>
      if i = 0 then Ret st
      else go_bind (byte_at remap (ts_parent (tree_slot_at t idx))) (\<lambda>p.
        go_bind (byte_at offs p) (\<lambda>off.
        go_bind (cache_put32 (il_children l + unat off * 4) (word_of_nat i) b) (\<lambda>b.
          Ret (offs[p := off + 1], b)))))"

definition write_ordered ::
  "size_tree \<Rightarrow> volume_id \<Rightarrow> index_meta \<Rightarrow> nat list \<Rightarrow> nat list \<Rightarrow> byte list index_go" where
  "write_ordered t v meta order remap =
    (case name_offsets t order (no_names, Map.empty) of
       (offs, names) \<Rightarrow>
         let n = length order in
         go_bind (allocate_disk_index v meta (in_pool names) n) (\<lambda>(b, l).
         go_bind (go_fold (put_counted t l remap) (zip [0..<n] (zip order offs)) b) (\<lambda>b.
         go_bind (go_fold (sum_starts l) [0..<n] b) (\<lambda>b.
         go_bind (go_map (\<lambda>i. get32 b (il_starts l + i * 4)) [0..<n]) (\<lambda>offs.
         go_bind (go_fold (put_sorted_child t l remap) (zip [0..<n] order) (offs, b)) (\<lambda>(offs, b).
           seal_disk_index b))))))"

definition encode_ordered :: "size_tree \<Rightarrow> volume_id \<Rightarrow> index_meta \<Rightarrow> byte list index_go option" where
  "encode_ordered t v meta =
    (case ordered_slots t [0..<node_count t] [] (replicate (node_count t) 0) of
       None \<Rightarrow> None
     | Some (order, remap) \<Rightarrow> Some (write_ordered t v meta order remap))"

definition encode_disk_index :: "size_tree \<Rightarrow> volume_id \<Rightarrow> index_meta \<Rightarrow> byte list index_go option" where
  "encode_disk_index t v meta =
    (case encode_ordered t v meta of Some r \<Rightarrow> Some r | None \<Rightarrow> encode_unordered t v meta)"

end
