(* ===== verification/Index_Valid.thy ===== *)
theory Index_Valid
  imports Index_Format
begin

text \<open>
  What the loaders and writers accept: the marking walk of \<^verbatim>\<open>validateDiskTree\<close> passes exactly the
  trees whose used slots all hang below the root.
\<close>

abbreviation par :: "size_tree \<Rightarrow> nat \<Rightarrow> nat" where
  "par t j \<equiv> ts_parent (tree_slot_at t j)"

definition grounded :: "size_tree \<Rightarrow> nat \<Rightarrow> bool" where
  "grounded t i \<longleftrightarrow> (\<exists>k. (par t ^^ k) i = 0)"

definition entry_fits :: "size_tree \<Rightarrow> bool \<Rightarrow> nat \<Rightarrow> bool" where
  "entry_fits t ordered i \<longleftrightarrow>
     fits_index (tree_slot_at t i) \<and>
     (ts_used (tree_slot_at t i) \<and> 0 < i \<longrightarrow>
        valid_disk_index_name (ts_name (tree_slot_at t i)) \<and> tree_is_dir t (par t i) \<and> par t i \<noteq> i \<and>
        (ordered \<longrightarrow> par t i < i))"

definition disk_tree_ok :: "size_tree \<Rightarrow> bool \<Rightarrow> bool" where
  "disk_tree_ok t ordered \<longleftrightarrow>
     \<not> bad_root t \<and> (\<forall>i<node_count t. entry_fits t ordered i \<and> (ts_used (tree_slot_at t i) \<longrightarrow> grounded t i))"

lemma grounded_par: "grounded t (par t i) \<Longrightarrow> grounded t i"
  unfolding grounded_def by (metis funpow_Suc_right o_apply)

lemma grounded_up: "grounded t ((par t ^^ k) i) \<Longrightarrow> grounded t i"
  unfolding grounded_def by (metis funpow_add o_apply)

lemma grounded_down:
  assumes "grounded t i" "par t 0 = 0"
  shows "grounded t ((par t ^^ k) i)"
proof -
  obtain n where "(par t ^^ n) i = 0" using assms(1) by (auto simp: grounded_def)
  moreover have "(par t ^^ m) 0 = 0" for m by (induction m) (simp_all add: assms(2))
  ultimately have "(par t ^^ n) ((par t ^^ k) i) = 0"
    by (metis add.commute comp_apply funpow_add)
  then show ?thesis by (auto simp: grounded_def)
qed

section \<open>The walk\<close>

definition mark_all :: "'a \<Rightarrow> nat list \<Rightarrow> 'a list \<Rightarrow> 'a list" where
  "mark_all m js st = fold (\<lambda>j st. st[j := m]) js st"

lemma length_mark_all [simp]: "length (mark_all m js st) = length st"
  by (induction js arbitrary: st) (simp_all add: mark_all_def)

lemma mark_all_append: "mark_all m (xs @ ys) st = mark_all m ys (mark_all m xs st)"
  by (simp add: mark_all_def)

lemma nth_mark_all: "i < length st \<Longrightarrow> mark_all m js st ! i = (if i \<in> set js then m else st ! i)"
proof (induction js arbitrary: st)
  case (Cons j js)
  then show ?case using Cons.IH [of "st[j := m]"] by (auto simp: mark_all_def nth_list_update)
qed (simp add: mark_all_def)

text \<open>The slots that a walk passes, from its start to the slot before the last.\<close>

definition walked :: "size_tree \<Rightarrow> nat list \<Rightarrow> nat \<Rightarrow> nat list \<Rightarrow> nat \<Rightarrow> bool" where
  "walked t st cur path fin \<longleftrightarrow>
     fin = (par t ^^ length path) cur \<and> (\<forall>k<length path. path ! k = (par t ^^ k) cur) \<and> distinct path \<and>
     (\<forall>j \<in> set path. j < length st \<and> st ! j = 0 \<and> tree_is_dir t (par t j))"

lemma climb_Ret:
  "climb t st chain cur = Ret (st', chain', fin) \<Longrightarrow>
   \<exists>path. chain' = chain @ path \<and> walked t st cur path fin \<and> st' = mark_all 1 path st \<and>
     fin < length st \<and> st' ! fin \<noteq> 0"
proof (induction t st chain cur arbitrary: st' chain' fin rule: climb.induct)
  case (1 t st chain cur)
  note prems = "1.prems" and IH = "1.IH"
  have cur: "cur < length st" using prems by (subst (asm) climb.simps) (auto split: if_splits)
  show ?case
  proof (cases "st ! cur = 0")
    case False
    with prems cur have "st' = st" "chain' = chain" "fin = cur"
      by (subst (asm) climb.simps, simp)+
    with False cur show ?thesis by (intro exI [of _ "[]"]) (simp add: walked_def mark_all_def)
  next
    case True
    have dir: "tree_is_dir t (par t cur)"
      and rec: "climb t (st[cur := 1]) (chain @ [cur]) (par t cur) = Ret (st', chain', fin)"
      using prems cur True by (subst (asm) climb.simps, auto simp: Let_def cache_invalid_def split: if_splits)+
    obtain path where path: "chain' = (chain @ [cur]) @ path" "walked t (st[cur := 1]) (par t cur) path fin"
      "st' = mark_all 1 path (st[cur := 1])" "fin < length st" "st' ! fin \<noteq> 0"
      using IH [OF cur True refl _ rec] dir by auto
    have nin: "cur \<notin> set path" using path(2) cur by (auto simp: walked_def)
    have "walked t st cur (cur # path) fin"
      unfolding walked_def
    proof (intro conjI allI impI ballI)
      show "fin = (par t ^^ length (cur # path)) cur"
        using path(2) by (simp add: walked_def funpow_Suc_right del: funpow.simps)
      show "distinct (cur # path)" using path(2) nin by (simp add: walked_def)
    next
      fix k assume "k < length (cur # path)"
      then show "(cur # path) ! k = (par t ^^ k) cur"
        using path(2) by (cases k) (simp_all add: walked_def funpow_Suc_right del: funpow.simps(2))
    next
      fix j assume "j \<in> set (cur # path)"
      then show "j < length st" "st ! j = 0" "tree_is_dir t (par t j)"
        using path(2) cur True dir nin by (auto simp: walked_def nth_list_update split: if_splits)
    qed
    moreover have "st' = mark_all 1 (cur # path) st" using path(3) by (simp add: mark_all_def)
    ultimately show ?thesis using path(1,4,5) by (intro exI [of _ "cur # path"]) simp
  qed
qed

lemma climb_no_error:
  assumes "\<And>j. j < length st \<Longrightarrow> ts_used (tree_slot_at t j) \<Longrightarrow> tree_is_dir t (par t j)"
    and "ts_used (tree_slot_at t cur)" "cur < length st" "length st = node_count t"
  shows "\<exists>r. climb t st chain cur = Ret r"
  using assms
proof (induction t st chain cur rule: climb.induct)
  case (1 t st chain cur)
  then have dir: "tree_is_dir t (par t cur)" by blast
  then have "ts_used (tree_slot_at t (par t cur))" "par t cur < node_count t" by (simp_all add: tree_is_dir_def)
  with 1 dir show ?case by (subst climb.simps) (simp add: Let_def)
qed

section \<open>The marks\<close>

definition marks_ok :: "size_tree \<Rightarrow> nat list \<Rightarrow> bool" where
  "marks_ok t st \<longleftrightarrow> length st = node_count t \<and> 0 < length st \<and> st ! 0 = 2 \<and>
     (\<forall>j<length st. st ! j = 0 \<or> st ! j = 2 \<and> grounded t j)"

lemma grounded_zero: "grounded t 0"
  unfolding grounded_def by (rule exI [of _ 0]) simp

lemma validate_entry_sound:
  assumes "marks_ok t st" "validate_entry t ordered i st = Ret st'" "i < node_count t"
  shows "marks_ok t st' \<and> entry_fits t ordered i \<and> (ts_used (tree_slot_at t i) \<longrightarrow> grounded t i)"
proof (cases "ts_used (tree_slot_at t i)")
  case False
  then show ?thesis using assms
    by (auto simp: validate_entry_def entry_fits_def cache_invalid_def Let_def split: if_splits)
next
  case used: True
  obtain s chain cur where climb: "climb t st [] i = Ret (s, chain, cur)" and cur: "s ! cur \<noteq> 1"
      and st': "st' = mark_all 2 chain s" and fits: "entry_fits t ordered i"
    using assms used
    by (auto simp: validate_entry_def entry_fits_def cache_invalid_def Let_def go_bind_Ret_iff mark_all_def
        split: if_splits)
  obtain path where path: "chain = path" "walked t st i path cur" "s = mark_all 1 path st" "cur < length st" "s ! cur \<noteq> 0"
    using climb_Ret [OF climb] by auto
  have cur_out: "cur \<notin> set path" using cur path(3,4) by (auto simp: nth_mark_all)
  then have "grounded t cur" using assms(1) path(3,4,5) by (auto simp: marks_ok_def nth_mark_all split: if_splits)
  then have up: "grounded t ((par t ^^ k) i)" if "k \<le> length path" for k
  proof -
    have "cur = (par t ^^ (length path - k)) ((par t ^^ k) i)"
      using path(2) that by (simp add: walked_def flip: funpow_add [THEN fun_cong, unfolded o_apply])
    with \<open>grounded t cur\<close> show ?thesis by (metis grounded_up)
  qed
  have "grounded t j" if "j \<in> set path" for j
    using that path(2) up by (auto simp: in_set_conv_nth walked_def less_imp_le)
  then have "marks_ok t st'"
    using assms(1) path by (auto simp: marks_ok_def st' nth_mark_all walked_def)
  moreover have "grounded t i" using up [of 0] by simp
  ultimately show ?thesis using fits by simp
qed

lemma cycle_never_grounded:
  assumes "walked t st i path fin" "fin \<in> set path" "0 \<notin> set path"
  shows "\<not> grounded t i"
proof
  have at: "path ! k = (par t ^^ k) i" if "k < length path" for k
    using assms(1) that by (simp add: walked_def)
  obtain a where a: "a < length path" "(par t ^^ length path) i = path ! a"
    using assms(1,2) by (auto simp: walked_def in_set_conv_nth)
  have "(par t ^^ k) i \<in> set path" for k
  proof (induction k rule: less_induct)
    case (less k)
    show ?case
    proof (cases "k < length path")
      case True
      then show ?thesis using at by (metis nth_mem)
    next
      case False
      have "(par t ^^ k) i = (par t ^^ (k - length path)) ((par t ^^ length path) i)"
        using False by (simp flip: funpow_add [THEN fun_cong, unfolded o_apply])
      also have "\<dots> = (par t ^^ (k - length path + a)) i"
        using a at by (simp add: funpow_add)
      finally show ?thesis using less [of "k - length path + a"] a False by simp
    qed
  qed
  moreover assume "grounded t i"
  ultimately show False using assms(3) by (metis grounded_def)
qed

lemma validate_entry_complete:
  assumes "marks_ok t st" "disk_tree_ok t ordered" "i < node_count t"
  shows "\<exists>st'. validate_entry t ordered i st = Ret st'"
proof (cases "ts_used (tree_slot_at t i)")
  case False
  then show ?thesis using assms by (simp add: validate_entry_def disk_tree_ok_def entry_fits_def Let_def)
next
  case used: True
  have root: "tree_is_dir t 0" "par t 0 = 0" using assms(2) by (simp_all add: disk_tree_ok_def bad_root_def)
  have dirs: "tree_is_dir t (par t j)" if "j < node_count t" "ts_used (tree_slot_at t j)" for j
    using that assms(2) root by (cases "j = 0") (auto simp: disk_tree_ok_def entry_fits_def)
  have len: "length st = node_count t" using assms(1) by (simp add: marks_ok_def)
  obtain s chain cur where climb: "climb t st [] i = Ret (s, chain, cur)"
    using climb_no_error [of st t i "[]"] dirs used assms(3) len by auto
  obtain path where path: "chain = path" "walked t st i path cur" "s = mark_all 1 path st" "cur < length st"
    using climb_Ret [OF climb] by auto
  have "0 \<notin> set path" using path(2) assms(1) by (auto simp: walked_def marks_ok_def)
  moreover have "grounded t i" using assms(2,3) used by (simp add: disk_tree_ok_def)
  ultimately have "cur \<notin> set path" using cycle_never_grounded path(2) by blast
  then have "s ! cur \<noteq> 1" using assms(1) path(3,4) by (auto simp: marks_ok_def nth_mark_all)
  then show ?thesis
    using climb assms used by (auto simp: validate_entry_def disk_tree_ok_def entry_fits_def Let_def go_bind_Ret_iff)
qed

lemma validate_fold_sound:
  assumes "go_fold (validate_entry t ordered) js st = Ret st'" "marks_ok t st" "set js \<subseteq> {..<node_count t}"
  shows "marks_ok t st' \<and> (\<forall>i \<in> set js. entry_fits t ordered i \<and> (ts_used (tree_slot_at t i) \<longrightarrow> grounded t i))"
  using assms
proof (induction js arbitrary: st)
  case (Cons i js)
  then obtain s where s: "validate_entry t ordered i st = Ret s" "go_fold (validate_entry t ordered) js s = Ret st'"
    by (auto simp: go_bind_Ret_iff)
  with Cons validate_entry_sound [of t st ordered i s] show ?case by auto
qed simp

lemma validate_fold_complete:
  assumes "disk_tree_ok t ordered" "marks_ok t st" "set js \<subseteq> {..<node_count t}"
  shows "\<exists>st'. go_fold (validate_entry t ordered) js st = Ret st'"
  using assms(2,3)
proof (induction js arbitrary: st)
  case (Cons i js)
  then obtain s where "validate_entry t ordered i st = Ret s"
    using validate_entry_complete assms(1) by fastforce
  with Cons validate_entry_sound [of t st ordered i s] show ?case by auto
qed simp

lemma initial_marks:
  assumes "\<not> bad_root t"
  shows "marks_ok t ((replicate (node_count t) 0)[0 := 2])"
  using assms grounded_zero by (auto simp: marks_ok_def bad_root_def nth_list_update)

lemma validate_tree_ok: "validate_disk_tree t ordered = Ret () \<longleftrightarrow> disk_tree_ok t ordered"
proof
  assume "validate_disk_tree t ordered = Ret ()"
  then obtain st' where "\<not> bad_root t"
      "go_fold (validate_entry t ordered) [0..<node_count t] ((replicate (node_count t) 0)[0 := 2]) = Ret st'"
    by (auto simp: validate_disk_tree_def cache_invalid_def go_bind_Ret_iff split: if_splits)
  with validate_fold_sound [OF this(2) initial_marks [OF this(1)]] show "disk_tree_ok t ordered"
    by (simp add: disk_tree_ok_def atLeast0LessThan)
next
  assume ok: "disk_tree_ok t ordered"
  then have root: "\<not> bad_root t" by (simp add: disk_tree_ok_def)
  obtain st' where "go_fold (validate_entry t ordered) [0..<node_count t] ((replicate (node_count t) 0)[0 := 2]) = Ret st'"
    using validate_fold_complete [OF ok initial_marks [OF root], of "[0..<node_count t]"] by (auto simp: atLeast0LessThan)
  with root show "validate_disk_tree t ordered = Ret ()" by (simp add: validate_disk_tree_def)
qed

lemma climb_no_panic:
  "length st = node_count t \<Longrightarrow> cur < length st \<Longrightarrow> no_panic (climb t st chain cur)"
proof (induction t st chain cur rule: climb.induct)
  case (1 t st chain cur)
  have "tree_is_dir t (par t cur) \<Longrightarrow> par t cur < node_count t" by (simp add: tree_is_dir_def)
  with 1 show ?case by (subst climb.simps) (auto simp: Let_def cache_invalid_def)
qed

text \<open>
  C18: the iterative validation of a tree, with its marks and chains, accepts
  exactly the trees with a proper root whose slots fit the file format, whose used slots have safe
  names and directories as parents, in front of them where the order is asked for, and whose used
  slots all reach the root through their parents.
\<close>

theorem validate_disk_tree_iff: "validate_disk_tree t ordered = Ret () \<longleftrightarrow> disk_tree_ok t ordered"
  by (rule validate_tree_ok)

lemma validate_no_panic: "no_panic (validate_disk_tree t ordered)"
proof -
  have step: "no_panic (validate_entry t ordered i st)" if "marks_ok t st" "i < node_count t" for i st
    using that climb_no_panic [of st t i "[]"]
    by (auto simp: validate_entry_def marks_ok_def cache_invalid_def Let_def intro!: no_panic_intros)
  have "no_panic (go_fold (validate_entry t ordered) [0..<node_count t] ((replicate (node_count t) 0)[0 := 2]))"
    if "\<not> bad_root t"
    by (rule no_panic_fold [where P = "marks_ok t"])
      (use that initial_marks step validate_entry_sound in auto)
  then show ?thesis by (auto simp: validate_disk_tree_def cache_invalid_def intro!: no_panic_intros)
qed

end
