(* ===== verification/Index_Load.thy ===== *)
theory Index_Load
  imports Index_Decode Index_Valid
begin

text \<open>
  What a loader accepts: whatever the bytes are, no access is out of range; the two loaders accept
  the same files and build the same tree, whose slots and child lists agree.
\<close>

section \<open>Reading within the sections\<close>

definition u32n :: "byte list \<Rightarrow> nat \<Rightarrow> nat" where
  "u32n b off = unat (le_word (take 4 (drop off b)) :: u32)"

lemma nat32_eq: "off + 4 \<le> length b \<Longrightarrow> nat32 b off = Ret (u32n b off)"
  by (simp add: nat32_def get32_def le_at_def u32n_def)

lemma cache_range_Ret: "cache_range b off k = Ret s \<longleftrightarrow> off + k \<le> length b \<and> s = take k (drop off b)"
  by (auto simp: cache_range_def cache_invalid_def go_slice_Ret_iff)

lemma cache_range_no_panic [no_panic_intros, simp]: "no_panic (cache_range b off k)"
  by (auto simp: cache_range_def cache_invalid_def intro!: no_panic_intros)

lemma cache_invalid_simps [simp]: "cache_invalid r \<noteq> Ret x" "no_panic (cache_invalid r)" "go_bind (cache_invalid r) f = cache_invalid r"
  by (simp_all add: cache_invalid_def)

lemma cache_range_cases:
  obtains "off + k \<le> length b" "cache_range b off k = Ret (take k (drop off b))"
  | "length b < off + k" "cache_range b off k = cache_invalid ''truncated section''"
  by (cases "length b < off \<or> length b - off < k") (auto simp: cache_range_def go_slice_def)

lemma pool_name_no_panic [no_panic_intros]: "no_panic (pool_name pool off)"
proof -
  have "no_panic (get16 (take 2 (drop off pool)) 0)" if "off + 2 \<le> length pool"
    using that by (intro no_panic_intros) simp
  then show ?thesis
    by (cases rule: cache_range_cases [of off 2 pool])
      (auto simp: pool_name_def split: go.splits intro!: no_panic_intros dest: arg_cong [where f = no_panic]
        simp: cache_range_no_panic [unfolded no_panic_def])
qed

lemma read_record_no_panic [no_panic_intros]: "length b = 24 \<Longrightarrow> no_panic (cache_read_record b pool)"
  unfolding cache_read_record_def by (intro no_panic_intros) simp_all

lemma check_sections_Ret:
  "check_sections b e ss = Ret u \<Longrightarrow> s \<in> set ss \<Longrightarrow> fst s + snd s \<le> length b"
proof (induction ss arbitrary: e)
  case (Cons s' ss)
  then show ?case by (cases s') (auto simp: go_bind_Ret_iff cache_range_Ret split: if_splits)
qed simp

lemma check_sections_no_panic [no_panic_intros]: "no_panic (check_sections b e ss)"
proof (induction ss arbitrary: e)
  case (Cons s' ss)
  then show ?case by (cases s') (auto intro!: no_panic_intros)
qed simp

text \<open>The sections lie within the file.\<close>

definition file_layout :: "byte list \<Rightarrow> index_header \<Rightarrow> bool" where
  "file_layout b h \<longleftrightarrow> 128 \<le> length b \<and> 0 < ih_count h \<and> ih_count h \<le> unat cache_parent_mask + 1 \<and>
     ih_entries h + ih_count h * 24 \<le> length b \<and> ih_starts h + (ih_count h + 1) * 4 \<le> length b \<and>
     ih_children h + ih_child_len h * 4 \<le> length b"

lemma check_layout_Ret:
  assumes "check_layout b h = Ret u" "128 \<le> length b"
  shows "file_layout b h"
proof -
  have "check_sections b 0 (sort_by section_less (index_sections h)) = Ret u"
    using assms(1) by (auto simp: check_layout_def split: if_splits)
  then have bound: "fst s + snd s \<le> length b" if "s \<in> set (index_sections h)" for s
    using that by (metis check_sections_Ret set_sort_by)
  have "0 < ih_count h" "ih_count h \<le> unat cache_parent_mask + 1"
    using assms(1) by (auto simp: check_layout_def split: if_splits)
  with bound [of "(ih_entries h, ih_count h * 24)"] bound [of "(ih_starts h, (ih_count h + 1) * 4)"]
    bound [of "(ih_children h, ih_child_len h * 4)"] assms(2)
  show ?thesis by (simp add: index_sections_def file_layout_def)
qed

lemma read_header_layout:
  assumes "read_index_header b vol = Ret (h, checksum)"
  shows "file_layout b h"
  using assms check_layout_Ret
  by (auto simp: read_index_header_def go_bind_Ret_iff Let_def not_less split: if_splits)

lemma check_labels_no_panic [no_panic_intros]: "no_panic (check_labels b vol ml ll)"
  by (cases rule: cache_range_cases [of 128 "ml + ll" b]) (simp_all add: check_labels_def cache_invalid_def)

lemma nat32_no_panic [no_panic_intros]: "off + 4 \<le> length b \<Longrightarrow> no_panic (nat32 b off)"
  by (simp add: nat32_eq)

lemma read_header_no_panic: "no_panic (read_index_header b vol)"
  by (auto simp: read_index_header_def Let_def check_layout_def intro!: no_panic_intros)

lemma go_map_no_panic [no_panic_intros]: "(\<And>x. x \<in> set xs \<Longrightarrow> no_panic (f x)) \<Longrightarrow> no_panic (go_map f xs)"
  by (induction xs) (auto intro!: no_panic_intros)

lemma go_map_Ret: "go_map f xs = Ret ys \<longleftrightarrow> list_all2 (\<lambda>x y. f x = Ret y) xs ys"
  by (induction xs arbitrary: ys) (auto simp: go_bind_Ret_iff list_all2_Cons1)

lemma go_fold_no_panic: "(\<And>x s. x \<in> set xs \<Longrightarrow> no_panic (f x s)) \<Longrightarrow> no_panic (go_fold f xs s)"
  by (rule no_panic_fold [where P = "\<lambda>_. True"]) auto

lemma go_fold_step: "go_fold f xs s = Ret s' \<Longrightarrow> x \<in> set xs \<Longrightarrow> \<exists>u u'. f x u = Ret u'"
  by (induction xs arbitrary: s) (auto simp: go_bind_Ret_iff)

lemma row_in_range:
  assumes "file_layout b h" "i < ih_count h"
  shows "csr_range b h i =
    (let start = u32n b (ih_starts h + i * 4); stop = u32n b (ih_starts h + (i + 1) * 4) in
     if stop < start \<or> ih_child_len h < stop then cache_invalid ''CSR range'' else Ret (start, stop))"
proof -
  have "ih_starts h + i * 4 + 4 \<le> length b" "ih_starts h + (i + 1) * 4 + 4 \<le> length b"
    using assms by (auto simp: file_layout_def)
  then show ?thesis by (simp add: csr_range_def nat32_eq Let_def)
qed

lemma kid_in_range:
  "file_layout b h \<Longrightarrow> j < ih_child_len h \<Longrightarrow> nat32 b (ih_children h + j * 4) = Ret (u32n b (ih_children h + j * 4))"
  by (rule nat32_eq) (auto simp: file_layout_def)

lemma sentinels_eq:
  assumes "file_layout b h"
  shows "check_sentinels b h =
    (if u32n b (ih_starts h) \<noteq> 0 \<or> u32n b (ih_starts h + ih_count h * 4) \<noteq> ih_child_len h
     then cache_invalid ''CSR sentinel'' else Ret ())"
  using assms by (simp add: check_sentinels_def nat32_eq file_layout_def)

lemma read_meta_no_panic [no_panic_intros]: "128 \<le> length b \<Longrightarrow> no_panic (read_index_meta b)"
  unfolding read_index_meta_def by (intro no_panic_intros) simp_all

section \<open>Records\<close>

definition file_record :: "byte list \<Rightarrow> index_header \<Rightarrow> byte list \<Rightarrow> nat \<Rightarrow> cache_record index_go" where
  "file_record b h pool i = cache_read_record (take 24 (drop (ih_entries h + i * 24) b)) pool"

lemma record_range:
  assumes "file_layout b h" "i < ih_count h"
  shows "ih_entries h + i * 24 + 24 \<le> length b"
proof -
  have "(i + 1) * 24 \<le> ih_count h * 24" using assms(2) by (intro mult_le_mono1) simp
  then show ?thesis using assms(1) by (simp add: file_layout_def)
qed

lemma heap_record_eq:
  assumes "file_layout b h" "i < ih_count h"
  shows "heap_record b h pool i =
    go_bind (file_record b h pool i) (\<lambda>r. if \<not> ts_used (cr_slot r) then cache_invalid ''base tombstone'' else Ret r)"
  using record_range [OF assms] by (simp add: heap_record_def go_slice_def file_record_def add.assoc)

lemma file_record_no_panic: "file_layout b h \<Longrightarrow> i < ih_count h \<Longrightarrow> no_panic (file_record b h pool i)"
  unfolding file_record_def by (rule read_record_no_panic) (use record_range in fastforce)

section \<open>The child lists in compressed rows\<close>

definition row_kids :: "byte list \<Rightarrow> index_header \<Rightarrow> nat \<Rightarrow> nat list" where
  "row_kids b h i =
    map (\<lambda>j. u32n b (ih_children h + j * 4)) [u32n b (ih_starts h + i * 4)..<u32n b (ih_starts h + (i + 1) * 4)]"

definition row_bounds :: "byte list \<Rightarrow> index_header \<Rightarrow> nat \<Rightarrow> bool" where
  "row_bounds b h i \<longleftrightarrow>
     u32n b (ih_starts h + i * 4) \<le> u32n b (ih_starts h + (i + 1) * 4) \<and>
     u32n b (ih_starts h + (i + 1) * 4) \<le> ih_child_len h"

definition row_ok :: "(nat \<Rightarrow> nat) \<Rightarrow> nat \<Rightarrow> nat \<Rightarrow> nat set \<Rightarrow> nat list \<Rightarrow> bool" where
  "row_ok up n i seen cs \<longleftrightarrow> distinct cs \<and> (\<forall>c \<in> set cs. c \<noteq> 0 \<and> c < n \<and> c \<notin> seen \<and> up c = i)"

definition all_kids :: "byte list \<Rightarrow> index_header \<Rightarrow> nat \<Rightarrow> nat list" where
  "all_kids b h k = concat (map (row_kids b h) [0..<k])"

text \<open>The rows are sound: within bounds, each child once, under its parent.\<close>

definition rows_ok :: "byte list \<Rightarrow> index_header \<Rightarrow> (nat \<Rightarrow> nat) \<Rightarrow> nat \<Rightarrow> bool" where
  "rows_ok b h up k \<longleftrightarrow> (\<forall>i<k. row_bounds b h i) \<and> distinct (all_kids b h k) \<and>
     (\<forall>i<k. \<forall>c \<in> set (row_kids b h i). c \<noteq> 0 \<and> c < ih_count h \<and> up c = i)"

lemma rows_ok_Suc:
  "rows_ok b h up (Suc k) \<longleftrightarrow>
     rows_ok b h up k \<and> row_bounds b h k \<and> row_ok up (ih_count h) k (insert 0 (set (all_kids b h k))) (row_kids b h k)"
  by (auto simp: rows_ok_def row_ok_def all_kids_def less_Suc_eq)

lemma all_kids_Suc: "all_kids b h (Suc k) = all_kids b h k @ row_kids b h k"
  by (simp add: all_kids_def)

lemma row_ok_inter: "row_ok up n i (S \<inter> {..<n}) cs = row_ok up n i S cs"
  by (auto simp: row_ok_def)

lemma heap_kids_fold:
  assumes "file_layout b h" "length seen = ih_count h" "set js \<subseteq> {..<ih_child_len h}"
  shows "go_fold (heap_child t b h i) js seen = Ret seen' \<longleftrightarrow>
    row_ok (par t) (ih_count h) i {c. c < ih_count h \<and> seen ! c} (map (\<lambda>j. u32n b (ih_children h + j * 4)) js) \<and>
    seen' = mark_all True (map (\<lambda>j. u32n b (ih_children h + j * 4)) js) seen"
  using assms(2,3)
proof (induction js arbitrary: seen)
  case Nil
  then show ?case by (auto simp: row_ok_def mark_all_def)
next
  case (Cons j js)
  define c where "c = u32n b (ih_children h + j * 4)"
  have step: "heap_child t b h i j seen =
      (if c = 0 \<or> ih_count h \<le> c \<or> seen ! c \<or> par t c \<noteq> i then cache_invalid ''CSR child'' else Ret (seen[c := True]))"
    using Cons.prems assms(1) by (simp add: heap_child_def kid_in_range c_def)
  show ?case
  proof (cases "c = 0 \<or> ih_count h \<le> c \<or> seen ! c \<or> par t c \<noteq> i")
    case True
    then have "\<not> row_ok (par t) (ih_count h) i {c. c < ih_count h \<and> seen ! c} (c # map (\<lambda>j. u32n b (ih_children h + j * 4)) js)"
      by (auto simp: row_ok_def)
    with True show ?thesis by (simp add: step flip: c_def)
  next
    case False
    then have set_eq: "{d. d < ih_count h \<and> seen[c := True] ! d} = insert c {d. d < ih_count h \<and> seen ! d}"
      using Cons.prems(1) by (auto simp: nth_list_update)
    have "go_fold (heap_child t b h i) js (seen[c := True]) = Ret seen' \<longleftrightarrow>
        row_ok (par t) (ih_count h) i (insert c {d. d < ih_count h \<and> seen ! d}) (map (\<lambda>j. u32n b (ih_children h + j * 4)) js) \<and>
        seen' = mark_all True (map (\<lambda>j. u32n b (ih_children h + j * 4)) js) (seen[c := True])"
      using Cons.IH [of "seen[c := True]"] Cons.prems by (simp add: set_eq)
    with False show ?thesis by (auto simp: step row_ok_def mark_all_def simp flip: c_def)
  qed
qed

lemma heap_rows_fold:
  assumes "file_layout b h" "k \<le> ih_count h"
  shows "go_fold (heap_row t b h) [0..<k] ((replicate (ih_count h) False)[0 := True]) = Ret seen' \<longleftrightarrow>
    rows_ok b h (par t) k \<and> seen' = mark_all True (all_kids b h k) ((replicate (ih_count h) False)[0 := True])"
  using assms(2)
proof (induction k arbitrary: seen')
  case 0
  then show ?case by (auto simp: rows_ok_def all_kids_def mark_all_def)
next
  case (Suc k)
  define seen where "seen = mark_all True (all_kids b h k) ((replicate (ih_count h) False)[0 := True])"
  have set_eq: "{c. c < ih_count h \<and> seen ! c} = insert 0 (set (all_kids b h k)) \<inter> {..<ih_count h}"
    using assms(1) by (auto simp: seen_def nth_mark_all nth_list_update file_layout_def split: if_splits)
  have seen_ok: "row_ok up (ih_count h) k {c. c < ih_count h \<and> seen ! c} cs =
      row_ok up (ih_count h) k (insert 0 (set (all_kids b h k))) cs" for up cs
    unfolding set_eq by (rule row_ok_inter)
  have seen_len: "length seen = ih_count h" by (simp add: seen_def)
  have row: "heap_row t b h k seen = Ret seen' \<longleftrightarrow>
     row_bounds b h k \<and> row_ok (par t) (ih_count h) k (insert 0 (set (all_kids b h k))) (row_kids b h k) \<and>
     seen' = mark_all True (row_kids b h k) seen" for seen'
  proof (cases "row_bounds b h k")
    case True
    have "set [u32n b (ih_starts h + k * 4)..<u32n b (ih_starts h + (k + 1) * 4)] \<subseteq> {..<ih_child_len h}"
      using True by (auto simp: row_bounds_def)
    from heap_kids_fold [OF assms(1) _ this, of seen t k seen']
    show ?thesis using True Suc.prems
      by (simp add: heap_row_def row_in_range [OF assms(1)] Let_def row_bounds_def row_kids_def seen_len seen_ok)
  next
    case False
    then show ?thesis using Suc.prems
      by (auto simp: heap_row_def row_in_range [OF assms(1)] Let_def row_bounds_def)
  qed
  have "go_fold (heap_row t b h) [0..<k] ((replicate (ih_count h) False)[0 := True]) = Ret s \<longleftrightarrow>
      rows_ok b h (par t) k \<and> s = seen" for s
    using Suc by (simp add: seen_def)
  then show ?case
    by (simp add: go_fold_append go_bind_Ret_iff row rows_ok_Suc all_kids_Suc mark_all_append flip: seen_def)
qed

section \<open>The bitmap of the mapped loader\<close>

lemma bitmap_test_bit: "bitmap_test seen c \<longleftrightarrow> bit (seen ! (c div 64)) (c mod 64)"
  by (simp add: bitmap_test_def bit_iff_and_push_bit_not_eq_0)

lemma length_bitmap_set [simp]: "length (bitmap_set c seen) = length seen"
  by (simp add: bitmap_set_def)

lemma bitmap_test_set:
  assumes "c div 64 < length seen"
  shows "bitmap_test (bitmap_set c seen) d \<longleftrightarrow> d = c \<or> bitmap_test seen d"
proof (cases "d div 64 = c div 64")
  case True
  then have "d = c \<longleftrightarrow> d mod 64 = c mod 64" by (metis mult_div_mod_eq)
  then show ?thesis using True assms
    by (auto simp: bitmap_test_bit bitmap_set_def bit_simps)
next
  case False
  then show ?thesis using assms by (auto simp: bitmap_test_bit bitmap_set_def)
qed

lemma bitmap_test_zero: "d div 64 < k \<Longrightarrow> \<not> bitmap_test (replicate k 0) d"
  by (simp add: bitmap_test_bit)

definition bitmap_all :: "nat list \<Rightarrow> u64 list \<Rightarrow> u64 list" where
  "bitmap_all cs seen = fold bitmap_set cs seen"

lemma bitmap_all_Cons: "bitmap_all (c # cs) seen = bitmap_all cs (bitmap_set c seen)"
  by (simp add: bitmap_all_def)

lemma bitmap_all_append: "bitmap_all (xs @ ys) seen = bitmap_all ys (bitmap_all xs seen)"
  by (simp add: bitmap_all_def)

lemma length_bitmap_all [simp]: "length (bitmap_all cs seen) = length seen"
  by (induction cs arbitrary: seen) (simp_all add: bitmap_all_def)

lemma bitmap_test_all:
  "\<forall>c \<in> set cs. c div 64 < length seen \<Longrightarrow> bitmap_test (bitmap_all cs seen) d \<longleftrightarrow> d \<in> set cs \<or> bitmap_test seen d"
proof (induction cs arbitrary: seen)
  case (Cons c cs)
  then have "bitmap_test (bitmap_all cs (bitmap_set c seen)) d \<longleftrightarrow> d \<in> set cs \<or> bitmap_test (bitmap_set c seen) d"
    by simp
  with Cons.prems show ?case by (auto simp: bitmap_all_def bitmap_test_set)
qed (simp add: bitmap_all_def)

text \<open>The parent that a record of the file names.\<close>

definition file_bits :: "byte list \<Rightarrow> index_header \<Rightarrow> nat \<Rightarrow> u32" where
  "file_bits b h i = le_word (take 4 (drop (ih_entries h + i * 24) b))"

lemma base_bits_eq: "file_layout b h \<Longrightarrow> i < ih_count h \<Longrightarrow> base_bits b h i = Ret (file_bits b h i)"
  using record_range [of b h i] by (simp add: base_bits_def get32_def le_at_def file_bits_def)

definition file_parent :: "byte list \<Rightarrow> index_header \<Rightarrow> nat \<Rightarrow> nat" where
  "file_parent b h i = record_parent (file_bits b h i)"

lemma mapped_kids_fold:
  assumes "file_layout b h" "ih_count h \<le> 64 * length seen" "set js \<subseteq> {..<ih_child_len h}"
  shows "go_fold (mapped_child b h i) js (seen, previous, ordered) = Ret r \<longleftrightarrow>
    (let cs = map (\<lambda>j. u32n b (ih_children h + j * 4)) js in
     row_ok (file_parent b h) (ih_count h) i {c. bitmap_test seen c} cs \<and>
     r = (bitmap_all cs seen, last (previous # cs), ordered \<and> sorted (previous # cs)))"
  using assms(2,3)
proof (induction js arbitrary: seen previous ordered)
  case Nil
  then show ?case by (auto simp: row_ok_def bitmap_all_def)
next
  case (Cons j js)
  define c where "c = u32n b (ih_children h + j * 4)"
  define cs where "cs = map (\<lambda>j. u32n b (ih_children h + j * 4)) js"
  have step: "mapped_child b h i j (seen, previous, ordered) =
      (if c = 0 \<or> ih_count h \<le> c \<or> bitmap_test seen c \<or> file_parent b h c \<noteq> i then cache_invalid ''CSR child''
       else Ret (bitmap_set c seen, c, if c < previous then False else ordered))"
    using Cons.prems assms(1)
    by (simp add: mapped_child_def kid_in_range base_bits_eq file_parent_def flip: c_def)
  show ?case
  proof (cases "c = 0 \<or> ih_count h \<le> c \<or> bitmap_test seen c \<or> file_parent b h c \<noteq> i")
    case True
    then have "\<not> row_ok (file_parent b h) (ih_count h) i {c. bitmap_test seen c} (c # cs)" by (auto simp: row_ok_def)
    with True show ?thesis by (simp add: step Let_def flip: c_def cs_def)
  next
    case False
    then have "c div 64 < length seen" using Cons.prems(1) by (simp add: div_less_iff_less_mult)
    then have set_eq: "{d. bitmap_test (bitmap_set c seen) d} = insert c {d. bitmap_test seen d}"
      by (auto simp: bitmap_test_set)
    have "go_fold (mapped_child b h i) js (bitmap_set c seen, c, if c < previous then False else ordered) = Ret r \<longleftrightarrow>
        row_ok (file_parent b h) (ih_count h) i (insert c {d. bitmap_test seen d}) cs \<and>
        r = (bitmap_all cs (bitmap_set c seen), last (c # cs), (if c < previous then False else ordered) \<and> sorted (c # cs))"
      using Cons.IH [of "bitmap_set c seen" c "if c < previous then False else ordered"] Cons.prems
      by (simp add: set_eq Let_def flip: cs_def)
    moreover have "((if c < previous then False else ordered) \<and> sorted (c # cs)) = (ordered \<and> sorted (previous # c # cs))"
      by auto
    moreover have "row_ok (file_parent b h) (ih_count h) i {d. bitmap_test seen d} (c # cs) \<longleftrightarrow>
        row_ok (file_parent b h) (ih_count h) i (insert c {d. bitmap_test seen d}) cs"
      using False by (auto simp: row_ok_def)
    ultimately show ?thesis using False
      by (simp add: step bitmap_all_Cons Let_def del: sorted_wrt.simps sorted2_simps flip: c_def cs_def)
  qed
qed

lemma base_children_eq:
  assumes "file_layout b h" "i < ih_count h" "row_bounds b h i"
  shows "base_children b h i = Ret (row_kids b h i)"
proof -
  have "ih_starts h + i * 4 + 4 \<le> length b" "ih_starts h + (i + 1) * 4 + 4 \<le> length b"
    using assms by (auto simp: file_layout_def)
  moreover have "go_map (\<lambda>j. nat32 b (ih_children h + j * 4)) js = Ret (map (\<lambda>j. u32n b (ih_children h + j * 4)) js)"
    if "set js \<subseteq> {..<ih_child_len h}" for js
    using that by (induction js) (simp_all add: kid_in_range [OF assms(1)])
  ultimately show ?thesis using assms(3)
    by (simp add: base_children_def nat32_eq row_kids_def row_bounds_def subset_eq)
qed

lemma mapped_rows_fold:
  assumes "file_layout b h" "k \<le> ih_count h"
  shows "go_fold (mapped_row b h) [0..<k] (replicate ((ih_count h + 63) div 64) 0, []) = Ret r \<longleftrightarrow>
    rows_ok b h (file_parent b h) k \<and>
    r = (bitmap_all (all_kids b h k) (replicate ((ih_count h + 63) div 64) 0), map (\<lambda>i. sort (row_kids b h i)) [0..<k])"
  using assms(2)
proof (induction k arbitrary: r)
  case 0
  then show ?case by (auto simp: rows_ok_def all_kids_def bitmap_all_def)
next
  case (Suc k)
  define seen where "seen = bitmap_all (all_kids b h k) (replicate ((ih_count h + 63) div 64) 0)"
  define rows where "rows = map (\<lambda>i. sort (row_kids b h i)) [0..<k]"
  have len: "ih_count h \<le> 64 * length seen" by (simp add: seen_def)
  have fits: "c div 64 < (ih_count h + 63) div 64" if "c < ih_count h" for c
    using that by (simp add: div_less_iff_less_mult)
  have seen_set: "c \<in> set (all_kids b h k) \<longleftrightarrow> bitmap_test seen c"
    if "rows_ok b h (file_parent b h) k" "c < ih_count h" for c
  proof -
    have "\<forall>c \<in> set (all_kids b h k). c < ih_count h" using that(1) by (auto simp: rows_ok_def all_kids_def)
    then show ?thesis
      using that(2) fits bitmap_test_zero [of c "(ih_count h + 63) div 64"]
      by (simp add: seen_def bitmap_test_all)
  qed
  have row: "mapped_row b h k (seen, rows) = Ret r \<longleftrightarrow>
     row_bounds b h k \<and> row_ok (file_parent b h) (ih_count h) k (insert 0 (set (all_kids b h k))) (row_kids b h k) \<and>
     r = (bitmap_all (row_kids b h k) seen, rows @ [sort (row_kids b h k)])"
    if ok: "rows_ok b h (file_parent b h) k" for r
  proof (cases "row_bounds b h k")
    case True
    have "set [u32n b (ih_starts h + k * 4)..<u32n b (ih_starts h + (k + 1) * 4)] \<subseteq> {..<ih_child_len h}"
      using True by (auto simp: row_bounds_def)
    from mapped_kids_fold [OF assms(1) len this, of k 0 True]
    have fold: "go_fold (mapped_child b h k) [u32n b (ih_starts h + k * 4)..<u32n b (ih_starts h + (k + 1) * 4)] (seen, 0, True) = Ret x \<longleftrightarrow>
        row_ok (file_parent b h) (ih_count h) k {c. bitmap_test seen c} (row_kids b h k) \<and>
        x = (bitmap_all (row_kids b h k) seen, last (0 # row_kids b h k), sorted (row_kids b h k))" for x
      by (simp add: row_kids_def Let_def)
    have "row_ok (file_parent b h) (ih_count h) k {c. bitmap_test seen c} (row_kids b h k) =
        row_ok (file_parent b h) (ih_count h) k (insert 0 (set (all_kids b h k))) (row_kids b h k)"
      using seen_set [OF ok] by (auto simp: row_ok_def)
    with fold True Suc.prems show ?thesis
      by (auto simp: mapped_row_def row_in_range [OF assms(1)] Let_def row_bounds_def go_bind_Ret_iff
          base_children_eq [OF assms(1)] sorted_sort_id)
  next
    case False
    then show ?thesis using Suc.prems
      by (auto simp: mapped_row_def row_in_range [OF assms(1)] Let_def row_bounds_def)
  qed
  have "go_fold (mapped_row b h) [0..<k] (replicate ((ih_count h + 63) div 64) 0, []) = Ret s \<longleftrightarrow>
      rows_ok b h (file_parent b h) k \<and> s = (seen, rows)" for s
    using Suc by (simp add: seen_def rows_def)
  then show ?case
    by (auto simp: go_fold_append go_bind_Ret_iff row rows_ok_Suc all_kids_Suc bitmap_all_append simp flip: seen_def rows_def)
qed

end
