(* ===== verification/Index_Accept.thy ===== *)
theory Index_Accept
  imports Index_Load
begin

text \<open>
  The two loaders of a base accept the same files and agree on the tree they build.
\<close>

section \<open>The records of a file\<close>

definition file_off :: "byte list \<Rightarrow> index_header \<Rightarrow> nat \<Rightarrow> u32" where
  "file_off b h i = le_word (take 4 (drop (ih_entries h + i * 24 + 4) b))"

definition slot_on_file :: "byte list \<Rightarrow> index_header \<Rightarrow> nat \<Rightarrow> string \<Rightarrow> tree_slot" where
  "slot_on_file b h i name =
    record_slot (file_bits b h i) name (le_word (take 8 (drop (ih_entries h + i * 24 + 8) b)))
      (le_word (take 4 (drop (ih_entries h + i * 24 + 16) b))) (le_word (take 4 (drop (ih_entries h + i * 24 + 20) b)))"

lemma take_within: "j + k \<le> m \<Longrightarrow> take k (drop j (take m (drop n xs))) = take k (drop (n + j) xs)"
  by (simp add: drop_take add.commute)

lemma file_record_eq:
  assumes "file_layout b h" "i < ih_count h"
  shows "file_record b h pool i =
    go_bind (pool_name pool (unat (file_off b h i)))
      (\<lambda>name. Ret \<lparr>cr_slot = slot_on_file b h i name, cr_name_off = file_off b h i\<rparr>)"
proof -
  have "\<not> length b < ih_entries h + i * 24 + 24" using record_range [OF assms] by simp
  then show ?thesis
    by (simp add: file_record_def cache_read_record_def get32_def get64_def le_at_def file_off_def slot_on_file_def
        file_bits_def take_within [of _ _ 24, simplified] drop_take add.commute [of _ "ih_entries h + i * 24"])
qed

lemma mapped_entry_eq:
  assumes "file_layout b h" "i < ih_count h"
  shows "mapped_entry b h pool i (files, dirs, tags) =
    go_bind (pool_name pool (unat (file_off b h i))) (\<lambda>name.
      if file_bits b h i AND cache_used_bit = 0 then cache_invalid ''base tombstone''
      else go_bind (check_mapped_links b h i (file_bits b h i) name) (\<lambda>_.
        Ret (if file_bits b h i AND cache_dir_bit \<noteq> 0 then (files, dirs + 1, tags)
             else (files + 1, dirs, if is_cache_dir_tag_name name then tags @ [i] else tags))))"
proof -
  have "\<not> length b < ih_entries h + i * 24 + 24" using record_range [OF assms] by simp
  moreover have tag: "length name = length ''CACHEDIR.TAG'' \<and> is_cache_dir_tag_name name \<longleftrightarrow> is_cache_dir_tag_name name" for name
    by (auto simp: is_cache_dir_tag_name_def)
  ultimately show ?thesis
    by (simp add: mapped_entry_def tag go_slice_def get32_def le_at_def file_off_def file_bits_def
        take_within [of _ _ 24, simplified] drop_take add.commute [of _ "ih_entries h + i * 24"] del: list.size
        cong: if_cong)
qed

lemma pool_name_Ret:
  "pool_name pool off = Ret name \<longleftrightarrow>
     (let k = unat (le_word (take 2 (drop off pool)) :: u16) in
      off + 2 + k \<le> length pool \<and> name = string_of_bytes (take k (drop (off + 2) pool)) \<and> utf8_valid name)"
proof (cases "off + 2 \<le> length pool")
  case True
  define k where "k = unat (le_word (take 2 (drop off pool)) :: u16)"
  have get: "get16 (take 2 (drop off pool)) 0 = Ret (le_word (take 2 (drop off pool)))"
    using True by (simp add: get16_def le_at_def)
  show ?thesis
    by (cases rule: cache_range_cases [of "off + 2" k pool])
      (use True in \<open>auto simp: pool_name_def cache_range_Ret [THEN iffD2] get k_def Let_def cache_invalid_def\<close>)
next
  case False
  then have "cache_range pool off 2 = cache_invalid ''truncated section''"
    by (cases rule: cache_range_cases [of off 2 pool]) simp_all
  then show ?thesis using False by (auto simp: pool_name_def Let_def)
qed

lemma pool_name_fits:
  assumes "pool_name pool off = Ret name"
  shows "length name \<le> 65535 \<and> utf8_valid name"
proof -
  have "unat (le_word (take 2 (drop off pool)) :: u16) < 2 ^ 16"
    using unsigned_less [of "le_word (take 2 (drop off pool)) :: u16"] by simp
  then show ?thesis using assms by (auto simp: pool_name_Ret Let_def)
qed

lemma base_slot_eq:
  assumes "file_layout b h" "i < ih_count h" "pool_name pool (unat (file_off b h i)) = Ret name"
  shows "base_slot b h pool i = Ret (slot_on_file b h i name)"
proof -
  have r: "\<not> length b < ih_entries h + i * 24 + 24" using record_range [OF assms(1,2)] by simp
  have "base_name_off b h i = Ret (file_off b h i)"
    using r by (simp add: base_name_off_def get32_def le_at_def file_off_def)
  then have "base_name b h pool i = Ret name"
    using assms(3) by (simp add: base_name_def pool_name_Ret Let_def get16_def le_at_def go_slice_def)
  moreover have "base_values b h i = Ret (slot_on_file b h i [])"
    using r by (simp add: base_values_def base_raw_def go_slice_def get32_def get64_def le_at_def slot_on_file_def
        file_bits_def take_within [of _ _ 24, simplified] drop_take add.commute [of _ "ih_entries h + i * 24"])
  ultimately show ?thesis by (simp add: base_slot_def slot_on_file_def record_slot_def)
qed

section \<open>What is accepted\<close>

definition file_name :: "byte list \<Rightarrow> index_header \<Rightarrow> byte list \<Rightarrow> nat \<Rightarrow> string" where
  "file_name b h pool i = (case pool_name pool (unat (file_off b h i)) of Ret name \<Rightarrow> name | _ \<Rightarrow> [])"

definition file_slots :: "byte list \<Rightarrow> index_header \<Rightarrow> byte list \<Rightarrow> tree_slot list" where
  "file_slots b h pool = map (\<lambda>i. slot_on_file b h i (file_name b h pool i)) [0..<ih_count h]"

definition file_names_ok :: "byte list \<Rightarrow> index_header \<Rightarrow> byte list \<Rightarrow> bool" where
  "file_names_ok b h pool \<longleftrightarrow> (\<forall>i<ih_count h. pool_name pool (unat (file_off b h i)) = Ret (file_name b h pool i) \<and>
     ts_used (slot_on_file b h i (file_name b h pool i)))"

lemma file_slot_fields [simp]:
  "ts_used (slot_on_file b h i name) \<longleftrightarrow> file_bits b h i AND cache_used_bit \<noteq> 0"
  "ts_is_dir (slot_on_file b h i name) \<longleftrightarrow> file_bits b h i AND cache_dir_bit \<noteq> 0"
  "ts_parent (slot_on_file b h i name) = file_parent b h i"
  "ts_name (slot_on_file b h i name) = name"
  by (simp_all add: slot_on_file_def record_slot_def file_parent_def)

lemma both_bits:
  "w AND (cache_used_bit OR cache_dir_bit) = cache_used_bit OR cache_dir_bit \<longleftrightarrow>
   w AND cache_used_bit \<noteq> 0 \<and> w AND cache_dir_bit \<noteq> 0"
proof -
  have u: "w AND cache_used_bit \<noteq> 0 \<longleftrightarrow> bit w 30" and d: "w AND cache_dir_bit \<noteq> 0 \<longleftrightarrow> bit w 31"
    using bit_iff_and_push_bit_not_eq_0 [of w 30] bit_iff_and_push_bit_not_eq_0 [of w 31]
    by (simp_all add: cache_used_bit_def cache_dir_bit_def push_bit_eq_mult)
  have bits: "bit (cache_used_bit OR cache_dir_bit) n \<longleftrightarrow> n = 30 \<or> n = 31" for n
  proof -
    have "cache_used_bit = push_bit 30 1" "cache_dir_bit = push_bit 31 1"
      by (simp_all add: cache_used_bit_def cache_dir_bit_def push_bit_eq_mult)
    then have eq: "cache_used_bit OR cache_dir_bit = push_bit 30 1 OR push_bit 31 1" by (simp only:)
    show ?thesis unfolding eq bit_or_iff bit_push_bit_iff bit_1_iff by auto
  qed
  show ?thesis unfolding u d
  proof
    assume eq: "w AND (cache_used_bit OR cache_dir_bit) = cache_used_bit OR cache_dir_bit"
    then have "bit (w AND (cache_used_bit OR cache_dir_bit)) 30" "bit (w AND (cache_used_bit OR cache_dir_bit)) 31"
      unfolding eq by (simp_all add: bits)
    then show "bit w 30 \<and> bit w 31" by (simp add: bit_and_iff)
  next
    assume "bit w 30 \<and> bit w 31"
    then show "w AND (cache_used_bit OR cache_dir_bit) = cache_used_bit OR cache_dir_bit"
      by (intro bit_word_eqI) (auto simp: bit_and_iff bits)
  qed
qed

lemma fold_count: "fold (\<lambda>e n. if P e then n + 1 else n) es k = k + (word_of_nat (length (filter P es)) :: u64)"
  by (induction es arbitrary: k) (auto simp: algebra_simps)

lemma count_used_heap: "count_used (heap_tree vol es) d = word_of_nat (length (filter (counts_slot d) es))"
  by (simp add: count_used_def heap_tree_def fold_count)

lemma heap_tree_simps [simp]:
  "node_count (heap_tree vol es) = length es"
  "i < length es \<Longrightarrow> tree_slot_at (heap_tree vol es) i = es ! i"
  "base_count (heap_tree vol es) = 0"
  by (simp_all add: heap_tree_def node_count_def base_count_def tree_slot_at_def)

definition links_good :: "byte list \<Rightarrow> index_header \<Rightarrow> byte list \<Rightarrow> nat \<Rightarrow> bool" where
  "links_good b h pool i \<longleftrightarrow>
     (if i = 0 then file_parent b h 0 = 0 \<and> file_bits b h 0 AND cache_dir_bit \<noteq> 0
      else valid_disk_index_name (file_name b h pool i) \<and> file_parent b h i < i \<and>
        file_bits b h (file_parent b h i) AND cache_used_bit \<noteq> 0 \<and>
        file_bits b h (file_parent b h i) AND cache_dir_bit \<noteq> 0)"

lemma check_mapped_links_Ret:
  assumes "file_layout b h" "i < ih_count h" "name = file_name b h pool i"
  shows "check_mapped_links b h i (file_bits b h i) name = Ret () \<longleftrightarrow> links_good b h pool i"
  using assms by (auto simp: check_mapped_links_def links_good_def file_parent_def not_le both_bits base_bits_eq go_bind_Ret_iff)

definition name_ok :: "byte list \<Rightarrow> index_header \<Rightarrow> byte list \<Rightarrow> nat \<Rightarrow> bool" where
  "name_ok b h pool i \<longleftrightarrow> pool_name pool (unat (file_off b h i)) = Ret (file_name b h pool i) \<and>
     file_bits b h i AND cache_used_bit \<noteq> 0"

lemma file_names_ok_iff: "file_names_ok b h pool \<longleftrightarrow> (\<forall>i<ih_count h. name_ok b h pool i)"
  by (simp add: file_names_ok_def name_ok_def)

lemma eq_map_upt: "xs = map f [0..<n] \<longleftrightarrow> length xs = n \<and> (\<forall>i<n. xs ! i = f i)"
  by (auto intro: nth_equalityI)

lemma heap_records_Ret:
  assumes "file_layout b h"
  shows "go_map (heap_record b h pool) [0..<ih_count h] = Ret rs \<longleftrightarrow>
    file_names_ok b h pool \<and>
    rs = map (\<lambda>i. \<lparr>cr_slot = slot_on_file b h i (file_name b h pool i), cr_name_off = file_off b h i\<rparr>) [0..<ih_count h]"
proof -
  have one: "heap_record b h pool i = Ret r \<longleftrightarrow>
      name_ok b h pool i \<and> r = \<lparr>cr_slot = slot_on_file b h i (file_name b h pool i), cr_name_off = file_off b h i\<rparr>"
    if "i < ih_count h" for i r
    unfolding heap_record_eq [OF assms that] file_record_eq [OF assms that] name_ok_def file_name_def
    by (cases "pool_name pool (unat (file_off b h i))") auto
  show ?thesis
    unfolding go_map_Ret list_all2_conv_all_nth file_names_ok_iff
    by (auto simp: one eq_map_upt)
qed

definition tag_entry :: "byte list \<Rightarrow> index_header \<Rightarrow> byte list \<Rightarrow> nat \<Rightarrow> bool" where
  "tag_entry b h pool i \<longleftrightarrow> file_bits b h i AND cache_dir_bit = 0 \<and> is_cache_dir_tag_name (file_name b h pool i)"

lemma mapped_entries_fold:
  assumes "file_layout b h" "k \<le> ih_count h"
  shows "go_fold (mapped_entry b h pool) [0..<k] (0, 0, []) = Ret r \<longleftrightarrow>
    (\<forall>i<k. name_ok b h pool i \<and> links_good b h pool i) \<and>
    r = (word_of_nat (length (filter (\<lambda>i. file_bits b h i AND cache_dir_bit = 0) [0..<k])),
         word_of_nat (length (filter (\<lambda>i. file_bits b h i AND cache_dir_bit \<noteq> 0) [0..<k])),
         filter (tag_entry b h pool) [0..<k])"
  using assms(2)
proof (induction k arbitrary: r)
  case 0
  then show ?case by auto
next
  case (Suc k)
  have one: "mapped_entry b h pool k (files, dirs, tags) = Ret r \<longleftrightarrow>
      (name_ok b h pool k \<and> links_good b h pool k) \<and>
      r = (if file_bits b h k AND cache_dir_bit \<noteq> 0 then (files, dirs + 1, tags)
           else (files + 1, dirs, if is_cache_dir_tag_name (file_name b h pool k) then tags @ [k] else tags))"
    for files dirs tags r
  proof (cases "pool_name pool (unat (file_off b h k))")
    case (Ret name)
    then have "file_name b h pool k = name" by (simp add: file_name_def)
    with Ret check_mapped_links_Ret [OF assms(1), of k name pool] Suc.prems show ?thesis
      by (auto simp: mapped_entry_eq [OF assms(1)] name_ok_def go_bind_Ret_iff)
  qed (use Suc.prems in \<open>simp_all add: mapped_entry_eq [OF assms(1)] name_ok_def file_name_def\<close>)
  have IH: "go_fold (mapped_entry b h pool) [0..<k] (0, 0, []) = Ret r \<longleftrightarrow>
    (\<forall>i<k. name_ok b h pool i \<and> links_good b h pool i) \<and>
    r = (word_of_nat (length (filter (\<lambda>i. file_bits b h i AND cache_dir_bit = 0) [0..<k])),
         word_of_nat (length (filter (\<lambda>i. file_bits b h i AND cache_dir_bit \<noteq> 0) [0..<k])),
         filter (tag_entry b h pool) [0..<k])" for r
    using Suc by simp
  show ?case
    unfolding upt_Suc_append [OF le0] go_fold_append
    by (cases "file_bits b h k AND cache_dir_bit = 0")
      (auto simp: go_bind_Ret_iff IH one All_less_Suc tag_entry_def [of b h pool k] add.commute [of 1])
qed

lemma record_parent_le: "record_parent bits \<le> unat cache_parent_mask"
  unfolding record_parent_def by (simp add: word_and_le1 flip: word_le_nat_alt)

lemma ucast32_le: "ucast (w :: u32) \<le> (0xffffffff :: u64)"
proof -
  have "unat w < 2 ^ 32" using unsigned_less [of w] by simp
  then show ?thesis by (simp add: word_le_nat_alt unsigned_ucast_eq take_bit_nat_eq_self)
qed

lemma file_slot_fits:
  assumes "name_ok b h pool i"
  shows "fits_index (slot_on_file b h i (file_name b h pool i))"
  using pool_name_fits [of pool "unat (file_off b h i)" "file_name b h pool i"] assms ucast32_le
    record_parent_le [of "file_bits b h i"]
  by (auto simp: fits_index_def name_ok_def file_parent_def not_less) (auto simp: slot_on_file_def record_slot_def not_less)

lemma length_file_slots [simp]: "length (file_slots b h pool) = ih_count h"
  by (simp add: file_slots_def)

lemma nth_file_slots [simp]:
  "i < ih_count h \<Longrightarrow> file_slots b h pool ! i = slot_on_file b h i (file_name b h pool i)"
  by (simp add: file_slots_def)

lemma links_good_tree:
  assumes "file_layout b h" "file_names_ok b h pool"
  shows "(\<forall>i<ih_count h. links_good b h pool i) \<longleftrightarrow> disk_tree_ok (heap_tree vol (file_slots b h pool)) True"
    (is "?L \<longleftrightarrow> disk_tree_ok ?t True")
proof -
  have n: "0 < ih_count h" "ih_count h \<le> unat cache_parent_mask + 1" using assms(1) by (simp_all add: file_layout_def)
  have ok: "name_ok b h pool i" if "i < ih_count h" for i using that assms(2) by (simp add: file_names_ok_iff)
  have dir: "tree_is_dir ?t p \<longleftrightarrow> p < ih_count h \<and> file_bits b h p AND cache_dir_bit \<noteq> 0" for p
    using ok [of p] by (auto simp: tree_is_dir_def name_ok_def)
  have root: "\<not> bad_root ?t \<longleftrightarrow> file_parent b h 0 = 0 \<and> file_bits b h 0 AND cache_dir_bit \<noteq> 0"
    using n by (auto simp: bad_root_def dir)
  have fits: "entry_fits ?t True i \<longleftrightarrow> (0 < i \<longrightarrow> valid_disk_index_name (file_name b h pool i) \<and>
      file_parent b h i < i \<and> file_bits b h (file_parent b h i) AND cache_dir_bit \<noteq> 0)" if "i < ih_count h" for i
    using that ok [OF that] file_slot_fits [OF ok [OF that]] by (auto simp: entry_fits_def dir name_ok_def)
  have good: "links_good b h pool i \<longleftrightarrow>
      (if i = 0 then \<not> bad_root ?t else entry_fits ?t True i)" if "i < ih_count h" for i
    using that ok by (auto simp: links_good_def root fits name_ok_def)
  show ?thesis
  proof
    assume L: ?L
    have "grounded ?t i" if "i < ih_count h" for i
      using that
    proof (induction i rule: less_induct)
      case (less i)
      show ?case
      proof (cases "i = 0")
        case False
        with L less.prems good fits have "file_parent b h i < i" by auto
        with less have "grounded ?t (par ?t i)" by simp
        then show ?thesis by (rule grounded_par)
      qed (simp add: grounded_zero)
    qed
    moreover have "entry_fits ?t True i" if "i < ih_count h" for i
      using L that good [of i] fits [of i] by (cases "i = 0") auto
    ultimately show "disk_tree_ok ?t True" using L n good [of 0] by (auto simp: disk_tree_ok_def)
  next
    assume "disk_tree_ok ?t True"
    then show ?L using good by (auto simp: disk_tree_ok_def)
  qed
qed

section \<open>The child lists\<close>

lemma length_all_kids:
  "\<forall>i<k. row_bounds b h i \<Longrightarrow> u32n b (ih_starts h) + length (all_kids b h k) = u32n b (ih_starts h + k * 4)"
proof (induction k)
  case (Suc k)
  then have "row_bounds b h k" by simp
  then have "length (row_kids b h k) = u32n b (ih_starts h + Suc k * 4) - u32n b (ih_starts h + k * 4)"
    "u32n b (ih_starts h + k * 4) \<le> u32n b (ih_starts h + Suc k * 4)"
    by (simp_all add: row_kids_def row_bounds_def)
  with Suc show ?case by (simp add: all_kids_Suc)
qed (simp add: all_kids_def)

definition sentinels_ok :: "byte list \<Rightarrow> index_header \<Rightarrow> bool" where
  "sentinels_ok b h \<longleftrightarrow> u32n b (ih_starts h) = 0 \<and> u32n b (ih_starts h + ih_count h * 4) = ih_child_len h"

lemma all_kids_bounds:
  "rows_ok b h up k \<Longrightarrow> set (all_kids b h k) \<subseteq> {1..<ih_count h} \<and> distinct (all_kids b h k)"
  by (fastforce simp: rows_ok_def all_kids_def Suc_le_eq)

text \<open>With proper sentinels the rows are complete exactly when they have the right total length.\<close>

lemma rows_complete_iff:
  assumes "rows_ok b h up (ih_count h)" "sentinels_ok b h"
  shows "set (all_kids b h (ih_count h)) = {1..<ih_count h} \<longleftrightarrow> ih_child_len h = ih_count h - 1"
proof -
  let ?L = "all_kids b h (ih_count h)"
  have "length ?L = ih_child_len h"
    using length_all_kids [of "ih_count h" b h] assms by (simp add: rows_ok_def sentinels_ok_def)
  moreover have "card (set ?L) = length ?L" "set ?L \<subseteq> {1..<ih_count h}"
    using all_kids_bounds [OF assms(1)] by (simp_all add: distinct_card)
  ultimately show ?thesis
    using card_subset_eq [of "{1..<ih_count h}" "set ?L"] by auto
qed

lemma rows_ok_cong:
  "(\<And>c. c < ih_count h \<Longrightarrow> up c = up' c) \<Longrightarrow> rows_ok b h up k = rows_ok b h up' k"
  by (simp add: rows_ok_def cong: conj_cong)

text \<open>Complete rows are the child lists of the tree.\<close>

lemma row_kids_children:
  assumes "rows_ok b h up (ih_count h)" "set (all_kids b h (ih_count h)) = {1..<ih_count h}" "p < ih_count h"
  shows "sort (row_kids b h p) = filter (\<lambda>i. up i = p) [1..<ih_count h]"
proof (rule sorted_distinct_set_unique)
  have at: "up c = i" if "c \<in> set (row_kids b h i)" "i < ih_count h" for c i
    using that assms(1) by (auto simp: rows_ok_def)
  have incl: "c \<in> set (row_kids b h p)" if c: "c \<in> {1..<ih_count h}" "up c = p" for c
  proof -
    have "c \<in> set (all_kids b h (ih_count h))" using c(1) assms(2) by simp
    then obtain i where i: "i < ih_count h" "c \<in> set (row_kids b h i)" by (auto simp: all_kids_def)
    with at [OF i(2,1)] c(2) show ?thesis by simp
  qed
  have out: "c \<in> {1..<ih_count h}" if "c \<in> set (row_kids b h p)" for c
  proof -
    have "c \<in> set (all_kids b h (ih_count h))" using that assms(3) by (auto simp: all_kids_def)
    then show ?thesis using assms(2) by simp
  qed
  show "set (sort (row_kids b h p)) = set (filter (\<lambda>i. up i = p) [1..<ih_count h])"
  proof (rule set_eqI)
    fix c
    show "c \<in> set (sort (row_kids b h p)) \<longleftrightarrow> c \<in> set (filter (\<lambda>i. up i = p) [1..<ih_count h])"
      unfolding set_sort set_filter set_upt using incl [of c] out [of c] at [of c p] assms(3) by blast
  qed
  have "distinct (concat (map (row_kids b h) [0..<ih_count h]))"
    using assms(1) by (simp add: rows_ok_def all_kids_def)
  then have "\<forall>ys \<in> set (map (row_kids b h) [0..<ih_count h]). distinct ys"
    unfolding distinct_concat_iff by blast
  then have "distinct (row_kids b h p)" using assms(3) by simp
  then show "distinct (sort (row_kids b h p))" by simp
qed (simp_all add: sorted_wrt_filter)

lemma children_of_ok:
  assumes "disk_tree_ok (heap_tree vol es) True" "\<forall>e \<in> set es. ts_used e" "p < length es"
  shows "child_list (rebuild_child_arrays (heap_tree vol es)) p = filter (\<lambda>i. ts_parent (es ! i) = p) [1..<length es]"
proof -
  have "heap_edge es i = Some (ts_parent (es ! i))" if "0 < i" "i < length es" for i
    using that assms(1,2) by (auto simp: heap_edge_def Let_def disk_tree_ok_def entry_fits_def tree_is_dir_def)
  then have "filter (\<lambda>i. heap_edge es i = Some p) [1..<length es] = filter (\<lambda>i. ts_parent (es ! i) = p) [1..<length es]"
    by (intro filter_cong) auto
  then show ?thesis using assms(3)
    by (simp add: rebuild_child_arrays_def heap_tree_def child_list_def heap_children_nth Let_def)
qed

section \<open>The two loaders\<close>

definition counts_ok :: "byte list \<Rightarrow> index_header \<Rightarrow> index_meta \<Rightarrow> bool" where
  "counts_ok b h meta \<longleftrightarrow>
     im_file_count meta = word_of_nat (length (filter (\<lambda>i. file_bits b h i AND cache_dir_bit = 0) [0..<ih_count h])) \<and>
     im_dir_count meta = word_of_nat (length (filter (\<lambda>i. file_bits b h i AND cache_dir_bit \<noteq> 0) [0..<ih_count h]))"

text \<open>What both loaders demand of a file whose sections have been located.\<close>

definition body_ok :: "byte list \<Rightarrow> index_header \<Rightarrow> byte list \<Rightarrow> volume_id \<Rightarrow> index_meta \<Rightarrow> bool" where
  "body_ok b h pool vol meta \<longleftrightarrow>
     file_names_ok b h pool \<and> disk_tree_ok (heap_tree vol (file_slots b h pool)) True \<and> sentinels_ok b h \<and>
     rows_ok b h (file_parent b h) (ih_count h) \<and> set (all_kids b h (ih_count h)) = {1..<ih_count h} \<and>
     read_index_meta b = Ret meta \<and> counts_ok b h meta"

definition file_records :: "byte list \<Rightarrow> index_header \<Rightarrow> byte list \<Rightarrow> cache_record list" where
  "file_records b h pool =
    map (\<lambda>i. \<lparr>cr_slot = slot_on_file b h i (file_name b h pool i), cr_name_off = file_off b h i\<rparr>) [0..<ih_count h]"

lemma count_slots:
  assumes "file_names_ok b h pool"
  shows "length (filter (counts_slot False) (file_slots b h pool)) = length (filter (\<lambda>i. file_bits b h i AND cache_dir_bit = 0) [0..<ih_count h])"
    "length (filter (counts_slot True) (file_slots b h pool)) = length (filter (\<lambda>i. file_bits b h i AND cache_dir_bit \<noteq> 0) [0..<ih_count h])"
proof -
  have "file_bits b h i AND cache_used_bit \<noteq> 0" if "i < ih_count h" for i
    using assms that by (simp add: file_names_ok_def)
  then show "length (filter (counts_slot False) (file_slots b h pool)) = length (filter (\<lambda>i. file_bits b h i AND cache_dir_bit = 0) [0..<ih_count h])"
    "length (filter (counts_slot True) (file_slots b h pool)) = length (filter (\<lambda>i. file_bits b h i AND cache_dir_bit \<noteq> 0) [0..<ih_count h])"
    by (auto simp: file_slots_def filter_map counts_slot_def intro!: arg_cong [where f = length] filter_cong)
qed

lemma sentinels_Ret: "file_layout b h \<Longrightarrow> check_sentinels b h = Ret u \<longleftrightarrow> sentinels_ok b h"
  by (auto simp: sentinels_eq sentinels_ok_def)

lemma all_seen_iff:
  assumes "0 < n" "set cs \<subseteq> {1..<n}"
  shows "\<not> list_ex Not (mark_all True cs ((replicate n False)[0 := True])) \<longleftrightarrow> set cs = {1..<n}"
proof -
  have "mark_all True cs ((replicate n False)[0 := True]) ! i \<longleftrightarrow> i = 0 \<or> i \<in> set cs" if "i < n" for i
    using that by (simp add: nth_mark_all nth_list_update)
  then have "\<not> list_ex Not (mark_all True cs ((replicate n False)[0 := True])) \<longleftrightarrow> (\<forall>i<n. i = 0 \<or> i \<in> set cs)"
    by (simp add: list_ex_iff in_set_conv_nth Ball_def) blast
  also have "\<dots> \<longleftrightarrow> {1..<n} \<subseteq> set cs"
  proof -
    have "{1..<n} = {i. i < n \<and> i \<noteq> 0}" by auto
    then show ?thesis by blast
  qed
  also have "\<dots> \<longleftrightarrow> set cs = {1..<n}" using assms(2) by blast
  finally show ?thesis .
qed

lemma decode_heap_Ret:
  assumes "file_layout b h"
  shows "decode_heap_body b pool vol h checksum = Ret d \<longleftrightarrow>
    (\<exists>meta. body_ok b h pool vol meta \<and>
       d = \<lparr>di_tree = rebuild_child_arrays (heap_tree vol (file_slots b h pool)), di_records = Some (file_records b h pool),
            di_meta = meta, di_checksum = checksum\<rparr>)"
proof -
  let ?t = "heap_tree vol (file_slots b h pool)"
  have slots: "map cr_slot (file_records b h pool) = file_slots b h pool"
    by (simp add: file_records_def file_slots_def)
  have rows: "rows_ok b h (par ?t) (ih_count h) = rows_ok b h (file_parent b h) (ih_count h)"
    by (rule rows_ok_cong) simp
  have seen: "list_ex Not (mark_all True (all_kids b h (ih_count h)) ((replicate (ih_count h) False)[0 := True])) \<longleftrightarrow>
      set (all_kids b h (ih_count h)) \<noteq> {Suc 0..<ih_count h}" if "rows_ok b h (file_parent b h) (ih_count h)"
    using all_seen_iff [of "ih_count h" "all_kids b h (ih_count h)"] all_kids_bounds [OF that] assms
    by (auto simp: file_layout_def)
  have records: "go_map (heap_record b h pool) [0..<ih_count h] = Ret rs \<longleftrightarrow> file_names_ok b h pool \<and> rs = file_records b h pool" for rs
    by (simp add: heap_records_Ret [OF assms] file_records_def)
  have counts: "count_used ?t False = word_of_nat (length (filter (\<lambda>i. file_bits b h i AND cache_dir_bit = 0) [0..<ih_count h]))"
    "count_used ?t True = word_of_nat (length (filter (\<lambda>i. file_bits b h i AND cache_dir_bit \<noteq> 0) [0..<ih_count h]))"
    if "file_names_ok b h pool"
    using count_slots [OF that] by (simp_all add: count_used_heap)
  show ?thesis
    unfolding decode_heap_body_def Let_def go_bind_Ret_iff records body_ok_def
    by (auto simp: slots validate_tree_ok sentinels_Ret [OF assms] heap_rows_fold [OF assms] rows seen
        go_bind_Ret_iff counts counts_ok_def split: if_splits)
qed

definition file_base :: "byte list \<Rightarrow> index_header \<Rightarrow> byte list \<Rightarrow> mapped_base" where
  "file_base b h pool =
    \<lparr>mb_slots = file_slots b h pool,
     mb_children = map (\<lambda>p. filter (\<lambda>i. file_parent b h i = p) [1..<ih_count h]) [0..<ih_count h],
     mb_name_offs = map (file_off b h) [0..<ih_count h], mb_header = take 128 b,
     mb_tags = filter (tag_entry b h pool) [0..<ih_count h]\<rparr>"

lemma read_base_records:
  assumes "file_layout b h" "file_names_ok b h pool"
  shows "go_map (base_slot b h pool) [0..<ih_count h] = Ret (file_slots b h pool)"
    "go_map (base_name_off b h) [0..<ih_count h] = Ret (map (file_off b h) [0..<ih_count h])"
proof -
  show "go_map (base_slot b h pool) [0..<ih_count h] = Ret (file_slots b h pool)"
    using assms by (simp add: go_map_Ret list_all2_conv_all_nth base_slot_eq file_names_ok_def)
  have "base_name_off b h i = Ret (file_off b h i)" if "i < ih_count h" for i
    using record_range [OF assms(1) that] by (simp add: base_name_off_def get32_def le_at_def file_off_def)
  then show "go_map (base_name_off b h) [0..<ih_count h] = Ret (map (file_off b h) [0..<ih_count h])"
    by (simp add: go_map_Ret list_all2_conv_all_nth)
qed

lemma decode_mapped_Ret:
  assumes "file_layout b h"
  shows "decode_mapped_body b pool vol h checksum = Ret d \<longleftrightarrow>
    (\<exists>meta. body_ok b h pool vol meta \<and>
       d = \<lparr>di_tree = mapped_tree vol (file_base b h pool), di_records = None, di_meta = meta, di_checksum = checksum\<rparr>)"
proof -
  have entries: "go_fold (mapped_entry b h pool) [0..<ih_count h] (0, 0, []) = Ret r \<longleftrightarrow>
      (file_names_ok b h pool \<and> disk_tree_ok (heap_tree vol (file_slots b h pool)) True) \<and>
      r = (word_of_nat (length (filter (\<lambda>i. file_bits b h i AND cache_dir_bit = 0) [0..<ih_count h])),
           word_of_nat (length (filter (\<lambda>i. file_bits b h i AND cache_dir_bit \<noteq> 0) [0..<ih_count h])),
           filter (tag_entry b h pool) [0..<ih_count h])" for r
    using mapped_entries_fold [OF assms le_refl, of pool r] links_good_tree [OF assms, of pool vol]
    by (auto simp: file_names_ok_iff)
  have rows: "map (\<lambda>p. sort (row_kids b h p)) [0..<ih_count h] =
      map (\<lambda>p. filter (\<lambda>i. file_parent b h i = p) [1..<ih_count h]) [0..<ih_count h]"
    if "rows_ok b h (file_parent b h) (ih_count h)" "set (all_kids b h (ih_count h)) = {1..<ih_count h}"
    using row_kids_children [OF that] by simp
  show ?thesis
  proof (cases "\<exists>meta. body_ok b h pool vol meta")
    case True
    then obtain meta where ok: "body_ok b h pool vol meta" ..
    then have len: "ih_child_len h = ih_count h - 1"
      using rows_complete_iff by (auto simp: body_ok_def)
    have same: "body_ok b h pool vol meta' \<longleftrightarrow> meta' = meta" for meta' using ok by (auto simp: body_ok_def)
    note kept = rows [OF ok [unfolded body_ok_def, THEN conjunct2, THEN conjunct2, THEN conjunct2, THEN conjunct1]
        ok [unfolded body_ok_def, THEN conjunct2, THEN conjunct2, THEN conjunct2, THEN conjunct2, THEN conjunct1]]
    have "decode_mapped_body b pool vol h checksum = Ret \<lparr>di_tree = mapped_tree vol (file_base b h pool),
        di_records = None, di_meta = meta, di_checksum = checksum\<rparr>"
      using ok read_base_records [OF assms, of pool]
      by (simp add: kept body_ok_def decode_mapped_body_def entries [THEN iffD2] len sentinels_Ret [OF assms, of "()", THEN iffD2]
          mapped_rows_fold [OF assms le_refl, THEN iffD2] counts_ok_def file_base_def Let_def)
    then show ?thesis by (auto simp: same)
  next
    case False
    have "decode_mapped_body b pool vol h checksum \<noteq> Ret d"
    proof
      assume "decode_mapped_body b pool vol h checksum = Ret d"
      then obtain meta where "file_names_ok b h pool" "disk_tree_ok (heap_tree vol (file_slots b h pool)) True"
          "ih_child_len h = ih_count h - 1" "sentinels_ok b h" "rows_ok b h (file_parent b h) (ih_count h)"
          "read_index_meta b = Ret meta" "counts_ok b h meta"
        by (auto simp: decode_mapped_body_def Let_def go_bind_Ret_iff entries sentinels_Ret [OF assms]
            mapped_rows_fold [OF assms le_refl] counts_ok_def split: if_splits)
      with False show False using rows_complete_iff by (auto simp: body_ok_def)
    qed
    with False show ?thesis by blast
  qed
qed

section \<open>The loaders as a whole\<close>

lemma base_raw_no_panic [no_panic_intros]: "file_layout b h \<Longrightarrow> i < ih_count h \<Longrightarrow> no_panic (base_bits b h i)"
  by (simp add: base_bits_eq)

lemma heap_body_no_panic:
  assumes "file_layout b h"
  shows "no_panic (decode_heap_body b pool vol h checksum)"
proof -
  have slot: "no_panic (heap_record b h pool i)" if "i < ih_count h" for i
    using that by (auto simp: heap_record_eq [OF assms] intro!: no_panic_intros file_record_no_panic assms)
  have row: "no_panic (heap_row t b h i seen)" if "i < ih_count h" for t i seen
  proof -
    have "no_panic (heap_child t b h i j seen)" if "j < ih_child_len h" for j seen
      using that by (simp add: heap_child_def kid_in_range [OF assms])
    then have "no_panic (go_fold (heap_child t b h i) [lo..<hi] seen)" if "hi \<le> ih_child_len h" for lo hi
      using that by (intro go_fold_no_panic) auto
    then show ?thesis using that by (auto simp: heap_row_def row_in_range [OF assms] Let_def)
  qed
  show ?thesis
    using assms slot row validate_no_panic
    by (auto simp: decode_heap_body_def Let_def sentinels_eq file_layout_def intro!: no_panic_intros go_fold_no_panic)
qed

lemma mapped_body_no_panic:
  assumes "file_layout b h"
  shows "no_panic (decode_mapped_body b pool vol h checksum)"
proof -
  have links: "no_panic (check_mapped_links b h i bits name)" if "i < ih_count h" for i bits name
    using that by (auto simp: check_mapped_links_def base_bits_eq [OF assms])
  have entry: "no_panic (mapped_entry b h pool i st)" if "i < ih_count h" for i st
    using that links by (cases st) (auto simp: mapped_entry_eq [OF assms] intro!: no_panic_intros)
  have row: "no_panic (mapped_row b h i st)" if i: "i < ih_count h" for i st
  proof -
    obtain seen rows where st: "st = (seen, rows)" by (cases st)
    have kid: "no_panic (mapped_child b h i j s)" if "j < ih_child_len h" for j s
      using that by (cases s) (auto simp: mapped_child_def kid_in_range [OF assms] base_bits_eq [OF assms])
    show ?thesis
    proof (cases "row_bounds b h i")
      case True
      then have "no_panic (go_fold (mapped_child b h i) [u32n b (ih_starts h + i * 4)..<u32n b (ih_starts h + (i + 1) * 4)] s)" for s
        using kid by (intro go_fold_no_panic) (auto simp: row_bounds_def)
      then show ?thesis using True i
        by (auto simp: mapped_row_def st row_in_range [OF assms] Let_def row_bounds_def base_children_eq [OF assms]
            intro!: no_panic_intros)
    next
      case False
      then show ?thesis using i
        by (auto simp: mapped_row_def st row_in_range [OF assms] Let_def row_bounds_def)
    qed
  qed
  have "no_panic (go_map (base_slot b h pool) [0..<ih_count h])" "no_panic (go_map (base_name_off b h) [0..<ih_count h])"
    if "go_fold (mapped_entry b h pool) [0..<ih_count h] (0, 0, []) = Ret r" for r
    using that read_base_records [OF assms, of pool]
    by (simp_all add: mapped_entries_fold [OF assms le_refl] file_names_ok_iff)
  then show ?thesis
    using assms entry row
    by (auto simp: decode_mapped_body_def Let_def sentinels_eq file_layout_def intro!: no_panic_intros go_fold_no_panic)
qed

lemma decode_with_no_panic: "no_panic (decode_disk_index_with b vol mapped)"
proof -
  have "no_panic (case hc of (h, checksum) \<Rightarrow> go_bind (cache_range b (ih_pool h) (ih_pool_len h)) (\<lambda>pool.
      if mapped then decode_mapped_body b pool vol h checksum else decode_heap_body b pool vol h checksum))"
    if "read_index_header b vol = Ret hc" for hc
  proof (cases hc)
    case (Pair h checksum)
    with that have "file_layout b h" by (simp add: read_header_layout)
    with Pair heap_body_no_panic mapped_body_no_panic show ?thesis by (auto intro!: no_panic_intros)
  qed
  then show ?thesis
    unfolding decode_disk_index_with_def by (intro no_panic_intros read_header_no_panic) simp
qed


lemma decode_with_Ret:
  "decode_disk_index_with b vol mapped = Ret d \<longleftrightarrow>
    (\<exists>h checksum pool meta. read_index_header b vol = Ret (h, checksum) \<and>
       cache_range b (ih_pool h) (ih_pool_len h) = Ret pool \<and> body_ok b h pool vol meta \<and>
       d = (if mapped
            then \<lparr>di_tree = mapped_tree vol (file_base b h pool), di_records = None, di_meta = meta, di_checksum = checksum\<rparr>
            else \<lparr>di_tree = rebuild_child_arrays (heap_tree vol (file_slots b h pool)),
                  di_records = Some (file_records b h pool), di_meta = meta, di_checksum = checksum\<rparr>))"
  by (auto simp: decode_disk_index_with_def go_bind_Ret_iff decode_mapped_Ret decode_heap_Ret read_header_layout
      split: prod.splits)

lemma rebuilt_access:
  "node_count (rebuild_child_arrays (heap_tree vol es)) = length es"
  "tree_slot_at (rebuild_child_arrays (heap_tree vol es)) i = tree_slot_at (heap_tree vol es) i"
  "st_base (rebuild_child_arrays (heap_tree vol es)) = None"
  by (simp_all add: rebuild_child_arrays_def heap_tree_def node_count_def base_count_def tree_slot_at_def Let_def)

lemma mapped_access:
  "node_count (mapped_tree vol m) = length (mb_slots m)"
  "tree_slot_at (mapped_tree vol m) i = tree_slot_at (heap_tree vol (mb_slots m)) i"
  "child_list (mapped_tree vol m) p = (if p < length (mb_slots m) then mb_children m ! p else [])"
  "st_base (mapped_tree vol m) = Some m"
  by (simp_all add: mapped_tree_def heap_tree_def node_count_def base_count_def tree_slot_at_def child_list_def)

lemma loaded_children:
  assumes "body_ok b h pool vol meta"
  shows "child_list (rebuild_child_arrays (heap_tree vol (file_slots b h pool))) p =
      (if p < ih_count h then filter (\<lambda>i. file_parent b h i = p) [1..<ih_count h] else [])"
proof (cases "p < ih_count h")
  case True
  have "\<forall>e \<in> set (file_slots b h pool). ts_used e"
    using assms by (auto simp: body_ok_def file_names_ok_def file_slots_def)
  with assms True have "child_list (rebuild_child_arrays (heap_tree vol (file_slots b h pool))) p =
      filter (\<lambda>i. ts_parent (file_slots b h pool ! i) = p) [1..<ih_count h]"
    using children_of_ok [of vol "file_slots b h pool" p] by (simp add: body_ok_def)
  also have "\<dots> = filter (\<lambda>i. file_parent b h i = p) [1..<ih_count h]"
    by (intro filter_cong) auto
  finally show ?thesis using True by simp
next
  case False
  then show ?thesis
    by (simp add: rebuild_child_arrays_def heap_tree_def child_list_def Let_def)
qed

definition same_index :: "decoded_index \<Rightarrow> decoded_index \<Rightarrow> bool" where
  "same_index d d' \<longleftrightarrow>
     node_count (di_tree d) = node_count (di_tree d') \<and>
     (\<forall>i. tree_slot_at (di_tree d) i = tree_slot_at (di_tree d') i \<and>
          child_list (di_tree d) i = child_list (di_tree d') i \<and> record_at d i = record_at d' i) \<and>
     record_count d = record_count d' \<and> di_meta d = di_meta d' \<and> di_checksum d = di_checksum d'"

text \<open>
  C17: the loader that maps a base and the one that copies it to the heap accept the same
  files, and then their trees have the same slots, the same child list for every slot, the same
  records with their name offsets, and the same metadata: the bitmap, the row order check and the
  backward parent links do the work of the marking walk and the rebuilt child arrays.
\<close>

theorem loaders_agree:
  "case (decode_disk_index_with b vol True, decode_disk_index_with b vol False) of
     (Ret m, Ret d) \<Rightarrow> same_index m d
   | (Err _, Err _) \<Rightarrow> True
   | _ \<Rightarrow> False"
proof -
  have iff: "(\<exists>m. decode_disk_index_with b vol True = Ret m) \<longleftrightarrow> (\<exists>d. decode_disk_index_with b vol False = Ret d)"
    by (auto simp: decode_with_Ret)
  have same: "same_index m d"
    if m0: "decode_disk_index_with b vol True = Ret m" and d0: "decode_disk_index_with b vol False = Ret d" for m d
  proof -
    obtain h checksum pool meta where d: "read_index_header b vol = Ret (h, checksum)"
        "cache_range b (ih_pool h) (ih_pool_len h) = Ret pool" "body_ok b h pool vol meta"
        "d = \<lparr>di_tree = rebuild_child_arrays (heap_tree vol (file_slots b h pool)),
              di_records = Some (file_records b h pool), di_meta = meta, di_checksum = checksum\<rparr>"
      using d0 by (auto simp: decode_with_Ret)
    have m: "m = \<lparr>di_tree = mapped_tree vol (file_base b h pool), di_records = None, di_meta = meta, di_checksum = checksum\<rparr>"
      using m0 d(1,2,3) by (auto simp: decode_with_Ret body_ok_def)
    have recs: "record_at m i = record_at d i" for i
      by (simp add: record_at_def m d(4) mapped_access file_base_def byte_at_def file_records_def)
    have kids: "child_list (di_tree m) i = child_list (di_tree d) i" for i
      by (simp add: m d(4) mapped_access loaded_children [OF d(3)]) (simp add: file_base_def)
    show ?thesis
      using recs kids
      by (simp add: same_index_def m d(4) mapped_access rebuilt_access record_count_def)
        (simp add: file_base_def file_records_def mapped_tree_def base_count_def)
  qed
  have "decode_disk_index_with b vol mapped \<noteq> Panic" for mapped
    using decode_with_no_panic [of b vol mapped] by (simp add: no_panic_def)
  with iff same show ?thesis
    by (auto split: go.splits)
qed

text \<open>The used slots of a tree that are files (or directories), counted one by one.\<close>

definition slots_counted :: "size_tree \<Rightarrow> bool \<Rightarrow> nat" where
  "slots_counted t d = length (filter (\<lambda>i. counts_slot d (tree_slot_at t i)) [0..<node_count t])"

text \<open>What a tree that was loaded is known to be.\<close>

definition loaded_tree_ok :: "decoded_index \<Rightarrow> bool" where
  "loaded_tree_ok d \<longleftrightarrow> (let t = di_tree d in
     disk_tree_ok t True \<and> (\<forall>i<node_count t. ts_used (tree_slot_at t i)) \<and> links_ok t \<and>
     (\<forall>p<node_count t. child_list t p = filter (\<lambda>i. par t i = p) [1..<node_count t]) \<and>
     unat (im_file_count (di_meta d)) = slots_counted t False \<and> unat (im_dir_count (di_meta d)) = slots_counted t True)"

lemma links_of_children:
  assumes "\<And>p. child_list t p = (if p < node_count t then filter (\<lambda>i. par t i = p) [1..<node_count t] else [])"
    and "st_base t = None \<Longrightarrow> length (st_children t) = node_count t"
  shows "links_ok t"
  using assms(2) by (auto simp: links_ok_def assms(1) tree_edge_def tree_valid_def tree_is_dir_def Suc_le_eq)

lemma meta_counts:
  assumes "read_index_meta b = Ret meta" "128 \<le> length b"
  shows "im_file_count meta = le_word (take 8 (drop 32 b))" "im_dir_count meta = le_word (take 8 (drop 40 b))"
  using assms by (auto simp: read_index_meta_def get64_def le_at_def)

lemma fold_unchanged: "fold (\<lambda>i n. n) xs k = k"
  by (induction xs) simp_all

lemma count_used_mapped:
  assumes "body_ok b h pool vol meta" "128 \<le> length b"
  shows "count_used (mapped_tree vol (file_base b h pool)) False = im_file_count meta"
    "count_used (mapped_tree vol (file_base b h pool)) True = im_dir_count meta"
  using meta_counts [of b meta] assms
  by (simp_all add: count_used_def mapped_tree_def heap_tree_def base_used_count_def file_base_def body_ok_def
      take_within [of _ _ 128 0, simplified] drop_take fold_unchanged)

lemma nat32_bound: "nat32 b k = Ret m \<Longrightarrow> m < 2 ^ 32"
  using unsigned_less [where 'a = nat and 'b = 32] by (auto simp: nat32_def go_bind_Ret_iff)

lemma header_count_bound:
  assumes "read_index_header b vol = Ret (h, checksum)"
  shows "ih_count h < 2 ^ 32"
  using assms unfolding read_index_header_def Let_def
  by (auto simp: go_bind_Ret_iff dest!: nat32_bound split: if_splits)

lemma loaded_index_ok:
  assumes "decode_disk_index_with b vol mapped = Ret d"
  shows "loaded_tree_ok d \<and> st_volume (di_tree d) = vol"
proof -
  obtain h checksum pool meta where d: "read_index_header b vol = Ret (h, checksum)" "body_ok b h pool vol meta"
      "d = (if mapped
            then \<lparr>di_tree = mapped_tree vol (file_base b h pool), di_records = None, di_meta = meta, di_checksum = checksum\<rparr>
            else \<lparr>di_tree = rebuild_child_arrays (heap_tree vol (file_slots b h pool)),
                  di_records = Some (file_records b h pool), di_meta = meta, di_checksum = checksum\<rparr>)"
    using assms by (auto simp: decode_with_Ret)
  have b: "128 \<le> length b" using read_header_layout [OF d(1)] by (simp add: file_layout_def)
  have n: "node_count (di_tree d) = ih_count h"
    and slot: "tree_slot_at (di_tree d) i = tree_slot_at (heap_tree vol (file_slots b h pool)) i" for i
    by (simp_all add: d(3) mapped_access rebuilt_access file_base_def)
  have used: "ts_used (tree_slot_at (di_tree d) i)" if "i < ih_count h" for i
    using d(2) that by (simp add: slot body_ok_def file_names_ok_def)
  have "disk_tree_ok (heap_tree vol (file_slots b h pool)) True" using d(2) by (simp add: body_ok_def)
  moreover have "disk_tree_ok (di_tree d) True = disk_tree_ok (heap_tree vol (file_slots b h pool)) True"
    unfolding disk_tree_ok_def bad_root_def entry_fits_def grounded_def tree_is_dir_def by (simp add: n slot)
  moreover have kids: "child_list (di_tree d) p =
      (if p < ih_count h then filter (\<lambda>i. par (di_tree d) i = p) [1..<ih_count h] else [])" for p
  proof -
    have "child_list (di_tree d) p = (if p < ih_count h then filter (\<lambda>i. file_parent b h i = p) [1..<ih_count h] else [])"
      by (simp add: d(3) mapped_access loaded_children [OF d(2)] file_base_def)
    moreover have "filter (\<lambda>i. file_parent b h i = p) [1..<ih_count h] = filter (\<lambda>i. par (di_tree d) i = p) [1..<ih_count h]"
      by (intro filter_cong) (auto simp: slot)
    ultimately show ?thesis by simp
  qed
  moreover have "links_ok (di_tree d)"
  proof (rule links_of_children)
    show "child_list (di_tree d) p =
        (if p < node_count (di_tree d) then filter (\<lambda>i. par (di_tree d) i = p) [1..<node_count (di_tree d)] else [])" for p
      unfolding n by (rule kids)
    show "length (st_children (di_tree d)) = node_count (di_tree d)" if "st_base (di_tree d) = None"
      using that n by (auto simp: d(3) mapped_access rebuild_child_arrays_def heap_tree_def Let_def split: if_splits)
  qed
  moreover have "unat (im_file_count (di_meta d)) = slots_counted (di_tree d) False"
    "unat (im_dir_count (di_meta d)) = slots_counted (di_tree d) True"
  proof -
    have "tree_slot_at (di_tree d) i = file_slots b h pool ! i" if "i < ih_count h" for i
      unfolding slot using that by (simp add: heap_tree_def tree_slot_at_def base_count_def node_count_def)
    note at = this
    have count: "slots_counted (di_tree d) dir = length (filter (counts_slot dir) (file_slots b h pool))" for dir
    proof -
      have "filter (counts_slot dir) (map ((!) (file_slots b h pool)) [0..<ih_count h]) =
          map ((!) (file_slots b h pool)) (filter (\<lambda>i. counts_slot dir (tree_slot_at (di_tree d) i)) [0..<ih_count h])"
        unfolding filter_map by (rule arg_cong [where f = "map _"], rule filter_cong) (auto simp: at)
      then show ?thesis using map_nth [of "file_slots b h pool"] by (simp add: slots_counted_def n length_file_slots)
    qed
    have small: "length (filter P [0..<ih_count h]) < 2 ^ 64" for P
      using le_less_trans [OF length_filter_le, of "[0..<ih_count h]" "2 ^ 64" P] header_count_bound [OF d(1)] by simp
    show "unat (im_file_count (di_meta d)) = slots_counted (di_tree d) False"
      "unat (im_dir_count (di_meta d)) = slots_counted (di_tree d) True"
      using d(2) count_slots [of b h pool] small
      by (auto simp: d(3) body_ok_def counts_ok_def count [unfolded d(3)] unsigned_of_nat take_bit_nat_eq_self)
  qed
  moreover have "st_volume (di_tree d) = vol"
    by (simp add: d(3) mapped_tree_def rebuild_child_arrays_def heap_tree_def Let_def)
  ultimately show ?thesis using used by (simp add: loaded_tree_ok_def n Let_def)
qed

text \<open>
  C16: a base that a loader accepts gives a well-formed tree: its root is a directory,
  every slot is used, has a name that is a single safe path component and hangs below a directory with
  a smaller index; the child list of every slot consists of exactly its children, in order; and the
  counts of the header are the numbers of the tree's slots that are files and directories.
\<close>

theorem decoded_index_ok:
  "case decode_disk_index_with b vol mapped of
     Ret d \<Rightarrow> loaded_tree_ok d \<and> st_volume (di_tree d) = vol
   | _ \<Rightarrow> True"
  using loaded_index_ok by (auto split: go.split)

end
