(* ===== verification/Index_Buffer.thy ===== *)
theory Index_Buffer
  imports Index_Encode Index_Accept
begin

text \<open>
  Buffers under construction: fields written at different places, arrays of integers, and the
  sections of a file behind its frame.
\<close>

section \<open>Arrays of fixed-width fields\<close>

context field_codec begin

definition arr :: "'v list \<Rightarrow> byte list" where
  "arr vs = concat (map enc vs)"

lemma arr_simps [simp]: "arr [] = []" "arr (v # vs) = enc v @ arr vs" "arr (vs @ ws) = arr vs @ arr ws"
  by (simp_all add: arr_def)

lemma length_arr [simp]: "length (arr vs) = width * length vs"
  by (induction vs) (simp_all add: length_enc)

lemma take_arr: "i < length vs \<Longrightarrow> take width (drop (i * width) (arr vs)) = enc (vs ! i)"
proof (induction vs arbitrary: i)
  case (Cons v vs)
  then show ?case by (cases i) (simp_all add: length_enc)
qed simp

lemma read_arr: "i < length vs \<Longrightarrow> dec (take width (drop (i * width) (arr vs))) = vs ! i"
  by (simp add: take_arr dec_enc)

lemma put_arr: "i < length vs \<Longrightarrow> put_at (arr vs) (i * width) (enc v) = arr (vs[i := v])"
proof (induction vs arbitrary: i)
  case (Cons u vs)
  show ?case
  proof (cases i)
    case 0
    then show ?thesis by (simp add: put_at_def length_enc)
  next
    case (Suc j)
    then have "put_at (arr vs) (j * width) (enc v) = arr (vs[j := v])" using Cons by simp
    moreover have "j * width + width \<le> width * length vs"
      using Cons.prems Suc mult_le_mono2 [of "Suc j" "length vs" width] by (simp add: mult.commute add.commute)
    ultimately show ?thesis using Suc by (simp add: put_at_def length_enc add.commute [of width])
  qed
qed simp

end

section \<open>Writing inside a buffer\<close>

lemma put_at_mid:
  assumes "length pre \<le> off" "off + length v \<le> length pre + length mid"
  shows "put_at (pre @ mid @ post) off v = pre @ put_at mid (off - length pre) v @ post"
  using assms by (simp add: put_at_def)

lemma put_at_whole: "length v = length mid \<Longrightarrow> put_at mid 0 v = v"
  by (simp add: put_at_def)

lemma take_drop_mid:
  "length pre \<le> off \<Longrightarrow> off + k \<le> length pre + length mid \<Longrightarrow>
   take k (drop off (pre @ mid @ post)) = take k (drop (off - length pre) mid)"
  by simp

lemma cache_put_Ret: "off + length v \<le> length b \<Longrightarrow> cache_put off v b = Ret (put_at b off v)"
  by (simp add: cache_put_def)

section \<open>The header fields\<close>

definition apart :: "nat \<times> byte list \<Rightarrow> nat \<times> byte list \<Rightarrow> bool" where
  "apart f g \<longleftrightarrow> fst f + length (snd f) \<le> fst g \<or> fst g + length (snd g) \<le> fst f"

definition reads :: "byte list \<Rightarrow> nat \<times> byte list \<Rightarrow> bool" where
  "reads b f \<longleftrightarrow> fst f + length (snd f) \<le> length b \<and> take (length (snd f)) (drop (fst f) b) = snd f"

lemma reads_put_same: "off + length v \<le> length b \<Longrightarrow> reads (put_at b off v) (off, v)"
  by (simp add: reads_def put_at_same)

lemma reads_put_other: "reads b f \<Longrightarrow> apart f (off, v) \<Longrightarrow> off + length v \<le> length b \<Longrightarrow> reads (put_at b off v) f"
  by (auto simp: reads_def apart_def put_at_other)

lemma put_fields_Ret:
  assumes "\<forall>f \<in> set fs. fst f + length (snd f) \<le> length b" "sorted_wrt apart fs"
  shows "\<exists>b'. put_fields fs b = Ret b' \<and> length b' = length b \<and> (\<forall>f \<in> set fs. reads b' f) \<and>
    (\<forall>g. (\<forall>f \<in> set fs. apart g f) \<longrightarrow> reads b g \<longrightarrow> reads b' g)"
  using assms
proof (induction fs arbitrary: b)
  case (Cons f fs)
  obtain off v where f: "f = (off, v)" by (cases f)
  have fit: "off + length v \<le> length b" using Cons.prems(1) f by simp
  obtain b' where b': "put_fields fs (put_at b off v) = Ret b'" "length b' = length b" "\<forall>f \<in> set fs. reads b' f"
    "\<And>g. (\<forall>f \<in> set fs. apart g f) \<Longrightarrow> reads (put_at b off v) g \<Longrightarrow> reads b' g"
    using Cons.IH [of "put_at b off v"] Cons.prems by auto
  have "reads b' f"
    using b'(4) [of f] Cons.prems(2) reads_put_same [OF fit] by (simp add: f)
  moreover have "reads b' g" if "\<forall>f \<in> set (f # fs). apart g f" "reads b g" for g
    using that b'(4) [of g] reads_put_other [OF that(2) _ fit] by (simp add: f)
  ultimately show ?case using b' by (auto simp: f cache_put_Ret [OF fit])
qed simp

text \<open>The space behind the frame is still zero.\<close>

definition frame_of :: "volume_id \<Rightarrow> index_meta \<Rightarrow> byte list \<Rightarrow> nat \<Rightarrow> byte list \<Rightarrow> bool" where
  "frame_of v meta pool n b \<longleftrightarrow>
     (\<forall>f \<in> set (header_fields v meta pool n (index_layout_of v pool n)). reads b f)"

lemma align8_bounds: "v \<le> align8 v" "align8 v < v + 8" "align8 v mod 8 = 0"
proof -
  have "(v + 7) div 8 * 8 + (v + 7) mod 8 = v + 7" by (rule div_mult_mod_eq)
  moreover have "(v + 7) mod 8 < 8" by simp
  ultimately show "v \<le> align8 v" "align8 v < v + 8" unfolding align8_def by linarith+
  show "align8 v mod 8 = 0" by (simp add: align8_def)
qed

lemma layout_facts:
  "128 + length (vol_mount v) + length (vol_label v) \<le> il_pool (index_layout_of v pool n)"
  "il_pool (index_layout_of v pool n) + length pool \<le> il_entries (index_layout_of v pool n)"
  "il_entries (index_layout_of v pool n) mod 8 = 0"
  "il_starts (index_layout_of v pool n) = il_entries (index_layout_of v pool n) + n * 24"
  "il_children (index_layout_of v pool n) = il_starts (index_layout_of v pool n) + (n + 1) * 4"
  "il_length (index_layout_of v pool n) = il_children (index_layout_of v pool n) + (n - 1) * 4"
  by (simp_all add: index_layout_of_def Let_def align8_bounds)

lemma reads_zeros: "reads (replicate m 0) (off, replicate k 0) \<longleftrightarrow> off + k \<le> m"
  by (auto simp: reads_def)

lemma allocate_Ret:
  assumes "il_length (index_layout_of v pool n) \<le> 0xffffffff"
  shows "\<exists>b. allocate_disk_index v meta pool n = Ret (b, index_layout_of v pool n) \<and>
    length b = il_length (index_layout_of v pool n) \<and> frame_of v meta pool n b \<and>
    reads b (il_entries (index_layout_of v pool n),
      replicate (il_length (index_layout_of v pool n) - il_entries (index_layout_of v pool n)) 0)"
proof -
  define l where "l = index_layout_of v pool n"
  note facts = layout_facts [of v pool n, folded l_def]
  define fs where "fs = header_fields v meta pool n l"
  have "\<forall>f \<in> set fs. fst f + length (snd f) \<le> il_entries l"
    using facts by (auto simp: fs_def header_fields_def nat_field_def word_field_def)
  then have fit: "\<forall>f \<in> set fs. fst f + length (snd f) \<le> length (replicate (il_length l) (0 :: byte))"
    and tail: "\<forall>f \<in> set fs. apart (il_entries l, replicate (il_length l - il_entries l) 0) f"
    using facts by (auto simp: apart_def)
  have sep: "sorted_wrt apart fs"
    using facts by (simp add: fs_def header_fields_def nat_field_def word_field_def apart_def)
  from put_fields_Ret [OF fit sep] obtain b where b: "put_fields fs (replicate (il_length l) 0) = Ret b"
    "length b = il_length l" "\<forall>f \<in> set fs. reads b f"
    "reads b (il_entries l, replicate (il_length l - il_entries l) 0)"
    using tail facts by (auto simp: reads_zeros)
  then show ?thesis
    using assms by (auto simp: allocate_disk_index_def frame_of_def Let_def fs_def simp flip: l_def)
qed

section \<open>A record\<close>

definition record_bytes :: "tree_slot \<Rightarrow> u32 \<Rightarrow> byte list" where
  "record_bytes e off =
    put_le 4 (record_bits e) @ put_le 4 off @ put_le 8 (ts_size e) @ put_le 4 (ucast (ts_mtime e) :: u32) @
    put_le 4 (ucast (ts_files e) :: u32)"

lemma length_record_bytes [simp]: "length (record_bytes e off) = 24"
  by (simp add: record_bytes_def)

lemma put_put: "off + length v + length w \<le> length b \<Longrightarrow> put_at (put_at b off v) (off + length v) w = put_at b off (v @ w)"
  by (simp add: put_at_def ac_simps)

lemma cache_write_record_Ret:
  assumes "at + 24 \<le> length b"
  shows "cache_write_record at e off b = Ret (put_at b at (record_bytes e off))"
proof -
  have "put_at (put_at (put_at (put_at (put_at b at (put_le 4 (record_bits e))) (at + 4) (put_le 4 off)) (at + 8) (put_le 8 (ts_size e)))
      (at + 16) (put_le 4 (ucast (ts_mtime e) :: u32))) (at + 20) (put_le 4 (ucast (ts_files e) :: u32)) = put_at b at (record_bytes e off)"
    using assms put_put [of at "put_le 4 (record_bits e)" "put_le 4 off" b]
      put_put [of at "put_le 4 (record_bits e) @ put_le 4 off" "put_le 8 (ts_size e)" b]
      put_put [of at "put_le 4 (record_bits e) @ put_le 4 off @ put_le 8 (ts_size e)" "put_le 4 (ucast (ts_mtime e) :: u32)" b]
      put_put [of at "put_le 4 (record_bits e) @ put_le 4 off @ put_le 8 (ts_size e) @ put_le 4 (ucast (ts_mtime e) :: u32)"
        "put_le 4 (ucast (ts_files e) :: u32)" b]
    by (simp add: record_bytes_def add.assoc)
  with assms show ?thesis
    by (simp add: cache_write_record_def cache_put32_def cache_put64_def cache_put_def)
qed

lemma bit_cache_bits:
  "bit cache_parent_mask i \<longleftrightarrow> i < 30" "bit cache_used_bit i \<longleftrightarrow> i = 30" "bit cache_dir_bit i \<longleftrightarrow> i = 31"
proof -
  have m: "cache_parent_mask = mask 30" and u: "cache_used_bit = push_bit 30 1" and d: "cache_dir_bit = push_bit 31 1"
    by (simp_all add: cache_parent_mask_def cache_used_bit_def cache_dir_bit_def push_bit_eq_mult mask_eq_exp_minus_1)
  show "bit cache_parent_mask i \<longleftrightarrow> i < 30" unfolding m bit_mask_iff by auto
  show "bit cache_used_bit i \<longleftrightarrow> i = 30" unfolding u bit_push_bit_iff bit_1_iff by auto
  show "bit cache_dir_bit i \<longleftrightarrow> i = 31" unfolding d bit_push_bit_iff bit_1_iff by auto
qed

lemma word_and_bit: "w AND cache_used_bit \<noteq> 0 \<longleftrightarrow> bit w 30" "w AND cache_dir_bit \<noteq> 0 \<longleftrightarrow> bit w 31"
  using bit_iff_and_push_bit_not_eq_0 [of w 30] bit_iff_and_push_bit_not_eq_0 [of w 31]
  by (simp_all add: cache_used_bit_def cache_dir_bit_def push_bit_eq_mult)

lemma mask30: "unat cache_parent_mask = 2 ^ 30 - 1"
  by (simp add: cache_parent_mask_def)

lemma parent_word_bit:
  assumes "p \<le> unat cache_parent_mask"
  shows "bit (word_of_nat p :: u32) i \<longleftrightarrow> i < 30 \<and> bit p i"
proof -
  have "p < 2 ^ 30" using assms by (simp add: mask30)
  then have "take_bit 30 p = p" by (simp add: take_bit_nat_eq_self)
  then have "bit p i \<longleftrightarrow> i < 30 \<and> bit p i" by (metis bit_take_bit_iff)
  then show ?thesis by (auto simp: bit_of_nat_iff)
qed

lemma record_bits_parent:
  assumes "ts_parent e \<le> unat cache_parent_mask"
  shows "record_parent (record_bits e) = ts_parent e"
proof -
  have "record_bits e AND cache_parent_mask = (word_of_nat (ts_parent e) :: u32)"
    by (rule bit_word_eqI)
      (auto simp: record_bits_def Let_def bit_and_iff bit_or_iff bit_cache_bits parent_word_bit [OF assms])
  moreover have "ts_parent e < 2 ^ 32" using assms by (simp add: mask30)
  ultimately show ?thesis by (simp add: record_parent_def unat_of_nat)
qed

lemma record_bits_flags:
  assumes "ts_parent e \<le> unat cache_parent_mask"
  shows "record_bits e AND cache_used_bit \<noteq> 0 \<longleftrightarrow> ts_used e" "record_bits e AND cache_dir_bit \<noteq> 0 \<longleftrightarrow> ts_is_dir e"
  unfolding word_and_bit
  by (auto simp: record_bits_def Let_def bit_or_iff bit_cache_bits parent_word_bit [OF assms])

lemma ucast_narrow: "w \<le> (0xffffffff :: u64) \<Longrightarrow> ucast (ucast w :: u32) = w"
proof -
  assume "w \<le> 0xffffffff"
  then have "unat w < 2 ^ 32" by (simp add: word_le_nat_alt)
  then show ?thesis
    by (intro word_unat_eq_iff [THEN iffD2]) (simp add: unsigned_ucast_eq unsigned_take_bit_eq take_bit_nat_eq_self)
qed

text \<open>A slot that fits reads back from its record.\<close>

lemma record_slot_bits:
  assumes "fits_index e"
  shows "record_slot (record_bits e) (ts_name e) (ts_size e) (ucast (ts_mtime e)) (ucast (ts_files e)) = e"
  using assms record_bits_parent [of e] record_bits_flags [of e]
  by (cases e) (simp add: record_slot_def fits_index_def ucast_narrow not_less)

end
