(* ===== verification/Index_Stored.thy ===== *)
theory Index_Stored
  imports Index_Buffer
begin

text \<open>
  The content of a file as its writer leaves it, and that the loaders read it back.
\<close>

section \<open>The name pool\<close>

definition interned :: "intern_state \<Rightarrow> bool" where
  "interned st \<longleftrightarrow> (\<forall>name off. in_names st name = Some off \<longrightarrow> pool_name (in_pool st) (unat off) = Ret name)"

definition storable_name :: "string \<Rightarrow> bool" where
  "storable_name name \<longleftrightarrow> length name \<le> 65535 \<and> utf8_valid name"

lemma length_field:
  assumes "n \<le> 65535"
  shows "[word_of_nat n, word_of_nat (n div 256)] = put_le 2 (word_of_nat n :: u16)"
proof -
  have "word_of_nat n = (ucast (word_of_nat n :: u16) :: byte)"
    by (rule word_unat_eq_iff [THEN iffD2]) (simp add: unsigned_ucast_eq unsigned_of_nat take_bit_eq_mod mod_mod_cancel)
  moreover have "word_of_nat (n div 256) = (ucast (drop_bit 8 (word_of_nat n :: u16)) :: byte)"
  proof (rule word_unat_eq_iff [THEN iffD2])
    have "n div 256 < 256" using assms by auto
    then show "unat (word_of_nat (n div 256) :: byte) = unat (ucast (drop_bit 8 (word_of_nat n :: u16)) :: byte)"
      using assms by (simp add: unsigned_ucast_eq unat_of_nat take_bit_eq_mod drop_bit_eq_div unat_div_distrib)
  qed
  ultimately show ?thesis by (simp add: numeral_2_eq_2)
qed

lemma pool_name_new:
  assumes "storable_name name"
  shows "pool_name (pool @ [word_of_nat (length name), word_of_nat (length name div 256)] @ bytes_of_string name) (length pool) = Ret name"
proof -
  have "(le_word (put_le 2 (word_of_nat (length name) :: u16)) :: u16) = word_of_nat (length name)"
    by (rule le_word_put_le) simp
  then have "(le_word [word_of_nat (length name), word_of_nat (length name div 256)] :: u16) = word_of_nat (length name)"
    using length_field [of "length name"] assms by (simp add: storable_name_def)
  moreover have "unat (word_of_nat (length name) :: u16) = length name"
    using assms by (simp add: unat_of_nat storable_name_def)
  ultimately show ?thesis
    using assms by (simp add: pool_name_Ret Let_def storable_name_def)
qed

lemma pool_name_append: "pool_name pool off = Ret name \<Longrightarrow> pool_name (pool @ more_bytes) off = Ret name"
  by (auto simp: pool_name_Ret Let_def)

lemma intern_step:
  assumes "interned st" "storable_name name" "cache_intern name st = (off, st')" "length (in_pool st') \<le> 0xffffffff"
  shows "interned st' \<and> prefix (in_pool st) (in_pool st') \<and> pool_name (in_pool st') (unat off) = Ret name \<and>
    in_names st' name = Some off \<and> (\<forall>x y. in_names st x = Some y \<longrightarrow> in_names st' x = Some y)"
proof (cases "in_names st name")
  case None
  define pool where "pool = in_pool st"
  have st': "off = word_of_nat (length pool)"
      "in_pool st' = pool @ [word_of_nat (length name), word_of_nat (length name div 256)] @ bytes_of_string name"
      "in_names st' = (in_names st)(name \<mapsto> off)"
    using assms(3) None by (auto simp: cache_intern_def pool_def Let_def)
  have "unat off = length pool" using assms(4) st'(1,2) by (simp add: unat_of_nat)
  then have new: "pool_name (in_pool st') (unat off) = Ret name" using pool_name_new [OF assms(2)] st'(2) by simp
  have "interned st'"
    using assms(1) new pool_name_append by (auto simp: interned_def st' pool_def)
  then show ?thesis using new None by (auto simp: st' pool_def)
next
  case (Some off')
  then show ?thesis using assms by (auto simp: cache_intern_def interned_def)
qed

lemma intern_all_prefix: "intern_all names st = (offs, st') \<Longrightarrow> prefix (in_pool st) (in_pool st') \<and> length offs = length names"
proof (induction names arbitrary: st offs)
  case (Cons name names)
  then show ?case
    by (fastforce simp: cache_intern_def Let_def prefix_def split: prod.splits option.splits)
qed simp

lemma intern_all_names:
  assumes "interned st" "\<forall>name \<in> set names. storable_name name" "intern_all names st = (offs, st')"
    "length (in_pool st') \<le> 0xffffffff"
  shows "interned st' \<and> (\<forall>i<length names. pool_name (in_pool st') (unat (offs ! i)) = Ret (names ! i))"
  using assms
proof (induction names arbitrary: st offs)
  case (Cons name names)
  obtain off st1 offs1 where step: "cache_intern name st = (off, st1)" "intern_all names st1 = (offs1, st')" "offs = off # offs1"
    using Cons.prems(3) by (auto simp: Let_def split: prod.splits)
  have pre: "prefix (in_pool st1) (in_pool st')" using intern_all_prefix [OF step(2)] by simp
  then have "length (in_pool st1) \<le> 0xffffffff" using Cons.prems(4) prefix_length_le by fastforce
  then have one: "interned st1" "pool_name (in_pool st1) (unat off) = Ret name"
    using intern_step [OF Cons.prems(1) _ step(1)] Cons.prems(2) by auto
  have "pool_name (in_pool st') (unat off) = Ret name"
    using one(2) pre pool_name_append by (auto simp: prefix_def)
  moreover have "interned st' \<and> (\<forall>i<length names. pool_name (in_pool st') (unat (offs1 ! i)) = Ret (names ! i))"
    using Cons.IH [OF one(1) _ step(2)] Cons.prems(2,4) by simp
  ultimately show ?case by (auto simp: step(3) nth_Cons split: nat.splits)
qed simp

lemma interned_no_names: "interned no_names"
  by (simp add: interned_def no_names_def)

section \<open>The sections of a written file\<close>

definition starts_of :: "nat list list \<Rightarrow> nat list" where
  "starts_of rows = map (\<lambda>i. sum_list (map length (take i rows))) [0..<Suc (length rows)]"

definition stored :: "volume_id \<Rightarrow> index_meta \<Rightarrow> tree_slot list \<Rightarrow> nat list list \<Rightarrow> byte list \<Rightarrow> bool" where
  "stored v meta es rows b \<longleftrightarrow>
     (case intern_all (map ts_name es) no_names of (offs, names) \<Rightarrow>
        let n = length es; l = index_layout_of v (in_pool names) n in
        il_length l \<le> 0xffffffff \<and> length b = il_length l \<and> frame_of v meta (in_pool names) n b \<and>
        reads b (il_entries l, concat (map (\<lambda>(e, off). record_bytes e off) (zip es offs))) \<and>
        reads b (il_starts l, le32.arr (map word_of_nat (starts_of rows))) \<and>
        reads b (il_children l, le32.arr (map word_of_nat (concat rows))))"

lemma take_concat_width:
  "\<forall>x \<in> set xs. length (f x) = w \<Longrightarrow> i < length xs \<Longrightarrow> take w (drop (i * w) (concat (map f xs))) = f (xs ! i)"
proof (induction xs arbitrary: i)
  case (Cons x xs)
  then show ?case by (cases i) simp_all
qed simp

lemma length_concat_width: "\<forall>x \<in> set xs. length (f x) = w \<Longrightarrow> length (concat (map f xs)) = length xs * w"
  by (induction xs) simp_all

lemma reads_nat: "reads b (nat_field off k) \<Longrightarrow> k \<le> 0xffffffff \<Longrightarrow> nat32 b off = Ret k"
  by (simp add: reads_def nat_field_def nat32_def get32_def le_at_def le_word_put_le unat_of_nat)

lemma reads_word: "reads b (word_field off w) \<Longrightarrow> get64 b off = Ret w"
  by (simp add: reads_def word_field_def get64_def le_at_def le_word_put_le)

lemma reads_append: "reads b (off, x @ y) \<longleftrightarrow> reads b (off, x) \<and> reads b (off + length x, y)"
proof -
  have "take (length x + length y) (drop off b) = take (length x) (drop off b) @ take (length y) (drop (off + length x) b)"
    by (simp add: take_add add.commute)
  moreover have "length (take (length x) (drop off b)) = length x" if "off + length x \<le> length b"
    using that by simp
  ultimately show ?thesis
    by (cases "off + (length x + length y) \<le> length b") (auto simp: reads_def add.assoc)
qed

lemma reads_part:
  assumes "reads b (off, x)" "j + k \<le> length x"
  shows "take k (drop (off + j) b) = take k (drop j x)"
proof -
  have "take k (drop j (take (length x) (drop off b))) = take k (drop (off + j) b)"
    by (rule take_within) (use assms(2) in simp)
  then show ?thesis using assms(1) by (simp add: reads_def)
qed

lemma apart_checksum:
  assumes "f \<in> set (header_fields v meta pool n (index_layout_of v pool n))"
  shows "apart f (72, put_le 8 (c :: u64))"
  using assms layout_facts [of v pool n]
  by (auto simp: header_fields_def nat_field_def word_field_def apart_def)

lemma stored_put_checksum:
  assumes "stored v meta es rows b"
  shows "stored v meta es rows (put_at b 72 (put_le 8 (c :: u64)))"
proof -
  obtain offs names where names: "intern_all (map ts_name es) no_names = (offs, names)" by fastforce
  let ?l = "index_layout_of v (in_pool names) (length es)"
  note facts = layout_facts [of v "in_pool names" "length es"]
  have fit: "72 + length (put_le 8 c) \<le> length b"
    using assms facts by (simp add: stored_def names Let_def)
  have keep: "reads (put_at b 72 (put_le 8 c)) f" if "reads b f" "apart f (72, put_le 8 c)" for f
    using reads_put_other [OF that fit] .
  have far: "apart (off, x) (72, put_le 8 c)" if "il_entries ?l \<le> off" for off x
    using that facts by (simp add: apart_def)
  show ?thesis
    using assms keep apart_checksum far facts
    by (simp add: stored_def names Let_def frame_of_def)
qed

section \<open>The checksum\<close>

definition masked :: "byte list \<Rightarrow> nat \<Rightarrow> byte list" where
  "masked b off = map (\<lambda>i. if off \<le> i \<and> i < off + 8 then 0 else b ! i) [0..<length b]"

lemma checksum_masked: "cache_checksum b off = fold (\<lambda>v h. (h XOR ucast v) * 0x100000001b3) (masked b off) 0xcbf29ce484222325"
proof -
  have "masked b off = map (\<lambda>(i, v). if off \<le> i \<and> i < off + 8 then 0 else v) (enumerate 0 b)"
    by (rule nth_equalityI) (auto simp: masked_def nth_enumerate_eq)
  moreover have "checksum_step off = (\<lambda>iv h. (h XOR ucast (case iv of (i, v) \<Rightarrow> if off \<le> i \<and> i < off + 8 then 0 else v)) * 0x100000001b3)"
    by (intro ext) (simp add: checksum_step_def split: prod.splits)
  ultimately show ?thesis
    by (simp add: cache_checksum_def fold_map comp_def)
qed

lemma checksum_put:
  assumes "off + 8 \<le> length b" "length v = 8"
  shows "cache_checksum (put_at b off v) off = cache_checksum b off"
proof -
  have "masked (put_at b off v) off = masked b off"
    using assms by (auto simp: masked_def nth_put_at)
  then show ?thesis by (simp add: checksum_masked)
qed

lemma seal_Ret:
  assumes "stored v meta es rows b0"
  shows "\<exists>b. seal_disk_index b0 = Ret b \<and> stored v meta es rows b \<and>
    (get64 b 72 :: u64 index_go) = Ret (cache_checksum b 72)"
proof -
  have len: "80 \<le> length b0"
  proof -
    obtain offs names where names: "intern_all (map ts_name es) no_names = (offs, names)" by fastforce
    show ?thesis using assms layout_facts [of v "in_pool names" "length es"] by (simp add: stored_def names Let_def)
  qed
  define c where "c = cache_checksum b0 72"
  define b where "b = put_at b0 72 (put_le 8 c)"
  have "cache_checksum b 72 = c" using len by (simp add: b_def checksum_put c_def)
  moreover have "(get64 b 72 :: u64 index_go) = Ret c"
    using len put_at_same [of 72 "put_le 8 c" b0] by (simp add: get64_def le_at_def b_def le_word_put_le)
  moreover have "seal_disk_index b0 = Ret b" using len by (simp add: seal_disk_index_def cache_put64_def cache_put_def b_def c_def)
  ultimately show ?thesis using stored_put_checksum [OF assms] by (auto simp: b_def)
qed

end
