(* ===== verification/Index_Reload.thy ===== *)
theory Index_Reload
  imports Index_Stored
begin

text \<open>
  Both loaders read back what a writer stored.
\<close>

section \<open>Rows\<close>

definition rows_good :: "tree_slot list \<Rightarrow> nat list list \<Rightarrow> bool" where
  "rows_good es rows \<longleftrightarrow> length rows = length es \<and> distinct (concat rows) \<and> set (concat rows) = {1..<length es} \<and>
     (\<forall>i<length es. \<forall>c \<in> set (rows ! i). ts_parent (es ! c) = i)"

definition row_start :: "nat list list \<Rightarrow> nat \<Rightarrow> nat" where
  "row_start rows i = sum_list (map length (take i rows))"

lemma length_starts_of [simp]: "length (starts_of rows) = Suc (length rows)"
  by (simp add: starts_of_def)

lemma nth_starts_of: "i \<le> length rows \<Longrightarrow> starts_of rows ! i = row_start rows i"
  unfolding starts_of_def row_start_def by (subst nth_map) (auto simp del: upt_Suc)

lemma row_start_Suc: "i < length rows \<Longrightarrow> row_start rows (Suc i) = row_start rows i + length (rows ! i)"
  by (simp add: row_start_def take_Suc_conv_app_nth)

lemma row_start_length: "row_start rows (length rows) = length (concat rows)"
  by (simp add: row_start_def length_concat)

lemma row_start_mono: "i \<le> j \<Longrightarrow> row_start rows i \<le> row_start rows j"
  unfolding row_start_def by (metis le_add1 le_Suc_ex map_append sum_list_append take_add)

lemma row_start_le: "row_start rows i \<le> length (concat rows)"
proof -
  have "row_start rows i \<le> row_start rows (max i (length rows))" by (rule row_start_mono) simp
  also have "\<dots> = length (concat rows)" by (simp add: row_start_def length_concat max_def)
  finally show ?thesis .
qed

lemma concat_row:
  "i < length rows \<Longrightarrow> r < length (rows ! i) \<Longrightarrow> concat rows ! (row_start rows i + r) = rows ! i ! r"
proof (induction rows arbitrary: i)
  case (Cons row rows)
  then show ?case by (cases i) (simp_all add: row_start_def nth_append)
qed simp

lemma row_slice: "i < length rows \<Longrightarrow> map ((!) (concat rows)) [row_start rows i..<row_start rows (Suc i)] = rows ! i"
  by (rule nth_equalityI) (simp_all add: row_start_Suc concat_row)

section \<open>A stored file and its header\<close>

definition stored_header :: "volume_id \<Rightarrow> byte list \<Rightarrow> nat \<Rightarrow> index_header" where
  "stored_header v pool n =
    (let l = index_layout_of v pool n in
     \<lparr>ih_count = n, ih_pool_len = length pool, ih_child_len = n - 1,
      ih_labels_len = length (vol_mount v) + length (vol_label v), ih_pool = il_pool l, ih_entries = il_entries l,
      ih_starts = il_starts l, ih_children = il_children l\<rparr>)"

lemma sort_by_sorted: "sorted_wrt lt xs \<Longrightarrow> (\<And>x y. lt x y \<Longrightarrow> \<not> lt y x) \<Longrightarrow> sort_by lt xs = xs"
proof (induction xs)
  case (Cons x xs)
  then show ?case by (cases xs) (simp_all add: sort_by_def)
qed (simp add: sort_by_def)

lemma section_less_asym: "section_less s s' \<Longrightarrow> \<not> section_less s' s"
  by (auto simp: section_less_def split: if_splits)

lemma stored_layout:
  assumes "0 < n" "n \<le> unat cache_parent_mask + 1" "length b = il_length (index_layout_of v pool n)"
  shows "check_layout b (stored_header v pool n) = Ret ()"
proof -
  define l where "l = index_layout_of v pool n"
  define h where "h = stored_header v pool n"
  note facts = layout_facts [of v pool n, folded l_def]
  have h: "ih_count h = n" "ih_pool_len h = length pool" "ih_child_len h = n - 1"
    "ih_labels_len h = length (vol_mount v) + length (vol_label v)" "ih_pool h = il_pool l" "ih_entries h = il_entries l"
    "ih_starts h = il_starts l" "ih_children h = il_children l"
    by (simp_all add: h_def stored_header_def Let_def l_def)
  have "il_starts l mod 4 = 0" "il_children l mod 4 = 0"
    using facts(3,4,5) by presburger+
  moreover have "sorted_wrt section_less (index_sections h)"
  proof -
    have "0 < il_pool l" "il_pool l \<le> il_entries l" "il_entries l < il_starts l" "il_starts l < il_children l"
      "il_pool l = il_entries l \<Longrightarrow> length pool < n * 24"
      using facts(1,2,4,5) assms(1) by simp_all
    then show ?thesis by (auto simp: index_sections_def section_less_def h)
  qed
  then have "sort_by section_less (index_sections h) = index_sections h"
    by (rule sort_by_sorted) (rule section_less_asym)
  moreover have "check_sections b 0 (index_sections h) = Ret ()"
    using facts assms(1,3) by (simp add: index_sections_def h cache_range_def go_slice_def flip: l_def)
  ultimately show ?thesis
    using assms(1,2) facts(3) by (simp add: check_layout_def h flip: h_def)
qed

lemma bytes_of_string_append: "bytes_of_string (x @ y) = bytes_of_string x @ bytes_of_string y"
  by (simp add: bytes_of_string_def)

text \<open>What can be read of the header.\<close>

lemma frame_reads:
  assumes "frame_of v meta pool n b" "il_length (index_layout_of v pool n) \<le> 0xffffffff"
  shows "take 8 b = bytes_of_string ''QCIDXV07''" "nat32 b 8 = Ret 7" "nat32 b 12 = Ret n"
    "nat32 b 16 = Ret (length pool)" "nat32 b 20 = Ret (n - 1)" "nat32 b 24 = Ret (length (vol_mount v))"
    "nat32 b 28 = Ret (length (vol_label v))" "nat32 b 80 = Ret (il_pool (index_layout_of v pool n))"
    "nat32 b 84 = Ret (il_entries (index_layout_of v pool n))" "nat32 b 88 = Ret (il_starts (index_layout_of v pool n))"
    "nat32 b 92 = Ret (il_children (index_layout_of v pool n))"
    "read_index_meta b = Ret meta"
    "reads b (128, bytes_of_string (vol_mount v @ vol_label v))" "reads b (il_pool (index_layout_of v pool n), pool)"
proof -
  note facts = layout_facts [of v pool n]
  have field: "reads b f" if "f \<in> set (header_fields v meta pool n (index_layout_of v pool n))" for f
    using assms(1) that by (simp add: frame_of_def)
  have nat: "nat32 b off = Ret k"
    if "nat_field off k \<in> set (header_fields v meta pool n (index_layout_of v pool n))" "k \<le> 0xffffffff" for off k
    using reads_nat [OF field [OF that(1)] that(2)] .
  have word: "(get64 b off :: u64 index_go) = Ret w"
    if "word_field off w \<in> set (header_fields v meta pool n (index_layout_of v pool n))" for off w
    using reads_word [OF field [OF that]] .
  show "take 8 b = bytes_of_string ''QCIDXV07''"
    using field [of "(0, bytes_of_string ''QCIDXV07'')"] by (simp add: header_fields_def reads_def eval_nat_numeral)
  show "nat32 b 8 = Ret 7" "nat32 b 12 = Ret n" "nat32 b 16 = Ret (length pool)" "nat32 b 20 = Ret (n - 1)"
    "nat32 b 24 = Ret (length (vol_mount v))" "nat32 b 28 = Ret (length (vol_label v))"
    "nat32 b 80 = Ret (il_pool (index_layout_of v pool n))" "nat32 b 84 = Ret (il_entries (index_layout_of v pool n))"
    "nat32 b 88 = Ret (il_starts (index_layout_of v pool n))" "nat32 b 92 = Ret (il_children (index_layout_of v pool n))"
    using facts assms(2) by (auto intro!: nat simp: header_fields_def)
  have "(get64 b 32 :: u64 index_go) = Ret (im_file_count meta)" "(get64 b 40 :: u64 index_go) = Ret (im_dir_count meta)" "(get64 b 48 :: u64 index_go) = Ret (im_total_size meta)"
    "(get64 b 56 :: u64 index_go) = Ret (im_last_event meta)" "(get64 b 64 :: u64 index_go) = Ret (im_scanned_at meta)"
    by (auto intro!: word simp: header_fields_def)
  then show "read_index_meta b = Ret meta" by (simp add: read_index_meta_def)
  show "reads b (128, bytes_of_string (vol_mount v @ vol_label v))"
    using field [of "(128, bytes_of_string (vol_mount v))"] field [of "(128 + length (vol_mount v), bytes_of_string (vol_label v))"]
    by (simp add: bytes_of_string_append reads_append header_fields_def)
  show "reads b (il_pool (index_layout_of v pool n), pool)"
    by (rule field) (simp add: header_fields_def)
qed

lemma nat32_Ret_get32: "nat32 b off = Ret k \<longleftrightarrow> (\<exists>w. (get32 b off :: u32 index_go) = Ret w \<and> k = unat w)"
  by (auto simp: nat32_def go_bind_Ret_iff)

lemma stored_read_header:
  assumes "frame_of v meta pool n b" "il_length (index_layout_of v pool n) \<le> 0xffffffff"
    and "length b = il_length (index_layout_of v pool n)" "0 < n" "n \<le> unat cache_parent_mask + 1"
    and "utf8_valid (vol_mount v @ vol_label v)"
    and "(get64 b 72 :: u64 index_go) = Ret (cache_checksum b 72)" "cache_checksum b 72 \<noteq> 0"
  shows "read_index_header b v = Ret (stored_header v pool n, cache_checksum b 72)"
proof -
  note facts = layout_facts [of v pool n]
  note reads = frame_reads [OF assms(1,2)]
  have len: "128 \<le> length b" using facts assms(3) by simp
  have ver: "(get32 b 8 :: u32 index_go) = Ret 7"
  proof -
    obtain w where "(get32 b 8 :: u32 index_go) = Ret w" "unat w = 7" using reads(2) by (auto simp: nat32_Ret_get32)
    moreover have "unat (7 :: u32) = 7" by simp
    ultimately show ?thesis by (simp add: word_unat_eq_iff)
  qed
  have range: "cache_range b 128 (length (vol_mount v) + length (vol_label v)) = Ret (bytes_of_string (vol_mount v @ vol_label v))"
    using reads(13) by (simp add: cache_range_Ret reads_def)
  have "string_of_bytes (take (length (vol_mount v)) (bytes_of_string (vol_mount v @ vol_label v))) = vol_mount v"
    by (simp add: bytes_of_string_append)
  then have labels: "check_labels b v (length (vol_mount v)) (length (vol_label v)) = Ret ()"
    using assms(6) by (simp add: check_labels_def range)
  show ?thesis
    using len assms(7,8) labels stored_layout [OF assms(4,5,3)]
    by (simp add: read_index_header_def reads ver stored_header_def Let_def)
qed

section \<open>The body of a stored file\<close>

text \<open>What a writer had in its hands, without the layout of the file.\<close>

definition storable :: "volume_id \<Rightarrow> index_meta \<Rightarrow> tree_slot list \<Rightarrow> nat list list \<Rightarrow> bool" where
  "storable v meta es rows \<longleftrightarrow>
     disk_tree_ok (heap_tree v es) True \<and> (\<forall>e \<in> set es. ts_used e) \<and> rows_good es rows \<and>
     utf8_valid (vol_mount v @ vol_label v) \<and>
     im_file_count meta = word_of_nat (length (filter (counts_slot False) es)) \<and>
     im_dir_count meta = word_of_nat (length (filter (counts_slot True) es))"

lemma storable_facts:
  assumes "storable v meta es rows"
  shows "0 < length es" "length es \<le> unat cache_parent_mask + 1" "\<And>e. e \<in> set es \<Longrightarrow> fits_index e"
    "\<And>e. e \<in> set es \<Longrightarrow> storable_name (ts_name e)" "length (concat rows) = length es - 1" "length rows = length es"
proof -
  have ok: "disk_tree_ok (heap_tree v es) True" using assms by (simp add: storable_def)
  then show "0 < length es" "length es \<le> unat cache_parent_mask + 1"
    by (simp_all add: disk_tree_ok_def bad_root_def not_less)
  show fits: "fits_index e" if mem: "e \<in> set es" for e
  proof -
    obtain i where "i < length es" "es ! i = e" using mem by (auto simp: in_set_conv_nth)
    with ok show ?thesis by (auto simp: disk_tree_ok_def entry_fits_def)
  qed
  show "storable_name (ts_name e)" if "e \<in> set es" for e
    using fits [OF that] by (simp add: fits_index_def storable_name_def not_less)
  have good: "rows_good es rows" using assms by (simp add: storable_def)
  then have "length (concat rows) = card (set (concat rows))" by (metis distinct_card rows_good_def)
  then show "length (concat rows) = length es - 1" using good by (simp add: rows_good_def)
  show "length rows = length es" using good by (simp add: rows_good_def)
qed

lemma arr32_at:
  assumes "reads b (off, le32.arr ws)" "i < length ws"
  shows "u32n b (off + i * 4) = unat (ws ! i)"
proof -
  have "i * 4 + 4 \<le> length (le32.arr ws)" using assms(2) by simp
  then have "take 4 (drop (off + i * 4) b) = take 4 (drop (i * 4) (le32.arr ws))"
    by (rule reads_part [OF assms(1)])
  then show ?thesis using le32.read_arr [OF assms(2)] by (simp add: u32n_def)
qed

lemma nat_word32: "k \<le> unat cache_parent_mask + 1 \<Longrightarrow> unat (word_of_nat k :: u32) = k"
  by (simp add: unat_of_nat mask30)

lemma stored_rows:
  assumes "storable v meta es rows" "length b = il_length l" "l = index_layout_of v pool (length es)"
    and "reads b (il_starts l, le32.arr (map word_of_nat (starts_of rows)))"
    and "reads b (il_children l, le32.arr (map word_of_nat (concat rows)))"
  defines "h \<equiv> stored_header v pool (length es)"
  shows "i \<le> length es \<Longrightarrow> u32n b (ih_starts h + i * 4) = row_start rows i"
    and "i < length es \<Longrightarrow> row_kids b h i = rows ! i"
proof -
  note facts = storable_facts [OF assms(1)]
  have start: "u32n b (ih_starts h + i * 4) = row_start rows i" if "i \<le> length es" for i
  proof -
    have "row_start rows i \<le> unat cache_parent_mask + 1"
      using row_start_le [of rows i] facts(2,5) by simp
    then show ?thesis
      using arr32_at [OF assms(4), of i] that facts(6)
      by (simp add: h_def stored_header_def Let_def assms(3) nth_starts_of nat_word32 del: upt_Suc)
  qed
  then show "i \<le> length es \<Longrightarrow> u32n b (ih_starts h + i * 4) = row_start rows i" .
  have kid: "u32n b (ih_children h + j * 4) = concat rows ! j" if "j < length (concat rows)" for j
  proof -
    have "concat rows ! j \<in> set (concat rows)" using that by (rule nth_mem)
    moreover have "set (concat rows) = {1..<length es}" using assms(1) by (simp add: storable_def rows_good_def)
    ultimately have "concat rows ! j < length es" by (simp del: set_concat)
    then have "concat rows ! j \<le> unat cache_parent_mask + 1" using facts(2) by simp
    then show ?thesis
      using arr32_at [OF assms(5), of j] that
      by (simp add: h_def stored_header_def Let_def assms(3) nat_word32)
  qed
  show "i < length es \<Longrightarrow> row_kids b h i = rows ! i"
  proof -
    assume i: "i < length es"
    have "row_kids b h i = map (\<lambda>j. u32n b (ih_children h + j * 4)) [row_start rows i..<row_start rows (Suc i)]"
      using i start [of i] start [of "Suc i"] by (simp add: row_kids_def)
    also have "\<dots> = map ((!) (concat rows)) [row_start rows i..<row_start rows (Suc i)]"
      using kid row_start_le [of rows "Suc i"] by (intro map_cong) auto
    also have "\<dots> = rows ! i" using i facts(6) by (simp add: row_slice)
    finally show ?thesis .
  qed
qed

lemma record_at_field:
  assumes "reads b (eo, concat (map (\<lambda>(e, off). record_bytes e off) (zip es offs)))" "i < length es" "length offs = length es"
    and "j + k \<le> 24"
  shows "take k (drop (eo + i * 24 + j) b) = take k (drop j (record_bytes (es ! i) (offs ! i)))"
proof -
  let ?f = "\<lambda>(e, off). record_bytes e off"
  have w: "\<forall>x \<in> set (zip es offs). length (?f x) = 24" by auto
  have len: "length (concat (map ?f (zip es offs))) = length es * 24"
    using length_concat_width [OF w] assms(3) by simp
  have "(i + 1) * 24 \<le> length es * 24" using assms(2) by (intro mult_le_mono1) simp
  then have fits: "i * 24 + j + k \<le> length (concat (map ?f (zip es offs)))" using assms(4) len by simp
  have "take k (drop (eo + i * 24 + j) b) = take k (drop (i * 24 + j) (concat (map ?f (zip es offs))))"
    using reads_part [OF assms(1), of "i * 24 + j" k] fits by (simp add: add.assoc)
  also have "\<dots> = take k (drop j (take 24 (drop (i * 24) (concat (map ?f (zip es offs))))))"
    using assms(4) by (simp only: take_within)
  also have "take 24 (drop (i * 24) (concat (map ?f (zip es offs)))) = record_bytes (es ! i) (offs ! i)"
    using take_concat_width [OF w, of i] assms(2,3) by simp
  finally show ?thesis .
qed

lemma record_fields:
  "take 4 (drop 0 (record_bytes e off)) = put_le 4 (record_bits e)"
  "take 4 (drop 4 (record_bytes e off)) = put_le 4 off"
  "take 8 (drop 8 (record_bytes e off)) = put_le 8 (ts_size e)"
  "take 4 (drop 16 (record_bytes e off)) = put_le 4 (ucast (ts_mtime e) :: u32)"
  "take 4 (drop 20 (record_bytes e off)) = put_le 4 (ucast (ts_files e) :: u32)"
  by (simp_all add: record_bytes_def)

lemma stored_slot:
  assumes "reads b (ih_entries h, concat (map (\<lambda>(e, off). record_bytes e off) (zip es offs)))" "i < length es"
    and "length offs = length es" "fits_index (es ! i)"
  shows "file_off b h i = offs ! i" "slot_on_file b h i (ts_name (es ! i)) = es ! i"
proof -
  note field = record_at_field [OF assms(1-3)]
  show "file_off b h i = offs ! i"
    using field [of 4 4] by (simp add: file_off_def record_fields le_word_put_le)
  have "file_bits b h i = record_bits (es ! i)"
    using field [of 0 4] record_fields(1) [of "es ! i" "offs ! i"] by (simp add: file_bits_def le_word_put_le)
  then show "slot_on_file b h i (ts_name (es ! i)) = es ! i"
    using field [of 8 8] field [of 16 4] field [of 20 4] record_slot_bits [OF assms(4)]
    by (simp add: slot_on_file_def record_fields le_word_put_le)
qed

text \<open>
  The main lemma of reading back: a stored file is accepted by both loaders, which return its slots
  and its metadata.
\<close>

lemma stored_decodes:
  assumes "stored v meta es rows b" "storable v meta es rows"
    and "(get64 b 72 :: u64 index_go) = Ret (cache_checksum b 72)" "cache_checksum b 72 \<noteq> 0"
  shows "\<exists>d. decode_disk_index_with b v mapped = Ret d \<and> node_count (di_tree d) = length es \<and>
    (\<forall>i<length es. tree_slot_at (di_tree d) i = es ! i) \<and> di_meta d = meta"
proof -
  obtain offs names where names: "intern_all (map ts_name es) no_names = (offs, names)" by fastforce
  define pool where "pool = in_pool names"
  define n where "n = length es"
  define l where "l = index_layout_of v pool n"
  define h where "h = stored_header v pool n"
  note facts = storable_facts [OF assms(2)]
  have st: "il_length l \<le> 0xffffffff" "length b = il_length l" "frame_of v meta pool n b"
    "reads b (il_entries l, concat (map (\<lambda>(e, off). record_bytes e off) (zip es offs)))"
    "reads b (il_starts l, le32.arr (map word_of_nat (starts_of rows)))"
    "reads b (il_children l, le32.arr (map word_of_nat (concat rows)))"
    using assms(1) by (simp_all add: stored_def names Let_def pool_def n_def l_def)
  have header: "read_index_header b v = Ret (h, cache_checksum b 72)"
    using stored_read_header [of v meta pool n b] st(1-3) facts(1,2) assms(2-4)
    by (simp add: l_def h_def n_def storable_def)
  then have lay: "file_layout b h" by (rule read_header_layout)
  have h: "ih_count h = n" "ih_pool h = il_pool l" "ih_pool_len h = length pool" "ih_entries h = il_entries l"
    "ih_child_len h = n - 1"
    by (simp_all add: h_def stored_header_def Let_def l_def)
  have pool: "cache_range b (ih_pool h) (ih_pool_len h) = Ret pool"
    using frame_reads(14) [OF st(3)] st(1) by (simp add: cache_range_Ret h reads_def l_def)
  have offs: "length offs = length es" using intern_all_prefix [OF names] by simp
  have "length pool \<le> 0xffffffff" using layout_facts [of v pool n] st(1) by (simp add: l_def)
  then have lookup: "pool_name pool (unat (offs ! i)) = Ret (ts_name (es ! i))" if "i < n" for i
    using intern_all_names [OF interned_no_names _ names] facts(4) that by (auto simp: pool_def n_def)
  have slot: "file_off b h i = offs ! i" "slot_on_file b h i (ts_name (es ! i)) = es ! i" if "i < n" for i
    using stored_slot [of b h es offs i] st(4) offs that facts(3) by (simp_all add: h n_def)
  have name: "file_name b h pool i = ts_name (es ! i)" if "i < n" for i
    using lookup that slot(1) by (simp add: file_name_def)
  have slots: "file_slots b h pool = es"
    by (rule nth_equalityI) (simp_all add: h n_def slot name)
  have used: "file_names_ok b h pool"
    using assms(2) lookup by (auto simp: file_names_ok_def h slot name storable_def n_def simp del: file_slot_fields)
  have par: "file_parent b h i = ts_parent (es ! i)" if "i < n" for i
    using slot(2) [OF that] file_slot_fields(3) [of b h i "ts_name (es ! i)"] by simp
  have starts: "u32n b (ih_starts h + i * 4) = row_start rows i" if "i \<le> n" for i
    using stored_rows(1) [OF assms(2) st(2) _ st(5,6)] that by (simp add: l_def h_def n_def)
  have kids: "row_kids b h i = rows ! i" if "i < n" for i
    using stored_rows(2) [OF assms(2) st(2) _ st(5,6)] that by (simp add: l_def h_def n_def)
  have good: "rows_good es rows" using assms(2) by (simp add: storable_def)
  have all: "all_kids b h n = concat rows"
  proof -
    have "map (row_kids b h) [0..<n] = rows"
      using facts(6) kids by (intro nth_equalityI) (simp_all add: n_def)
    then show ?thesis by (simp add: all_kids_def)
  qed
  have rows_ok: "rows_ok b h (file_parent b h) n"
  proof -
    have "row_bounds b h i" if "i < n" for i
      using that starts [of i] starts [of "Suc i"] row_start_le [of rows "Suc i"] facts(5) row_start_mono [of i "Suc i" rows]
      by (simp add: row_bounds_def h n_def)
    moreover have "c \<noteq> 0 \<and> c < n \<and> file_parent b h c = i" if "i < n" "c \<in> set (rows ! i)" for i c
    proof -
      have "c \<in> set (concat rows)" using that facts(6) by (auto simp: n_def)
      then have "c \<in> {1..<n}" using good by (simp add: rows_good_def n_def del: set_concat)
      then show ?thesis using that good by (simp add: par rows_good_def n_def)
    qed
    ultimately show ?thesis using good by (simp add: rows_ok_def all kids h rows_good_def)
  qed
  have "sentinels_ok b h"
    using starts [of 0] starts [of n] facts(5,6) row_start_length [of rows]
    by (simp add: sentinels_ok_def h n_def row_start_def [of rows 0])
  moreover have "counts_ok b h meta"
    using count_slots [OF used] assms(2) by (simp add: counts_ok_def slots storable_def)
  ultimately have body: "body_ok b h pool v meta"
    using used assms(2) rows_ok good frame_reads(12) [OF st(3)] st(1)
    by (simp add: body_ok_def slots h all [unfolded n_def] storable_def rows_good_def n_def l_def del: set_concat)
  show ?thesis
    using header pool body
    by (cases mapped) (auto simp: decode_with_Ret slots mapped_access rebuilt_access file_base_def h n_def)
qed

end
