(* ===== verification/Index_Order.thy ===== *)
theory Index_Order
  imports Index_Reload
begin

text \<open>
  The order in which a writer lays the slots out: every used slot once, the root first and parents
  before their children.
\<close>

definition order_ok :: "size_tree \<Rightarrow> nat list \<Rightarrow> nat list \<Rightarrow> bool" where
  "order_ok t order remap \<longleftrightarrow>
     distinct order \<and> set order = {i. tree_valid t i} \<and> length remap = node_count t \<and>
     order \<noteq> [] \<and> order ! 0 = 0 \<and>
     (\<forall>k<length order. remap ! (order ! k) = k \<and> (0 < k \<longrightarrow> remap ! par t (order ! k) < k))"

definition compacted :: "size_tree \<Rightarrow> nat list \<Rightarrow> nat list \<Rightarrow> tree_slot list" where
  "compacted t order remap = map (\<lambda>idx. (tree_slot_at t idx)\<lparr>ts_parent := remap ! par t idx\<rparr>) order"

definition kids_of :: "size_tree \<Rightarrow> nat \<Rightarrow> nat list" where
  "kids_of t p = filter (\<lambda>i. ts_used (tree_slot_at t i) \<and> par t i = p) [1..<node_count t]"

section \<open>The traversal\<close>

definition tree_kids :: "size_tree \<Rightarrow> nat list list \<Rightarrow> bool" where
  "tree_kids t children \<longleftrightarrow> length children = node_count t \<and> (\<forall>p<node_count t. children ! p = kids_of t p)"

definition visiting :: "size_tree \<Rightarrow> nat list \<Rightarrow> nat list \<Rightarrow> nat list \<Rightarrow> bool" where
  "visiting t stack order remap \<longleftrightarrow>
     distinct (order @ stack) \<and> set (order @ stack) \<subseteq> {i. tree_valid t i} \<and> length remap = node_count t \<and>
     (\<forall>i \<in> set order. set (kids_of t i) \<subseteq> set order \<union> set stack) \<and>
     (\<forall>i \<in> set stack. i \<noteq> 0 \<longrightarrow> par t i \<in> set order) \<and> 0 \<in> set order \<union> set stack \<and>
     (\<forall>k<length order. remap ! (order ! k) = k \<and>
        (if order ! k = 0 then k = 0 else par t (order ! k) \<in> set (take k order)))"

lemma in_kids_of: "c \<in> set (kids_of t p) \<longleftrightarrow> 0 < c \<and> tree_valid t c \<and> par t c = p"
  by (auto simp: kids_of_def tree_valid_def)

lemma distinct_kids_of [simp]: "distinct (kids_of t p)"
  by (simp add: kids_of_def)

lemma visiting_step:
  assumes "visiting t (idx # stack) order remap" "order = [] \<longrightarrow> idx = 0" "idx = 0 \<longrightarrow> order = []"
  shows "visiting t (kids_of t idx @ stack) (order @ [idx]) (remap[idx := length order])"
proof -
  have d: "distinct (order @ idx # stack)" "set (order @ idx # stack) \<subseteq> {i. tree_valid t i}" "length remap = node_count t"
    using assms(1) by (simp_all add: visiting_def)
  have up: "par t i \<in> set order" if "i \<in> set order \<union> set (idx # stack)" "i \<noteq> 0" for i
  proof (cases "i \<in> set order")
    case True
    then obtain k where k: "k < length order" "order ! k = i" by (auto simp: in_set_conv_nth)
    have "if order ! k = 0 then k = 0 else par t (order ! k) \<in> set (take k order)"
      using assms(1) k(1) unfolding visiting_def by blast
    with k(2) that(2) show ?thesis by (auto dest: in_set_takeD)
  qed (use assms(1) that in \<open>auto simp: visiting_def\<close>)
  have new: "c \<notin> set order \<union> set (idx # stack)" if "c \<in> set (kids_of t idx)" for c
  proof
    assume "c \<in> set order \<union> set (idx # stack)"
    then have "idx \<in> set order" using that up [of c] by (simp add: in_kids_of)
    with d(1) show False by simp
  qed
  have idx: "idx < node_count t" using d(2) by (simp add: tree_valid_def)
  show ?thesis
    unfolding visiting_def
  proof (intro conjI)
    show "distinct ((order @ [idx]) @ kids_of t idx @ stack)"
      using d(1) new by auto
    show "set ((order @ [idx]) @ kids_of t idx @ stack) \<subseteq> {i. tree_valid t i}"
      using d(2) by (auto simp: in_kids_of)
    show "length (remap[idx := length order]) = node_count t" using d(3) by simp
    show "\<forall>i \<in> set (order @ [idx]). set (kids_of t i) \<subseteq> set (order @ [idx]) \<union> set (kids_of t idx @ stack)"
      using assms(1) by (auto simp: visiting_def)
    show "\<forall>i \<in> set (kids_of t idx @ stack). i \<noteq> 0 \<longrightarrow> par t i \<in> set (order @ [idx])"
      using assms(1) by (auto simp: visiting_def in_kids_of)
    show "0 \<in> set (order @ [idx]) \<union> set (kids_of t idx @ stack)"
      using assms(1) by (auto simp: visiting_def)
    show "\<forall>k<length (order @ [idx]). remap[idx := length order] ! ((order @ [idx]) ! k) = k \<and>
        (if (order @ [idx]) ! k = 0 then k = 0 else par t ((order @ [idx]) ! k) \<in> set (take k (order @ [idx])))"
    proof (intro allI impI)
      fix k assume k: "k < length (order @ [idx])"
      show "remap[idx := length order] ! ((order @ [idx]) ! k) = k \<and>
        (if (order @ [idx]) ! k = 0 then k = 0 else par t ((order @ [idx]) ! k) \<in> set (take k (order @ [idx])))"
      proof (cases "k < length order")
        case True
        then have "order ! k \<noteq> idx" using d(1) nth_mem [OF True] by auto
        with True assms(1) show ?thesis by (simp add: visiting_def nth_append)
      next
        case False
        then have "k = length order" using k by simp
        then show ?thesis using idx d(3) up [of idx] assms(3) by (simp add: nth_append)
      qed
    qed
  qed
qed

lemma visit_slots_ok:
  assumes "tree_kids t children" "visiting t stack order remap" "node_count t \<le> k + length order"
    and "order = [] \<Longrightarrow> stack = [0]" "order \<noteq> [] \<Longrightarrow> 0 \<in> set order"
  shows "\<exists>order' remap'. visit_slots k children stack order remap = Some (order', remap') \<and> visiting t [] order' remap'"
  using assms
proof (induction k children stack order remap rule: visit_slots.induct)
  case (1 k children order remap)
  then show ?case by simp
next
  case (2 children idx stack order remap)
  have "card (set (order @ idx # stack)) = length (order @ idx # stack)"
    using 2(2) by (intro distinct_card) (simp add: visiting_def)
  moreover have "card (set (order @ idx # stack)) \<le> card {..<node_count t}"
    using 2(2) by (intro card_mono) (auto simp: visiting_def tree_valid_def)
  ultimately show ?case using 2(3) by simp
next
  case (3 k children idx stack order remap)
  have idx: "idx < node_count t" using 3(3) by (simp add: visiting_def tree_valid_def)
  have "order = [] \<longrightarrow> idx = 0" "idx = 0 \<longrightarrow> order = []"
    using 3(3,5,6) by (auto simp: visiting_def)
  note step = visiting_step [OF 3(3) this]
  have kids: "children ! idx = kids_of t idx" using 3(2) idx by (simp add: tree_kids_def)
  have root: "0 \<in> set (order @ [idx])" using \<open>order = [] \<longrightarrow> idx = 0\<close> 3(6) by (cases "order = []") simp_all
  have "\<exists>order' remap'. visit_slots k children (children ! idx @ stack) (order @ [idx]) (remap[idx := length order]) =
      Some (order', remap') \<and> visiting t [] order' remap'"
    by (rule 3(1)) (use 3(2,4) step root in \<open>simp_all add: kids\<close>)
  then show ?case by simp
qed

text \<open>When the stack is empty, everything that hangs below the root has been visited.\<close>

lemma visited_all:
  assumes "visiting t [] order remap" "disk_tree_ok t ordered"
  shows "order_ok t order remap"
proof -
  have root: "tree_is_dir t 0" "par t 0 = 0" using assms(2) by (simp_all add: disk_tree_ok_def bad_root_def)
  have "i \<in> set order" if "tree_valid t i" "(par t ^^ k) i = 0" for i k
    using that
  proof (induction k arbitrary: i)
    case 0
    then show ?case using assms(1) by (simp add: visiting_def)
  next
    case (Suc k)
    show ?case
    proof (cases "i = 0")
      case True
      then show ?thesis using assms(1) by (simp add: visiting_def)
    next
      case False
      have "tree_is_dir t (par t i)"
        using assms(2) Suc.prems(1) False by (simp add: disk_tree_ok_def entry_fits_def tree_valid_def)
      moreover have "(par t ^^ k) (par t i) = 0" using Suc.prems(2) by (simp add: funpow_Suc_right del: funpow.simps)
      ultimately have "par t i \<in> set order" using Suc.IH by (simp add: tree_is_dir_def tree_valid_def)
      then have "set (kids_of t (par t i)) \<subseteq> set order" using assms(1) by (simp add: visiting_def)
      then show ?thesis using Suc.prems(1) False by (auto simp: in_kids_of)
    qed
  qed
  then have all: "set order = {i. tree_valid t i}"
    using assms by (auto simp: visiting_def disk_tree_ok_def grounded_def tree_valid_def)
  have pos: "remap ! (order ! k) = k" "if order ! k = 0 then k = 0 else par t (order ! k) \<in> set (take k order)"
    if "k < length order" for k
    using assms(1) that unfolding visiting_def by blast+
  have "0 \<in> set order" using assms(1) by (simp add: visiting_def)
  then obtain k0 where k0: "k0 < length order" "order ! k0 = 0" by (auto simp: in_set_conv_nth)
  with pos(2) [OF k0(1)] have "k0 = 0" by simp
  with k0 have first: "order \<noteq> []" "order ! 0 = 0" by auto
  have "remap ! par t (order ! k) < k" if k: "k < length order" "0 < k" for k
  proof -
    have "order ! k \<noteq> 0"
      using assms(1) k first nth_eq_iff_index_eq [of order k 0] by (simp add: visiting_def)
    then have "par t (order ! k) \<in> set (take k order)" using pos(2) [OF k(1)] by simp
    then obtain j where "j < k" "par t (order ! k) = order ! j" using k by (auto simp: in_set_conv_nth)
    then show ?thesis using pos(1) [of j] k by simp
  qed
  with all pos(1) first show ?thesis
    using assms(1) by (simp add: order_ok_def visiting_def)
qed

lemma visiting_start:
  assumes "tree_is_dir t 0" "length remap = node_count t"
  shows "visiting t [0] [] remap"
  using assms by (simp add: visiting_def tree_is_dir_def tree_valid_def)

section \<open>Slots in index order\<close>

definition used_slots :: "size_tree \<Rightarrow> nat list" where
  "used_slots t = filter (\<lambda>i. ts_used (tree_slot_at t i)) [0..<node_count t]"

lemma ordered_slots_None:
  "ordered_slots t is order remap = None \<longleftrightarrow>
     (\<exists>i \<in> set is. ts_used (tree_slot_at t i) \<and> 0 < i \<and> i \<le> par t i)"
  by (induction t "is" order remap rule: ordered_slots.induct) (auto simp: Let_def)

lemma ordered_slots_Some:
  "ordered_slots t is order remap = Some (order', remap') \<Longrightarrow> distinct (order @ is) \<Longrightarrow> set is \<subseteq> {..<length remap} \<Longrightarrow>
   (\<forall>k<length order. remap ! (order ! k) = k) \<Longrightarrow>
   order' = order @ filter (\<lambda>i. ts_used (tree_slot_at t i)) is \<and> length remap' = length remap \<and>
   (\<forall>k<length order'. remap' ! (order' ! k) = k)"
proof (induction t "is" order remap rule: ordered_slots.induct)
  case (2 t i "is" order remap)
  show ?case
  proof (cases "ts_used (tree_slot_at t i)")
    case True
    then have rec: "ordered_slots t is (order @ [i]) (remap[i := length order]) = Some (order', remap')" and ok: "\<not> (0 < i \<and> i \<le> par t i)"
      using 2(3) by (auto simp: Let_def split: if_splits)
    have pos: "\<forall>k<length (order @ [i]). remap[i := length order] ! ((order @ [i]) ! k) = k"
    proof (intro allI impI)
      fix k assume k: "k < length (order @ [i])"
      show "remap[i := length order] ! ((order @ [i]) ! k) = k"
      proof (cases "k < length order")
        case True
        then have "order ! k \<noteq> i" using 2(4) nth_mem [OF True] by auto
        with True show ?thesis using 2(6) by (simp add: nth_append)
      next
        case False
        with k have "k = length order" by simp
        then show ?thesis using 2(5) by (simp add: nth_append)
      qed
    qed
    have r: "order' = (order @ [i]) @ filter (\<lambda>i. ts_used (tree_slot_at t i)) is \<and>
        length remap' = length (remap[i := length order]) \<and> (\<forall>k<length order'. remap' ! (order' ! k) = k)"
      by (rule 2(2) [OF refl _ ok rec _ _ pos]) (use True 2(4,5) in auto)
    have eq: "(order @ [i]) @ filter (\<lambda>i. ts_used (tree_slot_at t i)) is = order @ filter (\<lambda>i. ts_used (tree_slot_at t i)) (i # is)"
      using True by simp
    from r show ?thesis unfolding eq length_list_update .
  next
    case False
    with 2(3) have rec: "ordered_slots t is order remap = Some (order', remap')" by (simp add: Let_def)
    have r: "order' = order @ filter (\<lambda>i. ts_used (tree_slot_at t i)) is \<and>
        length remap' = length remap \<and> (\<forall>k<length order'. remap' ! (order' ! k) = k)"
      by (rule 2(1) [OF refl _ rec]) (use False 2(4,5,6) in auto)
    have eq: "filter (\<lambda>i. ts_used (tree_slot_at t i)) is = filter (\<lambda>i. ts_used (tree_slot_at t i)) (i # is)"
      using False by simp
    from r show ?thesis unfolding eq .
  qed
qed simp

lemma filter_upt_sorted: "sorted_wrt (<) (filter P [a..<b])"
  by (rule sorted_wrt_filter) simp

lemma used_slots_ok:
  assumes "disk_tree_ok t ordered" "\<And>i. tree_valid t i \<Longrightarrow> 0 < i \<Longrightarrow> par t i < i"
    and "length remap = node_count t" "\<And>k. k < length (used_slots t) \<Longrightarrow> remap ! (used_slots t ! k) = k"
  shows "order_ok t (used_slots t) remap"
proof -
  have root: "tree_is_dir t 0" "par t 0 = 0" using assms(1) by (simp_all add: disk_tree_ok_def bad_root_def)
  have set: "set (used_slots t) = {i. tree_valid t i}" by (auto simp: used_slots_def tree_valid_def)
  have "0 < node_count t" using root(1) by (simp add: tree_is_dir_def)
  then have first: "used_slots t \<noteq> []" "used_slots t ! 0 = 0"
    using root(1) by (simp_all add: used_slots_def upt_conv_Cons tree_is_dir_def)
  have mono: "used_slots t ! i < used_slots t ! j" if "i < j" "j < length (used_slots t)" for i j
    using sorted_wrt_nth_less [OF filter_upt_sorted] that by (simp add: used_slots_def)
  have "remap ! par t (used_slots t ! k) < k" if k: "k < length (used_slots t)" "0 < k" for k
  proof -
    have "used_slots t ! k \<in> set (used_slots t)" using k(1) by simp
    then have valid: "tree_valid t (used_slots t ! k)" using set by simp
    have pos: "0 < used_slots t ! k" using mono [of 0 k] k by simp
    have "tree_is_dir t (par t (used_slots t ! k))"
      using assms(1) valid pos by (simp add: disk_tree_ok_def entry_fits_def tree_valid_def)
    then have "par t (used_slots t ! k) \<in> set (used_slots t)" by (simp add: set tree_is_dir_def tree_valid_def)
    then obtain j where j: "j < length (used_slots t)" "used_slots t ! j = par t (used_slots t ! k)"
      by (auto simp: in_set_conv_nth)
    then have "used_slots t ! j < used_slots t ! k" using assms(2) [OF valid pos] by simp
    then have "j < k" using mono [of k j] j(1) by (cases "k < j") (auto simp: not_less le_less)
    then show ?thesis using assms(4) [OF j(1)] j(2) by simp
  qed
  then show ?thesis using set first assms(3,4) by (simp add: order_ok_def used_slots_def)
qed

lemma ordered_slots_ok:
  assumes "disk_tree_ok t ordered"
    and "ordered_slots t [0..<node_count t] [] (replicate (node_count t) 0) = Some (order, remap)"
  shows "order = used_slots t \<and> order_ok t order remap \<and> (\<forall>i. tree_valid t i \<and> 0 < i \<longrightarrow> par t i < i)"
proof -
  have res: "order = used_slots t" "length remap = node_count t" "\<forall>k<length order. remap ! (order ! k) = k"
    using ordered_slots_Some [OF assms(2)] by (auto simp: used_slots_def atLeast0LessThan)
  have "ordered_slots t [0..<node_count t] [] (replicate (node_count t) 0) \<noteq> None" using assms(2) by simp
  then have up: "par t i < i" if "tree_valid t i" "0 < i" for i
    using that by (auto simp: ordered_slots_None tree_valid_def not_le)
  from used_slots_ok [OF assms(1) up res(2)] res show ?thesis using up by auto
qed

lemma sort_used_slots:
  assumes "distinct order" "set order = {i. tree_valid t i}"
  shows "sort order = used_slots t"
proof (rule sorted_distinct_set_unique)
  show "distinct (used_slots t)" "sorted (used_slots t)" by (simp_all add: used_slots_def sorted_wrt_filter)
  show "set (sort order) = set (used_slots t)" using assms(2) by (auto simp: used_slots_def tree_valid_def)
qed (use assms(1) in simp_all)

lemma renumber:
  assumes "distinct order" "set order \<subseteq> {..<length remap}" "m \<le> length order"
  shows "length (fold (\<lambda>i remap. remap[order ! i := i]) [0..<m] remap) = length remap \<and>
    (\<forall>k<m. fold (\<lambda>i remap. remap[order ! i := i]) [0..<m] remap ! (order ! k) = k)"
  using assms(3)
proof (induction m)
  case (Suc m)
  define r where "r = fold (\<lambda>i remap. remap[order ! i := i]) [0..<m] remap"
  have IH: "length r = length remap" "\<forall>k<m. r ! (order ! k) = k" using Suc by (simp_all add: r_def)
  have "order ! m \<in> set order" using Suc.prems by simp
  then have "order ! m < length remap" using assms(2) by blast
  have ne: "order ! k \<noteq> order ! m" if "k < m" for k
    using assms(1) that Suc.prems by (simp add: nth_eq_iff_index_eq)
  have "r[order ! m := m] ! (order ! k) = k" if "k < Suc m" for k
  proof (cases "k = m")
    case True
    then show ?thesis using IH(1) \<open>order ! m < length remap\<close> by simp
  next
    case False
    then have "k < m" using that by simp
    then show ?thesis using IH(2) ne [of k] by simp
  qed
  then show ?case using IH(1) by (simp flip: r_def)
qed simp

section \<open>The compacted slots\<close>

lemma length_compacted [simp]: "length (compacted t order remap) = length order"
  by (simp add: compacted_def)

lemma nth_compacted [simp]:
  "k < length order \<Longrightarrow> compacted t order remap ! k = (tree_slot_at t (order ! k))\<lparr>ts_parent := remap ! par t (order ! k)\<rparr>"
  by (simp add: compacted_def)

lemma order_position:
  assumes "order_ok t order remap" "tree_valid t i"
  shows "remap ! i < length order" "order ! (remap ! i) = i"
proof -
  have "i \<in> set order" using assms by (simp add: order_ok_def)
  then obtain k where "k < length order" "order ! k = i" by (auto simp: in_set_conv_nth)
  moreover from this have "remap ! i = k" using assms(1) by (auto simp: order_ok_def)
  ultimately show "remap ! i < length order" "order ! (remap ! i) = i" by simp_all
qed

lemma compacted_ok:
  assumes "order_ok t order remap" "disk_tree_ok t ordered"
  shows "disk_tree_ok (heap_tree v (compacted t order remap)) True" "\<forall>e \<in> set (compacted t order remap). ts_used e"
proof -
  let ?es = "compacted t order remap"
  let ?t = "heap_tree v ?es"
  have root: "tree_is_dir t 0" "par t 0 = 0" "node_count t \<le> unat cache_parent_mask + 1"
    using assms(2) by (simp_all add: disk_tree_ok_def bad_root_def not_less)
  have valid: "tree_valid t (order ! k)" if "k < length order" for k
  proof -
    have "order ! k \<in> set order" using that by simp
    then show ?thesis using assms(1) by (simp add: order_ok_def)
  qed
  have len: "0 < length order" "length order \<le> node_count t"
  proof -
    show "0 < length order" using assms(1) by (simp add: order_ok_def)
    have "card (set order) = length order" using assms(1) unfolding order_ok_def by (metis distinct_card)
    moreover have "card (set order) \<le> card {..<node_count t}"
      using assms(1) by (intro card_mono) (auto simp: order_ok_def tree_valid_def)
    ultimately show "length order \<le> node_count t" by simp
  qed
  have zero: "order ! 0 = 0" "remap ! 0 = 0" using assms(1) len(1) by (auto simp: order_ok_def)
  have nonzero: "0 < order ! k" if "0 < k" "k < length order" for k
    using that zero assms(1) nth_eq_iff_index_eq [of order k 0] len(1) by (cases "order ! k") (auto simp: order_ok_def)
  have dir: "tree_is_dir ?t p \<longleftrightarrow> p < length order \<and> tree_is_dir t (order ! p)" for p
    using valid [of p] by (auto simp: tree_is_dir_def tree_valid_def)
  have up: "par ?t k < k" "tree_is_dir ?t (par ?t k)" if k: "0 < k" "k < length order" for k
  proof -
    have "tree_is_dir t (par t (order ! k))"
      using assms(2) valid [OF k(2)] nonzero [OF k] by (simp add: disk_tree_ok_def entry_fits_def tree_valid_def)
    moreover from this have "order ! (remap ! par t (order ! k)) = par t (order ! k)" "remap ! par t (order ! k) < length order"
      using order_position [OF assms(1)] by (auto simp: tree_is_dir_def tree_valid_def)
    ultimately show "tree_is_dir ?t (par ?t k)" using k by (simp add: dir)
    show "par ?t k < k" using assms(1) k by (simp add: order_ok_def)
  qed
  have "entry_fits ?t True k" if "k < length order" for k
  proof -
    have e: "fits_index (tree_slot_at t (order ! k))" "0 < order ! k \<Longrightarrow> valid_disk_index_name (ts_name (tree_slot_at t (order ! k)))"
      using assms(2) valid [OF that] by (auto simp: disk_tree_ok_def entry_fits_def tree_valid_def)
    have "remap ! par t (order ! k) \<le> unat cache_parent_mask"
    proof (cases "k = 0")
      case True
      then show ?thesis using zero root(2) by simp
    next
      case False
      then show ?thesis using up(1) [of k] that len(2) root(3) by simp
    qed
    then have "fits_index (tree_slot_at ?t k)" using e(1) that by (simp add: fits_index_def not_less)
    then show ?thesis using up [of k] nonzero [of k] e(2) that by (auto simp: entry_fits_def)
  qed
  moreover have "grounded ?t k" if "k < length order" for k
    using that
  proof (induction k rule: less_induct)
    case (less k)
    show ?case
    proof (cases "k = 0")
      case False
      then have "grounded ?t (par ?t k)" using less up(1) [of k] by simp
      then show ?thesis by (rule grounded_par)
    qed (simp add: grounded_zero)
  qed
  moreover have "\<not> bad_root ?t"
    using root zero len by (simp add: bad_root_def dir not_less)
  ultimately show "disk_tree_ok ?t True" by (simp add: disk_tree_ok_def)
  show "\<forall>e \<in> set ?es. ts_used e"
    using assms(1) by (auto simp: compacted_def order_ok_def tree_valid_def)
qed

section \<open>The rows of a writer\<close>

definition visited_rows :: "size_tree \<Rightarrow> nat list \<Rightarrow> nat list \<Rightarrow> nat list list" where
  "visited_rows t order remap = map (\<lambda>idx. map ((!) remap) (kids_of t idx)) order"

definition sorted_rows :: "tree_slot list \<Rightarrow> nat list list" where
  "sorted_rows es = map (\<lambda>p. filter (\<lambda>k. ts_parent (es ! k) = p) [1..<length es]) [0..<length es]"

lemma remap_inj:
  assumes "order_ok t order remap" "tree_valid t i" "tree_valid t j" "remap ! i = remap ! j"
  shows "i = j"
  using order_position(2) [OF assms(1,2)] order_position(2) [OF assms(1,3)] unfolding assms(4) by (rule trans [OF sym])

lemma visited_rows_good:
  assumes "order_ok t order remap" "disk_tree_ok t ordered"
  shows "rows_good (compacted t order remap) (visited_rows t order remap)"
proof -
  have root: "tree_is_dir t 0" using assms(2) by (simp add: disk_tree_ok_def bad_root_def)
  have valid: "set order = {i. tree_valid t i}" and dist: "distinct order" and zero: "order ! 0 = 0" "order \<noteq> []"
    using assms(1) by (simp_all add: order_ok_def)
  have concat_eq: "concat (visited_rows t order remap) = map ((!) remap) (concat (map (kids_of t) order))"
    by (simp add: visited_rows_def map_concat comp_def)
  have kids: "set (concat (map (kids_of t) order)) = {i. tree_valid t i \<and> 0 < i}"
  proof (intro set_eqI iffI)
    fix c assume c: "c \<in> {i. tree_valid t i \<and> 0 < i}"
    then have "tree_is_dir t (par t c)" using assms(2) by (simp add: disk_tree_ok_def entry_fits_def tree_valid_def)
    then have "par t c \<in> set order" by (simp add: valid tree_is_dir_def tree_valid_def)
    then show "c \<in> set (concat (map (kids_of t) order))" using c by (auto simp: in_kids_of)
  qed (auto simp: in_kids_of)
  have "distinct (concat (map (kids_of t) xs))" if "distinct xs" for xs
    using that by (induction xs) (auto simp: in_kids_of)
  then have "distinct (concat (visited_rows t order remap))"
    unfolding concat_eq distinct_map using dist remap_inj [OF assms(1)] kids by (auto intro!: inj_onI)
  moreover have "set (concat (visited_rows t order remap)) = {1..<length order}"
  proof -
    have "set (concat (visited_rows t order remap)) = (!) remap ` {i. tree_valid t i \<and> 0 < i}"
      unfolding concat_eq using kids by simp
    also have "\<dots> = {1..<length order}"
    proof (intro set_eqI iffI)
      fix k assume "k \<in> (!) remap ` {i. tree_valid t i \<and> 0 < i}"
      then obtain i where i: "tree_valid t i" "0 < i" "k = remap ! i" by auto
      then show "k \<in> {1..<length order}"
        using order_position [OF assms(1) i(1)] zero by (cases "k = 0") auto
    next
      fix k assume k: "k \<in> {1..<length order}"
      then have "order ! k \<in> set order" "order ! k \<noteq> order ! 0"
        using dist nth_eq_iff_index_eq [of order k 0] zero(2) by simp_all
      then have "tree_valid t (order ! k)" "0 < order ! k" using valid zero by simp_all
      moreover have "remap ! (order ! k) = k" using assms(1) k by (simp add: order_ok_def)
      ultimately show "k \<in> (!) remap ` {i. tree_valid t i \<and> 0 < i}" by (metis (mono_tags, lifting) image_eqI mem_Collect_eq)
    qed
    finally show ?thesis .
  qed
  moreover have "ts_parent (compacted t order remap ! c) = k"
    if k: "k < length order" "c \<in> set (visited_rows t order remap ! k)" for k c
  proof -
    obtain i where i: "c = remap ! i" "tree_valid t i" "0 < i" "par t i = order ! k"
      using k by (auto simp: visited_rows_def in_kids_of)
    then show ?thesis using order_position [OF assms(1) i(2)] assms(1) k(1) by (simp add: order_ok_def)
  qed
  ultimately show ?thesis by (simp add: rows_good_def visited_rows_def [of t order remap, THEN arg_cong, of length])
qed

text \<open>Rows with the same members in the same order are the same.\<close>

lemma rows_good_sorted:
  assumes "rows_good es rows" "\<And>row. row \<in> set rows \<Longrightarrow> sorted row"
  shows "rows = sorted_rows es"
proof (rule nth_equalityI)
  show "length rows = length (sorted_rows es)" using assms(1) by (simp add: rows_good_def sorted_rows_def)
  fix p assume p: "p < length rows"
  then have n: "p < length es" using assms(1) by (simp add: rows_good_def)
  have all: "set (concat rows) = {1..<length es}" and up: "\<And>i c. i < length es \<Longrightarrow> c \<in> set (rows ! i) \<Longrightarrow> ts_parent (es ! c) = i"
    using assms(1) by (simp_all add: rows_good_def del: set_concat)
  have "rows ! p = filter (\<lambda>k. ts_parent (es ! k) = p) [1..<length es]"
  proof (rule sorted_distinct_set_unique)
    show "sorted (rows ! p)" using assms(2) p by simp
    have "distinct (concat rows)" using assms(1) by (simp add: rows_good_def)
    then show "distinct (rows ! p)" using p unfolding distinct_concat_iff by simp
    show "sorted (filter (\<lambda>k. ts_parent (es ! k) = p) [1..<length es])" by (simp add: sorted_wrt_filter)
    show "set (rows ! p) = set (filter (\<lambda>k. ts_parent (es ! k) = p) [1..<length es])"
    proof (intro set_eqI iffI)
      fix c assume c: "c \<in> set (rows ! p)"
      then have "c \<in> set (concat rows)" using p by auto
      then show "c \<in> set (filter (\<lambda>k. ts_parent (es ! k) = p) [1..<length es])"
        unfolding all using up [OF n c] by simp
    next
      fix c assume c: "c \<in> set (filter (\<lambda>k. ts_parent (es ! k) = p) [1..<length es])"
      then have "c \<in> set (concat rows)" unfolding all by simp
      then obtain row where "row \<in> set rows" "c \<in> set row" by auto
      then obtain i where "i < length rows" "c \<in> set (rows ! i)" by (metis in_set_conv_nth)
      moreover from this have "ts_parent (es ! c) = i" using up assms(1) by (simp add: rows_good_def)
      ultimately show "c \<in> set (rows ! p)" using c by simp
    qed
  qed simp
  then show "rows ! p = sorted_rows es ! p" using n by (simp add: sorted_rows_def)
qed

lemma visited_rows_sorted:
  assumes "disk_tree_ok t ordered" "order_ok t (used_slots t) remap"
  shows "visited_rows t (used_slots t) remap = sorted_rows (compacted t (used_slots t) remap)"
proof (rule rows_good_sorted [OF visited_rows_good [OF assms(2,1)]])
  fix row assume "row \<in> set (visited_rows t (used_slots t) remap)"
  then obtain idx where row: "row = map ((!) remap) (kids_of t idx)" by (auto simp: visited_rows_def)
  have "remap ! i \<le> remap ! j" if "tree_valid t i" "tree_valid t j" "i < j" for i j
  proof (rule ccontr)
    assume "\<not> remap ! i \<le> remap ! j"
    then have "used_slots t ! (remap ! j) < used_slots t ! (remap ! i)"
      using sorted_wrt_nth_less [OF filter_upt_sorted] order_position(1) [OF assms(2) that(1)] by (simp add: used_slots_def)
    then show False using order_position(2) [OF assms(2)] that by simp
  qed
  moreover have "sorted_wrt (<) (kids_of t idx)" by (simp add: kids_of_def filter_upt_sorted)
  ultimately show "sorted row"
    unfolding row sorted_map by (rule_tac sorted_wrt_mono_rel) (auto simp: in_kids_of)
qed

end
