(* ===== verification/Index_Writer.thy ===== *)
theory Index_Writer
  imports Index_Order
begin

text \<open>
  The two encoders fill the same frame with the same sections.
\<close>

section \<open>Filling a frame\<close>

text \<open>A buffer that was allocated as \<open>ba\<close> and is being filled behind \<open>eo\<close>.\<close>

definition filling :: "byte list \<Rightarrow> nat \<Rightarrow> byte list \<Rightarrow> bool" where
  "filling ba eo b \<longleftrightarrow> length b = length ba \<and> take eo b = take eo ba"

lemma filling_put:
  assumes "filling ba eo b" "eo \<le> off" "off + length v \<le> length b"
  shows "filling ba eo (put_at b off v)"
  using assms by (simp add: filling_def put_at_def)

lemma reads_extend:
  assumes "reads b (base, x)" "base + length x + length v \<le> length b"
  shows "reads (put_at b (base + length x) v) (base, x @ v)"
proof -
  have "reads (put_at b (base + length x) v) (base, x)"
    by (rule reads_put_other [OF assms(1)]) (use assms(2) in \<open>simp_all add: apart_def\<close>)
  moreover have "reads (put_at b (base + length x) v) (base + length x, v)"
    by (rule reads_put_same) (use assms(2) in simp)
  ultimately show ?thesis by (simp add: reads_append)
qed

lemma reads_within:
  assumes "reads b (base, x)" "off + length v \<le> length x"
  shows "reads (put_at b (base + off) v) (base, put_at x off v)"
proof -
  have fit: "base + off + length v \<le> length b" using assms by (simp add: reads_def)
  have same: "x ! i = b ! (base + i)" if "i < length x" for i
    using assms(1) nth_take [OF that, of "drop base b"] that by (simp add: reads_def)
  have "take (length x) (drop base (put_at b (base + off) v)) = put_at x off v"
    using assms same fit by (intro nth_equalityI) (auto simp: reads_def nth_put_at)
  then show ?thesis using assms by (simp add: reads_def)
qed

lemma reads_Nil [simp]: "reads b (off, []) \<longleftrightarrow> off \<le> length b"
  by (simp add: reads_def)

text \<open>The finished buffer, before its checksum is written.\<close>

definition laid :: "volume_id \<Rightarrow> index_meta \<Rightarrow> tree_slot list \<Rightarrow> nat list list \<Rightarrow> byte list \<Rightarrow> bool" where
  "laid v meta es rows b \<longleftrightarrow>
     (case intern_all (map ts_name es) no_names of (offs, names) \<Rightarrow>
        \<exists>ba l. allocate_disk_index v meta (in_pool names) (length es) = Ret (ba, l) \<and> filling ba (il_entries l) b \<and>
        reads b (il_entries l, concat (map (\<lambda>(e, off). record_bytes e off) (zip es offs))) \<and>
        reads b (il_starts l, le32.arr (map word_of_nat (starts_of rows))) \<and>
        reads b (il_children l, le32.arr (map word_of_nat (concat rows))))"

lemma allocate_cases:
  obtains (fits) b where "allocate_disk_index v meta pool n = Ret (b, index_layout_of v pool n)"
      "length b = il_length (index_layout_of v pool n)" "frame_of v meta pool n b"
      "reads b (il_entries (index_layout_of v pool n),
        replicate (il_length (index_layout_of v pool n) - il_entries (index_layout_of v pool n)) 0)"
      "il_length (index_layout_of v pool n) \<le> 0xffffffff"
  | (exceeds) "allocate_disk_index v meta pool n = cache_invalid ''base exceeds v7 offsets''"
      "0xffffffff < il_length (index_layout_of v pool n)"
proof (cases "il_length (index_layout_of v pool n) \<le> 0xffffffff")
  case True
  with allocate_Ret [OF True, of meta] fits show ?thesis by blast
next
  case False
  then show ?thesis by (intro exceeds) (simp_all add: allocate_disk_index_def Let_def)
qed

lemma reads_prefix:
  assumes "reads ba f" "fst f + length (snd f) \<le> eo" "filling ba eo b"
  shows "reads b f"
proof -
  have "take (length (snd f)) (drop (fst f) b) = take (length (snd f)) (drop (fst f) (take eo b))"
    using assms(2) take_within [of "fst f" "length (snd f)" eo 0 b] by simp
  also have "\<dots> = take (length (snd f)) (drop (fst f) ba)"
    using assms(2,3) take_within [of "fst f" "length (snd f)" eo 0 ba] by (simp add: filling_def)
  finally show ?thesis using assms by (simp add: reads_def filling_def)
qed

lemma laid_stored:
  assumes "laid v meta es rows b"
  shows "stored v meta es rows b"
proof -
  obtain offs names where names: "intern_all (map ts_name es) no_names = (offs, names)" by fastforce
  let ?l = "index_layout_of v (in_pool names) (length es)"
  obtain ba l where b: "allocate_disk_index v meta (in_pool names) (length es) = Ret (ba, l)" "filling ba (il_entries l) b"
      "reads b (il_entries l, concat (map (\<lambda>(e, off). record_bytes e off) (zip es offs)))"
      "reads b (il_starts l, le32.arr (map word_of_nat (starts_of rows)))"
      "reads b (il_children l, le32.arr (map word_of_nat (concat rows)))"
    using assms by (auto simp: laid_def names)
  show ?thesis
  proof (cases rule: allocate_cases [of v meta "in_pool names" "length es"])
    case (fits ba')
    then have l: "ba' = ba" "l = ?l" using b(1) by simp_all
    have "reads b f" if "f \<in> set (header_fields v meta (in_pool names) (length es) ?l)" for f
    proof (rule reads_prefix)
      show "reads ba f" using fits(3) that l by (simp add: frame_of_def)
      show "fst f + length (snd f) \<le> il_entries ?l"
        using that layout_facts [of v "in_pool names" "length es"]
        by (auto simp: header_fields_def nat_field_def word_field_def)
      show "filling ba (il_entries ?l) b" using b(2) l by simp
    qed
    then show ?thesis using fits b l by (simp add: stored_def names Let_def frame_of_def filling_def)
  next
    case exceeds
    then show ?thesis using b(1) by (simp add: cache_invalid_def)
  qed
qed

text \<open>The content of a laid file is determined.\<close>

lemma laid_unique:
  assumes "laid v meta es rows b" "laid v meta es rows b'" "length rows = length es" "length (concat rows) = length es - 1"
  shows "b = b'"
proof -
  obtain offs names where names: "intern_all (map ts_name es) no_names = (offs, names)" by fastforce
  have offs: "length offs = length es" using intern_all_prefix [OF names] by simp
  obtain ba l where ba: "allocate_disk_index v meta (in_pool names) (length es) = Ret (ba, l)"
    using assms(1) by (auto simp: laid_def names)
  define X where "X = concat (map (\<lambda>(e, off). record_bytes e off) (zip es offs)) @
      le32.arr (map word_of_nat (starts_of rows)) @ le32.arr (map word_of_nat (concat rows))"
  have l: "l = index_layout_of v (in_pool names) (length es)" "length ba = il_length l"
    using ba by (cases rule: allocate_cases [of v meta "in_pool names" "length es"]; simp)+
  note facts = layout_facts [of v "in_pool names" "length es", folded l(1)]
  have recs: "length (concat (map (\<lambda>(e, off). record_bytes e off) (zip es offs))) = length es * 24"
    by (subst length_concat_width [where w = 24]) (auto simp: offs)
  have "length X = il_length l - il_entries l"
    using facts assms(3,4) by (simp add: X_def recs del: length_concat)
  then have whole: "c = take (il_entries l) ba @ X" if "laid v meta es rows c" for c
  proof -
    have c: "filling ba (il_entries l) c" "reads c (il_entries l, X)"
      using that facts(4,5) assms(3) by (auto simp: laid_def names ba X_def reads_append recs)
    then have "drop (il_entries l) c = X" using \<open>length X = _\<close> l(2) facts by (simp add: reads_def filling_def)
    moreover have "c = take (il_entries l) c @ drop (il_entries l) c" by simp
    ultimately show ?thesis using c(1) by (simp add: filling_def)
  qed
  show ?thesis using whole [OF assms(1)] whole [OF assms(2)] by simp
qed

end
