(* ===== verification/Index_Unordered.thy ===== *)
theory Index_Unordered
  imports Index_Writer
begin

text \<open>
  The general encoder: the child lists it counts are those of the tree, and what it writes is the
  compacted tree with the rows of the visit.
\<close>

section \<open>Loops that do not stop early\<close>

lemma go_fold_steps:
  assumes "P 0 s" "\<And>m s. m < length xs \<Longrightarrow> P m s \<Longrightarrow> \<exists>s'. f (xs ! m) s = Ret s' \<and> P (Suc m) s'"
  shows "\<exists>s'. go_fold f xs s = Ret s' \<and> P (length xs) s'"
proof -
  have "\<exists>s'. go_fold f (take m xs) s = Ret s' \<and> P m s'" if "m \<le> length xs" for m
    using that
  proof (induction m)
    case (Suc m)
    then obtain s1 where s1: "go_fold f (take m xs) s = Ret s1" "P m s1" by auto
    obtain s2 where "f (xs ! m) s1 = Ret s2" "P (Suc m) s2" using assms(2) [OF _ s1(2)] Suc.prems by auto
    with s1 Suc.prems show ?case by (simp add: take_Suc_conv_app_nth go_fold_append)
  qed (use assms(1) in simp)
  from this [of "length xs"] show ?thesis by simp
qed

section \<open>The child lists\<close>

definition counted :: "size_tree \<Rightarrow> nat \<Rightarrow> nat list list \<times> bool \<Rightarrow> bool" where
  "counted t m st \<longleftrightarrow>
     length (fst st) = node_count t \<and>
     (\<forall>p<node_count t. fst st ! p = filter (\<lambda>i. ts_used (tree_slot_at t i) \<and> par t i = p) [1..<m]) \<and>
     (snd st \<longleftrightarrow> (\<forall>i. tree_valid t i \<and> 0 < i \<and> i < m \<longrightarrow> par t i < i))"

lemma filter_upt_step:
  "filter P [1..<Suc m] = filter P [1..<m] @ (if 0 < m \<and> P m then [m] else [])"
  by (cases m) auto

lemma count_child_step:
  assumes "disk_tree_ok t ordered" "m < node_count t" "counted t m st"
  shows "\<exists>st'. count_child t m st = Ret st' \<and> counted t (Suc m) st'"
proof (cases "0 < m \<and> ts_used (tree_slot_at t m)")
  case True
  obtain children ord where st: "st = (children, ord)" by fastforce
  have valid: "tree_valid t m" using True assms(2) by (simp add: tree_valid_def)
  then have "tree_is_dir t (par t m)" using assms(1) True by (simp add: disk_tree_ok_def entry_fits_def tree_valid_def)
  then have p: "par t m < length children" using assms(3) by (simp add: st counted_def tree_is_dir_def tree_valid_def)
  then have "count_child t m st = Ret (children[par t m := children ! par t m @ [m]], if m \<le> par t m then False else ord)"
    using True by (simp add: count_child_def st Let_def)
  moreover have "counted t (Suc m) (children[par t m := children ! par t m @ [m]], if m \<le> par t m then False else ord)"
    unfolding counted_def fst_conv snd_conv
  proof (intro conjI allI impI)
    show "children[par t m := children ! par t m @ [m]] ! q = filter (\<lambda>i. ts_used (tree_slot_at t i) \<and> par t i = q) [1..<Suc m]"
      if "q < node_count t" for q
      unfolding filter_upt_step using assms(3) True that by (auto simp: counted_def st nth_list_update)
    show "(if m \<le> par t m then False else ord) \<longleftrightarrow> (\<forall>i. tree_valid t i \<and> 0 < i \<and> i < Suc m \<longrightarrow> par t i < i)"
      using assms(3) True valid by (auto simp: counted_def st less_Suc_eq)
  qed (use assms(3) in \<open>simp add: counted_def st\<close>)
  ultimately show ?thesis by blast
next
  case False
  have "filter (\<lambda>i. ts_used (tree_slot_at t i) \<and> par t i = p) [1..<Suc m] = filter (\<lambda>i. ts_used (tree_slot_at t i) \<and> par t i = p) [1..<m]" for p
    unfolding filter_upt_step using False by auto
  moreover have "tree_valid t i \<and> 0 < i \<and> i < Suc m \<longleftrightarrow> tree_valid t i \<and> 0 < i \<and> i < m" for i
    using False by (auto simp: less_Suc_eq tree_valid_def)
  ultimately have "counted t (Suc m) st" using assms(3) by (simp add: counted_def del: upt_Suc)
  moreover have "count_child t m st = Ret st" using False by (cases st; cases "0 < m") (auto simp: count_child_def Let_def)
  ultimately show ?thesis by blast
qed

lemma count_children:
  assumes "disk_tree_ok t ordered"
  obtains children ord where
    "go_fold (count_child t) [0..<node_count t] (replicate (node_count t) [], True) = Ret (children, ord)"
    "tree_kids t children" "ord \<longleftrightarrow> (\<forall>i. tree_valid t i \<and> 0 < i \<longrightarrow> par t i < i)"
proof -
  have "\<exists>st. go_fold (count_child t) [0..<node_count t] (replicate (node_count t) [], True) = Ret st \<and>
      counted t (length [0..<node_count t]) st"
    by (rule go_fold_steps) (use count_child_step [OF assms] in \<open>simp_all add: counted_def\<close>)
  then obtain children ord where
    "go_fold (count_child t) [0..<node_count t] (replicate (node_count t) [], True) = Ret (children, ord)"
    "counted t (node_count t) (children, ord)" by auto
  then show thesis
    by (intro that [of children ord]) (auto simp: counted_def tree_kids_def kids_of_def tree_valid_def)
qed

section \<open>The sections, filled from the left\<close>

definition sections :: "byte list \<Rightarrow> index_layout \<Rightarrow> nat \<Rightarrow> byte list \<Rightarrow> u32 list \<Rightarrow> u32 list \<Rightarrow> byte list \<Rightarrow> bool" where
  "sections ba l n recs ss ks b \<longleftrightarrow>
     length ba = il_length l \<and> il_starts l = il_entries l + n * 24 \<and> il_children l = il_starts l + (n + 1) * 4 \<and>
     il_length l = il_children l + (n - 1) * 4 \<and> filling ba (il_entries l) b \<and>
     reads b (il_entries l, recs) \<and> reads b (il_starts l, le32.arr ss) \<and> reads b (il_children l, le32.arr ks)"

lemma sections_put:
  assumes "sections ba l n recs ss ks b" "il_entries l \<le> off" "off + length v \<le> il_length l"
    and "reads (put_at b off v) (il_entries l, recs')" "reads (put_at b off v) (il_starts l, le32.arr ss')"
    and "reads (put_at b off v) (il_children l, le32.arr ks')"
  shows "sections ba l n recs' ss' ks' (put_at b off v)"
proof -
  have "off + length v \<le> length b" using assms(1,3) by (simp add: sections_def filling_def)
  then have "filling ba (il_entries l) (put_at b off v)"
    using filling_put [of ba "il_entries l" b off v] assms(1,2) by (simp add: sections_def)
  then show ?thesis using assms by (simp add: sections_def)
qed

text \<open>What the sections hold, without the arithmetic of the layout.\<close>

lemma sections_reads:
  assumes "sections ba l n recs ss ks b"
  shows "reads b (il_entries l, recs)" "reads b (il_starts l, le32.arr ss)" "reads b (il_children l, le32.arr ks)"
    "length b = il_length l" "il_starts l = il_entries l + n * 24" "il_children l = il_starts l + (n + 1) * 4"
    "il_length l = il_children l + (n - 1) * 4"
proof -
  note s = assms [unfolded sections_def filling_def]
  show "reads b (il_entries l, recs)" "reads b (il_starts l, le32.arr ss)" "reads b (il_children l, le32.arr ks)"
    "il_starts l = il_entries l + n * 24" "il_children l = il_starts l + (n + 1) * 4"
    "il_length l = il_children l + (n - 1) * 4"
    using s by blast+
  show "length b = il_length l" using s by simp
qed

lemma sections_record:
  assumes "sections ba l n recs ss ks b" "length recs = m * 24" "m < n" "length v = 24"
  shows "sections ba l n (recs @ v) ss ks (put_at b (il_entries l + m * 24) v)"
    "il_entries l + m * 24 + 24 \<le> length b"
proof -
  have len: "length b = il_length l" using assms(1) by (simp add: sections_def filling_def)
  have in_recs: "m * 24 + 24 \<le> n * 24" using assms(3) by simp
  then show fit: "il_entries l + m * 24 + 24 \<le> length b" using assms(1) len by (simp add: sections_def)
  have start: "il_entries l + m * 24 = il_entries l + length recs" using assms(2) by simp
  show "sections ba l n (recs @ v) ss ks (put_at b (il_entries l + m * 24) v)"
  proof (rule sections_put [OF assms(1)])
    show "reads (put_at b (il_entries l + m * 24) v) (il_entries l, recs @ v)"
      unfolding start by (rule reads_extend [OF sections_reads(1) [OF assms(1)]]) (use assms(2,4) fit in simp)
    show "reads (put_at b (il_entries l + m * 24) v) (il_starts l, le32.arr ss)"
      by (rule reads_put_other [OF sections_reads(2) [OF assms(1)]])
        (use sections_reads [OF assms(1)] assms(4) in_recs fit in \<open>simp_all add: apart_def\<close>)
    show "reads (put_at b (il_entries l + m * 24) v) (il_children l, le32.arr ks)"
      by (rule reads_put_other [OF sections_reads(3) [OF assms(1)]])
        (use sections_reads [OF assms(1)] assms(4) in_recs fit in \<open>simp_all add: apart_def\<close>)
  qed (use fit len assms(4) in simp_all)
qed

lemma sections_start:
  assumes "sections ba l n recs ss ks b" "length recs \<le> n * 24" "length ss = m" "m \<le> n"
  shows "sections ba l n recs (ss @ [w]) ks (put_at b (il_starts l + m * 4) (put_le 4 w))"
    "il_starts l + m * 4 + 4 \<le> length b"
proof -
  have len: "length b = il_length l" using assms(1) by (simp add: sections_def filling_def)
  show fit: "il_starts l + m * 4 + 4 \<le> length b" using assms(1,4) len by (simp add: sections_def)
  have start: "il_starts l + m * 4 = il_starts l + length (le32.arr ss)" using assms(3) by simp
  have arr: "le32.arr (ss @ [w]) = le32.arr ss @ put_le 4 w" by simp
  show "sections ba l n recs (ss @ [w]) ks (put_at b (il_starts l + m * 4) (put_le 4 w))"
  proof (rule sections_put [OF assms(1)])
    show "reads (put_at b (il_starts l + m * 4) (put_le 4 w)) (il_starts l, le32.arr (ss @ [w]))"
      unfolding start arr by (rule reads_extend [OF sections_reads(2) [OF assms(1)]]) (use assms(3) fit in simp)
    show "reads (put_at b (il_starts l + m * 4) (put_le 4 w)) (il_entries l, recs)"
      by (rule reads_put_other [OF sections_reads(1) [OF assms(1)]])
        (use sections_reads [OF assms(1)] assms(2) fit in \<open>simp_all add: apart_def\<close>)
    show "reads (put_at b (il_starts l + m * 4) (put_le 4 w)) (il_children l, le32.arr ks)"
      by (rule reads_put_other [OF sections_reads(3) [OF assms(1)]])
        (use sections_reads [OF assms(1)] assms(4) fit in \<open>simp_all add: apart_def\<close>)
  qed (use fit len assms(1) in \<open>simp_all add: sections_def\<close>)
qed

lemma sections_child:
  assumes "sections ba l n recs ss ks b" "length recs \<le> n * 24" "length ss \<le> n + 1" "length ks = m" "m < n - 1"
  shows "sections ba l n recs ss (ks @ [w]) (put_at b (il_children l + m * 4) (put_le 4 w))"
    "il_children l + m * 4 + 4 \<le> length b"
proof -
  have len: "length b = il_length l" using assms(1) by (simp add: sections_def filling_def)
  show fit: "il_children l + m * 4 + 4 \<le> length b" using assms(1,5) len by (simp add: sections_def)
  have start: "il_children l + m * 4 = il_children l + length (le32.arr ks)" using assms(4) by simp
  have arr: "le32.arr (ks @ [w]) = le32.arr ks @ put_le 4 w" by simp
  show "sections ba l n recs ss (ks @ [w]) (put_at b (il_children l + m * 4) (put_le 4 w))"
  proof (rule sections_put [OF assms(1)])
    show "reads (put_at b (il_children l + m * 4) (put_le 4 w)) (il_children l, le32.arr (ks @ [w]))"
      unfolding start arr by (rule reads_extend [OF sections_reads(3) [OF assms(1)]]) (use assms(4) fit in simp)
    show "reads (put_at b (il_children l + m * 4) (put_le 4 w)) (il_entries l, recs)"
      by (rule reads_put_other [OF sections_reads(1) [OF assms(1)]])
        (use sections_reads [OF assms(1)] assms(2) fit in \<open>simp_all add: apart_def\<close>)
    show "reads (put_at b (il_children l + m * 4) (put_le 4 w)) (il_starts l, le32.arr ss)"
      by (rule reads_put_other [OF sections_reads(2) [OF assms(1)]])
        (use sections_reads [OF assms(1)] assms(3) fit in \<open>simp_all add: apart_def\<close>)
  qed (use fit len assms(1) in \<open>simp_all add: sections_def\<close>)
qed

section \<open>What the general encoder writes\<close>

lemma put_children_Ret:
  assumes "sections ba l n recs ss ks b" "length recs \<le> n * 24" "length ss \<le> n + 1" "length ks + length cs \<le> n - 1"
    and "\<forall>c \<in> set cs. c < length remap"
  shows "\<exists>b'. put_children (il_children l) remap cs (length ks, b) = Ret (length ks + length cs, b') \<and>
    sections ba l n recs ss (ks @ map (\<lambda>c. word_of_nat (remap ! c)) cs) b'"
proof -
  let ?ks = "\<lambda>m. ks @ map (\<lambda>c. word_of_nat (remap ! c)) (take m cs)"
  define P where "P m st \<longleftrightarrow> fst st = length ks + m \<and> sections ba l n recs ss (?ks m) (snd st)" for m and st :: "nat \<times> byte list"
  have "\<exists>st. put_children (il_children l) remap cs (length ks, b) = Ret st \<and> P (length cs) st"
    unfolding put_children_def
  proof (rule go_fold_steps)
    show "P 0 (length ks, b)" using assms(1) by (simp add: P_def)
    fix m st assume m: "m < length cs" and P: "P m st"
    obtain cursor c where st: "st = (cursor, c)" by fastforce
    have cur: "cursor = length (?ks m)" and sec: "sections ba l n recs ss (?ks m) c"
      using P m by (simp_all add: P_def st)
    have "cs ! m < length remap" using assms(5) m by simp
    moreover have room: "length (?ks m) < n - 1" using m assms(4) by simp
    note child = sections_child [OF sec assms(2,3) refl room]
    ultimately have "(case st of (cursor, b) \<Rightarrow> go_bind (byte_at remap (cs ! m)) (\<lambda>r.
        go_bind (cache_put32 (il_children l + cursor * 4) (word_of_nat r) b) (\<lambda>b. Ret (cursor + 1, b)))) =
        Ret (cursor + 1, put_at c (il_children l + cursor * 4) (put_le 4 (word_of_nat (remap ! (cs ! m)) :: u32)))"
      unfolding st cur by (simp add: byte_at_def cache_put32_def cache_put_Ret)
    moreover have "P (Suc m) (cursor + 1, put_at c (il_children l + cursor * 4) (put_le 4 (word_of_nat (remap ! (cs ! m)) :: u32)))"
      using child(1) [of "word_of_nat (remap ! (cs ! m))"] cur m by (simp add: P_def take_Suc_conv_app_nth)
    ultimately show "\<exists>st'. (case st of (cursor, b) \<Rightarrow> go_bind (byte_at remap (cs ! m)) (\<lambda>r.
        go_bind (cache_put32 (il_children l + cursor * 4) (word_of_nat r) b) (\<lambda>b. Ret (cursor + 1, b)))) = Ret st' \<and> P (Suc m) st'"
      by blast
  qed
  then show ?thesis by (auto simp: P_def)
qed

lemma length_records:
  "length (concat (map (\<lambda>(e, off). record_bytes e off) xs)) = length xs * 24"
  by (rule length_concat_width) auto

lemma concat_take_le: "length (concat (take m rows)) \<le> length (concat rows)"
  by (metis append_take_drop_id concat_append le_add1 length_append)

lemma order_parent:
  assumes "order_ok t order remap" "disk_tree_ok t o1" "m < length order"
  shows "tree_valid t (order ! m)"
    "byte_at remap (ts_parent (tree_slot_at t (order ! m))) = Ret (remap ! par t (order ! m))"
proof -
  have "order ! m \<in> set order" using assms(3) by simp
  then show valid: "tree_valid t (order ! m)" using assms(1) by (simp add: order_ok_def)
  have remap: "length remap = node_count t" using assms(1) by (simp add: order_ok_def)
  have "par t (order ! m) < length remap"
  proof (cases "order ! m = 0")
    case True
    then show ?thesis using assms(2) valid remap by (auto simp: disk_tree_ok_def bad_root_def tree_valid_def)
  next
    case False
    then have "tree_is_dir t (par t (order ! m))"
      using assms(2) valid by (simp add: disk_tree_ok_def entry_fits_def tree_valid_def)
    then show ?thesis using remap by (simp add: tree_is_dir_def tree_valid_def)
  qed
  then show "byte_at remap (ts_parent (tree_slot_at t (order ! m))) = Ret (remap ! par t (order ! m))"
    by (simp add: byte_at_def)
qed

lemma put_row_step:
  assumes "order_ok t order remap" "tree_kids t children" "disk_tree_ok t o1" "length offs = length order"
    and "m < length order" "length order = n"
    and "sections ba l n (concat (map (\<lambda>(e, off). record_bytes e off) (take m (zip (compacted t order remap) offs))))
      (map word_of_nat (take m (starts_of (visited_rows t order remap))))
      (map word_of_nat (concat (take m (visited_rows t order remap)))) b"
  shows "\<exists>b'. put_row t l children remap (m, order ! m, offs ! m) (row_start (visited_rows t order remap) m, b) =
      Ret (row_start (visited_rows t order remap) (Suc m), b') \<and>
    sections ba l n (concat (map (\<lambda>(e, off). record_bytes e off) (take (Suc m) (zip (compacted t order remap) offs))))
      (map word_of_nat (take (Suc m) (starts_of (visited_rows t order remap))))
      (map word_of_nat (concat (take (Suc m) (visited_rows t order remap)))) b'"
proof -
  let ?es = "compacted t order remap"
  let ?rows = "visited_rows t order remap"
  let ?e = "(tree_slot_at t (order ! m))\<lparr>ts_parent := remap ! par t (order ! m)\<rparr>"
  let ?recs = "\<lambda>m. concat (map (\<lambda>(e, off). record_bytes e off) (take m (zip ?es offs)))"
  let ?ss = "\<lambda>m. map word_of_nat (take m (starts_of ?rows)) :: u32 list"
  let ?ks = "\<lambda>m. map word_of_nat (concat (take m ?rows)) :: u32 list"
  have valid: "tree_valid t (order ! m)" and p: "byte_at remap (ts_parent (tree_slot_at t (order ! m))) = Ret (remap ! par t (order ! m))"
    using order_parent [OF assms(1,3,5)] by simp_all
  have remap: "length remap = node_count t" using assms(1) by (simp add: order_ok_def)
  have rows: "length ?rows = n" "?rows ! m = map ((!) remap) (kids_of t (order ! m))"
    "children ! (order ! m) = kids_of t (order ! m)"
    using assms(2,5,6) valid by (simp_all add: visited_rows_def tree_kids_def tree_valid_def)
  have good: "length (concat ?rows) \<le> n - 1"
  proof -
    have "rows_good ?es ?rows" by (rule visited_rows_good [OF assms(1,3)])
    then have "length (concat ?rows) = card {1..<length ?es}" unfolding rows_good_def by (metis distinct_card)
    then show ?thesis using assms(6) by simp
  qed
  have len: "length (?recs m) = m * 24" "length (?ss m) = m"
    using assms(4-6) rows(1) by (simp_all add: length_records del: length_concat)
  have cur: "row_start ?rows m = length (?ks m)" by (simp add: row_start_def length_concat)
  note rec = sections_record [OF assms(7) len(1)]
  define b1 where "b1 = put_at b (il_entries l + m * 24) (record_bytes ?e (offs ! m))"
  have recs: "?recs m @ record_bytes ?e (offs ! m) = ?recs (Suc m)"
    using assms(4,5) by (simp add: take_Suc_conv_app_nth)
  have s1: "sections ba l n (?recs (Suc m)) (?ss m) (?ks m) b1"
    using rec(1) [of "record_bytes ?e (offs ! m)"] assms(5,6) by (simp only: recs b1_def length_record_bytes)
  have len1: "length (?recs (Suc m)) \<le> n * 24" using assms(4-6) by (simp add: length_records del: length_concat)
  have "m \<le> n" using assms(5,6) by simp
  note start = sections_start [OF s1 len1 len(2) this]
  define b2 where "b2 = put_at b1 (il_starts l + m * 4) (put_le 4 (word_of_nat (row_start ?rows m) :: u32))"
  have "starts_of ?rows ! m = row_start ?rows m" using nth_starts_of [of m ?rows] \<open>m \<le> n\<close> rows(1) by simp
  then have "?ss m @ [word_of_nat (row_start ?rows m)] = ?ss (Suc m)"
    using \<open>m \<le> n\<close> rows(1) by (simp add: take_Suc_conv_app_nth)
  then have s2: "sections ba l n (?recs (Suc m)) (?ss (Suc m)) (?ks m) b2"
    using start(1) [of "word_of_nat (row_start ?rows m)"] by (simp add: b2_def)
  have take: "concat (take (Suc m) ?rows) = concat (take m ?rows) @ ?rows ! m"
    using assms(5,6) rows(1) by (simp add: take_Suc_conv_app_nth)
  have room: "length (?ks m) + length (kids_of t (order ! m)) \<le> n - 1"
  proof -
    have "length (concat (take (Suc m) ?rows)) \<le> n - 1" using concat_take_le good le_trans by blast
    then show ?thesis using rows(2) unfolding take by (simp del: length_concat)
  qed
  have "\<forall>c \<in> set (kids_of t (order ! m)). c < length remap" using remap by (auto simp: in_kids_of tree_valid_def)
  from put_children_Ret [OF s2 len1 _ room this] obtain b3 where
    b3: "put_children (il_children l) remap (kids_of t (order ! m)) (length (?ks m), b2) = Ret (length (?ks m) + length (kids_of t (order ! m)), b3)"
      "sections ba l n (?recs (Suc m)) (?ss (Suc m)) (?ks m @ map (\<lambda>c. word_of_nat (remap ! c)) (kids_of t (order ! m))) b3"
    using rows(1) by auto
  have nxt: "row_start ?rows (Suc m) = length (?ks m) + length (kids_of t (order ! m))"
    using row_start_Suc [of m ?rows] assms(5,6) rows by (simp add: cur)
  have ks: "?ks m @ map (\<lambda>c. word_of_nat (remap ! c)) (kids_of t (order ! m)) = ?ks (Suc m)"
    unfolding take rows(2) by simp
  have fit: "il_entries l + m * 24 + 24 \<le> length b" using rec(2) [of "record_bytes ?e 0"] assms(5,6) by simp
  have "put_row t l children remap (m, order ! m, offs ! m) (row_start ?rows m, b) = Ret (row_start ?rows (Suc m), b3)"
    using b3(1) [folded cur nxt] start(2) fit
    by (simp add: put_row_def Let_def p cache_write_record_Ret cache_put32_def cache_put_Ret rows(3) flip: b1_def b2_def)
  then show ?thesis using b3(2) unfolding ks by blast
qed

text \<open>The general encoder leaves a finished file, or reports that it is too large.\<close>

definition index_too_large :: "volume_id \<Rightarrow> tree_slot list \<Rightarrow> bool" where
  "index_too_large v es \<longleftrightarrow>
     0xffffffff < il_length (index_layout_of v (in_pool (snd (intern_all (map ts_name es) no_names))) (length es))"

lemma write_unordered_cases:
  assumes "order_ok t order remap" "tree_kids t children" "disk_tree_ok t o1"
  shows "if index_too_large v (compacted t order remap)
    then write_unordered t v meta children order remap = cache_invalid ''base exceeds v7 offsets''
    else \<exists>b. laid v meta (compacted t order remap) (visited_rows t order remap) b \<and>
      write_unordered t v meta children order remap = seal_disk_index b"
proof -
  let ?es = "compacted t order remap"
  let ?rows = "visited_rows t order remap"
  let ?n = "length order"
  have ts: "map (\<lambda>idx. ts_name (tree_slot_at t idx)) order = map ts_name ?es" by (simp add: compacted_def)
  obtain offs names where names: "intern_all (map ts_name ?es) no_names = (offs, names)" by fastforce
  have offs: "length offs = ?n" using intern_all_prefix [OF names] by simp
  show ?thesis
  proof (cases rule: allocate_cases [of v meta "in_pool names" ?n])
    case exceeds
    then show ?thesis by (simp add: write_unordered_def ts names cache_invalid_def index_too_large_def)
  next
    case (fits ba)
    define l where "l = index_layout_of v (in_pool names) ?n"
    note facts = layout_facts [of v "in_pool names" ?n, folded l_def]
    have rows: "length ?rows = ?n" by (simp add: visited_rows_def)
    define P where "P m st \<longleftrightarrow> fst st = row_start ?rows m \<and>
        sections ba l ?n (concat (map (\<lambda>(e, off). record_bytes e off) (take m (zip ?es offs))))
          (map word_of_nat (take m (starts_of ?rows))) (map word_of_nat (concat (take m ?rows))) (snd st)"
      for m and st :: "nat \<times> byte list"
    let ?xs = "zip [0..<?n] (zip order offs)"
    have "\<exists>st. go_fold (put_row t l children remap) ?xs (0, ba) = Ret st \<and> P (length ?xs) st"
    proof (rule go_fold_steps)
      have "P 0 (0, ba) \<longleftrightarrow> sections ba l ?n [] [] [] ba" by (simp add: P_def row_start_def)
      then show "P 0 (0, ba)" using facts fits(2) by (simp add: sections_def filling_def l_def)
      fix m st assume m: "m < length ?xs" and P: "P m st"
      from m have m': "m < ?n" "?xs ! m = (m, order ! m, offs ! m)" by (simp_all add: offs)
      show "\<exists>st'. put_row t l children remap (?xs ! m) st = Ret st' \<and> P (Suc m) st'"
        using put_row_step [OF assms offs m'(1) refl, of ba l "snd st"] P m'(2)
        by (cases st) (auto simp: P_def)
    qed
    then obtain b where b: "go_fold (put_row t l children remap) ?xs (0, ba) = Ret (row_start ?rows ?n, b)"
      "sections ba l ?n (concat (map (\<lambda>(e, off). record_bytes e off) (zip ?es offs)))
          (map word_of_nat (take ?n (starts_of ?rows))) (map word_of_nat (concat ?rows)) b"
      using offs rows by (auto simp: P_def)
    have len: "length (concat (map (\<lambda>(e, off). record_bytes e off) (zip ?es offs))) \<le> ?n * 24"
      by (simp add: length_records del: length_concat)
    have "length (map word_of_nat (take ?n (starts_of ?rows)) :: u32 list) = ?n" using rows by simp
    note start = sections_start [OF b(2) len this le_refl]
    have "starts_of ?rows = take ?n (starts_of ?rows) @ [starts_of ?rows ! ?n]"
      using rows take_Suc_conv_app_nth [of ?n "starts_of ?rows"] by simp
    then have whole: "map word_of_nat (starts_of ?rows) = map word_of_nat (take ?n (starts_of ?rows)) @ [word_of_nat (row_start ?rows ?n) :: u32]"
      using nth_starts_of [of ?n ?rows] rows by (metis le_refl list.simps(8,9) map_append)
    define b' where "b' = put_at b (il_starts l + ?n * 4) (put_le 4 (word_of_nat (row_start ?rows ?n) :: u32))"
    have "sections ba l ?n (concat (map (\<lambda>(e, off). record_bytes e off) (zip ?es offs)))
        (map word_of_nat (starts_of ?rows)) (map word_of_nat (concat ?rows)) b'"
      unfolding whole b'_def by (rule start(1))
    then have "laid v meta ?es ?rows b'"
      using fits(1) by (auto simp: laid_def names l_def sections_def)
    moreover have "cache_put32 (il_starts l + ?n * 4) (word_of_nat (row_start ?rows ?n)) b = Ret b'"
      using start(2) by (simp add: cache_put32_def b'_def cache_put_Ret)
    then have "write_unordered t v meta children order remap = seal_disk_index b'"
      using fits(1) b(1) by (simp add: write_unordered_def ts names flip: l_def)
    moreover have "\<not> index_too_large v ?es" using fits(5) by (simp add: index_too_large_def names)
    ultimately show ?thesis by auto
  qed
qed

end
