(* ===== verification/Index_Sorted.thy ===== *)
theory Index_Sorted
  imports Index_Unordered
begin

text \<open>
  The encoder for ordered trees counts the children in the output and sorts them by their parents
  there.  What it writes is what the general encoder writes.
\<close>

section \<open>Names\<close>

text \<open>Names of the mapped base with one offset are one name, as in every file that was loaded.\<close>

definition coherent_base :: "size_tree \<Rightarrow> bool" where
  "coherent_base t \<longleftrightarrow>
     (case st_base t of None \<Rightarrow> True
      | Some m \<Rightarrow> \<forall>i<length (mb_slots m). \<forall>j<length (mb_slots m).
          mb_name_offs m ! i = mb_name_offs m ! j \<longrightarrow> ts_name (mb_slots m ! i) = ts_name (mb_slots m ! j))"

definition base_interned :: "size_tree \<Rightarrow> intern_state \<Rightarrow> (u32 \<rightharpoonup> u32) \<Rightarrow> bool" where
  "base_interned t names bn \<longleftrightarrow>
     (case st_base t of None \<Rightarrow> True
      | Some m \<Rightarrow> \<forall>key off. bn key = Some off \<longrightarrow>
          (\<exists>i<length (mb_slots m). mb_name_offs m ! i = key \<and> in_names names (ts_name (mb_slots m ! i)) = Some off))"

lemma cache_intern_keeps:
  "cache_intern name st = (off, st') \<Longrightarrow> in_names st' name = Some off \<and> (\<forall>x y. in_names st x = Some y \<longrightarrow> in_names st' x = Some y)"
  by (auto simp: cache_intern_def Let_def split: option.splits)

lemma base_interned_mono:
  "base_interned t names bn \<Longrightarrow> (\<And>x y. in_names names x = Some y \<Longrightarrow> in_names names' x = Some y) \<Longrightarrow> base_interned t names' bn"
  unfolding base_interned_def by (cases "st_base t") (simp, fastforce)

lemma base_interned_upd:
  assumes "st_base t = Some m" "i < length (mb_slots m)" "in_names names (ts_name (mb_slots m ! i)) = Some off"
    and "base_interned t names bn"
  shows "base_interned t names (bn(mb_name_offs m ! i \<mapsto> off))"
  using assms unfolding base_interned_def by (simp only: option.case) (metis fun_upd_apply option.inject)

lemma name_offset_intern:
  assumes "coherent_base t" "base_interned t names bn" "idx < node_count t"
  shows "\<exists>bn'. name_offset t idx (names, bn) =
      (let (off, names') = cache_intern (ts_name (tree_slot_at t idx)) names in (off, names', bn')) \<and>
    base_interned t (snd (cache_intern (ts_name (tree_slot_at t idx)) names)) bn'"
proof -
  obtain off names' where new: "cache_intern (ts_name (tree_slot_at t idx)) names = (off, names')" by fastforce
  note keeps = cache_intern_keeps [OF new]
  have old: "base_interned t names' bn" by (rule base_interned_mono [OF assms(2)]) (use keeps in blast)
  show ?thesis
  proof (cases "idx < base_count t \<and> st_overrides t idx = None")
    case False
    have "name_offset t idx (names, bn) = (off, names', bn)"
    proof (cases "idx < base_count t")
      case True
      with False obtain e where "st_overrides t idx = Some e" by auto
      with True new show ?thesis by (simp add: name_offset_def tree_slot_at_def)
    qed (use new assms(3) in \<open>simp add: name_offset_def tree_slot_at_def\<close>)
    with old show ?thesis by (intro exI [of _ bn]) (simp add: new)
  next
    case True
    then obtain m where m: "st_base t = Some m" "idx < length (mb_slots m)"
      by (cases "st_base t") (auto simp: base_count_def)
    have slot: "tree_slot_at t idx = mb_slots m ! idx" using True m by (simp add: tree_slot_at_def)
    show ?thesis
    proof (cases "bn (mb_name_offs m ! idx)")
      case None
      then have "name_offset t idx (names, bn) = (off, names', bn(mb_name_offs m ! idx \<mapsto> off))"
        using True m new by (simp add: name_offset_def slot)
      moreover have "base_interned t names' (bn(mb_name_offs m ! idx \<mapsto> off))"
        by (rule base_interned_upd [OF m _ old]) (use keeps slot in simp)
      ultimately show ?thesis by (intro exI [of _ "bn(mb_name_offs m ! idx \<mapsto> off)"]) (simp add: new)
    next
      case (Some known_off)
      then obtain i where i: "i < length (mb_slots m)" "mb_name_offs m ! i = mb_name_offs m ! idx"
        "in_names names (ts_name (mb_slots m ! i)) = Some known_off"
        using assms(2) m by (auto simp: base_interned_def)
      moreover have "ts_name (mb_slots m ! i) = ts_name (mb_slots m ! idx)"
        using assms(1) i(1,2) m(2) unfolding coherent_base_def m(1) option.case by blast
      ultimately have "cache_intern (ts_name (tree_slot_at t idx)) names = (known_off, names)"
        by (simp add: cache_intern_def slot)
      moreover have "name_offset t idx (names, bn) = (known_off, names, bn)"
        using True m Some by (simp add: name_offset_def)
      ultimately show ?thesis using assms(2) by (intro exI [of _ bn]) simp
    qed
  qed
qed

lemma name_offsets_intern:
  assumes "coherent_base t" "base_interned t names bn" "\<forall>idx \<in> set order. idx < node_count t"
  shows "name_offsets t order (names, bn) = intern_all (map (\<lambda>idx. ts_name (tree_slot_at t idx)) order) names"
  using assms
proof (induction order arbitrary: names bn)
  case (Cons idx order)
  obtain off names' where new: "cache_intern (ts_name (tree_slot_at t idx)) names = (off, names')" by fastforce
  obtain bn' where "name_offset t idx (names, bn) = (off, names', bn')" "base_interned t names' bn'"
    using name_offset_intern [OF Cons.prems(1,2)] Cons.prems(3) by (fastforce simp: new)
  then show ?case using Cons.IH [of names' bn'] Cons.prems by (simp add: new Let_def)
qed simp

section \<open>Changing one entry of a section\<close>

lemma reads_arr_update:
  assumes "reads b (base, le32.arr ws)" "i < length ws"
  shows "reads (put_at b (base + i * 4) (put_le 4 w)) (base, le32.arr (ws[i := w]))"
    "base + i * 4 + 4 \<le> length b" "(get32 b (base + i * 4) :: u32 index_go) = Ret (ws ! i)"
proof -
  have fit: "i * 4 + length (put_le 4 w :: byte list) \<le> length (le32.arr ws)" using assms(2) by simp
  show "reads (put_at b (base + i * 4) (put_le 4 w)) (base, le32.arr (ws[i := w]))"
    using reads_within [OF assms(1) fit] le32.put_arr [OF assms(2)] by simp
  show len: "base + i * 4 + 4 \<le> length b" using assms by (simp add: reads_def)
  have "take 4 (drop (base + i * 4) b) = take 4 (drop (i * 4) (le32.arr ws))"
    by (rule reads_part [OF assms(1)]) (use assms(2) in simp)
  then show "(get32 b (base + i * 4) :: u32 index_go) = Ret (ws ! i)"
    using len le32.read_arr [OF assms(2)] by (simp add: get32_def le_at_def)
qed

lemma sections_start_update:
  assumes "sections ba l n recs ss ks b" "length recs \<le> n * 24" "length ss \<le> n + 1" "i < length ss"
  shows "sections ba l n recs (ss[i := w]) ks (put_at b (il_starts l + i * 4) (put_le 4 w))"
    and "cache_put32 (il_starts l + i * 4) w b = Ret (put_at b (il_starts l + i * 4) (put_le 4 w))"
    and "(get32 b (il_starts l + i * 4) :: u32 index_go) = Ret (ss ! i)"
proof -
  note s = sections_reads [OF assms(1)]
  note fit = reads_arr_update [OF s(2) assms(4)]
  show "(get32 b (il_starts l + i * 4) :: u32 index_go) = Ret (ss ! i)" by (rule fit(3))
  show "cache_put32 (il_starts l + i * 4) w b = Ret (put_at b (il_starts l + i * 4) (put_le 4 w))"
    using fit(2) by (simp add: cache_put32_def cache_put_Ret)
  show "sections ba l n recs (ss[i := w]) ks (put_at b (il_starts l + i * 4) (put_le 4 w))"
  proof (rule sections_put [OF assms(1)])
    show "reads (put_at b (il_starts l + i * 4) (put_le 4 w)) (il_entries l, recs)"
      by (rule reads_put_other [OF s(1)]) (use s assms fit(2) in \<open>simp_all add: apart_def\<close>)
    show "reads (put_at b (il_starts l + i * 4) (put_le 4 w)) (il_children l, le32.arr ks)"
      by (rule reads_put_other [OF s(3)]) (use s assms fit(2) in \<open>simp_all add: apart_def\<close>)
  qed (use s assms fit in simp_all)
qed

lemma sections_child_update:
  assumes "sections ba l n recs ss ks b" "length recs \<le> n * 24" "length ss \<le> n + 1" "i < length ks"
  shows "sections ba l n recs ss (ks[i := w]) (put_at b (il_children l + i * 4) (put_le 4 w))"
    and "cache_put32 (il_children l + i * 4) w b = Ret (put_at b (il_children l + i * 4) (put_le 4 w))"
proof -
  note s = sections_reads [OF assms(1)]
  note fit = reads_arr_update [OF s(3) assms(4)]
  show "cache_put32 (il_children l + i * 4) w b = Ret (put_at b (il_children l + i * 4) (put_le 4 w))"
    using fit(2) by (simp add: cache_put32_def cache_put_Ret)
  show "sections ba l n recs ss (ks[i := w]) (put_at b (il_children l + i * 4) (put_le 4 w))"
  proof (rule sections_put [OF assms(1)])
    show "reads (put_at b (il_children l + i * 4) (put_le 4 w)) (il_entries l, recs)"
      by (rule reads_put_other [OF s(1)]) (use s assms fit(2) in \<open>simp_all add: apart_def\<close>)
    show "reads (put_at b (il_children l + i * 4) (put_le 4 w)) (il_starts l, le32.arr ss)"
      by (rule reads_put_other [OF s(2)]) (use s assms fit(2) in \<open>simp_all add: apart_def\<close>)
  qed (use s assms fit in simp_all)
qed

lemma put_le_zero: "put_le k (0 :: 'a::len word) = replicate k 0"
  by (induction k) simp_all

lemma arr_zeros: "le32.arr (replicate k 0) = replicate (4 * k) 0"
  by (induction k) (simp_all add: put_le_zero replicate_add [symmetric] del: replicate_add)

lemma sections_fresh:
  assumes "l = index_layout_of v pool n" "length ba = il_length l"
    "reads ba (il_entries l, replicate (il_length l - il_entries l) 0)"
  shows "sections ba l n [] (replicate (n + 1) 0) (replicate (n - 1) 0) ba"
proof -
  note facts = layout_facts [of v pool n, folded assms(1)]
  have "il_length l - il_entries l = n * 24 + (4 * (n + 1) + 4 * (n - 1))" using facts by simp
  then have "reads ba (il_entries l, replicate (n * 24) 0 @ replicate (4 * (n + 1)) 0 @ replicate (4 * (n - 1)) 0)"
    using assms(3) by (simp only: replicate_add)
  then have "reads ba (il_starts l, replicate (4 * (n + 1)) 0)" "reads ba (il_children l, replicate (4 * (n - 1)) 0)"
    "il_entries l \<le> length ba"
    unfolding reads_append using facts(4,5) by (simp_all add: reads_def mult.commute)
  then show ?thesis
    using facts assms(2) by (simp add: sections_def filling_def arr_zeros del: replicate.simps replicate_Suc)
qed

section \<open>Counting and sorting\<close>

definition kids_below :: "tree_slot list \<Rightarrow> nat \<Rightarrow> nat \<Rightarrow> nat" where
  "kids_below es m p = length (filter (\<lambda>k. ts_parent (es ! k) = p) [1..<m])"

lemma kids_below_simps:
  "kids_below es 0 p = 0"
  "kids_below es (Suc m) p = kids_below es m p + (if 0 < m \<and> ts_parent (es ! m) = p then 1 else 0)"
  unfolding kids_below_def filter_upt_step by simp_all

definition child_counts :: "tree_slot list \<Rightarrow> nat \<Rightarrow> u32 list" where
  "child_counts es m = 0 # map (\<lambda>p. word_of_nat (kids_below es m p)) [0..<length es]"

lemma length_child_counts [simp]: "length (child_counts es m) = length es + 1"
  by (simp add: child_counts_def)

lemma child_counts_Suc:
  assumes "0 < m" "ts_parent (es ! m) < length es"
  shows "child_counts es (Suc m) = (child_counts es m)[ts_parent (es ! m) + 1 := child_counts es m ! (ts_parent (es ! m) + 1) + 1]"
  by (rule nth_equalityI)
    (use assms in \<open>auto simp: child_counts_def kids_below_simps nth_Cons nth_list_update split: nat.splits\<close>)

abbreviation records_upto :: "tree_slot list \<Rightarrow> u32 list \<Rightarrow> nat \<Rightarrow> byte list" where
  "records_upto es offs m \<equiv> concat (map (\<lambda>(e, off). record_bytes e off) (take m (zip es offs)))"

lemma put_counted_step:
  assumes "order_ok t order remap" "disk_tree_ok t o1" "es = compacted t order remap" "length offs = length order"
    and "m < length order" "sections ba l (length order) (records_upto es offs m) (child_counts es m) ks b"
  shows "\<exists>b'. put_counted t l remap (m, order ! m, offs ! m) b = Ret b' \<and>
    sections ba l (length order) (records_upto es offs (Suc m)) (child_counts es (Suc m)) ks b'"
proof -
  let ?e = "(tree_slot_at t (order ! m))\<lparr>ts_parent := remap ! par t (order ! m)\<rparr>"
  have es: "length es = length order" "es ! m = ?e" using assms(3,5) by simp_all
  have len: "length (records_upto es offs m) = m * 24" using assms(4,5) es by (simp add: length_records del: length_concat)
  note rec = sections_record [OF assms(6) len assms(5) length_record_bytes [of ?e "offs ! m"]]
  define b1 where "b1 = put_at b (il_entries l + m * 24) (record_bytes ?e (offs ! m))"
  have recs: "records_upto es offs m @ record_bytes ?e (offs ! m) = records_upto es offs (Suc m)"
    using assms(4,5) es by (simp add: take_Suc_conv_app_nth)
  have s1: "sections ba l (length order) (records_upto es offs (Suc m)) (child_counts es m) ks b1"
    using rec(1) by (simp only: recs b1_def)
  have put: "put_counted t l remap (m, order ! m, offs ! m) b =
      (if 0 < m then go_bind (get32 b1 (il_starts l + (ts_parent (es ! m) + 1) * 4))
          (\<lambda>k. cache_put32 (il_starts l + (ts_parent (es ! m) + 1) * 4) (k + 1) b1)
       else Ret b1)"
    unfolding put_counted_def prod.case Let_def order_parent(2) [OF assms(1,2,5)] go_bind.simps
      cache_write_record_Ret [OF rec(2)] b1_def es(2) by simp
  show ?thesis
  proof (cases "0 < m")
    case True
    then have "ts_parent (es ! m) < m" using assms(1,5) es(2) by (simp add: order_ok_def)
    then have p: "ts_parent (es ! m) + 1 < length (child_counts es m)" "ts_parent (es ! m) < length es"
      using assms(5) es(1) by simp_all
    have len1: "length (records_upto es offs (Suc m)) \<le> length order * 24"
      using assms(4,5) es(1) by (simp add: length_records del: length_concat)
    note upd = sections_start_update [OF s1 len1 _ p(1)]
    show ?thesis
      unfolding put child_counts_Suc [OF True p(2)]
      using upd es(1) True by (simp del: length_concat add: upd(1) [unfolded One_nat_def])
  next
    case False
    then have "child_counts es (Suc m) = child_counts es m" by (simp add: child_counts_def kids_below_simps)
    then show ?thesis unfolding put using s1 False by auto
  qed
qed

text \<open>Prefix sums in place.\<close>

lemma row_start_sorted:
  "p < length es \<Longrightarrow> row_start (sorted_rows es) (Suc p) = row_start (sorted_rows es) p + kids_below es (length es) p"
  by (subst row_start_Suc) (simp_all add: sorted_rows_def kids_below_def)

definition summed_upto :: "tree_slot list \<Rightarrow> nat \<Rightarrow> u32 list" where
  "summed_upto es m = map (\<lambda>j. if j \<le> m then word_of_nat (row_start (sorted_rows es) j) else child_counts es (length es) ! j) [0..<length es + 1]"

lemma length_summed_upto [simp]: "length (summed_upto es m) = length es + 1"
  by (simp add: summed_upto_def)

lemma nth_summed_upto:
  "j < length es + 1 \<Longrightarrow> summed_upto es m ! j =
    (if j \<le> m then word_of_nat (row_start (sorted_rows es) j) else child_counts es (length es) ! j)"
  unfolding summed_upto_def by (simp del: upt_Suc)

lemma summed_upto_0: "summed_upto es 0 = child_counts es (length es)"
  by (rule nth_equalityI) (auto simp: nth_summed_upto row_start_def child_counts_def)

lemma summed_upto_length: "summed_upto es (length es) = map word_of_nat (starts_of (sorted_rows es))"
  by (rule nth_equalityI) (auto simp: nth_summed_upto nth_starts_of sorted_rows_def)

lemma summed_upto_Suc:
  assumes "m < length es"
  shows "summed_upto es (Suc m) = (summed_upto es m)[m + 1 := summed_upto es m ! m + summed_upto es m ! (m + 1)]"
proof (rule nth_equalityI)
  fix j assume j: "j < length (summed_upto es (Suc m))"
  have "child_counts es (length es) ! Suc m = word_of_nat (kids_below es (length es) m)"
    using assms by (simp add: child_counts_def)
  then show "summed_upto es (Suc m) ! j = (summed_upto es m)[m + 1 := summed_upto es m ! m + summed_upto es m ! (m + 1)] ! j"
    using j assms by (auto simp: nth_summed_upto nth_list_update row_start_sorted le_Suc_eq)
qed simp

lemma sum_starts_step:
  assumes "sections ba l n recs (summed_upto es m) ks b" "length recs \<le> n * 24" "length es = n" "m < n"
  shows "\<exists>b'. sum_starts l m b = Ret b' \<and> sections ba l n recs (summed_upto es (Suc m)) ks b'"
proof -
  have len: "length (summed_upto es m) \<le> n + 1" "m < length (summed_upto es m)" "m + 1 < length (summed_upto es m)"
    using assms(3,4) by simp_all
  note x = sections_start_update(3) [OF assms(1,2) len(1,2)] and y = sections_start_update [OF assms(1,2) len(1,3)]
  have "sum_starts l m b =
      Ret (put_at b (il_starts l + (m + 1) * 4) (put_le 4 (summed_upto es m ! m + summed_upto es m ! (m + 1))))"
    unfolding sum_starts_def x y(3) go_bind.simps y(2) ..
  moreover have "m < length es" using assms(3,4) by simp
  ultimately show ?thesis using y(1) by (simp only: summed_upto_Suc) blast
qed

text \<open>The insertion of the children at the cursors of their parents.\<close>

lemma sorted_position:
  assumes "0 < m" "m < length es" "ts_parent (es ! m) < length es"
  defines "pos \<equiv> row_start (sorted_rows es) (ts_parent (es ! m)) + kids_below es m (ts_parent (es ! m))"
  shows "pos < length (concat (sorted_rows es))" "concat (sorted_rows es) ! pos = m"
proof -
  let ?p = "ts_parent (es ! m)"
  let ?P = "\<lambda>k. ts_parent (es ! k) = ?p"
  have "[1..<length es] = [1..<m] @ [m..<length es]"
    using assms(1,2) upt_add_eq_append [of 1 m "length es - m"] by simp
  then have split: "[1..<length es] = [1..<m] @ m # [Suc m..<length es]"
    using assms(2) by (simp add: upt_conv_Cons)
  have row: "sorted_rows es ! ?p = filter ?P [1..<m] @ m # filter ?P [Suc m..<length es]"
    using assms(3) by (simp only: sorted_rows_def nth_map_upt diff_zero split) simp
  have p: "?p < length (sorted_rows es)" using assms(3) by (simp add: sorted_rows_def)
  have r: "kids_below es m ?p < length (sorted_rows es ! ?p)" by (simp add: row kids_below_def)
  show "concat (sorted_rows es) ! pos = m"
    unfolding pos_def concat_row [OF p r] row by (simp add: kids_below_def)
  have "pos < row_start (sorted_rows es) (Suc ?p)" using r by (simp add: pos_def row_start_Suc [OF p])
  then show "pos < length (concat (sorted_rows es))" using row_start_le less_le_trans by blast
qed

definition placed :: "tree_slot list \<Rightarrow> nat \<Rightarrow> u32 list" where
  "placed es m = map (\<lambda>k. if k < m then word_of_nat k else 0) (concat (sorted_rows es))"

definition cursors :: "tree_slot list \<Rightarrow> nat \<Rightarrow> u32 list" where
  "cursors es m = map (\<lambda>p. word_of_nat (row_start (sorted_rows es) p + kids_below es m p)) [0..<length es]"

lemma length_placed [simp]: "length (placed es m) = length (concat (sorted_rows es))"
  by (simp only: placed_def length_map)

lemma placed_Suc:
  assumes "0 < m" "m < length es" "ts_parent (es ! m) < length es" "rows_good es (sorted_rows es)"
  shows "placed es (Suc m) = (placed es m)[row_start (sorted_rows es) (ts_parent (es ! m)) + kids_below es m (ts_parent (es ! m)) := word_of_nat m]"
proof (rule nth_equalityI)
  let ?pos = "row_start (sorted_rows es) (ts_parent (es ! m)) + kids_below es m (ts_parent (es ! m))"
  let ?c = "concat (sorted_rows es)"
  note pos = sorted_position [OF assms(1-3)]
  fix j assume j: "j < length (placed es (Suc m))"
  then have j': "j < length ?c" by (simp only: length_placed)
  have "distinct ?c" using assms(4) by (simp add: rows_good_def)
  then have "?c ! j = m \<longleftrightarrow> j = ?pos" using pos j' nth_eq_iff_index_eq by metis
  then show "placed es (Suc m) ! j = (placed es m)[?pos := word_of_nat m] ! j"
    using j' pos(1) by (auto simp: placed_def nth_list_update less_Suc_eq simp del: length_concat)
qed simp

lemma cursors_Suc:
  assumes "0 < m" "ts_parent (es ! m) < length es"
  shows "cursors es (Suc m) = (cursors es m)[ts_parent (es ! m) := cursors es m ! ts_parent (es ! m) + 1]"
  by (rule nth_equalityI) (use assms in \<open>auto simp: cursors_def kids_below_simps nth_list_update\<close>)

lemma put_sorted_child_step:
  assumes "order_ok t order remap" "disk_tree_ok t o1" "es = compacted t order remap" "rows_good es (sorted_rows es)"
    and "m < length order" "length es \<le> unat cache_parent_mask + 1"
    and "sections ba l (length order) recs ss (placed es m) b" "length recs \<le> length order * 24" "length ss \<le> length order + 1"
  shows "\<exists>b'. put_sorted_child t l remap (m, order ! m) (cursors es m, b) = Ret (cursors es (Suc m), b') \<and>
    sections ba l (length order) recs ss (placed es (Suc m)) b'"
proof (cases "0 < m")
  case False
  moreover have "k \<noteq> 0" if "k \<in> set (concat (sorted_rows es))" for k
    using that by (auto simp: sorted_rows_def)
  ultimately have "placed es (Suc m) = placed es m" by (simp add: placed_def del: set_concat)
  moreover have "cursors es (Suc m) = cursors es m" using False by (simp add: cursors_def kids_below_simps)
  ultimately show ?thesis using False assms(7) by (simp add: put_sorted_child_def)
next
  case True
  have es: "length es = length order" "ts_parent (es ! m) = remap ! par t (order ! m)" using assms(3,5) by simp_all
  have "remap ! par t (order ! m) < m" using assms(1,5) True by (simp add: order_ok_def)
  then have p: "ts_parent (es ! m) < length es" "m < length es" using es assms(5) by simp_all
  define pos where "pos = row_start (sorted_rows es) (ts_parent (es ! m)) + kids_below es m (ts_parent (es ! m))"
  have pos: "pos < length (placed es m)"
    using sorted_position(1) [OF True p(2,1)] by (simp only: pos_def length_placed)
  have "length (concat (sorted_rows es)) = card {1..<length es}"
    using assms(4) unfolding rows_good_def by (metis distinct_card)
  then have "pos < 2 ^ 32" using pos assms(6) by (simp add: mask30 del: length_concat)
  then have cur: "unat (cursors es m ! ts_parent (es ! m)) = pos"
    using p(1) by (simp add: cursors_def pos_def unat_of_nat del: of_nat_add)
  note upd = sections_child_update [OF assms(7,8,9) pos, where w = "word_of_nat m"]
  have "put_sorted_child t l remap (m, order ! m) (cursors es m, b) =
      go_bind (byte_at (cursors es m) (ts_parent (es ! m))) (\<lambda>off.
        go_bind (cache_put32 (il_children l + unat off * 4) (word_of_nat m) b) (\<lambda>b.
          Ret ((cursors es m)[ts_parent (es ! m) := off + 1], b)))"
    unfolding put_sorted_child_def prod.case order_parent(2) [OF assms(1,2,5)] go_bind.simps es(2) using True by simp
  moreover have "ts_parent (es ! m) < length (cursors es m)" using p(1) by (simp add: cursors_def)
  ultimately have "put_sorted_child t l remap (m, order ! m) (cursors es m, b) =
      Ret (cursors es (Suc m), put_at b (il_children l + pos * 4) (put_le 4 (word_of_nat m :: u32)))"
    using upd(2) by (simp add: byte_at_def cur cursors_Suc [OF True p(1)])
  then show ?thesis
    using upd(1) placed_Suc [OF True p(2,1) assms(4)] by (simp add: pos_def)
qed

section \<open>What the ordered encoder writes\<close>

lemma go_map_upt:
  assumes "\<And>i. i < n \<Longrightarrow> f i = Ret (xs ! i)" "n \<le> length xs"
  shows "go_map f [0..<n] = Ret (take n xs)"
  unfolding go_map_Ret by (rule list_all2_all_nthI) (use assms in simp_all)

lemma compacted_size:
  assumes "order_ok t order remap" "disk_tree_ok t o1"
  shows "length order \<le> unat cache_parent_mask + 1" "0 < length order"
  using compacted_ok(1) [OF assms] by (simp_all add: disk_tree_ok_def bad_root_def not_less)

lemma write_ordered_cases:
  assumes "order_ok t order remap" "disk_tree_ok t o1" "coherent_base t"
    and "es = compacted t order remap" "visited_rows t order remap = sorted_rows es"
  shows "if index_too_large v es then write_ordered t v meta order remap = cache_invalid ''base exceeds v7 offsets''
    else \<exists>b. laid v meta es (sorted_rows es) b \<and> write_ordered t v meta order remap = seal_disk_index b"
proof -
  let ?n = "length order"
  have n: "length es = ?n" by (simp add: assms(4))
  have good: "rows_good es (sorted_rows es)" using visited_rows_good [OF assms(1,2)] by (simp only: assms(4,5))
  have rows: "length (sorted_rows es) = ?n" by (simp add: sorted_rows_def n)
  have ts: "map (\<lambda>idx. ts_name (tree_slot_at t idx)) order = map ts_name es" by (simp add: compacted_def assms(4))
  obtain offs names where names: "intern_all (map ts_name es) no_names = (offs, names)" by fastforce
  have offs: "length offs = ?n" using intern_all_prefix [OF names] n by simp
  have "base_interned t no_names Map.empty" by (simp add: base_interned_def split: option.split)
  moreover have "\<forall>idx \<in> set order. idx < node_count t" using assms(1) by (auto simp: order_ok_def tree_valid_def)
  ultimately have offsets: "name_offsets t order (no_names, Map.empty) = (offs, names)"
    using name_offsets_intern [OF assms(3)] by (simp add: ts names)
  show ?thesis
  proof (cases rule: allocate_cases [of v meta "in_pool names" ?n])
    case exceeds
    then show ?thesis by (simp add: write_ordered_def offsets names n cache_invalid_def index_too_large_def Let_def)
  next
    case (fits ba)
    define l where "l = index_layout_of v (in_pool names) ?n"
    let ?recs = "records_upto es offs"
    have len: "length (?recs m) \<le> ?n * 24" for m by (simp add: length_records offs n del: length_concat)
    have none: "concat (sorted_rows es) = [] \<or> 0 < ?n" using compacted_size(2) [OF assms(1,2)] by simp
    have kids: "length (concat (sorted_rows es)) = ?n - 1"
      using good n unfolding rows_good_def by (metis card_atLeastLessThan distinct_card)
    have zero: "placed es 0 = replicate (?n - 1) 0" using kids by (simp add: placed_def map_replicate_const del: length_concat)
    have start: "child_counts es 0 = replicate (?n + 1) 0"
      using n by (simp add: child_counts_def kids_below_simps map_replicate_const)
    have "\<exists>b. go_fold (put_counted t l remap) (zip [0..<?n] (zip order offs)) ba = Ret b \<and>
        sections ba l ?n (?recs (length (zip [0..<?n] (zip order offs)))) (child_counts es (length (zip [0..<?n] (zip order offs)))) (placed es 0) b"
    proof (rule go_fold_steps)
      show "sections ba l ?n (?recs 0) (child_counts es 0) (placed es 0) ba"
        unfolding start zero using sections_fresh [OF l_def, of ba] fits(2,4) by (simp add: l_def)
      fix m b assume "m < length (zip [0..<?n] (zip order offs))"
        and "sections ba l ?n (?recs m) (child_counts es m) (placed es 0) b"
      then show "\<exists>b'. put_counted t l remap (zip [0..<?n] (zip order offs) ! m) b = Ret b' \<and>
          sections ba l ?n (?recs (Suc m)) (child_counts es (Suc m)) (placed es 0) b'"
        using put_counted_step [OF assms(1,2,4) offs] by (simp add: offs)
    qed
    then obtain b1 where b1: "go_fold (put_counted t l remap) (zip [0..<?n] (zip order offs)) ba = Ret b1"
      "sections ba l ?n (?recs ?n) (summed_upto es 0) (placed es 0) b1"
      by (auto simp: summed_upto_0 n offs)
    have "\<exists>b. go_fold (sum_starts l) [0..<?n] b1 = Ret b \<and>
        sections ba l ?n (?recs ?n) (summed_upto es (length [0..<?n])) (placed es 0) b"
      by (rule go_fold_steps) (use b1(2) sum_starts_step [OF _ len n] in auto)
    then obtain b2 where b2: "go_fold (sum_starts l) [0..<?n] b1 = Ret b2"
      "sections ba l ?n (?recs ?n) (map word_of_nat (starts_of (sorted_rows es))) (placed es 0) b2"
      by (auto simp: summed_upto_length simp flip: n)
    let ?ss = "map word_of_nat (starts_of (sorted_rows es)) :: u32 list"
    have ss: "length ?ss = ?n + 1" using rows by simp
    have "(go_map (\<lambda>i. get32 b2 (il_starts l + i * 4)) [0..<?n] :: u32 list index_go) = Ret (take ?n ?ss)"
      by (rule go_map_upt) (use sections_start_update(3) [OF b2(2) len] ss in simp_all)
    moreover have "take ?n ?ss = cursors es 0"
      by (rule nth_equalityI) (use rows n nth_starts_of [of _ "sorted_rows es"] in \<open>simp_all add: cursors_def kids_below_simps\<close>)
    ultimately have read: "(go_map (\<lambda>i. get32 b2 (il_starts l + i * 4)) [0..<?n] :: u32 list index_go) = Ret (cursors es 0)" by simp
    let ?xs = "zip [0..<?n] order"
    define P where "P m st \<longleftrightarrow> fst st = cursors es m \<and> sections ba l ?n (?recs ?n) ?ss (placed es m) (snd st)"
      for m and st :: "u32 list \<times> byte list"
    have "\<exists>st. go_fold (put_sorted_child t l remap) ?xs (cursors es 0, b2) = Ret st \<and> P (length ?xs) st"
    proof (rule go_fold_steps)
      show "P 0 (cursors es 0, b2)" using b2(2) by (simp add: P_def)
      fix m st assume m: "m < length ?xs" "P m st"
      obtain c where st: "st = (cursors es m, c)" "sections ba l ?n (?recs ?n) ?ss (placed es m) c"
        using m(2) by (cases st) (simp add: P_def)
      have "m < ?n" "length es \<le> unat cache_parent_mask + 1" "length ?ss \<le> ?n + 1"
        using m(1) compacted_size(1) [OF assms(1,2)] n ss by simp_all
      from put_sorted_child_step [OF assms(1,2,4) good this(1,2) st(2) len this(3)]
      show "\<exists>st'. put_sorted_child t l remap (?xs ! m) st = Ret st' \<and> P (Suc m) st'"
        using m(1) by (auto simp: P_def st(1))
    qed
    then obtain b3 where b3: "go_fold (put_sorted_child t l remap) ?xs (cursors es 0, b2) = Ret (cursors es ?n, b3)"
      "sections ba l ?n (?recs ?n) ?ss (placed es ?n) b3"
      by (auto simp: P_def)
    have "placed es ?n = map word_of_nat (concat (sorted_rows es))"
      using good n by (simp add: placed_def rows_good_def del: set_concat)
    then have "laid v meta es (sorted_rows es) b3"
      using b3(2) fits(1) offs n by (auto simp: laid_def names l_def sections_def)
    moreover have "write_ordered t v meta order remap = seal_disk_index b3"
      using fits(1) b1(1) b2(1) read b3(1) by (simp add: write_ordered_def offsets Let_def flip: l_def)
    moreover have "\<not> index_too_large v es" using fits(5) by (simp add: index_too_large_def names n)
    ultimately show ?thesis by auto
  qed
qed

end
