(* ===== verification/Index_Roundtrip.thy ===== *)
theory Index_Roundtrip
  imports Index_Sorted
begin

text \<open>
  The two encoders agree, and what they write is read back by both loaders.
\<close>

section \<open>The counts of a tree\<close>

text \<open>What a loader has checked of a mapped base: its header has the counts of its slots.\<close>

definition counted_base :: "size_tree \<Rightarrow> bool" where
  "counted_base t \<longleftrightarrow>
     (case st_base t of None \<Rightarrow> True
      | Some m \<Rightarrow> \<forall>d. base_used_count m d = word_of_nat (length (filter (counts_slot d) (mb_slots m))))"

lemma length_filter_upt_Suc: "length (filter P [0..<Suc m]) = length (filter P [0..<m]) + (if P m then 1 else 0)"
  by simp

lemma overlay_count:
  "fold (\<lambda>idx n. case ov idx of None \<Rightarrow> n
        | Some e \<Rightarrow> let n1 = (if P (f idx) then n - 1 else n) in if P e then n1 + 1 else n1) [0..<m] (k :: u64) =
   k - word_of_nat (length (filter (\<lambda>i. P (f i)) [0..<m])) +
   word_of_nat (length (filter (\<lambda>i. P (case ov i of None \<Rightarrow> f i | Some e \<Rightarrow> e)) [0..<m]))"
  by (induction m) (simp_all add: Let_def algebra_simps split: option.splits)

lemma filter_nth_length: "length (filter P xs) = length (filter (\<lambda>i. P (xs ! i)) [0..<length xs])"
  by (metis (mono_tags, lifting) filter_map length_map map_nth comp_def filter_cong)

lemma filter_upt_cong:
  "(\<And>i. i < n \<Longrightarrow> P i \<longleftrightarrow> Q i) \<Longrightarrow> length (filter P [0..<n]) = length (filter Q [0..<n])"
  by (rule arg_cong [where f = length], rule filter_cong) simp_all

lemma count_used_slots:
  assumes "counted_base t"
  shows "count_used t d = word_of_nat (slots_counted t d)"
proof (cases "st_base t")
  case None
  then have "slots_counted t d = length (filter (counts_slot d) (st_entries t))"
    unfolding slots_counted_def filter_nth_length [of _ "st_entries t"]
    by (simp only: node_count_def base_count_def option.case add_0) (rule filter_upt_cong, simp add: tree_slot_at_def node_count_def base_count_def)
  then show ?thesis using None by (simp add: count_used_def fold_count)
next
  case (Some m)
  let ?nb = "length (mb_slots m)"
  let ?here = "\<lambda>i. counts_slot d (tree_slot_at t i)"
  let ?merged = "\<lambda>i. counts_slot d (case st_overrides t i of None \<Rightarrow> mb_slots m ! i | Some e \<Rightarrow> e)"
  have "[0..<node_count t] = [0..<?nb] @ map (\<lambda>i. i + ?nb) [0..<length (st_entries t)]"
    using Some by (simp add: node_count_def base_count_def map_add_upt add.commute flip: upt_add_eq_append)
  then have "slots_counted t d = length (filter ?here [0..<?nb]) + length (filter (\<lambda>i. ?here (i + ?nb)) [0..<length (st_entries t)])"
    by (simp add: slots_counted_def filter_map comp_def)
  moreover have "length (filter ?here [0..<?nb]) = length (filter ?merged [0..<?nb])"
    by (rule filter_upt_cong) (use Some in \<open>simp add: tree_slot_at_def base_count_def split: option.split\<close>)
  moreover have "length (filter (\<lambda>i. ?here (i + ?nb)) [0..<length (st_entries t)]) = length (filter (counts_slot d) (st_entries t))"
    unfolding filter_nth_length [of _ "st_entries t"]
    by (rule filter_upt_cong) (use Some in \<open>simp add: tree_slot_at_def base_count_def node_count_def\<close>)
  ultimately have n: "slots_counted t d = length (filter ?merged [0..<?nb]) + length (filter (counts_slot d) (st_entries t))" by simp
  have base: "base_used_count m d = word_of_nat (length (filter (\<lambda>i. counts_slot d (mb_slots m ! i)) [0..<?nb]))"
    using assms Some by (simp add: counted_base_def filter_nth_length [of _ "mb_slots m"])
  have "count_used t d = word_of_nat (length (filter (\<lambda>i. counts_slot d (case st_overrides t i of None \<Rightarrow> mb_slots m ! i | Some e \<Rightarrow> e)) [0..<?nb])) +
      word_of_nat (length (filter (counts_slot d) (st_entries t)))"
    using Some by (simp add: count_used_def fold_count overlay_count base)
  then show ?thesis by (simp add: n)
qed

lemma compacted_counts:
  assumes "order_ok t order remap"
  shows "length (filter (counts_slot d) (compacted t order remap)) = slots_counted t d"
proof -
  have "distinct (used_slots t)" "set (used_slots t) = set order"
    using assms by (auto simp: used_slots_def order_ok_def tree_valid_def)
  then have mset: "mset order = mset (used_slots t)"
    using assms set_eq_iff_mset_eq_distinct [of order "used_slots t"] by (simp add: order_ok_def)
  have "length (filter (counts_slot d) (compacted t order remap)) = length (filter (\<lambda>i. counts_slot d (tree_slot_at t i)) order)"
    by (simp add: compacted_def filter_map comp_def counts_slot_def)
  also have "\<dots> = size (filter_mset (\<lambda>i. counts_slot d (tree_slot_at t i)) (mset order))" by (simp flip: mset_filter)
  also have "\<dots> = length (filter (\<lambda>i. counts_slot d (tree_slot_at t i)) (used_slots t))" unfolding mset by (simp flip: mset_filter)
  also have "\<dots> = slots_counted t d"
    by (auto simp: used_slots_def slots_counted_def counts_slot_def conj_commute intro!: arg_cong [where f = length] filter_cong)
  finally show ?thesis .
qed

section \<open>The encoders\<close>

lemma encode_unordered_cases:
  assumes "disk_tree_ok t False"
  obtains order remap where "order_ok t order remap"
    "if index_too_large v (compacted t order remap)
     then encode_unordered t v meta = Some (cache_invalid ''base exceeds v7 offsets'')
     else \<exists>b. laid v meta (compacted t order remap) (visited_rows t order remap) b \<and> encode_unordered t v meta = Some (seal_disk_index b)"
    "(\<forall>i. tree_valid t i \<and> 0 < i \<longrightarrow> par t i < i) \<Longrightarrow> order = used_slots t"
proof -
  let ?n = "node_count t"
  obtain children ord where count: "go_fold (count_child t) [0..<?n] (replicate ?n [], True) = Ret (children, ord)"
      "tree_kids t children" "ord \<longleftrightarrow> (\<forall>i. tree_valid t i \<and> 0 < i \<longrightarrow> par t i < i)"
    by (rule count_children [OF assms])
  have root: "tree_is_dir t 0" using assms by (simp add: disk_tree_ok_def bad_root_def)
  obtain order remap where visit: "visit_slots ?n children [0] [] (replicate ?n 0) = Some (order, remap)" "visiting t [] order remap"
    using visit_slots_ok [OF count(2) visiting_start [OF root length_replicate [where x = 0]], of ?n] by auto
  have ok: "order_ok t order remap" by (rule visited_all [OF visit(2) assms])
  define r2 where "r2 = fold (\<lambda>i remap. remap[sort order ! i := i]) [0..<length (sort order)] remap"
  have encode: "encode_unordered t v meta =
      Some (if ord then write_unordered t v meta children (sort order) r2 else write_unordered t v meta children order remap)"
    using count(1) visit(1) by (simp add: encode_unordered_def r2_def Let_def)
  show thesis
  proof (cases ord)
    case False
    show thesis
      by (rule that [OF ok]) (use write_unordered_cases [OF ok count(2) assms, of v meta] encode False count(3) in \<open>auto split: if_splits\<close>)
  next
    case True
    have sort: "sort order = used_slots t" using ok by (intro sort_used_slots) (simp_all add: order_ok_def)
    have "set (used_slots t) \<subseteq> {..<length remap}" "distinct (used_slots t)"
      using ok by (auto simp: used_slots_def order_ok_def)
    from renumber [OF this(2,1) le_refl] have r2: "length r2 = node_count t" "\<forall>k<length (used_slots t). r2 ! (used_slots t ! k) = k"
      using ok by (simp_all add: r2_def sort order_ok_def)
    have ok2: "order_ok t (used_slots t) r2"
      by (rule used_slots_ok [OF assms _ r2(1)]) (use True count(3) r2(2) in auto)
    show thesis
      by (rule that [OF ok2]) (use write_unordered_cases [OF ok2 count(2) assms, of v meta] encode True sort in \<open>auto split: if_splits\<close>)
  qed
qed

lemma laid_seal_unique:
  assumes "laid v meta es (sorted_rows es) b" "laid v meta es (sorted_rows es) b'" "rows_good es (sorted_rows es)"
  shows "b = b'"
proof (rule laid_unique [OF assms(1,2)])
  have "length (concat (sorted_rows es)) = card {1..<length es}"
    using assms(3) unfolding rows_good_def by (metis distinct_card)
  then show "length (concat (sorted_rows es)) = length es - 1" by simp
qed (simp add: sorted_rows_def)

lemma remap_unique:
  assumes "order_ok t order r" "order_ok t order r'"
  shows "tree_valid t i \<Longrightarrow> r ! i = r' ! i"
  using order_position [OF assms(1)] assms(2) by (metis order_ok_def)

lemma compacted_unique:
  assumes "order_ok t order r" "order_ok t order r'" "disk_tree_ok t o1"
  shows "compacted t order r = compacted t order r'"
proof (rule nth_equalityI)
  fix k assume k: "k < length (compacted t order r)"
  then have valid: "tree_valid t (order ! k)" using order_parent(1) [OF assms(1,3)] by simp
  have "tree_valid t (par t (order ! k))"
  proof (cases "order ! k = 0")
    case True
    then show ?thesis using valid assms(3) by (simp add: disk_tree_ok_def bad_root_def)
  next
    case False
    then have "tree_is_dir t (par t (order ! k))"
      using assms(3) valid by (simp add: disk_tree_ok_def entry_fits_def tree_valid_def)
    then show ?thesis by (simp add: tree_is_dir_def tree_valid_def)
  qed
  then show "compacted t order r ! k = compacted t order r' ! k"
    using k remap_unique [OF assms(1,2)] by simp
qed simp

lemma encode_ordered_cases:
  assumes "disk_tree_ok t False" "coherent_base t" "encode_ordered t v meta = Some r"
  obtains remap where "order_ok t (used_slots t) remap" "\<forall>i. tree_valid t i \<and> 0 < i \<longrightarrow> par t i < i"
    "visited_rows t (used_slots t) remap = sorted_rows (compacted t (used_slots t) remap)"
    "if index_too_large v (compacted t (used_slots t) remap) then r = cache_invalid ''base exceeds v7 offsets''
     else \<exists>b. laid v meta (compacted t (used_slots t) remap) (sorted_rows (compacted t (used_slots t) remap)) b \<and> r = seal_disk_index b"
proof -
  obtain order remap where slots: "ordered_slots t [0..<node_count t] [] (replicate (node_count t) 0) = Some (order, remap)"
      "r = write_ordered t v meta order remap"
    using assms(3) by (auto simp: encode_ordered_def split: option.splits)
  from ordered_slots_ok [OF assms(1) slots(1)] have ok: "order_ok t (used_slots t) remap" "order = used_slots t"
    "\<forall>i. tree_valid t i \<and> 0 < i \<longrightarrow> par t i < i" by auto
  note rows = visited_rows_sorted [OF assms(1) ok(1)]
  show thesis
    by (rule that [OF ok(1,3) rows]) (use write_ordered_cases [OF ok(1) assms(1,2) refl rows, of v meta] slots(2) ok(2) in simp)
qed

lemma ordered_is_unordered:
  assumes "disk_tree_ok t False" "coherent_base t" "encode_ordered t v meta = Some r"
  shows "encode_unordered t v meta = Some r"
proof -
  obtain r1 where r1: "order_ok t (used_slots t) r1" "\<forall>i. tree_valid t i \<and> 0 < i \<longrightarrow> par t i < i"
    "visited_rows t (used_slots t) r1 = sorted_rows (compacted t (used_slots t) r1)"
    "if index_too_large v (compacted t (used_slots t) r1) then r = cache_invalid ''base exceeds v7 offsets''
     else \<exists>b. laid v meta (compacted t (used_slots t) r1) (sorted_rows (compacted t (used_slots t) r1)) b \<and> r = seal_disk_index b"
    by (rule encode_ordered_cases [OF assms])
  obtain order r2 where r2: "order_ok t order r2"
    "if index_too_large v (compacted t order r2)
     then encode_unordered t v meta = Some (cache_invalid ''base exceeds v7 offsets'')
     else \<exists>b. laid v meta (compacted t order r2) (visited_rows t order r2) b \<and> encode_unordered t v meta = Some (seal_disk_index b)"
    "order = used_slots t"
    using encode_unordered_cases [OF assms(1), of v meta] r1(2) by metis
  let ?es = "compacted t (used_slots t) r1"
  have es: "compacted t order r2 = ?es" using compacted_unique [OF _ r1(1) assms(1)] r2(1,3) by simp
  have rows: "visited_rows t order r2 = sorted_rows ?es"
    using visited_rows_sorted [OF assms(1)] r2(1,3) es by simp
  have good: "rows_good ?es (sorted_rows ?es)" using visited_rows_good [OF r1(1) assms(1)] r1(3) by simp
  show ?thesis using r1(4) r2(2) laid_seal_unique [OF _ _ good] by (auto simp: es rows split: if_splits)
qed

section \<open>What a loaded base guarantees\<close>

lemma loaded_base:
  assumes "decode_disk_index_with b vol mapped = Ret d"
  shows "coherent_base (di_tree d)" "counted_base (di_tree d)"
proof -
  obtain h checksum pool meta where d: "read_index_header b vol = Ret (h, checksum)" "body_ok b h pool vol meta"
      "d = (if mapped
            then \<lparr>di_tree = mapped_tree vol (file_base b h pool), di_records = None, di_meta = meta, di_checksum = checksum\<rparr>
            else \<lparr>di_tree = rebuild_child_arrays (heap_tree vol (file_slots b h pool)),
                  di_records = Some (file_records b h pool), di_meta = meta, di_checksum = checksum\<rparr>)"
    using assms by (auto simp: decode_with_Ret)
  have len: "128 \<le> length b" using read_header_layout [OF d(1)] by (simp add: file_layout_def)
  have names: "file_names_ok b h pool" and counts: "counts_ok b h meta" using d(2) by (simp_all add: body_ok_def)
  have base: "count_used (mapped_tree vol (file_base b h pool)) directory = base_used_count (file_base b h pool) directory" for directory
    by (simp add: count_used_def mapped_tree_def heap_tree_def fold_unchanged)
  have "base_used_count (file_base b h pool) False = word_of_nat (length (filter (counts_slot False) (file_slots b h pool)))"
    "base_used_count (file_base b h pool) True = word_of_nat (length (filter (counts_slot True) (file_slots b h pool)))"
    using count_used_mapped [OF d(2) len] counts unfolding base counts_ok_def count_slots [OF names] by simp_all
  then have "base_used_count (file_base b h pool) directory = word_of_nat (length (filter (counts_slot directory) (file_slots b h pool)))"
    for directory by (cases directory) simp_all
  moreover have "ts_name (file_slots b h pool ! i) = ts_name (file_slots b h pool ! j)"
    if "i < ih_count h" "j < ih_count h" "file_off b h i = file_off b h j" for i j
    using that(1,2) by (simp add: file_slots_def slot_on_file_def record_slot_def file_name_def that(3))
  ultimately have mapped: "counted_base (mapped_tree vol (file_base b h pool))"
      "\<forall>i<ih_count h. \<forall>j<ih_count h. file_off b h i = file_off b h j \<longrightarrow> ts_name (file_slots b h pool ! i) = ts_name (file_slots b h pool ! j)"
    unfolding counted_base_def mapped_access(4) option.case by (simp add: file_base_def, blast)
  have len: "length (file_slots b h pool) = ih_count h" by (simp add: file_slots_def)
  have "coherent_base (mapped_tree vol (file_base b h pool))"
    unfolding coherent_base_def mapped_access(4) option.case
  proof (intro allI impI)
    fix i j assume ij: "i < length (mb_slots (file_base b h pool))" "j < length (mb_slots (file_base b h pool))"
      and "mb_name_offs (file_base b h pool) ! i = mb_name_offs (file_base b h pool) ! j"
    then have "file_off b h i = file_off b h j" by (simp add: file_base_def len)
    with mapped(2) ij show "ts_name (mb_slots (file_base b h pool) ! i) = ts_name (mb_slots (file_base b h pool) ! j)"
      unfolding file_base_def mapped_base.simps len by blast
  qed
  note mapped = this mapped(1)
  show "coherent_base (di_tree d)" "counted_base (di_tree d)"
    using d(3) mapped by (simp_all add: coherent_base_def counted_base_def rebuilt_access(3) split: if_splits)
qed

section \<open>The round trip\<close>

text \<open>The metadata with which a tree is published, as far as the tree determines it.\<close>

definition meta_of_tree :: "size_tree \<Rightarrow> index_meta \<Rightarrow> bool" where
  "meta_of_tree t meta \<longleftrightarrow> im_file_count meta = count_used t False \<and> im_dir_count meta = count_used t True"

definition reloaded :: "size_tree \<Rightarrow> nat list \<Rightarrow> nat list \<Rightarrow> index_meta \<Rightarrow> decoded_index \<Rightarrow> bool" where
  "reloaded t order remap meta d \<longleftrightarrow>
     node_count (di_tree d) = length order \<and> di_meta d = meta \<and>
     (\<forall>k<length order. tree_slot_at (di_tree d) k =
        (tree_slot_at t (order ! k))\<lparr>ts_parent := remap ! ts_parent (tree_slot_at t (order ! k))\<rparr>)"

lemma stored_tree_reloads:
  assumes "disk_tree_ok t False" "counted_base t" "utf8_valid (vol_mount v @ vol_label v)" "meta_of_tree t meta"
    and "order_ok t order remap" "laid v meta (compacted t order remap) rows b0" "rows_good (compacted t order remap) rows"
  shows "\<exists>b. seal_disk_index b0 = Ret b \<and> length b = length b0 \<and>
    (cache_checksum b 72 \<noteq> 0 \<longrightarrow> (\<forall>mapped. \<exists>d. decode_disk_index_with b v mapped = Ret d \<and> reloaded t order remap meta d))"
proof -
  let ?es = "compacted t order remap"
  obtain b where b: "seal_disk_index b0 = Ret b" "stored v meta ?es rows b" "(get64 b 72 :: u64 index_go) = Ret (cache_checksum b 72)"
    using seal_Ret [OF laid_stored [OF assms(6)]] by auto
  have st: "storable v meta ?es rows"
    using compacted_ok [OF assms(5,1)] assms(3,4,7) compacted_counts [OF assms(5)] count_used_slots [OF assms(2)]
    by (simp add: storable_def meta_of_tree_def)
  have "\<exists>d. decode_disk_index_with b v mapped = Ret d \<and> reloaded t order remap meta d" if "cache_checksum b 72 \<noteq> 0" for mapped
    using stored_decodes [OF b(2) st b(3) that, of mapped] by (auto simp: reloaded_def)
  moreover have "length b = length b0"
    using b(1) by (auto simp: seal_disk_index_def cache_put64_def cache_put_def split: if_splits)
  ultimately show ?thesis using b(1) by blast
qed

lemma encode_index_cases:
  assumes "disk_tree_ok t False" "coherent_base t"
  obtains order remap where "order_ok t order remap"
    "if index_too_large v (compacted t order remap)
     then encode_disk_index t v meta = Some (cache_invalid ''base exceeds v7 offsets'')
     else \<exists>b. laid v meta (compacted t order remap) (visited_rows t order remap) b \<and> encode_disk_index t v meta = Some (seal_disk_index b)"
proof (cases "encode_ordered t v meta")
  case None
  then show thesis using encode_unordered_cases [OF assms(1), of v meta] that by (metis encode_disk_index_def option.case(1))
next
  case (Some r)
  then have "encode_disk_index t v meta = encode_unordered t v meta"
    using ordered_is_unordered [OF assms Some] by (simp add: encode_disk_index_def)
  then show thesis using encode_unordered_cases [OF assms(1), of v meta] that by metis
qed

text \<open>
  C11: a tree that passed validation is written to a file from which both loaders read back
  every slot of it, with the metadata: the slots in an order that starts with the root and puts parents
  before their children, each with all its fields and its parent renumbered.  The writer answers with
  an error only when the file would not fit its 32-bit offsets, and never panics or runs out of steps.
  A file whose checksum happens to be zero is the one exception, which the loaders take for unfinished.
\<close>

theorem encode_decode:
  assumes "validate_disk_tree t False = Ret ()" "coherent_base t" "counted_base t"
    and "utf8_valid (vol_mount v @ vol_label v)" "meta_of_tree t meta"
  shows "\<exists>order remap. order_ok t order remap \<and>
    (if index_too_large v (compacted t order remap)
     then encode_disk_index t v meta = Some (Err (IndexCorrupt ''base exceeds v7 offsets''))
     else \<exists>b. encode_disk_index t v meta = Some (Ret b) \<and>
       (cache_checksum b 72 \<noteq> 0 \<longrightarrow>
        (\<forall>mapped. \<exists>d. decode_disk_index_with b v mapped = Ret d \<and> reloaded t order remap meta d)))"
proof -
  have ok: "disk_tree_ok t False" using assms(1) by (simp add: validate_tree_ok)
  obtain order remap where e: "order_ok t order remap"
    "if index_too_large v (compacted t order remap)
     then encode_disk_index t v meta = Some (cache_invalid ''base exceeds v7 offsets'')
     else \<exists>b. laid v meta (compacted t order remap) (visited_rows t order remap) b \<and> encode_disk_index t v meta = Some (seal_disk_index b)"
    by (rule encode_index_cases [OF ok assms(2)])
  show ?thesis
  proof (cases "index_too_large v (compacted t order remap)")
    case True
    then show ?thesis using e by (auto simp: cache_invalid_def)
  next
    case False
    then obtain b0 where b0: "laid v meta (compacted t order remap) (visited_rows t order remap) b0"
      "encode_disk_index t v meta = Some (seal_disk_index b0)" using e(2) by auto
    show ?thesis
      using stored_tree_reloads [OF ok assms(3-5) e(1) b0(1) visited_rows_good [OF e(1) ok]] b0(2) False e(1) by auto
  qed
qed

text \<open>
  C12: where the encoder for ordered trees applies, it writes byte for byte the file of
  the general encoder: the counting sort in the output buffer gives the child lists of the traversal,
  and looking names up by their offset in the old base gives the offsets of interning them again.
\<close>

theorem ordered_encoding:
  assumes "validate_disk_tree t False = Ret ()" "coherent_base t" "encode_ordered t v meta = Some r"
  shows "encode_unordered t v meta = Some r"
  using assms ordered_is_unordered by (simp add: validate_tree_ok)

end
