(* ===== verification/Index_Delta.thy ===== *)
theory Index_Delta
  imports Index_Roundtrip
begin

text \<open>
  Changes on a base (\<^verbatim>\<open>disk_index_cache_delta.go\<close>, \<^verbatim>\<open>disk_index_cache_overrides.go\<close>): the delta file, which
  holds the slots that differ from the base and those behind it, and the validation of the changes
  that a mapped tree carries as overrides.
\<close>

section \<open>Validating the changes only\<close>

definition valid_edit :: "size_tree \<Rightarrow> nat \<Rightarrow> tree_slot \<Rightarrow> bool" where
  "valid_edit t i e =
    (if \<not> fits_index e then False
     else if \<not> ts_used e then True
     else if 0 < i \<and> \<not> valid_disk_index_name (ts_name e) then False
     else i = 0 \<or> tree_is_dir t (ts_parent e) \<and> ts_parent e \<noteq> i)"

text \<open>The counts are \<^verbatim>\<open>int64\<close>; \<open>sign\<close> is 1 or -1.\<close>

definition count_edit :: "tree_slot \<Rightarrow> u64 \<Rightarrow> u64 \<times> u64 \<Rightarrow> u64 \<times> u64" where
  "count_edit e sign n =
    (case n of (files, dirs) \<Rightarrow>
      if \<not> ts_used e then n else if ts_is_dir e then (files, dirs + sign) else (files + sign, dirs))"

definition check_override ::
  "size_tree \<Rightarrow> nat \<Rightarrow> tree_slot \<Rightarrow> tree_slot \<Rightarrow> nat list \<times> u64 \<times> u64 \<Rightarrow> (nat list \<times> u64 \<times> u64) option" where
  "check_override t idx e b st =
    (case st of (changed, n) \<Rightarrow>
      if ts_parent e \<noteq> ts_parent b \<or> ts_name e \<noteq> ts_name b \<or> \<not> valid_edit t idx e then None
      else if e = b then Some st
      else if ts_is_dir b \<and> (\<not> ts_used e \<or> \<not> ts_is_dir e) \<and>
          list_ex (\<lambda>k. tree_valid t k \<and> ts_parent (tree_slot_at t k) = idx) (child_indices t idx)
        then None
      else Some (changed @ [idx], count_edit e 1 (count_edit b (- 1) n)))"

text \<open>The overrides are a Go map; in whatever order it is visited, the answer is the same, since the
  changed indices are sorted in the end.\<close>

fun check_overrides ::
  "size_tree \<Rightarrow> mapped_base \<Rightarrow> nat list \<Rightarrow> nat list \<times> u64 \<times> u64 \<Rightarrow> (nat list \<times> u64 \<times> u64) option" where
  "check_overrides t m [] st = Some st"
| "check_overrides t m (idx # is) st =
     (case st_overrides t idx of
        None \<Rightarrow> check_overrides t m is st
      | Some e \<Rightarrow>
          (case check_override t idx e (mb_slots m ! idx) st of
             None \<Rightarrow> None
           | Some st1 \<Rightarrow> check_overrides t m is st1))"

fun check_appended :: "size_tree \<Rightarrow> nat \<Rightarrow> tree_slot list \<Rightarrow> u64 \<times> u64 \<Rightarrow> (u64 \<times> u64) option" where
  "check_appended t idx [] n = Some n"
| "check_appended t idx (e # es) n =
     (if \<not> valid_edit t idx e \<or> ts_used e \<and> idx \<le> ts_parent e then None
      else check_appended t (idx + 1) es (count_edit e 1 n))"

definition validate_overrides :: "size_tree \<Rightarrow> u64 \<Rightarrow> u64 \<Rightarrow> (nat list \<times> u64 \<times> u64) option" where
  "validate_overrides t base_files base_dirs =
    (if bad_root t then None
     else
       case (case st_base t of
               None \<Rightarrow> Some ([], base_files, base_dirs)
             | Some m \<Rightarrow> check_overrides t m [0..<length (mb_slots m)] ([], base_files, base_dirs)) of
         None \<Rightarrow> None
       | Some (changed, n) \<Rightarrow>
           (case check_appended t (base_count t) (st_entries t) n of
              None \<Rightarrow> None
            | Some (files, dirs) \<Rightarrow>
                if sint files < 0 \<or> sint dirs < 0 then None else Some (sort changed, files, dirs)))"

section \<open>Reading a delta\<close>

record delta_counts =
  dc_entries :: nat
  dc_pool :: nat
  dc_overrides :: nat
  dc_overlays :: nat

definition read_delta_meta :: "byte list \<Rightarrow> index_meta index_go" where
  "read_delta_meta b =
    go_bind (get64 b 20) (\<lambda>event. go_bind (get64 b 28) (\<lambda>scanned. go_bind (get64 b 36) (\<lambda>files.
    go_bind (get64 b 44) (\<lambda>dirs. go_bind (get64 b 52) (\<lambda>end_slot.
      Ret \<lparr>im_last_event = event, im_scanned_at = scanned, im_file_count = files, im_dir_count = dirs,
           im_total_size = end_slot\<rparr>)))))"

definition nat64 :: "byte list \<Rightarrow> nat \<Rightarrow> nat index_go" where
  "nat64 b off = go_bind (get64 b off) (\<lambda>w. Ret (unat w))"

definition read_delta_counts :: "byte list \<Rightarrow> nat \<Rightarrow> delta_counts index_go" where
  "read_delta_counts b bn =
    go_bind (nat64 b 60) (\<lambda>n. go_bind (nat64 b 68) (\<lambda>pl. go_bind (nat64 b 76) (\<lambda>no. go_bind (nat64 b 84) (\<lambda>np.
      let end_slot = (bn + n) mod 2 ^ 64 in
      if end_slot < bn \<or> unat cache_parent_mask + 1 < end_slot \<or> length b div 24 < n \<or> length b div 28 < no \<or> length b div 8 < np
      then cache_invalid ''delta counts''
      else Ret \<lparr>dc_entries = n, dc_pool = pl, dc_overrides = no, dc_overlays = np\<rparr>))))"

definition read_delta_header :: "byte list \<Rightarrow> decoded_index \<Rightarrow> (index_meta \<times> delta_counts) index_go" where
  "read_delta_header b base =
    (if length b < 128 \<or> string_of_bytes (take 8 b) \<noteq> ''QCDLTV01'' then cache_invalid ''unknown or incomplete delta''
     else go_bind (get32 b 8) (\<lambda>version.
     if version \<noteq> 1 then cache_invalid ''unknown or incomplete delta''
     else go_bind (get64 b 12) (\<lambda>binding. go_bind (get64 b 100) (\<lambda>checksum.
     if binding \<noteq> di_checksum base \<or> checksum = 0 \<or> cache_checksum b 100 \<noteq> checksum
     then cache_invalid ''delta checksum/base binding''
     else go_bind (nat64 b 92) (\<lambda>len.
     if len \<noteq> length b - 128 then cache_invalid ''delta length''
     else go_bind (read_delta_meta b) (\<lambda>meta.
     if im_last_event meta < im_last_event (di_meta base) then cache_invalid ''delta watermark predates base''
     else go_bind (read_delta_counts b (record_count base)) (\<lambda>counts. Ret (meta, counts))))))))"

text \<open>The next bytes of the file, and the cursor behind them; \<open>reason\<close> is what a truncated file reports.\<close>

definition delta_take :: "string \<Rightarrow> byte list \<Rightarrow> nat \<Rightarrow> nat \<Rightarrow> (byte list \<times> nat) index_go" where
  "delta_take reason b cur cnt =
    (case cache_range b cur cnt of
       Ret s \<Rightarrow> Ret (s, cur + cnt)
     | Err _ \<Rightarrow> cache_invalid reason
     | Panic \<Rightarrow> Panic)"

definition delta_entry :: "byte list \<Rightarrow> byte list \<Rightarrow> nat \<Rightarrow> tree_slot index_go" where
  "delta_entry raw pool i =
    go_bind (go_slice raw (i * 24) ((i + 1) * 24)) (\<lambda>rec.
      case cache_read_record rec pool of
        Ret r \<Rightarrow> Ret (cr_slot r)
      | Err _ \<Rightarrow> cache_invalid ''delta name''
      | Panic \<Rightarrow> Panic)"

text \<open>The name of an override is an offset in the pool of the base; it must be the one of the base slot.\<close>

definition delta_override ::
  "byte list \<Rightarrow> decoded_index \<Rightarrow> nat \<times> nat list \<times> size_tree \<Rightarrow> (nat \<times> nat list \<times> size_tree) index_go" where
  "delta_override b base st =
    (case st of (cur, seen, t) \<Rightarrow>
      go_bind (delta_take ''truncated override'' b cur 28) (\<lambda>(bytes, cur).
      go_bind (nat32 bytes 0) (\<lambda>idx.
      if record_count base \<le> idx \<or> List.member seen idx then cache_invalid ''duplicate/out of bounds override''
      else go_bind (record_at base idx) (\<lambda>original.
      go_bind (get32 bytes 8) (\<lambda>off. go_bind (get32 bytes 4) (\<lambda>bits.
      if off \<noteq> cr_name_off original \<or> record_parent bits \<noteq> ts_parent (cr_slot original) then cache_invalid ''override identity''
      else go_bind (get64 bytes 12) (\<lambda>sz. go_bind (get32 bytes 20) (\<lambda>mtime. go_bind (get32 bytes 24) (\<lambda>files.
        Ret (cur, idx # seen,
          set_slot idx ((cr_slot original)\<lparr>ts_used := bits AND cache_used_bit \<noteq> 0, ts_is_dir := bits AND cache_dir_bit \<noteq> 0,
            ts_size := sz, ts_mtime := ucast mtime, ts_files := ucast files\<rparr>) t))))))))))"

definition overlay_kid :: "byte list \<Rightarrow> size_tree \<Rightarrow> nat \<Rightarrow> nat \<Rightarrow> nat \<Rightarrow> nat list \<Rightarrow> nat list index_go" where
  "overlay_kid listed t end_slot p j unique =
    go_bind (nat32 listed (j * 4)) (\<lambda>k.
      if k = 0 \<or> k = p \<or> end_slot \<le> k \<or> List.member unique k \<or> ts_parent (tree_slot_at t k) \<noteq> p
      then cache_invalid ''invalid overlay child'' else Ret (k # unique))"

definition delta_overlay ::
  "byte list \<Rightarrow> decoded_index \<Rightarrow> size_tree \<Rightarrow> nat \<Rightarrow> nat \<times> (nat \<rightharpoonup> nat list) \<Rightarrow> (nat \<times> (nat \<rightharpoonup> nat list)) index_go" where
  "delta_overlay b base t end_slot st =
    (case st of (cur, extras) \<Rightarrow>
      go_bind (delta_take ''truncated overlay'' b cur 8) (\<lambda>(bytes, cur).
      go_bind (nat32 bytes 0) (\<lambda>p. go_bind (nat32 bytes 4) (\<lambda>cnt.
      if \<not> tree_is_dir t p \<or> extras p \<noteq> None \<or> end_slot < cnt then cache_invalid ''overlay parent/count''
      else go_bind (delta_take ''truncated overlay children'' b cur (cnt * 4)) (\<lambda>(listed, cur).
      go_bind (go_fold (overlay_kid listed t end_slot p) [0..<cnt] []) (\<lambda>unique.
      if p < record_count base \<and>
          list_ex (\<lambda>k. tree_valid t k \<and> \<not> List.member unique k) (child_list (di_tree base) p)
      then cache_invalid ''overlay omits base child''
      else Ret (cur, extras(p \<mapsto> unique))))))))"

definition delta_statistics :: "decoded_index \<Rightarrow> size_tree \<Rightarrow> (u64 \<times> u64) index_go" where
  "delta_statistics base t =
    (if st_base t \<noteq> None then
       (case validate_overrides t (im_file_count (di_meta base)) (im_dir_count (di_meta base)) of
          None \<Rightarrow> cache_invalid ''invalid delta edits''
        | Some (changed, files, dirs) \<Rightarrow> Ret (files, dirs))
     else go_bind (validate_disk_tree t True) (\<lambda>_. Ret (count_used t False, count_used t True)))"

definition decode_delta :: "byte list \<Rightarrow> decoded_index \<Rightarrow> (size_tree \<times> index_meta) index_go" where
  "decode_delta b base =
    go_bind (read_delta_header b base) (\<lambda>(meta, counts).
    let bn = record_count base; end_slot = bn + dc_entries counts in
    go_bind (delta_take ''truncated delta entries'' b 128 (dc_entries counts * 24)) (\<lambda>(raw, cur).
    go_bind (delta_take ''truncated delta pool'' b cur (dc_pool counts)) (\<lambda>(pool, cur).
    go_bind (go_map (delta_entry raw pool) [0..<dc_entries counts]) (\<lambda>added.
    let t = tree_clone (di_tree base); t = t\<lparr>st_entries := st_entries t @ added\<rparr> in
    go_bind (go_fold (\<lambda>_. delta_override b base) [0..<dc_overrides counts] (cur, [], t)) (\<lambda>(cur, seen, t).
    go_bind (go_fold (\<lambda>_. delta_overlay b base t end_slot) [0..<dc_overlays counts] (cur, Map.empty)) (\<lambda>(cur, extras).
    if cur \<noteq> length b then cache_invalid ''trailing delta bytes''
    else go_bind (delta_statistics base t) (\<lambda>(files, dirs).
    if list_ex (\<lambda>i. let e = tree_slot_at t i in
          ts_used e \<and> \<not> (case extras (ts_parent e) of None \<Rightarrow> False | Some listed \<Rightarrow> List.member listed i)) [bn..<end_slot]
    then cache_invalid ''appended child missing from overlay''
    else if im_file_count meta \<noteq> files \<or> im_dir_count meta \<noteq> dirs \<or> im_total_size meta \<noteq> size_of t 0
    then cache_invalid ''delta statistics''
    else Ret (rebuild_child_arrays t, meta))))))))"

end
