(* ===== verification/Index_Edits.thy ===== *)
theory Index_Edits
  imports Index_Delta
begin

text \<open>
  What the validation of overrides decides: on a valid base whose removed directories keep no live
  children it accepts exactly the trees that the validation of every slot accepts, and counts right.
\<close>

section \<open>The passes as conditions\<close>

definition override_ok :: "size_tree \<Rightarrow> nat \<Rightarrow> tree_slot \<Rightarrow> tree_slot \<Rightarrow> bool" where
  "override_ok t idx e b \<longleftrightarrow>
     ts_parent e = ts_parent b \<and> ts_name e = ts_name b \<and> valid_edit t idx e \<and>
     (e = b \<or> \<not> (ts_is_dir b \<and> (\<not> ts_used e \<or> \<not> ts_is_dir e) \<and>
        list_ex (\<lambda>k. tree_valid t k \<and> ts_parent (tree_slot_at t k) = idx) (child_indices t idx)))"

definition edit_counts :: "size_tree \<Rightarrow> mapped_base \<Rightarrow> nat \<Rightarrow> u64 \<times> u64 \<Rightarrow> u64 \<times> u64" where
  "edit_counts t m i n =
    (case st_overrides t i of None \<Rightarrow> n
     | Some e \<Rightarrow> if e = mb_slots m ! i then n else count_edit e 1 (count_edit (mb_slots m ! i) (- 1) n))"

definition changed_slot :: "size_tree \<Rightarrow> mapped_base \<Rightarrow> nat \<Rightarrow> bool" where
  "changed_slot t m i \<longleftrightarrow> (case st_overrides t i of None \<Rightarrow> False | Some e \<Rightarrow> e \<noteq> mb_slots m ! i)"

lemma check_override_cases:
  "check_override t idx e b (changed, n) =
    (if override_ok t idx e b
     then Some (if e = b then (changed, n) else (changed @ [idx], count_edit e 1 (count_edit b (- 1) n)))
     else None)"
  by (auto simp: check_override_def override_ok_def)

lemma check_overrides_cases:
  "check_overrides t m is (changed, n) =
    (if \<forall>i \<in> set is. \<forall>e. st_overrides t i = Some e \<longrightarrow> override_ok t i e (mb_slots m ! i)
     then Some (changed @ filter (changed_slot t m) is, fold (edit_counts t m) is n)
     else None)"
proof (induction "is" arbitrary: changed n)
  case (Cons i "is")
  show ?case
  proof (cases "st_overrides t i")
    case None
    then have "\<not> changed_slot t m i" "edit_counts t m i n = n" by (simp_all add: changed_slot_def edit_counts_def)
    with None Cons show ?thesis by simp
  next
    case (Some e)
    show ?thesis
    proof (cases "override_ok t i e (mb_slots m ! i)")
      case True
      have "changed_slot t m i \<longleftrightarrow> e \<noteq> mb_slots m ! i"
        "edit_counts t m i n = (if e = mb_slots m ! i then n else count_edit e 1 (count_edit (mb_slots m ! i) (- 1) n))"
        using Some by (simp_all add: changed_slot_def edit_counts_def)
      with True Some Cons show ?thesis by (auto simp: check_override_cases)
    next
      case False
      then show ?thesis using Some by (simp add: check_override_cases)
    qed
  qed
qed simp

lemma check_appended_cases:
  "check_appended t idx es n =
    (if \<forall>j<length es. valid_edit t (idx + j) (es ! j) \<and> (ts_used (es ! j) \<longrightarrow> ts_parent (es ! j) < idx + j)
     then Some (fold (\<lambda>e. count_edit e 1) es n) else None)"
proof (induction es arbitrary: idx n)
  case (Cons e es)
  have "(\<forall>j<length (e # es). valid_edit t (idx + j) ((e # es) ! j) \<and> (ts_used ((e # es) ! j) \<longrightarrow> ts_parent ((e # es) ! j) < idx + j)) \<longleftrightarrow>
      (valid_edit t idx e \<and> (ts_used e \<longrightarrow> ts_parent e < idx)) \<and>
      (\<forall>j<length es. valid_edit t (idx + 1 + j) (es ! j) \<and> (ts_used (es ! j) \<longrightarrow> ts_parent (es ! j) < idx + 1 + j))"
    by (simp only: list.size add_Suc_right add_0_right All_less_Suc2 nth_Cons_0 nth_Cons_Suc add_Suc_shift) simp
  then show ?case using Cons [of "idx + 1"] by (simp only: check_appended.simps not_le) auto
qed simp

section \<open>The counts\<close>

lemma count_edit_counts:
  "fst (count_edit e s n) = (if counts_slot False e then fst n + s else fst n)"
  "snd (count_edit e s n) = (if counts_slot True e then snd n + s else snd n)"
  by (cases n; simp add: count_edit_def counts_slot_def)+

lemma edit_counts_fold:
  "fst (fold (edit_counts t m) is n) = fold (\<lambda>idx n. case st_overrides t idx of None \<Rightarrow> n
      | Some e \<Rightarrow> let n1 = (if counts_slot False (mb_slots m ! idx) then n - 1 else n) in if counts_slot False e then n1 + 1 else n1) is (fst n)"
  "snd (fold (edit_counts t m) is n) = fold (\<lambda>idx n. case st_overrides t idx of None \<Rightarrow> n
      | Some e \<Rightarrow> let n1 = (if counts_slot True (mb_slots m ! idx) then n - 1 else n) in if counts_slot True e then n1 + 1 else n1) is (snd n)"
  by (induction "is" arbitrary: n)
    (auto simp: edit_counts_def count_edit_counts Let_def split: option.splits)

lemma appended_counts_fold:
  "fst (fold (\<lambda>e. count_edit e 1) es n) = fold (\<lambda>e n. if counts_slot False e then n + 1 else n) es (fst n)"
  "snd (fold (\<lambda>e. count_edit e 1) es n) = fold (\<lambda>e n. if counts_slot True e then n + 1 else n) es (snd n)"
  by (induction es arbitrary: n) (simp_all add: count_edit_counts)

lemma edit_counts_used:
  assumes "st_base t = Some m"
  shows "fold (\<lambda>e. count_edit e 1) (st_entries t)
      (fold (edit_counts t m) [0..<length (mb_slots m)] (base_used_count m False, base_used_count m True)) =
    (count_used t False, count_used t True)"
  by (rule prod_eqI) (simp_all add: appended_counts_fold edit_counts_fold count_used_def assms)

section \<open>Acceptance\<close>

text \<open>A tree on a mapped base that a loader accepted; its child lists still have the base children.\<close>

definition edits_base :: "size_tree \<Rightarrow> mapped_base \<Rightarrow> bool" where
  "edits_base t m \<longleftrightarrow>
     st_base t = Some m \<and> disk_tree_ok (mapped_tree (st_volume t) m) True \<and> (\<forall>s \<in> set (mb_slots m). ts_used s) \<and>
     (\<forall>k<length (mb_slots m). 0 < k \<longrightarrow> k \<in> set (child_list t (ts_parent (mb_slots m ! k)))) \<and>
     node_count t \<le> unat cache_parent_mask + 1"

definition keeps_identity :: "size_tree \<Rightarrow> mapped_base \<Rightarrow> bool" where
  "keeps_identity t m \<longleftrightarrow>
     list_all (\<lambda>i. case st_overrides t i of None \<Rightarrow> True
       | Some e \<Rightarrow> ts_parent e = ts_parent (mb_slots m ! i) \<and> ts_name e = ts_name (mb_slots m ! i)) [0..<length (mb_slots m)]"

text \<open>No live slot hangs below a removed one.\<close>

definition no_orphans :: "size_tree \<Rightarrow> bool" where
  "no_orphans t \<longleftrightarrow>
     list_all (\<lambda>i. i = 0 \<or> \<not> tree_valid t i \<or> node_count t \<le> par t i \<or> tree_valid t (par t i)) [0..<node_count t]"

lemma no_orphansD: "no_orphans t \<Longrightarrow> tree_valid t i \<Longrightarrow> i = 0 \<or> node_count t \<le> par t i \<or> tree_valid t (par t i)"
  unfolding no_orphans_def list_all_iff tree_valid_def by auto

lemma keeps_identityD:
  assumes "keeps_identity t m" "i < length (mb_slots m)" "st_overrides t i = Some e"
  shows "ts_parent e = ts_parent (mb_slots m ! i) \<and> ts_name e = ts_name (mb_slots m ! i)"
proof -
  have "case st_overrides t i of None \<Rightarrow> True
    | Some e \<Rightarrow> ts_parent e = ts_parent (mb_slots m ! i) \<and> ts_name e = ts_name (mb_slots m ! i)"
    using assms(1,2) unfolding keeps_identity_def list_all_iff by simp
  then show ?thesis by (simp add: assms(3))
qed

lemma base_slot_facts:
  assumes "edits_base t m" "i < length (mb_slots m)"
  shows "fits_index (mb_slots m ! i)" "ts_used (mb_slots m ! i)"
    "0 < i \<Longrightarrow> valid_disk_index_name (ts_name (mb_slots m ! i)) \<and> ts_parent (mb_slots m ! i) < i \<and>
       ts_is_dir (mb_slots m ! ts_parent (mb_slots m ! i)) \<and> i \<in> set (child_list t (ts_parent (mb_slots m ! i)))"
proof -
  let ?b = "mapped_tree (st_volume t) m"
  have ok: "disk_tree_ok ?b True" and used: "ts_used (mb_slots m ! i)" using assms by (simp_all add: edits_base_def)
  then have fit: "entry_fits ?b True i" using assms(2) by (simp add: disk_tree_ok_def mapped_access(1))
  then show "fits_index (mb_slots m ! i)" "ts_used (mb_slots m ! i)"
    using used assms(2) by (simp_all add: entry_fits_def mapped_access(2))
  show "valid_disk_index_name (ts_name (mb_slots m ! i)) \<and> ts_parent (mb_slots m ! i) < i \<and>
       ts_is_dir (mb_slots m ! ts_parent (mb_slots m ! i)) \<and> i \<in> set (child_list t (ts_parent (mb_slots m ! i)))" if "0 < i"
  proof -
    have "valid_disk_index_name (ts_name (mb_slots m ! i))" "ts_parent (mb_slots m ! i) < i" "tree_is_dir ?b (ts_parent (mb_slots m ! i))"
      using fit used assms(2) that by (simp_all add: entry_fits_def mapped_access(2))
    moreover from this have "ts_is_dir (mb_slots m ! ts_parent (mb_slots m ! i))"
      using assms(2) by (simp add: tree_is_dir_def mapped_access(2))
    ultimately show ?thesis using assms that by (simp add: edits_base_def)
  qed
qed

lemma slot_of_edit:
  assumes "st_base t = Some m"
  shows "i < length (mb_slots m) \<Longrightarrow> tree_slot_at t i = (case st_overrides t i of None \<Rightarrow> mb_slots m ! i | Some e \<Rightarrow> e)"
    "length (mb_slots m) \<le> i \<Longrightarrow> i < node_count t \<Longrightarrow> tree_slot_at t i = st_entries t ! (i - length (mb_slots m))"
    "node_count t = length (mb_slots m) + length (st_entries t)" "base_count t = length (mb_slots m)"
  using assms by (auto simp: tree_slot_at_def base_count_def node_count_def split: option.split)

text \<open>A directory of the base is still one when a live base slot names it as its parent.\<close>

lemma parent_still_dir:
  assumes "edits_base t m" "no_orphans t"
    and "\<forall>i<length (mb_slots m). \<forall>e. st_overrides t i = Some e \<longrightarrow> override_ok t i e (mb_slots m ! i)"
    and "k < length (mb_slots m)" "0 < k" "tree_valid t k"
  shows "tree_is_dir t (ts_parent (mb_slots m ! k))"
proof -
  note base = slot_of_edit [of t m]
  have b: "st_base t = Some m" using assms(1) by (simp add: edits_base_def)
  let ?p = "ts_parent (mb_slots m ! k)"
  note k = base_slot_facts(3) [OF assms(1,4,5)]
  have p: "?p < length (mb_slots m)" "?p < node_count t" using k assms(4) base(3) [OF b] by simp_all
  have par: "par t k = ?p"
  proof (cases "st_overrides t k")
    case (Some e)
    then have "override_ok t k e (mb_slots m ! k)" using assms(3,4) by blast
    then show ?thesis using Some base(1) [OF b assms(4)] by (simp add: override_ok_def)
  qed (simp add: base(1) [OF b assms(4)])
  show ?thesis
  proof (cases "st_overrides t ?p")
    case None
    then show ?thesis using k p base(1) [OF b p(1)] base_slot_facts(2) [OF assms(1) p(1)] by (simp add: tree_is_dir_def)
  next
    case (Some e)
    have ok: "override_ok t ?p e (mb_slots m ! ?p)" using assms(3) p(1) Some by blast
    have slot: "tree_slot_at t ?p = e" using base(1) [OF b p(1)] Some by simp
    have "tree_valid t ?p"
      using no_orphansD [OF assms(2,6)] assms(5) par p(2) by simp
    then have used: "ts_used e" "child_indices t ?p = child_list t ?p" using slot by (simp_all add: tree_valid_def child_indices_def)
    have "ts_is_dir e"
    proof (rule ccontr)
      assume no: "\<not> ts_is_dir e"
      then have "e \<noteq> mb_slots m ! ?p" using k by auto
      moreover have "list_ex (\<lambda>k. tree_valid t k \<and> par t k = ?p) (child_indices t ?p)"
        unfolding list_ex_iff using k used(2) assms(6) par by (intro bexI [of _ k]) simp_all
      ultimately show False using ok k no unfolding override_ok_def by blast
    qed
    then show ?thesis using p(2) used(1) slot by (simp add: tree_is_dir_def)
  qed
qed

lemma ordered_grounded:
  assumes "par t 0 = 0" "\<And>i. i < node_count t \<Longrightarrow> ts_used (tree_slot_at t i) \<Longrightarrow> 0 < i \<Longrightarrow> par t i < i \<and> tree_is_dir t (par t i)"
    and "i < node_count t" "ts_used (tree_slot_at t i)"
  shows "grounded t i"
  using assms(3,4)
proof (induction i rule: less_induct)
  case (less i)
  show ?case
  proof (cases "i = 0")
    case False
    then have "par t i < i" "tree_is_dir t (par t i)" using assms(2) less.prems by auto
    then have "grounded t (par t i)" using less.IH by (simp add: tree_is_dir_def)
    then show ?thesis by (rule grounded_par)
  qed (simp add: grounded_zero)
qed

lemma edits_accepted:
  assumes "edits_base t m" "no_orphans t" "\<not> bad_root t"
    and "\<forall>i<length (mb_slots m). \<forall>e. st_overrides t i = Some e \<longrightarrow> override_ok t i e (mb_slots m ! i)"
    and "\<forall>j<length (st_entries t). valid_edit t (base_count t + j) (st_entries t ! j) \<and>
      (ts_used (st_entries t ! j) \<longrightarrow> ts_parent (st_entries t ! j) < base_count t + j)"
  shows "disk_tree_ok t True"
proof -
  have b: "st_base t = Some m" using assms(1) by (simp add: edits_base_def)
  note base = slot_of_edit [OF b]
  have fits: "entry_fits t True i" if i: "i < node_count t" for i
  proof (cases "i < length (mb_slots m)")
    case True
    show ?thesis
    proof (cases "st_overrides t i")
      case None
      then have "tree_slot_at t i = mb_slots m ! i" using base(1) [OF True] by simp
      then show ?thesis
        using base_slot_facts [OF assms(1) True] parent_still_dir [OF assms(1,2,4) True] i
        by (auto simp: entry_fits_def tree_valid_def)
    next
      case (Some e)
      then have "tree_slot_at t i = e" "override_ok t i e (mb_slots m ! i)" using base(1) [OF True] assms(4) True by auto
      then show ?thesis
        using base_slot_facts [OF assms(1) True] by (auto simp: entry_fits_def override_ok_def valid_edit_def split: if_splits)
    qed
  next
    case False
    define j where "j = i - length (mb_slots m)"
    have j: "j < length (st_entries t)" "i = base_count t + j" using False i base(3,4) by (simp_all add: j_def)
    have slot: "tree_slot_at t i = st_entries t ! j" using base(2) [of i] False i by (simp add: j_def)
    have edit: "valid_edit t i (st_entries t ! j)" "ts_used (st_entries t ! j) \<Longrightarrow> ts_parent (st_entries t ! j) < i"
      using assms(5) j by auto
    show ?thesis using edit unfolding entry_fits_def slot valid_edit_def by (auto split: if_splits)
  qed
  moreover have "par t 0 = 0" using assms(3) by (simp add: bad_root_def)
  moreover have "grounded t i" if "i < node_count t" "ts_used (tree_slot_at t i)" for i
    using fits by (intro ordered_grounded [OF \<open>par t 0 = 0\<close> _ that]) (auto simp: entry_fits_def)
  ultimately show ?thesis using assms(3) by (simp add: disk_tree_ok_def)
qed

lemma edits_checked:
  assumes "edits_base t m" "disk_tree_ok t True" "keeps_identity t m"
  shows "\<forall>i<length (mb_slots m). \<forall>e. st_overrides t i = Some e \<longrightarrow> override_ok t i e (mb_slots m ! i)"
    and "\<forall>j<length (st_entries t). valid_edit t (base_count t + j) (st_entries t ! j) \<and>
      (ts_used (st_entries t ! j) \<longrightarrow> ts_parent (st_entries t ! j) < base_count t + j)"
proof -
  have b: "st_base t = Some m" using assms(1) by (simp add: edits_base_def)
  note base = slot_of_edit [OF b]
  have fits: "entry_fits t True i" if "i < node_count t" for i using assms(2) that by (simp add: disk_tree_ok_def)
  have root: "tree_is_dir t 0" "par t 0 = 0" using assms(2) by (simp_all add: disk_tree_ok_def bad_root_def)
  have edit: "valid_edit t i (tree_slot_at t i)" if "i < node_count t" for i
    using fits [OF that] by (auto simp: entry_fits_def valid_edit_def)
  show "\<forall>i<length (mb_slots m). \<forall>e. st_overrides t i = Some e \<longrightarrow> override_ok t i e (mb_slots m ! i)"
  proof (intro allI impI)
    fix i e assume i: "i < length (mb_slots m)" and e: "st_overrides t i = Some e"
    have n: "i < node_count t" using i base(3) by simp
    have slot: "tree_slot_at t i = e" using base(1) [OF i] e by simp
    have "ts_parent e = ts_parent (mb_slots m ! i)" "ts_name e = ts_name (mb_slots m ! i)"
      using keeps_identityD [OF assms(3) i e] by simp_all
    moreover have "\<not> list_ex (\<lambda>k. tree_valid t k \<and> par t k = i) (child_indices t i)" if "\<not> ts_used e \<or> \<not> ts_is_dir e"
    proof
      assume "list_ex (\<lambda>k. tree_valid t k \<and> par t k = i) (child_indices t i)"
      then obtain k where k: "tree_valid t k" "par t k = i" unfolding list_ex_iff by blast
      have "tree_is_dir t (par t k)"
      proof (cases "k = 0")
        case False
        then show ?thesis using fits [of k] k(1) by (simp add: tree_valid_def entry_fits_def)
      qed (simp add: root)
      then show False using that slot by (simp add: tree_is_dir_def k(2))
    qed
    moreover have "valid_edit t i e" using edit [OF n] slot by simp
    ultimately show "override_ok t i e (mb_slots m ! i)" unfolding override_ok_def by blast
  qed
  show "\<forall>j<length (st_entries t). valid_edit t (base_count t + j) (st_entries t ! j) \<and>
      (ts_used (st_entries t ! j) \<longrightarrow> ts_parent (st_entries t ! j) < base_count t + j)"
  proof (intro allI impI)
    fix j assume j: "j < length (st_entries t)"
    then have n: "base_count t + j < node_count t" using base(3,4) by simp
    have slot: "tree_slot_at t (base_count t + j) = st_entries t ! j" using base(2,4) n by simp
    have "par t (base_count t + j) < base_count t + j" if "ts_used (st_entries t ! j)"
    proof (cases "base_count t + j = 0")
      case True
      have "0 < length (mb_slots m)"
        using assms(1) by (simp add: edits_base_def disk_tree_ok_def bad_root_def mapped_access(1))
      then show ?thesis using True base(4) by simp
    next
      case False
      then show ?thesis using fits [OF n] slot that by (simp add: entry_fits_def)
    qed
    then show "valid_edit t (base_count t + j) (st_entries t ! j) \<and>
        (ts_used (st_entries t ! j) \<longrightarrow> ts_parent (st_entries t ! j) < base_count t + j)"
      using edit [OF n] slot by simp
  qed
qed

definition edits_fine :: "size_tree \<Rightarrow> mapped_base \<Rightarrow> bool" where
  "edits_fine t m \<longleftrightarrow>
     list_all (\<lambda>i. case st_overrides t i of None \<Rightarrow> True | Some e \<Rightarrow> override_ok t i e (mb_slots m ! i)) [0..<length (mb_slots m)]"

definition added_fine :: "size_tree \<Rightarrow> bool" where
  "added_fine t \<longleftrightarrow>
     list_all (\<lambda>j. valid_edit t (base_count t + j) (st_entries t ! j) \<and>
       (ts_used (st_entries t ! j) \<longrightarrow> ts_parent (st_entries t ! j) < base_count t + j)) [0..<length (st_entries t)]"

lemma edits_fine_iff:
  "edits_fine t m \<longleftrightarrow> (\<forall>i<length (mb_slots m). \<forall>e. st_overrides t i = Some e \<longrightarrow> override_ok t i e (mb_slots m ! i))"
proof -
  have "(case x of None \<Rightarrow> True | Some e \<Rightarrow> P e) \<longleftrightarrow> (\<forall>e. x = Some e \<longrightarrow> P e)" for x :: "tree_slot option" and P
    by (simp split: option.split)
  then show ?thesis by (simp add: edits_fine_def list_all_iff atLeast0LessThan Ball_def)
qed

lemma added_fine_iff:
  "added_fine t \<longleftrightarrow> (\<forall>j<length (st_entries t). valid_edit t (base_count t + j) (st_entries t ! j) \<and>
      (ts_used (st_entries t ! j) \<longrightarrow> ts_parent (st_entries t ! j) < base_count t + j))"
  by (simp add: added_fine_def list_all_iff atLeast0LessThan Ball_def)

text \<open>The answer, pass by pass.\<close>

lemma validate_overrides_eval:
  assumes "st_base t = Some m"
  shows "validate_overrides t (base_used_count m False) (base_used_count m True) =
    (if \<not> bad_root t \<and> edits_fine t m \<and> added_fine t \<and> 0 \<le> sint (count_used t False) \<and> 0 \<le> sint (count_used t True)
     then Some (filter (changed_slot t m) [0..<length (mb_slots m)], count_used t False, count_used t True)
     else None)"
proof -
  define changed where "changed = filter (changed_slot t m) [0..<length (mb_slots m)]"
  have overrides: "check_overrides t m [0..<length (mb_slots m)] ([], n) =
      (if edits_fine t m then Some (changed, fold (edit_counts t m) [0..<length (mb_slots m)] n) else None)" for n
    unfolding check_overrides_cases edits_fine_iff changed_def by simp
  have added: "check_appended t (base_count t) (st_entries t) n =
      (if added_fine t then Some (fold (\<lambda>e. count_edit e 1) (st_entries t) n) else None)" for n
    unfolding check_appended_cases added_fine_iff ..
  have sorted: "sort changed = changed"
    unfolding changed_def by (rule sorted_sort_id) (simp add: sorted_wrt_filter)
  show ?thesis
    unfolding validate_overrides_def assms option.case overrides changed_def [symmetric]
    by (auto simp: added edit_counts_used [OF assms] sorted not_less)
qed

lemma overrides_decide:
  assumes "edits_base t m" "no_orphans t"
  shows "validate_overrides t (base_used_count m False) (base_used_count m True) =
    (if disk_tree_ok t True \<and> keeps_identity t m \<and> 0 \<le> sint (count_used t False) \<and> 0 \<le> sint (count_used t True)
     then Some (filter (changed_slot t m) [0..<length (mb_slots m)], count_used t False, count_used t True)
     else None)"
proof -
  have b: "st_base t = Some m" using assms(1) by (simp add: edits_base_def)
  have "keeps_identity t m" if "edits_fine t m"
    unfolding keeps_identity_def list_all_iff
  proof
    fix i assume "i \<in> set [0..<length (mb_slots m)]"
    then have "\<And>e. st_overrides t i = Some e \<Longrightarrow> override_ok t i e (mb_slots m ! i)" using that unfolding edits_fine_iff by simp
    then show "case st_overrides t i of None \<Rightarrow> True
        | Some e \<Rightarrow> ts_parent e = ts_parent (mb_slots m ! i) \<and> ts_name e = ts_name (mb_slots m ! i)"
      by (cases "st_overrides t i") (simp_all add: override_ok_def)
  qed
  moreover have "disk_tree_ok t True" if "\<not> bad_root t" "edits_fine t m" "added_fine t"
    using edits_accepted [OF assms that(1)] that(2,3) unfolding edits_fine_iff added_fine_iff by blast
  moreover have "edits_fine t m \<and> added_fine t" if "disk_tree_ok t True" "keeps_identity t m"
    using edits_checked [OF assms(1) that] unfolding edits_fine_iff added_fine_iff by blast
  moreover have "\<not> bad_root t" if "disk_tree_ok t True" using that by (simp add: disk_tree_ok_def)
  ultimately have "disk_tree_ok t True \<and> keeps_identity t m \<longleftrightarrow> \<not> bad_root t \<and> edits_fine t m \<and> added_fine t" by blast
  then show ?thesis unfolding validate_overrides_eval [OF b] by (metis (no_types, lifting))
qed

text \<open>
  C14: on a mapped base that a loader accepted, in a tree where no live slot hangs
  below a removed one, the validation that looks only at the overrides and the appended slots gives the
  answer of the validation that walks every slot: it accepts exactly the trees that the full one accepts
  and that keep parent and name of every base slot (and whose counts fit \<^verbatim>\<open>int64\<close>), and then it returns the
  changed slots in order and the counts of the whole tree.
\<close>

theorem validate_overrides_spec:
  assumes "edits_base t m" "no_orphans t"
  shows "validate_overrides t (base_used_count m False) (base_used_count m True) =
    (if validate_disk_tree t True = Ret () \<and> keeps_identity t m \<and> 0 \<le> sint (count_used t False) \<and> 0 \<le> sint (count_used t True)
     then Some (filter (changed_slot t m) [0..<length (mb_slots m)], count_used t False, count_used t True)
     else None)"
  unfolding validate_tree_ok by (rule overrides_decide [OF assms])

section \<open>Loaded bases\<close>

lemma loaded_edits_base:
  assumes "decode_disk_index_with b vol True = Ret d"
  obtains m where "st_base (di_tree d) = Some m" "edits_base (di_tree d) m"
    "im_file_count (di_meta d) = base_used_count m False" "im_dir_count (di_meta d) = base_used_count m True"
proof -
  obtain h checksum pool meta where d: "read_index_header b vol = Ret (h, checksum)" "body_ok b h pool vol meta"
      "d = \<lparr>di_tree = mapped_tree vol (file_base b h pool), di_records = None, di_meta = meta, di_checksum = checksum\<rparr>"
    using assms by (auto simp: decode_with_Ret)
  let ?m = "file_base b h pool"
  have len: "128 \<le> length b" using read_header_layout [OF d(1)] by (simp add: file_layout_def)
  have ok: "loaded_tree_ok d" using loaded_index_ok [OF assms] by simp
  have tree: "di_tree d = mapped_tree vol ?m" using d(3) by simp
  have "edits_base (mapped_tree vol ?m) ?m"
  proof -
    have used: "ts_used s" if "s \<in> set (mb_slots ?m)" for s
      using ok that by (auto simp: loaded_tree_ok_def Let_def tree mapped_access(1,2) in_set_conv_nth)
    have "k \<in> set (child_list (mapped_tree vol ?m) (ts_parent (mb_slots ?m ! k)))" if k: "k < length (mb_slots ?m)" "0 < k" for k
    proof -
      have t: "disk_tree_ok (mapped_tree vol ?m) True"
        "\<forall>p<length (mb_slots ?m). child_list (mapped_tree vol ?m) p = filter (\<lambda>i. par (mapped_tree vol ?m) i = p) [1..<length (mb_slots ?m)]"
        using ok by (simp_all add: loaded_tree_ok_def Let_def tree mapped_access(1))
      have par: "par (mapped_tree vol ?m) k = ts_parent (mb_slots ?m ! k)" using k(1) by (simp add: mapped_access(2))
      have "entry_fits (mapped_tree vol ?m) True k" using t(1) k(1) by (simp add: disk_tree_ok_def mapped_access(1))
      then have "ts_parent (mb_slots ?m ! k) < k"
        using used [OF nth_mem [OF k(1)]] k by (simp add: entry_fits_def mapped_access(2))
      then show ?thesis using t(2) k par by simp
    qed
    moreover have "disk_tree_ok (mapped_tree vol ?m) True" "node_count (mapped_tree vol ?m) \<le> unat cache_parent_mask + 1"
      using ok by (simp_all add: loaded_tree_ok_def Let_def tree disk_tree_ok_def bad_root_def not_less)
    moreover have "st_volume (mapped_tree vol ?m) = vol" by (simp add: mapped_tree_def heap_tree_def)
    ultimately show ?thesis using used by (simp add: edits_base_def mapped_access(4))
  qed
  moreover have "count_used (mapped_tree vol ?m) directory = base_used_count ?m directory" for directory
    by (simp add: count_used_def mapped_tree_def heap_tree_def fold_unchanged)
  then have "im_file_count (di_meta d) = base_used_count ?m False" "im_dir_count (di_meta d) = base_used_count ?m True"
    using count_used_mapped [OF d(2) len] d(3) by simp_all
  ultimately show thesis by (intro that [of ?m]) (simp_all add: tree mapped_access(4))
qed

end
