(* ===== verification/Index_Changes.thy ===== *)
theory Index_Changes
  imports Index_Edits
begin

text \<open>
  Reading a delta: no bytes lead out of range, and the tree of an accepted delta is counted right and
  valid, up to the removed directories that the validation of overrides does not look into.
\<close>

section \<open>Trees with the same slots\<close>

definition same_slots :: "size_tree \<Rightarrow> size_tree \<Rightarrow> bool" where
  "same_slots t u \<longleftrightarrow> st_base t = st_base u \<and> st_overrides t = st_overrides u \<and> st_entries t = st_entries u"

lemma same_slots_trans: "same_slots t u \<Longrightarrow> same_slots u v \<Longrightarrow> same_slots t v"
  by (simp add: same_slots_def)

lemma same_slots_eq:
  assumes "same_slots t u"
  shows "node_count t = node_count u" "tree_slot_at t = tree_slot_at u" "count_used t = count_used u" "size_of t 0 = size_of u 0"
    "tree_valid t = tree_valid u" "tree_is_dir t = tree_is_dir u" "no_orphans t = no_orphans u" "disk_tree_ok t o1 = disk_tree_ok u o1"
proof -
  have f: "base_count t = base_count u" "node_count t = node_count u"
    using assms by (simp_all add: same_slots_def node_count_def base_count_def)
  then show "node_count t = node_count u" by simp
  show slots: "tree_slot_at t = tree_slot_at u"
    using assms f by (intro ext) (simp add: same_slots_def tree_slot_at_def split: option.split)
  show "count_used t = count_used u" using assms by (intro ext) (simp add: same_slots_def count_used_def)
  show v: "tree_valid t = tree_valid u" "tree_is_dir t = tree_is_dir u"
    by (intro ext; simp add: tree_valid_def tree_is_dir_def f slots)+
  then show "size_of t 0 = size_of u 0" by (simp add: size_of_def slots)
  show "no_orphans t = no_orphans u" by (simp add: no_orphans_def v f slots)
  have "grounded t = grounded u" by (intro ext) (simp add: grounded_def slots)
  then show "disk_tree_ok t o1 = disk_tree_ok u o1"
    by (simp add: disk_tree_ok_def bad_root_def entry_fits_def v f slots)
qed

lemma same_slots_link: "same_slots (tree_link p i t) t"
  by (simp add: same_slots_def tree_link_def Let_def split: option.split)

lemma same_slots_rebuild: "same_slots (rebuild_child_arrays t) t"
proof (cases "st_base t")
  case None
  then show ?thesis by (simp add: rebuild_child_arrays_def same_slots_def Let_def)
next
  case (Some m)
  define step where "step = (\<lambda>i t. let idx = base_count t + i; e = st_entries t ! i in
             if ts_used e \<and> ts_parent e \<noteq> idx \<and> tree_is_dir t (ts_parent e) then tree_link (ts_parent e) idx t else t)"
  have one: "same_slots (step i u) u" for i u
    using same_slots_link by (auto simp: step_def Let_def same_slots_def)
  have "same_slots (fold step is u) u" for "is" u
  proof (induction "is" arbitrary: u)
    case (Cons i "is")
    then show ?case using same_slots_trans [OF Cons [of "step i u"] one] by simp
  qed (simp add: same_slots_def)
  from this [of "[0..<length (st_entries t)]" "t\<lparr>st_child_names := Map.empty, st_child_edits := Map.empty\<rparr>"] Some
  show ?thesis by (simp add: rebuild_child_arrays_def step_def same_slots_def Let_def)
qed

section \<open>What was checked\<close>

lemma validate_overrides_counts:
  assumes "st_base t = Some m" "validate_overrides t (base_used_count m False) (base_used_count m True) = Some (changed, files, dirs)"
  shows "files = count_used t False \<and> dirs = count_used t True"
proof -
  obtain ch n where n: "check_overrides t m [0..<length (mb_slots m)] ([], base_used_count m False, base_used_count m True) = Some (ch, n)"
    "check_appended t (base_count t) (st_entries t) n = Some (files, dirs)"
    using assms by (auto simp: validate_overrides_def split: if_splits option.splits)
  have "n = fold (edit_counts t m) [0..<length (mb_slots m)] (base_used_count m False, base_used_count m True)"
    using n(1) unfolding check_overrides_cases by (simp split: if_splits)
  moreover have "(files, dirs) = fold (\<lambda>e. count_edit e 1) (st_entries t) n"
    using n(2) unfolding check_appended_cases by (simp split: if_splits)
  ultimately show ?thesis by (simp add: edit_counts_used [OF assms(1)])
qed

lemma valid_no_orphans: "disk_tree_ok t o1 \<Longrightarrow> no_orphans t"
  unfolding no_orphans_def list_all_iff
proof
  fix i assume ok: "disk_tree_ok t o1" and i: "i \<in> set [0..<node_count t]"
  show "i = 0 \<or> \<not> tree_valid t i \<or> node_count t \<le> par t i \<or> tree_valid t (par t i)"
  proof (cases "i = 0 \<or> \<not> tree_valid t i")
    case False
    then have "tree_is_dir t (par t i)" using ok by (simp add: disk_tree_ok_def entry_fits_def tree_valid_def)
    then show ?thesis by (simp add: tree_is_dir_def tree_valid_def)
  qed auto
qed

lemma overrides_valid_iff:
  assumes "edits_base t m" "validate_overrides t (base_used_count m False) (base_used_count m True) = Some r"
  shows "disk_tree_ok t True \<longleftrightarrow> no_orphans t"
proof
  assume "no_orphans t"
  with overrides_decide [OF assms(1) this] assms(2) show "disk_tree_ok t True" by (auto split: if_splits)
qed (rule valid_no_orphans)

section \<open>No access out of range\<close>

lemma delta_take_no_panic [no_panic_intros]: "no_panic (delta_take reason b cur cnt)"
  using cache_range_no_panic [of b cur cnt] by (auto simp: delta_take_def cache_invalid_def no_panic_def split: go.split)

lemma delta_take_Ret: "delta_take reason b cur cnt = Ret (s, cur') \<Longrightarrow> length s = cnt \<and> cur' = cur + cnt"
  by (auto simp: delta_take_def cache_invalid_def cache_range_def go_slice_def split: go.splits if_splits)

lemma nat64_no_panic [no_panic_intros]: "off + 8 \<le> length b \<Longrightarrow> no_panic (nat64 b off)"
  unfolding nat64_def by (intro no_panic_intros) simp_all

lemma delta_header_no_panic: "no_panic (read_delta_header b base)"
  by (auto simp: read_delta_header_def read_delta_meta_def read_delta_counts_def Let_def intro!: no_panic_intros)

lemma delta_entry_no_panic:
  assumes "i < n" "length raw = n * 24"
  shows "no_panic (delta_entry raw pool i)"
proof -
  have fit: "(i + 1) * 24 \<le> length raw" using assms by simp
  have "no_panic (case cache_read_record rec pool of Ret r \<Rightarrow> Ret (cr_slot r) | Err _ \<Rightarrow> cache_invalid ''delta name'' | Panic \<Rightarrow> Panic)"
    if "go_slice raw (i * 24) ((i + 1) * 24) = Ret rec" for rec
  proof -
    have "length rec = 24" using that fit by (auto simp: go_slice_Ret_iff)
    then show ?thesis using read_record_no_panic [of rec pool] by (auto simp: cache_invalid_def no_panic_def split: go.split)
  qed
  then show ?thesis unfolding delta_entry_def using fit by (intro no_panic_intros) auto
qed

lemma delta_entries_no_panic: "length raw = n * 24 \<Longrightarrow> no_panic (go_map (delta_entry raw pool) [0..<n])"
  by (rule go_map_no_panic) (use delta_entry_no_panic in simp)

lemma delta_override_no_panic:
  assumes "\<And>idx. idx < record_count base \<Longrightarrow> no_panic (record_at base idx)"
  shows "no_panic (delta_override b base st)"
proof (cases st)
  case (fields cur seen t)
  show ?thesis
    unfolding delta_override_def fields prod.case
    by (auto intro!: no_panic_intros assms dest!: delta_take_Ret split: prod.split)
qed

lemma delta_overlay_no_panic: "no_panic (delta_overlay b base t end_slot st)"
proof (cases st)
  case (Pair cur extras)
  have listed: "no_panic (go_fold (overlay_kid raw t end_slot p) [0..<cnt] [])" if "length raw = cnt * 4" for raw p cnt
    by (rule go_fold_no_panic) (use that in \<open>auto simp: overlay_kid_def intro!: no_panic_intros\<close>)
  show ?thesis
    unfolding delta_overlay_def Pair prod.case
    by (auto intro!: no_panic_intros listed dest!: delta_take_Ret split: prod.split)
qed

lemma delta_statistics_no_panic: "no_panic (delta_statistics base t)"
  by (auto simp: delta_statistics_def intro!: no_panic_intros validate_no_panic split: option.split)

lemma loaded_record_at:
  assumes "decode_disk_index_with b vol mapped = Ret d" "idx < record_count d"
  shows "no_panic (record_at d idx)"
proof -
  obtain h pool checksum meta where
      "d = (if mapped
            then \<lparr>di_tree = mapped_tree vol (file_base b h pool), di_records = None, di_meta = meta, di_checksum = checksum\<rparr>
            else \<lparr>di_tree = rebuild_child_arrays (heap_tree vol (file_slots b h pool)),
                  di_records = Some (file_records b h pool), di_meta = meta, di_checksum = checksum\<rparr>)"
    using assms(1) by (auto simp: decode_with_Ret)
  with assms(2) show ?thesis
    by (auto simp: record_at_def record_count_def mapped_access base_count_def file_base_def file_slots_def
        intro!: no_panic_intros split: if_splits)
qed

lemma decode_delta_no_panic:
  assumes "\<And>idx. idx < record_count base \<Longrightarrow> no_panic (record_at base idx)"
  shows "no_panic (decode_delta b base)"
  unfolding decode_delta_def Let_def
  by (auto intro!: no_panic_intros delta_header_no_panic delta_statistics_no_panic go_fold_no_panic delta_override_no_panic
      delta_overlay_no_panic assms delta_entries_no_panic dest!: delta_take_Ret split: prod.split)

section \<open>What an accepted delta gives\<close>

text \<open>The changes of a delta stay on the slots: the base and its child lists are those that were loaded.\<close>

definition on_base :: "size_tree \<Rightarrow> size_tree \<Rightarrow> bool" where
  "on_base t u \<longleftrightarrow> st_base t = st_base u \<and> st_child_edits t = st_child_edits u \<and> st_volume t = st_volume u \<and>
     node_count t = node_count u"

lemma delta_overrides_on_base:
  assumes "go_fold (\<lambda>_. delta_override b base) xs (cur, seen, t) = Ret (cur', seen', t')"
  shows "on_base t' t"
proof -
  have step: "on_base t1 u" if "delta_override b base (cur1, seen1, u) = Ret (cur2, seen2, t1)" for cur1 seen1 u cur2 seen2 t1
    using that by (auto simp: delta_override_def go_bind_Ret_iff on_base_def set_slot_def node_count_def base_count_def
        split: if_splits prod.splits)
  show ?thesis
    using assms
  proof (induction xs arbitrary: cur seen t)
    case (Cons x xs)
    then obtain cur1 seen1 t1 where one: "delta_override b base (cur, seen, t) = Ret (cur1, seen1, t1)"
        "go_fold (\<lambda>_. delta_override b base) xs (cur1, seen1, t1) = Ret (cur', seen', t')"
      by (auto simp: go_bind_Ret_iff)
    then show ?case using Cons.IH [OF one(2)] step [OF one(1)] by (simp add: on_base_def)
  qed (simp add: on_base_def)
qed

lemma delta_statistics_Ret:
  assumes "delta_statistics base t = Ret (files, dirs)"
    and "\<And>m. st_base t = Some m \<Longrightarrow> edits_base t m \<and> im_file_count (di_meta base) = base_used_count m False \<and>
      im_dir_count (di_meta base) = base_used_count m True"
  shows "files = count_used t False" "dirs = count_used t True" "disk_tree_ok t True \<longleftrightarrow> no_orphans t"
proof -
  have "files = count_used t False \<and> dirs = count_used t True \<and> (disk_tree_ok t True \<longleftrightarrow> no_orphans t)"
  proof (cases "st_base t")
    case None
    then show ?thesis
      using assms(1) by (auto simp: delta_statistics_def go_bind_Ret_iff validate_tree_ok valid_no_orphans)
  next
    case (Some m)
    note base = assms(2) [OF Some]
    obtain changed where v: "validate_overrides t (base_used_count m False) (base_used_count m True) = Some (changed, files, dirs)"
      using assms(1) Some base by (auto simp: delta_statistics_def split: option.splits)
    show ?thesis using validate_overrides_counts [OF Some v] overrides_valid_iff [OF _ v] base by blast
  qed
  then show "files = count_used t False" "dirs = count_used t True" "disk_tree_ok t True \<longleftrightarrow> no_orphans t" by blast+
qed

lemma read_delta_header_facts:
  assumes "read_delta_header b base = Ret (meta, counts)"
  shows "im_last_event (di_meta base) \<le> im_last_event meta"
    "record_count base + dc_entries counts \<le> unat cache_parent_mask + 1"
proof -
  have bound: "bn + dc_entries c \<le> unat cache_parent_mask + 1" if "read_delta_counts b bn = Ret c" for bn c
  proof -
    define n where "n = dc_entries c"
    have small: "unat w < 18446744073709551616" for w :: u64 using unsigned_less [of w, where 'a = nat] by simp
    have n: "dc_entries c = n" "n < 2 ^ 64" "\<not> (bn + n) mod 2 ^ 64 < bn" "(bn + n) mod 2 ^ 64 \<le> unat cache_parent_mask + 1"
      using that by (auto simp: small n_def read_delta_counts_def nat64_def go_bind_Ret_iff Let_def not_less split: if_splits)
    show ?thesis
    proof (cases "bn + n < 2 ^ 64")
      case False
      moreover have "bn < 2 ^ 64" using n(3,4) by (simp add: mask30 not_less)
      ultimately have "(bn + n) mod 2 ^ 64 = bn + n - 2 ^ 64" using n(2) by (simp add: mod_if)
      then show ?thesis using n(2,3) False by linarith
    qed (use n in simp)
  qed
  show "im_last_event (di_meta base) \<le> im_last_event meta" "record_count base + dc_entries counts \<le> unat cache_parent_mask + 1"
    using assms bound by (auto simp: read_delta_header_def go_bind_Ret_iff not_less split: if_splits)
qed

lemma clone_base:
  "st_base (tree_clone t) = st_base t" "st_volume (tree_clone t) = st_volume t"
  "st_entries (tree_clone t) = st_entries t" "st_base t \<noteq> None \<Longrightarrow> st_child_edits (tree_clone t) = st_child_edits t"
  by (auto simp: tree_clone_def Let_def rebuild_child_arrays_def)

lemma decode_delta_Ret:
  assumes "decode_disk_index_with fb vol mapped = Ret d" "decode_delta b d = Ret (t', meta)"
  shows "im_last_event (di_meta d) \<le> im_last_event meta" "im_file_count meta = count_used t' False"
    "im_dir_count meta = count_used t' True" "im_total_size meta = size_of t' 0" "disk_tree_ok t' True \<longleftrightarrow> no_orphans t'"
proof -
  obtain counts raw cur1 pool cur2 added cur3 seen t cur4 extras files dirs where
    header: "read_delta_header b d = Ret (meta, counts)"
    and added: "go_map (delta_entry raw pool) [0..<dc_entries counts] = Ret added"
    and ovr: "go_fold (\<lambda>_. delta_override b d) [0..<dc_overrides counts]
        (cur2, [], (tree_clone (di_tree d))\<lparr>st_entries := st_entries (tree_clone (di_tree d)) @ added\<rparr>) = Ret (cur3, seen, t)"
    and stats: "delta_statistics d t = Ret (files, dirs)"
    and meta: "im_file_count meta = files" "im_dir_count meta = dirs" "im_total_size meta = size_of t 0"
    and t': "t' = rebuild_child_arrays t"
    using assms(2) unfolding decode_delta_def Let_def
    by (auto simp: go_bind_Ret_iff cache_invalid_def split: if_splits prod.splits)
  define t0 where "t0 = (tree_clone (di_tree d))\<lparr>st_entries := st_entries (tree_clone (di_tree d)) @ added\<rparr>"
  have on: "on_base t t0" using delta_overrides_on_base [OF ovr] by (simp add: t0_def)
  note facts = read_delta_header_facts [OF header]
  have len: "length added = dc_entries counts" using added by (auto simp: go_map_Ret dest: list_all2_lengthD)
  have base: "edits_base t m \<and> im_file_count (di_meta d) = base_used_count m False \<and> im_dir_count (di_meta d) = base_used_count m True"
    if m: "st_base t = Some m" for m
  proof -
    have dm: "st_base (di_tree d) = Some m" using on m by (simp add: on_base_def t0_def clone_base)
    have "mapped"
      using assms(1) dm by (auto simp: decode_with_Ret rebuilt_access split: if_splits)
    then obtain m' where m': "st_base (di_tree d) = Some m'" "edits_base (di_tree d) m'"
      "im_file_count (di_meta d) = base_used_count m' False" "im_dir_count (di_meta d) = base_used_count m' True"
      using loaded_edits_base assms(1) by metis
    then have "m' = m" using dm by simp
    have "st_entries (di_tree d) = []" "record_count d = base_count (di_tree d)"
      using assms(1) \<open>mapped\<close> by (auto simp: decode_with_Ret mapped_tree_def heap_tree_def record_count_def)
    then have "node_count t0 = record_count d + dc_entries counts"
      using len by (simp add: t0_def node_count_def base_count_def clone_base)
    then have nodes: "node_count t = record_count d + dc_entries counts" using on by (simp add: on_base_def)
    have "child_list t p = child_list (di_tree d) p" for p
      using on m dm by (simp add: child_list_def on_base_def t0_def clone_base)
    moreover have "st_volume t = st_volume (di_tree d)" using on by (simp add: on_base_def t0_def clone_base)
    ultimately show ?thesis
      using m'(2-4) m facts(2) nodes unfolding \<open>m' = m\<close> by (simp add: edits_base_def)
  qed
  note stats = delta_statistics_Ret [OF stats base]
  have same: "same_slots t' t" by (simp add: t' same_slots_rebuild)
  show "im_last_event (di_meta d) \<le> im_last_event meta" by (rule facts(1))
  show "im_file_count meta = count_used t' False" "im_dir_count meta = count_used t' True" "im_total_size meta = size_of t' 0"
    "disk_tree_ok t' True \<longleftrightarrow> no_orphans t'"
    using stats meta by (simp_all add: same_slots_eq [OF same])
qed

text \<open>
  C13: a delta, whatever its bytes, is read onto a loaded base without going out of
  range; when it is accepted, its watermark is not older than the base, the counts and the size it
  announces are those of the tree it gives, and this tree passes the validation of every slot exactly
  if no live slot hangs below a removed one.
\<close>

theorem decode_delta_spec:
  "case decode_disk_index_with fb vol mapped of
     Ret d \<Rightarrow>
       (case decode_delta b d of
          Ret (t, meta) \<Rightarrow>
            im_last_event (di_meta d) \<le> im_last_event meta \<and>
            (im_file_count meta, im_dir_count meta, im_total_size meta) = (count_used t False, count_used t True, size_of t 0) \<and>
            (validate_disk_tree t True = Ret ()) = no_orphans t
        | Err e \<Rightarrow> True
        | Panic \<Rightarrow> False)
   | _ \<Rightarrow> True"
proof (cases "decode_disk_index_with fb vol mapped")
  case (Ret d)
  have "no_panic (decode_delta b d)" by (rule decode_delta_no_panic) (rule loaded_record_at [OF Ret])
  then show ?thesis
    using decode_delta_Ret [OF Ret, of b] by (auto simp: Ret no_panic_def validate_tree_ok split: go.split)
qed simp_all

end
