(* ===== verification/Index_Sample.thy ===== *)
theory Index_Sample
  imports Index_Changes "HOL-Library.Code_Target_Nat"
begin

text \<open>
  Two trees for the writer: one whose file comes before its directory, as in an acquisition by record
  number, and an ordered one with a removed slot.
\<close>

definition sample_entry :: "nat \<Rightarrow> string \<Rightarrow> bool \<Rightarrow> u64 \<Rightarrow> tree_slot" where
  "sample_entry p name directory sz =
    \<lparr>ts_parent = p, ts_name = name, ts_is_dir = directory, ts_size = sz, ts_used = True, ts_mtime = 7, ts_files = 1\<rparr>"

definition sample_volume :: volume_id where
  "sample_volume = \<lparr>vol_label = ''D'', vol_mount = ''/''\<rparr>"

definition forward_tree :: size_tree where
  "forward_tree = heap_tree sample_volume
    [sample_entry 0 ''/'' True 5, sample_entry 2 ''a'' False 5, sample_entry 0 ''d'' True 5]"

definition ordered_tree :: size_tree where
  "ordered_tree = heap_tree sample_volume
    [sample_entry 0 ''/'' True 5, sample_entry 0 ''d'' True 5, dead_slot, sample_entry 1 ''a'' False 5]"

definition sample_meta :: "size_tree \<Rightarrow> index_meta" where
  "sample_meta t = \<lparr>im_last_event = 9, im_scanned_at = 11, im_file_count = count_used t False,
     im_dir_count = count_used t True, im_total_size = 5\<rparr>"

lemma sample_trees_valid:
  "validate_disk_tree forward_tree False = Ret ()" "validate_disk_tree ordered_tree False = Ret ()"
  by code_simp+

lemma sample_bases:
  "coherent_base forward_tree" "coherent_base ordered_tree" "counted_base forward_tree" "counted_base ordered_tree"
  by (simp_all add: coherent_base_def counted_base_def forward_tree_def ordered_tree_def heap_tree_def)

lemma sample_labels: "utf8_valid (vol_mount sample_volume @ vol_label sample_volume)"
  by code_simp

theorem encode_decode_witness:
  "\<exists>order remap. order_ok forward_tree order remap \<and>
    (if index_too_large sample_volume (compacted forward_tree order remap)
     then encode_disk_index forward_tree sample_volume (sample_meta forward_tree) = Some (Err (IndexCorrupt ''base exceeds v7 offsets''))
     else \<exists>b. encode_disk_index forward_tree sample_volume (sample_meta forward_tree) = Some (Ret b) \<and>
       (cache_checksum b 72 \<noteq> 0 \<longrightarrow>
        (\<forall>mapped. \<exists>d. decode_disk_index_with b sample_volume mapped = Ret d \<and>
          reloaded forward_tree order remap (sample_meta forward_tree) d)))"
  by (rule encode_decode [OF sample_trees_valid(1) sample_bases(1,3) sample_labels])
    (simp add: meta_of_tree_def sample_meta_def)

theorem ordered_encoding_witness:
  "\<exists>r. encode_ordered ordered_tree sample_volume (sample_meta ordered_tree) = Some r \<and>
    encode_unordered ordered_tree sample_volume (sample_meta ordered_tree) = Some r"
proof -
  have "ordered_slots ordered_tree [0..<node_count ordered_tree] [] (replicate (node_count ordered_tree) 0) \<noteq> None"
    by code_simp
  then obtain r where r: "encode_ordered ordered_tree sample_volume (sample_meta ordered_tree) = Some r"
    by (auto simp: encode_ordered_def)
  with ordered_encoding [OF sample_trees_valid(2) sample_bases(2) r] show ?thesis by blast
qed

section \<open>Changes on a mapped base\<close>

definition sample_base :: mapped_base where
  "sample_base = \<lparr>mb_slots = [sample_entry 0 ''/'' True 5, sample_entry 0 ''d'' True 5, sample_entry 1 ''a'' False 5],
     mb_children = [[1], [2], []], mb_name_offs = [0, 3, 6],
     mb_header = replicate 32 0 @ put_le 8 (1 :: u64) @ put_le 8 (2 :: u64) @ replicate 80 0, mb_tags = []\<rparr>"

text \<open>A file of the base grew and another one was added.\<close>

definition edited_tree :: size_tree where
  "edited_tree = (mapped_tree sample_volume sample_base)\<lparr>st_overrides := [2 \<mapsto> sample_entry 1 ''a'' False 9],
     st_entries := [sample_entry 1 ''b'' False 4]\<rparr>"

text \<open>A directory of the base was removed, but not the file in it.\<close>

definition orphan_tree :: size_tree where
  "orphan_tree = (mapped_tree sample_volume sample_base)\<lparr>st_overrides := [1 \<mapsto> (sample_entry 0 ''d'' True 5)\<lparr>ts_used := False\<rparr>]\<rparr>"

theorem validate_overrides_spec_witness:
  "validate_overrides edited_tree (base_used_count sample_base False) (base_used_count sample_base True) = Some ([2], 2, 2)"
proof -
  have ok: "validate_disk_tree (mapped_tree (st_volume edited_tree) sample_base) True = Ret ()" by code_simp
  have used: "\<forall>s \<in> set (mb_slots sample_base). ts_used s" by code_simp
  have bound: "node_count edited_tree \<le> unat cache_parent_mask + 1" by code_simp
  have kids: "list_all (\<lambda>k. k = 0 \<or> k \<in> set (child_list edited_tree (ts_parent (mb_slots sample_base ! k)))) [0..<length (mb_slots sample_base)]"
    by code_simp
  have "k \<in> set (child_list edited_tree (ts_parent (mb_slots sample_base ! k)))" if "k < length (mb_slots sample_base)" "0 < k" for k
    using kids [unfolded list_all_iff, THEN bspec, of k] that by simp
  with ok used bound have base: "edits_base edited_tree sample_base"
    unfolding edits_base_def validate_tree_ok by (intro conjI) (simp_all add: edited_tree_def mapped_tree_def)
  have "no_orphans edited_tree" by code_simp
  have valid: "validate_disk_tree edited_tree True = Ret ()" by code_simp
  have same: "keeps_identity edited_tree sample_base" by code_simp
  have files: "count_used edited_tree False = 2" by code_simp
  have dirs: "count_used edited_tree True = 2" by code_simp
  have changed: "filter (changed_slot edited_tree sample_base) [0..<length (mb_slots sample_base)] = [2]" by code_simp
  show ?thesis
    by (simp add: validate_overrides_spec [OF base \<open>no_orphans edited_tree\<close>] valid same files dirs changed)
qed

text \<open>
  The validation of overrides does not see a live file under a removed
  directory of the base: it asks for the children of the directory, and a removed directory answers
  with none.  The tree it accepts is refused by the validation of every slot.
\<close>

theorem removed_directory_accepted:
  "validate_overrides orphan_tree (base_used_count sample_base False) (base_used_count sample_base True) = Some ([1], 1, 1) \<and>
   validate_disk_tree orphan_tree True = Err (IndexCorrupt ''invalid parent'')"
proof
  have base: "st_base orphan_tree = Some sample_base" by (simp add: orphan_tree_def mapped_tree_def)
  have root: "\<not> bad_root orphan_tree" by code_simp
  have edits: "edits_fine orphan_tree sample_base" by code_simp
  have added: "added_fine orphan_tree" by code_simp
  have changed: "filter (changed_slot orphan_tree sample_base) [0..<length (mb_slots sample_base)] = [1]" by code_simp
  have files: "count_used orphan_tree False = 1" by code_simp
  have dirs: "count_used orphan_tree True = 1" by code_simp
  show "validate_overrides orphan_tree (base_used_count sample_base False) (base_used_count sample_base True) = Some ([1], 1, 1)"
    by (simp add: validate_overrides_eval [OF base] root edits added changed files dirs)
  show "validate_disk_tree orphan_tree True = Err (IndexCorrupt ''invalid parent'')" by code_simp
qed

end
