(* ===== verification/Spec2Isabelle.thy ===== *)
theory Spec2Isabelle
  imports Mft_Table Name_Pattern Size_Tree_Edits Size_Tree_Query Size_Tree_Totals Cleaner_Report Plan_Sample Clean_Sample
    Index_Sample
begin

text \<open>
  A model of \<^bold>\<open>quick-cleaner\<close>, a disk analyser and cleaner in Go.  The program has four layers:
  \<^verbatim>\<open>internal/platform\<close> (calls to the operating system, the NTFS reader), \<^verbatim>\<open>internal/core\<close> (all decisions:
  what a disk holds, what may be removed, how it is removed), \<^verbatim>\<open>internal/app\<close> and \<^verbatim>\<open>internal/cli\<close> (workers
  and state of the user interface) and \<^verbatim>\<open>internal/ui\<close> (views).  The model follows the core and the NTFS
  reader; the other layers call them and draw the results.

  \<^bold>\<open>How the parts interact.\<close>  A volume is read either by the NTFS reader, which turns records of the master
  file table into slots, or by walking directories.  The slots become a \<^verbatim>\<open>SizeTree\<close>, which answers the
  queries of the disk page, is edited as files come and go, and is written to and loaded from an index
  file.  The junk scan evaluates the declared rules (facts, variables, paths, versions) and native
  providers (docker, brew, snapshots, worktrees) into targets; the scanner measures them, removes
  overlaps and freezes a plan for each item.  A cleanup takes the selected targets, validates rule and
  plans again, asks who uses the paths, and runs the steps of the plan through an executor, which calls
  the file cleaner or another program; the file cleaner consults the safety policy, the whitelist, the
  identity of objects and the database guard before each removal.

  \<^bold>\<open>Theories and sources.\<close>
  \<^item> \<open>Go_Base\<close>, \<open>Go_Utf8\<close>, \<open>Go_Path\<close>, \<open>Path_Rel\<close>, \<open>Go_Sort\<close>, \<open>Go_Float\<close>, \<open>Eval_Paths\<close>: the parts of Go and its standard
    library that the code uses: results with errors and panics (\<open>Ret\<close>, \<open>Err\<close>, \<open>Panic\<close>), slices with bounds,
    little-endian integers, UTF-8, \<^verbatim>\<open>strings\<close>, \<^verbatim>\<open>path/filepath\<close>, stable sorting, \<^verbatim>\<open>strconv.ParseFloat\<close>.
  \<^item> \<open>Mft_Parser\<close>, \<open>Mft_Runs\<close>, \<open>Mft_Record\<close> (\<^verbatim>\<open>platform/mft_parser.go\<close>) and \<open>Mft_Scan\<close> (\<^verbatim>\<open>platform/mft_scan.go\<close>): no
    byte sequence makes the parser panic; the fix-up, the run list and the names are what the disk
    format says; parsing a run list inverts encoding it.  \<open>Mft_Table\<close> says what the table on a disk is
    (the runs of its first record and of the extension records that the attribute list names) and that
    a scan, whatever its number of chunks, returns the entries of exactly its records, in order.
  \<^item> \<open>Name_Pattern\<close> (\<^verbatim>\<open>filename_pattern.go\<close>, \<^verbatim>\<open>fs_query.go\<close>): the matcher with backtracking decides the glob
    relation.
  \<^item> \<open>Size_Tree\<close>, \<open>Size_Tree_Edit\<close>, \<open>Size_Tree_Query\<close> (\<^verbatim>\<open>disk_tree.go\<close>) with \<open>Size_Tree_Chain\<close>, \<open>_Totals\<close>, \<open>_Lookup\<close>,
    \<open>_Inv\<close>, \<open>_Remove\<close>, \<open>_Ops\<close>, \<open>_Upsert\<close>, \<open>_Edits\<close>: building a tree gives every directory the exact total of what
    is below it and returns for every input; the incremental edits keep these totals, the links, the name
    cache and the stamps; an inserted file is found again; the ancestor walk changes each directory once.
  \<^item> \<open>Disk_Selection\<close> (\<^verbatim>\<open>disk_selection.go\<close>): selections with exclusions, and the targets they resolve to.
  \<^item> \<open>Index_Format\<close>, \<open>Index_Decode\<close>, \<open>Index_Encode\<close> (\<^verbatim>\<open>disk_index_cache_format.go\<close>, \<^verbatim>\<open>disk_index_mapped_unix.go\<close>):
    the file that keeps a tree.  \<open>Index_Valid\<close>: the validation accepts exactly the well-formed trees.
    \<open>Index_Load\<close>, \<open>Index_Accept\<close>: reading never goes out of range, the heap loader and the mapped loader accept
    the same files and agree, and what they accept is well-formed.  \<open>Index_Buffer\<close>, \<open>Index_Stored\<close>,
    \<open>Index_Reload\<close>, \<open>Index_Order\<close>, \<open>Index_Writer\<close>, \<open>Index_Unordered\<close>, \<open>Index_Sorted\<close>, \<open>Index_Roundtrip\<close>: the two encoders
    write the same bytes and both loaders read them back.  \<open>Index_Sample\<close> has the concrete trees.
  \<^item> \<open>Index_Delta\<close> (\<^verbatim>\<open>disk_index_cache_delta.go\<close>, \<^verbatim>\<open>disk_index_cache_overrides.go\<close>): the changes on a base.
    \<open>Index_Edits\<close>: validating only the changes decides what validating every slot decides, up to live slots
    below removed ones; \<open>Index_Changes\<close>: reading a delta never goes out of range and its counts are those of
    the tree.  \<open>Index_Sample\<close> also has the tree with a removed directory that the code accepts.
  \<^item> \<open>Safety\<close> (\<^verbatim>\<open>safety.go\<close>, \<^verbatim>\<open>whitelist.go\<close>), \<open>Os_Model\<close>, \<open>Cleaner_Guards\<close> (\<^verbatim>\<open>identity.go\<close>, \<^verbatim>\<open>database_guard.go\<close>),
    \<open>Cleaner_Files\<close> (\<^verbatim>\<open>cleaner_files.go\<close>, \<^verbatim>\<open>cleaner.go\<close>): the removal of files.  \<open>Cleaner_Safety\<close>: only paths
    that the policy leaves free and where no managed worktree was seen are touched, whatever the system
    answers; \<open>Cleaner_Counts\<close>, \<open>Cleaner_Report\<close>: the report agrees with
    what was removed.
  \<^item> \<open>Rule_Paths\<close>, \<open>Rule_Json\<close>, \<open>Rule_Evidence\<close>, \<open>Rule_Probe\<close>, \<open>Rule_Variables\<close>, \<open>Rule_Ref\<close> (\<^verbatim>\<open>rule_bundle.go\<close>,
    \<^verbatim>\<open>rule_facts.go\<close>, \<^verbatim>\<open>rule_variables.go\<close>, \<^verbatim>\<open>rule_types.go\<close>, \<^verbatim>\<open>rule_versions.go\<close>, \<^verbatim>\<open>plan_rule.go\<close>): the rule language; its
    conditions are Kleene's three-valued logic, variables are evaluated in dependency order and expanded
    paths stay confined.
  \<^item> \<open>Plan_Operation\<close>, \<open>Plan_Target\<close>, \<open>Worktrees\<close>, \<open>Installation\<close>, \<open>Plan\<close>, \<open>Plan_Flow\<close>, \<open>Plan_Executors\<close>
    (\<^verbatim>\<open>plan_operation.go\<close>, \<^verbatim>\<open>plan.go\<close>, \<^verbatim>\<open>worktrees.go\<close>, \<^verbatim>\<open>plan_installation.go\<close>, \<^verbatim>\<open>plan_flow.go\<close>, \<^verbatim>\<open>owner.go\<close>, \<^verbatim>\<open>inuse.go\<close>):
    plans and their executors.  \<open>Plan\<close> also has the validation as a relation: the chain of states it goes
    through and what it sees of the disk in each (\<open>plan_checked\<close>).  \<open>Plan_Steps\<close>, \<open>Plan_Runs\<close>, \<open>Plan_Safety\<close>: nothing
    changes before such a chain from the state in which the execution started (\<open>target_checked\<close>, and
    \<open>ready_seen\<close> for a worktree), only unprotected paths are changed, and a run without error is complete.
    \<open>Plan_Sample\<close>: a disk in memory.
  \<^item> \<open>Scan_Targets\<close> (\<^verbatim>\<open>categories.go\<close>), \<open>Scanner\<close> (\<^verbatim>\<open>scanner.go\<close>), \<open>Native_Tools\<close>, \<open>Native_Plan\<close> (\<^verbatim>\<open>docker.go\<close>, \<^verbatim>\<open>brew.go\<close>,
    \<^verbatim>\<open>snapshots.go\<close>), \<open>Clean_Targets\<close> (\<^verbatim>\<open>cleaner_targets.go\<close>, \<^verbatim>\<open>cleaner_trash.go\<close>): from rules to items and from
    items to a cleanup.  \<open>Clean_Safety\<close>, \<open>Clean_Merge\<close>: the whole cleanup is safe up to named exceptions (the
    programs it starts, access rights of Windows trash directories), a target is touched only from the
    state in which the chain of its checks ended (\<open>authorized\<close>), a scanned item is cleaned under the plan that was frozen for it, and merging
    selections loses no plan.  \<open>Clean_Sample\<close>: the scan and the cleanup of the sample disk.

  \<^bold>\<open>Conventions.\<close>  A Go struct is a record, an enumeration a datatype, \<^verbatim>\<open>uint64\<close> and friends are words that
  wrap; indices into slices are natural numbers (the code keeps them below \<open>2 ^ 32\<close>); strings are lists
  of bytes.  Calls to the operating system and to other programs are fields of a record that a
  state-passing computation runs: every property holds for every answer of them.  Parsers of the standard
  library that are not written out (\<^verbatim>\<open>json.Unmarshal\<close>, SHA-256, the texts of errors) are fields of the
  environment too.  A Go map is a map, or an association list where the order of iteration shows.
  A file name is a POSIX path where nothing else is said; the Windows rules are modelled where the code
  states them separately.  Case folding beyond ASCII is a parameter.

  \<^bold>\<open>Bounds and fuel.\<close>  Loops that the types do not bound carry fuel that is proved to be enough, or the
  bound of the code: the ancestor walk stops after 257 steps and paths have at most 513 links, as in
  the code; the roll-up of totals takes one step per slot; removing a directory recursively has the depth
  of the tree as fuel and \<open>None\<close> when it is exhausted; references of variables are visited at most 32
  deep, conditions at most 32 deep; splitting of targets is 8 deep with 4096 steps as in the code;
  resolving a selection needs one step more than its deepest exclusion; the traversal of the encoder
  takes at most one step per slot, which is proved for every valid tree.

  \<^bold>\<open>Simplifications.\<close>  Workers that the code runs in parallel are atomic tasks in an order that an
  argument chooses; locks, timings, progress callbacks and logs are left out.  The whitelist does not
  change during a cleanup.  Counters of reports do not overflow.  \<^verbatim>\<open>container/heap\<close> and \<^verbatim>\<open>sort\<close> are given by their
  contracts.  A listing of a directory is one answer.  \<^verbatim>\<open>AppendSubtree\<close> does not compare pointers, and
  \<^verbatim>\<open>UpsertFileWithMtime\<close> is characterised for names that do not replace another node.  A mapped base is the
  list of its decoded slots, child rows, name offsets and its header.  The encoders are characterised
  for trees whose root is used, which validation demands before them.  A file whose checksum is zero is
  written but never accepted, so the round trip excludes it.

  \<^bold>\<open>Not modelled.\<close>  The user interface and its controllers (\<^verbatim>\<open>internal/app\<close>, \<^verbatim>\<open>internal/ui\<close>, \<^verbatim>\<open>internal/cli\<close>,
  \<^verbatim>\<open>cmd\<close>), which draw and start workers; the calls to the systems in \<^verbatim>\<open>internal/platform\<close>, which are
  arguments here; the inventory of applications and its residuals (\<^verbatim>\<open>apps*.go\<close>, \<^verbatim>\<open>app_owner.go\<close>), declutter,
  development environments, status, updater, settings, history; the decoding and validation of rule bundles
  (\<^verbatim>\<open>rule_decode.go\<close>, \<^verbatim>\<open>rule_validation.go\<close>, \<^verbatim>\<open>rule_claims.go\<close>, \<^verbatim>\<open>rule_directories.go\<close>), whose results are the declarations
  the model starts from; the scan for build directories (\<^verbatim>\<open>devscan.go\<close>); and of the index the journal of
  macOS, the spill builder, coverage files, publishing and pruning.
\<close>

end
